(* ===== verification/Espial_Prelude.thy ===== *)
theory Espial_Prelude
  imports
    Main
    "HOL-Library.Char_ord"
    "HOL-Library.List_Lexorder"
    "HOL-Library.Product_Lexorder"
    "HOL-Library.Signed_Division"
    "HOL-Library.Multiset"
begin

text \<open>
  Shared vocabulary of the development: instants and durations of Go's \<open>time\<close> package,
  two's complement arithmetic at 64 bits, the list operations behind the SQL statements of
  the Go sources (\<open>WHERE\<close>, \<open>UPDATE\<close>, \<open>ORDER BY ... LIMIT\<close>), and the theorem
  collections the component theories extend.

  An instant is the number of nanoseconds since Go's zero time (January 1, year 1, UTC), so
  \<open>IsZero\<close> is equality with 0 and \<open>Truncate\<close> rounds down to a multiple since that instant.
  All Go code modelled here normalises to UTC first, so a location is not represented.
\<close>

named_theorems frame_intros
named_theorems preserves_intros
named_theorems row_simps

section \<open>Instants and durations\<close>

type_synonym time = int
type_synonym duration = int

definition microsecond :: duration where
  "microsecond = 1000"

definition second :: duration where
  "second = 1000000000"

definition truncate_us :: "time \<Rightarrow> time" where
  "truncate_us t = t - t mod microsecond"

lemma truncate_us_le: "truncate_us t \<le> t"
  by (simp add: truncate_us_def microsecond_def)

lemma truncate_us_gt: "t < truncate_us t + microsecond"
  by (simp add: truncate_us_def microsecond_def)

lemma truncate_us_idem [simp]: "truncate_us (truncate_us t) = truncate_us t"
  by (simp add: truncate_us_def microsecond_def mod_diff_left_eq)

lemma truncate_us_mono: "s \<le> t \<Longrightarrow> truncate_us s \<le> truncate_us t"
proof -
  assume st: "s \<le> t"
  have trunc: "truncate_us x = 1000 * (x div 1000)" for x
    by (simp add: truncate_us_def microsecond_def minus_mod_eq_mult_div)
  from st have "s div 1000 \<le> t div 1000" by (rule zdiv_mono1) simp
  then show ?thesis by (simp add: trunc)
qed

text \<open>The value of a signed 64-bit expression of the source: wrap-around is explicit.\<close>

definition wrap64 :: "int \<Rightarrow> int" where
  "wrap64 x = (x + 2 ^ 63) mod 2 ^ 64 - 2 ^ 63"

lemma wrap64_id: "- (2 ^ 63) \<le> x \<Longrightarrow> x < 2 ^ 63 \<Longrightarrow> wrap64 x = x"
  by (simp add: wrap64_def)

lemma wrap64_range: "- (2 ^ 63) \<le> wrap64 x \<and> wrap64 x < 2 ^ 63"
proof -
  have "0 \<le> (x + 2 ^ 63) mod 2 ^ 64" and "(x + 2 ^ 63) mod 2 ^ 64 < (2 ^ 64 :: int)"
    by (rule pos_mod_sign, simp) (rule pos_mod_bound, simp)
  then show ?thesis by (simp add: wrap64_def)
qed

text \<open>Go's integer division truncates towards zero; on the non-negative values used here it
  agrees with \<open>div\<close>.\<close>

lemma sdiv_nonneg: "0 \<le> (a::int) \<Longrightarrow> 0 < b \<Longrightarrow> a sdiv b = a div b"
  by (cases "a = 0") (simp_all add: signed_divide_int_def)

text \<open>\<open>time.Sub\<close> saturates at the width of a duration.\<close>

definition Sub :: "time \<Rightarrow> time \<Rightarrow> duration" where
  "Sub a b = max (- (2 ^ 63)) (min (2 ^ 63 - 1) (a - b))"

section \<open>Tables as lists of rows\<close>

text \<open>
  A table is a list of rows in insertion order. \<open>update_where\<close> is an SQL \<open>UPDATE\<close>,
  \<open>first_by\<close> an \<open>ORDER BY key LIMIT 1\<close>, \<open>find_row\<close> a lookup by (primary) key.
\<close>

definition update_where :: "('r \<Rightarrow> bool) \<Rightarrow> ('r \<Rightarrow> 'r) \<Rightarrow> 'r list \<Rightarrow> 'r list" where
  "update_where p f rows = map (\<lambda>r. if p r then f r else r) rows"

definition find_row :: "('r \<Rightarrow> 'k) \<Rightarrow> 'k \<Rightarrow> 'r list \<Rightarrow> 'r option" where
  "find_row key k rows = List.find (\<lambda>r. key r = k) rows"

definition first_by :: "('r \<Rightarrow> 'k::linorder) \<Rightarrow> 'r list \<Rightarrow> 'r option" where
  "first_by key rows = (case sort_key key rows of [] \<Rightarrow> None | r # _ \<Rightarrow> Some r)"

lemma length_update_where [row_simps, simp]: "length (update_where p f rows) = length rows"
  by (simp add: update_where_def)

lemma update_where_Nil [row_simps, simp]: "update_where p f [] = []"
  by (simp add: update_where_def)

lemma update_where_Cons [row_simps, simp]:
  "update_where p f (r # rows) = (if p r then f r else r) # update_where p f rows"
  by (simp add: update_where_def)

lemma update_where_append [row_simps, simp]:
  "update_where p f (xs @ ys) = update_where p f xs @ update_where p f ys"
  by (simp add: update_where_def)

lemma set_update_where:
  "set (update_where p f rows) = (\<lambda>r. if p r then f r else r) ` set rows"
  by (simp add: update_where_def)

lemma map_update_where:
  "(\<And>r. r \<in> set rows \<Longrightarrow> p r \<Longrightarrow> g (f r) = g r) \<Longrightarrow> map g (update_where p f rows) = map g rows"
  by (induction rows) auto

lemma update_where_none:
  "(\<And>r. r \<in> set rows \<Longrightarrow> \<not> p r) \<Longrightarrow> update_where p f rows = rows"
  by (induction rows) auto

lemma find_row_Nil [row_simps, simp]: "find_row key k [] = None"
  by (simp add: find_row_def)

lemma find_row_Cons [row_simps, simp]:
  "find_row key k (r # rows) = (if key r = k then Some r else find_row key k rows)"
  by (simp add: find_row_def)

lemma find_row_append:
  "find_row key k (xs @ ys) =
     (case find_row key k xs of None \<Rightarrow> find_row key k ys | Some r \<Rightarrow> Some r)"
  by (induction xs) auto

lemma find_row_SomeD: "find_row key k rows = Some r \<Longrightarrow> r \<in> set rows \<and> key r = k"
  by (induction rows) (auto split: if_splits)

lemma find_row_NoneD: "find_row key k rows = None \<Longrightarrow> r \<in> set rows \<Longrightarrow> key r \<noteq> k"
  by (induction rows) (auto split: if_splits)

lemma find_row_None_iff: "find_row key k rows = None \<longleftrightarrow> k \<notin> key ` set rows"
  by (induction rows) auto

lemma find_row_distinct:
  "distinct (map key rows) \<Longrightarrow> r \<in> set rows \<Longrightarrow> find_row key (key r) rows = Some r"
  by (induction rows) (auto simp: image_iff)

lemma find_row_update_where:
  assumes "\<And>r. p r \<Longrightarrow> key (f r) = key r"
  shows "find_row key k (update_where p f rows) =
    map_option (\<lambda>r. if p r then f r else r) (find_row key k rows)"
  using assms by (induction rows) auto

lemma first_by_None [simp]: "first_by key rows = None \<longleftrightarrow> rows = []"
  by (cases "sort_key key rows") (auto simp: first_by_def dest: arg_cong [of _ _ length])

lemma first_by_Some_in: "first_by key rows = Some r \<Longrightarrow> r \<in> set rows"
  by (cases "sort_key key rows")
    (auto simp: first_by_def dest: arg_cong [of _ _ set])

lemma first_by_least:
  assumes "first_by key rows = Some r" and "x \<in> set rows"
  shows "key r \<le> key x"
proof -
  from assms(1) obtain rs where rs: "sort_key key rows = r # rs"
    by (cases "sort_key key rows") (auto simp: first_by_def)
  have "sorted (map key (r # rs))"
    using sorted_sort_key [of key rows] rs by simp
  moreover have "x \<in> set (r # rs)"
    using assms(2) rs by (metis set_sort)
  ultimately show ?thesis by auto
qed

lemma first_by_unique:
  assumes "r \<in> set rows" and "\<And>x. x \<in> set rows \<Longrightarrow> x \<noteq> r \<Longrightarrow> key r < key x"
  shows "first_by key rows = Some r"
proof -
  from assms(1) have "first_by key rows \<noteq> None" by auto
  then obtain x where x: "first_by key rows = Some x" by blast
  then have "x \<in> set rows" by (rule first_by_Some_in)
  moreover have "key x \<le> key r" using x assms(1) by (rule first_by_least)
  ultimately have "x = r" using assms(2) by force
  with x show ?thesis by simp
qed

lemma sort_key_cong_on:
  assumes "\<And>x y. x \<in> set rows \<Longrightarrow> y \<in> set rows \<Longrightarrow> (key x \<le> key y) = (key' x \<le> key' y)"
  shows "sort_key key rows = sort_key key' rows"
proof -
  have ins: "insort_key key x ys = insort_key key' x ys"
    if "\<And>y. y \<in> set ys \<Longrightarrow> (key x \<le> key y) = (key' x \<le> key' y)" for x ys
    using that by (induction ys) auto
  show ?thesis
    using assms
  proof (induction rows)
    case Nil
    then show ?case by simp
  next
    case (Cons a rows)
    then have "sort_key key rows = sort_key key' rows" by simp
    moreover have "insort_key key a (sort_key key' rows) = insort_key key' a (sort_key key' rows)"
      by (rule ins) (use Cons.prems in auto)
    ultimately show ?case by simp
  qed
qed

lemma set_take_sort_key: "set (take n (sort_key key rows)) \<subseteq> set rows"
  using set_take_subset [of n "sort_key key rows"] by simp

lemma distinct_map_take_sort_key:
  assumes "distinct (map g rows)"
  shows "distinct (map g (take n (sort_key key rows)))"
proof -
  have "distinct (map g (sort_key key rows))"
    using assms by (metis distinct_map distinct_sort set_sort)
  then show ?thesis by (metis distinct_take take_map)
qed

lemma length_filter_mono:
  "(\<And>x. x \<in> set xs \<Longrightarrow> p x \<Longrightarrow> q x) \<Longrightarrow> length (filter p xs) \<le> length (filter q xs)"
  by (induction xs) (auto intro: le_SucI)

end
