(* ===== verification/Go_Text.thy ===== *)
theory Go_Text
  imports Espial_Prelude
begin

text \<open>
  Go strings as byte strings (\<open>string\<close>, one \<open>char\<close> per byte), and what the sources use of
  \<open>unicode/utf8\<close>, \<open>strings\<close>, \<open>unicode\<close> and \<open>regexp\<close>: segmentation into runes with Go's
  treatment of ill-formed bytes, \<open>RuneCountInString\<close>, \<open>TrimSpace\<close>, \<open>ToLower\<close>, the
  identifier and UUID patterns, and \<open>boundedText\<close> of the incident evaluator.
\<close>

section \<open>UTF-8 segmentation\<close>

definition byte :: "char \<Rightarrow> nat" where
  "byte c = of_char c"

definition continuation :: "char \<Rightarrow> bool" where
  "continuation c \<longleftrightarrow> 0x80 \<le> byte c \<and> byte c \<le> 0xBF"

text \<open>
  The number of bytes \<open>utf8.DecodeRuneInString\<close> consumes: the length of a well-formed
  sequence at the head of the string, and 1 for an ill-formed one.
\<close>

fun rune_width :: "string \<Rightarrow> nat" where
  "rune_width [] = 0"
| "rune_width [_] = 1"
| "rune_width [a, b] =
     (if 0xC2 \<le> byte a \<and> byte a \<le> 0xDF \<and> continuation b then 2 else 1)"
| "rune_width [a, b, c] =
     (if 0xC2 \<le> byte a \<and> byte a \<le> 0xDF \<and> continuation b then 2
      else if 0xE0 \<le> byte a \<and> byte a \<le> 0xEF \<and> continuation b \<and> continuation c
              \<and> (byte a = 0xE0 \<longrightarrow> 0xA0 \<le> byte b) \<and> (byte a = 0xED \<longrightarrow> byte b \<le> 0x9F) then 3
      else 1)"
| "rune_width (a # b # c # d # s) =
     (if 0xC2 \<le> byte a \<and> byte a \<le> 0xDF \<and> continuation b then 2
      else if 0xE0 \<le> byte a \<and> byte a \<le> 0xEF \<and> continuation b \<and> continuation c
              \<and> (byte a = 0xE0 \<longrightarrow> 0xA0 \<le> byte b) \<and> (byte a = 0xED \<longrightarrow> byte b \<le> 0x9F) then 3
      else if 0xF0 \<le> byte a \<and> byte a \<le> 0xF4 \<and> continuation b \<and> continuation c \<and> continuation d
              \<and> (byte a = 0xF0 \<longrightarrow> 0x90 \<le> byte b) \<and> (byte a = 0xF4 \<longrightarrow> byte b \<le> 0x8F) then 4
      else 1)"

lemma rune_width_pos: "s \<noteq> [] \<Longrightarrow> 0 < rune_width s"
  by (cases s rule: rune_width.cases) auto

lemma rune_width_le: "rune_width s \<le> length s"
  by (cases s rule: rune_width.cases) auto

lemma rune_width_take: "rune_width (take (rune_width s) s) = rune_width s"
  by (cases s rule: rune_width.cases) auto

text \<open>A complete rune at the head of a string is recognised whatever follows it.\<close>

lemma rune_width_append:
  assumes "r \<noteq> []" and "rune_width r = length r" and "length r = 1 \<Longrightarrow> byte (hd r) < 0x80"
  shows "rune_width (r @ s) = length r"
proof (cases "length r = 1")
  case True
  then obtain a where r: "r = [a]" by (auto simp: length_Suc_conv)
  with True assms(3) have "byte a < 0x80" by simp
  then show ?thesis
    unfolding r by (cases "a # s" rule: rune_width.cases) auto
next
  case False
  with assms(1,2) show ?thesis
    by (cases r rule: rune_width.cases; cases "r @ s" rule: rune_width.cases)
      (auto split: if_splits)
qed

fun runes :: "string \<Rightarrow> string list" where
  "runes [] = []"
| "runes (b # s) = take (rune_width (b # s)) (b # s) # runes (drop (rune_width (b # s) - 1) s)"

definition RuneCountInString :: "string \<Rightarrow> nat" where
  "RuneCountInString s = length (runes s)"

lemma take_drop_width: "take (rune_width (b # s)) (b # s) @ drop (rune_width (b # s) - 1) s = b # s"
proof -
  have "0 < rune_width (b # s)" by (rule rune_width_pos) simp
  then have "drop (rune_width (b # s) - 1) s = drop (rune_width (b # s)) (b # s)"
    by (cases "rune_width (b # s)") auto
  then show ?thesis by simp
qed

lemma concat_runes [simp]: "concat (runes s) = s"
  by (induction s rule: runes.induct)
    (simp_all add: take_drop_width [unfolded One_nat_def] del: take_Cons)

lemma runes_nonempty: "r \<in> set (runes s) \<Longrightarrow> r \<noteq> []"
proof (induction s rule: runes.induct)
  case 1
  then show ?case by simp
next
  case (2 b s)
  have "take (rune_width (b # s)) (b # s) \<noteq> []"
    using rune_width_pos [of "b # s"] by (simp del: take_Cons)
  with 2 show ?case by (auto simp del: take_Cons)
qed

lemma runes_width: "r \<in> set (runes s) \<Longrightarrow> rune_width r = length r"
proof (induction s rule: runes.induct)
  case 1
  then show ?case by simp
next
  case (2 b s)
  have "length (take (rune_width (b # s)) (b # s)) = rune_width (b # s)"
    using rune_width_le [of "b # s"] by simp
  with 2 show ?case
    using rune_width_take [of "b # s"] by auto
qed

lemma RuneCountInString_le: "RuneCountInString s \<le> length s"
proof -
  have "length (runes s) \<le> length (concat (runes s))"
  proof -
    have "\<forall>r \<in> set (runes s). 1 \<le> length r"
      using runes_nonempty [of _ s] by (metis One_nat_def Suc_leI length_greater_0_conv)
    then have "length xs \<le> length (concat xs)" if "set xs \<subseteq> set (runes s)" for xs
      using that by (induction xs) fastforce+
    then show ?thesis by blast
  qed
  then show ?thesis by (simp add: RuneCountInString_def)
qed

text \<open>A rune that survives the conversion to \<open>[]rune\<close> and back unchanged.\<close>

definition stable_rune :: "string \<Rightarrow> bool" where
  "stable_rune r \<longleftrightarrow> r \<noteq> [] \<and> rune_width r = length r \<and> (length r = 1 \<longrightarrow> byte (hd r) < 0x80)"

lemma runes_concat_stable: "(\<And>r. r \<in> set rs \<Longrightarrow> stable_rune r) \<Longrightarrow> runes (concat rs) = rs"
proof (induction rs)
  case Nil
  then show ?case by simp
next
  case (Cons r rs)
  from Cons.prems have r: "stable_rune r" by simp
  then obtain b t where bt: "r = b # t" by (cases r) (auto simp: stable_rune_def)
  have width: "rune_width (b # t @ concat rs) = length r"
    using rune_width_append [of r "concat rs"] r by (simp add: stable_rune_def bt)
  have "runes (concat (r # rs)) = r # runes (concat rs)"
    using width by (simp add: bt)
  with Cons show ?case by simp
qed

section \<open>Bounded text\<close>

text \<open>\<open>string([]rune(value))\<close> replaces an ill-formed byte by U+FFFD.\<close>

definition encode_rune :: "string \<Rightarrow> string" where
  "encode_rune r =
     (if length r = 1 \<and> 0x80 \<le> byte (hd r) then [CHR 0xEF, CHR 0xBF, CHR 0xBD] else r)"

definition boundedText :: "string \<Rightarrow> nat \<Rightarrow> string" where
  "boundedText value maximum =
     (if RuneCountInString value \<le> maximum then value
      else concat (map encode_rune (take maximum (runes value))))"

lemma encode_rune_stable: "r \<in> set (runes s) \<Longrightarrow> stable_rune (encode_rune r)"
  using runes_nonempty [of r s] runes_width [of r s]
  by (auto simp: encode_rune_def stable_rune_def byte_def continuation_def)

lemma boundedText_runes: "RuneCountInString (boundedText s n) \<le> n"
proof (cases "RuneCountInString s \<le> n")
  case True
  then show ?thesis by (simp add: boundedText_def)
next
  case False
  have "runes (concat (map encode_rune (take n (runes s)))) = map encode_rune (take n (runes s))"
    by (rule runes_concat_stable) (auto dest: in_set_takeD intro: encode_rune_stable)
  with False show ?thesis by (simp add: boundedText_def RuneCountInString_def)
qed

section \<open>Trimming, case and patterns\<close>

text \<open>The UTF-8 encodings of the code points \<open>unicode.IsSpace\<close> accepts.\<close>

definition is_space :: "string \<Rightarrow> bool" where
  "is_space r \<longleftrightarrow>
     r \<in> set ([[CHR 0x09], [CHR 0x0A], [CHR 0x0B], [CHR 0x0C], [CHR 0x0D], [CHR 0x20],
        [CHR 0xC2, CHR 0x85], [CHR 0xC2, CHR 0xA0], [CHR 0xE1, CHR 0x9A, CHR 0x80],
        [CHR 0xE2, CHR 0x80, CHR 0xA8], [CHR 0xE2, CHR 0x80, CHR 0xA9],
        [CHR 0xE2, CHR 0x80, CHR 0xAF], [CHR 0xE2, CHR 0x81, CHR 0x9F],
        [CHR 0xE3, CHR 0x80, CHR 0x80]])
     \<or> (length r = 3 \<and> take 2 r = [CHR 0xE2, CHR 0x80] \<and> 0x80 \<le> byte (r ! 2) \<and> byte (r ! 2) \<le> 0x8A)"

definition TrimSpace :: "string \<Rightarrow> string" where
  "TrimSpace s = concat (rev (dropWhile is_space (rev (dropWhile is_space (runes s)))))"

text \<open>\<open>unicode.IsControl\<close>: U+0000 to U+001F and U+007F to U+009F.\<close>

definition is_control :: "string \<Rightarrow> bool" where
  "is_control r \<longleftrightarrow>
     (length r = 1 \<and> (byte (hd r) < 0x20 \<or> byte (hd r) = 0x7F)) \<or>
     (length r = 2 \<and> hd r = CHR 0xC2 \<and> byte (r ! 1) \<le> 0x9F)"

definition lower_letter :: "char \<Rightarrow> bool" where
  "lower_letter c \<longleftrightarrow> 0x61 \<le> byte c \<and> byte c \<le> 0x7A"

definition digit :: "char \<Rightarrow> bool" where
  "digit c \<longleftrightarrow> 0x30 \<le> byte c \<and> byte c \<le> 0x39"

definition identifier_char :: "char \<Rightarrow> bool" where
  "identifier_char c \<longleftrightarrow> lower_letter c \<or> digit c \<or> c = CHR ''_'' \<or> c = CHR ''.'' \<or> c = CHR ''-''"

text \<open>\<open>^[a-z][a-z0-9_.-]{0,126}$\<close>\<close>

fun identifierPattern :: "string \<Rightarrow> bool" where
  "identifierPattern [] = False"
| "identifierPattern (c # s) =
     (lower_letter c \<and> length s \<le> 126 \<and> list_all identifier_char s)"

definition hex_lower :: "char \<Rightarrow> bool" where
  "hex_lower c \<longleftrightarrow> digit c \<or> (0x61 \<le> byte c \<and> byte c \<le> 0x66)"

definition hex_any :: "char \<Rightarrow> bool" where
  "hex_any c \<longleftrightarrow> hex_lower c \<or> (0x41 \<le> byte c \<and> byte c \<le> 0x46)"

definition uuid_char :: "(char \<Rightarrow> bool) \<Rightarrow> nat \<Rightarrow> char \<Rightarrow> bool" where
  "uuid_char hex i c =
     (if i = 8 \<or> i = 13 \<or> i = 18 \<or> i = 23 then c = CHR ''-''
      else if i = 14 then 0x31 \<le> byte c \<and> byte c \<le> 0x38
      else if i = 19 then hex c \<and> c \<in> set ''89abAB''
      else hex c)"

text \<open>The RFC 4122 patterns: mixed case for requests, lower case for cursors.\<close>

definition uuidPattern :: "string \<Rightarrow> bool" where
  "uuidPattern s \<longleftrightarrow> length s = 36 \<and> list_all (\<lambda>(i, c). uuid_char hex_any i c) (enumerate 0 s)"

definition uuidPatternLower :: "string \<Rightarrow> bool" where
  "uuidPatternLower s \<longleftrightarrow> length s = 36 \<and> list_all (\<lambda>(i, c). uuid_char hex_lower i c) (enumerate 0 s)"

lemma uuidPattern_length: "uuidPattern s \<Longrightarrow> length s = 36"
  by (simp add: uuidPattern_def)

lemma uuidPattern_nonempty: "uuidPattern s \<Longrightarrow> s \<noteq> []"
  by (auto simp: uuidPattern_def)

lemma identifierPattern_no_colon: "identifierPattern s \<Longrightarrow> CHR '':'' \<notin> set s"
  by (cases s)
    (auto simp: lower_letter_def identifier_char_def digit_def byte_def list_all_iff)

lemma uuidPattern_no_colon:
  assumes "uuidPattern s"
  shows "CHR '':'' \<notin> set s"
proof
  assume "CHR '':'' \<in> set s"
  then obtain i where i: "i < length s" "s ! i = CHR '':''" by (auto simp: in_set_conv_nth)
  then have "(i, CHR '':'') \<in> set (enumerate 0 s)"
    by (auto simp: in_set_enumerate_eq)
  with assms have "uuid_char hex_any i (CHR '':'')"
    by (auto simp: uuidPattern_def list_all_iff)
  then show False
    by (auto simp: uuid_char_def hex_any_def hex_lower_def digit_def byte_def split: if_splits)
qed

text \<open>The \<open>%d\<close> verb on a non-negative number.\<close>

fun decimal :: "nat \<Rightarrow> string" where
  "decimal n = (if n < 10 then [char_of (48 + n)] else decimal (n div 10) @ [char_of (48 + n mod 10)])"

declare decimal.simps [simp del]

end
