(* ===== verification/Health.thy ===== *)
theory Health
  imports Go_Text
begin

text \<open>
  Package \<open>health\<close> (\<open>core/internal/health\<close>): the normalised health states, the freshness
  schedule of an observation, the evaluation of current health at an injected instant, and
  the deterministic order on observations. \<open>OtherState\<close> stands for every string that is not
  one of the seven declared states (the empty string of a NULL column among them).
\<close>

section \<open>Types\<close>

datatype state =
    Healthy | Warning | Critical | Unknown | Stale | Maintenance | Disabled
  | OtherState string

fun state_text :: "state \<Rightarrow> string" where
  "state_text Healthy = ''healthy''"
| "state_text Warning = ''warning''"
| "state_text Critical = ''critical''"
| "state_text Unknown = ''unknown''"
| "state_text Stale = ''stale''"
| "state_text Maintenance = ''maintenance''"
| "state_text Disabled = ''disabled''"
| "state_text (OtherState s) = s"

definition ValidObserved :: "state \<Rightarrow> bool" where
  "ValidObserved st = (case st of
      Healthy \<Rightarrow> True | Warning \<Rightarrow> True | Critical \<Rightarrow> True | Unknown \<Rightarrow> True
    | Maintenance \<Rightarrow> True | Disabled \<Rightarrow> True | _ \<Rightarrow> False)"

definition PositiveDetermination :: "state \<Rightarrow> bool" where
  "PositiveDetermination st \<longleftrightarrow> ValidObserved st \<and> st \<noteq> Unknown"

record observation =
  o_ID :: string
  o_ResourceID :: string
  o_CheckType :: string
  o_State :: state
  o_Summary :: string
  o_ObservedAt :: time
  o_ReceivedAt :: time
  o_ExpectedRefresh :: duration

record current =
  cur_ResourceID :: string
  cur_CheckType :: string
  cur_State :: state
  cur_Reason :: string
  cur_ObservationID :: "string option"
  cur_ObservedAt :: "time option"
  cur_LastSuccessAt :: "time option"
  cur_StaleAt :: "time option"
  cur_UnknownAt :: "time option"
  cur_UpdatedAt :: time

record change =
  ch_Before :: "current option"
  ch_After :: current

section \<open>Freshness and evaluation\<close>

definition minimumGrace :: duration where
  "minimumGrace = 30 * second"

definition TransitionTimes :: "observation \<Rightarrow> time \<times> time" where
  "TransitionTimes ob =
     (let refresh = o_ExpectedRefresh ob;
          grace0 = refresh sdiv 2;
          grace = (if grace0 < minimumGrace then minimumGrace else grace0);
          staleAt = o_ObservedAt ob + wrap64 (refresh + grace);
          unknownAt0 = o_ObservedAt ob + wrap64 (3 * refresh);
          unknownAt = (if unknownAt0 < staleAt then staleAt else unknownAt0)
      in (staleAt, unknownAt))"

definition unknownReason :: string where
  "unknownReason = ''observation exceeded the unknown freshness threshold''"

definition staleReason :: string where
  "staleReason = ''observation exceeded the expected refresh window''"

definition Evaluate :: "string \<Rightarrow> observation \<Rightarrow> current option \<Rightarrow> time \<Rightarrow> current" where
  "Evaluate resourceID ob previous now =
     (let observedAt = o_ObservedAt ob;
          result0 = \<lparr> cur_ResourceID = resourceID, cur_CheckType = o_CheckType ob,
             cur_State = o_State ob, cur_Reason = o_Summary ob,
             cur_ObservationID = Some (o_ID ob), cur_ObservedAt = Some observedAt,
             cur_LastSuccessAt = None, cur_StaleAt = None, cur_UnknownAt = None,
             cur_UpdatedAt = now \<rparr>;
          result1 = (case previous of
               None \<Rightarrow> result0
             | Some p \<Rightarrow> (case cur_LastSuccessAt p of
                   None \<Rightarrow> result0
                 | Some t \<Rightarrow> result0\<lparr>cur_LastSuccessAt := Some t\<rparr>));
          result = (if PositiveDetermination (o_State ob)
               \<and> (case cur_LastSuccessAt result1 of None \<Rightarrow> True | Some t \<Rightarrow> t < observedAt)
             then result1\<lparr>cur_LastSuccessAt := Some observedAt\<rparr> else result1)
      in if o_State ob = Disabled then result
         else case TransitionTimes ob of (staleAt, unknownAt) \<Rightarrow>
           let scheduled = result\<lparr>cur_StaleAt := Some staleAt, cur_UnknownAt := Some unknownAt\<rparr>
           in if o_State ob = Unknown then scheduled
              else if \<not> now < unknownAt
                then scheduled\<lparr>cur_State := Unknown, cur_Reason := unknownReason\<rparr>
              else if \<not> now < staleAt
                then scheduled\<lparr>cur_State := Stale, cur_Reason := staleReason\<rparr>
              else scheduled)"

definition NoObservation :: "string \<Rightarrow> time \<Rightarrow> current" where
  "NoObservation resourceID now =
     \<lparr> cur_ResourceID = resourceID, cur_CheckType = '''', cur_State = Unknown,
       cur_Reason = ''no valid observation'', cur_ObservationID = None,
       cur_ObservedAt = None, cur_LastSuccessAt = None, cur_StaleAt = None,
       cur_UnknownAt = None, cur_UpdatedAt = now \<rparr>"

definition CompareObservations :: "observation \<Rightarrow> observation \<Rightarrow> int" where
  "CompareObservations l r =
     (if o_ObservedAt r < o_ObservedAt l then 1
      else if o_ObservedAt l < o_ObservedAt r then -1
      else if o_ReceivedAt r < o_ReceivedAt l then 1
      else if o_ReceivedAt l < o_ReceivedAt r then -1
      else if o_ID r < o_ID l then 1
      else if o_ID l < o_ID r then -1
      else 0)"

section \<open>The freshness schedule\<close>

text \<open>The refresh interval an accepted observation carries: 1 to 86400 seconds.\<close>

definition valid_refresh :: "duration \<Rightarrow> bool" where
  "valid_refresh d \<longleftrightarrow> second \<le> d \<and> d \<le> 86400 * second"

lemma TransitionTimes_closed:
  assumes "valid_refresh (o_ExpectedRefresh ob)"
  shows "TransitionTimes ob =
    (let r = o_ExpectedRefresh ob; s = o_ObservedAt ob + r + max (r div 2) minimumGrace
     in (s, max s (o_ObservedAt ob + 3 * r)))"
proof -
  let ?r = "o_ExpectedRefresh ob"
  have r: "1000000000 \<le> ?r" "?r \<le> 86400000000000"
    using assms by (auto simp: valid_refresh_def second_def)
  then have half: "?r sdiv 2 = ?r div 2" by (intro sdiv_nonneg) auto
  have w1: "wrap64 (?r + max (?r div 2) minimumGrace) = ?r + max (?r div 2) minimumGrace"
    by (rule wrap64_id) (use r in \<open>auto simp: minimumGrace_def second_def\<close>)
  have w3: "wrap64 (3 * ?r) = 3 * ?r"
    by (rule wrap64_id) (use r in auto)
  have g: "(if ?r div 2 < minimumGrace then minimumGrace else ?r div 2) = max (?r div 2) minimumGrace"
    by auto
  show ?thesis
    unfolding TransitionTimes_def Let_def half g w1 w3 by (auto simp: max_def)
qed

text \<open>
  for every refresh interval that ingestion accepts, the freshness schedule does not
  overflow: an observation turns stale strictly after it was made, at observation time plus
  one refresh plus the grace, and unknown no earlier than stale.
\<close>

theorem transition_times_ordered:
  assumes "valid_refresh (o_ExpectedRefresh ob)"
  shows "o_ObservedAt ob + o_ExpectedRefresh ob + minimumGrace \<le> fst (TransitionTimes ob)
    \<and> fst (TransitionTimes ob) \<le> snd (TransitionTimes ob)
    \<and> o_ObservedAt ob + 3 * o_ExpectedRefresh ob \<le> snd (TransitionTimes ob)"
  by (simp add: TransitionTimes_closed [OF assms] Let_def)

definition sampleObservation :: observation where
  "sampleObservation = \<lparr> o_ID = ''o1'', o_ResourceID = ''r1'', o_CheckType = ''ping'',
     o_State = Healthy, o_Summary = ''ok'', o_ObservedAt = 1000 * second,
     o_ReceivedAt = 1001 * second, o_ExpectedRefresh = 60 * second \<rparr>"

theorem transition_times_ordered_witness:
  "valid_refresh (o_ExpectedRefresh sampleObservation)
   \<and> o_ObservedAt sampleObservation + o_ExpectedRefresh sampleObservation + minimumGrace
      \<le> fst (TransitionTimes sampleObservation)"
proof -
  have v: "valid_refresh (o_ExpectedRefresh sampleObservation)"
    by (simp add: valid_refresh_def sampleObservation_def second_def)
  from transition_times_ordered [OF v] v show ?thesis by simp
qed

lemma TransitionTimes_le: "fst (TransitionTimes ob) \<le> snd (TransitionTimes ob)"
  by (simp add: TransitionTimes_def Let_def)

section \<open>Ageing\<close>

lemma Evaluate_State:
  "cur_State (Evaluate rid ob prev now) =
     (if o_State ob = Disabled \<or> o_State ob = Unknown then o_State ob
      else if snd (TransitionTimes ob) \<le> now then Unknown
      else if fst (TransitionTimes ob) \<le> now then Stale
      else o_State ob)"
  by (auto simp: Evaluate_def Let_def split: prod.splits option.splits)

text \<open>How far a state has aged away from what the source reported.\<close>

fun age_rank :: "state \<Rightarrow> nat" where
  "age_rank Unknown = 2"
| "age_rank Stale = 1"
| "age_rank _ = 0"

text \<open>
  Current health only ever ages. As the evaluation instant advances over one
  observation, the state moves from the reported state to stale to unknown and never back,
  and it is stale or unknown exactly when the schedule says so. Disabled never ages.
\<close>

theorem evaluate_ages_monotonically:
  assumes "ValidObserved (o_State ob)" and "now \<le> later"
  shows "age_rank (cur_State (Evaluate rid ob prev now))
      \<le> age_rank (cur_State (Evaluate rid ob prev' later))
    \<and> (o_State ob = Disabled \<longrightarrow> cur_State (Evaluate rid ob prev' later) = Disabled)
    \<and> (cur_State (Evaluate rid ob prev now) = Stale
        \<longleftrightarrow> o_State ob \<noteq> Disabled \<and> o_State ob \<noteq> Unknown
          \<and> fst (TransitionTimes ob) \<le> now \<and> now < snd (TransitionTimes ob))"
proof -
  have "fst (TransitionTimes ob) \<le> snd (TransitionTimes ob)" by (rule TransitionTimes_le)
  with assms show ?thesis
    by (cases "o_State ob") (auto simp: Evaluate_State ValidObserved_def)
qed

theorem evaluate_ages_monotonically_witness:
  "ValidObserved (o_State sampleObservation)
   \<and> cur_State (Evaluate ''r1'' sampleObservation None (1000 * second)) = Healthy
   \<and> cur_State (Evaluate ''r1'' sampleObservation None (1100 * second)) = Stale
   \<and> cur_State (Evaluate ''r1'' sampleObservation None (1180 * second)) = Unknown
   \<and> age_rank (cur_State (Evaluate ''r1'' sampleObservation None (1000 * second)))
      \<le> age_rank (cur_State (Evaluate ''r1'' sampleObservation None (1100 * second)))"
proof -
  have v: "ValidObserved (o_State sampleObservation)"
    by (simp add: ValidObserved_def sampleObservation_def)
  have le: "(1000 * second :: int) \<le> 1100 * second" by (simp add: second_def)
  have tt: "TransitionTimes sampleObservation = (1090 * second, 1180 * second)"
    by (simp add: TransitionTimes_def sampleObservation_def minimumGrace_def second_def
        wrap64_def Let_def signed_divide_int_def)
  show ?thesis
    using evaluate_ages_monotonically [OF v le, of "''r1''" None None] v
    by (simp add: Evaluate_State tt second_def) (simp add: sampleObservation_def)
qed

section \<open>The last success\<close>

definition max_opt :: "time option \<Rightarrow> time option \<Rightarrow> time option" where
  "max_opt a b = (case a of None \<Rightarrow> b | Some x \<Rightarrow> (case b of None \<Rightarrow> Some x | Some y \<Rightarrow> Some (max x y)))"

definition success_of :: "observation \<Rightarrow> time option" where
  "success_of ob = (if PositiveDetermination (o_State ob) then Some (o_ObservedAt ob) else None)"

lemma Evaluate_LastSuccessAt:
  "cur_LastSuccessAt (Evaluate rid ob prev now) =
     max_opt (Option.bind prev cur_LastSuccessAt) (success_of ob)"
  by (auto simp: Evaluate_def Let_def max_opt_def success_of_def max_def
      split: prod.splits option.splits)

text \<open>Evaluating a sequence of observations, each on top of the previous projection.\<close>

fun evaluate_all :: "string \<Rightarrow> current option \<Rightarrow> (observation \<times> time) list \<Rightarrow> current option" where
  "evaluate_all rid prev [] = prev"
| "evaluate_all rid prev ((ob, now) # rest) = evaluate_all rid (Some (Evaluate rid ob prev now)) rest"

lemma max_opt_simps [simp]: "max_opt None b = b" "max_opt a None = a"
  by (auto simp: max_opt_def split: option.splits)

lemma max_opt_assoc: "max_opt (max_opt a b) c = max_opt a (max_opt b c)"
  by (auto simp: max_opt_def split: option.splits)

lemma max_opt_commute: "max_opt a b = max_opt b a"
  by (auto simp: max_opt_def split: option.splits)

lemma evaluate_all_LastSuccessAt:
  "Option.bind (evaluate_all rid prev obs) cur_LastSuccessAt =
     fold (\<lambda>p acc. max_opt acc (success_of (fst p))) obs (Option.bind prev cur_LastSuccessAt)"
  by (induction obs arbitrary: prev) (auto simp: Evaluate_LastSuccessAt)

lemma fold_max_opt_start:
  "fold (\<lambda>p acc. max_opt acc (success_of (fst p))) obs a =
     max_opt a (fold (\<lambda>p acc. max_opt acc (success_of (fst p))) obs None)"
proof (induction obs arbitrary: a)
  case Nil
  show ?case by simp
next
  case (Cons p obs)
  show ?case
    using Cons [of "max_opt a (success_of (fst p))"] Cons [of "success_of (fst p)"]
    by (simp add: max_opt_assoc)
qed

text \<open>
  the recorded last success of a stream does not depend on the order in which its
  observations arrive: replaying any permutation of the same observations gives the same
  \<open>LastSuccessAt\<close>, the newest instant of a positive determination.
\<close>

theorem last_success_order_independent:
  assumes "mset obs = mset obs'"
  shows "Option.bind (evaluate_all rid None obs) cur_LastSuccessAt =
    Option.bind (evaluate_all rid None obs') cur_LastSuccessAt"
proof -
  let ?f = "\<lambda>p acc. max_opt acc (success_of (fst p))"
  have "fold ?f obs = fold ?f obs'"
  proof (rule fold_multiset_equiv)
    show "?f x \<circ> ?f y = ?f y \<circ> ?f x" if "x \<in> set obs" "y \<in> set obs" for x y
      by (rule ext) (simp add: max_opt_assoc max_opt_commute [of "success_of (fst x)"])
    show "mset obs = mset obs'" by (rule assms)
  qed
  then show ?thesis by (simp add: evaluate_all_LastSuccessAt)
qed

theorem last_success_order_independent_witness:
  "Option.bind (evaluate_all ''r1'' None
      [(sampleObservation, 5), (sampleObservation\<lparr>o_ObservedAt := 7\<rparr>, 6)]) cur_LastSuccessAt =
   Option.bind (evaluate_all ''r1'' None
      [(sampleObservation\<lparr>o_ObservedAt := 7\<rparr>, 6), (sampleObservation, 5)]) cur_LastSuccessAt
   \<and> Option.bind (evaluate_all ''r1'' None
      [(sampleObservation, 5), (sampleObservation\<lparr>o_ObservedAt := 7\<rparr>, 6)]) cur_LastSuccessAt
     = Some (1000 * second)"
proof -
  have m: "mset [(sampleObservation, 5::int), (sampleObservation\<lparr>o_ObservedAt := 7\<rparr>, 6)] =
    mset [(sampleObservation\<lparr>o_ObservedAt := 7\<rparr>, 6), (sampleObservation, 5)]"
    by (simp add: add_mset_commute)
  show ?thesis
    using last_success_order_independent [OF m, of "''r1''"]
    by (simp add: Evaluate_LastSuccessAt success_of_def PositiveDetermination_def
        ValidObserved_def sampleObservation_def max_opt_def second_def)
qed

section \<open>The order on observations\<close>

definition observation_key :: "observation \<Rightarrow> time \<times> time \<times> string" where
  "observation_key ob = (o_ObservedAt ob, o_ReceivedAt ob, o_ID ob)"

text \<open>
  \<open>CompareObservations\<close> is the lexicographic comparison of observation time, receipt time
  and ID: a total order that is 0 only for identical keys, so the newest observation of a
  stream is unique.
\<close>

theorem compare_observations_lexicographic:
  "CompareObservations l r =
     (if observation_key r < observation_key l then 1
      else if observation_key l < observation_key r then -1 else 0)
   \<and> (CompareObservations l r = 0 \<longleftrightarrow> observation_key l = observation_key r)
   \<and> CompareObservations r l = - CompareObservations l r"
proof -
  have cmp: "(if b1 < a1 then 1 else if a1 < b1 then -1
      else if b2 < a2 then 1 else if a2 < b2 then -1
      else if b3 < a3 then 1 else if a3 < b3 then -1 else (0::int)) =
    (if (b1, b2, b3) < (a1, a2, a3) then 1 else if (a1, a2, a3) < (b1, b2, b3) then -1 else 0)"
    for a1 b1 a2 b2 :: int and a3 b3 :: string
    by (cases a1 b1 rule: linorder_cases; cases a2 b2 rule: linorder_cases;
        cases a3 b3 rule: linorder_cases) simp_all
  have eq: "CompareObservations x y =
     (if observation_key y < observation_key x then 1
      else if observation_key x < observation_key y then -1 else 0)" for x y
    unfolding CompareObservations_def observation_key_def by (rule cmp)
  show ?thesis
    unfolding eq by (cases "observation_key l" "observation_key r" rule: linorder_cases)
      (auto dest: order.asym)
qed

end
