(* ===== verification/Event_Hub.thy ===== *)
theory Event_Hub
  imports Health "HOL-Library.Sublist"
begin

text \<open>
  Package \<open>events\<close> (\<open>core/internal/events/hub.go\<close>): the bounded in-process hub behind the
  server-sent event stream. A subscriber's buffered channel is its queue and its capacity;
  the identifiers are \<open>uint64\<close> counters, so their increment is modulo \<open>2 ^ 64\<close>. The Go map
  of subscribers is an association list: every operation treats subscribers independently,
  so the map's iteration order has no effect.
\<close>

section \<open>State\<close>

record event =
  ev_ID :: nat
  ev_Kind :: string
  ev_SchemaVersion :: int
  ev_ResourceID :: string
  ev_IntegrationID :: string
  ev_IncidentID :: string
  ev_DeliveryID :: string
  ev_MonitorID :: string
  ev_CertificateID :: string
  ev_State :: state
  ev_Result :: string
  ev_ChangedAt :: time

definition zeroEvent :: event where
  "zeroEvent = \<lparr> ev_ID = 0, ev_Kind = '''', ev_SchemaVersion = 0, ev_ResourceID = '''',
     ev_IntegrationID = '''', ev_IncidentID = '''', ev_DeliveryID = '''', ev_MonitorID = '''',
     ev_CertificateID = '''', ev_State = OtherState '''', ev_Result = '''', ev_ChangedAt = 0 \<rparr>"

definition SchemaVersion :: int where
  "SchemaVersion = 1"

definition DefaultReplayCapacity :: nat where
  "DefaultReplayCapacity = 1024"

definition DefaultSubscriberCapacity :: nat where
  "DefaultSubscriberCapacity = 64"

definition MaxSubscriberCapacity :: nat where
  "MaxSubscriberCapacity = 256"

record subscriber =
  sub_channel :: "event list"
  sub_capacity :: nat
  sub_resync :: bool

record hub =
  hub_nextID :: nat
  hub_replay :: "event list"
  hub_replayLimit :: nat
  hub_subscribers :: "(nat \<times> subscriber) list"
  hub_nextSubID :: nat
  hub_dropped :: nat

definition uint64_succ :: "nat \<Rightarrow> nat" where
  "uint64_succ n = (n + 1) mod 2 ^ 64"

lemma uint64_succ_less: "n + 1 < 2 ^ 64 \<Longrightarrow> uint64_succ n = n + 1"
  by (simp add: uint64_succ_def)

section \<open>Operations\<close>

definition NewHub :: "int \<Rightarrow> hub" where
  "NewHub replayCapacity =
     \<lparr> hub_nextID = 0, hub_replay = [],
       hub_replayLimit = (if replayCapacity \<le> 0 then DefaultReplayCapacity else nat replayCapacity),
       hub_subscribers = [], hub_nextSubID = 0, hub_dropped = 0 \<rparr>"

text \<open>The event \<open>forceResyncLocked\<close> leaves as the only element of the drained channel.\<close>

definition resyncEvent :: "event \<Rightarrow> event" where
  "resyncEvent cause = zeroEvent\<lparr> ev_ID := ev_ID cause, ev_Kind := ''resync_required'',
     ev_SchemaVersion := SchemaVersion, ev_ChangedAt := ev_ChangedAt cause \<rparr>"

definition forceResyncLocked :: "subscriber \<Rightarrow> event \<Rightarrow> subscriber" where
  "forceResyncLocked target cause =
     target\<lparr> sub_channel := [resyncEvent cause], sub_resync := True \<rparr>"

text \<open>A non-blocking send: into the buffer when there is room, else a forced resync. The second
  component counts the forced resyncs.\<close>

definition offer :: "subscriber \<Rightarrow> event \<Rightarrow> subscriber \<times> nat" where
  "offer target event =
     (if length (sub_channel target) < sub_capacity target
      then (target\<lparr>sub_channel := sub_channel target @ [event]\<rparr>, 0)
      else (forceResyncLocked target event, 1))"

definition publishTo :: "event \<Rightarrow> subscriber \<Rightarrow> subscriber \<times> nat" where
  "publishTo event target = (if sub_resync target then (target, 0) else offer target event)"

definition Publish :: "hub \<Rightarrow> event \<Rightarrow> hub \<times> event" where
  "Publish h event0 =
     (let nextID = uint64_succ (hub_nextID h);
          event = event0\<lparr>ev_ID := nextID, ev_SchemaVersion := SchemaVersion\<rparr>;
          replay0 = hub_replay h @ [event];
          replay = (if hub_replayLimit h < length replay0
                    then drop (length replay0 - hub_replayLimit h) replay0 else replay0)
      in (h\<lparr> hub_nextID := nextID, hub_replay := replay,
             hub_subscribers := map (\<lambda>(i, t). (i, fst (publishTo event t))) (hub_subscribers h),
             hub_dropped := hub_dropped h + sum_list (map (\<lambda>(i, t). snd (publishTo event t)) (hub_subscribers h)) \<rparr>,
          event))"

fun PublishCommitted :: "hub \<Rightarrow> change list \<Rightarrow> hub" where
  "PublishCommitted h [] = h"
| "PublishCommitted h (c # cs) =
     PublishCommitted (fst (Publish h (zeroEvent\<lparr> ev_Kind := ''resource_state_changed'',
        ev_ResourceID := cur_ResourceID (ch_After c), ev_State := cur_State (ch_After c),
        ev_ChangedAt := cur_UpdatedAt (ch_After c) \<rparr>))) cs"

text \<open>The replay loop of \<open>Subscribe\<close>: events after the cursor are offered_events in order, and the loop
  stops at the first forced resync.\<close>

fun replayTo :: "nat \<Rightarrow> event list \<Rightarrow> subscriber \<Rightarrow> subscriber \<times> nat" where
  "replayTo afterID [] target = (target, 0)"
| "replayTo afterID (e # es) target =
     (if ev_ID e \<le> afterID then replayTo afterID es target
      else case offer target e of (target', n) \<Rightarrow>
        if sub_resync target' then (target', n) else replayTo afterID es target')"

definition clampCapacity :: "int \<Rightarrow> nat" where
  "clampCapacity capacity =
     (let c = (if capacity \<le> 0 then DefaultSubscriberCapacity else nat capacity)
      in if c > MaxSubscriberCapacity then MaxSubscriberCapacity else c)"

definition Subscribe :: "hub \<Rightarrow> nat option \<Rightarrow> int \<Rightarrow> time \<Rightarrow> hub \<times> nat" where
  "Subscribe h afterID capacity now =
     (let sid = uint64_succ (hub_nextSubID h);
          target0 = \<lparr> sub_channel = [], sub_capacity = clampCapacity capacity, sub_resync = False \<rparr>;
          (target, n) = (case afterID of
              None \<Rightarrow> (target0, 0)
            | Some a \<Rightarrow>
                if hub_nextID h < a \<or>
                   (hub_replay h \<noteq> [] \<and> uint64_succ a < ev_ID (hd (hub_replay h)))
                then (forceResyncLocked target0
                        (zeroEvent\<lparr>ev_ID := hub_nextID h, ev_ChangedAt := now\<rparr>), 1)
                else replayTo a (hub_replay h) target0)
      in (h\<lparr> hub_nextSubID := sid,
             hub_subscribers := (sid, target) # filter (\<lambda>p. fst p \<noteq> sid) (hub_subscribers h),
             hub_dropped := hub_dropped h + n \<rparr>, sid))"

definition unsubscribe :: "hub \<Rightarrow> nat \<Rightarrow> hub" where
  "unsubscribe h sid = h\<lparr>hub_subscribers := filter (\<lambda>p. fst p \<noteq> sid) (hub_subscribers h)\<rparr>"

definition Stats :: "hub \<Rightarrow> nat \<times> nat \<times> nat" where
  "Stats h = (length (hub_subscribers h), hub_dropped h, length (hub_replay h))"

definition set_sub :: "nat \<Rightarrow> subscriber \<Rightarrow> hub \<Rightarrow> hub" where
  "set_sub sid u h = h\<lparr>hub_subscribers :=
     map (\<lambda>(i, v). (i, if i = sid then u else v)) (hub_subscribers h)\<rparr>"

text \<open>The client side of the channel: one receive from subscription \<open>sid\<close>.\<close>

definition receive :: "hub \<Rightarrow> nat \<Rightarrow> (event \<times> hub) option" where
  "receive h sid =
     (case map_of (hub_subscribers h) sid of
        None \<Rightarrow> None
      | Some u \<Rightarrow> (case sub_channel u of
            [] \<Rightarrow> None
          | e # es \<Rightarrow> Some (e, set_sub sid (u\<lparr>sub_channel := es\<rparr>) h)))"

section \<open>A publication step by step\<close>

text \<open>
  \<open>Publish\<close> holds the mutex, but a client receives from its channel without it. A publication
  is therefore also given as the sequence of its channel operations: the counter and the replay
  log first, then one visit per subscriber in the order of the map's iteration; a visit that
  finds the buffer full turns into the drain of \<open>forceResyncLocked\<close>, which removes one buffered
  event at a time and, once the channel is empty, marks the subscriber and sends the notice.
\<close>

datatype hub_work = Visit nat event | Drain nat event

fun work_sub :: "hub_work \<Rightarrow> nat" where
  "work_sub (Visit sid e) = sid"
| "work_sub (Drain sid e) = sid"

fun work_event :: "hub_work \<Rightarrow> event" where
  "work_event (Visit sid e) = e"
| "work_event (Drain sid e) = e"

definition beginPublish :: "hub \<Rightarrow> event \<Rightarrow> hub \<times> event" where
  "beginPublish h event0 =
     (let nextID = uint64_succ (hub_nextID h);
          event = event0\<lparr>ev_ID := nextID, ev_SchemaVersion := SchemaVersion\<rparr>;
          replay0 = hub_replay h @ [event];
          replay = (if hub_replayLimit h < length replay0
                    then drop (length replay0 - hub_replayLimit h) replay0 else replay0)
      in (h\<lparr>hub_nextID := nextID, hub_replay := replay\<rparr>, event))"

fun publish_micro :: "hub_work \<Rightarrow> hub \<Rightarrow> hub \<times> hub_work list" where
  "publish_micro (Visit sid e) h =
     (case map_of (hub_subscribers h) sid of
        None \<Rightarrow> (h, [])
      | Some u \<Rightarrow>
          if sub_resync u then (h, [])
          else if length (sub_channel u) < sub_capacity u
          then (set_sub sid (u\<lparr>sub_channel := sub_channel u @ [e]\<rparr>) h, [])
          else (h, [Drain sid e]))"
| "publish_micro (Drain sid e) h =
     (case map_of (hub_subscribers h) sid of
        None \<Rightarrow> (h, [])
      | Some u \<Rightarrow>
          (case sub_channel u of
             b # bs \<Rightarrow> (set_sub sid (u\<lparr>sub_channel := bs\<rparr>) h, [Drain sid e])
           | [] \<Rightarrow> ((set_sub sid (u\<lparr>sub_channel := [resyncEvent e], sub_resync := True\<rparr>) h)
                      \<lparr>hub_dropped := hub_dropped h + 1\<rparr>, [])))"

section \<open>Runs of the hub\<close>

text \<open>
  A run records, beside the hub, every event published so far, the position each
  subscription started from, what each client has received, and what the publication that
  holds the mutex has still to do. Position \<open>n\<close> stands for "everything after the first \<open>n\<close>
  published events"; a cursor \<open>afterID = n\<close> names it. The operations that take the mutex wait
  while a publication is in progress (their step is then no step at all); a receive does not.
  \<open>Subscribe\<close> is one step, since its channel is handed to the client when it returns.
\<close>

datatype hub_op =
    OpPublish event "nat list"
  | OpHub
  | OpSubscribe "nat option" int time
  | OpReceive nat
  | OpClose nat

record hub_trace =
  tr_hub :: hub
  tr_work :: "hub_work list"
  tr_published :: "event list"
  tr_start :: "nat \<Rightarrow> nat"
  tr_received :: "nat \<Rightarrow> event list"

definition iteration_order :: "hub \<Rightarrow> nat list \<Rightarrow> bool" where
  "iteration_order h ids \<longleftrightarrow> distinct ids \<and> set ids = set (map fst (hub_subscribers h))"

fun hub_step :: "hub_trace \<Rightarrow> hub_op \<Rightarrow> hub_trace" where
  "hub_step t (OpPublish e ids) =
     (if tr_work t = [] \<and> iteration_order (tr_hub t) ids
      then (case beginPublish (tr_hub t) e of (h, e') \<Rightarrow>
        t\<lparr>tr_hub := h, tr_published := tr_published t @ [e'], tr_work := map (\<lambda>sid. Visit sid e') ids\<rparr>)
      else t)"
| "hub_step t OpHub =
     (case tr_work t of
        [] \<Rightarrow> t
      | w # ws \<Rightarrow> (case publish_micro w (tr_hub t) of (h, rest) \<Rightarrow>
          t\<lparr>tr_hub := h, tr_work := rest @ ws\<rparr>))"
| "hub_step t (OpSubscribe a cap now) =
     (if tr_work t = []
      then (case Subscribe (tr_hub t) a cap now of (h, sid) \<Rightarrow>
        t\<lparr>tr_hub := h,
          tr_start := (tr_start t)(sid := (case a of None \<Rightarrow> length (tr_published t) | Some n \<Rightarrow> n)),
          tr_received := (tr_received t)(sid := [])\<rparr>)
      else t)"
| "hub_step t (OpReceive sid) =
     (case receive (tr_hub t) sid of
        None \<Rightarrow> t
      | Some (e, h) \<Rightarrow> t\<lparr>tr_hub := h,
          tr_received := (tr_received t)(sid := tr_received t sid @ [e])\<rparr>)"
| "hub_step t (OpClose sid) =
     (if tr_work t = [] then t\<lparr>tr_hub := unsubscribe (tr_hub t) sid\<rparr> else t)"

abbreviation hub_steps :: "hub_op list \<Rightarrow> hub_trace \<Rightarrow> hub_trace" where
  "hub_steps ops t \<equiv> fold (\<lambda>x t. hub_step t x) ops t"

definition hub_run :: "int \<Rightarrow> hub_op list \<Rightarrow> hub_trace" where
  "hub_run cap ops = hub_steps ops
     \<lparr> tr_hub = NewHub cap, tr_work = [], tr_published = [], tr_start = (\<lambda>_. 0),
       tr_received = (\<lambda>_. []) \<rparr>"

text \<open>
  What a subscription has seen, delivered or still buffered, of the events it was due: after a
  resync some of them in order and then one \<open>resync_required\<close> event as the last one; during a
  drain some of them in order; else exactly these events. The events due are those published
  after the start, less the one whose visit is still to come.
\<close>

definition visit_pending :: "hub_work list \<Rightarrow> nat \<Rightarrow> bool" where
  "visit_pending ws sid \<longleftrightarrow> (\<exists>e. Visit sid e \<in> set ws)"

definition draining :: "hub_work list \<Rightarrow> nat \<Rightarrow> bool" where
  "draining ws sid \<longleftrightarrow> (\<exists>e. Drain sid e \<in> set ws)"

definition offered_events :: "hub_trace \<Rightarrow> nat \<Rightarrow> event list" where
  "offered_events t sid = (if visit_pending (tr_work t) sid then butlast (tr_published t) else tr_published t)"

definition gapless :: "event list \<Rightarrow> nat \<Rightarrow> bool \<Rightarrow> bool \<Rightarrow> event list \<Rightarrow> bool" where
  "gapless published start resync drain seen \<longleftrightarrow>
     (if resync then \<exists>got c. seen = got @ [resyncEvent c] \<and> subseq got (drop start published)
      else if drain then subseq seen (drop start published)
      else seen = drop start published)"

definition sub_ok :: "hub_trace \<Rightarrow> nat \<times> subscriber \<Rightarrow> bool" where
  "sub_ok t p \<longleftrightarrow>
     1 \<le> sub_capacity (snd p) \<and> sub_capacity (snd p) \<le> MaxSubscriberCapacity
     \<and> length (sub_channel (snd p)) \<le> sub_capacity (snd p)
     \<and> fst p \<le> hub_nextSubID (tr_hub t)
     \<and> (\<not> sub_resync (snd p) \<longrightarrow> tr_start t (fst p) \<le> length (offered_events t (fst p)))
     \<and> (draining (tr_work t) (fst p) \<longrightarrow> \<not> sub_resync (snd p))
     \<and> gapless (offered_events t (fst p)) (tr_start t (fst p)) (sub_resync (snd p)) (draining (tr_work t) (fst p))
         (tr_received t (fst p) @ sub_channel (snd p))"

definition hub_ok :: "hub_trace \<Rightarrow> bool" where
  "hub_ok t \<longleftrightarrow>
     hub_nextID (tr_hub t) = length (tr_published t)
     \<and> map ev_ID (tr_published t) = [1..<length (tr_published t) + 1]
     \<and> 0 < hub_replayLimit (tr_hub t)
     \<and> hub_replay (tr_hub t) = drop (length (tr_published t) - hub_replayLimit (tr_hub t)) (tr_published t)
     \<and> distinct (map fst (hub_subscribers (tr_hub t)))"

definition work_ok :: "hub_trace \<Rightarrow> bool" where
  "work_ok t \<longleftrightarrow>
     distinct (map work_sub (tr_work t))
     \<and> (\<forall>w \<in> set (tr_work t). tr_published t \<noteq> [] \<and> work_event w = last (tr_published t)
          \<and> work_sub w \<in> fst ` set (hub_subscribers (tr_hub t)))"

definition hub_inv :: "hub_trace \<Rightarrow> bool" where
  "hub_inv t \<longleftrightarrow> hub_ok t \<and> work_ok t \<and> (\<forall>p \<in> set (hub_subscribers (tr_hub t)). sub_ok t p)"

section \<open>The invariant\<close>

lemma no_work [simp]: "\<not> visit_pending [] sid" "\<not> draining [] sid"
  by (simp_all add: visit_pending_def draining_def)

lemma visits_only [simp]:
  "visit_pending (map (\<lambda>s. Visit s e) ids) sid \<longleftrightarrow> sid \<in> set ids"
  "\<not> draining (map (\<lambda>s. Visit s e) ids) sid"
  by (auto simp: visit_pending_def draining_def)

lemma work_Cons [simp]:
  "visit_pending (Visit s e # ws) sid \<longleftrightarrow> s = sid \<or> visit_pending ws sid"
  "visit_pending (Drain s e # ws) sid \<longleftrightarrow> visit_pending ws sid"
  "draining (Visit s e # ws) sid \<longleftrightarrow> draining ws sid"
  "draining (Drain s e # ws) sid \<longleftrightarrow> s = sid \<or> draining ws sid"
  by (auto simp: visit_pending_def draining_def)

lemma work_elsewhere:
  assumes "sid \<notin> work_sub ` set ws"
  shows "\<not> visit_pending ws sid" "\<not> draining ws sid"
  using assms by (force simp: visit_pending_def draining_def)+

lemma subseq_drop_snoc: "subseq xs (drop n ys) \<Longrightarrow> subseq xs (drop n (ys @ [y]))"
  by (auto intro: subseq_order.order_trans)

lemma drop_drop_limit:
  assumes "0 < k"
  shows "(let r = drop (length xs - k) xs @ [e]
    in if k < length r then drop (length r - k) r else r) = drop (length (xs @ [e]) - k) (xs @ [e])"
proof (cases "k \<le> length xs")
  case True
  have "drop 1 (drop (length xs - k) (xs @ [e])) = drop (length xs - k + 1) (xs @ [e])"
    by (simp add: drop_drop)
  with True show ?thesis by (simp add: Let_def Suc_diff_le)
next
  case False
  then show ?thesis by (simp add: Let_def)
qed

lemma beginPublish_fields:
  assumes "beginPublish h e = (h', e')"
  shows "hub_nextID h' = uint64_succ (hub_nextID h)" "hub_replayLimit h' = hub_replayLimit h"
    "hub_nextSubID h' = hub_nextSubID h" "hub_subscribers h' = hub_subscribers h"
    "hub_replay h' = (let r = hub_replay h @ [e']
       in if hub_replayLimit h < length r then drop (length r - hub_replayLimit h) r else r)"
    "ev_ID e' = uint64_succ (hub_nextID h)" "hub_dropped h' = hub_dropped h"
  using assms by (auto simp: beginPublish_def Let_def)

lemma Publish_inv:
  assumes inv: "hub_inv t" and room: "length (tr_published t) + 1 < 2 ^ 64"
  shows "hub_inv (hub_step t (OpPublish e ids))"
proof (cases "tr_work t = [] \<and> iteration_order (tr_hub t) ids")
  case True
  let ?pub = "tr_published t" and ?h = "tr_hub t"
  obtain h' e' where pub: "beginPublish ?h e = (h', e')" by (cases "beginPublish ?h e")
  note f = beginPublish_fields [OF pub]
  let ?t = "t\<lparr>tr_hub := h', tr_published := ?pub @ [e'], tr_work := map (\<lambda>sid. Visit sid e') ids\<rparr>"
  from inv have ok: "hub_ok t" and subs: "\<And>p. p \<in> set (hub_subscribers ?h) \<Longrightarrow> sub_ok t p"
    by (auto simp: hub_inv_def)
  have nid: "uint64_succ (hub_nextID ?h) = length ?pub + 1"
    using ok room by (simp add: hub_ok_def uint64_succ_less)
  have len: "hub_nextID ?h = length ?pub" using ok by (simp add: hub_ok_def)
  have "hub_replay h' = drop (length (?pub @ [e']) - hub_replayLimit ?h) (?pub @ [e'])"
    unfolding f using ok drop_drop_limit [of "hub_replayLimit ?h" ?pub e'] by (simp add: hub_ok_def)
  with ok nid have "hub_ok ?t" by (simp add: hub_ok_def f len [symmetric] del: upt_Suc) (simp add: len)
  moreover have "work_ok ?t"
    using True by (auto simp: work_ok_def iteration_order_def f comp_def)
  moreover have "sub_ok ?t p" if "p \<in> set (hub_subscribers ?h)" for p
  proof -
    from that True have "fst p \<in> set ids" by (auto simp: iteration_order_def)
    with subs [OF that] True show ?thesis by (simp add: sub_ok_def offered_events_def f)
  qed
  ultimately have "hub_inv ?t" by (simp add: hub_inv_def f)
  with True pub show ?thesis by simp
next
  case False
  with inv show ?thesis by auto
qed

lemma replayTo_seen:
  assumes "replayTo a es u = (u', n)" and "\<not> sub_resync u"
    and "length (sub_channel u) \<le> sub_capacity u" and "1 \<le> sub_capacity u"
  shows "sub_capacity u' = sub_capacity u \<and> length (sub_channel u') \<le> sub_capacity u'
    \<and> (if sub_resync u' then \<exists>c. sub_channel u' = [resyncEvent c]
       else sub_channel u' = sub_channel u @ filter (\<lambda>e. a < ev_ID e) es)"
  using assms
proof (induction es arbitrary: u)
  case Nil
  then show ?case by simp
next
  case (Cons e es)
  show ?case
  proof (cases "ev_ID e \<le> a")
    case True
    with Cons.prems Cons.IH [of u] show ?thesis by (simp add: not_less)
  next
    case False
    obtain u1 m where off: "offer u e = (u1, m)" by (cases "offer u e")
    show ?thesis
    proof (cases "length (sub_channel u) < sub_capacity u")
      case True
      with off have u1: "u1 = u\<lparr>sub_channel := sub_channel u @ [e]\<rparr>" by (simp add: offer_def)
      with Cons.prems off False have rec: "replayTo a es u1 = (u', n)" by simp
      have "sub_capacity u' = sub_capacity u1 \<and> length (sub_channel u') \<le> sub_capacity u' \<and>
        (if sub_resync u' then \<exists>c. sub_channel u' = [resyncEvent c]
         else sub_channel u' = sub_channel u1 @ filter (\<lambda>e. a < ev_ID e) es)"
        by (rule Cons.IH [OF rec]) (use True Cons.prems in \<open>auto simp: u1\<close>)
      with False show ?thesis by (simp add: u1 not_le)
    next
      case room: False
      with off have u1: "u1 = forceResyncLocked u e" by (simp add: offer_def)
      with Cons.prems off False have "u' = u1" by (simp add: forceResyncLocked_def)
      with u1 Cons.prems show ?thesis by (auto simp: forceResyncLocked_def)
    qed
  qed
qed

lemma filter_ids_drop:
  assumes "map ev_ID pub = [1..<length pub + 1]" and "a \<le> length pub" and "d \<le> a"
  shows "filter (\<lambda>e. a < ev_ID e) (drop d pub) = drop a pub"
proof -
  have nth: "ev_ID (pub ! i) = i + 1" if "i < length pub" for i
  proof -
    have "map ev_ID pub ! i = [1..<length pub + 1] ! i" by (simp only: assms(1))
    with that show ?thesis by (simp del: upt_Suc)
  qed
  have split: "drop d pub = take (a - d) (drop d pub) @ drop a pub"
    using assms(2,3) by (metis append_take_drop_id drop_drop le_add_diff_inverse2)
  have "filter (\<lambda>e. a < ev_ID e) (take (a - d) (drop d pub)) = []"
    by (rule filter_False) (auto simp: in_set_conv_nth nth not_less)
  moreover have "filter (\<lambda>e. a < ev_ID e) (drop a pub) = drop a pub"
    by (rule filter_True) (auto simp: in_set_conv_nth nth)
  ultimately show ?thesis by (subst split) simp
qed

lemma clampCapacity_bounds: "1 \<le> clampCapacity c" "clampCapacity c \<le> MaxSubscriberCapacity"
  by (auto simp: clampCapacity_def Let_def DefaultSubscriberCapacity_def MaxSubscriberCapacity_def)

lemma offered_cong:
  assumes "tr_published t' = tr_published t"
    and "visit_pending (tr_work t') sid = visit_pending (tr_work t) sid"
  shows "offered_events t' sid = offered_events t sid"
  using assms by (simp add: offered_events_def)

lemma sub_ok_other:
  assumes "sub_ok t p" and "fst p \<noteq> sid" and "hub_nextSubID (tr_hub t) \<le> hub_nextSubID h"
  shows "sub_ok (t\<lparr>tr_hub := h, tr_start := (tr_start t)(sid := x),
    tr_received := (tr_received t)(sid := y)\<rparr>) p"
proof -
  let ?t = "t\<lparr>tr_hub := h, tr_start := (tr_start t)(sid := x), tr_received := (tr_received t)(sid := y)\<rparr>"
  have "offered_events ?t (fst p) = offered_events t (fst p)" by (rule offered_cong) simp_all
  with assms show ?thesis by (simp add: sub_ok_def)
qed

lemma Subscribe_new_ok:
  assumes ok: "hub_ok t" and new: "Subscribe (tr_hub t) a cap now = (h, sid)"
    and mem: "(sid, u) \<in> set (hub_subscribers h)"
  shows "1 \<le> sub_capacity u \<and> sub_capacity u \<le> MaxSubscriberCapacity
    \<and> length (sub_channel u) \<le> sub_capacity u \<and> sid = hub_nextSubID h
    \<and> (let start = (case a of None \<Rightarrow> length (tr_published t) | Some n \<Rightarrow> n)
       in (\<not> sub_resync u \<longrightarrow> start \<le> length (tr_published t))
          \<and> gapless (tr_published t) start (sub_resync u) False (sub_channel u))"
proof -
  let ?h = "tr_hub t" and ?pub = "tr_published t"
  let ?u0 = "\<lparr> sub_channel = [], sub_capacity = clampCapacity cap, sub_resync = False \<rparr>"
  let ?d = "length ?pub - hub_replayLimit ?h"
  have cap: "1 \<le> clampCapacity cap" "clampCapacity cap \<le> MaxSubscriberCapacity"
    by (rule clampCapacity_bounds)+
  from ok have nid: "hub_nextID ?h = length ?pub" and replay: "hub_replay ?h = drop ?d ?pub"
    and ids: "map ev_ID ?pub = [1..<length ?pub + 1]"
    by (simp_all add: hub_ok_def)
  from new have sid: "sid = hub_nextSubID h"
    by (auto simp: Subscribe_def Let_def split: prod.splits)
  show ?thesis
  proof (cases a)
    case None
    with new mem have "u = ?u0" by (auto simp: Subscribe_def Let_def)
    with None sid cap show ?thesis by (simp add: gapless_def)
  next
    case (Some n)
    let ?bad = "hub_nextID ?h < n \<or> (hub_replay ?h \<noteq> [] \<and> uint64_succ n < ev_ID (hd (hub_replay ?h)))"
    show ?thesis
    proof (cases ?bad)
      case True
      with new mem Some have "u = forceResyncLocked ?u0 (zeroEvent\<lparr>ev_ID := hub_nextID ?h, ev_ChangedAt := now\<rparr>)"
        by (auto simp: Subscribe_def Let_def)
      with Some sid cap show ?thesis by (auto simp: forceResyncLocked_def gapless_def)
    next
      case False
      obtain u' m where rep: "replayTo n (hub_replay ?h) ?u0 = (u', m)"
        by (cases "replayTo n (hub_replay ?h) ?u0")
      from False new mem Some rep have u: "u = u'"
        by (auto simp: Subscribe_def Let_def split: if_splits)
      have n_le: "n \<le> length ?pub" using False nid by simp
      have d_le: "?d \<le> n"
      proof (cases "hub_replay ?h = []")
        case True
        with replay have "length ?pub \<le> ?d" by simp
        moreover from ok have "0 < hub_replayLimit ?h" by (simp add: hub_ok_def)
        ultimately have "length ?pub = 0" by linarith
        then show ?thesis by simp
      next
        case nonempty: False
        then have lt: "?d < length ?pub" using replay by simp
        have "map ev_ID ?pub ! ?d = [1..<length ?pub + 1] ! ?d" by (simp only: ids)
        with lt have "ev_ID (hd (hub_replay ?h)) = ?d + 1"
          by (simp add: replay hd_drop_conv_nth del: upt_Suc)
        with False nonempty have "?d + 1 \<le> uint64_succ n" by simp
        moreover have "uint64_succ n \<le> n + 1" by (simp add: uint64_succ_def)
        ultimately show ?thesis by simp
      qed
      from replayTo_seen [OF rep] cap
      have seen: "sub_capacity u' = clampCapacity cap \<and> length (sub_channel u') \<le> sub_capacity u' \<and>
        (if sub_resync u' then \<exists>c. sub_channel u' = [resyncEvent c]
         else sub_channel u' = filter (\<lambda>e. n < ev_ID e) (hub_replay ?h))"
        by simp
      have "filter (\<lambda>e. n < ev_ID e) (hub_replay ?h) = drop n ?pub"
        unfolding replay by (rule filter_ids_drop [OF ids n_le d_le])
      with seen Some sid cap u n_le show ?thesis
        by (auto simp: gapless_def split: if_splits)
    qed
  qed
qed

lemma Subscribe_inv:
  assumes inv: "hub_inv t" and room: "hub_nextSubID (tr_hub t) + 1 < 2 ^ 64"
  shows "hub_inv (hub_step t (OpSubscribe a cap now))"
proof (cases "tr_work t = []")
  case idle: True
  let ?h = "tr_hub t"
  obtain h sid where new: "Subscribe ?h a cap now = (h, sid)" by (cases "Subscribe ?h a cap now")
  have sid: "sid = hub_nextSubID ?h + 1"
    using new room by (auto simp: Subscribe_def Let_def uint64_succ_less split: prod.splits)
  from new obtain u where subs: "hub_subscribers h = (sid, u) # filter (\<lambda>p. fst p \<noteq> sid) (hub_subscribers ?h)"
    and same: "hub_nextID h = hub_nextID ?h" "hub_replay h = hub_replay ?h"
      "hub_replayLimit h = hub_replayLimit ?h" "hub_nextSubID h = sid"
    by (auto simp: Subscribe_def Let_def split: prod.splits)
  from inv have ok: "hub_ok t" and subs_ok: "\<And>p. p \<in> set (hub_subscribers ?h) \<Longrightarrow> sub_ok t p"
    by (auto simp: hub_inv_def)
  have fresh: "fst p \<noteq> sid" if "p \<in> set (hub_subscribers ?h)" for p
    using subs_ok [OF that] sid by (auto simp: sub_ok_def)
  define start where "start = (case a of None \<Rightarrow> length (tr_published t) | Some n \<Rightarrow> n)"
  let ?t = "t\<lparr>tr_hub := h, tr_start := (tr_start t)(sid := start), tr_received := (tr_received t)(sid := [])\<rparr>"
  have "sub_ok ?t (sid, u)"
    using Subscribe_new_ok [OF ok new, of u] idle
    by (simp add: subs sub_ok_def Let_def start_def offered_events_def)
  moreover have "sub_ok ?t p" if "p \<in> set (hub_subscribers ?h)" for p
    using subs_ok [OF that] fresh [OF that] same sid by (intro sub_ok_other) auto
  moreover have "distinct (map fst (hub_subscribers h))"
    using ok fresh by (auto simp: subs hub_ok_def distinct_map_filter)
  moreover have "work_ok ?t" using idle by (simp add: work_ok_def)
  ultimately have "hub_inv ?t"
    using ok same by (auto simp: hub_inv_def hub_ok_def subs)
  with idle show ?thesis by (simp add: new start_def)
next
  case False
  with inv show ?thesis by simp
qed

text \<open>A step that changes one subscriber keeps the invariant when that subscriber is in order.\<close>

lemma one_sub_inv:
  assumes inv: "hub_inv t"
    and subs: "hub_subscribers (tr_hub t') = hub_subscribers (set_sub sid u (tr_hub t))"
    and hub: "hub_nextID (tr_hub t') = hub_nextID (tr_hub t)" "hub_replay (tr_hub t') = hub_replay (tr_hub t)"
      "hub_replayLimit (tr_hub t') = hub_replayLimit (tr_hub t)"
      "hub_nextSubID (tr_hub t') = hub_nextSubID (tr_hub t)"
    and trace: "tr_published t' = tr_published t" "tr_start t' = tr_start t"
    and others: "\<And>i. i \<noteq> sid \<Longrightarrow> tr_received t' i = tr_received t i
        \<and> visit_pending (tr_work t') i = visit_pending (tr_work t) i
        \<and> draining (tr_work t') i = draining (tr_work t) i"
    and work: "distinct (map work_sub (tr_work t'))"
      "\<And>w. w \<in> set (tr_work t') \<Longrightarrow> \<exists>v \<in> set (tr_work t). work_event w = work_event v \<and> work_sub w = work_sub v"
    and ok: "sub_ok t' (sid, u)"
  shows "hub_inv t'"
proof -
  have ids: "map fst (hub_subscribers (tr_hub t')) = map fst (hub_subscribers (tr_hub t))"
    by (simp add: subs set_sub_def case_prod_unfold comp_def)
  from inv hub trace ids have "hub_ok t'" by (simp add: hub_inv_def hub_ok_def)
  moreover have "work_ok t'"
  proof -
    from ids have "fst ` set (hub_subscribers (tr_hub t')) = fst ` set (hub_subscribers (tr_hub t))"
      by (metis list.set_map)
    moreover from inv have "\<And>v. v \<in> set (tr_work t) \<Longrightarrow> tr_published t \<noteq> []
        \<and> work_event v = last (tr_published t) \<and> work_sub v \<in> fst ` set (hub_subscribers (tr_hub t))"
      by (simp add: hub_inv_def work_ok_def)
    ultimately show ?thesis unfolding work_ok_def using work trace(1) by metis
  qed
  moreover have "sub_ok t' (i, v)" if mem: "(i, v) \<in> set (hub_subscribers (tr_hub t'))" for i v
  proof (cases "i = sid")
    case True
    with mem ok show ?thesis by (auto simp: subs set_sub_def)
  next
    case False
    with mem have "(i, v) \<in> set (hub_subscribers (tr_hub t))" by (auto simp: subs set_sub_def)
    with inv have "sub_ok t (i, v)" by (simp add: hub_inv_def)
    moreover have "offered_events t' i = offered_events t i" by (rule offered_cong) (use trace others False in simp_all)
    ultimately show ?thesis using others [OF False] hub trace by (simp add: sub_ok_def)
  qed
  ultimately show ?thesis by (auto simp: hub_inv_def)
qed

lemma set_sub_same:
  assumes "hub_ok t" and "map_of (hub_subscribers (tr_hub t)) sid = Some u"
  shows "hub_subscribers (tr_hub t) = hub_subscribers (set_sub sid u (tr_hub t))"
  using assms by (auto simp: set_sub_def hub_ok_def dest: eq_key_imp_eq_value intro!: map_idI [symmetric])

lemma work_head:
  assumes "hub_inv t" and "tr_work t = w # ws"
  obtains u pub where "map_of (hub_subscribers (tr_hub t)) (work_sub w) = Some u"
    and "sub_ok t (work_sub w, u)" and "tr_published t = pub @ [work_event w]"
    and "\<not> visit_pending ws (work_sub w)" and "\<not> draining ws (work_sub w)"
proof -
  from assms have "work_sub w \<in> fst ` set (hub_subscribers (tr_hub t))" "tr_published t \<noteq> []"
    "work_event w = last (tr_published t)" "work_sub w \<notin> work_sub ` set ws"
    by (auto simp: hub_inv_def work_ok_def)
  moreover from this obtain u where "map_of (hub_subscribers (tr_hub t)) (work_sub w) = Some u"
    by (metis map_of_eq_None_iff not_None_eq)
  moreover from this assms(1) have "sub_ok t (work_sub w, u)"
    by (auto simp: hub_inv_def dest: map_of_SomeD)
  ultimately show thesis
    using that [of u "butlast (tr_published t)"] work_elsewhere [of "work_sub w" ws] by simp
qed

lemma visit_inv:
  assumes inv: "hub_inv t" and head: "tr_work t = Visit sid e # ws"
  shows "hub_inv (hub_step t OpHub)"
proof -
  from inv have ok: "hub_ok t" and dist: "distinct (map work_sub (tr_work t))"
    by (simp_all add: hub_inv_def work_ok_def)
  from work_head [OF inv head] obtain u pub where u: "map_of (hub_subscribers (tr_hub t)) sid = Some u"
    and sub: "sub_ok t (sid, u)" and pub: "tr_published t = pub @ [e]"
    and rest: "\<not> visit_pending ws sid" "\<not> draining ws sid"
    by auto
  consider "sub_resync u" | "\<not> sub_resync u" "length (sub_channel u) < sub_capacity u"
    | "\<not> sub_resync u" "\<not> length (sub_channel u) < sub_capacity u" by blast
  then show ?thesis
  proof cases
    case 1
    with u head have step: "hub_step t OpHub = t\<lparr>tr_work := ws\<rparr>" by simp
    show ?thesis unfolding step
    proof (rule one_sub_inv [where sid = sid and u = u, OF inv])
      show "sub_ok (t\<lparr>tr_work := ws\<rparr>) (sid, u)"
        using sub 1 head rest pub by (auto simp: sub_ok_def offered_events_def gapless_def intro: subseq_drop_snoc)
    qed (use head dist set_sub_same [OF ok u] in auto)
  next
    case 2
    let ?u = "u\<lparr>sub_channel := sub_channel u @ [e]\<rparr>"
    let ?t = "t\<lparr>tr_hub := set_sub sid ?u (tr_hub t), tr_work := ws\<rparr>"
    from 2 u head have step: "hub_step t OpHub = ?t" by simp
    show ?thesis unfolding step
    proof (rule one_sub_inv [where sid = sid and u = ?u, OF inv])
      show "sub_ok ?t (sid, ?u)"
        using sub 2 head rest pub by (auto simp: sub_ok_def offered_events_def gapless_def set_sub_def)
    qed (use head dist in \<open>auto simp: set_sub_def\<close>)
  next
    case 3
    with u head have step: "hub_step t OpHub = t\<lparr>tr_work := Drain sid e # ws\<rparr>" by simp
    show ?thesis unfolding step
    proof (rule one_sub_inv [where sid = sid and u = u, OF inv])
      show "sub_ok (t\<lparr>tr_work := Drain sid e # ws\<rparr>) (sid, u)"
        using sub 3 head rest pub by (auto simp: sub_ok_def offered_events_def gapless_def)
    qed (use head dist set_sub_same [OF ok u] in auto)
  qed
qed

lemma subseq_pop: "subseq (xs @ y # ys) zs \<Longrightarrow> subseq (xs @ ys) zs"
  by (rule subseq_order.order_trans [of _ "xs @ y # ys"]) (auto simp: subseq_append')

lemma drain_inv:
  assumes inv: "hub_inv t" and head: "tr_work t = Drain sid e # ws"
  shows "hub_inv (hub_step t OpHub)"
proof -
  from inv have dist: "distinct (map work_sub (tr_work t))" by (simp add: hub_inv_def work_ok_def)
  from work_head [OF inv head] obtain u pub where u: "map_of (hub_subscribers (tr_hub t)) sid = Some u"
    and sub: "sub_ok t (sid, u)" and rest: "\<not> visit_pending ws sid" "\<not> draining ws sid"
    by auto
  show ?thesis
  proof (cases "sub_channel u")
    case Nil
    let ?u = "u\<lparr>sub_channel := [resyncEvent e], sub_resync := True\<rparr>"
    let ?t = "t\<lparr>tr_hub := (set_sub sid ?u (tr_hub t))\<lparr>hub_dropped := hub_dropped (tr_hub t) + 1\<rparr>, tr_work := ws\<rparr>"
    from Nil u head have step: "hub_step t OpHub = ?t" by simp
    show ?thesis unfolding step
    proof (rule one_sub_inv [where sid = sid and u = ?u, OF inv])
      show "sub_ok ?t (sid, ?u)"
        using sub Nil head rest by (auto simp: sub_ok_def offered_events_def gapless_def set_sub_def)
    qed (use head dist in \<open>auto simp: set_sub_def\<close>)
  next
    case (Cons b bs)
    let ?u = "u\<lparr>sub_channel := bs\<rparr>"
    let ?t = "t\<lparr>tr_hub := set_sub sid ?u (tr_hub t), tr_work := Drain sid e # ws\<rparr>"
    from Cons u head have step: "hub_step t OpHub = ?t" by simp
    show ?thesis unfolding step
    proof (rule one_sub_inv [where sid = sid and u = ?u, OF inv])
      show "sub_ok ?t (sid, ?u)"
        using sub Cons head rest by (auto simp: sub_ok_def offered_events_def gapless_def set_sub_def dest: subseq_pop)
    qed (use head dist in \<open>auto simp: set_sub_def\<close>)
  qed
qed

lemma hub_work_inv:
  assumes inv: "hub_inv t"
  shows "hub_inv (hub_step t OpHub)"
proof (cases "tr_work t")
  case (Cons w ws)
  with inv show ?thesis by (cases w) (simp_all add: visit_inv drain_inv del: hub_step.simps)
qed (use inv in simp)

lemma receive_inv:
  assumes inv: "hub_inv t"
  shows "hub_inv (hub_step t (OpReceive sid))"
proof (cases "receive (tr_hub t) sid")
  case None
  with inv show ?thesis by simp
next
  case (Some r)
  then obtain u e es where u: "map_of (hub_subscribers (tr_hub t)) sid = Some u"
    and q: "sub_channel u = e # es" and r: "r = (e, set_sub sid (u\<lparr>sub_channel := es\<rparr>) (tr_hub t))"
    by (auto simp: receive_def split: option.splits list.splits)
  let ?u = "u\<lparr>sub_channel := es\<rparr>"
  let ?t = "t\<lparr>tr_hub := set_sub sid ?u (tr_hub t), tr_received := (tr_received t)(sid := tr_received t sid @ [e])\<rparr>"
  have step: "hub_step t (OpReceive sid) = ?t" by (simp add: Some r)
  from inv u have sub: "sub_ok t (sid, u)" by (auto simp: hub_inv_def dest: map_of_SomeD)
  have dist: "distinct (map work_sub (tr_work t))" using inv by (simp add: hub_inv_def work_ok_def)
  show ?thesis unfolding step
  proof (rule one_sub_inv [where sid = sid and u = ?u, OF inv])
    have "offered_events ?t sid = offered_events t sid" by (rule offered_cong) simp_all
    with sub q show "sub_ok ?t (sid, ?u)" by (simp add: sub_ok_def set_sub_def)
  qed (use dist in \<open>auto simp: set_sub_def\<close>)
qed

lemma close_inv:
  assumes inv: "hub_inv t"
  shows "hub_inv (hub_step t (OpClose sid))"
proof (cases "tr_work t = []")
  case True
  with inv show ?thesis
    by (auto simp: hub_inv_def hub_ok_def work_ok_def unsubscribe_def sub_ok_def offered_events_def distinct_map_filter)
qed (use inv in simp)

lemma publish_micro_frame:
  "hub_nextSubID (fst (publish_micro w h)) = hub_nextSubID h"
  by (cases "(w, h)" rule: publish_micro.cases) (auto simp: set_sub_def split: option.splits list.splits)

lemma hub_step_counts:
  "length (tr_published (hub_step t x)) \<le> length (tr_published t) + 1
   \<and> hub_nextSubID (tr_hub (hub_step t x)) \<le> hub_nextSubID (tr_hub t) + 1"
proof (cases x)
  case (OpSubscribe a cap now)
  have "uint64_succ n \<le> n + 1" for n by (simp add: uint64_succ_def)
  then show ?thesis
    by (auto simp: OpSubscribe Subscribe_def Let_def split: prod.splits)
next
  case OpHub
  show ?thesis
    using publish_micro_frame [of "hd (tr_work t)" "tr_hub t"]
    by (auto simp: OpHub split: list.splits prod.splits)
qed (auto simp: beginPublish_def Let_def unsubscribe_def receive_def set_sub_def
      split: option.splits list.splits)

lemma hub_step_inv:
  assumes "hub_inv t" and "length (tr_published t) + 1 < 2 ^ 64"
    and "hub_nextSubID (tr_hub t) + 1 < 2 ^ 64"
  shows "hub_inv (hub_step t x)"
  using assms
  by (cases x) (auto intro: Publish_inv Subscribe_inv receive_inv close_inv hub_work_inv simp del: hub_step.simps)

lemma hub_fold_inv:
  assumes "hub_inv t" and "length (tr_published t) + length ops < 2 ^ 64"
    and "hub_nextSubID (tr_hub t) + length ops < 2 ^ 64"
  shows "hub_inv (hub_steps ops t)"
  using assms
proof (induction ops arbitrary: t)
  case Nil
  then show ?case by simp
next
  case (Cons x ops)
  have "hub_inv (hub_step t x)" by (rule hub_step_inv) (use Cons.prems in auto)
  moreover have "length (tr_published (hub_step t x)) + length ops < 2 ^ 64"
    "hub_nextSubID (tr_hub (hub_step t x)) + length ops < 2 ^ 64"
    using hub_step_counts [of t x] Cons.prems by auto
  ultimately show ?case using Cons.IH by (simp del: hub_step.simps)
qed

lemma hub_run_inv: "length ops < 2 ^ 64 \<Longrightarrow> hub_inv (hub_run cap ops)"
  unfolding hub_run_def
  by (rule hub_fold_inv) (auto simp: hub_inv_def hub_ok_def work_ok_def NewHub_def DefaultReplayCapacity_def)

section \<open>Publications finish\<close>

text \<open>What a publication has still to do, in channel operations: receives never add to it.\<close>

fun micro_left :: "hub \<Rightarrow> hub_work \<Rightarrow> nat" where
  "micro_left h (Visit sid e) = MaxSubscriberCapacity + 2"
| "micro_left h (Drain sid e) =
     (case map_of (hub_subscribers h) sid of None \<Rightarrow> 1 | Some u \<Rightarrow> length (sub_channel u) + 1)"

definition work_left :: "hub_trace \<Rightarrow> nat" where
  "work_left t = sum_list (map (micro_left (tr_hub t)) (tr_work t))"

lemma map_of_set_sub:
  "map_of (hub_subscribers (set_sub sid u h)) i =
     (if i = sid then map_option (\<lambda>_. u) (map_of (hub_subscribers h) i) else map_of (hub_subscribers h) i)"
proof -
  have "map_of (map (\<lambda>(i, v). (i, if i = sid then u else v)) xs) i =
    (if i = sid then map_option (\<lambda>_. u) (map_of xs i) else map_of xs i)" for xs
    by (induction xs) auto
  then show ?thesis by (simp add: set_sub_def)
qed

lemma micro_left_bound:
  assumes "hub_inv t" and "w \<in> set (tr_work t)"
  shows "micro_left (tr_hub t) w \<le> MaxSubscriberCapacity + 2"
proof (cases w)
  case (Drain sid e)
  have "length (sub_channel u) \<le> MaxSubscriberCapacity" if "map_of (hub_subscribers (tr_hub t)) sid = Some u" for u
    using map_of_SomeD [OF that] assms(1) by (force simp: hub_inv_def sub_ok_def)
  then show ?thesis by (auto simp: Drain split: option.split intro: le_SucI)
qed simp

lemma work_left_bound:
  assumes "hub_inv t"
  shows "work_left t \<le> (MaxSubscriberCapacity + 2) * length (tr_work t)"
proof -
  have "sum_list (map (micro_left (tr_hub t)) ws) \<le> (MaxSubscriberCapacity + 2) * length ws"
    if "\<forall>w \<in> set ws. micro_left (tr_hub t) w \<le> MaxSubscriberCapacity + 2" for ws
    using that by (induction ws) auto
  with micro_left_bound [OF assms] show ?thesis by (simp add: work_left_def)
qed

lemma micro_left_set_sub:
  assumes "map_of (hub_subscribers h) sid = Some v"
    and "length (sub_channel u) \<le> length (sub_channel v)"
  shows "micro_left (set_sub sid u h) w \<le> micro_left h w"
  using assms by (cases w) (auto simp: map_of_set_sub split: option.split)

lemma micro_left_elsewhere:
  "work_sub w \<noteq> sid \<Longrightarrow> micro_left (set_sub sid u h) w = micro_left h w"
  by (cases w) (auto simp: map_of_set_sub split: option.split)

lemma micro_left_dropped [simp]: "micro_left (h\<lparr>hub_dropped := n\<rparr>) = micro_left h"
proof
  show "micro_left (h\<lparr>hub_dropped := n\<rparr>) w = micro_left h w" for w
    by (cases w) (auto split: option.split)
qed

lemma receive_work_left: "work_left (hub_step t (OpReceive sid)) \<le> work_left t"
  by (auto simp: work_left_def receive_def intro!: sum_list_mono micro_left_set_sub
      split: option.splits list.splits)

lemma hub_work_left:
  assumes inv: "hub_inv t" and "tr_work t \<noteq> []"
  shows "work_left (hub_step t OpHub) < work_left t"
proof -
  from assms(2) obtain w ws where head: "tr_work t = w # ws" by (cases "tr_work t") auto
  from work_head [OF inv head] obtain u where u: "map_of (hub_subscribers (tr_hub t)) (work_sub w) = Some u"
    and sub: "sub_ok t (work_sub w, u)" by metis
  from inv head have apart: "work_sub v \<noteq> work_sub w" if "v \<in> set ws" for v
    using that by (force simp: hub_inv_def work_ok_def)
  have rest: "sum_list (map (micro_left (set_sub (work_sub w) v (tr_hub t))) ws)
      = sum_list (map (micro_left (tr_hub t)) ws)" for v
    using apart by (simp add: micro_left_elsewhere cong: map_cong)
  show ?thesis
  proof (cases w)
    case (Visit sid e)
    with u sub rest show ?thesis
      by (auto simp: head work_left_def sub_ok_def split: if_split)
  next
    case (Drain sid e)
    with u rest show ?thesis
      by (auto simp: head work_left_def map_of_set_sub comp_def split: list.split)
  qed
qed

lemma publication_finishes:
  assumes "hub_inv t" and "\<forall>x \<in> set ops. x = OpHub \<or> (\<exists>sid. x = OpReceive sid)"
    and "work_left t \<le> count_list ops OpHub"
  shows "tr_work (hub_steps ops t) = []"
  using assms
proof (induction ops arbitrary: t)
  case Nil
  then show ?case by (cases "tr_work t"; cases "hd (tr_work t)") (auto simp: work_left_def split: option.splits)
next
  case (Cons x ops)
  have "hub_inv (hub_step t x)"
    using Cons.prems by (auto intro: hub_work_inv receive_inv simp del: hub_step.simps)
  moreover have "work_left (hub_step t x) \<le> count_list ops OpHub"
  proof (cases "x = OpHub")
    case True
    show ?thesis
    proof (cases "tr_work t = []")
      case False
      from hub_work_left [OF Cons.prems(1) False] True Cons.prems(3) show ?thesis by simp
    qed (simp add: True work_left_def)
  next
    case False
    then obtain sid where "x = OpReceive sid" using Cons.prems(2) by auto
    with receive_work_left [of t sid] False Cons.prems(3) show ?thesis by simp
  qed
  ultimately show ?case using Cons.IH Cons.prems(2) by (simp del: hub_step.simps)
qed

text \<open>A publication that no receive interleaves with is \<open>Publish\<close>.\<close>

lemma drain_alone:
  assumes "tr_work t = Drain sid e # ws" and "map_of (hub_subscribers (tr_hub t)) sid = Some u"
  shows "\<exists>k. hub_steps (replicate k OpHub) t = t\<lparr>tr_work := ws, tr_hub :=
    (set_sub sid (forceResyncLocked u e) (tr_hub t))\<lparr>hub_dropped := hub_dropped (tr_hub t) + 1\<rparr>\<rparr>"
  using assms
proof (induction "sub_channel u" arbitrary: t u)
  case Nil
  then show ?case by (intro exI [of _ 1]) (simp add: forceResyncLocked_def split: list.split)
next
  case (Cons b bs)
  let ?u = "u\<lparr>sub_channel := bs\<rparr>"
  let ?t = "t\<lparr>tr_hub := set_sub sid ?u (tr_hub t)\<rparr>"
  have step: "hub_step t OpHub = ?t" using Cons.prems Cons.hyps(2) [symmetric] by simp
  have "\<exists>k. hub_steps (replicate k OpHub) ?t = ?t\<lparr>tr_work := ws, tr_hub :=
    (set_sub sid (forceResyncLocked ?u e) (tr_hub ?t))\<lparr>hub_dropped := hub_dropped (tr_hub ?t) + 1\<rparr>\<rparr>"
    by (rule Cons.hyps(1)) (use Cons.prems in \<open>simp_all add: map_of_set_sub\<close>)
  then obtain k where "hub_steps (replicate k OpHub) ?t = ?t\<lparr>tr_work := ws, tr_hub :=
    (set_sub sid (forceResyncLocked ?u e) (tr_hub ?t))\<lparr>hub_dropped := hub_dropped (tr_hub ?t) + 1\<rparr>\<rparr>" ..
  moreover have "set_sub sid (forceResyncLocked ?u e) (set_sub sid ?u (tr_hub t)) = set_sub sid (forceResyncLocked u e) (tr_hub t)"
    by (simp add: set_sub_def forceResyncLocked_def comp_def case_prod_unfold cong: if_cong)
  ultimately show ?case
    using step by (intro exI [of _ "Suc k"]) (simp add: set_sub_def del: hub_step.simps)
qed

lemma visit_alone:
  assumes work: "tr_work t = Visit sid e # ws" and u: "map_of (hub_subscribers (tr_hub t)) sid = Some u"
    and dist: "distinct (map fst (hub_subscribers (tr_hub t)))"
  shows "\<exists>k. hub_steps (replicate k OpHub) t = t\<lparr>tr_work := ws, tr_hub :=
    (set_sub sid (fst (publishTo e u)) (tr_hub t))\<lparr>hub_dropped := hub_dropped (tr_hub t) + snd (publishTo e u)\<rparr>\<rparr>"
proof -
  have "map (\<lambda>(i, v). (i, if i = sid then u else v)) (hub_subscribers (tr_hub t)) = hub_subscribers (tr_hub t)"
    using dist map_of_SomeD [OF u] by (auto dest: eq_key_imp_eq_value intro!: map_idI)
  then have same: "set_sub sid u (tr_hub t) = tr_hub t" by (simp add: set_sub_def)
  consider "sub_resync u" | "\<not> sub_resync u" "length (sub_channel u) < sub_capacity u"
    | "\<not> sub_resync u" "\<not> length (sub_channel u) < sub_capacity u" by blast
  then show ?thesis
  proof cases
    case 3
    let ?t = "t\<lparr>tr_work := Drain sid e # ws\<rparr>"
    have step: "hub_step t OpHub = ?t" using work u 3 by simp
    from drain_alone [of ?t sid e ws u] u
    obtain k where "hub_steps (replicate k OpHub) ?t = ?t\<lparr>tr_work := ws, tr_hub :=
      (set_sub sid (forceResyncLocked u e) (tr_hub ?t))\<lparr>hub_dropped := hub_dropped (tr_hub ?t) + 1\<rparr>\<rparr>"
      by auto
    with step 3 show ?thesis
      by (intro exI [of _ "Suc k"]) (simp add: publishTo_def offer_def del: hub_step.simps)
  qed (use work u same in \<open>auto intro!: exI [of _ 1] simp: publishTo_def offer_def set_sub_def\<close>)
qed

definition publishedTo :: "event \<Rightarrow> nat list \<Rightarrow> hub \<Rightarrow> hub" where
  "publishedTo e ids h = h\<lparr>
     hub_subscribers := map (\<lambda>(i, u). (i, if i \<in> set ids then fst (publishTo e u) else u)) (hub_subscribers h),
     hub_dropped := hub_dropped h + sum_list (map (\<lambda>sid. case map_of (hub_subscribers h) sid of
        None \<Rightarrow> 0 | Some u \<Rightarrow> snd (publishTo e u)) ids)\<rparr>"

lemma publishedTo_Cons:
  assumes "map_of (hub_subscribers h) sid = Some u" and "sid \<notin> set ids"
    and "distinct (map fst (hub_subscribers h))"
  shows "publishedTo e ids ((set_sub sid (fst (publishTo e u)) h)
      \<lparr>hub_dropped := hub_dropped h + snd (publishTo e u)\<rparr>) = publishedTo e (sid # ids) h"
proof -
  have "map_of (hub_subscribers (set_sub sid v h)) i = map_of (hub_subscribers h) i" if "i \<in> set ids" for i v
    using that assms(2) by (auto simp: map_of_set_sub)
  then have "sum_list (map (\<lambda>i. case map_of (hub_subscribers (set_sub sid v h)) i of None \<Rightarrow> 0
      | Some u \<Rightarrow> snd (publishTo e u)) ids)
    = sum_list (map (\<lambda>i. case map_of (hub_subscribers h) i of None \<Rightarrow> 0 | Some u \<Rightarrow> snd (publishTo e u)) ids)" for v
    by (simp cong: map_cong)
  moreover have "map (\<lambda>(i, v). (i, if i \<in> set ids then fst (publishTo e v) else v))
      (hub_subscribers (set_sub sid (fst (publishTo e u)) h))
    = map (\<lambda>(i, v). (i, if i \<in> set (sid # ids) then fst (publishTo e v) else v)) (hub_subscribers h)"
  proof -
    have "v = u" if "(sid, v) \<in> set (hub_subscribers h)" for v
      using that assms(1,3) by auto
    then show ?thesis using assms(2) by (auto simp: set_sub_def)
  qed
  moreover have "hub_dropped (set_sub sid v h) = hub_dropped h" for v by (simp add: set_sub_def)
  ultimately show ?thesis
    using assms(1) by (simp add: publishedTo_def) (simp add: set_sub_def)
qed

lemma visits_alone:
  assumes "tr_work t = map (\<lambda>sid. Visit sid e) ids" and "distinct ids"
    and "set ids \<subseteq> fst ` set (hub_subscribers (tr_hub t))"
    and "distinct (map fst (hub_subscribers (tr_hub t)))"
  shows "\<exists>k. hub_steps (replicate k OpHub) t = t\<lparr>tr_work := [], tr_hub := publishedTo e ids (tr_hub t)\<rparr>"
  using assms
proof (induction ids arbitrary: t)
  case Nil
  then show ?case by (intro exI [of _ 0]) (simp add: publishedTo_def)
next
  case (Cons sid ids)
  then obtain u where u: "map_of (hub_subscribers (tr_hub t)) sid = Some u"
    by (metis insert_subset list.simps(15) map_of_eq_None_iff not_None_eq)
  let ?h = "(set_sub sid (fst (publishTo e u)) (tr_hub t))\<lparr>hub_dropped := hub_dropped (tr_hub t) + snd (publishTo e u)\<rparr>"
  let ?t = "t\<lparr>tr_work := map (\<lambda>sid. Visit sid e) ids, tr_hub := ?h\<rparr>"
  from visit_alone [OF _ u, of e "map (\<lambda>sid. Visit sid e) ids"] Cons.prems
  obtain k where k: "hub_steps (replicate k OpHub) t = ?t" by auto
  have ids: "map fst (hub_subscribers ?h) = map fst (hub_subscribers (tr_hub t))"
    by (simp add: set_sub_def case_prod_unfold comp_def)
  then have "fst ` set (hub_subscribers ?h) = fst ` set (hub_subscribers (tr_hub t))" by (metis list.set_map)
  then have "\<exists>m. hub_steps (replicate m OpHub) ?t = ?t\<lparr>tr_work := [], tr_hub := publishedTo e ids (tr_hub ?t)\<rparr>"
    by (intro Cons.IH) (use Cons.prems ids in simp_all)
  then obtain m where m: "hub_steps (replicate m OpHub) ?t = ?t\<lparr>tr_work := [], tr_hub := publishedTo e ids (tr_hub ?t)\<rparr>" ..
  have "publishedTo e ids ?h = publishedTo e (sid # ids) (tr_hub t)"
    by (rule publishedTo_Cons [OF u]) (use Cons.prems in simp_all)
  with k m show ?case
    by (intro exI [of _ "k + m"]) (simp add: replicate_add del: hub_step.simps)
qed

lemma publishedTo_all:
  assumes "iteration_order h ids" and "distinct (map fst (hub_subscribers h))"
  shows "publishedTo e ids h = h\<lparr>
     hub_subscribers := map (\<lambda>(i, u). (i, fst (publishTo e u))) (hub_subscribers h),
     hub_dropped := hub_dropped h + sum_list (map (\<lambda>(i, u). snd (publishTo e u)) (hub_subscribers h))\<rparr>"
proof -
  let ?f = "\<lambda>sid. case map_of (hub_subscribers h) sid of None \<Rightarrow> 0 | Some u \<Rightarrow> snd (publishTo e u)"
  have "sum_list (map ?f ids) = sum ?f (set ids)"
    using assms(1) by (simp add: iteration_order_def sum_list_distinct_conv_sum_set)
  also have "\<dots> = sum_list (map ?f (map fst (hub_subscribers h)))"
    using assms by (simp only: iteration_order_def sum_list_distinct_conv_sum_set)
  also have "map ?f (map fst (hub_subscribers h)) = map (\<lambda>(i, u). snd (publishTo e u)) (hub_subscribers h)"
    using assms(2) by auto
  finally have "sum_list (map ?f ids) = sum_list (map (\<lambda>(i, u). snd (publishTo e u)) (hub_subscribers h))" .
  moreover have "map (\<lambda>(i, u). (i, if i \<in> set ids then fst (publishTo e u) else u)) (hub_subscribers h)
    = map (\<lambda>(i, u). (i, fst (publishTo e u))) (hub_subscribers h)"
    using assms(1) by (force simp: iteration_order_def)
  ultimately show ?thesis by (simp add: publishedTo_def)
qed

lemma publication_alone_is_Publish:
  assumes "tr_work t = []" and "distinct (map fst (hub_subscribers (tr_hub t)))"
    and "iteration_order (tr_hub t) ids"
  shows "\<exists>k. hub_steps (OpPublish e ids # replicate k OpHub) t =
    t\<lparr>tr_hub := fst (Publish (tr_hub t) e), tr_published := tr_published t @ [snd (Publish (tr_hub t) e)]\<rparr>"
proof -
  obtain h' e' where bp: "beginPublish (tr_hub t) e = (h', e')" by (cases "beginPublish (tr_hub t) e")
  note f = beginPublish_fields [OF bp]
  let ?t = "t\<lparr>tr_hub := h', tr_published := tr_published t @ [e'], tr_work := map (\<lambda>sid. Visit sid e') ids\<rparr>"
  have order: "iteration_order h' ids" using assms(3) by (simp add: iteration_order_def f)
  have "\<exists>k. hub_steps (replicate k OpHub) ?t = ?t\<lparr>tr_work := [], tr_hub := publishedTo e' ids (tr_hub ?t)\<rparr>"
    by (rule visits_alone) (use assms order in \<open>auto simp: f iteration_order_def\<close>)
  then obtain k where "hub_steps (replicate k OpHub) ?t = ?t\<lparr>tr_work := [], tr_hub := publishedTo e' ids h'\<rparr>"
    by auto
  moreover have "publishedTo e' ids h' = fst (Publish (tr_hub t) e)" "e' = snd (Publish (tr_hub t) e)"
    using bp assms(2) by (auto simp: publishedTo_all [OF order] f beginPublish_def Publish_def Let_def)
  moreover have "hub_step t (OpPublish e ids) = ?t" using assms(1,3) bp by simp
  ultimately show ?thesis
    using assms(1) by (intro exI [of _ k]) (simp del: hub_step.simps)
qed

section \<open>No event is lost silently\<close>

text \<open>
  C16. no subscriber silently loses an event. Take any interleaving of publications, each
  broken into its channel operations and visiting the subscribers in any order, with
  subscriptions with or without a cursor, with receives at any moment (also between two
  operations of a publication) and with closes, of fewer than \<open>2 ^ 64\<close> steps, so that no
  identifier wraps. A live subscription that is not being drained and has not been told to
  resynchronise has been handed (received or still buffered) exactly the events published
  after its starting point, in order, up to the one whose visit is still to come. One that is
  being drained has been handed some of these events in order and is owed the notice; one that
  was told to resynchronise has been handed some of them in order, then one \<open>resync_required\<close>
  event and nothing after it. The notice is not owed for long: the publication in progress is
  over after at most 258 of its own operations per subscriber it has left to visit, whatever
  the clients receive meanwhile. Buffers never exceed their capacity of at most 256 and the
  replay log never exceeds its limit.
\<close>

theorem hub_no_silent_gap:
  assumes "length ops < 2 ^ 64" and "t = hub_run cap ops"
    and "(sid, u) \<in> set (hub_subscribers (tr_hub t))"
  shows "(\<not> sub_resync u \<and> \<not> draining (tr_work t) sid \<longrightarrow>
        tr_received t sid @ sub_channel u = drop (tr_start t sid) (offered_events t sid))
    \<and> (draining (tr_work t) sid \<longrightarrow> \<not> sub_resync u
        \<and> subseq (tr_received t sid @ sub_channel u) (drop (tr_start t sid) (offered_events t sid)))
    \<and> (sub_resync u \<longrightarrow> (\<exists>got c. tr_received t sid @ sub_channel u = got @ [resyncEvent c]
        \<and> subseq got (drop (tr_start t sid) (offered_events t sid))))
    \<and> (\<forall>more. (\<forall>x \<in> set more. x = OpHub \<or> (\<exists>s. x = OpReceive s))
        \<and> (MaxSubscriberCapacity + 2) * length (tr_work t) \<le> count_list more OpHub
        \<longrightarrow> tr_work (hub_steps more t) = [])
    \<and> length (sub_channel u) \<le> sub_capacity u \<and> sub_capacity u \<le> MaxSubscriberCapacity
    \<and> length (hub_replay (tr_hub t)) \<le> hub_replayLimit (tr_hub t)"
proof -
  from assms(1,2) have inv: "hub_inv t" by (simp add: hub_run_inv)
  then have finish: "\<forall>more. (\<forall>x \<in> set more. x = OpHub \<or> (\<exists>s. x = OpReceive s))
      \<and> (MaxSubscriberCapacity + 2) * length (tr_work t) \<le> count_list more OpHub
      \<longrightarrow> tr_work (hub_steps more t) = []"
    using publication_finishes [OF inv] work_left_bound [OF inv] order_trans by blast
  from inv assms(3) have sub: "sub_ok t (sid, u)" by (simp add: hub_inv_def)
  from inv have "length (hub_replay (tr_hub t)) \<le> hub_replayLimit (tr_hub t)"
    by (simp add: hub_inv_def hub_ok_def)
  with sub show ?thesis
    by (intro conjI finish) (auto simp: sub_ok_def gapless_def split: if_splits)
qed

text \<open>
  A client with room for two events falls behind; the drain of the third publication has removed
  the first event when the client receives, so it gets the second one, with the notice owed.
\<close>

definition fallingBehindOps :: "hub_op list" where
  "fallingBehindOps = [OpSubscribe None 2 9, OpPublish zeroEvent [1], OpHub, OpPublish zeroEvent [1],
     OpHub, OpPublish zeroEvent [1], OpHub, OpHub, OpReceive 1]"

definition sampleEvent :: "nat \<Rightarrow> event" where
  "sampleEvent n = zeroEvent\<lparr>ev_ID := n, ev_SchemaVersion := 1\<rparr>"

lemmas hub_eval = NewHub_def Subscribe_def receive_def unsubscribe_def uint64_succ_def clampCapacity_def
  SchemaVersion_def MaxSubscriberCapacity_def DefaultSubscriberCapacity_def Let_def set_sub_def
  beginPublish_def iteration_order_def offer_def sampleEvent_def

lemma falling_behind:
  "tr_work (hub_run 8 fallingBehindOps) = [Drain 1 (sampleEvent 3)]
   \<and> hub_subscribers (tr_hub (hub_run 8 fallingBehindOps)) =
       [(1, \<lparr>sub_channel = [], sub_capacity = 2, sub_resync = False\<rparr>)]
   \<and> tr_received (hub_run 8 fallingBehindOps) 1 = [sampleEvent 2]
   \<and> tr_start (hub_run 8 fallingBehindOps) 1 = 0
   \<and> tr_published (hub_run 8 fallingBehindOps) = map sampleEvent [1, 2, 3]"
  by (simp add: hub_run_def fallingBehindOps_def hub_eval)

theorem hub_no_silent_gap_witness:
  "length fallingBehindOps < 2 ^ 64
   \<and> draining (tr_work (hub_run 8 fallingBehindOps)) 1
   \<and> subseq (tr_received (hub_run 8 fallingBehindOps) 1) (map sampleEvent [1, 2, 3])
   \<and> tr_work (hub_steps (replicate 258 OpHub) (hub_run 8 fallingBehindOps)) = []"
proof -
  let ?t = "hub_run 8 fallingBehindOps"
  let ?u = "\<lparr>sub_channel = [], sub_capacity = 2, sub_resync = False\<rparr>"
  note f = falling_behind
  have len: "length fallingBehindOps < 2 ^ 64" by (simp add: fallingBehindOps_def)
  have mem: "(1, ?u) \<in> set (hub_subscribers (tr_hub ?t))" using f by simp
  have drain: "draining (tr_work ?t) 1" using f by simp
  have "(MaxSubscriberCapacity + 2) * length (tr_work ?t) \<le> count_list (replicate 258 OpHub) OpHub"
    using f by (simp add: MaxSubscriberCapacity_def count_list_eq_length_filter)
  moreover have "\<forall>x \<in> set (replicate 258 OpHub). x = OpHub \<or> (\<exists>s. x = OpReceive s)" by simp
  ultimately have "tr_work (hub_steps (replicate 258 OpHub) ?t) = []"
    using hub_no_silent_gap [OF len refl mem] by blast
  moreover have "subseq (tr_received ?t 1) (map sampleEvent [1, 2, 3])"
    using hub_no_silent_gap [OF len refl mem] f drain by (simp add: offered_events_def)
  ultimately show ?thesis using len drain by simp
qed

text \<open>
  The notice reaches the client only through its channel. When the connection of that client ends
  before the notice, it resumes from the last identifier it saw and is replayed what follows: the
  first event, which the drain removed, is neither received nor announced as lost.
\<close>

lemma drained_event_lost_on_resume:
  "let t = hub_steps [OpHub, OpClose 1, OpSubscribe (Some 2) 2 9] (hub_run 8 fallingBehindOps)
   in hub_subscribers (tr_hub t) = [(2, \<lparr>sub_channel = [sampleEvent 3], sub_capacity = 2, sub_resync = False\<rparr>)]
      \<and> tr_received t 1 = [sampleEvent 2] \<and> tr_published t = map sampleEvent [1, 2, 3]"
  by (simp add: hub_run_def fallingBehindOps_def hub_eval)

end
