(* ===== verification/Store.thy ===== *)
theory Store
  imports Event_Hub
begin

text \<open>
  The PostgreSQL tables the Go statements read and write (\<open>core/migrations\<close>), one record per
  row and one list per table, and the process state around them: the statement fault
  schedule, the supply behind \<open>gen_random_uuid()\<close>, the database clock and the event hub.
  A nullable column is an option. Identifiers are UUIDs in their canonical text form, whose
  lexicographic order is the order of the \<open>uuid\<close> type.

  The enumerations of packages \<open>incidents\<close> and \<open>notifications\<close> that are column types live here
  too. Where Go compares against declared constants only, the datatype has exactly those
  constructors; where it also handles arbitrary strings there is an \<open>Other\<close> constructor.
\<close>

section \<open>Enumerations\<close>

datatype severity = SeverityWarning | SeverityCritical | OtherSeverity string

datatype status =
    StatusOpen | StatusAcknowledged | StatusInvestigating | StatusRecovered | StatusResolved

datatype action =
    ActionAcknowledge | ActionInvestigate | ActionAssign | ActionNote | ActionResolve
  | OtherAction string

datatype delivery_state =
    StateQueued | StateAttempting | StateDelivered | StateRetryWait | StateFailed
  | StateDeadLetter | StateSuppressed

fun status_text :: "status \<Rightarrow> string" where
  "status_text StatusOpen = ''open''"
| "status_text StatusAcknowledged = ''acknowledged''"
| "status_text StatusInvestigating = ''investigating''"
| "status_text StatusRecovered = ''recovered''"
| "status_text StatusResolved = ''resolved''"

fun severity_text :: "severity \<Rightarrow> string" where
  "severity_text SeverityWarning = ''warning''"
| "severity_text SeverityCritical = ''critical''"
| "severity_text (OtherSeverity s) = s"

fun delivery_text :: "delivery_state \<Rightarrow> string" where
  "delivery_text StateQueued = ''queued''"
| "delivery_text StateAttempting = ''attempting''"
| "delivery_text StateDelivered = ''delivered''"
| "delivery_text StateRetryWait = ''retry_wait''"
| "delivery_text StateFailed = ''failed''"
| "delivery_text StateDeadLetter = ''dead_letter''"
| "delivery_text StateSuppressed = ''suppressed''"

fun action_text :: "action \<Rightarrow> string" where
  "action_text ActionAcknowledge = ''acknowledge''"
| "action_text ActionInvestigate = ''investigate''"
| "action_text ActionAssign = ''assign''"
| "action_text ActionNote = ''note''"
| "action_text ActionResolve = ''resolve''"
| "action_text (OtherAction s) = s"

section \<open>Rows\<close>

record signal_row =
  sg_id :: string
  sg_source_key :: string
  sg_kind :: string
  sg_integration_id :: string
  sg_resource_id :: string
  sg_observation_id :: "string option"
  sg_check_type :: string
  sg_state :: state
  sg_reason :: string
  sg_reason_code :: "string option"
  sg_occurred_at :: time
  sg_created_at :: time
  sg_available_at :: time
  sg_claimed_until :: "time option"
  sg_attempts :: int
  sg_processed_at :: "time option"
  sg_dead_lettered_at :: "time option"
  sg_last_error_code :: "string option"

record resource_row =
  rs_id :: string
  rs_integration_id :: string
  rs_external_id :: string
  rs_kind :: string
  rs_display_name :: string
  rs_attributes :: string
  rs_source_url :: "string option"
  rs_first_seen_at :: time
  rs_last_seen_at :: time

record rule_row =
  rl_id :: string
  rl_name :: string
  rl_enabled :: bool
  rl_priority :: int
  rl_integration_id :: "string option"
  rl_resource_id :: "string option"
  rl_resource_kind :: "string option"
  rl_check_type :: "string option"
  rl_reason_code :: "string option"
  rl_recovery_state :: state
  rl_recovery_min_occurrences :: int
  rl_recovery_for_seconds :: int
  rl_version :: int
  rl_created_at :: time
  rl_updated_at :: time

record condition_row =
  cd_rule_id :: string
  cd_state :: state
  cd_severity :: severity
  cd_min_occurrences :: int
  cd_for_seconds :: int

record incident_row =
  in_id :: string
  in_rule_id :: string
  in_integration_id :: string
  in_resource_id :: string
  in_check_type :: string
  in_fingerprint :: string
  in_title :: string
  in_summary :: string
  in_severity :: severity
  in_status :: status
  in_owner_user_id :: "string option"
  in_detected_at :: time
  in_latest_signal_at :: time
  in_acknowledged_at :: "time option"
  in_recovered_at :: "time option"
  in_resolved_at :: "time option"
  in_version :: int
  in_created_at :: time
  in_updated_at :: time

record timeline_row =
  tl_id :: string
  tl_incident_id :: string
  tl_signal_id :: "string option"
  tl_actor_user_id :: "string option"
  tl_actor_display_name :: "string option"
  tl_subject_user_id :: "string option"
  tl_subject_display_name :: "string option"
  tl_kind :: string
  tl_from_status :: "status option"
  tl_to_status :: "status option"
  tl_from_severity :: "severity option"
  tl_to_severity :: "severity option"
  tl_summary :: string
  tl_occurred_at :: time
  tl_created_at :: time

record rule_state_row =
  st_rule_id :: string
  st_resource_id :: string
  st_check_type :: string
  st_active_incident_id :: "string option"
  st_last_signal_id :: "string option"
  st_last_signal_at :: "time option"
  st_last_state :: "state option"
  st_last_reason :: "string option"
  st_last_reason_code :: "string option"
  st_matching_since :: "time option"
  st_matching_occurrences :: int
  st_recovery_since :: "time option"
  st_recovery_occurrences :: int
  st_deadline_at :: "time option"
  st_updated_at :: time

record evidence_row =
  evd_signal_id :: string
  evd_rule_id :: "string option"
  evd_window_id :: "string option"
  evd_outcome :: string
  evd_explanation :: string
  evd_evaluated_at :: time

record window_row =
  mw_id :: string
  mw_reason :: string
  mw_integration_id :: "string option"
  mw_resource_id :: "string option"
  mw_check_type :: "string option"
  mw_starts_at :: time
  mw_ends_at :: time
  mw_enabled :: bool
  mw_revoked_at :: "time option"
  mw_expired_at :: "time option"
  mw_created_by_user_id :: "string option"
  mw_created_by_name :: string
  mw_version :: int
  mw_created_at :: time
  mw_updated_at :: time

record silence_row =
  sl_id :: string
  sl_reason :: string
  sl_incident_id :: "string option"
  sl_rule_id :: "string option"
  sl_resource_id :: "string option"
  sl_starts_at :: time
  sl_expires_at :: time
  sl_enabled :: bool
  sl_revoked_at :: "time option"
  sl_expired_at :: "time option"
  sl_created_by_user_id :: "string option"
  sl_created_by_name :: string
  sl_version :: int
  sl_created_at :: time
  sl_updated_at :: time

record destination_row =
  ds_id :: string
  ds_display_name :: string
  ds_destination_type :: string
  ds_enabled :: bool
  ds_endpoint_host :: string
  ds_endpoint_port :: int
  ds_endpoint_path_prefix :: string
  ds_secret_reference :: string
  ds_version :: int
  ds_created_at :: time
  ds_updated_at :: time

record intent_row =
  nt_id :: string
  nt_incident_event_id :: "string option"
  nt_incident_id :: "string option"
  nt_destination_id :: string
  nt_event_kind :: string
  nt_is_test :: bool
  nt_title :: string
  nt_summary :: string
  nt_severity :: "severity option"
  nt_incident_status :: "status option"
  nt_event_occurred_at :: time
  nt_state :: delivery_state
  nt_attempt_count :: int
  nt_available_at :: time
  nt_claimed_until :: "time option"
  nt_claim_token :: "string option"
  nt_delivered_at :: "time option"
  nt_terminal_at :: "time option"
  nt_suppressed_silence_id :: "string option"
  nt_last_error_code :: "string option"
  nt_created_at :: time
  nt_updated_at :: time

record attempt_row =
  at_id :: string
  at_intent_id :: string
  at_attempt_number :: int
  at_outcome :: string
  at_http_status :: "int option"
  at_safe_error_code :: "string option"
  at_provider_request_id :: "string option"
  at_started_at :: time
  at_completed_at :: time
  at_duration_ms :: int
  at_created_at :: time

record user_row =
  us_id :: string
  us_username :: string
  us_display_name :: string
  us_email :: "string option"
  us_identity_provider :: string
  us_external_subject :: "string option"
  us_enabled :: bool
  us_created_at :: time
  us_updated_at :: time

record credential_row =
  cr_user_id :: string
  cr_password_hash :: string
  cr_password_changed_at :: time
  cr_failed_attempts :: int
  cr_locked_until :: "time option"

record role_row =
  ro_id :: string
  ro_name :: string
  ro_permissions :: "string list"

record session_row =
  ss_id :: string
  ss_user_id :: string
  ss_token_digest :: string
  ss_csrf_digest :: string
  ss_source_address :: "string option"
  ss_last_seen_at :: time
  ss_expires_at :: time
  ss_absolute_expires_at :: time
  ss_revoked_at :: "time option"
  ss_created_at :: time

record action_key_row =
  ak_actor_user_id :: string
  ak_incident_id :: string
  ak_action :: action
  ak_idempotency_key :: string
  ak_request_hash :: string
  ak_result_version :: int
  ak_result_status :: status
  ak_timeline_event_id :: string
  ak_correlation_id :: string
  ak_created_at :: time

record admin_key_row =
  dk_actor_user_id :: string
  dk_target_type :: string
  dk_operation :: string
  dk_idempotency_key :: string
  dk_request_hash :: string
  dk_target_id :: string
  dk_result_version :: int
  dk_correlation_id :: string

text \<open>Values handed to \<open>encoding/json\<close>: request hashes and audit summaries.\<close>

datatype jvalue =
    JText string | JInt int | JBool bool | JTime time
  | JArr "jvalue list" | JObj "(string \<times> jvalue) list"

record audit_row =
  au_id :: string
  au_actor_user_id :: "string option"
  au_action :: string
  au_target_type :: string
  au_target_id :: "string option"
  au_result :: string
  au_source_address :: "string option"
  au_correlation_id :: string
  au_before_summary :: "string option"
  au_after_summary :: "string option"
  au_occurred_at :: time

record observation_row =
  ob_id :: string
  ob_integration_id :: string
  ob_resource_id :: string
  ob_check_type :: string
  ob_observed_state :: state
  ob_summary :: string
  ob_observed_at :: time
  ob_received_at :: time
  ob_expires_at :: time
  ob_expected_refresh_seconds :: int
  ob_measurements :: string
  ob_metadata :: string

record run_row =
  rr_id :: string
  rr_integration_id :: string
  rr_started_at :: time
  rr_completed_at :: time
  rr_duration_ms :: int
  rr_result :: string
  rr_error_code :: "string option"
  rr_resource_count :: int
  rr_observation_count :: int
  rr_observations_inserted :: int
  rr_duplicate_observations :: int
  rr_correlation_id :: string

record certificate_row =
  ce_observation_id :: string
  ce_resource_id :: string
  ce_integration_id :: string
  ce_endpoint :: string
  ce_subject_summary :: "string option"
  ce_san_summary :: "string option"
  ce_issuer_summary :: "string option"
  ce_serial_number :: "string option"
  ce_fingerprint_sha256 :: "string option"
  ce_not_before :: "time option"
  ce_not_after :: "time option"
  ce_hostname_valid :: "bool option"
  ce_chain_valid :: "bool option"
  ce_days_remaining :: "int option"
  ce_certificate_state :: state
  ce_reason_code :: string
  ce_fingerprint_changed :: bool
  ce_issuer_changed :: bool
  ce_observed_at :: time

text \<open>The columns of type \<open>jsonb\<close> hold the text that was written.\<close>

record integration_row =
  it_id :: string
  it_adapter_id :: string
  it_display_name :: string
  it_enabled :: bool
  it_config_nonsecret :: string
  it_secret_references :: string
  it_interval_seconds :: int
  it_created_at :: time
  it_updated_at :: time

record instance_row =
  an_id :: string
  an_integration_id :: string
  an_adapter_version :: string
  an_protocol_version :: "string option"
  an_state :: string
  an_last_started_at :: "time option"
  an_last_healthy_at :: "time option"
  an_last_stopped_at :: "time option"
  an_last_error_at :: "time option"
  an_last_error_code :: "string option"
  an_consecutive_failures :: int
  an_next_restart_at :: "time option"
  an_updated_at :: time

section \<open>Tables and process state\<close>

record tables =
  t_signals :: "signal_row list"
  t_integrations :: "integration_row list"
  t_instances :: "instance_row list"
  t_resources :: "resource_row list"
  t_rules :: "rule_row list"
  t_conditions :: "condition_row list"
  t_incidents :: "incident_row list"
  t_timeline :: "timeline_row list"
  t_rule_states :: "rule_state_row list"
  t_evidence :: "evidence_row list"
  t_windows :: "window_row list"
  t_silences :: "silence_row list"
  t_destinations :: "destination_row list"
  t_intents :: "intent_row list"
  t_attempts :: "attempt_row list"
  t_users :: "user_row list"
  t_user_roles :: "(string \<times> string) list"
  t_roles :: "role_row list"
  t_credentials :: "credential_row list"
  t_sessions :: "session_row list"
  t_action_keys :: "action_key_row list"
  t_admin_keys :: "admin_key_row list"
  t_audit :: "audit_row list"
  t_current :: "current list"
  t_observations :: "observation_row list"
  t_runs :: "run_row list"
  t_certificates :: "certificate_row list"

text \<open>
  \<open>w_faults\<close> is the fault schedule: its head says whether the next statement fails (a lost
  connection, a cancelled context, a violated CHECK or foreign key), and statements beyond
  its end succeed. \<open>w_uuid\<close> enumerates what \<open>gen_random_uuid()\<close> returns and \<open>w_next\<close> counts the
  calls; \<open>w_clock\<close> is the \<open>now()\<close> of the database.
\<close>

record world =
  w_tables :: tables
  w_faults :: "bool list"
  w_uuid :: "nat \<Rightarrow> string"
  w_next :: nat
  w_clock :: time
  w_hub :: hub

text \<open>A row of \<open>integrations\<close> with the defaults of its columns.\<close>

definition default_integration :: "string \<Rightarrow> integration_row" where
  "default_integration iid = \<lparr> it_id = iid, it_adapter_id = '''', it_display_name = '''', it_enabled = False, it_config_nonsecret = ''{}'',
     it_secret_references = ''{}'', it_interval_seconds = 300, it_created_at = 0, it_updated_at = 0 \<rparr>"

lemma default_integration_id [simp]: "it_id (default_integration iid) = iid"
  by (simp add: default_integration_def)

definition empty_tables :: tables where
  "empty_tables = \<lparr> t_signals = [], t_integrations = [], t_instances = [], t_resources = [], t_rules = [],
     t_conditions = [], t_incidents = [], t_timeline = [], t_rule_states = [], t_evidence = [],
     t_windows = [], t_silences = [], t_destinations = [], t_intents = [], t_attempts = [],
     t_users = [], t_user_roles = [], t_roles = [], t_credentials = [], t_sessions = [],
     t_action_keys = [], t_admin_keys = [],
     t_audit = [], t_current = [], t_observations = [],
     t_runs = [], t_certificates = [] \<rparr>"

text \<open>
  Functions of the Go standard library that the sources call and whose internals no
  property depends on: \<open>json.Marshal\<close>, \<open>sha256.Sum256\<close>, \<open>net.ParseIP\<close> and the \<open>%q\<close> verb of
  \<open>fmt\<close>. They are parameters of the operations that use them.
\<close>

record runtime =
  rt_json :: "jvalue \<Rightarrow> string"
  rt_sha256 :: "string \<Rightarrow> string"
  rt_ParseIP :: "string \<Rightarrow> bool"
  rt_Quote :: "string \<Rightarrow> string"

text \<open>A \<open>uuid\<close> parameter of a statement: PostgreSQL reads either letter case.\<close>

definition lower_hex :: "char \<Rightarrow> char" where
  "lower_hex c = (if 0x41 \<le> byte c \<and> byte c \<le> 0x46 then char_of (byte c + 0x20) else c)"

definition uuid_param :: "string \<Rightarrow> string" where
  "uuid_param s = map lower_hex s"

lemma lower_hex_idem [simp]: "lower_hex (lower_hex c) = lower_hex c"
  by (auto simp: lower_hex_def byte_def)

lemma uuid_param_idem [simp]: "uuid_param (uuid_param s) = uuid_param s"
  by (simp add: uuid_param_def)

text \<open>\<open>NULLIF(x, '')\<close> and a \<open>pgtype.Text\<close> read back with \<open>.String\<close>.\<close>

definition nullif :: "string \<Rightarrow> string option" where
  "nullif s = (if s = '''' then None else Some s)"

definition text_of :: "string option \<Rightarrow> string" where
  "text_of x = (case x of None \<Rightarrow> '''' | Some s \<Rightarrow> s)"

lemma text_of_nullif [simp]: "text_of (nullif s) = s"
  by (simp add: text_of_def nullif_def)

lemma nullif_eq_Some [simp]: "nullif s = Some x \<longleftrightarrow> s = x \<and> x \<noteq> ''''"
  by (auto simp: nullif_def)

lemma text_of_simps [simp]: "text_of None = ''''" "text_of (Some s) = s"
  by (simp_all add: text_of_def)

end
