(* ===== verification/Tx.thy ===== *)
theory Tx
  imports Store
begin

text \<open>
  Database work as an error-state computation over the process state. A statement consumes
  one entry of the fault schedule and either fails or acts on the tables; \<open>in_tx\<close> is
  \<open>BeginTx\<close> with the deferred \<open>Rollback\<close>: the tables change only when the body asks for
  \<open>Commit\<close> and the commit itself succeeds. Transactions are serial: a row lock
  (\<open>FOR UPDATE\<close>, an advisory lock) delays a transaction and has no other effect, and a row
  another session holds is a parameter where the source skips locked rows. A commit whose
  acknowledgement is lost counts as not committed.

  \<open>keeps\<close> and \<open>preserves\<close> are the two frame judgements the components use; the locale
  \<open>tx_relation\<close> proves the composition rules once, for any reflexive and transitive
  relation between the tables before and after.
\<close>

section \<open>Errors\<close>

text \<open>A failed field of a batch (\<open>observations.FieldError\<close>).\<close>

record field_error =
  fe_Record :: string
  fe_Index :: int
  fe_Field :: string
  fe_Code :: string

datatype err =
    DbError
  | NoRows
  | ErrNotFound
  | ErrInvalidCursor
  | ErrVersionConflict int
  | ErrInvalidTransition
  | ErrOwnerNotEligible
  | ErrInvalidNote
  | ErrInvalidMutation
  | ErrIdempotencyConflict
  | ErrInvalidAuditEvent
  | ErrInvalidIncidentEvent
  | ErrInvalidRule string
  | ErrRuleNotFound
  | ErrRuleConflict
  | ErrRuleScope
  | ErrSuppressionNotFound
  | ErrSuppressionConflict
  | ErrSuppressionInvalid
  | ErrAlreadyBootstrapped
  | ErrInvalidCredentials
  | ErrRateLimited
  | ErrSessionNotFound
  | ErrUserNotFound
  | ErrRoleNotFound
  | ErrUsernameTaken
  | ErrInvalidUserCursor
  | ErrUserChanged
  | ErrSelfLockout
  | ErrLastAdministrator
  | ErrText string
  | ValidationError "field_error list"
  | ConflictError string int string
  | RuntimeError string
  | MonitoringError string

section \<open>The computation type\<close>

type_synonym 'a tx = "world \<Rightarrow> (err + 'a) \<times> world"

datatype 'a outcome = Commit 'a | Rollback 'a

definition tx_return :: "'a \<Rightarrow> 'a tx" where
  "tx_return x = (\<lambda>w. (Inr x, w))"

definition tx_fail :: "err \<Rightarrow> 'a tx" where
  "tx_fail e = (\<lambda>w. (Inl e, w))"

definition tx_bind :: "'a tx \<Rightarrow> ('a \<Rightarrow> 'b tx) \<Rightarrow> 'b tx" where
  "tx_bind m k = (\<lambda>w. case m w of (Inl e, w') \<Rightarrow> (Inl e, w') | (Inr x, w') \<Rightarrow> k x w')"

definition tx_catch :: "'a tx \<Rightarrow> (err \<Rightarrow> 'a tx) \<Rightarrow> 'a tx" where
  "tx_catch m h = (\<lambda>w. case m w of (Inl e, w') \<Rightarrow> h e w' | (Inr x, w') \<Rightarrow> (Inr x, w'))"

text \<open>\<open>tx_try m\<close> hands the error to the caller as a value: \<open>value, err := ...\<close>.\<close>

definition tx_try :: "'a tx \<Rightarrow> (err + 'a) tx" where
  "tx_try m = (\<lambda>w. case m w of (r, w') \<Rightarrow> (Inr r, w'))"

definition faulty :: "world \<Rightarrow> bool" where
  "faulty w \<longleftrightarrow> w_faults w \<noteq> [] \<and> hd (w_faults w)"

definition tick :: "world \<Rightarrow> world" where
  "tick w = w\<lparr>w_faults := tl (w_faults w)\<rparr>"

definition tx_stmt :: "(world \<Rightarrow> (err + 'a) \<times> world) \<Rightarrow> 'a tx" where
  "tx_stmt f = (\<lambda>w. if faulty w then (Inl DbError, tick w) else f (tick w))"

definition tx_query :: "(tables \<Rightarrow> 'a) \<Rightarrow> 'a tx" where
  "tx_query f = tx_stmt (\<lambda>w. (Inr (f (w_tables w)), w))"

definition tx_row :: "(tables \<Rightarrow> 'a option) \<Rightarrow> 'a tx" where
  "tx_row f = tx_stmt (\<lambda>w. (case f (w_tables w) of None \<Rightarrow> Inl NoRows | Some x \<Rightarrow> Inr x, w))"

definition tx_exec :: "(tables \<Rightarrow> tables) \<Rightarrow> unit tx" where
  "tx_exec f = tx_stmt (\<lambda>w. (Inr (), w\<lparr>w_tables := f (w_tables w)\<rparr>))"

text \<open>An \<open>INSERT\<close> that may draw a UUID and the database clock for its defaults.\<close>

definition tx_insert :: "(string \<Rightarrow> time \<Rightarrow> tables \<Rightarrow> err + 'a \<times> tables) \<Rightarrow> 'a tx" where
  "tx_insert f = tx_stmt (\<lambda>w.
     case f (w_uuid w (w_next w)) (w_clock w) (w_tables w) of
       Inl e \<Rightarrow> (Inl e, w\<lparr>w_next := Suc (w_next w)\<rparr>)
     | Inr (x, t) \<Rightarrow> (Inr x, w\<lparr>w_next := Suc (w_next w), w_tables := t\<rparr>))"

text \<open>A statement whose caller reads the number of affected rows (\<open>RowsAffected\<close>).\<close>

definition tx_affect :: "(tables \<Rightarrow> 'a \<times> tables) \<Rightarrow> 'a tx" where
  "tx_affect f = tx_stmt (\<lambda>w. case f (w_tables w) of (n, t) \<Rightarrow> (Inr n, w\<lparr>w_tables := t\<rparr>))"

text \<open>A statement that reads \<open>now()\<close>, the start of the transaction on the database clock.\<close>

definition tx_clocked :: "(time \<Rightarrow> tables \<Rightarrow> 'a \<times> tables) \<Rightarrow> 'a tx" where
  "tx_clocked f = tx_stmt (\<lambda>w. case f (w_clock w) (w_tables w) of (n, t) \<Rightarrow> (Inr n, w\<lparr>w_tables := t\<rparr>))"

fun tx_for :: "('a \<Rightarrow> unit tx) \<Rightarrow> 'a list \<Rightarrow> unit tx" where
  "tx_for f [] = tx_return ()"
| "tx_for f (x # xs) = tx_bind (f x) (\<lambda>_. tx_for f xs)"

definition hub_publish :: "event \<Rightarrow> unit tx" where
  "hub_publish e = (\<lambda>w. (Inr (), w\<lparr>w_hub := fst (Publish (w_hub w) e)\<rparr>))"

definition in_tx :: "'a outcome tx \<Rightarrow> 'a tx" where
  "in_tx body = (\<lambda>w.
     if faulty w then (Inl DbError, tick w)
     else case body (tick w) of
       (Inl e, w') \<Rightarrow> (Inl e, w'\<lparr>w_tables := w_tables w\<rparr>)
     | (Inr (Rollback x), w') \<Rightarrow> (Inr x, w'\<lparr>w_tables := w_tables w\<rparr>)
     | (Inr (Commit x), w') \<Rightarrow>
         if faulty w' then (Inl DbError, (tick w')\<lparr>w_tables := w_tables w\<rparr>)
         else (Inr x, tick w'))"

section \<open>Evaluation\<close>

lemma tick_simps [simp]:
  "w_tables (tick w) = w_tables w" "w_uuid (tick w) = w_uuid w" "w_next (tick w) = w_next w"
  "w_clock (tick w) = w_clock w" "w_hub (tick w) = w_hub w" "w_faults (tick w) = tl (w_faults w)"
  by (simp_all add: tick_def)

lemma tick_nofault: "w_faults w = [] \<Longrightarrow> tick w = w"
  by (simp add: tick_def)

lemma faulty_nofault: "w_faults w = [] \<Longrightarrow> \<not> faulty w"
  by (simp add: faulty_def)

lemmas nofault_simps = tick_nofault faulty_nofault

lemma tx_return_apply [simp]: "tx_return x w = (Inr x, w)"
  by (simp add: tx_return_def)

lemma tx_fail_apply [simp]: "tx_fail e w = (Inl e, w)"
  by (simp add: tx_fail_def)

lemma tx_bind_return [simp]: "tx_bind (tx_return x) k = k x"
  by (simp add: tx_bind_def)

lemma tx_bind_fail [simp]: "tx_bind (tx_fail e) k = tx_fail e"
  by (simp add: tx_bind_def tx_fail_def)

lemma tx_bind_assoc: "tx_bind (tx_bind m k) l = tx_bind m (\<lambda>x. tx_bind (k x) l)"
  by (rule ext) (simp add: tx_bind_def split: prod.splits sum.splits)

lemma tx_bind_Inr:
  "tx_bind m k w = (Inr y, w') \<longleftrightarrow> (\<exists>x w1. m w = (Inr x, w1) \<and> k x w1 = (Inr y, w'))"
  by (auto simp: tx_bind_def split: prod.splits sum.splits)

lemma tx_bind_run: "m w = (Inr x, w1) \<Longrightarrow> tx_bind m k w = k x w1"
  by (simp add: tx_bind_def)

lemma tx_bind_err: "m w = (Inl e, w1) \<Longrightarrow> tx_bind m k w = (Inl e, w1)"
  by (simp add: tx_bind_def)

lemma tx_query_Inr:
  "tx_query f w = (Inr x, w') \<longleftrightarrow> \<not> faulty w \<and> x = f (w_tables w) \<and> w' = tick w"
  by (auto simp: tx_query_def tx_stmt_def)

lemma tx_row_Inr:
  "tx_row f w = (Inr x, w') \<longleftrightarrow> \<not> faulty w \<and> f (w_tables w) = Some x \<and> w' = tick w"
  by (auto simp: tx_row_def tx_stmt_def split: option.splits)

lemma tx_exec_Inr:
  "tx_exec f w = (Inr u, w') \<longleftrightarrow> \<not> faulty w \<and> w' = (tick w)\<lparr>w_tables := f (w_tables w)\<rparr>"
  by (auto simp: tx_exec_def tx_stmt_def)

lemma tx_insert_Inr:
  "tx_insert f w = (Inr x, w') \<longleftrightarrow> \<not> faulty w \<and>
     (\<exists>t. f (w_uuid w (w_next w)) (w_clock w) (w_tables w) = Inr (x, t)
        \<and> w' = (tick w)\<lparr>w_next := Suc (w_next w), w_tables := t\<rparr>)"
  by (auto simp: tx_insert_def tx_stmt_def split: sum.splits)

lemma tx_affect_Inr:
  "tx_affect f w = (Inr n, w') \<longleftrightarrow> \<not> faulty w \<and>
     n = fst (f (w_tables w)) \<and> w' = (tick w)\<lparr>w_tables := snd (f (w_tables w))\<rparr>"
  by (auto simp: tx_affect_def tx_stmt_def split: prod.splits)

lemma tx_clocked_Inr:
  "tx_clocked f w = (Inr n, w') \<longleftrightarrow> \<not> faulty w \<and>
     n = fst (f (w_clock w) (w_tables w)) \<and> w' = (tick w)\<lparr>w_tables := snd (f (w_clock w) (w_tables w))\<rparr>"
  by (auto simp: tx_clocked_def tx_stmt_def split: prod.splits)

lemma in_tx_Inr:
  "in_tx body w = (Inr x, w') \<longleftrightarrow> \<not> faulty w \<and>
     (\<exists>w1. (body (tick w) = (Inr (Commit x), w1) \<and> \<not> faulty w1 \<and> w' = tick w1)
        \<or> (body (tick w) = (Inr (Rollback x), w1) \<and> w' = w1\<lparr>w_tables := w_tables w\<rparr>))"
  by (auto simp: in_tx_def split: prod.splits sum.splits outcome.splits if_splits)

lemmas tx_success = tx_bind_Inr tx_query_Inr tx_row_Inr tx_exec_Inr tx_insert_Inr
  tx_affect_Inr tx_clocked_Inr

text \<open>Without faults a statement is its action.\<close>

lemma tx_query_run: "w_faults w = [] \<Longrightarrow> tx_query f w = (Inr (f (w_tables w)), w)"
  by (simp add: tx_query_def tx_stmt_def nofault_simps)

lemma tx_row_run:
  "w_faults w = [] \<Longrightarrow>
     tx_row f w = (case f (w_tables w) of None \<Rightarrow> Inl NoRows | Some x \<Rightarrow> Inr x, w)"
  by (simp add: tx_row_def tx_stmt_def nofault_simps)

lemma tx_exec_run:
  "w_faults w = [] \<Longrightarrow> tx_exec f w = (Inr (), w\<lparr>w_tables := f (w_tables w)\<rparr>)"
  by (simp add: tx_exec_def tx_stmt_def nofault_simps)

lemma tx_insert_run:
  "w_faults w = [] \<Longrightarrow> tx_insert f w =
     (case f (w_uuid w (w_next w)) (w_clock w) (w_tables w) of
       Inl e \<Rightarrow> (Inl e, w\<lparr>w_next := Suc (w_next w)\<rparr>)
     | Inr (x, t) \<Rightarrow> (Inr x, w\<lparr>w_next := Suc (w_next w), w_tables := t\<rparr>))"
  by (simp add: tx_insert_def tx_stmt_def nofault_simps split: sum.splits)

lemma tx_affect_run:
  "w_faults w = [] \<Longrightarrow> tx_affect f w =
     (Inr (fst (f (w_tables w))), w\<lparr>w_tables := snd (f (w_tables w))\<rparr>)"
  by (simp add: tx_affect_def tx_stmt_def nofault_simps split: prod.splits)

lemma tx_clocked_run:
  "w_faults w = [] \<Longrightarrow> tx_clocked f w =
     (Inr (fst (f (w_clock w) (w_tables w))), w\<lparr>w_tables := snd (f (w_clock w) (w_tables w))\<rparr>)"
  by (simp add: tx_clocked_def tx_stmt_def nofault_simps split: prod.splits)

lemma in_tx_run:
  "w_faults w = [] \<Longrightarrow> in_tx body w =
     (case body w of
       (Inl e, w') \<Rightarrow> (Inl e, w'\<lparr>w_tables := w_tables w\<rparr>)
     | (Inr (Rollback x), w') \<Rightarrow> (Inr x, w'\<lparr>w_tables := w_tables w\<rparr>)
     | (Inr (Commit x), w') \<Rightarrow>
         if faulty w' then (Inl DbError, (tick w')\<lparr>w_tables := w_tables w\<rparr>)
         else (Inr x, tick w'))"
  by (simp add: in_tx_def nofault_simps)

lemmas tx_run = tx_query_run tx_row_run tx_exec_run tx_insert_run
  tx_affect_run tx_clocked_run in_tx_run

text \<open>Atomicity: a transaction that reports an error has not changed the tables.\<close>

lemma in_tx_atomic: "in_tx body w = (Inl e, w') \<Longrightarrow> w_tables w' = w_tables w"
  by (auto simp: in_tx_def split: prod.splits sum.splits outcome.splits if_splits)

section \<open>Relations between the tables before and after\<close>

definition always :: "(tables \<Rightarrow> tables \<Rightarrow> bool) \<Rightarrow> 'a tx \<Rightarrow> bool" where
  "always R m \<longleftrightarrow> (\<forall>w. R (w_tables w) (w_tables (snd (m w))))"

lemma alwaysI: "(\<And>w. R (w_tables w) (w_tables (snd (m w)))) \<Longrightarrow> always R m"
  by (simp add: always_def)

lemma alwaysD: "always R m \<Longrightarrow> R (w_tables w) (w_tables (snd (m w)))"
  by (simp add: always_def)

locale tx_relation =
  fixes R :: "tables \<Rightarrow> tables \<Rightarrow> bool"
  assumes refl: "R t t"
    and trans: "R a b \<Longrightarrow> R b c \<Longrightarrow> R a c"
begin

lemma return: "always R (tx_return x)"
  by (simp add: always_def refl)

lemma fail: "always R (tx_fail e)"
  by (simp add: always_def refl)

lemma bind:
  assumes m: "always R m" and k: "\<And>x. always R (k x)"
  shows "always R (tx_bind m k)"
proof (rule alwaysI)
  fix w
  obtain r w1 where run: "m w = (r, w1)" by (cases "m w")
  have one: "R (w_tables w) (w_tables w1)" using alwaysD [OF m, of w] run by simp
  show "R (w_tables w) (w_tables (snd (tx_bind m k w)))"
  proof (cases r)
    case (Inl e)
    with run one show ?thesis by (simp add: tx_bind_def)
  next
    case (Inr x)
    have "R (w_tables w1) (w_tables (snd (k x w1)))" by (rule alwaysD [OF k])
    with one have "R (w_tables w) (w_tables (snd (k x w1)))" by (rule trans)
    with run Inr show ?thesis by (simp add: tx_bind_def)
  qed
qed

lemma catch:
  assumes m: "always R m" and h: "\<And>e. always R (h e)"
  shows "always R (tx_catch m h)"
proof (rule alwaysI)
  fix w
  obtain r w1 where run: "m w = (r, w1)" by (cases "m w")
  have one: "R (w_tables w) (w_tables w1)" using alwaysD [OF m, of w] run by simp
  show "R (w_tables w) (w_tables (snd (tx_catch m h w)))"
  proof (cases r)
    case (Inl e)
    have "R (w_tables w1) (w_tables (snd (h e w1)))" by (rule alwaysD [OF h])
    with one have "R (w_tables w) (w_tables (snd (h e w1)))" by (rule trans)
    with run Inl show ?thesis by (simp add: tx_catch_def)
  next
    case (Inr x)
    with run one show ?thesis by (simp add: tx_catch_def)
  qed
qed

lemma attempt:
  assumes "always R m"
  shows "always R (tx_try m)"
proof (rule alwaysI)
  fix w
  have "snd (tx_try m w) = snd (m w)" by (simp add: tx_try_def split: prod.splits)
  with alwaysD [OF assms, of w] show "R (w_tables w) (w_tables (snd (tx_try m w)))" by simp
qed

lemma query: "always R (tx_query f)"
  by (simp add: always_def tx_query_def tx_stmt_def refl)

lemma row: "always R (tx_row f)"
  by (simp add: always_def tx_row_def tx_stmt_def refl)

lemma exec: "(\<And>t. R t (f t)) \<Longrightarrow> always R (tx_exec f)"
  by (simp add: always_def tx_exec_def tx_stmt_def refl)

lemma insert: "(\<And>u c t x t'. f u c t = Inr (x, t') \<Longrightarrow> R t t') \<Longrightarrow> always R (tx_insert f)"
  by (auto simp: always_def tx_insert_def tx_stmt_def refl split: sum.splits)

lemma affect: "(\<And>t. R t (snd (f t))) \<Longrightarrow> always R (tx_affect f)"
  by (simp add: always_def tx_affect_def tx_stmt_def refl split: prod.splits) (metis snd_conv)

lemma clocked: "(\<And>c t. R t (snd (f c t))) \<Longrightarrow> always R (tx_clocked f)"
  by (simp add: always_def tx_clocked_def tx_stmt_def refl split: prod.splits) (metis snd_conv)

lemma for_loop: "(\<And>x. x \<in> set xs \<Longrightarrow> always R (f x)) \<Longrightarrow> always R (tx_for f xs)"
  by (induction xs) (auto intro: return bind)

lemma publish: "always R (hub_publish e)"
  by (simp add: always_def hub_publish_def refl)

lemma if_split: "(b \<Longrightarrow> always R m) \<Longrightarrow> (\<not> b \<Longrightarrow> always R n) \<Longrightarrow> always R (if b then m else n)"
  by simp

lemma option_split:
  "(x = None \<Longrightarrow> always R m) \<Longrightarrow> (\<And>y. x = Some y \<Longrightarrow> always R (n y)) \<Longrightarrow>
   always R (case x of None \<Rightarrow> m | Some y \<Rightarrow> n y)"
  by (cases x) auto

lemma sum_split:
  "(\<And>e. x = Inl e \<Longrightarrow> always R (m e)) \<Longrightarrow> (\<And>y. x = Inr y \<Longrightarrow> always R (n y)) \<Longrightarrow>
   always R (case x of Inl e \<Rightarrow> m e | Inr y \<Rightarrow> n y)"
  by (cases x) auto

lemma prod_split: "(\<And>a b. always R (m a b)) \<Longrightarrow> always R (case x of (a, b) \<Rightarrow> m a b)"
  by (cases x) auto

lemma transaction: "always R body \<Longrightarrow> always R (in_tx body)"
proof (rule alwaysI)
  fix w
  assume body: "always R body"
  obtain r w1 where run: "body (tick w) = (r, w1)" by (cases "body (tick w)")
  have step: "R (w_tables w) (w_tables w1)" using alwaysD [OF body, of "tick w"] run by simp
  show "R (w_tables w) (w_tables (snd (in_tx body w)))"
    using run step refl
    by (cases r; cases "projr r") (auto simp: in_tx_def split: sum.splits outcome.splits)
qed

lemmas composition = return fail bind query row for_loop publish if_split option_split
  sum_split prod_split transaction

end

definition keeps :: "(tables \<Rightarrow> 'b) \<Rightarrow> 'a tx \<Rightarrow> bool" where
  "keeps f = always (\<lambda>a b. f a = f b)"

definition preserves :: "(tables \<Rightarrow> bool) \<Rightarrow> 'a tx \<Rightarrow> bool" where
  "preserves P = always (\<lambda>a b. P a \<longrightarrow> P b)"

interpretation kept: tx_relation "\<lambda>a b. f a = f b" for f
  by unfold_locales auto

interpretation pres: tx_relation "\<lambda>a b. P a \<longrightarrow> P b" for P
  by unfold_locales auto

lemmas keeps_intros [frame_intros] = kept.composition [folded keeps_def]
lemmas keeps_exec [frame_intros] = kept.exec [folded keeps_def]
lemmas keeps_insert [frame_intros] = kept.insert [folded keeps_def]
lemmas keeps_affect [frame_intros] = kept.affect [folded keeps_def]
lemmas keeps_clocked [frame_intros] = kept.clocked [folded keeps_def]
lemmas keeps_catch [frame_intros] = kept.catch [folded keeps_def] kept.attempt [folded keeps_def]

lemma keepsD: "keeps f m \<Longrightarrow> m w = (r, w') \<Longrightarrow> f (w_tables w') = f (w_tables w)"
  using alwaysD [of "\<lambda>a b. f a = f b" m w] by (simp add: keeps_def)

lemma preservesD: "preserves P m \<Longrightarrow> m w = (r, w') \<Longrightarrow> P (w_tables w) \<Longrightarrow> P (w_tables w')"
  using alwaysD [of "\<lambda>a b. P a \<longrightarrow> P b" m w] by (simp add: preserves_def)

lemma preserves_snd: "preserves P m \<Longrightarrow> P (w_tables w) \<Longrightarrow> P (w_tables (snd (m w)))"
  using alwaysD [of "\<lambda>a b. P a \<longrightarrow> P b" m w] by (simp add: preserves_def)

lemma keeps_snd: "keeps f m \<Longrightarrow> f (w_tables (snd (m w))) = f (w_tables w)"
  using alwaysD [of "\<lambda>a b. f a = f b" m w] by (simp add: keeps_def)

lemma preserves_of_keeps:
  "(\<And>a b. f a = f b \<Longrightarrow> P a = P b) \<Longrightarrow> keeps f m \<Longrightarrow> preserves P m"
  unfolding preserves_def keeps_def always_def by blast

lemmas preserves_comp [preserves_intros] = pres.composition [folded preserves_def]
lemmas preserves_catch [preserves_intros] = pres.catch [folded preserves_def]
  pres.attempt [folded preserves_def]
lemmas preserves_exec [preserves_intros] = pres.exec [folded preserves_def]
lemmas preserves_insert [preserves_intros] = pres.insert [folded preserves_def]
lemmas preserves_affect [preserves_intros] = pres.affect [folded preserves_def]
lemmas preserves_clocked [preserves_intros] = pres.clocked [folded preserves_def]

section \<open>Evaluation on concrete states\<close>

text \<open>
  Rules to run an operation on a concrete state: statements act only once they are applied to
  a state, and the congruences keep the simplifier out of continuations it has not reached.
\<close>

lemma tx_bind_eval:
  "tx_bind m k w = (case m w of (Inl e, w') \<Rightarrow> (Inl e, w') | (Inr x, w') \<Rightarrow> k x w')"
  by (simp add: tx_bind_def)

lemma tx_catch_eval:
  "tx_catch m h w = (case m w of (Inl e, w') \<Rightarrow> h e w' | (Inr x, w') \<Rightarrow> (Inr x, w'))"
  by (simp add: tx_catch_def)

lemma tx_try_eval: "tx_try m w = (case m w of (r, w') \<Rightarrow> (Inr r, w'))"
  by (simp add: tx_try_def)

lemma hub_publish_eval: "hub_publish e w = (Inr (), w\<lparr>w_hub := fst (Publish (w_hub w) e)\<rparr>)"
  by (simp add: hub_publish_def)

lemma tx_frozen:
  "tx_bind m k = tx_bind m k" "tx_catch m h = tx_catch m h" "tx_try m = tx_try m"
  "tx_query f = tx_query f" "tx_row g = tx_row g" "tx_exec x = tx_exec x"
  "tx_insert i = tx_insert i" "tx_affect a = tx_affect a" "tx_clocked b' = tx_clocked b'" "in_tx b = in_tx b"
  by (rule refl)+

lemmas tx_eval = tx_bind_eval tx_catch_eval tx_try_eval hub_publish_eval tx_run nofault_simps Let_def

section \<open>Triples\<close>

text \<open>
  What a computation that succeeds has achieved. Errors need no postcondition: the
  transaction around the computation rolls the tables back.
\<close>

definition triple :: "(tables \<Rightarrow> bool) \<Rightarrow> 'a tx \<Rightarrow> ('a \<Rightarrow> tables \<Rightarrow> bool) \<Rightarrow> bool" where
  "triple P m Q \<longleftrightarrow> (\<forall>w x w'. P (w_tables w) \<longrightarrow> m w = (Inr x, w') \<longrightarrow> Q x (w_tables w'))"

lemma tripleD: "triple P m Q \<Longrightarrow> P (w_tables w) \<Longrightarrow> m w = (Inr x, w') \<Longrightarrow> Q x (w_tables w')"
  by (auto simp: triple_def)

named_theorems triple_intros

lemma triple_return: "(\<And>t. P t \<Longrightarrow> Q x t) \<Longrightarrow> triple P (tx_return x) Q"
  by (auto simp: triple_def)

lemma triple_fail [triple_intros]: "triple P (tx_fail e) Q"
  by (simp add: triple_def)

lemma triple_bind:
  "triple P m R \<Longrightarrow> (\<And>x. triple (R x) (k x) Q) \<Longrightarrow> triple P (tx_bind m k) Q"
  by (fastforce simp: triple_def tx_bind_Inr)

lemma triple_query: "(\<And>t. P t \<Longrightarrow> Q (f t) t) \<Longrightarrow> triple P (tx_query f) Q"
  by (auto simp: triple_def tx_query_Inr)

lemma triple_row: "(\<And>t x. P t \<Longrightarrow> f t = Some x \<Longrightarrow> Q x t) \<Longrightarrow> triple P (tx_row f) Q"
  by (auto simp: triple_def tx_row_Inr)

lemma triple_exec: "(\<And>t. P t \<Longrightarrow> Q () (f t)) \<Longrightarrow> triple P (tx_exec f) Q"
  by (auto simp: triple_def tx_exec_Inr)

lemma triple_insert:
  "(\<And>u c t x t'. P t \<Longrightarrow> f u c t = Inr (x, t') \<Longrightarrow> Q x t') \<Longrightarrow> triple P (tx_insert f) Q"
  by (auto simp: triple_def tx_insert_Inr)

lemma triple_affect: "(\<And>t. P t \<Longrightarrow> Q (fst (f t)) (snd (f t))) \<Longrightarrow> triple P (tx_affect f) Q"
  by (auto simp: triple_def tx_affect_Inr)

lemma triple_clocked: "(\<And>c t. P t \<Longrightarrow> Q (fst (f c t)) (snd (f c t))) \<Longrightarrow> triple P (tx_clocked f) Q"
  by (auto simp: triple_def tx_clocked_Inr)

text \<open>An attempted computation may have acted before it failed.\<close>

lemma triple_try:
  assumes "keeps (\<lambda>t. t) m" and "triple P m (\<lambda>x. Q (Inr x))" and "\<And>e t. P t \<Longrightarrow> Q (Inl e) t"
  shows "triple P (tx_try m) Q"
  unfolding triple_def
proof (intro allI impI)
  fix w r w'
  assume P: "P (w_tables w)" and run: "tx_try m w = (Inr r, w')"
  from run have m: "m w = (r, w')" by (auto simp: tx_try_def split: prod.splits)
  show "Q r (w_tables w')"
  proof (cases r)
    case (Inl e)
    with P assms(3) keepsD [OF assms(1) m] show ?thesis by simp
  next
    case (Inr x)
    with tripleD [OF assms(2) P] m show ?thesis by simp
  qed
qed

lemma triple_conseq:
  "triple P' m Q' \<Longrightarrow> (\<And>t. P t \<Longrightarrow> P' t) \<Longrightarrow> (\<And>x t. Q' x t \<Longrightarrow> Q x t) \<Longrightarrow> triple P m Q"
  by (fastforce simp: triple_def)

lemma triple_strengthen: "triple P' m Q \<Longrightarrow> (\<And>t. P t \<Longrightarrow> P' t) \<Longrightarrow> triple P m Q"
  by (fastforce simp: triple_def)

lemma triple_conj: "triple P m Q \<Longrightarrow> triple P m R \<Longrightarrow> triple P m (\<lambda>x t. Q x t \<and> R x t)"
  by (fastforce simp: triple_def)

lemma triple_pre: "(\<And>t0. P t0 \<Longrightarrow> triple (\<lambda>t. t = t0) m Q) \<Longrightarrow> triple P m Q"
  by (fastforce simp: triple_def)

lemma triple_if [triple_intros]:
  "(b \<Longrightarrow> triple P m Q) \<Longrightarrow> (\<not> b \<Longrightarrow> triple P n Q) \<Longrightarrow> triple P (if b then m else n) Q"
  by simp

lemma triple_option [triple_intros]:
  "(x = None \<Longrightarrow> triple P m Q) \<Longrightarrow> (\<And>y. x = Some y \<Longrightarrow> triple P (n y) Q) \<Longrightarrow>
   triple P (case x of None \<Rightarrow> m | Some y \<Rightarrow> n y) Q"
  by (cases x) auto

lemma triple_sum [triple_intros]:
  "(\<And>e. x = Inl e \<Longrightarrow> triple P (m e) Q) \<Longrightarrow> (\<And>y. x = Inr y \<Longrightarrow> triple P (n y) Q) \<Longrightarrow>
   triple P (case x of Inl e \<Rightarrow> m e | Inr y \<Rightarrow> n y) Q"
  by (cases x) auto

lemma triple_prod [triple_intros]:
  "(\<And>a b. x = (a, b) \<Longrightarrow> triple P (m a b) Q) \<Longrightarrow> triple P (case x of (a, b) \<Rightarrow> m a b) Q"
  by (cases x) auto

text \<open>An operation that keeps \<open>f\<close> and needs nothing else.\<close>

lemma triple_keeps: "keeps (\<lambda>t. t) m \<Longrightarrow> triple P m (\<lambda>_. P)"
  by (auto simp: triple_def dest: keepsD)

lemma triple_preserves: "preserves P m \<Longrightarrow> triple P m (\<lambda>_. P)"
  by (auto simp: triple_def dest: preservesD)

text \<open>A transaction whose body re-establishes the invariant preserves it, whatever fails.\<close>

lemma in_tx_preserves:
  assumes "triple I body (\<lambda>_. I)"
  shows "preserves I (in_tx body)"
  unfolding preserves_def
proof (rule alwaysI, rule impI)
  fix w :: world
  assume inv: "I (w_tables w)"
  obtain r w1 where run: "body (tick w) = (r, w1)" by (cases "body (tick w)")
  have "I (w_tables w1)" if "r = Inr x" for x
    using tripleD [OF assms, of "tick w"] inv run that by auto
  with inv run show "I (w_tables (snd (in_tx body w)))"
    by (auto simp: in_tx_def split: sum.splits outcome.splits)
qed

text \<open>What a committed transaction has achieved, from the tables it started with.\<close>

lemma in_tx_commits:
  fixes w :: world
  assumes "\<And>t0. I t0 \<Longrightarrow> triple (\<lambda>t. t = t0) body (\<lambda>_. R t0)" and "\<And>t. I t \<Longrightarrow> R t t"
    and "I (w_tables w)"
  shows "R (w_tables w) (w_tables (snd (in_tx body w)))"
proof -
  obtain r w1 where run: "body (tick w) = (r, w1)" by (cases "body (tick w)")
  have "R (w_tables w) (w_tables w1)" if "r = Inr x" for x
    using tripleD [OF assms(1) [OF assms(3)], of "tick w"] run that by auto
  with assms(2) [OF assms(3)] run show ?thesis
    by (auto simp: in_tx_def split: sum.splits outcome.splits)
qed

end
