(* ===== verification/Signal_Journal.thy ===== *)
theory Signal_Journal
  imports Tx
begin

text \<open>
  Package \<open>signals\<close> (\<open>core/internal/signals/signals.go\<close>): the durable journal of monitoring
  signals. Appending is idempotent on the source key; workers claim a bounded batch under a
  lease, and then mark each signal processed or failed. \<open>Claim\<close> takes two parameters for what
  PostgreSQL leaves open: which rows other sessions hold locked, and the order in which
  \<open>UPDATE ... RETURNING\<close> returns its rows. Durations bound to \<open>make_interval\<close> are whole
  microseconds, which PostgreSQL adds exactly.
\<close>

section \<open>Types and operations\<close>

record signal =
  s_ID :: string
  s_Kind :: string
  s_IntegrationID :: string
  s_ResourceID :: string
  s_ObservationID :: string
  s_CheckType :: string
  s_State :: state
  s_Reason :: string
  s_ReasonCode :: string
  s_OccurredAt :: time
  s_CreatedAt :: time
  s_Attempts :: int

record signal_input =
  si_SourceKey :: string
  si_Kind :: string
  si_IntegrationID :: string
  si_ResourceID :: string
  si_ObservationID :: string
  si_CheckType :: string
  si_State :: state
  si_Reason :: string
  si_ReasonCode :: string
  si_OccurredAt :: time
  si_AvailableAt :: time

definition scan_signal :: "signal_row \<Rightarrow> signal" where
  "scan_signal r = \<lparr> s_ID = sg_id r, s_Kind = sg_kind r, s_IntegrationID = sg_integration_id r,
     s_ResourceID = sg_resource_id r, s_ObservationID = text_of (sg_observation_id r),
     s_CheckType = sg_check_type r, s_State = sg_state r, s_Reason = sg_reason r,
     s_ReasonCode = text_of (sg_reason_code r), s_OccurredAt = sg_occurred_at r,
     s_CreatedAt = sg_created_at r, s_Attempts = sg_attempts r \<rparr>"

definition Append :: "signal_input \<Rightarrow> unit tx" where
  "Append input =
     (let availableAt = (if si_AvailableAt input = 0 then si_OccurredAt input else si_AvailableAt input)
      in tx_insert (\<lambda>u c t.
        if si_SourceKey input \<in> sg_source_key ` set (t_signals t) then Inr ((), t)
        else if u \<in> sg_id ` set (t_signals t) then Inl DbError
        else Inr ((), t\<lparr>t_signals := t_signals t @
          [\<lparr> sg_id = u, sg_source_key = si_SourceKey input, sg_kind = si_Kind input,
             sg_integration_id = si_IntegrationID input, sg_resource_id = si_ResourceID input,
             sg_observation_id = nullif (si_ObservationID input),
             sg_check_type = si_CheckType input, sg_state = si_State input,
             sg_reason = si_Reason input, sg_reason_code = nullif (si_ReasonCode input),
             sg_occurred_at = truncate_us (si_OccurredAt input), sg_created_at = c,
             sg_available_at = truncate_us availableAt, sg_claimed_until = None,
             sg_attempts = 0, sg_processed_at = None, sg_dead_lettered_at = None,
             sg_last_error_code = None \<rparr>]\<rparr>)))"

definition ObservationSourceKey :: "string \<Rightarrow> string" where
  "ObservationSourceKey observationID = ''observation:'' @ observationID"

definition settled :: "signal_row \<Rightarrow> bool" where
  "settled r \<longleftrightarrow> sg_processed_at r \<noteq> None \<or> sg_dead_lettered_at r \<noteq> None"

definition lease_free :: "time \<Rightarrow> signal_row \<Rightarrow> bool" where
  "lease_free now r = (case sg_claimed_until r of None \<Rightarrow> True | Some u \<Rightarrow> u \<le> now)"

definition claimable :: "time \<Rightarrow> int \<Rightarrow> signal_row \<Rightarrow> bool" where
  "claimable now maxAttempts r \<longleftrightarrow>
     \<not> settled r \<and> sg_available_at r \<le> now \<and> lease_free now r \<and> sg_attempts r < maxAttempts"

definition claim_order :: "signal_row \<Rightarrow> time \<times> time \<times> string" where
  "claim_order r = (sg_occurred_at r, sg_created_at r, sg_id r)"

definition claim_ids :: "(string \<Rightarrow> bool) \<Rightarrow> time \<Rightarrow> int \<Rightarrow> int \<Rightarrow> signal_row list \<Rightarrow> string list" where
  "claim_ids locked now limit maxAttempts rows =
     map sg_id (take (nat limit) (sort_key claim_order
       (filter (\<lambda>r. claimable now maxAttempts r \<and> \<not> locked (sg_id r)) rows)))"

definition lease_row :: "time \<Rightarrow> duration \<Rightarrow> signal_row \<Rightarrow> signal_row" where
  "lease_row now lease r = r\<lparr>sg_claimed_until := Some (now + lease), sg_attempts := sg_attempts r + 1\<rparr>"

definition default_limit :: "int \<Rightarrow> int" where
  "default_limit limit = (if limit \<le> 0 then 50 else limit)"

definition default_lease :: "duration \<Rightarrow> duration" where
  "default_lease lease = (if lease \<le> 0 then 30 * second else lease)"

definition default_attempts :: "int \<Rightarrow> int" where
  "default_attempts maxAttempts = (if maxAttempts \<le> 0 then 8 else maxAttempts)"

definition Claim ::
  "(string \<Rightarrow> bool) \<Rightarrow> (signal list \<Rightarrow> signal list) \<Rightarrow> time \<Rightarrow> int \<Rightarrow> duration \<Rightarrow> int \<Rightarrow> signal list tx" where
  "Claim locked returning now limit lease maxAttempts =
     (let limit = default_limit limit; lease = default_lease lease;
          maxAttempts = default_attempts maxAttempts; now = truncate_us now
      in tx_affect (\<lambda>t.
        let ids = set (claim_ids locked now limit maxAttempts (t_signals t));
            rows = update_where (\<lambda>r. sg_id r \<in> ids) (lease_row now lease) (t_signals t)
        in (returning (map scan_signal (filter (\<lambda>r. sg_id r \<in> ids) rows)), t\<lparr>t_signals := rows\<rparr>)))"

definition MarkProcessed :: "string \<Rightarrow> time \<Rightarrow> unit tx" where
  "MarkProcessed sid now =
     tx_bind (tx_affect (\<lambda>t.
        let p = (\<lambda>r. sg_id r = sid \<and> \<not> settled r)
        in (length (filter p (t_signals t)),
            t\<lparr>t_signals := update_where p (\<lambda>r. r\<lparr>sg_processed_at := Some (truncate_us now),
                 sg_claimed_until := None, sg_last_error_code := None\<rparr>) (t_signals t)\<rparr>)))
       (\<lambda>n. if n \<noteq> 1 then tx_fail NoRows else tx_return ())"

definition Fail :: "string \<Rightarrow> time \<Rightarrow> duration \<Rightarrow> int \<Rightarrow> string \<Rightarrow> unit tx" where
  "Fail sid now retryAfter maxAttempts code =
     (let retryAfter = (if retryAfter < 0 then 0 else retryAfter);
          maxAttempts = default_attempts maxAttempts; now = truncate_us now
      in tx_exec (\<lambda>t. t\<lparr>t_signals := update_where (\<lambda>r. sg_id r = sid \<and> \<not> settled r)
            (\<lambda>r. r\<lparr>sg_claimed_until := None, sg_available_at := now + retryAfter,
                   sg_last_error_code := Some code,
                   sg_dead_lettered_at := (if maxAttempts \<le> sg_attempts r then Some now else None)\<rparr>)
            (t_signals t)\<rparr>))"

section \<open>Settled signals are final\<close>

text \<open>Every settled row of the first table is still there, unchanged, in the second.\<close>

definition settled_kept :: "tables \<Rightarrow> tables \<Rightarrow> bool" where
  "settled_kept a b \<longleftrightarrow> (\<forall>r \<in> set (t_signals a). settled r \<longrightarrow> r \<in> set (t_signals b))"

interpretation settled: tx_relation settled_kept
  by unfold_locales (auto simp: settled_kept_def)

lemma settled_kept_update:
  "(\<And>r. r \<in> set (t_signals t) \<Longrightarrow> p r \<Longrightarrow> \<not> settled r) \<Longrightarrow>
     settled_kept t (t\<lparr>t_signals := update_where p f (t_signals t)\<rparr>)"
  by (force simp: settled_kept_def set_update_where)

lemma settled_Append: "always settled_kept (Append input)"
  unfolding Append_def Let_def
  by (rule settled.insert) (auto simp: settled_kept_def split: if_splits)

lemma settled_MarkProcessed: "always settled_kept (MarkProcessed sid now)"
  unfolding MarkProcessed_def Let_def
  by (rule settled.bind [OF settled.affect])
    (auto intro: settled_kept_update settled.composition)

lemma settled_Fail: "always settled_kept (Fail sid now retryAfter maxAttempts code)"
  unfolding Fail_def Let_def by (rule settled.exec) (auto intro: settled_kept_update)

definition distinct_signals :: "tables \<Rightarrow> bool" where
  "distinct_signals t \<longleftrightarrow> distinct (map sg_id (t_signals t)) \<and> distinct (map sg_source_key (t_signals t))"

lemma claim_ids_claimable:
  assumes "i \<in> set (claim_ids locked now limit maxAttempts rows)"
  shows "\<exists>r \<in> set rows. sg_id r = i \<and> claimable now maxAttempts r \<and> \<not> locked i"
  using assms set_take_sort_key by (fastforce simp: claim_ids_def)

lemma claim_ids_row:
  assumes "distinct (map sg_id rows)" and "r \<in> set rows"
    and "sg_id r \<in> set (claim_ids locked now limit maxAttempts rows)"
  shows "claimable now maxAttempts r \<and> \<not> locked (sg_id r)"
  using claim_ids_claimable [OF assms(3)] assms(1,2)
  by (metis distinct_map inj_onD)

lemma length_claim_ids: "length (claim_ids locked now limit maxAttempts rows) \<le> nat limit"
  by (simp add: claim_ids_def)

lemma distinct_claim_ids:
  "distinct (map sg_id rows) \<Longrightarrow> distinct (claim_ids locked now limit maxAttempts rows)"
  unfolding claim_ids_def
  by (rule distinct_map_take_sort_key) (simp add: distinct_map_filter)

lemma length_filter_ids:
  assumes "distinct (map key rows)" and "ids \<subseteq> key ` set rows"
  shows "key ` set (filter (\<lambda>r. key r \<in> ids) rows) = ids"
  using assms(2) by auto

lemma Claim_Inr:
  assumes "Claim locked returning now limit lease maxAttempts w = (Inr xs, w')"
  shows "w_tables w' = (w_tables w)\<lparr>t_signals :=
      update_where (\<lambda>r. sg_id r \<in> set (claim_ids locked (truncate_us now) (default_limit limit)
          (default_attempts maxAttempts) (t_signals (w_tables w))))
        (lease_row (truncate_us now) (default_lease lease)) (t_signals (w_tables w))\<rparr>
    \<and> xs = returning (map scan_signal (filter (\<lambda>r. sg_id r \<in> set (claim_ids locked (truncate_us now)
          (default_limit limit) (default_attempts maxAttempts) (t_signals (w_tables w))))
        (t_signals (w_tables w'))))"
  using assms by (simp add: Claim_def Let_def tx_affect_Inr)

lemma Claim_ids:
  assumes "distinct_signals (w_tables w)"
    and "Claim locked returning now limit lease maxAttempts w = (Inr xs, w')"
    and "\<And>ys. mset (returning ys) = mset ys"
  shows "s_ID ` set xs = set (claim_ids locked (truncate_us now) (default_limit limit)
      (default_attempts maxAttempts) (t_signals (w_tables w)))
    \<and> distinct (map s_ID xs) \<and> length xs \<le> nat (default_limit limit)"
proof -
  let ?ids = "claim_ids locked (truncate_us now) (default_limit limit)
      (default_attempts maxAttempts) (t_signals (w_tables w))"
  let ?rows = "t_signals (w_tables w')"
  let ?got = "filter (\<lambda>r. sg_id r \<in> set ?ids) ?rows"
  from Claim_Inr [OF assms(2)] have xs: "xs = returning (map scan_signal ?got)"
    and rows: "?rows = update_where (\<lambda>r. sg_id r \<in> set ?ids)
        (lease_row (truncate_us now) (default_lease lease)) (t_signals (w_tables w))"
    by auto
  have keys: "map sg_id ?rows = map sg_id (t_signals (w_tables w))"
    unfolding rows by (rule map_update_where) (simp add: lease_row_def)
  with assms(1) have dist: "distinct (map sg_id ?rows)" by (simp add: distinct_signals_def)
  have "sg_id ` set ?rows = sg_id ` set (t_signals (w_tables w))"
    using arg_cong [OF keys, of set] by simp
  then have sub: "set ?ids \<subseteq> sg_id ` set ?rows"
    using claim_ids_claimable by fastforce
  have perm: "mset xs = mset (map scan_signal ?got)" unfolding xs by (rule assms(3))
  have "mset (map s_ID xs) = mset (map sg_id ?got)"
    using perm by (simp add: scan_signal_def image_mset.compositionality comp_def)
  then have perm_ids: "mset (map s_ID xs) = mset (map sg_id ?got)" .
  have set_ids: "sg_id ` set ?got = set ?ids" using sub by auto
  have d: "distinct (map sg_id ?got)" using dist by (simp add: distinct_map_filter)
  have "distinct (map s_ID xs)" using perm_ids d by (metis mset_eq_imp_distinct_iff)
  moreover have "s_ID ` set xs = set ?ids"
    using set_ids mset_eq_setD [OF perm_ids] by simp
  moreover have "length xs \<le> nat (default_limit limit)"
  proof -
    have "length xs = card (set (map s_ID xs))"
      using \<open>distinct (map s_ID xs)\<close> by (metis distinct_card length_map)
    also have "\<dots> = card (set ?ids)" using \<open>s_ID ` set xs = set ?ids\<close> by simp
    also have "\<dots> \<le> length ?ids" by (rule card_length)
    also have "\<dots> \<le> nat (default_limit limit)" by (rule length_claim_ids)
    finally show ?thesis .
  qed
  ultimately show ?thesis by blast
qed

section \<open>Runs of the journal\<close>

datatype journal_op =
    JAppend signal_input
  | JClaim "string \<Rightarrow> bool" time int duration int
  | JMark string time
  | JFail string time duration int string

fun journal_step :: "journal_op \<Rightarrow> world \<Rightarrow> world" where
  "journal_step (JAppend input) w = snd (Append input w)"
| "journal_step (JClaim locked now limit lease maxAttempts) w =
     snd (Claim locked id now limit lease maxAttempts w)"
| "journal_step (JMark sid now) w = snd (MarkProcessed sid now w)"
| "journal_step (JFail sid now retryAfter maxAttempts code) w =
     snd (Fail sid now retryAfter maxAttempts code w)"

definition journal_run :: "journal_op list \<Rightarrow> world \<Rightarrow> world" where
  "journal_run ops w = fold journal_step ops w"

lemma distinct_update_signals:
  assumes "distinct_signals t" and "\<And>r. sg_id (f r) = sg_id r \<and> sg_source_key (f r) = sg_source_key r"
  shows "distinct_signals (t\<lparr>t_signals := update_where p f (t_signals t)\<rparr>)"
  using assms map_update_where [of "t_signals t" p sg_id f]
    map_update_where [of "t_signals t" p sg_source_key f]
  by (simp add: distinct_signals_def)

lemma distinct_Append: "preserves distinct_signals (Append input)"
  unfolding Append_def Let_def preserves_def
  by (rule pres.insert) (auto simp: distinct_signals_def split: if_splits)

lemma distinct_MarkProcessed: "preserves distinct_signals (MarkProcessed sid now)"
  unfolding MarkProcessed_def Let_def preserves_def
  by (rule pres.bind [OF pres.affect]) (auto intro: distinct_update_signals pres.composition)

lemma distinct_Fail: "preserves distinct_signals (Fail sid now retryAfter maxAttempts code)"
  unfolding Fail_def Let_def preserves_def
  by (rule pres.exec) (auto intro: distinct_update_signals)

lemma distinct_Claim: "preserves distinct_signals (Claim locked returning now limit lease maxAttempts)"
  unfolding Claim_def Let_def preserves_def
  by (rule pres.affect) (auto intro: distinct_update_signals simp: lease_row_def)

lemma journal_step_distinct:
  "distinct_signals (w_tables w) \<Longrightarrow> distinct_signals (w_tables (journal_step op w))"
  by (cases op)
    (simp_all add: distinct_Append distinct_MarkProcessed distinct_Fail distinct_Claim
       preserves_snd [of distinct_signals])

text \<open>
  An operation spares a row: a claim may not take it, and it is not the unsettled signal that
  is marked or failed.
\<close>

fun spares :: "signal_row \<Rightarrow> journal_op \<Rightarrow> bool" where
  "spares r (JAppend input) = True"
| "spares r (JClaim locked now limit lease maxAttempts) =
     (\<not> claimable (truncate_us now) (default_attempts maxAttempts) r)"
| "spares r (JMark sid now) = (sg_id r \<noteq> sid \<or> settled r)"
| "spares r (JFail sid now retryAfter maxAttempts code) = (sg_id r \<noteq> sid \<or> settled r)"

definition row_kept :: "signal_row \<Rightarrow> tables \<Rightarrow> tables \<Rightarrow> bool" where
  "row_kept r a b \<longleftrightarrow> (r \<in> set (t_signals a) \<longrightarrow> r \<in> set (t_signals b))"

interpretation rowk: tx_relation "row_kept r" for r
  by unfold_locales (auto simp: row_kept_def)

lemma row_kept_update: "\<not> p r \<Longrightarrow> row_kept r t (t\<lparr>t_signals := update_where p f (t_signals t)\<rparr>)"
  by (force simp: row_kept_def set_update_where)

lemma row_kept_Append: "always (row_kept r) (Append input)"
  unfolding Append_def Let_def by (rule rowk.insert) (auto simp: row_kept_def split: if_splits)

lemma row_kept_MarkProcessed: "sg_id r \<noteq> sid \<or> settled r \<Longrightarrow> always (row_kept r) (MarkProcessed sid now)"
  unfolding MarkProcessed_def Let_def
  by (rule rowk.bind [OF rowk.affect]) (auto intro: row_kept_update rowk.composition)

lemma row_kept_Fail:
  "sg_id r \<noteq> sid \<or> settled r \<Longrightarrow> always (row_kept r) (Fail sid now retryAfter maxAttempts code)"
  unfolding Fail_def Let_def by (rule rowk.exec) (auto intro: row_kept_update)

text \<open>A row that a claim must not take stays as it is: settled, leased or out of attempts.\<close>

lemma Claim_keeps_row:
  assumes "distinct_signals (w_tables w)" and "r \<in> set (t_signals (w_tables w))"
    and "\<not> claimable (truncate_us now) (default_attempts maxAttempts) r"
  shows "r \<in> set (t_signals (w_tables (snd (Claim locked returning now limit lease maxAttempts w))))"
proof -
  let ?ids = "claim_ids locked (truncate_us now) (default_limit limit)
      (default_attempts maxAttempts) (t_signals (w_tables w))"
  have "sg_id r \<notin> set ?ids"
    using assms claim_ids_row by (fastforce simp: distinct_signals_def)
  with assms(2) show ?thesis
    by (auto simp: Claim_def Let_def tx_affect_def tx_stmt_def set_update_where image_iff)
qed

lemma journal_step_keeps_row:
  assumes "distinct_signals (w_tables w)" and "r \<in> set (t_signals (w_tables w))" and "spares r op"
  shows "r \<in> set (t_signals (w_tables (journal_step op w)))"
proof (cases op)
  case (JAppend input)
  with assms(2) alwaysD [OF row_kept_Append, of r w input] show ?thesis
    by (simp add: row_kept_def)
next
  case (JClaim locked now limit lease m)
  with Claim_keeps_row [OF assms(1,2)] assms(3) show ?thesis by simp
next
  case (JMark sid now)
  with assms have "always (row_kept r) (MarkProcessed sid now)"
    by (intro row_kept_MarkProcessed) simp
  from alwaysD [OF this, of w] assms(2) JMark show ?thesis by (simp add: row_kept_def)
next
  case (JFail sid now d m c)
  with assms have "always (row_kept r) (Fail sid now d m c)" by (intro row_kept_Fail) simp
  from alwaysD [OF this, of w] assms(2) JFail show ?thesis by (simp add: row_kept_def)
qed

lemma journal_run_keeps_row:
  assumes "distinct_signals (w_tables w)" and "r \<in> set (t_signals (w_tables w))"
    and "list_all (spares r) ops"
  shows "r \<in> set (t_signals (w_tables (journal_run ops w)))
    \<and> distinct_signals (w_tables (journal_run ops w))"
  using assms
proof (induction ops arbitrary: w)
  case Nil
  then show ?case by (simp add: journal_run_def)
next
  case (Cons op ops)
  have "r \<in> set (t_signals (w_tables (journal_step op w)))"
    by (rule journal_step_keeps_row) (use Cons.prems in auto)
  moreover have "distinct_signals (w_tables (journal_step op w))"
    by (rule journal_step_distinct) (rule Cons.prems)
  ultimately show ?case
    using Cons.IH [of "journal_step op w"] Cons.prems(3) by (simp add: journal_run_def)
qed

text \<open>
  C19. a claimed signal is exclusive for its lease. Take a batch claimed at \<open>now\<close>; let any
  operations follow that do not complete or fail the signal and claim before its lease ends.
  Then a claim before the lease ends does not return the signal, whatever rows are locked and
  in whatever order rows are returned. Every batch is bounded by the limit and free of
  duplicates.
\<close>

theorem claim_exclusive_during_lease:
  assumes dist: "distinct_signals (w_tables w)"
    and claim: "Claim locked returning now limit lease maxAttempts w = (Inr xs, w1)"
    and perm: "\<And>ys. mset (returning ys) = mset ys"
    and x: "x \<in> set xs"
    and spared: "\<And>r. sg_claimed_until r = Some (truncate_us now + default_lease lease) \<Longrightarrow>
       sg_id r = s_ID x \<Longrightarrow> list_all (spares r) ops"
    and again: "Claim locked' returning' now' limit' lease' maxAttempts' (journal_run ops w1) = (Inr ys, w2)"
    and perm': "\<And>zs. mset (returning' zs) = mset zs"
    and early: "truncate_us now' < truncate_us now + default_lease lease"
  shows "s_ID x \<notin> s_ID ` set ys \<and> distinct (map s_ID xs) \<and> length xs \<le> nat (default_limit limit)"
proof -
  let ?ids = "set (claim_ids locked (truncate_us now) (default_limit limit)
      (default_attempts maxAttempts) (t_signals (w_tables w)))"
  let ?until = "truncate_us now + default_lease lease"
  note ids = Claim_ids [OF dist claim perm]
  from ids x have mem: "s_ID x \<in> ?ids" by blast
  then obtain r0 where r0: "r0 \<in> set (t_signals (w_tables w))" "sg_id r0 = s_ID x"
    using claim_ids_claimable by blast
  define r where "r = lease_row (truncate_us now) (default_lease lease) r0"
  have r: "sg_id r = s_ID x" "sg_claimed_until r = Some ?until"
    by (simp_all add: r_def lease_row_def r0)
  have "r \<in> set (t_signals (w_tables w1))"
    using Claim_Inr [OF claim] r0 mem
    by (auto simp: set_update_where r_def intro!: image_eqI [of _ _ r0])
  moreover have "distinct_signals (w_tables w1)"
    by (rule preservesD [OF distinct_Claim claim dist])
  ultimately have later: "r \<in> set (t_signals (w_tables (journal_run ops w1)))"
      "distinct_signals (w_tables (journal_run ops w1))"
    using journal_run_keeps_row spared r by blast+
  have "\<not> claimable (truncate_us now') (default_attempts maxAttempts') r"
    using early by (simp add: claimable_def lease_free_def r)
  then have "sg_id r \<notin> set (claim_ids locked' (truncate_us now') (default_limit limit')
      (default_attempts maxAttempts') (t_signals (w_tables (journal_run ops w1))))"
    using claim_ids_row later by (fastforce simp: distinct_signals_def)
  with Claim_ids [OF later(2) again perm'] r ids show ?thesis by simp
qed

text \<open>
  A settled signal is final. Once a signal is processed or dead-lettered, no sequence of
  appends, claims, completions and failures changes its row, so it is never claimed again.
\<close>

theorem settled_signal_final:
  assumes "distinct_signals (w_tables w)" and "r \<in> set (t_signals (w_tables w))" and "settled r"
    and "Claim locked returning now limit lease maxAttempts (journal_run ops w) = (Inr xs, w1)"
    and "\<And>ys. mset (returning ys) = mset ys"
  shows "r \<in> set (t_signals (w_tables (journal_run ops w))) \<and> sg_id r \<notin> s_ID ` set xs"
proof -
  have "spares r op" for op using assms(3) by (cases op) (auto simp: claimable_def)
  then have "list_all (spares r) ops" by (simp add: list_all_iff)
  with assms(1,2) have later: "r \<in> set (t_signals (w_tables (journal_run ops w)))"
      "distinct_signals (w_tables (journal_run ops w))"
    using journal_run_keeps_row by blast+
  have "sg_id r \<notin> set (claim_ids locked (truncate_us now) (default_limit limit)
      (default_attempts maxAttempts) (t_signals (w_tables (journal_run ops w))))"
    using claim_ids_row later assms(3) by (fastforce simp: distinct_signals_def claimable_def)
  with Claim_ids [OF later(2) assms(4,5)] later show ?thesis by simp
qed

text \<open>
  A signal whose last permitted attempt was claimed but never completed (the worker
  stopped before \<open>MarkProcessed\<close> or \<open>Fail\<close>) is stranded: it stays neither processed nor
  dead-lettered whatever appends and claims with the same attempt bound follow, at any later
  instant.
\<close>

theorem exhausted_signal_stranded:
  assumes "distinct_signals (w_tables w)" and "r \<in> set (t_signals (w_tables w))"
    and "\<not> settled r" and "default_attempts maxAttempts \<le> sg_attempts r"
    and "\<And>op. op \<in> set ops \<Longrightarrow> (\<exists>input. op = JAppend input) \<or>
       (\<exists>locked now limit lease. op = JClaim locked now limit lease maxAttempts)"
  shows "r \<in> set (t_signals (w_tables (journal_run ops w))) \<and> \<not> settled r"
proof -
  have "spares r op" if "op \<in> set ops" for op
    using assms(5) [OF that] assms(4) by (auto simp: claimable_def)
  then have "list_all (spares r) ops" by (simp add: list_all_iff)
  with assms show ?thesis using journal_run_keeps_row by blast
qed

text \<open>
  appending is idempotent on the source key: a second append with a known key changes no
  table, and an append never creates a second row for a key.
\<close>

theorem append_idempotent:
  assumes "Append input w = (Inr u, w1)" and "si_SourceKey again = si_SourceKey input"
  shows "w_tables (snd (Append again w1)) = w_tables w1
    \<and> si_SourceKey input \<in> sg_source_key ` set (t_signals (w_tables w1))
    \<and> (distinct_signals (w_tables w) \<longrightarrow> distinct_signals (w_tables w1))"
proof -
  have key: "si_SourceKey input \<in> sg_source_key ` set (t_signals (w_tables w1))"
    using assms(1) by (auto simp: Append_def Let_def tx_insert_Inr split: if_splits)
  then have "w_tables (snd (Append again w1)) = w_tables w1"
    using assms(2) by (simp add: Append_def Let_def tx_insert_def tx_stmt_def)
  with key preservesD [OF distinct_Append assms(1)] show ?thesis by simp
qed

section \<open>Witnesses\<close>

definition sampleSignal :: signal_row where
  "sampleSignal = \<lparr> sg_id = ''s1'', sg_source_key = ''observation:o1'', sg_kind = ''observation'',
     sg_integration_id = ''i1'', sg_resource_id = ''r1'', sg_observation_id = Some ''o1'',
     sg_check_type = ''ping'', sg_state = Critical, sg_reason = ''down'', sg_reason_code = None,
     sg_occurred_at = 5000, sg_created_at = 6000, sg_available_at = 6000,
     sg_claimed_until = None, sg_attempts = 0, sg_processed_at = None,
     sg_dead_lettered_at = None, sg_last_error_code = None \<rparr>"

definition sampleInput :: signal_input where
  "sampleInput = \<lparr> si_SourceKey = ''observation:o2'', si_Kind = ''observation'',
     si_IntegrationID = ''i1'', si_ResourceID = ''r1'', si_ObservationID = ''o2'',
     si_CheckType = ''ping'', si_State = Healthy, si_Reason = ''up'', si_ReasonCode = '''',
     si_OccurredAt = 9000, si_AvailableAt = 9000 \<rparr>"

definition sampleWorld :: "signal_row list \<Rightarrow> world" where
  "sampleWorld rows = \<lparr> w_tables = empty_tables\<lparr>t_signals := rows\<rparr>, w_faults = [],
     w_uuid = (\<lambda>n. ''u'' @ replicate n CHR ''0''), w_next = 0, w_clock = 7000, w_hub = NewHub 4 \<rparr>"

lemmas sample_simps = sampleSignal_def sampleInput_def sampleWorld_def empty_tables_def
  distinct_signals_def

lemma sample_claim:
  "Claim (\<lambda>_. False) id 10000 1 second 3 (sampleWorld [sampleSignal]) =
     (Inr [scan_signal (sampleSignal\<lparr>sg_claimed_until := Some (10000 + second), sg_attempts := 1\<rparr>)],
      sampleWorld [sampleSignal\<lparr>sg_claimed_until := Some (10000 + second), sg_attempts := 1\<rparr>])"
  by (simp add: Claim_def Let_def tx_affect_run claim_ids_def claimable_def settled_def lease_free_def
      sample_simps default_limit_def default_lease_def default_attempts_def truncate_us_def
      microsecond_def lease_row_def second_def scan_signal_def)

theorem claim_exclusive_during_lease_witness:
  "\<exists>ys w2. Claim (\<lambda>_. False) id 20000 5 second 3 (journal_run [JAppend sampleInput]
      (sampleWorld [sampleSignal\<lparr>sg_claimed_until := Some (10000 + second), sg_attempts := 1\<rparr>])) = (Inr ys, w2)
    \<and> ''s1'' \<notin> s_ID ` set ys"
proof -
  let ?w = "sampleWorld [sampleSignal]"
  let ?w1 = "sampleWorld [sampleSignal\<lparr>sg_claimed_until := Some (10000 + second), sg_attempts := 1\<rparr>]"
  let ?x = "scan_signal (sampleSignal\<lparr>sg_claimed_until := Some (10000 + second), sg_attempts := 1\<rparr>)"
  have dist: "distinct_signals (w_tables ?w)" by (simp add: sample_simps)
  have xid: "s_ID ?x = ''s1''" by (simp add: scan_signal_def sampleSignal_def)
  have nofault: "w_faults (journal_run [JAppend sampleInput] ?w1) = []"
    by (simp add: journal_run_def Append_def Let_def tx_insert_run sample_simps)
  obtain ys w2 where again:
    "Claim (\<lambda>_. False) id 20000 5 second 3 (journal_run [JAppend sampleInput] ?w1) = (Inr ys, w2)"
    using nofault by (simp add: Claim_def Let_def tx_affect_run)
  have "s_ID ?x \<notin> s_ID ` set ys \<and> distinct (map s_ID [?x]) \<and> length [?x] \<le> nat (default_limit 1)"
  proof (rule claim_exclusive_during_lease [OF dist sample_claim])
    show "Claim (\<lambda>_. False) id 20000 5 second 3 (journal_run [JAppend sampleInput] ?w1) = (Inr ys, w2)"
      by (rule again)
    show "truncate_us 20000 < truncate_us 10000 + default_lease second"
      by (simp add: truncate_us_def microsecond_def default_lease_def second_def)
  qed auto
  with again xid show ?thesis by auto
qed

theorem settled_signal_final_witness:
  "settled (sampleSignal\<lparr>sg_processed_at := Some 1\<rparr>)
   \<and> sampleSignal\<lparr>sg_processed_at := Some 1\<rparr> \<in> set (t_signals (w_tables
       (journal_run [JFail ''s1'' 5000 0 1 ''late''] (sampleWorld [sampleSignal\<lparr>sg_processed_at := Some 1\<rparr>]))))"
proof -
  let ?r = "sampleSignal\<lparr>sg_processed_at := Some 1\<rparr>"
  let ?w = "sampleWorld [?r]"
  let ?ops = "[JFail ''s1'' 5000 0 1 ''late'']"
  have dist: "distinct_signals (w_tables ?w)" by (simp add: sample_simps)
  have r: "?r \<in> set (t_signals (w_tables ?w))" by (simp add: sampleWorld_def)
  have s: "settled ?r" by (simp add: settled_def)
  have nofault: "w_faults (journal_run ?ops ?w) = []"
    by (simp add: journal_run_def Fail_def Let_def tx_exec_run sampleWorld_def)
  obtain xs w1 where claim: "Claim (\<lambda>_. False) id 1 1 1 1 (journal_run ?ops ?w) = (Inr xs, w1)"
    using nofault by (simp add: Claim_def Let_def tx_affect_run)
  from settled_signal_final [OF dist r s claim] s show ?thesis by simp
qed

theorem exhausted_signal_stranded_witness:
  "sampleSignal\<lparr>sg_attempts := 8\<rparr> \<in> set (t_signals (w_tables
     (journal_run [JClaim (\<lambda>_. False) (1000 * second) 50 second 8] (sampleWorld [sampleSignal\<lparr>sg_attempts := 8\<rparr>]))))"
proof -
  let ?r = "sampleSignal\<lparr>sg_attempts := 8\<rparr>"
  have "distinct_signals (w_tables (sampleWorld [?r]))" by (simp add: sample_simps)
  moreover have "?r \<in> set (t_signals (w_tables (sampleWorld [?r])))" by (simp add: sampleWorld_def)
  moreover have "\<not> settled ?r" by (simp add: settled_def sampleSignal_def)
  moreover have "default_attempts 8 \<le> sg_attempts ?r" by (simp add: default_attempts_def)
  ultimately show ?thesis
    using exhausted_signal_stranded [of "sampleWorld [?r]" ?r 8
        "[JClaim (\<lambda>_. False) (1000 * second) 50 second 8]"] by auto
qed

theorem append_idempotent_witness:
  "\<exists>w1. Append sampleInput (sampleWorld [sampleSignal]) = (Inr (), w1)
     \<and> w_tables (snd (Append (sampleInput\<lparr>si_Reason := ''other''\<rparr>) w1)) = w_tables w1
     \<and> length (t_signals (w_tables w1)) = 2"
proof -
  obtain w1 where w1: "Append sampleInput (sampleWorld [sampleSignal]) = (Inr (), w1)"
    "length (t_signals (w_tables w1)) = 2"
    by (simp add: Append_def Let_def tx_insert_run sample_simps)
  from append_idempotent [OF w1(1), of "sampleInput\<lparr>si_Reason := ''other''\<rparr>"] w1 show ?thesis
    by simp
qed

end
