(* ===== verification/Admin_Ops.thy ===== *)
theory Admin_Ops
  imports Tx
begin

text \<open>
  Packages \<open>audit\<close> (\<open>core/internal/audit/audit.go\<close>) and \<open>adminops\<close>
  (\<open>core/internal/adminops/idempotency.go\<close>): the append-only audit log and the idempotency
  receipts of administrative mutations. The locale \<open>receipt_store\<close> is the contract a mutation
  relies on (a stored receipt is found again under its key and no other); it is interpreted
  here for administrative receipts and by the incident workflow for operator actions.
\<close>

section \<open>Audit events\<close>

type_synonym summary = "(string \<times> jvalue) list"

record audit_event =
  ae_ActorUserID :: string
  ae_Action :: string
  ae_TargetType :: string
  ae_TargetID :: string
  ae_Result :: string
  ae_SourceAddress :: string
  ae_CorrelationID :: string
  ae_BeforeSummary :: "summary option"
  ae_AfterSummary :: "summary option"
  ae_OccurredAt :: time

definition MaxSummaryBytes :: nat where
  "MaxSummaryBytes = 64 * 1024"

definition targetTypePattern :: "string \<Rightarrow> bool" where
  "targetTypePattern s \<longleftrightarrow> identifierPattern s \<and> length s \<le> 63"

definition encodeSummary :: "runtime \<Rightarrow> summary option \<Rightarrow> err + string option" where
  "encodeSummary rt s = (case s of
       None \<Rightarrow> Inr None
     | Some fs \<Rightarrow>
         let encoded = rt_json rt (JObj fs)
         in if MaxSummaryBytes < length encoded then Inl ErrInvalidAuditEvent else Inr (Some encoded))"

definition validAuditEvent :: "runtime \<Rightarrow> audit_event \<Rightarrow> bool" where
  "validAuditEvent rt e \<longleftrightarrow>
     identifierPattern (ae_Action e) \<and> targetTypePattern (ae_TargetType e)
     \<and> (ae_Result e = ''succeeded'' \<or> ae_Result e = ''failed'' \<or> ae_Result e = ''denied'')
     \<and> TrimSpace (ae_CorrelationID e) \<noteq> '''' \<and> length (ae_CorrelationID e) \<le> 128
     \<and> ae_OccurredAt e \<noteq> 0
     \<and> (ae_SourceAddress e = '''' \<or> rt_ParseIP rt (ae_SourceAddress e))"

definition audit_Append :: "runtime \<Rightarrow> audit_event \<Rightarrow> unit tx" where
  "audit_Append rt e =
     (if \<not> validAuditEvent rt e then tx_fail ErrInvalidAuditEvent
      else case encodeSummary rt (ae_BeforeSummary e) of
        Inl x \<Rightarrow> tx_fail x
      | Inr before \<Rightarrow> (case encodeSummary rt (ae_AfterSummary e) of
          Inl x \<Rightarrow> tx_fail x
        | Inr after \<Rightarrow> tx_insert (\<lambda>u c t.
            if u \<in> au_id ` set (t_audit t) then Inl DbError
            else Inr ((), t\<lparr>t_audit := t_audit t @
              [\<lparr> au_id = u, au_actor_user_id = map_option uuid_param (nullif (ae_ActorUserID e)),
                 au_action = ae_Action e, au_target_type = ae_TargetType e,
                 au_target_id = nullif (ae_TargetID e), au_result = ae_Result e,
                 au_source_address = nullif (ae_SourceAddress e),
                 au_correlation_id = ae_CorrelationID e, au_before_summary = before,
                 au_after_summary = after, au_occurred_at = ae_OccurredAt e \<rparr>]\<rparr>))))"

lemma audit_Append_only_audit:
  "(\<And>t x. f (t\<lparr>t_audit := x\<rparr>) = f t) \<Longrightarrow> keeps f (audit_Append rt e)"
  unfolding audit_Append_def
  by (intro frame_intros) (auto split: if_splits)

text \<open>What \<open>audit_Append\<close> has done when it succeeds: one more row, nothing else.\<close>

lemma audit_Append_Inr:
  assumes "audit_Append rt e w = (Inr u, w')"
  shows "\<exists>row. w_tables w' = (w_tables w)\<lparr>t_audit := t_audit (w_tables w) @ [row]\<rparr>
    \<and> au_action row = ae_Action e \<and> au_target_id row = nullif (ae_TargetID e)
    \<and> au_occurred_at row = ae_OccurredAt e
    \<and> w_faults w' = tl (w_faults w) \<and> w_hub w' = w_hub w"
  using assms
  by (auto simp: audit_Append_def tx_insert_Inr split: if_splits sum.splits)

section \<open>Receipts\<close>

record receipt =
  rc_ID :: string
  rc_Version :: int
  rc_RequestID :: string
  rc_Replayed :: bool
  rc_AuditURL :: string

text \<open>
  The contract of a receipt table: what was put under a key is found under that key, and
  other keys are unaffected. From it follows, once for every provider, that a request that
  was recorded is answered from the record when it comes again, and refused when the key
  comes back with another request.
\<close>

locale receipt_store =
  fixes lookup :: "tables \<Rightarrow> 'k \<Rightarrow> (string \<times> 'r) option"
    and put :: "'k \<Rightarrow> string \<Rightarrow> 'r \<Rightarrow> tables \<Rightarrow> tables"
    and view :: "'r \<Rightarrow> 'r"
  assumes lookup_put_same: "lookup t k = None \<Longrightarrow> lookup (put k h r t) k = Some (h, view r)"
    and lookup_put_other: "k \<noteq> k' \<Longrightarrow> lookup (put k h r t) k' = lookup t k'"
begin

definition decide :: "tables \<Rightarrow> 'k \<Rightarrow> string \<Rightarrow> err + 'r option" where
  "decide t k h = (case lookup t k of
       None \<Rightarrow> Inr None
     | Some (h', r) \<Rightarrow> if h' \<noteq> h then Inl ErrIdempotencyConflict else Inr (Some r))"

lemma decide_fresh: "lookup t k = None \<Longrightarrow> decide t k h = Inr None"
  by (simp add: decide_def)

lemma decide_recorded:
  assumes "lookup t k = None" and "lookup t' k = lookup (put k h r t) k"
  shows "decide t' k h' = (if h' = h then Inr (Some (view r)) else Inl ErrIdempotencyConflict)"
  using assms by (auto simp: decide_def lookup_put_same)

lemma decide_other:
  "k \<noteq> k' \<Longrightarrow> decide (put k h r t) k' h' = decide t k' h'"
  by (simp add: decide_def lookup_put_other)

end

section \<open>Administrative mutations\<close>

type_synonym admin_key = "string \<times> string \<times> string \<times> string"

definition admin_key_of :: "admin_key_row \<Rightarrow> admin_key" where
  "admin_key_of r = (dk_actor_user_id r, dk_target_type r, dk_operation r, dk_idempotency_key r)"

definition admin_lookup :: "tables \<Rightarrow> admin_key \<Rightarrow> (string \<times> receipt) option" where
  "admin_lookup t k = map_option (\<lambda>r. (dk_request_hash r,
      \<lparr> rc_ID = dk_target_id r, rc_Version = dk_result_version r,
        rc_RequestID = dk_correlation_id r, rc_Replayed = True,
        rc_AuditURL = '''' \<rparr>))
    (find_row admin_key_of k (t_admin_keys t))"

definition admin_put :: "admin_key \<Rightarrow> string \<Rightarrow> receipt \<Rightarrow> tables \<Rightarrow> tables" where
  "admin_put k h r t = (case k of (actor, target, operation, key) \<Rightarrow>
     t\<lparr>t_admin_keys := t_admin_keys t @
       [\<lparr> dk_actor_user_id = actor, dk_target_type = target, dk_operation = operation,
          dk_idempotency_key = key, dk_request_hash = h, dk_target_id = uuid_param (rc_ID r),
          dk_result_version = rc_Version r, dk_correlation_id = rc_RequestID r \<rparr>]\<rparr>)"

text \<open>What a stored receipt reads back as.\<close>

definition replayed :: "receipt \<Rightarrow> receipt" where
  "replayed r = r\<lparr>rc_ID := uuid_param (rc_ID r), rc_Replayed := True, rc_AuditURL := ''''\<rparr>"

lemma admin_lookup_put:
  assumes "admin_lookup t k = None"
  shows "admin_lookup (admin_put k h r t) k' =
    (if k' = k then Some (h, replayed r) else admin_lookup t k')"
proof -
  obtain a b c d where k: "k = (a, b, c, d)" by (cases k)
  from assms have "find_row admin_key_of k (t_admin_keys t) = None"
    by (simp add: admin_lookup_def)
  then show ?thesis
    by (auto simp: admin_lookup_def admin_put_def find_row_append admin_key_of_def k replayed_def
        split: option.splits)
qed

interpretation admin: receipt_store admin_lookup admin_put replayed
proof
  fix t :: tables and k k' :: admin_key and h :: string and r :: receipt
  show "admin_lookup t k = None \<Longrightarrow> admin_lookup (admin_put k h r t) k = Some (h, replayed r)"
    by (simp add: admin_lookup_put)
  show "k \<noteq> k' \<Longrightarrow> admin_lookup (admin_put k h r t) k' = admin_lookup t k'"
    by (cases k)
      (auto simp: admin_lookup_def admin_put_def find_row_append admin_key_of_def split: option.splits)
qed

definition nibble :: "nat \<Rightarrow> char" where
  "nibble n = ''0123456789abcdef'' ! (n mod 16)"

definition hex_encode :: "string \<Rightarrow> string" where
  "hex_encode s = concat (map (\<lambda>c. [nibble (byte c div 16), nibble (byte c)]) s)"

definition adminops_Hash :: "runtime \<Rightarrow> jvalue \<Rightarrow> string" where
  "adminops_Hash rt v = hex_encode (rt_sha256 rt (rt_json rt v))"

definition Replay :: "string \<Rightarrow> string \<Rightarrow> string \<Rightarrow> string \<Rightarrow> string \<Rightarrow> receipt option tx" where
  "Replay actorID targetType operation key hash =
     tx_bind (tx_query (\<lambda>_. ())) (\<lambda>_.
     tx_bind (tx_query (\<lambda>t. admin_lookup t (uuid_param actorID, targetType, operation, key))) (\<lambda>found.
     case found of
       None \<Rightarrow> tx_return None
     | Some (storedHash, result) \<Rightarrow>
         if storedHash \<noteq> hash then tx_fail ErrIdempotencyConflict
         else tx_return (Some result)))"

definition Save :: "string \<Rightarrow> string \<Rightarrow> string \<Rightarrow> string \<Rightarrow> string \<Rightarrow> receipt \<Rightarrow> unit tx" where
  "Save actorID targetType operation key hash result =
     (let k = (uuid_param actorID, targetType, operation, key)
      in tx_insert (\<lambda>u c t. if admin_lookup t k \<noteq> None then Inl DbError
           else Inr ((), admin_put k hash result t)))"

text \<open>\<open>Replay\<close> is the decision of the contract; it writes nothing.\<close>

lemma Replay_Inr:
  "Replay a ty op key h w = (Inr x, w') \<longleftrightarrow>
     \<not> faulty w \<and> \<not> faulty (tick w) \<and> w' = tick (tick w)
     \<and> admin.decide (w_tables w) (uuid_param a, ty, op, key) h = Inr x"
  by (auto simp: Replay_def admin.decide_def tx_success split: option.splits if_splits)

lemma Save_Inr:
  "Save a ty op key h r w = (Inr u, w') \<Longrightarrow>
     admin_lookup (w_tables w) (uuid_param a, ty, op, key) = None
     \<and> w_tables w' = admin_put (uuid_param a, ty, op, key) h r (w_tables w)
     \<and> w_hub w' = w_hub w"
  by (cases "admin_lookup (w_tables w) (uuid_param a, ty, op, key)")
    (auto simp: Save_def Let_def tx_success split: if_splits)

end
