(* ===== verification/Incident_Rules.thy ===== *)
theory Incident_Rules
  imports Signal_Journal Admin_Ops
begin

text \<open>
  Incident rules (\<open>core/internal/incidents/validation.go\<close>, \<open>rules.go\<close> and the rule queries of
  \<open>evaluator.go\<close>): validation of a definition, administrative create and replace, the
  precedence query by which the evaluator picks one rule for a signal, and the preview that
  explains that choice to an operator. Rule precedence is exact resource first, then the
  number of matched fields, then priority, then identifier.
\<close>

section \<open>Definitions and their validation\<close>

record rule_condition =
  rcn_State :: state
  rcn_Severity :: severity
  rcn_MinOccurrences :: int
  rcn_For :: duration

record rule_definition =
  rd_Name :: string
  rd_Priority :: int
  rd_IntegrationID :: string
  rd_ResourceID :: string
  rd_ResourceKind :: string
  rd_CheckType :: string
  rd_ReasonCode :: string
  rd_RecoveryState :: state
  rd_RecoveryMinOccurrences :: int
  rd_RecoveryFor :: duration
  rd_Conditions :: "rule_condition list"

definition thirty_days :: duration where
  "thirty_days = 30 * 24 * 3600 * second"

definition validRuleState :: "state \<Rightarrow> bool" where
  "validRuleState st = (case st of OtherState _ \<Rightarrow> False | _ \<Rightarrow> True)"

definition validConditionState :: "state \<Rightarrow> bool" where
  "validConditionState st = (case st of
      Warning \<Rightarrow> True | Critical \<Rightarrow> True | Unknown \<Rightarrow> True | Stale \<Rightarrow> True | _ \<Rightarrow> False)"

definition validCondition :: "rule_condition \<Rightarrow> bool" where
  "validCondition c \<longleftrightarrow> validConditionState (rcn_State c)
     \<and> (rcn_Severity c = SeverityWarning \<or> rcn_Severity c = SeverityCritical)
     \<and> 1 \<le> rcn_MinOccurrences c \<and> rcn_MinOccurrences c \<le> 1000
     \<and> 0 \<le> rcn_For c \<and> rcn_For c \<le> thirty_days"

text \<open>The loop over the conditions, \<open>seen\<close> being the states it has met.\<close>

fun checkConditions :: "state list \<Rightarrow> rule_condition list \<Rightarrow> bool" where
  "checkConditions seen [] = True"
| "checkConditions seen (c # cs) =
     (rcn_State c \<notin> set seen \<and> validCondition c \<and> checkConditions (rcn_State c # seen) cs)"

definition ValidateRule :: "rule_definition \<Rightarrow> err + unit" where
  "ValidateRule r =
     (if TrimSpace (rd_Name r) \<noteq> rd_Name r \<or> rd_Name r = '''' \<or> 128 < RuneCountInString (rd_Name r)
      then Inl (ErrInvalidRule ''invalid incident rule name'')
      else if rd_Priority r < 0 \<or> 10000 < rd_Priority r
      then Inl (ErrInvalidRule ''invalid incident rule priority'')
      else if rd_IntegrationID r \<noteq> '''' \<and> \<not> uuidPattern (rd_IntegrationID r)
        \<or> rd_ResourceID r \<noteq> '''' \<and> \<not> uuidPattern (rd_ResourceID r)
      then Inl (ErrInvalidRule ''invalid incident rule scope ID'')
      else if list_ex (\<lambda>v. v \<noteq> '''' \<and> \<not> identifierPattern v)
        [rd_ResourceKind r, rd_CheckType r, rd_ReasonCode r]
      then Inl (ErrInvalidRule ''invalid incident rule match field'')
      else if \<not> validRuleState (rd_RecoveryState r) \<or> rd_RecoveryMinOccurrences r < 1
        \<or> 1000 < rd_RecoveryMinOccurrences r \<or> rd_RecoveryFor r < 0 \<or> thirty_days < rd_RecoveryFor r
      then Inl (ErrInvalidRule ''invalid incident rule recovery'')
      else if length (rd_Conditions r) < 1 \<or> 4 < length (rd_Conditions r)
      then Inl (ErrInvalidRule ''invalid incident rule conditions'')
      else if \<not> checkConditions [] (rd_Conditions r)
      then Inl (ErrInvalidRule ''invalid incident rule condition'')
      else Inr ())"

section \<open>Precedence\<close>

text \<open>\<open>column IS NULL OR column = value\<close>\<close>

definition admits :: "string option \<Rightarrow> string \<Rightarrow> bool" where
  "admits column v \<longleftrightarrow> column = None \<or> column = Some v"

definition rule_matches ::
  "string \<Rightarrow> resource_row \<Rightarrow> string \<Rightarrow> string \<Rightarrow> rule_row \<Rightarrow> bool" where
  "rule_matches integrationID res checkType reasonCode r \<longleftrightarrow>
     rl_enabled r
     \<and> admits (rl_integration_id r) integrationID
     \<and> admits (rl_resource_id r) (rs_id res)
     \<and> admits (rl_resource_kind r) (rs_kind res)
     \<and> admits (rl_check_type r) checkType
     \<and> (rl_reason_code r = None \<or> rl_reason_code r = nullif reasonCode)"

definition non_null :: "'a option \<Rightarrow> int" where
  "non_null x = (case x of None \<Rightarrow> 0 | Some _ \<Rightarrow> 1)"

definition rule_precedence :: "rule_row \<Rightarrow> bool \<times> int \<times> int \<times> string" where
  "rule_precedence r = (rl_resource_id r = None,
     - (non_null (rl_integration_id r) + non_null (rl_check_type r)
        + non_null (rl_resource_kind r) + non_null (rl_reason_code r)),
     - rl_priority r, rl_id r)"

record condition =
  cn_Severity :: severity
  cn_MinOccurrences :: int
  cn_For :: duration

record rule =
  ru_ID :: string
  ru_Name :: string
  ru_RecoveryState :: state
  ru_RecoveryMinOccurrences :: int
  ru_RecoveryFor :: duration
  ru_Condition :: "condition option"

definition condition_key :: "condition_row \<Rightarrow> string \<times> state" where
  "condition_key c = (cd_rule_id c, cd_state c)"

definition rule_of :: "tables \<Rightarrow> state \<Rightarrow> rule_row \<Rightarrow> rule" where
  "rule_of t st r = \<lparr> ru_ID = rl_id r, ru_Name = rl_name r, ru_RecoveryState = rl_recovery_state r,
     ru_RecoveryMinOccurrences = rl_recovery_min_occurrences r,
     ru_RecoveryFor = rl_recovery_for_seconds r * second,
     ru_Condition = map_option (\<lambda>c. \<lparr> cn_Severity = cd_severity c,
        cn_MinOccurrences = cd_min_occurrences c, cn_For = cd_for_seconds c * second \<rparr>)
       (find_row condition_key (rl_id r, st) (t_conditions t)) \<rparr>"

definition winning_rule :: "tables \<Rightarrow> signal \<Rightarrow> resource_row \<Rightarrow> rule_row option" where
  "winning_rule t sig res = first_by rule_precedence
     (filter (rule_matches (s_IntegrationID sig) res (s_CheckType sig) (s_ReasonCode sig)) (t_rules t))"

definition matchingRule :: "signal \<Rightarrow> (rule \<times> string) tx" where
  "matchingRule sig = tx_row (\<lambda>t.
     Option.bind (find_row rs_id (s_ResourceID sig) (t_resources t)) (\<lambda>res.
       map_option (\<lambda>r. (rule_of t (s_State sig) r, rs_display_name res)) (winning_rule t sig res)))"

definition matchingRuleByID :: "string \<Rightarrow> signal \<Rightarrow> (rule \<times> string) tx" where
  "matchingRuleByID ruleID sig = tx_row (\<lambda>t.
     Option.bind (find_row rs_id (s_ResourceID sig) (t_resources t)) (\<lambda>res.
       map_option (\<lambda>r. (rule_of t (s_State sig) r, rs_display_name res))
         (List.find (\<lambda>r. rl_id r = ruleID
            \<and> rule_matches (s_IntegrationID sig) res (s_CheckType sig) (s_ReasonCode sig) r) (t_rules t))))"

section \<open>Maintenance windows as the evaluator sees them\<close>

record maintenanceMatch =
  mm_ID :: string
  mm_Reason :: string

definition window_covers :: "string \<Rightarrow> string \<Rightarrow> string \<Rightarrow> time \<Rightarrow> window_row \<Rightarrow> bool" where
  "window_covers integrationID resourceID checkType at m \<longleftrightarrow>
     mw_enabled m \<and> mw_revoked_at m = None \<and> mw_starts_at m \<le> at \<and> at < mw_ends_at m
     \<and> admits (mw_integration_id m) integrationID \<and> admits (mw_resource_id m) resourceID
     \<and> admits (mw_check_type m) checkType"

definition window_precedence :: "window_row \<Rightarrow> bool \<times> int \<times> time \<times> string" where
  "window_precedence m = (mw_resource_id m = None,
     - (non_null (mw_integration_id m) + non_null (mw_check_type m)), - mw_starts_at m, mw_id m)"

definition activeMaintenance :: "signal \<Rightarrow> time \<Rightarrow> maintenanceMatch tx" where
  "activeMaintenance sig at = tx_query (\<lambda>t.
     case first_by window_precedence
       (filter (window_covers (s_IntegrationID sig) (s_ResourceID sig) (s_CheckType sig) at) (t_windows t)) of
       None \<Rightarrow> \<lparr> mm_ID = '''', mm_Reason = '''' \<rparr>
     | Some m \<Rightarrow> \<lparr> mm_ID = mw_id m, mm_Reason = mw_reason m \<rparr>)"

section \<open>The rule service\<close>

record rule_condition_view =
  cv_State :: state
  cv_Severity :: severity
  cv_MinOccurrences :: int
  cv_ForSeconds :: int

record rule_view =
  rv_ID :: string
  rv_Name :: string
  rv_Enabled :: bool
  rv_Priority :: int
  rv_IntegrationID :: string
  rv_ResourceID :: string
  rv_ResourceKind :: string
  rv_CheckType :: string
  rv_ReasonCode :: string
  rv_RecoveryState :: state
  rv_RecoveryMinOccurrences :: int
  rv_RecoveryForSeconds :: int
  rv_Conditions :: "rule_condition_view list"
  rv_Version :: int
  rv_CreatedAt :: time
  rv_UpdatedAt :: time

record rule_write =
  rw_Definition :: rule_definition
  rw_Enabled :: bool
  rw_ExpectedVersion :: int
  rw_IdempotencyKey :: string
  rw_ActorUserID :: string
  rw_ActorName :: string
  rw_SourceAddress :: string
  rw_CorrelationID :: string

definition condition_views :: "string \<Rightarrow> condition_row list \<Rightarrow> rule_condition_view list" where
  "condition_views ruleID rows = map (\<lambda>c. \<lparr> cv_State = cd_state c, cv_Severity = cd_severity c,
       cv_MinOccurrences = cd_min_occurrences c, cv_ForSeconds = cd_for_seconds c \<rparr>)
     (sort_key (\<lambda>c. state_text (cd_state c)) (filter (\<lambda>c. cd_rule_id c = ruleID) rows))"

definition rule_view_of :: "rule_row \<Rightarrow> rule_condition_view list \<Rightarrow> rule_view" where
  "rule_view_of r conditions = \<lparr> rv_ID = rl_id r, rv_Name = rl_name r, rv_Enabled = rl_enabled r,
     rv_Priority = rl_priority r, rv_IntegrationID = text_of (rl_integration_id r),
     rv_ResourceID = text_of (rl_resource_id r), rv_ResourceKind = text_of (rl_resource_kind r),
     rv_CheckType = text_of (rl_check_type r), rv_ReasonCode = text_of (rl_reason_code r),
     rv_RecoveryState = rl_recovery_state r,
     rv_RecoveryMinOccurrences = rl_recovery_min_occurrences r,
     rv_RecoveryForSeconds = rl_recovery_for_seconds r, rv_Conditions = conditions,
     rv_Version = rl_version r, rv_CreatedAt = rl_created_at r, rv_UpdatedAt = rl_updated_at r \<rparr>"

definition readRule :: "string \<Rightarrow> rule_view tx" where
  "readRule ruleID =
     tx_bind (tx_query (\<lambda>t. find_row rl_id (uuid_param ruleID) (t_rules t))) (\<lambda>found.
     case found of
       None \<Rightarrow> tx_fail ErrRuleNotFound
     | Some r \<Rightarrow>
         tx_bind (tx_query (\<lambda>t. condition_views (uuid_param ruleID) (t_conditions t))) (\<lambda>conditions.
         tx_return (rule_view_of r conditions)))"

definition Rule_Detail :: "string \<Rightarrow> rule_view tx" where
  "Rule_Detail ruleID = readRule ruleID"

text \<open>\<open>List\<close>; the collation of the text column is that of the database, a parameter.\<close>

fun readRules :: "string list \<Rightarrow> rule_view list tx" where
  "readRules [] = tx_return []"
| "readRules (ruleID # ids) =
     tx_bind (Rule_Detail ruleID) (\<lambda>item. tx_bind (readRules ids) (\<lambda>items. tx_return (item # items)))"

definition Rule_List :: "(string \<Rightarrow> string) \<Rightarrow> rule_view list tx" where
  "Rule_List collate =
     tx_bind (tx_query (\<lambda>t. map rl_id (take 200
       (sort_key (\<lambda>r. (- rl_priority r, collate (rl_name r), rl_id r)) (t_rules t))))) readRules"

definition whole_seconds :: "duration \<Rightarrow> int" where
  "whole_seconds d = d sdiv second"

definition uuid_or_null :: "string \<Rightarrow> string option" where
  "uuid_or_null s = map_option uuid_param (nullif s)"

text \<open>The columns \<open>INSERT\<close> and \<open>UPDATE\<close> take from the request.\<close>

definition set_rule_columns :: "rule_definition \<Rightarrow> bool \<Rightarrow> rule_row \<Rightarrow> rule_row" where
  "set_rule_columns d enabled r = r\<lparr> rl_name := rd_Name d, rl_enabled := enabled,
     rl_priority := rd_Priority d, rl_integration_id := uuid_or_null (rd_IntegrationID d),
     rl_resource_id := uuid_or_null (rd_ResourceID d), rl_resource_kind := nullif (rd_ResourceKind d),
     rl_check_type := nullif (rd_CheckType d), rl_reason_code := nullif (rd_ReasonCode d),
     rl_recovery_state := rd_RecoveryState d,
     rl_recovery_min_occurrences := rd_RecoveryMinOccurrences d,
     rl_recovery_for_seconds := whole_seconds (rd_RecoveryFor d) \<rparr>"

definition new_rule_row :: "string \<Rightarrow> time \<Rightarrow> rule_row" where
  "new_rule_row ruleID now = \<lparr> rl_id = ruleID, rl_name = '''', rl_enabled = True, rl_priority = 100,
     rl_integration_id = None, rl_resource_id = None, rl_resource_kind = None, rl_check_type = None,
     rl_reason_code = None, rl_recovery_state = Healthy, rl_recovery_min_occurrences = 2,
     rl_recovery_for_seconds = 0, rl_version = 1, rl_created_at = now, rl_updated_at = now \<rparr>"

definition validateRuleReferences :: "rule_definition \<Rightarrow> unit tx" where
  "validateRuleReferences d =
     (if rd_ResourceID d \<noteq> '''' then
        tx_bind (tx_catch
            (tx_row (\<lambda>t. map_option rs_integration_id
               (find_row rs_id (uuid_param (rd_ResourceID d)) (t_resources t))))
            (\<lambda>_. tx_fail ErrRuleScope)) (\<lambda>integrationID.
        if rd_IntegrationID d \<noteq> '''' \<and> rd_IntegrationID d \<noteq> integrationID then tx_fail ErrRuleScope
        else tx_return ())
      else if rd_IntegrationID d \<noteq> '''' then
        tx_bind (tx_catch (tx_query (\<lambda>t. uuid_param (rd_IntegrationID d) \<in> it_id ` set (t_integrations t)))
            (\<lambda>_. tx_fail ErrRuleScope)) (\<lambda>exists.
        if \<not> exists then tx_fail ErrRuleScope else tx_return ())
      else tx_return ())"

definition ruleAuditSummary :: "rule_view \<Rightarrow> summary" where
  "ruleAuditSummary v =
     [(''check_type'', JText (rv_CheckType v)), (''condition_count'', JInt (int (length (rv_Conditions v)))),
      (''enabled'', JBool (rv_Enabled v)), (''integration_id'', JText (rv_IntegrationID v)),
      (''name'', JText (rv_Name v)), (''priority'', JInt (rv_Priority v)),
      (''reason_code'', JText (rv_ReasonCode v)), (''resource_id'', JText (rv_ResourceID v)),
      (''resource_kind'', JText (rv_ResourceKind v)), (''version'', JInt (rv_Version v))]"

definition createRule :: "rule_write \<Rightarrow> time \<Rightarrow> (string \<times> int \<times> summary option) tx" where
  "createRule input now = tx_insert (\<lambda>u c t.
     if u \<in> rl_id ` set (t_rules t) then Inl DbError
     else let r = set_rule_columns (rw_Definition input) (rw_Enabled input) (new_rule_row u now)
       in Inr ((u, rl_version r, None), t\<lparr>t_rules := t_rules t @ [r]\<rparr>))"

definition replaceRule :: "string \<Rightarrow> rule_write \<Rightarrow> time \<Rightarrow> (string \<times> int \<times> summary option) tx" where
  "replaceRule ruleID input now =
     tx_bind (readRule ruleID) (\<lambda>current.
     if rv_Version current \<noteq> rw_ExpectedVersion input then tx_fail ErrRuleConflict
     else
       let before = ruleAuditSummary current in
       tx_bind (tx_affect (\<lambda>t.
         let p = (\<lambda>r. rl_id r = uuid_param ruleID);
             rows = update_where p (\<lambda>r. (set_rule_columns (rw_Definition input) (rw_Enabled input) r)
               \<lparr>rl_version := rl_version r + 1, rl_updated_at := now\<rparr>) (t_rules t)
         in (map_option rl_version (List.find p rows), t\<lparr>t_rules := rows\<rparr>))) (\<lambda>version.
       case version of
         None \<Rightarrow> tx_fail NoRows
       | Some version \<Rightarrow>
           tx_bind (tx_exec (\<lambda>t. t\<lparr>t_conditions :=
             filter (\<lambda>c. cd_rule_id c \<noteq> uuid_param ruleID) (t_conditions t)\<rparr>)) (\<lambda>_.
           tx_return (ruleID, version, Some before))))"

definition condition_row_of :: "string \<Rightarrow> rule_condition \<Rightarrow> condition_row" where
  "condition_row_of ruleID c = \<lparr> cd_rule_id = uuid_param ruleID, cd_state = rcn_State c,
     cd_severity = rcn_Severity c, cd_min_occurrences = rcn_MinOccurrences c,
     cd_for_seconds = whole_seconds (rcn_For c) \<rparr>"

definition insertCondition :: "string \<Rightarrow> rule_condition \<Rightarrow> unit tx" where
  "insertCondition ruleID c = tx_insert (\<lambda>u cl t.
     if condition_key (condition_row_of ruleID c) \<in> condition_key ` set (t_conditions t) then Inl DbError
     else Inr ((), t\<lparr>t_conditions := t_conditions t @ [condition_row_of ruleID c]\<rparr>))"

definition rule_json :: "rule_definition \<Rightarrow> jvalue" where
  "rule_json d = JObj [(''Name'', JText (rd_Name d)), (''Priority'', JInt (rd_Priority d)),
     (''IntegrationID'', JText (rd_IntegrationID d)), (''ResourceID'', JText (rd_ResourceID d)),
     (''ResourceKind'', JText (rd_ResourceKind d)), (''CheckType'', JText (rd_CheckType d)),
     (''ReasonCode'', JText (rd_ReasonCode d)),
     (''RecoveryState'', JText (state_text (rd_RecoveryState d))),
     (''RecoveryMinOccurrences'', JInt (rd_RecoveryMinOccurrences d)),
     (''RecoveryFor'', JInt (rd_RecoveryFor d)),
     (''Conditions'', JArr (map (\<lambda>c. JObj [(''State'', JText (state_text (rcn_State c))),
        (''Severity'', JText (severity_text (rcn_Severity c))),
        (''MinOccurrences'', JInt (rcn_MinOccurrences c)), (''For'', JInt (rcn_For c))])
        (rd_Conditions d)))]"

definition ruleHash :: "runtime \<Rightarrow> string \<Rightarrow> string \<Rightarrow> rule_write \<Rightarrow> string" where
  "ruleHash rt operation ruleID input = adminops_Hash rt (JObj
     [(''Operation'', JText operation), (''ID'', JText ruleID),
      (''Definition'', rule_json (rw_Definition input)), (''Enabled'', JBool (rw_Enabled input)),
      (''Version'', JInt (rw_ExpectedVersion input))])"

text \<open>What \<open>mutate\<close> does after the idempotency check, up to and including the receipt.\<close>

definition applyRule :: "runtime \<Rightarrow> string \<Rightarrow> string \<Rightarrow> rule_write \<Rightarrow> string \<Rightarrow> time \<Rightarrow> receipt tx" where
  "applyRule rt operation ruleID input hash now =
     tx_bind (validateRuleReferences (rw_Definition input)) (\<lambda>_.
     tx_bind (if operation = ''create'' then createRule input now else replaceRule ruleID input now)
       (\<lambda>(target, version, before).
     tx_bind (tx_for (insertCondition target) (rd_Conditions (rw_Definition input))) (\<lambda>_.
     tx_bind (readRule target) (\<lambda>current.
     let receipt = \<lparr> rc_ID = target, rc_Version = version, rc_RequestID = rw_CorrelationID input,
           rc_Replayed = False, rc_AuditURL = '''' \<rparr> in
     tx_bind (audit_Append rt \<lparr> ae_ActorUserID = rw_ActorUserID input,
         ae_Action = ''incident_rule.'' @ operation, ae_TargetType = ''incident_rule'',
         ae_TargetID = target, ae_Result = ''succeeded'', ae_SourceAddress = rw_SourceAddress input,
         ae_CorrelationID = rw_CorrelationID input, ae_BeforeSummary = before,
         ae_AfterSummary = Some (ruleAuditSummary current), ae_OccurredAt = now \<rparr>) (\<lambda>_.
     tx_bind (Save (rw_ActorUserID input) ''incident_rule'' operation (rw_IdempotencyKey input) hash receipt)
       (\<lambda>_. tx_return receipt))))))"

definition rule_mutate :: "runtime \<Rightarrow> time \<Rightarrow> string \<Rightarrow> string \<Rightarrow> rule_write \<Rightarrow> receipt tx" where
  "rule_mutate rt clock operation ruleID input =
     (case ValidateRule (rw_Definition input) of
       Inl e \<Rightarrow> tx_fail e
     | Inr _ \<Rightarrow>
       let hash = ruleHash rt operation ruleID input in
       in_tx (
         tx_bind (Replay (rw_ActorUserID input) ''incident_rule'' operation (rw_IdempotencyKey input) hash)
           (\<lambda>found. case found of
              Some replay \<Rightarrow> tx_return (Commit replay)
            | None \<Rightarrow> tx_bind (applyRule rt operation ruleID input hash (truncate_us clock))
                (\<lambda>receipt. tx_return (Commit receipt)))))"

definition Rule_Create :: "runtime \<Rightarrow> time \<Rightarrow> rule_write \<Rightarrow> receipt tx" where
  "Rule_Create rt clock input = rule_mutate rt clock ''create'' '''' input"

definition Rule_Replace :: "runtime \<Rightarrow> time \<Rightarrow> string \<Rightarrow> rule_write \<Rightarrow> receipt tx" where
  "Rule_Replace rt clock ruleID input = rule_mutate rt clock ''replace'' ruleID input"

section \<open>Preview\<close>

record rule_preview_input =
  pi_IntegrationID :: string
  pi_ResourceID :: string
  pi_CheckType :: string
  pi_State :: state
  pi_ReasonCode :: string

record rule_candidate =
  pc_ID :: string
  pc_Name :: string
  pc_Priority :: int
  pc_Specificity :: int
  pc_Winner :: bool
  pc_Explanation :: string

record rule_preview =
  pv_Winner :: "rule_candidate option"
  pv_Candidates :: "rule_candidate list"
  pv_Explanation :: string

definition specificity :: "rule_row \<Rightarrow> int" where
  "specificity r = non_null (rl_integration_id r) + non_null (rl_resource_id r)
     + non_null (rl_resource_kind r) + non_null (rl_check_type r) + non_null (rl_reason_code r)"

definition preview_order :: "rule_row \<Rightarrow> bool \<times> int \<times> int \<times> string" where
  "preview_order r = (rl_resource_id r = None, - specificity r, - rl_priority r, rl_id r)"

definition preview_rows :: "rule_preview_input \<Rightarrow> tables \<Rightarrow> rule_row list" where
  "preview_rows input t = (case find_row rs_id (uuid_param (pi_ResourceID input)) (t_resources t) of
       None \<Rightarrow> []
     | Some res \<Rightarrow> if rs_integration_id res \<noteq> uuid_param (pi_IntegrationID input) then []
         else sort_key preview_order (filter (rule_matches (uuid_param (pi_IntegrationID input)) res
           (pi_CheckType input) (pi_ReasonCode input)) (t_rules t)))"

definition winnerText :: string where
  "winnerText = ''Selected by exact-resource, specificity, priority, then opaque ID precedence.''"

definition loserText :: string where
  "loserText = ''Matched, but ranked below the selected rule.''"

fun scan_candidates :: "rule_row list \<Rightarrow> rule_preview \<Rightarrow> rule_preview" where
  "scan_candidates [] result = result"
| "scan_candidates (r # rows) result =
     (let winner = (pv_Candidates result = []);
          item = \<lparr> pc_ID = rl_id r, pc_Name = rl_name r, pc_Priority = rl_priority r,
            pc_Specificity = specificity r, pc_Winner = winner,
            pc_Explanation = (if winner then winnerText else loserText) \<rparr>
      in scan_candidates rows (result\<lparr>
           pv_Winner := (if winner then Some item else pv_Winner result),
           pv_Candidates := pv_Candidates result @ [item]\<rparr>))"

definition Preview :: "runtime \<Rightarrow> rule_preview_input \<Rightarrow> rule_preview tx" where
  "Preview rt input =
     (if \<not> uuidPattern (pi_IntegrationID input) \<or> \<not> uuidPattern (pi_ResourceID input)
        \<or> \<not> identifierPattern (pi_CheckType input) \<or> \<not> validRuleState (pi_State input)
        \<or> pi_ReasonCode input \<noteq> '''' \<and> \<not> identifierPattern (pi_ReasonCode input)
      then tx_fail ErrRuleScope
      else tx_bind (tx_query (preview_rows input)) (\<lambda>rows.
        let result = scan_candidates rows \<lparr> pv_Winner = None, pv_Candidates = [], pv_Explanation = '''' \<rparr>
        in tx_return (result\<lparr>pv_Explanation := (case pv_Winner result of
             None \<Rightarrow> ''No enabled incident rule matches this normalized signal.''
           | Some c \<Rightarrow> rt_Quote rt (pc_Name c) @ '' wins among '' @ decimal (length (pv_Candidates result))
               @ '' matching rule(s).'')\<rparr>)))"

section \<open>Choosing the rule\<close>

lemma matchingRule_Inr:
  "matchingRule sig w = (Inr (r, n), w') \<longleftrightarrow> \<not> faulty w \<and> w' = tick w \<and>
     (\<exists>res row. find_row rs_id (s_ResourceID sig) (t_resources (w_tables w)) = Some res
        \<and> winning_rule (w_tables w) sig res = Some row
        \<and> r = rule_of (w_tables w) (s_State sig) row \<and> n = rs_display_name res)"
  by (auto simp: matchingRule_def tx_row_Inr bind_eq_Some_conv)

lemma winning_rule_least:
  assumes "winning_rule t sig res = Some row"
  shows "row \<in> set (t_rules t)
    \<and> rule_matches (s_IntegrationID sig) res (s_CheckType sig) (s_ReasonCode sig) row
    \<and> (\<forall>x \<in> set (t_rules t). rule_matches (s_IntegrationID sig) res (s_CheckType sig) (s_ReasonCode sig) x
          \<longrightarrow> rule_precedence row \<le> rule_precedence x)"
  using assms first_by_Some_in [of rule_precedence _ row] first_by_least [of rule_precedence _ row]
  unfolding winning_rule_def by fastforce

lemma winning_rule_None:
  "winning_rule t sig res = None \<longleftrightarrow>
     (\<forall>x \<in> set (t_rules t). \<not> rule_matches (s_IntegrationID sig) res (s_CheckType sig) (s_ReasonCode sig) x)"
  by (simp add: winning_rule_def filter_empty_conv)

text \<open>Among rules the preview ranks, counting the resource field changes nothing: the
  leading component already separates the two groups.\<close>

lemma preview_order_precedence:
  "(preview_order x \<le> preview_order y) = (rule_precedence x \<le> rule_precedence y)"
  by (cases "rl_resource_id x"; cases "rl_resource_id y")
    (auto simp: preview_order_def rule_precedence_def specificity_def non_null_def less_eq_prod_def)

lemma scan_candidates_winner:
  "pv_Candidates result \<noteq> [] \<Longrightarrow> pv_Winner (scan_candidates rows result) = pv_Winner result"
  by (induction rows arbitrary: result) (simp_all add: Let_def)

lemma scan_candidates_rows:
  "map pc_ID (pv_Candidates (scan_candidates rows result)) =
     map pc_ID (pv_Candidates result) @ map rl_id rows"
  by (induction rows arbitrary: result) (simp_all add: Let_def)

lemma Preview_winner:
  assumes "Preview rt input w = (Inr p, w')"
  shows "(case preview_rows input (w_tables w) of
        [] \<Rightarrow> pv_Winner p = None
      | r # _ \<Rightarrow> \<exists>c. pv_Winner p = Some c \<and> pc_ID c = rl_id r \<and> pc_Name c = rl_name r)
    \<and> map pc_ID (pv_Candidates p) = map rl_id (preview_rows input (w_tables w))"
proof (cases "preview_rows input (w_tables w)")
  case Nil
  with assms show ?thesis
    by (auto simp: Preview_def tx_success Let_def split: if_splits)
next
  case (Cons r rows)
  with assms show ?thesis
    by (auto simp: Preview_def tx_success Let_def scan_candidates_winner scan_candidates_rows
        split: if_splits)
qed

definition sampleResource :: resource_row where
  "sampleResource = \<lparr> rs_id = ''11111111-1111-4111-8111-111111111111'',
     rs_integration_id = ''22222222-2222-4222-8222-222222222222'',
     rs_external_id = ''node-1'', rs_kind = ''host'', rs_display_name = ''node-1'', rs_attributes = ''{}'',
     rs_source_url = None, rs_first_seen_at = 1000, rs_last_seen_at = 1000 \<rparr>"

definition sampleRule :: rule_row where
  "sampleRule = (new_rule_row ''20000000-0000-4000-8000-000000000001'' 0)\<lparr>rl_name := ''Default''\<rparr>"

definition sampleHostRule :: rule_row where
  "sampleHostRule = (new_rule_row ''20000000-0000-4000-8000-000000000002'' 0)
     \<lparr>rl_name := ''Hosts'', rl_resource_kind := Some ''host''\<rparr>"

definition sampleCondition :: condition_row where
  "sampleCondition = \<lparr> cd_rule_id = ''20000000-0000-4000-8000-000000000002'', cd_state = Critical,
     cd_severity = SeverityCritical, cd_min_occurrences = 1, cd_for_seconds = 0 \<rparr>"

definition sampleRuleTables :: tables where
  "sampleRuleTables = empty_tables\<lparr> t_integrations := [default_integration ''22222222-2222-4222-8222-222222222222''],
     t_resources := [sampleResource], t_rules := [sampleRule, sampleHostRule],
     t_conditions := [sampleCondition] \<rparr>"

definition sampleUuid :: "nat \<Rightarrow> string" where
  "sampleUuid n = replicate n CHR ''0'' @ ''1''"

definition sampleRuleWorld :: world where
  "sampleRuleWorld = \<lparr> w_tables = sampleRuleTables, w_faults = [], w_uuid = sampleUuid, w_next = 0,
     w_clock = 1000000, w_hub = NewHub 4 \<rparr>"

definition sampleEvaluated :: signal where
  "sampleEvaluated = \<lparr> s_ID = ''40000000-0000-4000-8000-000000000001'', s_Kind = ''observation'',
     s_IntegrationID = ''22222222-2222-4222-8222-222222222222'',
     s_ResourceID = ''11111111-1111-4111-8111-111111111111'', s_ObservationID = '''',
     s_CheckType = ''host.up'', s_State = Critical, s_Reason = ''down'', s_ReasonCode = '''',
     s_OccurredAt = 1000000, s_CreatedAt = 1000000, s_Attempts = 1 \<rparr>"

definition samplePreview :: rule_preview_input where
  "samplePreview = \<lparr> pi_IntegrationID = ''22222222-2222-4222-8222-222222222222'',
     pi_ResourceID = ''11111111-1111-4111-8111-111111111111'', pi_CheckType = ''host.up'',
     pi_State = Critical, pi_ReasonCode = '''' \<rparr>"

definition sampleRuntime :: runtime where
  "sampleRuntime = \<lparr> rt_json = (\<lambda>v. ''{}''), rt_sha256 = (\<lambda>s. s), rt_ParseIP = (\<lambda>s. True),
     rt_Quote = (\<lambda>s. s) \<rparr>"

text \<open>
  What the documentation promises about the choice of a rule, in its own terms. A rule applies to a
  signal when it is enabled and every field it sets has the value of the signal, or of the resource
  of the signal; a signal without a reason code has no value for that field. A rule for the very
  resource outranks one for many; then the rule that sets more fields, then the one with the higher
  priority, then the one with the smaller identifier.
\<close>

definition sets_only :: "string option \<Rightarrow> string set \<Rightarrow> bool" where
  "sets_only column allowed \<longleftrightarrow> set_option column \<subseteq> allowed"

definition rule_applies :: "signal \<Rightarrow> resource_row \<Rightarrow> rule_row \<Rightarrow> bool" where
  "rule_applies sig res r \<longleftrightarrow> rl_enabled r
     \<and> sets_only (rl_integration_id r) {s_IntegrationID sig}
     \<and> sets_only (rl_resource_id r) {rs_id res}
     \<and> sets_only (rl_resource_kind r) {rs_kind res}
     \<and> sets_only (rl_check_type r) {s_CheckType sig}
     \<and> sets_only (rl_reason_code r) ({s_ReasonCode sig} - {''''})"

definition set_fields :: "rule_row \<Rightarrow> nat" where
  "set_fields r = length (filter (\<lambda>column. column \<noteq> None)
     [rl_integration_id r, rl_check_type r, rl_resource_kind r, rl_reason_code r])"

definition outranks :: "rule_row \<Rightarrow> rule_row \<Rightarrow> bool" where
  "outranks x y \<longleftrightarrow>
     (if (rl_resource_id x \<noteq> None) \<noteq> (rl_resource_id y \<noteq> None) then rl_resource_id x \<noteq> None
      else if set_fields x \<noteq> set_fields y then set_fields y < set_fields x
      else if rl_priority x \<noteq> rl_priority y then rl_priority y < rl_priority x
      else rl_id x < rl_id y)"

lemma rule_applies_matches:
  "rule_applies sig res r \<longleftrightarrow> rule_matches (s_IntegrationID sig) res (s_CheckType sig) (s_ReasonCode sig) r"
proof -
  have "sets_only column {v} \<longleftrightarrow> admits column v" for column v
    by (cases column) (auto simp: sets_only_def admits_def)
  moreover have "sets_only column ({v} - {''''}) \<longleftrightarrow> column = None \<or> column = nullif v" for column v
    by (cases column) (auto simp: sets_only_def nullif_def)
  ultimately show ?thesis by (simp add: rule_applies_def rule_matches_def)
qed

lemma outranks_precedence:
  assumes "rule_precedence x \<le> rule_precedence y" and "rl_id x \<noteq> rl_id y"
  shows "outranks x y"
proof -
  have fields: "int (set_fields r) = non_null (rl_integration_id r) + non_null (rl_check_type r)
      + non_null (rl_resource_kind r) + non_null (rl_reason_code r)" for r
    by (simp add: set_fields_def non_null_def split: option.split)
  have "rule_precedence r = (rl_resource_id r = None, - int (set_fields r), - rl_priority r, rl_id r)" for r
    by (simp add: rule_precedence_def fields)
  with assms show ?thesis by (auto simp: outranks_def split: if_splits)
qed

text \<open>
  C29. The evaluator applies to a signal the rule the documentation promises: a rule that applies
  to it and that outranks every other rule that applies, with the condition of that rule for the
  state of the signal. It reports that no rule applies exactly when none does (or when the resource
  of the signal is gone).
\<close>

theorem matching_rule_precedence:
  assumes "\<not> faulty w"
  shows "case find_row rs_id (s_ResourceID sig) (t_resources (w_tables w)) of
      None \<Rightarrow> fst (matchingRule sig w) = Inl NoRows
    | Some res \<Rightarrow>
        (fst (matchingRule sig w) = Inl NoRows \<longleftrightarrow> (\<forall>x \<in> set (t_rules (w_tables w)). \<not> rule_applies sig res x))
        \<and> (\<forall>e. fst (matchingRule sig w) = Inl e \<longrightarrow> e = NoRows)
        \<and> (\<forall>r name. fst (matchingRule sig w) = Inr (r, name) \<longrightarrow> name = rs_display_name res
             \<and> (\<exists>row \<in> set (t_rules (w_tables w)). r = rule_of (w_tables w) (s_State sig) row
                  \<and> rule_applies sig res row
                  \<and> (\<forall>x \<in> set (t_rules (w_tables w)).
                       rule_applies sig res x \<and> rl_id x \<noteq> rl_id row \<longrightarrow> outranks row x)))"
proof (cases "find_row rs_id (s_ResourceID sig) (t_resources (w_tables w))")
  case None
  with assms show ?thesis by (simp add: matchingRule_def tx_row_def tx_stmt_def)
next
  case res: (Some res)
  show ?thesis
  proof (cases "winning_rule (w_tables w) sig res")
    case None
    with assms res have "fst (matchingRule sig w) = Inl NoRows"
      by (simp add: matchingRule_def tx_row_def tx_stmt_def)
    with None res show ?thesis by (simp add: winning_rule_None rule_applies_matches)
  next
    case (Some row)
    with assms res have "fst (matchingRule sig w) =
        Inr (rule_of (w_tables w) (s_State sig) row, rs_display_name res)"
      by (simp add: matchingRule_def tx_row_def tx_stmt_def)
    moreover from winning_rule_least [OF Some] have "row \<in> set (t_rules (w_tables w))" "rule_applies sig res row"
      "\<forall>x \<in> set (t_rules (w_tables w)). rule_applies sig res x \<and> rl_id x \<noteq> rl_id row \<longrightarrow> outranks row x"
      by (auto simp: rule_applies_matches intro: outranks_precedence)
    ultimately show ?thesis using res by auto
  qed
qed

theorem matching_rule_precedence_witness:
  "fst (matchingRule sampleEvaluated sampleRuleWorld) =
     Inr (rule_of sampleRuleTables Critical sampleHostRule, ''node-1'')
   \<and> rule_applies sampleEvaluated sampleResource sampleRule
   \<and> rule_applies sampleEvaluated sampleResource sampleHostRule
   \<and> outranks sampleHostRule sampleRule"
proof -
  have run: "fst (matchingRule sampleEvaluated sampleRuleWorld) =
     Inr (rule_of sampleRuleTables Critical sampleHostRule, ''node-1'')"
    by code_simp
  have res: "find_row rs_id (s_ResourceID sampleEvaluated) (t_resources (w_tables sampleRuleWorld))
      = Some sampleResource"
    by code_simp
  have nf: "\<not> faulty sampleRuleWorld" by code_simp
  have rules: "t_rules (w_tables sampleRuleWorld) = [sampleRule, sampleHostRule]"
    and other: "rule_of (w_tables sampleRuleWorld) (s_State sampleEvaluated) sampleRule
      \<noteq> rule_of sampleRuleTables Critical sampleHostRule" "rl_id sampleRule \<noteq> rl_id sampleHostRule"
    by code_simp+
  have both: "rule_applies sampleEvaluated sampleResource sampleRule" "rule_applies sampleEvaluated sampleResource sampleHostRule"
    by (simp_all add: rule_applies_matches) code_simp+
  from matching_rule_precedence [OF nf, of sampleEvaluated, unfolded res option.case] run rules other both show ?thesis
    by auto
qed

text \<open>
  C30. The preview an operator sees tells the truth about the evaluator: for a signal with
  the previewed fields, whose integration is that of its resource, the rule the preview
  names as the winner is the rule the evaluator selects, and when the preview names none
  the evaluator finds none.
\<close>

theorem preview_winner_is_evaluated:
  assumes "Preview rt input w = (Inr p, w1)" and "w_faults w = []"
    and "find_row rs_id (s_ResourceID sig) (t_resources (w_tables w)) = Some res"
    and "rs_integration_id res = s_IntegrationID sig"
    and "s_IntegrationID sig = uuid_param (pi_IntegrationID input)"
    and "s_ResourceID sig = uuid_param (pi_ResourceID input)"
    and "s_CheckType sig = pi_CheckType input" and "s_ReasonCode sig = pi_ReasonCode input"
  shows "case pv_Winner p of
      None \<Rightarrow> fst (matchingRule sig w) = Inl NoRows
    | Some c \<Rightarrow> \<exists>r name. fst (matchingRule sig w) = Inr (r, name)
        \<and> ru_ID r = pc_ID c \<and> ru_Name r = pc_Name c"
proof -
  let ?hits = "filter (rule_matches (s_IntegrationID sig) res (s_CheckType sig) (s_ReasonCode sig))
      (t_rules (w_tables w))"
  have rows: "preview_rows input (w_tables w) = sort_key rule_precedence ?hits"
    using assms(3-8) sort_key_cong_on [of ?hits preview_order rule_precedence]
    by (simp add: preview_rows_def preview_order_precedence)
  have run: "fst (matchingRule sig w) = (case winning_rule (w_tables w) sig res of
      None \<Rightarrow> Inl NoRows
    | Some row \<Rightarrow> Inr (rule_of (w_tables w) (s_State sig) row, rs_display_name res))"
    using assms(2,3) by (simp add: matchingRule_def tx_row_run split: option.splits)
  have win: "winning_rule (w_tables w) sig res =
      (case preview_rows input (w_tables w) of [] \<Rightarrow> None | r # _ \<Rightarrow> Some r)"
    by (simp add: winning_rule_def first_by_def rows)
  show ?thesis
    using Preview_winner [OF assms(1)] run win
    by (cases "preview_rows input (w_tables w)") (auto simp: rule_of_def)
qed

theorem preview_winner_is_evaluated_witness:
  "\<exists>p w1 c r name. Preview sampleRuntime samplePreview sampleRuleWorld = (Inr p, w1)
    \<and> pv_Winner p = Some c \<and> fst (matchingRule sampleEvaluated sampleRuleWorld) = Inr (r, name)
    \<and> ru_ID r = pc_ID c"
proof -
  obtain p w1 where run: "Preview sampleRuntime samplePreview sampleRuleWorld = (Inr p, w1)"
    and win: "pv_Winner p \<noteq> None"
  proof -
    have "case Preview sampleRuntime samplePreview sampleRuleWorld of
        (Inr p, w1) \<Rightarrow> pv_Winner p \<noteq> None | _ \<Rightarrow> False" by code_simp
    then show thesis by (auto split: prod.splits sum.splits intro: that)
  qed
  have res: "find_row rs_id (s_ResourceID sampleEvaluated) (t_resources (w_tables sampleRuleWorld))
      = Some sampleResource" by code_simp
  have keys: "w_faults sampleRuleWorld = []"
    "rs_integration_id sampleResource = s_IntegrationID sampleEvaluated"
    "s_IntegrationID sampleEvaluated = uuid_param (pi_IntegrationID samplePreview)"
    "s_ResourceID sampleEvaluated = uuid_param (pi_ResourceID samplePreview)"
    "s_CheckType sampleEvaluated = pi_CheckType samplePreview"
    "s_ReasonCode sampleEvaluated = pi_ReasonCode samplePreview"
    by code_simp+
  show ?thesis
    using preview_winner_is_evaluated [OF run keys(1) res keys(2-6)] run win by auto
qed

section \<open>Accepted rules satisfy the table constraints\<close>

text \<open>The \<open>CHECK\<close> constraints of \<open>incident_rules\<close> and \<open>incident_rule_conditions\<close>.\<close>

definition optional :: "('a \<Rightarrow> bool) \<Rightarrow> 'a option \<Rightarrow> bool" where
  "optional p x = (case x of None \<Rightarrow> True | Some v \<Rightarrow> p v)"

definition rule_row_ok :: "rule_row \<Rightarrow> bool" where
  "rule_row_ok r \<longleftrightarrow>
     1 \<le> RuneCountInString (rl_name r) \<and> RuneCountInString (rl_name r) \<le> 128
     \<and> 0 \<le> rl_priority r \<and> rl_priority r \<le> 10000
     \<and> optional identifierPattern (rl_resource_kind r) \<and> optional identifierPattern (rl_check_type r)
     \<and> optional identifierPattern (rl_reason_code r) \<and> validRuleState (rl_recovery_state r)
     \<and> 1 \<le> rl_recovery_min_occurrences r \<and> rl_recovery_min_occurrences r \<le> 1000
     \<and> 0 \<le> rl_recovery_for_seconds r \<and> rl_recovery_for_seconds r \<le> 2592000
     \<and> 0 < rl_version r"

definition condition_row_ok :: "condition_row \<Rightarrow> bool" where
  "condition_row_ok c \<longleftrightarrow> validConditionState (cd_state c)
     \<and> (cd_severity c = SeverityWarning \<or> cd_severity c = SeverityCritical)
     \<and> 1 \<le> cd_min_occurrences c \<and> cd_min_occurrences c \<le> 1000
     \<and> 0 \<le> cd_for_seconds c \<and> cd_for_seconds c \<le> 2592000"

definition rules_wf :: "tables \<Rightarrow> bool" where
  "rules_wf t \<longleftrightarrow> distinct (map rl_id (t_rules t)) \<and> list_all rule_row_ok (t_rules t)
     \<and> distinct (map condition_key (t_conditions t)) \<and> list_all condition_row_ok (t_conditions t)"

lemma whole_seconds_bounds:
  "0 \<le> d \<Longrightarrow> d \<le> thirty_days \<Longrightarrow> 0 \<le> whole_seconds d \<and> whole_seconds d \<le> 2592000"
proof -
  assume d: "0 \<le> d" "d \<le> thirty_days"
  then have "whole_seconds d = d div second"
    by (simp add: whole_seconds_def sdiv_nonneg second_def)
  moreover have "d div second \<le> thirty_days div second"
    using d(2) by (rule zdiv_mono1) (simp add: second_def)
  ultimately show ?thesis
    using d(1) by (simp add: thirty_days_def second_def pos_imp_zdiv_nonneg_iff)
qed

lemma RuneCountInString_nonempty: "s \<noteq> '''' \<Longrightarrow> 1 \<le> RuneCountInString s"
  by (cases s) (simp_all add: RuneCountInString_def)

lemma checkConditions_sound:
  "checkConditions seen cs \<Longrightarrow> list_all validCondition cs \<and> distinct (map rcn_State cs)
     \<and> set seen \<inter> rcn_State ` set cs = {}"
  by (induction cs arbitrary: seen) fastforce+

lemma ValidateRule_Inr:
  "ValidateRule d = Inr u \<Longrightarrow> rd_Name d \<noteq> '''' \<and> RuneCountInString (rd_Name d) \<le> 128
     \<and> 0 \<le> rd_Priority d \<and> rd_Priority d \<le> 10000
     \<and> (\<forall>v \<in> {rd_ResourceKind d, rd_CheckType d, rd_ReasonCode d}. v = '''' \<or> identifierPattern v)
     \<and> validRuleState (rd_RecoveryState d)
     \<and> 1 \<le> rd_RecoveryMinOccurrences d \<and> rd_RecoveryMinOccurrences d \<le> 1000
     \<and> 0 \<le> rd_RecoveryFor d \<and> rd_RecoveryFor d \<le> thirty_days
     \<and> list_all validCondition (rd_Conditions d) \<and> distinct (map rcn_State (rd_Conditions d))"
  by (auto simp: ValidateRule_def not_less dest: checkConditions_sound split: if_splits)

lemma set_rule_columns_ok:
  assumes "ValidateRule d = Inr u" and "0 < rl_version r"
  shows "rule_row_ok (set_rule_columns d enabled r)"
  using ValidateRule_Inr [OF assms(1)] assms(2) whole_seconds_bounds [of "rd_RecoveryFor d"]
    RuneCountInString_nonempty [of "rd_Name d"]
  by (auto simp: rule_row_ok_def set_rule_columns_def optional_def nullif_def)

lemma condition_row_of_ok: "validCondition c \<Longrightarrow> condition_row_ok (condition_row_of i c)"
  using whole_seconds_bounds [of "rcn_For c"]
  by (auto simp: validCondition_def condition_row_ok_def condition_row_of_def)

lemma preserves_readRule: "preserves P (readRule i)"
  by (rule preserves_of_keeps [of "\<lambda>t. t"]) (auto simp: readRule_def intro!: frame_intros)

lemma set_rule_columns_simps [simp]:
  "rl_id (set_rule_columns d e r) = rl_id r" "rl_version (set_rule_columns d e r) = rl_version r"
  "rl_created_at (set_rule_columns d e r) = rl_created_at r"
  "rl_updated_at (set_rule_columns d e r) = rl_updated_at r"
  by (simp_all add: set_rule_columns_def)

lemma new_rule_row_simps [simp]:
  "rl_id (new_rule_row i now) = i" "rl_version (new_rule_row i now) = 1"
  "rl_created_at (new_rule_row i now) = now" "rl_updated_at (new_rule_row i now) = now"
  by (simp_all add: new_rule_row_def)

lemma rules_wf_createRule:
  "ValidateRule (rw_Definition input) = Inr u \<Longrightarrow> preserves rules_wf (createRule input now)"
  unfolding createRule_def preserves_def Let_def
  by (rule pres.insert)
    (auto simp: rules_wf_def set_rule_columns_ok split: if_splits)

lemma rules_wf_replaceRule:
  assumes "ValidateRule (rw_Definition input) = Inr u"
  shows "preserves rules_wf (replaceRule i input now)"
proof -
  have upd: "rules_wf (t\<lparr>t_rules := update_where p (\<lambda>r. (set_rule_columns (rw_Definition input) e r)
      \<lparr>rl_version := rl_version r + 1, rl_updated_at := now\<rparr>) (t_rules t)\<rparr>)" if "rules_wf t" for t p e
  proof -
    have "rule_row_ok ((set_rule_columns (rw_Definition input) e r)
        \<lparr>rl_version := rl_version r + 1, rl_updated_at := now\<rparr>)" if "rule_row_ok r" for r
      using set_rule_columns_ok [OF assms, of "r" e] that by (simp add: rule_row_ok_def)
    with \<open>rules_wf t\<close> show ?thesis
      by (auto simp: rules_wf_def list_all_iff set_update_where map_update_where)
  qed
  have del: "rules_wf (t\<lparr>t_conditions := filter q (t_conditions t)\<rparr>)" if "rules_wf t" for t q
    using that by (auto simp: rules_wf_def list_all_iff distinct_map_filter)
  show ?thesis
    unfolding replaceRule_def Let_def
    by (intro preserves_intros preserves_readRule) (auto intro: upd del)
qed

lemma rules_wf_insertCondition:
  "validCondition c \<Longrightarrow> preserves rules_wf (insertCondition i c)"
  unfolding insertCondition_def preserves_def
  by (rule pres.insert) (auto simp: rules_wf_def condition_row_of_ok split: if_splits)

lemma keeps_Save: "(\<And>t x. f (t\<lparr>t_admin_keys := x\<rparr>) = f t) \<Longrightarrow> keeps f (Save a ty op key h r)"
  unfolding Save_def Let_def admin_put_def
  by (intro frame_intros) (auto split: if_splits prod.splits)

lemma keeps_Replay: "keeps f (Replay a ty op key h)"
  unfolding Replay_def by (intro frame_intros)

lemma keeps_validateRuleReferences: "keeps f (validateRuleReferences d)"
  unfolding validateRuleReferences_def by (intro frame_intros)

text \<open>The part of the tables the rule constraints speak of.\<close>

definition rule_part :: "tables \<Rightarrow> rule_row list \<times> condition_row list" where
  "rule_part t = (t_rules t, t_conditions t)"

lemma rules_wf_part: "rule_part a = rule_part b \<Longrightarrow> rules_wf a = rules_wf b"
  by (simp add: rule_part_def rules_wf_def)

lemma rules_wf_of_keeps: "keeps rule_part m \<Longrightarrow> preserves rules_wf m"
  by (rule preserves_of_keeps [OF rules_wf_part])

lemma rules_wf_applyRule:
  assumes "ValidateRule (rw_Definition input) = Inr u"
  shows "preserves rules_wf (applyRule rt operation ruleID input hash now)"
proof -
  have conds: "validCondition c" if "c \<in> set (rd_Conditions (rw_Definition input))" for c
    using ValidateRule_Inr [OF assms] that by (simp add: list_all_iff)
  show ?thesis
    unfolding applyRule_def Let_def
    by (intro preserves_intros rules_wf_createRule [OF assms] rules_wf_replaceRule [OF assms]
        preserves_readRule rules_wf_insertCondition conds
        rules_wf_of_keeps [OF keeps_validateRuleReferences]
        rules_wf_of_keeps [OF audit_Append_only_audit]
        rules_wf_of_keeps [OF keeps_Save]) (auto simp: rule_part_def)
qed

text \<open>
  C39. Whatever an administrator submits to create or replace a rule, and whichever
  statements of the transaction fail, the rule tables keep the constraints the migrations
  declare: bounded names, priorities, occurrences and durations, well-formed match fields,
  known states and severities, and unique rule and condition keys.
\<close>

theorem rule_mutation_keeps_constraints:
  assumes "rules_wf (w_tables w)"
  shows "rules_wf (w_tables (snd (rule_mutate rt clock operation ruleID input w)))"
proof (cases "ValidateRule (rw_Definition input)")
  case (Inl e)
  with assms show ?thesis by (simp add: rule_mutate_def)
next
  case (Inr u)
  have "preserves rules_wf (rule_mutate rt clock operation ruleID input)"
    unfolding rule_mutate_def Let_def Inr
    by (auto intro!: preserves_intros rules_wf_applyRule [OF Inr]
        rules_wf_of_keeps [OF keeps_Replay])
  with assms show ?thesis by (rule preserves_snd [rotated])
qed

definition sampleDefinition :: rule_definition where
  "sampleDefinition = \<lparr> rd_Name = ''Nodes'', rd_Priority = 50, rd_IntegrationID = '''',
     rd_ResourceID = '''', rd_ResourceKind = '''',
     rd_CheckType = ''host.up'', rd_ReasonCode = '''', rd_RecoveryState = Healthy,
     rd_RecoveryMinOccurrences = 1, rd_RecoveryFor = 0,
     rd_Conditions = [\<lparr> rcn_State = Critical, rcn_Severity = SeverityCritical,
       rcn_MinOccurrences = 1, rcn_For = 90 * second \<rparr>] \<rparr>"

definition sampleWrite :: rule_write where
  "sampleWrite = \<lparr> rw_Definition = sampleDefinition, rw_Enabled = True, rw_ExpectedVersion = 0,
     rw_IdempotencyKey = ''k1'', rw_ActorUserID = ''a1'',
     rw_ActorName = ''Ada'', rw_SourceAddress = '''', rw_CorrelationID = ''r1'' \<rparr>"

lemma sample_rule_valid: "ValidateRule sampleDefinition = Inr ()"
  by code_simp

lemmas rule_eval = rule_mutate_def tx_eval applyRule_def Replay_def validateRuleReferences_def
  createRule_def insertCondition_def readRule_def audit_Append_def Save_def admin_lookup_def
  admin_put_def uuid_param_def lower_hex_def byte_def new_rule_row_def set_rule_columns_def
  condition_row_of_def condition_key_def rule_view_of_def condition_views_def validAuditEvent_def
  encodeSummary_def truncate_us_def microsecond_def targetTypePattern_def lower_letter_def
  identifier_char_def digit_def TrimSpace_def is_space_def MaxSummaryBytes_def

lemmas sample_rule_eval = sampleWrite_def sample_rule_valid [unfolded sampleDefinition_def]
  sampleDefinition_def sampleRuleWorld_def sampleRuleTables_def sampleUuid_def empty_tables_def
  sampleRule_def sampleHostRule_def sampleCondition_def sampleRuntime_def

text \<open>A run of \<open>Create\<close> that commits.\<close>

lemma sample_create:
  "\<exists>rc w'. rule_mutate sampleRuntime 5000 ''create'' '''' sampleWrite sampleRuleWorld = (Inr rc, w')
    \<and> \<not> rc_Replayed rc \<and> rc_ID rc = ''1'' \<and> w_faults w' = [] \<and> length (t_rules (w_tables w')) = 3"
  by (simp add: rule_eval sample_rule_eval cong: tx_frozen)

theorem rule_mutation_keeps_constraints_witness:
  "\<exists>rc w'. rule_mutate sampleRuntime 5000 ''create'' '''' sampleWrite sampleRuleWorld = (Inr rc, w')
    \<and> rules_wf (w_tables w') \<and> length (t_rules (w_tables w')) = 3"
proof -
  have "rules_wf (w_tables sampleRuleWorld)" by code_simp
  then show ?thesis
    using sample_create rule_mutation_keeps_constraints
      [of sampleRuleWorld sampleRuntime 5000 "''create''" "''''" sampleWrite] by auto
qed

section \<open>What a mutation stores\<close>

lemma readRule_Inr:
  "readRule i w = (Inr v, w') \<longleftrightarrow> \<not> faulty w \<and> \<not> faulty (tick w) \<and> w' = tick (tick w)
     \<and> (\<exists>r. find_row rl_id (uuid_param i) (t_rules (w_tables w)) = Some r
          \<and> v = rule_view_of r (condition_views (uuid_param i) (t_conditions (w_tables w))))"
  by (auto simp: readRule_def tx_success split: option.splits)

lemma insertConditions_Inr:
  "tx_for (insertCondition i) cs w = (Inr u, w') \<Longrightarrow>
     w_tables w' = (w_tables w)\<lparr>t_conditions := t_conditions (w_tables w) @ map (condition_row_of i) cs\<rparr>
     \<and> w_uuid w' = w_uuid w"
proof (induction cs arbitrary: w)
  case Nil
  then show ?case by simp
next
  case (Cons c cs)
  from Cons.prems obtain w1 where one: "insertCondition i c w = (Inr (), w1)"
    and rest: "tx_for (insertCondition i) cs w1 = (Inr u, w')"
    by (auto simp: tx_bind_Inr)
  from one have "w_tables w1 = (w_tables w)\<lparr>t_conditions := t_conditions (w_tables w) @ [condition_row_of i c]\<rparr>"
    and "w_uuid w1 = w_uuid w"
    by (auto simp: insertCondition_def tx_insert_Inr split: if_splits)
  with Cons.IH [OF rest] show ?case by simp
qed

lemma createRule_Inr:
  "createRule input now w = (Inr (u, v, b), w') \<Longrightarrow>
     u = w_uuid w (w_next w) \<and> v = 1 \<and> b = None \<and> u \<notin> rl_id ` set (t_rules (w_tables w))
     \<and> w_tables w' = (w_tables w)\<lparr>t_rules := t_rules (w_tables w)
          @ [set_rule_columns (rw_Definition input) (rw_Enabled input) (new_rule_row u now)]\<rparr>"
  by (auto simp: createRule_def tx_insert_Inr Let_def split: if_splits)

lemma validateRuleReferences_Inr:
  assumes "validateRuleReferences d w = (Inr u, w')"
  shows "w_tables w' = w_tables w \<and> w_uuid w' = w_uuid w"
proof -
  have "w_tables w' = w_tables w"
    using keepsD [OF keeps_validateRuleReferences [of "\<lambda>t. t"] assms] by simp
  moreover have "w_uuid w' = w_uuid w"
    using assms
    by (auto simp: validateRuleReferences_def tx_bind_def tx_catch_def tx_row_def tx_query_def tx_stmt_def
        split: if_splits prod.splits sum.splits option.splits)
  ultimately show ?thesis ..
qed

text \<open>The tables a committed \<open>create\<close> leaves: one rule, its conditions, one audit row, one
  receipt.\<close>

lemma applyRule_create_Inr:
  assumes "applyRule rt ''create'' i input hash now w = (Inr rc, w')"
  obtains u n a where
    "u = w_uuid w n" "u \<notin> rl_id ` set (t_rules (w_tables w))"
    "rc = \<lparr> rc_ID = u, rc_Version = 1, rc_RequestID = rw_CorrelationID input, rc_Replayed = False,
        rc_AuditURL = '''' \<rparr>"
    "t_rules (w_tables w') = t_rules (w_tables w)
       @ [set_rule_columns (rw_Definition input) (rw_Enabled input) (new_rule_row u now)]"
    "t_conditions (w_tables w') = t_conditions (w_tables w)
       @ map (condition_row_of u) (rd_Conditions (rw_Definition input))"
    "t_audit (w_tables w') = t_audit (w_tables w) @ [a]"
proof -
  from assms obtain w1 u v b w2 w3 view w4 e w5 where
    refs: "validateRuleReferences (rw_Definition input) w = (Inr (), w1)"
    and create: "createRule input now w1 = (Inr (u, v, b), w2)"
    and conds: "tx_for (insertCondition u) (rd_Conditions (rw_Definition input)) w2 = (Inr (), w3)"
    and read: "readRule u w3 = (Inr view, w4)"
    and audit: "audit_Append rt e w4 = (Inr (), w5)"
    and rc: "rc = \<lparr> rc_ID = u, rc_Version = v, rc_RequestID = rw_CorrelationID input,
        rc_Replayed = False, rc_AuditURL = '''' \<rparr>"
    and save: "Save (rw_ActorUserID input) ''incident_rule'' ''create'' (rw_IdempotencyKey input) hash rc w5 = (Inr (), w')"
    by (auto simp: applyRule_def Let_def tx_bind_Inr)
  have w1: "w_tables w1 = w_tables w" "w_uuid w1 = w_uuid w"
    using validateRuleReferences_Inr [OF refs] by auto
  have w2: "u = w_uuid w (w_next w1)" "u \<notin> rl_id ` set (t_rules (w_tables w))" "v = 1"
    "w_tables w2 = (w_tables w)\<lparr>t_rules := t_rules (w_tables w)
       @ [set_rule_columns (rw_Definition input) (rw_Enabled input) (new_rule_row u now)]\<rparr>"
    using createRule_Inr [OF create] by (auto simp: w1)
  have w4: "w_tables w4 = (w_tables w2)\<lparr>t_conditions := t_conditions (w_tables w2)
       @ map (condition_row_of u) (rd_Conditions (rw_Definition input))\<rparr>"
    using insertConditions_Inr [OF conds] read by (simp add: readRule_Inr)
  obtain a where w5: "w_tables w5 = (w_tables w4)\<lparr>t_audit := t_audit (w_tables w4) @ [a]\<rparr>"
    using audit_Append_Inr [OF audit] by blast
  have w': "t_rules (w_tables w') = t_rules (w_tables w5)"
    "t_conditions (w_tables w') = t_conditions (w_tables w5)" "t_audit (w_tables w') = t_audit (w_tables w5)"
    using Save_Inr [OF save] by (auto simp: admin_put_def)
  show thesis
    using that [of u "w_next w1" a] w2 w4 w5 w' rc by simp
qed

definition rule_key :: "string \<Rightarrow> rule_write \<Rightarrow> admin_key" where
  "rule_key operation input =
     (uuid_param (rw_ActorUserID input), ''incident_rule'', operation, rw_IdempotencyKey input)"

lemma replayed_idem [simp]: "replayed (replayed r) = replayed r"
  by (simp add: replayed_def)

lemma admin_decide_replayed: "admin.decide t k h = Inr (Some r) \<Longrightarrow> rc_Replayed r = True \<and> rc_AuditURL r = ''''"
  by (auto simp: admin.decide_def admin_lookup_def split: option.splits if_splits)

lemma applyRule_Save:
  assumes "applyRule rt operation i input hash now w = (Inr rc, w')"
  shows "\<exists>t. admin_lookup t (rule_key operation input) = None \<and>
    w_tables w' = admin_put (rule_key operation input) hash rc t \<and> rc_Replayed rc = False"
  using assms by (auto simp: applyRule_def Let_def tx_bind_Inr rule_key_def dest!: Save_Inr)

text \<open>Receipts name their target in canonical form when identifiers are drawn and stored
  canonically.\<close>

definition canonical_receipts :: "tables \<Rightarrow> bool" where
  "canonical_receipts t \<longleftrightarrow> (\<forall>r \<in> set (t_admin_keys t). uuid_param (dk_target_id r) = dk_target_id r)"

lemma admin_decide_canonical:
  assumes "canonical_receipts t" and "admin.decide t k h = Inr (Some r)"
  shows "replayed r = r"
  using assms
  by (auto simp: admin.decide_def admin_lookup_def canonical_receipts_def replayed_def
      dest: find_row_SomeD split: option.splits if_splits)

text \<open>After a mutation answered \<open>rc\<close>, its key answers \<open>rc\<close> again, marked as replayed.\<close>

lemma rule_mutate_recorded:
  assumes "rule_mutate rt clock operation i input w = (Inr rc, w')"
    and "canonical_receipts (w_tables w)"
  shows "admin_lookup (w_tables w') (rule_key operation input)
    = Some (ruleHash rt operation i input, replayed rc)"
proof -
  let ?h = "ruleHash rt operation i input"
  obtain found w1 where replay: "Replay (rw_ActorUserID input) ''incident_rule'' operation
      (rw_IdempotencyKey input) ?h (tick w) = (Inr found, w1)"
    and cont: "case found of
        Some r \<Rightarrow> rc = r \<and> w_tables w' = w_tables w1
      | None \<Rightarrow> \<exists>w2. applyRule rt operation i input ?h (truncate_us clock) w1 = (Inr rc, w2)
          \<and> w_tables w' = w_tables w2"
    using assms(1)
    by (auto simp: rule_mutate_def Let_def in_tx_Inr tx_bind_Inr split: sum.splits option.splits)
  from replay have dec: "admin.decide (w_tables w) (rule_key operation input) ?h = Inr found"
    and w1: "w_tables w1 = w_tables w"
    by (auto simp: Replay_Inr rule_key_def)
  show ?thesis
  proof (cases found)
    case None
    with cont obtain w2 where app: "applyRule rt operation i input ?h (truncate_us clock) w1 = (Inr rc, w2)"
      and w2: "w_tables w' = w_tables w2" by auto
    from applyRule_Save [OF app] w2 show ?thesis by (auto simp: admin_lookup_put)
  next
    case (Some r)
    with cont w1 have "rc = r" "w_tables w' = w_tables w" by auto
    moreover from admin_decide_canonical [OF assms(2)] dec Some have "replayed r = r" by simp
    ultimately show ?thesis
      using dec Some by (auto simp: admin.decide_def split: option.splits if_splits)
  qed
qed

text \<open>
  Administrative rule mutations are idempotent. When a create or replace request has
  been answered, sending it again under the same key, at any later time and after any later
  receipts of other requests, returns the same receipt marked as replayed and leaves the
  tables alone; a different request under that key is refused as a conflict and also changes
  nothing.
\<close>

theorem rule_mutation_idempotent:
  assumes "rule_mutate rt clock operation i input w = (Inr rc, w')"
    and "canonical_receipts (w_tables w)"
    and "w_faults w2 = []" and "t_admin_keys (w_tables w2) = t_admin_keys (w_tables w') @ later"
    and "ValidateRule (rw_Definition input') = Inr ()"
    and "rw_ActorUserID input' = rw_ActorUserID input"
    and "rw_IdempotencyKey input' = rw_IdempotencyKey input"
  shows "rule_mutate rt clock' operation i' input' w2 =
    (if ruleHash rt operation i' input' = ruleHash rt operation i input
     then Inr (replayed rc) else Inl ErrIdempotencyConflict, w2)"
proof -
  have key: "rule_key operation input' = rule_key operation input"
    using assms(6,7) by (simp add: rule_key_def)
  have "admin_lookup (w_tables w2) (rule_key operation input')
      = Some (ruleHash rt operation i input, replayed rc)"
    using rule_mutate_recorded [OF assms(1,2)] assms(4) unfolding key admin_lookup_def
    by (auto simp: find_row_append split: option.splits)
  with assms(3,5) show ?thesis
    by (auto simp: rule_mutate_def Let_def in_tx_run tx_bind_eval Replay_def tx_query_run rule_key_def
        nofault_simps)
qed

theorem rule_mutation_idempotent_witness:
  "\<exists>rc w'. rule_mutate sampleRuntime 5000 ''create'' '''' sampleWrite sampleRuleWorld = (Inr rc, w')
    \<and> rule_mutate sampleRuntime 9000 ''create'' '''' sampleWrite w' = (Inr (replayed rc), w')"
proof -
  obtain rc w' where run: "rule_mutate sampleRuntime 5000 ''create'' '''' sampleWrite sampleRuleWorld = (Inr rc, w')"
    and nf: "w_faults w' = []"
    using sample_create by blast
  have "canonical_receipts (w_tables sampleRuleWorld)"
    by (simp add: canonical_receipts_def sample_rule_eval)
  moreover have "ValidateRule (rw_Definition sampleWrite) = Inr ()"
    using sample_rule_valid by (simp add: sampleWrite_def)
  ultimately show ?thesis
    using run rule_mutation_idempotent [OF run _ nf, of "[]" sampleWrite 9000 "''''"] by auto
qed

definition view_of_condition :: "rule_condition \<Rightarrow> rule_condition_view" where
  "view_of_condition c = \<lparr> cv_State = rcn_State c, cv_Severity = rcn_Severity c,
     cv_MinOccurrences = rcn_MinOccurrences c, cv_ForSeconds = whole_seconds (rcn_For c) \<rparr>"

text \<open>A stored rule shows the definition it came from, durations in whole seconds.\<close>

definition shows_definition :: "rule_definition \<Rightarrow> bool \<Rightarrow> rule_view \<Rightarrow> bool" where
  "shows_definition d enabled v \<longleftrightarrow> rv_Name v = rd_Name d \<and> rv_Enabled v = enabled
     \<and> rv_Priority v = rd_Priority d \<and> rv_IntegrationID v = uuid_param (rd_IntegrationID d)
     \<and> rv_ResourceID v = uuid_param (rd_ResourceID d) \<and> rv_ResourceKind v = rd_ResourceKind d
     \<and> rv_CheckType v = rd_CheckType d \<and> rv_ReasonCode v = rd_ReasonCode d
     \<and> rv_RecoveryState v = rd_RecoveryState d
     \<and> rv_RecoveryMinOccurrences v = rd_RecoveryMinOccurrences d
     \<and> rv_RecoveryForSeconds v = whole_seconds (rd_RecoveryFor d)
     \<and> mset (rv_Conditions v) = mset (map view_of_condition (rd_Conditions d))
     \<and> sorted (map (\<lambda>c. state_text (cv_State c)) (rv_Conditions v))"

lemma text_of_uuid_or_null [simp]: "text_of (uuid_or_null s) = uuid_param s"
  by (simp add: uuid_or_null_def nullif_def uuid_param_def)

lemma condition_views_append:
  assumes "\<And>c. c \<in> set old \<Longrightarrow> cd_rule_id c \<noteq> uuid_param i"
  shows "mset (condition_views (uuid_param i) (old @ map (condition_row_of i) cs))
      = mset (map view_of_condition cs)
    \<and> sorted (map (\<lambda>c. state_text (cv_State c)) (condition_views (uuid_param i) (old @ map (condition_row_of i) cs)))"
proof -
  let ?rows = "filter (\<lambda>c. cd_rule_id c = uuid_param i) (old @ map (condition_row_of i) cs)"
  have "filter (\<lambda>c. cd_rule_id c = uuid_param i) old = []"
    using assms by (auto simp: filter_empty_conv)
  then have rows: "?rows = map (condition_row_of i) cs"
    by (simp add: condition_row_of_def filter_map comp_def)
  have "mset (condition_views (uuid_param i) (old @ map (condition_row_of i) cs))
      = mset (map view_of_condition cs)"
    unfolding condition_views_def rows
    by (simp add: image_mset.compositionality comp_def view_of_condition_def [abs_def] condition_row_of_def)
  moreover have "sorted (map (\<lambda>c. state_text (cd_state c)) (sort_key (\<lambda>c. state_text (cd_state c)) ?rows))"
    by (rule sorted_sort_key)
  ultimately show ?thesis
    by (simp add: condition_views_def comp_def)
qed

lemma shows_definition_stored:
  assumes "\<And>c. c \<in> set old \<Longrightarrow> cd_rule_id c \<noteq> uuid_param i"
  shows "shows_definition d e (rule_view_of ((set_rule_columns d e r)\<lparr>rl_version := n, rl_updated_at := now\<rparr>)
    (condition_views (uuid_param i) (old @ map (condition_row_of i) (rd_Conditions d))))"
  using condition_views_append [OF assms, where cs = "rd_Conditions d"]
  by (simp add: shows_definition_def rule_view_of_def set_rule_columns_def)

text \<open>
  What an administrator creates is what everyone reads back: after a create request is
  answered with a fresh receipt, reading the rule under the identifier of the receipt returns
  exactly the submitted definition (scopes in canonical form, durations cut to whole seconds,
  the conditions ordered by state), at version 1.
\<close>

theorem created_rule_reads_back:
  assumes "Rule_Create rt clock input w = (Inr rc, w')" and "\<not> rc_Replayed rc"
    and "\<And>n. uuid_param (w_uuid w n) = w_uuid w n"
    and "\<And>c. c \<in> set (t_conditions (w_tables w)) \<Longrightarrow> cd_rule_id c \<in> rl_id ` set (t_rules (w_tables w))"
    and "w_faults w2 = []" and "w_tables w2 = w_tables w'"
  shows "\<exists>v. Rule_Detail (rc_ID rc) w2 = (Inr v, w2) \<and> rv_ID v = rc_ID rc \<and> rv_Version v = 1
    \<and> rc_Version rc = 1 \<and> shows_definition (rw_Definition input) (rw_Enabled input) v"
proof -
  let ?h = "ruleHash rt ''create'' '''' input"
  let ?now = "truncate_us clock"
  from assms(1,2) obtain w1 w3 where app: "applyRule rt ''create'' '''' input ?h ?now w1 = (Inr rc, w3)"
    and w1: "w_tables w1 = w_tables w" "w_uuid w1 = w_uuid w" and w3: "w_tables w' = w_tables w3"
    by (auto simp: Rule_Create_def rule_mutate_def Let_def in_tx_Inr tx_bind_Inr Replay_Inr
        split: sum.splits option.splits dest: admin_decide_replayed)
  obtain u n where u: "u = w_uuid w1 n" "u \<notin> rl_id ` set (t_rules (w_tables w1))"
    and rc: "rc_ID rc = u" "rc_Version rc = 1"
    and rules: "t_rules (w_tables w3) = t_rules (w_tables w1)
       @ [set_rule_columns (rw_Definition input) (rw_Enabled input) (new_rule_row u ?now)]"
    and conds: "t_conditions (w_tables w3) = t_conditions (w_tables w1)
       @ map (condition_row_of u) (rd_Conditions (rw_Definition input))"
    by (rule applyRule_create_Inr [OF app]) auto
  have canon: "uuid_param u = u" using u assms(3) w1 by simp
  let ?r = "set_rule_columns (rw_Definition input) (rw_Enabled input) (new_rule_row u ?now)"
  have found: "find_row rl_id u (t_rules (w_tables w2)) = Some ?r"
  proof -
    have "find_row rl_id u (t_rules (w_tables w1)) = None" using u(2) by (simp only: find_row_None_iff not_False_eq_True)
    then show ?thesis unfolding assms(6) w3 rules by (simp add: find_row_append)
  qed
  have fresh: "cd_rule_id c \<noteq> uuid_param u" if "c \<in> set (t_conditions (w_tables w1))" for c
    using assms(4) [of c] that u(2) unfolding canon w1 by metis
  have "shows_definition (rw_Definition input) (rw_Enabled input)
      (rule_view_of ?r (condition_views u (t_conditions (w_tables w2))))"
    using shows_definition_stored [OF fresh, where d = "rw_Definition input" and e = "rw_Enabled input"
        and r = "new_rule_row u ?now" and n = 1 and now = ?now] conds w3 assms(6)
    by (simp add: canon set_rule_columns_def new_rule_row_def)
  then show ?thesis
    using found assms(5) rc
    by (simp add: Rule_Detail_def readRule_def tx_eval canon rule_view_of_def)
qed

theorem created_rule_reads_back_witness:
  "\<exists>rc w' v. Rule_Create sampleRuntime 5000 sampleWrite sampleRuleWorld = (Inr rc, w')
    \<and> Rule_Detail (rc_ID rc) w' = (Inr v, w') \<and> shows_definition sampleDefinition True v"
proof -
  obtain rc w' where run: "Rule_Create sampleRuntime 5000 sampleWrite sampleRuleWorld = (Inr rc, w')"
    and rc: "\<not> rc_Replayed rc" and nf: "w_faults w' = []"
    using sample_create unfolding Rule_Create_def by blast
  have canon: "uuid_param (w_uuid sampleRuleWorld n) = w_uuid sampleRuleWorld n" for n
    by (simp add: sampleRuleWorld_def sampleUuid_def uuid_param_def lower_hex_def byte_def)
  have fk: "cd_rule_id c \<in> rl_id ` set (t_rules (w_tables sampleRuleWorld))"
    if "c \<in> set (t_conditions (w_tables sampleRuleWorld))" for c
    using that by (simp add: sample_rule_eval new_rule_row_def)
  show ?thesis
    using run created_rule_reads_back [OF run rc canon fk nf refl]
    by (auto simp: sampleWrite_def)
qed

end
