(* ===== verification/Incident_Evaluator.thy ===== *)
theory Incident_Evaluator
  imports Incident_Rules
begin

text \<open>
  The incident evaluator (\<open>core/internal/incidents/evaluator.go\<close>): a claimed signal is matched
  to one rule, debounced against the rule's stored state for the resource and check, and may
  open, update or recover the incident of that fingerprint, all in one transaction; due
  deadlines are evaluated the same way on the last signal. The notification writer of
  package \<open>notifications\<close> is an argument (\<open>None\<close> is Go's nil interface), constrained by the
  locale \<open>intent_writer\<close>. \<open>*ruleState\<close> is passed by reference in Go: the functions here return
  the updated value beside the change.
\<close>

section \<open>Types\<close>

record notification_event =
  ne_TimelineEventID :: string
  ne_IncidentID :: string
  ne_RuleID :: string
  ne_ResourceID :: string
  ne_Kind :: string
  ne_Title :: string
  ne_Summary :: string
  ne_Severity :: severity
  ne_Status :: status
  ne_OccurredAt :: time
  ne_CreatedAt :: time

type_synonym intents = "(notification_event \<Rightarrow> unit tx) option"

record ruleState =
  rst_ActiveIncidentID :: string
  rst_LastSignalID :: string
  rst_LastSignalAt :: "time option"
  rst_LastState :: state
  rst_LastReason :: string
  rst_LastReasonCode :: string
  rst_MatchingSince :: "time option"
  rst_MatchingOccurrences :: int
  rst_RecoverySince :: "time option"
  rst_RecoveryOccurrences :: int
  rst_DeadlineAt :: "time option"

record incidentChange =
  ic_IncidentID :: string
  ic_IntegrationID :: string
  ic_ResourceID :: string
  ic_Status :: "status option"
  ic_ChangedAt :: time
  ic_Changed :: bool

definition noChange :: incidentChange where
  "noChange = \<lparr> ic_IncidentID = '''', ic_IntegrationID = '''', ic_ResourceID = '''', ic_Status = None,
     ic_ChangedAt = 0, ic_Changed = False \<rparr>"

definition unchanged :: "signal \<Rightarrow> time \<Rightarrow> incidentChange" where
  "unchanged sig now = noChange\<lparr> ic_IntegrationID := s_IntegrationID sig,
     ic_ResourceID := s_ResourceID sig, ic_ChangedAt := now \<rparr>"

definition changed :: "signal \<Rightarrow> time \<Rightarrow> string \<Rightarrow> status \<Rightarrow> incidentChange" where
  "changed sig now incidentID st = (unchanged sig now)
     \<lparr> ic_IncidentID := incidentID, ic_Status := Some st, ic_Changed := True \<rparr>"

section \<open>Timeline, notifications and evidence\<close>

definition appendTimeline ::
  "string \<Rightarrow> string \<Rightarrow> string \<Rightarrow> status option \<Rightarrow> status option \<Rightarrow> severity option \<Rightarrow> severity option
   \<Rightarrow> string \<Rightarrow> time \<Rightarrow> string tx" where
  "appendTimeline incidentID signalID kind fromStatus toStatus fromSeverity toSeverity summ occurredAt =
     tx_insert (\<lambda>u c t.
       if u \<in> tl_id ` set (t_timeline t) then Inl DbError
       else Inr (u, t\<lparr>t_timeline := t_timeline t @
         [\<lparr> tl_id = u, tl_incident_id = incidentID, tl_signal_id = nullif signalID,
            tl_actor_user_id = None, tl_actor_display_name = None, tl_subject_user_id = None,
            tl_subject_display_name = None, tl_kind = kind, tl_from_status = fromStatus,
            tl_to_status = toStatus, tl_from_severity = fromSeverity, tl_to_severity = toSeverity,
            tl_summary = boundedText summ 2048, tl_occurred_at = occurredAt, tl_created_at = c \<rparr>]\<rparr>))"

definition enqueueNotification :: "intents \<Rightarrow> notification_event \<Rightarrow> unit tx" where
  "enqueueNotification writer event = (case writer of None \<Rightarrow> tx_return () | Some enqueue \<Rightarrow> enqueue event)"

definition appendEvaluationEvidence ::
  "string \<Rightarrow> string \<Rightarrow> string \<Rightarrow> string \<Rightarrow> string \<Rightarrow> time \<Rightarrow> unit tx" where
  "appendEvaluationEvidence signalID ruleID windowID outcome explanation at =
     tx_exec (\<lambda>t. if signalID \<in> evd_signal_id ` set (t_evidence t) then t
       else t\<lparr>t_evidence := t_evidence t @
         [\<lparr> evd_signal_id = signalID, evd_rule_id = nullif ruleID, evd_window_id = nullif windowID,
            evd_outcome = outcome, evd_explanation = boundedText explanation 1024,
            evd_evaluated_at = at \<rparr>]\<rparr>)"

section \<open>Rule state\<close>

type_synonym state_key = "string \<times> string \<times> string"

definition state_key :: "rule_state_row \<Rightarrow> state_key" where
  "state_key r = (st_rule_id r, st_resource_id r, st_check_type r)"

definition new_rule_state :: "state_key \<Rightarrow> time \<Rightarrow> rule_state_row" where
  "new_rule_state k c = (case k of (ruleID, resourceID, checkType) \<Rightarrow>
     \<lparr> st_rule_id = ruleID, st_resource_id = resourceID, st_check_type = checkType,
       st_active_incident_id = None, st_last_signal_id = None, st_last_signal_at = None,
       st_last_state = None, st_last_reason = None, st_last_reason_code = None,
       st_matching_since = None, st_matching_occurrences = 0, st_recovery_since = None,
       st_recovery_occurrences = 0, st_deadline_at = None, st_updated_at = c \<rparr>)"

definition scan_state :: "rule_state_row \<Rightarrow> ruleState" where
  "scan_state r = \<lparr> rst_ActiveIncidentID = text_of (st_active_incident_id r),
     rst_LastSignalID = text_of (st_last_signal_id r), rst_LastSignalAt = st_last_signal_at r,
     rst_LastState = (case st_last_state r of None \<Rightarrow> OtherState '''' | Some s \<Rightarrow> s),
     rst_LastReason = text_of (st_last_reason r), rst_LastReasonCode = text_of (st_last_reason_code r),
     rst_MatchingSince = st_matching_since r, rst_MatchingOccurrences = st_matching_occurrences r,
     rst_RecoverySince = st_recovery_since r, rst_RecoveryOccurrences = st_recovery_occurrences r,
     rst_DeadlineAt = st_deadline_at r \<rparr>"

definition lockRuleState :: "state_key \<Rightarrow> ruleState tx" where
  "lockRuleState k =
     tx_bind (tx_insert (\<lambda>u c t. Inr ((),
       if k \<in> state_key ` set (t_rule_states t) then t
       else t\<lparr>t_rule_states := t_rule_states t @ [new_rule_state k c]\<rparr>))) (\<lambda>_.
     tx_row (\<lambda>t. map_option scan_state (find_row state_key k (t_rule_states t))))"

definition store_state :: "ruleState \<Rightarrow> time \<Rightarrow> rule_state_row \<Rightarrow> rule_state_row" where
  "store_state s now r = r\<lparr> st_active_incident_id := nullif (rst_ActiveIncidentID s),
     st_last_signal_id := nullif (rst_LastSignalID s), st_last_signal_at := rst_LastSignalAt s,
     st_last_state := (if rst_LastState s = OtherState '''' then None else Some (rst_LastState s)),
     st_last_reason := nullif (rst_LastReason s), st_last_reason_code := nullif (rst_LastReasonCode s),
     st_matching_since := rst_MatchingSince s, st_matching_occurrences := rst_MatchingOccurrences s,
     st_recovery_since := rst_RecoverySince s, st_recovery_occurrences := rst_RecoveryOccurrences s,
     st_deadline_at := rst_DeadlineAt s, st_updated_at := now \<rparr>"

definition saveRuleState :: "state_key \<Rightarrow> ruleState \<Rightarrow> time \<Rightarrow> unit tx" where
  "saveRuleState k s now = tx_exec (\<lambda>t. t\<lparr>t_rule_states :=
     update_where (\<lambda>r. state_key r = k) (store_state s now) (t_rule_states t)\<rparr>)"

section \<open>The incident lifecycle\<close>

definition fingerprint :: "rule \<Rightarrow> signal \<Rightarrow> string" where
  "fingerprint rule sig = ru_ID rule @ '':'' @ s_ResourceID sig @ '':'' @ s_CheckType sig"

definition incident_title :: "string \<Rightarrow> signal \<Rightarrow> string" where
  "incident_title resourceName sig = boundedText (resourceName @ '': '' @ s_CheckType sig) 256"

definition new_incident :: "string \<Rightarrow> signal \<Rightarrow> rule \<Rightarrow> severity \<Rightarrow> string \<Rightarrow> time \<Rightarrow> incident_row" where
  "new_incident u sig rule sev resourceName now =
     \<lparr> in_id = u, in_rule_id = ru_ID rule, in_integration_id = s_IntegrationID sig,
       in_resource_id = s_ResourceID sig, in_check_type = s_CheckType sig,
       in_fingerprint = fingerprint rule sig, in_title = incident_title resourceName sig,
       in_summary = s_Reason sig, in_severity = sev, in_status = StatusOpen,
       in_owner_user_id = None, in_detected_at = s_OccurredAt sig, in_latest_signal_at = s_OccurredAt sig,
       in_acknowledged_at = None, in_recovered_at = None, in_resolved_at = None,
       in_version = 1, in_created_at = now, in_updated_at = now \<rparr>"

definition active :: "incident_row \<Rightarrow> bool" where
  "active r \<longleftrightarrow> in_status r \<noteq> StatusResolved"

text \<open>\<open>INSERT ... ON CONFLICT (fingerprint) WHERE status <> 'resolved' DO NOTHING RETURNING id\<close>\<close>

definition insertIncident :: "signal \<Rightarrow> rule \<Rightarrow> severity \<Rightarrow> string \<Rightarrow> time \<Rightarrow> string option tx" where
  "insertIncident sig rule sev resourceName now = tx_insert (\<lambda>u c t.
     if \<exists>r \<in> set (t_incidents t). active r \<and> in_fingerprint r = fingerprint rule sig then Inr (None, t)
     else if u \<in> in_id ` set (t_incidents t) then Inl DbError
     else Inr (Some u, t\<lparr>t_incidents := t_incidents t @ [new_incident u sig rule sev resourceName now]\<rparr>))"

definition updateIncidentRow :: "string \<Rightarrow> (incident_row \<Rightarrow> incident_row) \<Rightarrow> unit tx" where
  "updateIncidentRow incidentID f = tx_exec (\<lambda>t. t\<lparr>t_incidents :=
     update_where (\<lambda>r. in_id r = incidentID) f (t_incidents t)\<rparr>)"

definition notice ::
  "string \<Rightarrow> string \<Rightarrow> rule \<Rightarrow> signal \<Rightarrow> string \<Rightarrow> string \<Rightarrow> severity \<Rightarrow> status \<Rightarrow> time \<Rightarrow> notification_event" where
  "notice timelineID incidentID rule sig kind resourceName sev st now =
     \<lparr> ne_TimelineEventID = timelineID, ne_IncidentID = incidentID, ne_RuleID = ru_ID rule,
       ne_ResourceID = s_ResourceID sig, ne_Kind = kind, ne_Title = incident_title resourceName sig,
       ne_Summary = s_Reason sig, ne_Severity = sev, ne_Status = st,
       ne_OccurredAt = s_OccurredAt sig, ne_CreatedAt = now \<rparr>"

definition createIncident ::
  "signal \<Rightarrow> rule \<Rightarrow> condition \<Rightarrow> ruleState \<Rightarrow> string \<Rightarrow> time \<Rightarrow> intents \<Rightarrow> (incidentChange \<times> ruleState) tx" where
  "createIncident sig rule cond s resourceName now intents =
     tx_bind (insertIncident sig rule (cn_Severity cond) resourceName now) (\<lambda>inserted.
     tx_bind (case inserted of
         Some i \<Rightarrow> tx_return i
       | None \<Rightarrow> tx_row (\<lambda>t. map_option in_id (List.find
           (\<lambda>r. in_fingerprint r = fingerprint rule sig \<and> active r) (t_incidents t)))) (\<lambda>incidentID.
     let s = s\<lparr>rst_ActiveIncidentID := incidentID\<rparr> in
     tx_bind (tx_row (\<lambda>t. map_option in_created_at (find_row in_id incidentID (t_incidents t)))) (\<lambda>createdAt.
     if createdAt = now then
       tx_bind (appendTimeline incidentID (s_ID sig) ''detected'' None (Some StatusOpen) None
           (Some (cn_Severity cond)) (''Incident detected: '' @ s_Reason sig) (s_OccurredAt sig)) (\<lambda>timelineID.
       tx_bind (enqueueNotification intents (notice timelineID incidentID rule sig ''detected''
           resourceName (cn_Severity cond) StatusOpen now)) (\<lambda>_.
       tx_return (changed sig now incidentID StatusOpen, s)))
     else tx_return (unchanged sig now, s))))"

text \<open>Common part of the four updates of an existing incident.\<close>

definition touch :: "string \<Rightarrow> time \<Rightarrow> time \<Rightarrow> incident_row \<Rightarrow> incident_row" where
  "touch summ occurredAt now r = r\<lparr> in_summary := summ,
     in_latest_signal_at := max (in_latest_signal_at r) occurredAt,
     in_version := in_version r + 1, in_updated_at := now \<rparr>"

definition openOrUpdateIncident ::
  "signal \<Rightarrow> rule \<Rightarrow> condition \<Rightarrow> ruleState \<Rightarrow> string \<Rightarrow> time \<Rightarrow> intents \<Rightarrow> (incidentChange \<times> ruleState) tx" where
  "openOrUpdateIncident sig rule cond s resourceName now intents =
     (if rst_ActiveIncidentID s = '''' then createIncident sig rule cond s resourceName now intents
      else
        let incidentID = rst_ActiveIncidentID s; sev = cn_Severity cond;
            touched = touch (s_Reason sig) (s_OccurredAt sig) now in
        tx_bind (tx_query (\<lambda>t. map_option (\<lambda>r. (in_status r, in_severity r))
            (find_row in_id incidentID (t_incidents t)))) (\<lambda>found.
        case found of
          None \<Rightarrow> createIncident sig rule cond (s\<lparr>rst_ActiveIncidentID := ''''\<rparr>) resourceName now intents
        | Some (st, severity) \<Rightarrow>
            if st = StatusRecovered then
              tx_bind (updateIncidentRow incidentID (\<lambda>r. (touched r)\<lparr>in_status := StatusOpen,
                  in_severity := sev, in_recovered_at := None\<rparr>)) (\<lambda>_.
              tx_bind (appendTimeline incidentID (s_ID sig) ''recurrence'' (Some StatusRecovered)
                  (Some StatusOpen) (Some severity) (Some sev) (''Condition recurred: '' @ s_Reason sig)
                  (s_OccurredAt sig)) (\<lambda>timelineID.
              tx_bind (enqueueNotification intents (notice timelineID incidentID rule sig ''recurrence''
                  resourceName sev StatusOpen now)) (\<lambda>_.
              tx_return (changed sig now incidentID StatusOpen, s))))
            else if severity \<noteq> sev then
              tx_bind (updateIncidentRow incidentID (\<lambda>r. (touched r)\<lparr>in_severity := sev\<rparr>)) (\<lambda>_.
              tx_bind (appendTimeline incidentID (s_ID sig) ''severity_changed'' (Some st) (Some st)
                  (Some severity) (Some sev) (''Severity changed: '' @ s_Reason sig)
                  (s_OccurredAt sig)) (\<lambda>timelineID.
              tx_bind (enqueueNotification intents (notice timelineID incidentID rule sig ''severity_changed''
                  resourceName sev st now)) (\<lambda>_.
              tx_return (changed sig now incidentID st, s))))
            else if s_CheckType sig = ''certificate.validity'' \<and> s_ReasonCode sig \<noteq> ''''
              \<and> rst_LastReasonCode s \<noteq> '''' \<and> s_ReasonCode sig \<noteq> rst_LastReasonCode s then
              tx_bind (updateIncidentRow incidentID touched) (\<lambda>_.
              tx_bind (appendTimeline incidentID (s_ID sig) ''condition_changed'' (Some st) (Some st)
                  (Some severity) (Some severity) (''Certificate condition changed: '' @ s_Reason sig)
                  (s_OccurredAt sig)) (\<lambda>timelineID.
              tx_bind (enqueueNotification intents (notice timelineID incidentID rule sig ''condition_changed''
                  resourceName severity st now)) (\<lambda>_.
              tx_return (changed sig now incidentID st, s))))
            else
              tx_bind (updateIncidentRow incidentID touched) (\<lambda>_.
              tx_return (changed sig now incidentID st, s))))"

definition recoverIncident ::
  "signal \<Rightarrow> rule \<Rightarrow> ruleState \<Rightarrow> string \<Rightarrow> time \<Rightarrow> intents \<Rightarrow> (incidentChange \<times> ruleState) tx" where
  "recoverIncident sig rule s resourceName now intents =
     (if rst_ActiveIncidentID s = '''' then tx_return (unchanged sig now, s)
      else
        let incidentID = rst_ActiveIncidentID s in
        tx_bind (tx_query (\<lambda>t. map_option (\<lambda>r. (in_status r, in_severity r))
            (find_row in_id incidentID (t_incidents t)))) (\<lambda>found.
        case found of
          None \<Rightarrow> tx_return (unchanged sig now, s\<lparr>rst_ActiveIncidentID := ''''\<rparr>)
        | Some (st, severity) \<Rightarrow>
            if st = StatusRecovered \<or> st = StatusResolved then tx_return (unchanged sig now, s)
            else
              tx_bind (updateIncidentRow incidentID (\<lambda>r. (touch (s_Reason sig) (s_OccurredAt sig) now r)
                  \<lparr>in_status := StatusRecovered, in_recovered_at := Some (s_OccurredAt sig)\<rparr>)) (\<lambda>_.
              tx_bind (appendTimeline incidentID (s_ID sig) ''recovered'' (Some st) (Some StatusRecovered)
                  (Some severity) (Some severity) (''Condition recovered: '' @ s_Reason sig)
                  (s_OccurredAt sig)) (\<lambda>timelineID.
              tx_bind (enqueueNotification intents (notice timelineID incidentID rule sig ''recovered''
                  resourceName severity StatusRecovered now)) (\<lambda>_.
              tx_return (changed sig now incidentID StatusRecovered, s))))))"

section \<open>Debouncing\<close>

definition evaluate ::
  "signal \<Rightarrow> rule \<Rightarrow> ruleState \<Rightarrow> string \<Rightarrow> time \<Rightarrow> bool \<Rightarrow> intents \<Rightarrow> (incidentChange \<times> ruleState) tx" where
  "evaluate sig rule s resourceName now deadline intents =
     (if s_State sig = ru_RecoveryState rule then
        let s = s\<lparr>rst_MatchingSince := None, rst_DeadlineAt := None, rst_MatchingOccurrences := 0\<rparr>;
            s = (if deadline then s
                 else if rst_LastState s = s_State sig \<and> rst_RecoverySince s \<noteq> None
                 then s\<lparr>rst_RecoveryOccurrences := rst_RecoveryOccurrences s + 1\<rparr>
                 else s\<lparr>rst_RecoverySince := Some (s_OccurredAt sig), rst_RecoveryOccurrences := 1\<rparr>)
        in case rst_RecoverySince s of
             None \<Rightarrow> tx_return (unchanged sig now, s)
           | Some since \<Rightarrow>
               if rst_RecoveryOccurrences s < ru_RecoveryMinOccurrences rule then tx_return (unchanged sig now, s)
               else
                 let due = since + ru_RecoveryFor rule
                 in if due \<le> now then recoverIncident sig rule s resourceName now intents
                    else tx_return (unchanged sig now, s\<lparr>rst_DeadlineAt := Some due\<rparr>)
      else
        let s = s\<lparr>rst_RecoverySince := None, rst_RecoveryOccurrences := 0\<rparr>
        in case ru_Condition rule of
             None \<Rightarrow> tx_return (unchanged sig now,
               s\<lparr>rst_MatchingSince := None, rst_DeadlineAt := None, rst_MatchingOccurrences := 0\<rparr>)
           | Some cond \<Rightarrow>
               let s = (if deadline then s
                        else if rst_LastState s = s_State sig \<and> rst_MatchingSince s \<noteq> None
                        then s\<lparr>rst_MatchingOccurrences := rst_MatchingOccurrences s + 1\<rparr>
                        else s\<lparr>rst_MatchingSince := Some (s_OccurredAt sig), rst_MatchingOccurrences := 1\<rparr>)
               in case rst_MatchingSince s of
                    None \<Rightarrow> tx_return (unchanged sig now, s\<lparr>rst_DeadlineAt := None\<rparr>)
                  | Some since \<Rightarrow>
                      if rst_MatchingOccurrences s < cn_MinOccurrences cond
                      then tx_return (unchanged sig now, s\<lparr>rst_DeadlineAt := None\<rparr>)
                      else
                        let due = since + cn_For cond
                        in if now < due then tx_return (unchanged sig now, s\<lparr>rst_DeadlineAt := Some due\<rparr>)
                           else openOrUpdateIncident sig rule cond (s\<lparr>rst_DeadlineAt := None\<rparr>)
                             resourceName now intents)"

section \<open>One signal\<close>

definition suspend :: "maintenanceMatch \<Rightarrow> ruleState \<Rightarrow> ruleState" where
  "suspend m s = s\<lparr> rst_MatchingSince := None, rst_RecoverySince := None, rst_DeadlineAt := None,
     rst_MatchingOccurrences := 0, rst_RecoveryOccurrences := 0, rst_LastState := Maintenance,
     rst_LastReason := ''Maintenance: '' @ mm_Reason m \<rparr>"

definition remember :: "signal \<Rightarrow> ruleState \<Rightarrow> ruleState" where
  "remember sig s = s\<lparr> rst_LastSignalID := s_ID sig, rst_LastSignalAt := Some (s_OccurredAt sig) \<rparr>"

definition settle :: "signal \<Rightarrow> string \<Rightarrow> string \<Rightarrow> string \<Rightarrow> string \<Rightarrow> time \<Rightarrow> 'a \<Rightarrow> 'a outcome tx" where
  "settle sig ruleID windowID outcome explanation now x =
     tx_bind (appendEvaluationEvidence (s_ID sig) ruleID windowID outcome explanation now) (\<lambda>_.
     tx_bind (MarkProcessed (s_ID sig) now) (\<lambda>_. tx_return (Commit x)))"

definition signal_outcome :: "rule \<Rightarrow> incidentChange \<Rightarrow> string \<times> string" where
  "signal_outcome rule change =
     (if ic_Changed change
      then (''incident_changed'', ''The winning rule changed the authoritative incident lifecycle.'')
      else if ru_Condition rule = None
      then (''no_condition'', ''The winning rule has no condition for this health state.'')
      else (''debounced'', ''The matching rule did not yet satisfy its occurrence or duration threshold.''))"

definition evaluateSignal :: "intents \<Rightarrow> signal \<Rightarrow> time \<Rightarrow> rule \<Rightarrow> string \<Rightarrow> incidentChange outcome tx" where
  "evaluateSignal intents sig now rule resourceName =
     (let k = (ru_ID rule, s_ResourceID sig, s_CheckType sig) in
      tx_bind (lockRuleState k) (\<lambda>s.
      if (case rst_LastSignalAt s of None \<Rightarrow> False | Some at \<Rightarrow> s_OccurredAt sig < at) then
        settle sig (ru_ID rule) '''' ''debounced''
          ''An older out-of-order signal was recorded without changing rule state.'' now noChange
      else
        tx_bind (activeMaintenance sig (s_OccurredAt sig)) (\<lambda>maintenance.
        if mm_ID maintenance \<noteq> '''' then
          tx_bind (saveRuleState k (suspend maintenance (remember sig s)) now) (\<lambda>_.
          settle sig (ru_ID rule) (mm_ID maintenance) ''maintenance''
            ''Raw failure preserved; incident evaluation suppressed by maintenance window.'' now noChange)
        else
          tx_bind (evaluate sig rule s resourceName now False intents) (\<lambda>(change, s).
          let s = (remember sig s)\<lparr> rst_LastState := s_State sig, rst_LastReason := s_Reason sig,
                rst_LastReasonCode := s_ReasonCode sig \<rparr> in
          tx_bind (saveRuleState k s now) (\<lambda>_.
          case signal_outcome rule change of (outcome, explanation) \<Rightarrow>
            settle sig (ru_ID rule) '''' outcome explanation now change)))))"

definition processMatched :: "intents \<Rightarrow> signal \<Rightarrow> time \<Rightarrow> err + rule \<times> string \<Rightarrow> incidentChange outcome tx" where
  "processMatched intents sig now found = (case found of
       Inl e \<Rightarrow>
         if e = NoRows then
           settle sig '''' '''' ''no_rule'' ''No enabled incident rule matched the normalized signal.'' now noChange
         else tx_fail e
     | Inr (rule, resourceName) \<Rightarrow> evaluateSignal intents sig now rule resourceName)"

definition processSignal_body :: "intents \<Rightarrow> signal \<Rightarrow> time \<Rightarrow> incidentChange outcome tx" where
  "processSignal_body intents sig now =
     tx_bind (tx_row (\<lambda>t. map_option (\<lambda>r. (sg_processed_at r, sg_dead_lettered_at r))
         (find_row sg_id (s_ID sig) (t_signals t)))) (\<lambda>(processedAt, deadLetteredAt).
     if processedAt \<noteq> None \<or> deadLetteredAt \<noteq> None then tx_return (Commit noChange)
     else tx_bind (tx_try (matchingRule sig)) (processMatched intents sig now))"

definition processSignal :: "intents \<Rightarrow> signal \<Rightarrow> time \<Rightarrow> incidentChange tx" where
  "processSignal intents sig now = in_tx (processSignal_body intents sig now)"

section \<open>Deadlines\<close>

definition due_order :: "rule_state_row \<Rightarrow> time \<times> string \<times> string \<times> string" where
  "due_order r = (case st_deadline_at r of None \<Rightarrow> 0 | Some d \<Rightarrow> d, st_rule_id r, st_resource_id r, st_check_type r)"

definition is_due :: "time \<Rightarrow> rule_state_row \<Rightarrow> bool" where
  "is_due now r = (case st_deadline_at r of None \<Rightarrow> False | Some d \<Rightarrow> d \<le> now)"

definition evaluateDue :: "intents \<Rightarrow> time \<Rightarrow> state_key \<Rightarrow> (incidentChange \<times> bool) outcome tx" where
  "evaluateDue intents now k =
     tx_bind (lockRuleState k) (\<lambda>s.
     tx_bind (if rst_LastSignalID s = '''' then tx_fail DbError
              else tx_row (\<lambda>t. map_option scan_signal (find_row sg_id (rst_LastSignalID s) (t_signals t)))) (\<lambda>sig.
     tx_bind (tx_try (matchingRuleByID (fst k) sig)) (\<lambda>found.
     case found of
       Inl e \<Rightarrow>
         if e = NoRows then
           tx_bind (saveRuleState k (s\<lparr>rst_DeadlineAt := None\<rparr>) now) (\<lambda>_. tx_return (Commit (noChange, True)))
         else tx_fail e
     | Inr (rule, resourceName) \<Rightarrow>
         tx_bind (activeMaintenance sig now) (\<lambda>maintenance.
         if mm_ID maintenance \<noteq> '''' then
           tx_bind (saveRuleState k (suspend maintenance s) now) (\<lambda>_. tx_return (Commit (noChange, True)))
         else
           tx_bind (evaluate sig rule s resourceName now True intents) (\<lambda>(change, s).
           tx_bind (saveRuleState k (s\<lparr>rst_DeadlineAt := None\<rparr>) now) (\<lambda>_.
           tx_return (Commit (change, True))))))))"

definition processOneDue :: "intents \<Rightarrow> (state_key \<Rightarrow> bool) \<Rightarrow> time \<Rightarrow> (incidentChange \<times> bool) tx" where
  "processOneDue intents locked now = in_tx (
     tx_bind (tx_query (\<lambda>t. map_option state_key (first_by due_order
         (filter (\<lambda>r. is_due now r \<and> \<not> locked (state_key r)) (t_rule_states t))))) (\<lambda>found.
     case found of
       None \<Rightarrow> tx_return (Rollback (noChange, False))
     | Some k \<Rightarrow> evaluateDue intents now k))"

fun processDue :: "intents \<Rightarrow> (state_key \<Rightarrow> bool) \<Rightarrow> time \<Rightarrow> nat \<Rightarrow> incidentChange list tx" where
  "processDue intents locked now 0 = tx_return []"
| "processDue intents locked now (Suc limit) =
     tx_bind (processOneDue intents locked now) (\<lambda>(change, found).
     if \<not> found then tx_return []
     else tx_bind (processDue intents locked now limit) (\<lambda>changes.
       tx_return (if ic_Changed change then change # changes else changes)))"

section \<open>A pass of the evaluator\<close>

record options =
  op_Concurrency :: int
  op_BatchSize :: int
  op_PollInterval :: duration
  op_ClaimLease :: duration
  op_MaxAttempts :: int
  op_Intents :: intents

definition NewEvaluator :: "options \<Rightarrow> options" where
  "NewEvaluator o0 = o0\<lparr>
     op_Concurrency := (if op_Concurrency o0 \<le> 0 then 2 else op_Concurrency o0),
     op_BatchSize := (if op_BatchSize o0 \<le> 0 then 50 else op_BatchSize o0),
     op_PollInterval := (if op_PollInterval o0 \<le> 0 then second else op_PollInterval o0),
     op_ClaimLease := (if op_ClaimLease o0 \<le> 0 then 30 * second else op_ClaimLease o0),
     op_MaxAttempts := (if op_MaxAttempts o0 \<le> 0 then 8 else op_MaxAttempts o0) \<rparr>"

definition publishChange :: "incidentChange \<Rightarrow> unit tx" where
  "publishChange change =
     (if \<not> ic_Changed change then tx_return ()
      else hub_publish (zeroEvent\<lparr> ev_Kind := ''incident_changed'', ev_IncidentID := ic_IncidentID change,
        ev_IntegrationID := ic_IntegrationID change, ev_ResourceID := ic_ResourceID change,
        ev_Result := (case ic_Status change of None \<Rightarrow> '''' | Some st \<Rightarrow> status_text st),
        ev_ChangedAt := ic_ChangedAt change \<rparr>))"

definition retryAfter :: "signal \<Rightarrow> duration" where
  "retryAfter sig = 2 ^ nat (min (s_Attempts sig - 1) 6) * second"

fun processClaimed :: "options \<Rightarrow> time \<Rightarrow> signal list \<Rightarrow> int tx" where
  "processClaimed opts now [] = tx_return 0"
| "processClaimed opts now (sig # sigs) =
     tx_bind (tx_try (processSignal (op_Intents opts) sig now)) (\<lambda>result.
     case result of
       Inl _ \<Rightarrow>
         tx_bind (Fail (s_ID sig) now (retryAfter sig) (op_MaxAttempts opts) ''incident_evaluation_failed'') (\<lambda>_.
         processClaimed opts now sigs)
     | Inr change \<Rightarrow>
         tx_bind (publishChange change) (\<lambda>_.
         tx_bind (processClaimed opts now sigs) (\<lambda>processed. tx_return (processed + 1))))"

definition ProcessOnce ::
  "options \<Rightarrow> (string \<Rightarrow> bool) \<Rightarrow> (signal list \<Rightarrow> signal list) \<Rightarrow> (state_key \<Rightarrow> bool) \<Rightarrow> time \<Rightarrow> int tx" where
  "ProcessOnce opts lockedSignals returning lockedStates clock =
     (let now = truncate_us clock in
      tx_bind (Claim lockedSignals returning now (op_BatchSize opts) (op_ClaimLease opts) (op_MaxAttempts opts)) (\<lambda>claimed.
      tx_bind (processClaimed opts now claimed) (\<lambda>processed.
      tx_bind (processDue (op_Intents opts) lockedStates now (nat (op_BatchSize opts))) (\<lambda>changes.
      tx_bind (tx_for publishChange changes) (\<lambda>_. tx_return processed)))))"

section \<open>The incident invariant\<close>

definition key_fingerprint :: "state_key \<Rightarrow> string" where
  "key_fingerprint k = (case k of (ruleID, resourceID, checkType) \<Rightarrow>
     ruleID @ '':'' @ resourceID @ '':'' @ checkType)"

definition incident_ok :: "incident_row \<Rightarrow> bool" where
  "incident_ok r \<longleftrightarrow>
     in_fingerprint r = key_fingerprint (in_rule_id r, in_resource_id r, in_check_type r)
     \<and> (in_recovered_at r \<noteq> None) = (in_status r = StatusRecovered \<or> in_status r = StatusResolved)
     \<and> (in_resolved_at r \<noteq> None) = (in_status r = StatusResolved)
     \<and> 1 \<le> in_version r \<and> in_detected_at r \<le> in_latest_signal_at r"

text \<open>The incident a rule state points to: unresolved and of the state's own fingerprint.\<close>

definition points_to :: "tables \<Rightarrow> state_key \<Rightarrow> string \<Rightarrow> bool" where
  "points_to t k i \<longleftrightarrow> (\<exists>r \<in> set (t_incidents t). in_id r = i \<and> active r \<and> in_fingerprint r = key_fingerprint k)"

text \<open>The last signal of a rule state is a signal of the state's resource and check.\<close>

definition signal_idents :: "tables \<Rightarrow> (string \<times> string \<times> string) list" where
  "signal_idents t = map (\<lambda>r. (sg_id r, sg_resource_id r, sg_check_type r)) (t_signals t)"

definition signal_at :: "tables \<Rightarrow> state_key \<Rightarrow> string \<Rightarrow> bool" where
  "signal_at t k i \<longleftrightarrow> (i, snd k) \<in> set (signal_idents t)"

lemma signal_idents_simps [simp]:
  "signal_idents (t\<lparr>t_incidents := x1\<rparr>) = signal_idents t"
  "signal_idents (t\<lparr>t_rule_states := x2\<rparr>) = signal_idents t"
  "signal_idents (t\<lparr>t_timeline := x3\<rparr>) = signal_idents t"
  "signal_idents (t\<lparr>t_intents := x4\<rparr>) = signal_idents t"
  "signal_idents (t\<lparr>t_evidence := x5\<rparr>) = signal_idents t"
  by (simp_all add: signal_idents_def)

definition last_ok :: "state_key \<Rightarrow> ruleState \<Rightarrow> (string \<times> string \<times> string) list \<Rightarrow> bool" where
  "last_ok k s idents \<longleftrightarrow> rst_LastSignalID s = '''' \<or> (rst_LastSignalID s, snd k) \<in> set idents"

definition incident_inv :: "tables \<Rightarrow> bool" where
  "incident_inv t \<longleftrightarrow> distinct (map in_id (t_incidents t))
     \<and> (\<forall>r \<in> set (t_incidents t). incident_ok r)
     \<and> (\<forall>r \<in> set (t_incidents t). \<forall>r' \<in> set (t_incidents t).
          active r \<and> active r' \<and> in_fingerprint r = in_fingerprint r' \<longrightarrow> r = r')
     \<and> distinct (map state_key (t_rule_states t))
     \<and> (\<forall>s \<in> set (t_rule_states t). \<forall>i. st_active_incident_id s = Some i \<longrightarrow> points_to t (state_key s) i)
     \<and> distinct (map fst (signal_idents t))
     \<and> (\<forall>s \<in> set (t_rule_states t). \<forall>i. st_last_signal_id s = Some i \<longrightarrow> signal_at t (state_key s) i)"

definition state_inv :: "state_key \<Rightarrow> ruleState \<Rightarrow> tables \<Rightarrow> bool" where
  "state_inv k s t \<longleftrightarrow> incident_inv t
     \<and> (rst_ActiveIncidentID s = '''' \<or> points_to t k (rst_ActiveIncidentID s))
     \<and> last_ok k s (signal_idents t)"

text \<open>The part of the tables these speak of.\<close>

definition core :: "tables \<Rightarrow> incident_row list \<times> rule_state_row list \<times> (string \<times> string \<times> string) list" where
  "core t = (t_incidents t, t_rule_states t, signal_idents t)"

lemma incident_inv_core: "core a = core b \<Longrightarrow> incident_inv a = incident_inv b"
  by (simp add: core_def incident_inv_def points_to_def signal_at_def)

lemma state_inv_core: "core a = core b \<Longrightarrow> state_inv k s a = state_inv k s b"
  by (simp add: state_inv_def core_def incident_inv_def points_to_def signal_at_def)

lemma keeps_part: "keeps f m \<Longrightarrow> (\<And>a b. f a = f b \<Longrightarrow> g a = g b) \<Longrightarrow> keeps g m"
  unfolding keeps_def always_def by blast

lemma core_incident_inv: "keeps core m \<Longrightarrow> preserves incident_inv m"
  by (rule preserves_of_keeps [OF incident_inv_core])

lemma triple_core: "keeps core m \<Longrightarrow> triple (state_inv k s) m (\<lambda>_. state_inv k s)"
  by (rule triple_preserves) (rule preserves_of_keeps [OF state_inv_core])

lemma points_to_unique:
  assumes "incident_inv t" and "points_to t k i" and "r \<in> set (t_incidents t)" and "in_id r = i"
  shows "active r \<and> in_fingerprint r = key_fingerprint k \<and> incident_ok r"
proof -
  from assms(2) obtain r' where r': "r' \<in> set (t_incidents t)" "in_id r' = i" "active r'"
    "in_fingerprint r' = key_fingerprint k"
    by (auto simp: points_to_def)
  have "distinct (map in_id (t_incidents t))" using assms(1) by (simp add: incident_inv_def)
  then have "inj_on in_id (set (t_incidents t))" by (simp add: distinct_map)
  then have "r' = r" using r'(1,2) assms(3,4) by (simp add: inj_on_def)
  moreover have "incident_ok r" using assms(1,3) unfolding incident_inv_def by blast
  ultimately show ?thesis using r' by simp
qed

text \<open>An update of an unresolved incident that keeps its identity and leaves it unresolved.\<close>

definition harmless :: "(incident_row \<Rightarrow> incident_row) \<Rightarrow> bool" where
  "harmless f \<longleftrightarrow> (\<forall>r. active r \<and> incident_ok r \<longrightarrow> active (f r) \<and> incident_ok (f r)
     \<and> in_id (f r) = in_id r \<and> in_fingerprint (f r) = in_fingerprint r)"

lemma update_incident_inv:
  assumes f: "harmless f" and t: "incident_inv t" "points_to t k i"
  shows "incident_inv (t\<lparr>t_incidents := update_where (\<lambda>r. in_id r = i) f (t_incidents t)\<rparr>)
    \<and> (\<forall>k' j. points_to t k' j \<longrightarrow> points_to (t\<lparr>t_incidents := update_where (\<lambda>r. in_id r = i) f (t_incidents t)\<rparr>) k' j)"
proof -
  let ?g = "\<lambda>r. if in_id r = i then f r else r"
  let ?t = "t\<lparr>t_incidents := update_where (\<lambda>r. in_id r = i) f (t_incidents t)\<rparr>"
  have g: "in_id (?g r) = in_id r \<and> in_fingerprint (?g r) = in_fingerprint r \<and> active (?g r) = active r
      \<and> incident_ok (?g r)" if "r \<in> set (t_incidents t)" for r
  proof (cases "in_id r = i")
    case True
    with points_to_unique [OF t that] f show ?thesis by (simp add: harmless_def)
  next
    case False
    have "incident_ok r" using t(1) that unfolding incident_inv_def by blast
    with False show ?thesis by simp
  qed
  have ids: "map in_id (t_incidents ?t) = map in_id (t_incidents t)"
    using g by (simp add: update_where_def comp_def cong: map_cong)
  have rows: "set (t_incidents ?t) = ?g ` set (t_incidents t)"
    by (simp add: set_update_where)
  have pts: "points_to ?t k' j" if "points_to t k' j" for k' j
  proof -
    from that obtain r where r: "r \<in> set (t_incidents t)" "in_id r = j" "active r"
      "in_fingerprint r = key_fingerprint k'" by (auto simp: points_to_def)
    have "?g r \<in> set (t_incidents ?t)" unfolding rows using r(1) by (rule imageI)
    moreover have "in_id (?g r) = j \<and> active (?g r) \<and> in_fingerprint (?g r) = key_fingerprint k'"
      using g [OF r(1)] r by simp
    ultimately show ?thesis unfolding points_to_def by (rule bexI [rotated])
  qed
  have one: "r = r'" if "r \<in> set (t_incidents ?t)" "r' \<in> set (t_incidents ?t)" "active r" "active r'"
    "in_fingerprint r = in_fingerprint r'" for r r'
  proof -
    from that(1,2) obtain x x' where x: "x \<in> set (t_incidents t)" "r = ?g x"
      and x': "x' \<in> set (t_incidents t)" "r' = ?g x'" unfolding rows by auto
    have uniq: "\<And>a b. a \<in> set (t_incidents t) \<Longrightarrow> b \<in> set (t_incidents t) \<Longrightarrow> active a \<Longrightarrow> active b
        \<Longrightarrow> in_fingerprint a = in_fingerprint b \<Longrightarrow> a = b"
      using t(1) unfolding incident_inv_def by blast
    have "x = x'"
      by (rule uniq [OF x(1) x'(1)]) (use that(3-5) g [OF x(1)] g [OF x'(1)] x(2) x'(2) in simp_all)
    with x x' show ?thesis by simp
  qed
  have "incident_inv ?t"
    unfolding incident_inv_def
  proof (intro conjI)
    show "distinct (map in_id (t_incidents ?t))" unfolding ids using t(1) by (simp add: incident_inv_def)
    show "\<forall>r \<in> set (t_incidents ?t). incident_ok r" unfolding rows using g by blast
    show "\<forall>r \<in> set (t_incidents ?t). \<forall>r' \<in> set (t_incidents ?t).
        active r \<and> active r' \<and> in_fingerprint r = in_fingerprint r' \<longrightarrow> r = r'" using one by blast
    show "distinct (map state_key (t_rule_states ?t))" using t(1) by (simp add: incident_inv_def)
    show "\<forall>s \<in> set (t_rule_states ?t). \<forall>i. st_active_incident_id s = Some i \<longrightarrow> points_to ?t (state_key s) i"
    proof (intro ballI allI impI)
      fix s j
      assume "s \<in> set (t_rule_states ?t)" and "st_active_incident_id s = Some j"
      then have "s \<in> set (t_rule_states t)" by simp
      with \<open>st_active_incident_id s = Some j\<close> have "points_to t (state_key s) j"
        using t(1) unfolding incident_inv_def by blast
      then show "points_to ?t (state_key s) j" by (rule pts)
    qed
    show "distinct (map fst (signal_idents ?t))" using t(1) by (simp add: incident_inv_def)
    show "\<forall>s \<in> set (t_rule_states ?t). \<forall>i. st_last_signal_id s = Some i \<longrightarrow> signal_at ?t (state_key s) i"
      using t(1) by (simp add: incident_inv_def signal_at_def)
  qed
  with pts show ?thesis by blast
qed

lemma harmless_touch [simp]: "harmless (touch x o1 now)"
  by (auto simp: harmless_def touch_def incident_ok_def active_def)

lemma harmless_severity [simp]: "harmless (\<lambda>r. (touch x o1 now r)\<lparr>in_severity := sev\<rparr>)"
  by (auto simp: harmless_def touch_def incident_ok_def active_def)

lemma harmless_reopen [simp]:
  "harmless (\<lambda>r. (touch x o1 now r)\<lparr>in_status := StatusOpen, in_severity := sev, in_recovered_at := None\<rparr>)"
  by (auto simp: harmless_def touch_def incident_ok_def active_def)

lemma harmless_recover [simp]:
  "harmless (\<lambda>r. (touch x o1 now r)\<lparr>in_status := StatusRecovered, in_recovered_at := Some o1\<rparr>)"
  by (auto simp: harmless_def touch_def incident_ok_def active_def)

lemma triple_updateIncidentRow:
  assumes "harmless f" and "rst_ActiveIncidentID s \<noteq> ''''"
  shows "triple (state_inv k s) (updateIncidentRow (rst_ActiveIncidentID s) f) (\<lambda>_. state_inv k s)"
  unfolding updateIncidentRow_def
proof (rule triple_exec)
  fix t
  assume "state_inv k s t"
  with assms(2) have "incident_inv t" "points_to t k (rst_ActiveIncidentID s)"
    by (auto simp: state_inv_def)
  from update_incident_inv [OF assms(1) this] this(2) \<open>state_inv k s t\<close>
  show "state_inv k s (t\<lparr>t_incidents := update_where (\<lambda>r. in_id r = rst_ActiveIncidentID s) f (t_incidents t)\<rparr>)"
    unfolding state_inv_def signal_idents_simps by blast
qed

lemma keeps_appendTimeline:
  "(\<And>t x. f (t\<lparr>t_timeline := x\<rparr>) = f t) \<Longrightarrow> keeps f (appendTimeline i sid kd fs ts fsv tsv sm at)"
  unfolding appendTimeline_def by (intro frame_intros) (auto split: if_splits)

section \<open>The writer of notifications\<close>

text \<open>
  What the evaluator relies on when it hands an event to the notification writer inside its
  transaction: the writer touches the outbox and the timeline only, it only ever appends to
  the timeline, and it does not renumber it.
\<close>

definition timeline_extends :: "tables \<Rightarrow> tables \<Rightarrow> bool" where
  "timeline_extends a b \<longleftrightarrow> (\<exists>xs. t_timeline b = t_timeline a @ xs)"

interpretation timeline: tx_relation timeline_extends
  by unfold_locales (auto simp: timeline_extends_def)

definition outside_outbox :: "tables \<Rightarrow> tables" where
  "outside_outbox t = t\<lparr>t_intents := [], t_timeline := []\<rparr>"

locale intent_writer =
  fixes intents :: intents
  assumes writer_frame: "keeps outside_outbox (enqueueNotification intents e)"
    and writer_timeline: "always timeline_extends (enqueueNotification intents e)"
begin

lemma writer_keeps:
  "(\<And>t x y. f (t\<lparr>t_intents := x, t_timeline := y\<rparr>) = f t) \<Longrightarrow> keeps f (enqueueNotification intents e)"
proof (rule keeps_part [OF writer_frame])
  fix a b
  assume f: "\<And>t x y. f (t\<lparr>t_intents := x, t_timeline := y\<rparr>) = f t"
    and eq: "outside_outbox a = outside_outbox b"
  from eq have "f (a\<lparr>t_intents := [], t_timeline := []\<rparr>) = f (b\<lparr>t_intents := [], t_timeline := []\<rparr>)"
    by (simp add: outside_outbox_def)
  then show "f a = f b" by (simp only: f)
qed

lemma writer_core: "keeps core (enqueueNotification intents e)"
  by (rule writer_keeps) (simp add: core_def)

end

lemma keeps_timeline_core: "keeps core (appendTimeline i sid kd fs ts fsv tsv sm at)"
  by (rule keeps_appendTimeline) (simp add: core_def)

interpretation nil_writer: intent_writer None
  by unfold_locales (auto simp: enqueueNotification_def intro: timeline.return frame_intros)

definition signal_key :: "rule \<Rightarrow> signal \<Rightarrow> state_key" where
  "signal_key rule sig = (ru_ID rule, s_ResourceID sig, s_CheckType sig)"

lemma fingerprint_key: "fingerprint rule sig = key_fingerprint (signal_key rule sig)"
  by (simp add: fingerprint_def key_fingerprint_def signal_key_def)

lemma new_incident_ok [simp]:
  "incident_ok (new_incident u sig rule sev n now)" "active (new_incident u sig rule sev n now)"
  "in_id (new_incident u sig rule sev n now) = u"
  "in_fingerprint (new_incident u sig rule sev n now) = fingerprint rule sig"
  by (simp_all add: new_incident_def incident_ok_def active_def fingerprint_key signal_key_def)

lemma points_to_append: "points_to t k i \<Longrightarrow> points_to (t\<lparr>t_incidents := t_incidents t @ rs\<rparr>) k i"
  by (auto simp: points_to_def)

lemma insert_incident_inv:
  assumes inv: "incident_inv t" and fresh: "u \<notin> in_id ` set (t_incidents t)"
    and free: "\<not> (\<exists>r \<in> set (t_incidents t). active r \<and> in_fingerprint r = fingerprint rule sig)"
  shows "incident_inv (t\<lparr>t_incidents := t_incidents t @ [new_incident u sig rule sev n now]\<rparr>)"
  unfolding incident_inv_def
proof (intro conjI)
  let ?t = "t\<lparr>t_incidents := t_incidents t @ [new_incident u sig rule sev n now]\<rparr>"
  note parts = inv [unfolded incident_inv_def]
  show "distinct (map in_id (t_incidents ?t))" using parts fresh by simp
  show "\<forall>r \<in> set (t_incidents ?t). incident_ok r" using parts by simp
  show "\<forall>r \<in> set (t_incidents ?t). \<forall>r' \<in> set (t_incidents ?t).
      active r \<and> active r' \<and> in_fingerprint r = in_fingerprint r' \<longrightarrow> r = r'"
  proof (intro ballI impI, elim conjE)
    fix r r'
    assume r: "r \<in> set (t_incidents ?t)" "r' \<in> set (t_incidents ?t)" "active r" "active r'"
      "in_fingerprint r = in_fingerprint r'"
    consider "r \<in> set (t_incidents t)" "r' \<in> set (t_incidents t)"
      | "r = new_incident u sig rule sev n now" "r' = new_incident u sig rule sev n now"
      | "r \<in> set (t_incidents t)" "r' = new_incident u sig rule sev n now"
      | "r' \<in> set (t_incidents t)" "r = new_incident u sig rule sev n now"
      using r(1,2) by auto
    then show "r = r'"
    proof cases
      case 1
      then show ?thesis using parts r(3-5) by blast
    next
      case 2
      then show ?thesis by simp
    next
      case 3
      then show ?thesis using free r(3,5) by simp
    next
      case 4
      then show ?thesis using free r(4,5) by auto
    qed
  qed
  show "distinct (map state_key (t_rule_states ?t))" using parts by simp
  show "\<forall>s \<in> set (t_rule_states ?t). \<forall>i. st_active_incident_id s = Some i \<longrightarrow> points_to ?t (state_key s) i"
  proof (intro ballI allI impI)
    fix s j
    assume "s \<in> set (t_rule_states ?t)" and "st_active_incident_id s = Some j"
    with parts have "points_to t (state_key s) j" by simp
    then show "points_to ?t (state_key s) j" by (rule points_to_append)
  qed
  show "distinct (map fst (signal_idents ?t))" using parts by simp
  show "\<forall>s \<in> set (t_rule_states ?t). \<forall>i. st_last_signal_id s = Some i \<longrightarrow> signal_at ?t (state_key s) i"
    using parts by (simp add: signal_at_def)
qed

lemma triple_insertIncident:
  "triple (\<lambda>t. incident_inv t \<and> L (signal_idents t)) (insertIncident sig rule sev n now)
     (\<lambda>o1 t. incident_inv t \<and> L (signal_idents t) \<and> (\<forall>i. o1 = Some i \<longrightarrow> points_to t (signal_key rule sig) i))"
  unfolding insertIncident_def
proof (rule triple_insert)
  fix u c t x t'
  assume pre: "incident_inv t \<and> L (signal_idents t)"
    and run: "(if \<exists>r\<in>set (t_incidents t). active r \<and> in_fingerprint r = fingerprint rule sig then Inr (None, t)
      else if u \<in> in_id ` set (t_incidents t) then Inl DbError
      else Inr (Some u, t\<lparr>t_incidents := t_incidents t @ [new_incident u sig rule sev n now]\<rparr>)) = Inr (x, t')"
  from pre have inv: "incident_inv t" ..
  show "incident_inv t' \<and> L (signal_idents t') \<and> (\<forall>i. x = Some i \<longrightarrow> points_to t' (signal_key rule sig) i)"
  proof (cases "\<exists>r\<in>set (t_incidents t). active r \<and> in_fingerprint r = fingerprint rule sig")
    case True
    with run pre show ?thesis by simp
  next
    case False
    with run have fresh: "u \<notin> in_id ` set (t_incidents t)" and x: "x = Some u"
      and t': "t' = t\<lparr>t_incidents := t_incidents t @ [new_incident u sig rule sev n now]\<rparr>"
      by (auto split: if_splits)
    have "points_to t' (signal_key rule sig) u"
      unfolding t' points_to_def by (simp add: fingerprint_key)
    with insert_incident_inv [OF inv fresh False] x t' pre show ?thesis by simp
  qed
qed

context intent_writer
begin

lemma triple_noticed:
  "triple (state_inv k s) (tx_bind (appendTimeline i sid kd fs ts fsv tsv sm at) (\<lambda>tid.
     tx_bind (enqueueNotification intents (e tid)) (\<lambda>_. tx_return (c, s)))) (\<lambda>(c, s). state_inv k s)"
  by (rule triple_bind [OF triple_core [OF keeps_timeline_core]],
      rule triple_bind [OF triple_core [OF writer_core]], rule triple_return) simp

lemma triple_createIncident:
  "triple (\<lambda>t. incident_inv t \<and> last_ok (signal_key rule sig) s (signal_idents t))
     (createIncident sig rule cond s n now intents) (\<lambda>(c, s'). state_inv (signal_key rule sig) s')"
proof -
  have find: "points_to t (signal_key rule sig) (in_id r)"
    if "List.find (\<lambda>r. in_fingerprint r = fingerprint rule sig \<and> active r) (t_incidents t) = Some r" for t r
    using that unfolding points_to_def find_Some_iff fingerprint_key
    by (metis nth_mem)
  let ?L = "last_ok (signal_key rule sig) s"
  let ?R = "\<lambda>i t. incident_inv t \<and> ?L (signal_idents t) \<and> points_to t (signal_key rule sig) i"
  have pick: "triple (\<lambda>t. incident_inv t \<and> ?L (signal_idents t) \<and> (\<forall>i. o1 = Some i \<longrightarrow> points_to t (signal_key rule sig) i))
    (case o1 of Some i \<Rightarrow> tx_return i | None \<Rightarrow> tx_row (\<lambda>t. map_option in_id (List.find
       (\<lambda>r. in_fingerprint r = fingerprint rule sig \<and> active r) (t_incidents t)))) ?R" for o1
    by (cases o1) (auto intro!: triple_return triple_row find)
  have pre: "triple (?R i) (tx_row f)
      (\<lambda>_. state_inv (signal_key rule sig) (s\<lparr>rst_ActiveIncidentID := i\<rparr>))" for i and f :: "tables \<Rightarrow> time option"
    by (rule triple_row) (simp add: state_inv_def last_ok_def)
  show ?thesis
    unfolding createIncident_def Let_def
    by (rule triple_bind [OF triple_insertIncident], rule triple_bind [OF pick],
        rule triple_bind [OF pre], rule triple_if, rule triple_noticed, rule triple_return) simp
qed


end

context intent_writer
begin

lemma triple_state_query: "triple (state_inv k s) (tx_query f) (\<lambda>_. state_inv k s)"
  by (rule triple_query) simp

lemma triple_openOrUpdateIncident:
  assumes "k = signal_key rule sig"
  shows "triple (state_inv k s) (openOrUpdateIncident sig rule cond s n now intents)
    (\<lambda>(c, s'). state_inv k s')"
proof (cases "rst_ActiveIncidentID s = ''''")
  case True
  have "triple (state_inv k s) (createIncident sig rule cond s n now intents) (\<lambda>(c, s'). state_inv k s')"
    unfolding assms by (rule triple_strengthen [OF triple_createIncident]) (simp add: state_inv_def last_ok_def)
  with True show ?thesis by (simp add: openOrUpdateIncident_def)
next
  case False
  have create: "triple (state_inv k s) (createIncident sig rule cond (s\<lparr>rst_ActiveIncidentID := ''''\<rparr>) n now intents)
      (\<lambda>(c, s'). state_inv k s')"
    unfolding assms by (rule triple_strengthen [OF triple_createIncident]) (simp add: state_inv_def last_ok_def)
  note upd = triple_bind [OF triple_updateIncidentRow [OF _ False]]
  show ?thesis
    unfolding openOrUpdateIncident_def Let_def if_not_P [OF False]
    by (rule triple_bind [OF triple_state_query], rule triple_option, rule create, rule triple_prod,
        rule triple_if, rule upd, simp, rule triple_noticed,
        rule triple_if, rule upd, simp, rule triple_noticed,
        rule triple_if, rule upd, simp, rule triple_noticed,
        rule upd, simp, rule triple_return) simp
qed

lemma triple_recoverIncident:
  "triple (state_inv k s) (recoverIncident sig rule s n now intents) (\<lambda>(c, s'). state_inv k s')"
proof (cases "rst_ActiveIncidentID s = ''''")
  case True
  then show ?thesis by (auto simp: recoverIncident_def intro: triple_return)
next
  case False
  note upd = triple_bind [OF triple_updateIncidentRow [OF _ False]]
  show ?thesis
    unfolding recoverIncident_def Let_def if_not_P [OF False]
    by (rule triple_bind [OF triple_state_query], rule triple_option,
        rule triple_return, simp add: state_inv_def last_ok_def, rule triple_prod,
        rule triple_if, rule triple_return, simp, rule upd, simp, rule triple_noticed)
qed

lemma state_inv_active:
  "rst_ActiveIncidentID s' = rst_ActiveIncidentID s \<and> rst_LastSignalID s' = rst_LastSignalID s \<Longrightarrow>
     state_inv k s t \<Longrightarrow> state_inv k s' t"
  by (simp add: state_inv_def last_ok_def)

lemma triple_evaluate:
  assumes "k = signal_key rule sig"
  shows "triple (state_inv k s) (evaluate sig rule s n now deadline intents) (\<lambda>(c, s'). state_inv k s')"
proof -
  have ret: "triple (state_inv k s) (tx_return (c, s')) (\<lambda>(c, s'). state_inv k s')"
    if "rst_ActiveIncidentID s' = rst_ActiveIncidentID s \<and> rst_LastSignalID s' = rst_LastSignalID s" for c s'
    using that by (auto intro: triple_return state_inv_active)
  have recov: "triple (state_inv k s) (recoverIncident sig rule s' n now intents) (\<lambda>(c, s'). state_inv k s')"
    if "rst_ActiveIncidentID s' = rst_ActiveIncidentID s \<and> rst_LastSignalID s' = rst_LastSignalID s" for s'
    by (rule triple_strengthen [OF triple_recoverIncident state_inv_active [OF that]])
  have op: "triple (state_inv k s) (openOrUpdateIncident sig rule cond s' n now intents) (\<lambda>(c, s'). state_inv k s')"
    if "rst_ActiveIncidentID s' = rst_ActiveIncidentID s \<and> rst_LastSignalID s' = rst_LastSignalID s" for s' cond
    by (rule triple_strengthen [OF triple_openOrUpdateIncident [OF assms] state_inv_active [OF that]])
  show ?thesis
    unfolding evaluate_def Let_def
    by (intro triple_if triple_option ret recov op) simp_all
qed

end

lemma store_state_key [simp]: "state_key (store_state s now r) = state_key r"
  by (simp add: state_key_def store_state_def)

lemma triple_saveRuleState: "triple (state_inv k s) (saveRuleState k s now) (\<lambda>_. incident_inv)"
  unfolding saveRuleState_def
proof (rule triple_exec)
  fix t
  assume inv: "state_inv k s t"
  let ?t = "t\<lparr>t_rule_states := update_where (\<lambda>r. state_key r = k) (store_state s now) (t_rule_states t)\<rparr>"
  note parts = inv [unfolded state_inv_def incident_inv_def]
  have pts: "points_to ?t k' j = points_to t k' j" for k' j by (simp add: points_to_def)
  show "incident_inv ?t"
    unfolding incident_inv_def pts
  proof (intro conjI)
    show "distinct (map state_key (t_rule_states ?t))" using parts by (simp add: map_update_where)
    show "\<forall>x \<in> set (t_rule_states ?t). \<forall>i. st_active_incident_id x = Some i \<longrightarrow> points_to t (state_key x) i"
    proof (intro ballI allI impI)
      fix x i
      assume "x \<in> set (t_rule_states ?t)" and i: "st_active_incident_id x = Some i"
      then obtain r where r: "r \<in> set (t_rule_states t)"
        and x: "x = (if state_key r = k then store_state s now r else r)"
        by (auto simp: set_update_where)
      show "points_to t (state_key x) i"
      proof (cases "state_key r = k")
        case True
        with x i have "nullif (rst_ActiveIncidentID s) = Some i" by (simp add: store_state_def)
        with parts x True show ?thesis by auto
      next
        case False
        with parts x i r show ?thesis by simp
      qed
    qed
    show "\<forall>x \<in> set (t_rule_states ?t). \<forall>i. st_last_signal_id x = Some i \<longrightarrow> signal_at ?t (state_key x) i"
    proof (intro ballI allI impI)
      fix x i
      assume "x \<in> set (t_rule_states ?t)" and i: "st_last_signal_id x = Some i"
      then obtain r where r: "r \<in> set (t_rule_states t)"
        and x: "x = (if state_key r = k then store_state s now r else r)"
        by (auto simp: set_update_where)
      show "signal_at ?t (state_key x) i"
      proof (cases "state_key r = k")
        case True
        with x i have "nullif (rst_LastSignalID s) = Some i" by (simp add: store_state_def)
        with parts x True show ?thesis by (auto simp: last_ok_def signal_at_def)
      next
        case False
        with parts x i r show ?thesis by (simp add: signal_at_def)
      qed
    qed
  qed (use parts in simp_all)
qed

lemma new_rule_state_simps [simp]:
  "state_key (new_rule_state k c) = k" "st_active_incident_id (new_rule_state k c) = None"
  "st_last_signal_id (new_rule_state k c) = None"
  by (auto simp: new_rule_state_def state_key_def split: prod.splits)

lemma triple_lockRuleState: "triple incident_inv (lockRuleState k) (state_inv k)"
  unfolding lockRuleState_def
proof (rule triple_bind)
  show "triple incident_inv (tx_insert (\<lambda>u c t. Inr ((), if k \<in> state_key ` set (t_rule_states t) then t
      else t\<lparr>t_rule_states := t_rule_states t @ [new_rule_state k c]\<rparr>))) (\<lambda>_. incident_inv)"
    by (rule triple_insert) (auto simp: incident_inv_def points_to_def signal_at_def split: if_splits)
  show "triple incident_inv (tx_row (\<lambda>t. map_option scan_state (find_row state_key k (t_rule_states t)))) (state_inv k)"
    for x :: unit
  proof (rule triple_row)
    fix t s
    assume inv: "incident_inv t" and "map_option scan_state (find_row state_key k (t_rule_states t)) = Some s"
    then obtain r where r: "find_row state_key k (t_rule_states t) = Some r" and s: "s = scan_state r" by auto
    from find_row_SomeD [OF r] have "r \<in> set (t_rule_states t)" "state_key r = k" by auto
    with inv s show "state_inv k s t"
      by (cases "st_active_incident_id r"; cases "st_last_signal_id r")
        (auto simp: state_inv_def incident_inv_def scan_state_def last_ok_def signal_at_def)
  qed
qed

section \<open>Every pass keeps the invariant\<close>

text \<open>The journal operations and the queries leave incidents and rule states alone.\<close>

lemma keeps_evidence:
  "(\<And>t x. f (t\<lparr>t_evidence := x\<rparr>) = f t) \<Longrightarrow> keeps f (appendEvaluationEvidence a b c d e at)"
  unfolding appendEvaluationEvidence_def by (intro frame_intros) simp

lemma keeps_MarkProcessed: "(\<And>t x. f (t\<lparr>t_signals := x\<rparr>) = f t) \<Longrightarrow> keeps f (MarkProcessed sid now)"
  unfolding MarkProcessed_def Let_def by (intro frame_intros) simp

lemma keeps_Fail: "(\<And>t x. f (t\<lparr>t_signals := x\<rparr>) = f t) \<Longrightarrow> keeps f (Fail sid now r m c)"
  unfolding Fail_def Let_def by (intro frame_intros) simp

lemma keeps_Claim: "(\<And>t x. f (t\<lparr>t_signals := x\<rparr>) = f t) \<Longrightarrow> keeps f (Claim l ret now lim lease m)"
  unfolding Claim_def Let_def by (intro frame_intros) simp

lemma keeps_Append: "(\<And>t x. f (t\<lparr>t_signals := x\<rparr>) = f t) \<Longrightarrow> keeps f (Append input)"
  unfolding Append_def Let_def by (intro frame_intros) (auto split: if_splits)

lemma keeps_matchingRule: "keeps f (matchingRule sig)" "keeps f (matchingRuleByID i sig)"
  unfolding matchingRule_def matchingRuleByID_def by (intro frame_intros)+

lemma keeps_activeMaintenance: "keeps f (activeMaintenance sig at)"
  unfolding activeMaintenance_def by (intro frame_intros)

lemma keeps_settle:
  assumes "\<And>t x. f (t\<lparr>t_evidence := x\<rparr>) = f t" and "\<And>t x. f (t\<lparr>t_signals := x\<rparr>) = f t"
  shows "keeps f (settle sig a b c d now x)"
  unfolding settle_def by (intro frame_intros keeps_evidence keeps_MarkProcessed) (simp_all add: assms)

lemma keeps_publishChange: "keeps f (publishChange ch)"
  unfolding publishChange_def by (intro frame_intros)

lemma idents_update:
  "(\<And>r. sg_id (f r) = sg_id r \<and> sg_resource_id (f r) = sg_resource_id r \<and> sg_check_type (f r) = sg_check_type r) \<Longrightarrow>
     signal_idents (t\<lparr>t_signals := update_where p f (t_signals t)\<rparr>) = signal_idents t"
  by (simp add: signal_idents_def map_update_where)

lemma core_MarkProcessed: "keeps core (MarkProcessed sid now)"
  unfolding MarkProcessed_def Let_def
  by (intro frame_intros) (simp add: core_def idents_update)

lemma core_Fail: "keeps core (Fail sid now r m c)"
  unfolding Fail_def Let_def by (intro frame_intros) (simp add: core_def idents_update)

lemma core_Claim: "keeps core (Claim l ret now lim lease m)"
  unfolding Claim_def Let_def by (intro frame_intros) (simp add: core_def idents_update lease_row_def)

lemma core_settle: "keeps core (settle sig a b c d now x)"
  unfolding settle_def
  by (intro frame_intros keeps_evidence core_MarkProcessed) (simp add: core_def)

lemma triple_settle: "triple incident_inv (settle sig a b c d now x) (\<lambda>_. incident_inv)"
  by (rule triple_preserves, rule core_incident_inv, rule core_settle)

definition genuine :: "signal \<Rightarrow> (string \<times> string \<times> string) list \<Rightarrow> bool" where
  "genuine sig idents \<longleftrightarrow> (s_ID sig, s_ResourceID sig, s_CheckType sig) \<in> set idents"

lemma rst_active_simps [simp]:
  "rst_ActiveIncidentID (suspend m s) = rst_ActiveIncidentID s"
  "rst_ActiveIncidentID (remember sig s) = rst_ActiveIncidentID s"
  "rst_LastSignalID (suspend m s) = rst_LastSignalID s"
  "rst_LastSignalID (remember sig s) = s_ID sig"
  by (simp_all add: suspend_def remember_def)

lemma triple_save_signal:
  assumes "rst_ActiveIncidentID s' = rst_ActiveIncidentID s" and "rst_LastSignalID s' = s_ID sig"
    and "k = signal_key rule sig"
  shows "triple (\<lambda>t. state_inv k s t \<and> genuine sig (signal_idents t)) (saveRuleState k s' now) (\<lambda>_. incident_inv)"
  by (rule triple_strengthen [OF triple_saveRuleState])
    (use assms in \<open>auto simp: state_inv_def last_ok_def genuine_def signal_key_def\<close>)

lemma triple_save_same:
  assumes "rst_ActiveIncidentID s' = rst_ActiveIncidentID s" and "rst_LastSignalID s' = rst_LastSignalID s"
  shows "triple (state_inv k s) (saveRuleState k s' now) (\<lambda>_. incident_inv)"
  by (rule triple_strengthen [OF triple_saveRuleState]) (use assms in \<open>auto simp: state_inv_def last_ok_def\<close>)

lemma keeps_lockRuleState:
  "(\<And>t x. f (t\<lparr>t_rule_states := x\<rparr>) = f t) \<Longrightarrow> keeps f (lockRuleState k)"
  unfolding lockRuleState_def by (intro frame_intros) (auto split: if_splits)

lemma keeps_saveRuleState:
  "(\<And>t x. f (t\<lparr>t_rule_states := x\<rparr>) = f t) \<Longrightarrow> keeps f (saveRuleState k s now)"
  unfolding saveRuleState_def by (intro frame_intros) simp

lemma triple_and_keeps:
  assumes "triple P m Q" and "keeps f m"
  shows "triple (\<lambda>t. P t \<and> L (f t)) m (\<lambda>x t. Q x t \<and> L (f t))"
  using assms(1) keepsD [OF assms(2)] unfolding triple_def by metis

context intent_writer
begin

lemma keeps_evaluate:
  assumes inc: "\<And>t x. f (t\<lparr>t_incidents := x\<rparr>) = f t" and tl: "\<And>t x. f (t\<lparr>t_timeline := x\<rparr>) = f t"
    and out: "\<And>t x. f (t\<lparr>t_intents := x\<rparr>) = f t"
  shows "keeps f (evaluate sig rule s n now deadline intents)"
proof -
  have tim: "keeps f (appendTimeline i sid kd fs ts fsv tsv sm at)" for i sid kd fs ts fsv tsv sm at
    by (rule keeps_appendTimeline) (rule tl)
  have wr: "keeps f (enqueueNotification intents e)" for e
    by (rule writer_keeps) (simp add: out tl)
  have upd: "keeps f (updateIncidentRow i g)" for i g
    unfolding updateIncidentRow_def by (intro frame_intros) (simp add: inc)
  have ins: "keeps f (insertIncident sig rule sev n now)" for sev
    unfolding insertIncident_def by (intro frame_intros) (auto simp: inc split: if_splits)
  have cr: "keeps f (createIncident sig rule c s' n now intents)" for c s'
    unfolding createIncident_def Let_def by (intro frame_intros ins tim wr)
  have op: "keeps f (openOrUpdateIncident sig rule c s' n now intents)" for c s'
    unfolding openOrUpdateIncident_def Let_def by (intro frame_intros cr upd tim wr)
  have rc: "keeps f (recoverIncident sig rule s' n now intents)" for s'
    unfolding recoverIncident_def Let_def by (intro frame_intros upd tim wr)
  show ?thesis
    unfolding evaluate_def Let_def by (intro frame_intros op rc)
qed

lemma triple_evaluateSignal:
  "triple (\<lambda>t. incident_inv t \<and> genuine sig (signal_idents t))
     (evaluateSignal intents sig now rule n) (\<lambda>_. incident_inv)"
proof -
  let ?k = "signal_key rule sig"
  let ?G = "\<lambda>s t. state_inv ?k s t \<and> genuine sig (signal_idents t)"
  have key: "(ru_ID rule, s_ResourceID sig, s_CheckType sig) = ?k"
    by (simp add: signal_key_def)
  have lock: "triple (\<lambda>t. incident_inv t \<and> genuine sig (signal_idents t)) (lockRuleState ?k) ?G"
    by (rule triple_and_keeps [OF triple_lockRuleState]) (rule keeps_lockRuleState, simp)
  have settled: "triple (?G s) (settle sig a b c d now x) (\<lambda>_. incident_inv)" for s a b c d x
    by (rule triple_strengthen [OF triple_settle]) (simp add: state_inv_def)
  have maint: "triple (?G s) (activeMaintenance sig at) (\<lambda>_. ?G s)" for s at
    by (rule triple_keeps) (rule keeps_activeMaintenance)
  have ev: "triple (?G s) (evaluate sig rule s n now False intents) (\<lambda>x t. case x of (c, s') \<Rightarrow> ?G s' t)" for s
    by (rule triple_conseq [OF triple_and_keeps [OF triple_evaluate [OF refl], where f = signal_idents and L = "genuine sig"]])
      (auto intro!: keeps_evaluate)
  note save = triple_bind [OF triple_save_signal [OF _ _ refl]]
  show ?thesis
    unfolding evaluateSignal_def Let_def key
    by (rule triple_bind [OF lock], rule triple_if, rule settled,
        rule triple_bind [OF maint], rule triple_if, rule save, simp, simp, rule triple_settle,
        rule triple_bind [OF ev], rule triple_prod, simp,
        rule save, simp, simp, rule triple_prod, rule triple_settle)
qed

lemma triple_processSignal:
  "triple (\<lambda>t. incident_inv t \<and> genuine sig (signal_idents t)) (processSignal_body intents sig now) (\<lambda>_. incident_inv)"
  unfolding processSignal_body_def
proof (rule triple_bind [where R = "\<lambda>_ t. incident_inv t \<and> genuine sig (signal_idents t)"])
  let ?G = "\<lambda>t. incident_inv t \<and> genuine sig (signal_idents t)"
  have rule: "triple ?G (tx_try (matchingRule sig)) (\<lambda>_. ?G)"
    by (rule triple_keeps) (intro frame_intros keeps_matchingRule)
  have settled: "triple ?G (settle sig a b c d now x) (\<lambda>_. incident_inv)" for a b c d x
    by (rule triple_strengthen [OF triple_settle]) simp
  show "triple ?G (case x of (processedAt, deadLetteredAt) \<Rightarrow>
     if processedAt \<noteq> None \<or> deadLetteredAt \<noteq> None then tx_return (Commit noChange)
     else tx_bind (tx_try (matchingRule sig)) (processMatched intents sig now)) (\<lambda>_. incident_inv)" for x
    unfolding processMatched_def
    by (rule triple_prod, rule triple_if, rule triple_return, simp, rule triple_bind [OF rule], rule triple_sum,
        rule triple_if, rule settled, rule triple_fail, rule triple_prod, rule triple_evaluateSignal)
qed (rule triple_row, simp)

end

lemma core_genuine: "keeps core m \<Longrightarrow> keeps (\<lambda>t. genuine sig (signal_idents t)) m"
  by (erule keeps_part) (simp add: core_def)

lemma matchingRuleByID_id: "triple P (matchingRuleByID i sig) (\<lambda>x t. P t \<and> ru_ID (fst x) = i)"
  unfolding matchingRuleByID_def
  by (rule triple_row) (auto simp: bind_eq_Some_conv find_Some_iff rule_of_def)

lemma last_signal_key:
  assumes "state_inv k s t" and "find_row sg_id (rst_LastSignalID s) (t_signals t) = Some r"
    and "rst_LastSignalID s \<noteq> ''''"
  shows "sg_resource_id r = fst (snd k) \<and> sg_check_type r = snd (snd k)"
proof -
  from find_row_SomeD [OF assms(2)] have r: "r \<in> set (t_signals t)" "sg_id r = rst_LastSignalID s" by auto
  from assms(1,3) have "(rst_LastSignalID s, snd k) \<in> set (signal_idents t)"
    by (simp add: state_inv_def last_ok_def)
  moreover have "(rst_LastSignalID s, sg_resource_id r, sg_check_type r) \<in> set (signal_idents t)"
    using r by (force simp: signal_idents_def)
  moreover have "distinct (map fst (signal_idents t))"
    using assms(1) by (simp add: state_inv_def incident_inv_def)
  ultimately have "snd k = (sg_resource_id r, sg_check_type r)"
    by (meson eq_key_imp_eq_value)
  then show ?thesis by simp
qed

context intent_writer
begin

lemma triple_evaluateDue: "triple incident_inv (evaluateDue intents now k) (\<lambda>_. incident_inv)"
proof -
  let ?S = "\<lambda>s sig t. state_inv k s t \<and> (s_ResourceID sig, s_CheckType sig) = snd k"
  have last: "triple (state_inv k s) (if rst_LastSignalID s = '''' then tx_fail DbError
      else tx_row (\<lambda>t. map_option scan_signal (find_row sg_id (rst_LastSignalID s) (t_signals t)))) (?S s)" for s
    by (rule triple_if, rule triple_fail, rule triple_row)
      (use last_signal_key in \<open>fastforce simp: scan_signal_def prod_eq_iff\<close>)
  have rule: "triple (?S s sig) (tx_try (matchingRuleByID (fst k) sig))
      (\<lambda>found t. ?S s sig t \<and> (case found of Inl _ \<Rightarrow> True | Inr (rule, _) \<Rightarrow> ru_ID rule = fst k))" for s sig
    by (rule triple_try [OF keeps_matchingRule(2)], rule triple_conseq [OF matchingRuleByID_id [where P = "?S s sig"]])
      (auto simp: case_prod_unfold)
  have maint: "triple P (activeMaintenance sig at) (\<lambda>_. P)" for P sig at
    by (rule triple_keeps) (rule keeps_activeMaintenance)
  have same: "triple (\<lambda>t. ?S s sig t \<and> X) (saveRuleState k s' now) (\<lambda>_. incident_inv)"
    if "rst_ActiveIncidentID s' = rst_ActiveIncidentID s" "rst_LastSignalID s' = rst_LastSignalID s" for s s' sig X
    by (rule triple_strengthen [OF triple_save_same [OF that]]) simp
  have ev: "triple (\<lambda>t. ?S s sig t \<and> ru_ID rule = fst k) (evaluate sig rule s n now True intents)
      (\<lambda>x t. case x of (c, s') \<Rightarrow> state_inv k s' t)" for s sig rule n
  proof (cases "k = signal_key rule sig")
    case True
    show ?thesis
      by (rule triple_conseq [OF triple_evaluate [OF True, of s n now True]]) auto
  next
    case False
    then show ?thesis by (auto simp: triple_def signal_key_def prod_eq_iff)
  qed
  have fin: "triple incident_inv (tx_return x) (\<lambda>_. incident_inv)" for x :: "(incidentChange \<times> bool) outcome"
    by (rule triple_return)
  show ?thesis
    unfolding evaluateDue_def
    by (rule triple_bind [OF triple_lockRuleState], rule triple_bind [OF last], rule triple_bind [OF rule],
        rule triple_sum, rule triple_if, rule triple_bind [OF same], simp, simp, rule fin, rule triple_fail,
        rule triple_prod, rule triple_bind [OF maint], rule triple_if,
        rule triple_bind [OF same], simp, simp, rule fin,
        rule triple_bind, rule triple_strengthen [OF ev], simp, rule triple_prod, simp,
        rule triple_bind [OF triple_save_same], simp, simp, rule fin)
qed

lemma preserves_processOneDue: "preserves incident_inv (processOneDue intents locked now)"
  unfolding processOneDue_def
  by (rule in_tx_preserves, rule triple_bind [where R = "\<lambda>_. incident_inv"], rule triple_query, assumption,
      rule triple_option, rule triple_return, assumption, rule triple_evaluateDue)

lemma preserves_processDue: "preserves incident_inv (processDue intents locked now limit)"
proof (induction limit)
  case 0
  show ?case unfolding processDue.simps by (intro preserves_intros)
next
  case (Suc limit)
  then show ?case unfolding processDue.simps by (intro preserves_intros preserves_processOneDue)
qed

end

definition claimed_inv :: "signal list \<Rightarrow> tables \<Rightarrow> bool" where
  "claimed_inv sigs t \<longleftrightarrow> incident_inv t \<and> (\<forall>sig \<in> set sigs. genuine sig (signal_idents t))"

lemma claimed_inv_core: "core a = core b \<Longrightarrow> claimed_inv sigs a = claimed_inv sigs b"
  using incident_inv_core [of a b] by (simp add: claimed_inv_def core_def)

lemma idents_settle: "keeps signal_idents (settle sig a b c d now x)"
  by (rule keeps_part [OF core_settle]) (simp add: core_def)

lemma Claim_genuine:
  assumes "Claim locked returning now limit lease maxAttempts w = (Inr xs, w')"
    and "\<And>ys. mset (returning ys) = mset ys" and "x \<in> set xs"
  shows "genuine x (signal_idents (w_tables w'))"
proof -
  from Claim_Inr [OF assms(1)] obtain ids where
    xs: "xs = returning (map scan_signal (filter (\<lambda>r. sg_id r \<in> ids) (t_signals (w_tables w'))))"
    by blast
  have "set xs = set (map scan_signal (filter (\<lambda>r. sg_id r \<in> ids) (t_signals (w_tables w'))))"
    unfolding xs using assms(2) by (metis set_mset_mset)
  with assms(3) obtain r where "r \<in> set (t_signals (w_tables w'))" "x = scan_signal r" by auto
  then show ?thesis by (force simp: genuine_def signal_idents_def scan_signal_def)
qed

context intent_writer
begin

lemma idents_processSignal_body: "keeps signal_idents (processSignal_body intents sig now)"
  unfolding processSignal_body_def processMatched_def evaluateSignal_def Let_def
  by (intro frame_intros keeps_matchingRule idents_settle keeps_activeMaintenance keeps_lockRuleState
      keeps_saveRuleState keeps_evaluate) simp_all

lemma claimed_processSignal:
  assumes "sig \<in> set sigs"
  shows "preserves (claimed_inv sigs) (processSignal intents sig now)"
  unfolding processSignal_def
proof (rule in_tx_preserves)
  have "triple (\<lambda>t. (incident_inv t \<and> genuine sig (signal_idents t)) \<and> (\<forall>x \<in> set sigs. genuine x (signal_idents t)))
      (processSignal_body intents sig now) (\<lambda>_ t. incident_inv t \<and> (\<forall>x \<in> set sigs. genuine x (signal_idents t)))"
    by (rule triple_and_keeps [OF triple_processSignal idents_processSignal_body])
  then show "triple (claimed_inv sigs) (processSignal_body intents sig now) (\<lambda>_. claimed_inv sigs)"
    by (rule triple_conseq) (use assms in \<open>auto simp: claimed_inv_def\<close>)
qed

lemma claimed_processClaimed:
  assumes "op_Intents opts = intents" and "set rest \<subseteq> set sigs"
  shows "preserves (claimed_inv sigs) (processClaimed opts now rest)"
  using assms(2)
proof (induction rest)
  case Nil
  show ?case unfolding processClaimed.simps by (intro preserves_intros)
next
  case (Cons sig rest)
  have fl: "preserves (claimed_inv sigs) (Fail i now r m c)" for i r m c
    by (rule preserves_of_keeps [OF claimed_inv_core core_Fail])
  have pb: "preserves (claimed_inv sigs) (publishChange ch)" for ch
    by (rule preserves_of_keeps [OF claimed_inv_core keeps_publishChange])
  from Cons show ?case
    unfolding processClaimed.simps assms(1)
    by (intro preserves_intros claimed_processSignal fl pb) auto
qed

lemma preserves_ProcessOnce:
  assumes "op_Intents opts = intents" and "\<And>ys. mset (returning ys) = mset ys"
  shows "preserves incident_inv (ProcessOnce opts lockedSignals returning lockedStates clock)"
  unfolding preserves_def
proof (rule alwaysI, rule impI)
  fix w :: world
  assume inv: "incident_inv (w_tables w)"
  let ?now = "truncate_us clock"
  let ?claim = "Claim lockedSignals returning ?now (op_BatchSize opts) (op_ClaimLease opts) (op_MaxAttempts opts)"
  let ?rest = "\<lambda>claimed. tx_bind (processClaimed opts ?now claimed) (\<lambda>processed.
      tx_bind (processDue (op_Intents opts) lockedStates ?now (nat (op_BatchSize opts))) (\<lambda>changes.
      tx_bind (tx_for publishChange changes) (\<lambda>_. tx_return processed)))"
  obtain r w1 where run: "?claim w = (r, w1)" by (cases "?claim w")
  have inv1: "incident_inv (w_tables w1)"
    using preservesD [OF core_incident_inv [OF core_Claim] run inv] .
  show "incident_inv (w_tables (snd (ProcessOnce opts lockedSignals returning lockedStates clock w)))"
  proof (cases r)
    case (Inl e)
    with run inv1 show ?thesis by (simp add: ProcessOnce_def Let_def tx_bind_err)
  next
    case (Inr claimed)
    have c: "claimed_inv claimed (w_tables w1)"
      using inv1 Claim_genuine [OF run [unfolded Inr] assms(2)] by (simp add: claimed_inv_def)
    obtain r2 w2 where run2: "processClaimed opts ?now claimed w1 = (r2, w2)" by (cases "processClaimed opts ?now claimed w1")
    have inv2: "incident_inv (w_tables w2)"
      using preservesD [OF claimed_processClaimed [OF assms(1) order_refl] run2 c] by (simp add: claimed_inv_def)
    have tail: "preserves incident_inv (tx_bind (processDue (op_Intents opts) lockedStates ?now (nat (op_BatchSize opts))) (\<lambda>changes.
      tx_bind (tx_for publishChange changes) (\<lambda>_. tx_return x)))" for x :: int
      unfolding assms(1)
      by (intro preserves_intros preserves_processDue core_incident_inv keeps_publishChange)
    have "ProcessOnce opts lockedSignals returning lockedStates clock w = ?rest claimed w1"
      unfolding ProcessOnce_def Let_def using run Inr by (simp add: tx_bind_run)
    then show ?thesis
      using run2 inv2 preserves_snd [OF tail inv2]
      by (cases r2) (simp_all add: tx_bind_err tx_bind_run)
  qed
qed

end

section \<open>One transaction, one recorded transition\<close>

text \<open>
  The moves the evaluator may make on an unresolved incident: leave its status, recover it
  when it is open, acknowledged or under investigation, reopen it when it is recovered; each
  move advances the version by one and keeps what identifies the incident.
\<close>

definition evaluator_edge :: "incident_row \<Rightarrow> incident_row \<Rightarrow> bool" where
  "evaluator_edge r r' \<longleftrightarrow> active r \<and> in_id r' = in_id r \<and> in_fingerprint r' = in_fingerprint r
     \<and> in_rule_id r' = in_rule_id r \<and> in_resource_id r' = in_resource_id r
     \<and> in_check_type r' = in_check_type r \<and> in_detected_at r' = in_detected_at r
     \<and> in_created_at r' = in_created_at r \<and> in_owner_user_id r' = in_owner_user_id r
     \<and> in_acknowledged_at r' = in_acknowledged_at r \<and> in_resolved_at r' = in_resolved_at r
     \<and> in_latest_signal_at r \<le> in_latest_signal_at r' \<and> in_version r' = in_version r + 1
     \<and> (in_status r' = in_status r
        \<or> in_status r \<in> {StatusOpen, StatusAcknowledged, StatusInvestigating} \<and> in_status r' = StatusRecovered
        \<or> in_status r = StatusRecovered \<and> in_status r' = StatusOpen)"

text \<open>At most one incident is opened or moved.\<close>

definition evaluator_step :: "incident_row list \<Rightarrow> incident_row list \<Rightarrow> bool" where
  "evaluator_step rows rows' \<longleftrightarrow> rows' = rows
     \<or> (\<exists>r. rows' = rows @ [r] \<and> in_status r = StatusOpen \<and> in_version r = 1)
     \<or> (\<exists>i f. rows' = update_where (\<lambda>r. in_id r = i) f rows \<and> (\<forall>r \<in> set rows. in_id r = i \<longrightarrow> evaluator_edge r (f r)))"

text \<open>The timeline says so: an entry for every change of status, with both ends.\<close>

definition covers :: "incident_row list \<Rightarrow> incident_row list \<Rightarrow> timeline_row list \<Rightarrow> bool" where
  "covers rows rows' new \<longleftrightarrow> (\<forall>r \<in> set rows. \<forall>r' \<in> set rows'.
     in_id r = in_id r' \<and> in_status r \<noteq> in_status r' \<longrightarrow>
     (\<exists>e \<in> set new. tl_incident_id e = in_id r
        \<and> tl_from_status e = Some (in_status r) \<and> tl_to_status e = Some (in_status r')))"

definition recorded_step :: "incident_row list \<Rightarrow> timeline_row list \<Rightarrow> tables \<Rightarrow> bool" where
  "recorded_step rows log t \<longleftrightarrow> evaluator_step rows (t_incidents t)
     \<and> (\<exists>new. t_timeline t = log @ new \<and> covers rows (t_incidents t) new)"

lemma distinct_ids_eq: "distinct (map in_id rows) \<Longrightarrow> r \<in> set rows \<Longrightarrow> r' \<in> set rows \<Longrightarrow> in_id r = in_id r' \<Longrightarrow> r = r'"
  by (simp add: distinct_map inj_on_def)

lemma covers_refl: "distinct (map in_id rows) \<Longrightarrow> covers rows rows new"
  unfolding covers_def by (blast dest: distinct_ids_eq)

lemma recorded_refl: "distinct (map in_id (t_incidents t)) \<Longrightarrow> recorded_step (t_incidents t) (t_timeline t) t"
  by (simp add: recorded_step_def evaluator_step_def covers_refl)

lemma recorded_frame:
  "t_incidents a = t_incidents b \<Longrightarrow> t_timeline a = t_timeline b \<Longrightarrow> recorded_step rows log a = recorded_step rows log b"
  by (simp add: recorded_step_def)

lemma covers_update:
  assumes "distinct (map in_id rows)" and "\<And>r. r \<in> set rows \<Longrightarrow> in_id r = i \<Longrightarrow>
      in_id (f r) = i \<and> (in_status (f r) \<noteq> in_status r \<longrightarrow> (\<exists>e \<in> set new. tl_incident_id e = i
        \<and> tl_from_status e = Some (in_status r) \<and> tl_to_status e = Some (in_status (f r))))"
  shows "covers rows (update_where (\<lambda>r. in_id r = i) f rows) new"
  unfolding covers_def
proof (intro ballI impI, elim conjE)
  fix r r'
  assume r: "r \<in> set rows" "in_id r = in_id r'" "in_status r \<noteq> in_status r'"
    and "r' \<in> set (update_where (\<lambda>r. in_id r = i) f rows)"
  then obtain x where x: "x \<in> set rows" "r' = (if in_id x = i then f x else x)"
    by (auto simp: set_update_where)
  have "in_id x = in_id r" using x r(2) assms(2) [of x] by (auto split: if_splits)
  then have "x = r" using distinct_ids_eq [OF assms(1) x(1) r(1)] by simp
  with x r assms(2) [of r] show "\<exists>e \<in> set new. tl_incident_id e = in_id r
      \<and> tl_from_status e = Some (in_status r) \<and> tl_to_status e = Some (in_status r')"
    by (auto split: if_splits)
qed

lemma triple_timeline_entry:
  "triple (\<lambda>t. P (t_incidents t) \<and> t_timeline t = log) (appendTimeline i sid kd fs ts fsv tsv sm at)
     (\<lambda>_ t. P (t_incidents t) \<and> (\<exists>e. t_timeline t = log @ [e] \<and> tl_incident_id e = i
        \<and> tl_from_status e = fs \<and> tl_to_status e = ts))"
  unfolding appendTimeline_def by (rule triple_insert) (auto split: if_splits)

context intent_writer
begin

lemma triple_writer_log:
  "triple (\<lambda>t. P (t_incidents t) \<and> t_timeline t = log) (enqueueNotification intents e)
     (\<lambda>_ t. P (t_incidents t) \<and> (\<exists>xs. t_timeline t = log @ xs))"
  unfolding triple_def
proof (intro allI impI, elim conjE)
  fix w x w'
  assume P: "P (t_incidents (w_tables w))" and log: "t_timeline (w_tables w) = log"
    and run: "enqueueNotification intents e w = (Inr x, w')"
  have "t_incidents (w_tables w') = t_incidents (w_tables w)"
    using keepsD [OF writer_keeps [of t_incidents] run] by simp
  moreover have "timeline_extends (w_tables w) (w_tables w')"
    using alwaysD [OF writer_timeline, of w e] run by simp
  ultimately show "P (t_incidents (w_tables w')) \<and> (\<exists>xs. t_timeline (w_tables w') = log @ xs)"
    using P log by (auto simp: timeline_extends_def)
qed

lemma triple_announced:
  "triple (\<lambda>t. P (t_incidents t) \<and> t_timeline t = log)
     (tx_bind (appendTimeline i sid kd fs ts fsv tsv sm at) (\<lambda>tid.
      tx_bind (enqueueNotification intents (ev tid)) (\<lambda>_. tx_return x)))
     (\<lambda>_ t. P (t_incidents t) \<and> (\<exists>e xs. t_timeline t = log @ e # xs \<and> tl_incident_id e = i
        \<and> tl_from_status e = fs \<and> tl_to_status e = ts))"
proof (rule triple_bind [OF triple_timeline_entry])
  fix tid
  show "triple (\<lambda>t. P (t_incidents t) \<and> (\<exists>e. t_timeline t = log @ [e] \<and> tl_incident_id e = i
        \<and> tl_from_status e = fs \<and> tl_to_status e = ts))
     (tx_bind (enqueueNotification intents (ev tid)) (\<lambda>_. tx_return x))
     (\<lambda>_ t. P (t_incidents t) \<and> (\<exists>e xs. t_timeline t = log @ e # xs \<and> tl_incident_id e = i
        \<and> tl_from_status e = fs \<and> tl_to_status e = ts))"
  proof (rule triple_pre, elim conjE exE)
    fix t0 :: tables and e
    assume P: "P (t_incidents t0)" and e: "t_timeline t0 = log @ [e]" "tl_incident_id e = i"
      "tl_from_status e = fs" "tl_to_status e = ts"
    have "triple (\<lambda>t. t = t0) (enqueueNotification intents (ev tid))
      (\<lambda>_ t. P (t_incidents t) \<and> (\<exists>xs. t_timeline t = (log @ [e]) @ xs))"
      by (rule triple_strengthen [OF triple_writer_log]) (simp add: P e)
    then show "triple (\<lambda>t. t = t0) (tx_bind (enqueueNotification intents (ev tid)) (\<lambda>_. tx_return x))
      (\<lambda>_ t. P (t_incidents t) \<and> (\<exists>e xs. t_timeline t = log @ e # xs \<and> tl_incident_id e = i
        \<and> tl_from_status e = fs \<and> tl_to_status e = ts))"
      by (rule triple_bind, intro triple_return) (use e in auto)
  qed
qed

text \<open>Update, entry, notification: the recorded move.\<close>

lemma triple_move:
  assumes "distinct (map in_id rows)"
    and edge: "\<And>r. r \<in> set rows \<Longrightarrow> in_id r = i \<Longrightarrow> evaluator_edge r (f r)"
    and ends: "\<And>r. r \<in> set rows \<Longrightarrow> in_id r = i \<Longrightarrow> in_status (f r) \<noteq> in_status r \<Longrightarrow>
      fs = Some (in_status r) \<and> ts = Some (in_status (f r))"
  shows "triple (\<lambda>t. t_incidents t = rows \<and> t_timeline t = log)
     (tx_bind (updateIncidentRow i f) (\<lambda>_. tx_bind (appendTimeline i sid kd fs ts fsv tsv sm at) (\<lambda>tid.
      tx_bind (enqueueNotification intents (ev tid)) (\<lambda>_. tx_return x)))) (\<lambda>_. recorded_step rows log)"
proof (rule triple_bind)
  let ?rows = "update_where (\<lambda>r. in_id r = i) f rows"
  show "triple (\<lambda>t. t_incidents t = rows \<and> t_timeline t = log) (updateIncidentRow i f)
      (\<lambda>_ t. t_incidents t = ?rows \<and> t_timeline t = log)"
    unfolding updateIncidentRow_def by (rule triple_exec) simp
  show "triple (\<lambda>t. t_incidents t = ?rows \<and> t_timeline t = log)
      (tx_bind (appendTimeline i sid kd fs ts fsv tsv sm at) (\<lambda>tid.
      tx_bind (enqueueNotification intents (ev tid)) (\<lambda>_. tx_return x))) (\<lambda>_. recorded_step rows log)" for u :: unit
  proof (rule triple_conseq [OF triple_announced [where P = "\<lambda>rs. rs = ?rows"]], assumption, elim conjE exE)
    fix u and t :: tables and e xs
    assume t: "t_incidents t = ?rows" "t_timeline t = log @ e # xs"
      and e: "tl_incident_id e = i" "tl_from_status e = fs" "tl_to_status e = ts"
    have "covers rows ?rows (e # xs)"
      by (rule covers_update [OF assms(1)]) (use edge ends e in \<open>auto simp: evaluator_edge_def\<close>)
    moreover have "evaluator_step rows ?rows"
      unfolding evaluator_step_def using edge by (intro disjI2 exI [of _ i] exI [of _ f]) blast
    ultimately show "recorded_step rows log t" using t by (auto simp: recorded_step_def)
  qed
qed

end

text \<open>A step that changes no status needs no entry.\<close>

definition quiet :: "incident_row list \<Rightarrow> incident_row list \<Rightarrow> bool" where
  "quiet rows rows' \<longleftrightarrow> evaluator_step rows rows' \<and> covers rows rows' []"

lemma covers_mono: "covers rows rows' xs \<Longrightarrow> set xs \<subseteq> set ys \<Longrightarrow> covers rows rows' ys"
  unfolding covers_def by (meson subsetD)

lemma quiet_refl: "distinct (map in_id rows) \<Longrightarrow> quiet rows rows"
  by (simp add: quiet_def evaluator_step_def covers_refl)

lemma quiet_new:
  assumes "distinct (map in_id rows)" and "u \<notin> in_id ` set rows"
  shows "quiet rows (rows @ [new_incident u sig rule sev n now])"
proof -
  have "covers rows (rows @ [new_incident u sig rule sev n now]) []"
    unfolding covers_def
  proof (intro ballI impI, elim conjE)
    fix r r'
    assume r: "r \<in> set rows" "in_id r = in_id r'" "in_status r \<noteq> in_status r'"
      and "r' \<in> set (rows @ [new_incident u sig rule sev n now])"
    then consider "r' \<in> set rows" | "r' = new_incident u sig rule sev n now" by auto
    then have False
    proof cases
      case 1
      with distinct_ids_eq [OF assms(1) r(1) 1 r(2)] r(3) show ?thesis by simp
    next
      case 2
      with r assms(2) show ?thesis by force
    qed
    then show "\<exists>e \<in> set []. tl_incident_id e = in_id r
        \<and> tl_from_status e = Some (in_status r) \<and> tl_to_status e = Some (in_status r')" ..
  qed
  moreover have "evaluator_step rows (rows @ [new_incident u sig rule sev n now])"
    by (simp add: evaluator_step_def new_incident_def)
  ultimately show ?thesis by (simp add: quiet_def)
qed

lemma quiet_recorded: "quiet rows (t_incidents t) \<Longrightarrow> t_timeline t = log @ xs \<Longrightarrow> recorded_step rows log t"
  unfolding quiet_def recorded_step_def using covers_mono [of rows "t_incidents t" "[]" xs] by auto

lemma quiet_update:
  assumes "distinct (map in_id rows)"
    and "\<And>r. r \<in> set rows \<Longrightarrow> in_id r = i \<Longrightarrow> evaluator_edge r (f r) \<and> in_status (f r) = in_status r"
  shows "quiet rows (update_where (\<lambda>r. in_id r = i) f rows)"
proof -
  have "covers rows (update_where (\<lambda>r. in_id r = i) f rows) []"
    by (rule covers_update [OF assms(1)]) (use assms(2) in \<open>auto simp: evaluator_edge_def\<close>)
  moreover have "evaluator_step rows (update_where (\<lambda>r. in_id r = i) f rows)"
    unfolding evaluator_step_def using assms(2) by (intro disjI2 exI [of _ i] exI [of _ f]) blast
  ultimately show ?thesis by (simp add: quiet_def)
qed

lemma triple_insert_quiet:
  assumes "distinct (map in_id rows)"
  shows "triple (\<lambda>t. t_incidents t = rows \<and> t_timeline t = log) (insertIncident sig rule sev n now)
    (\<lambda>_ t. quiet rows (t_incidents t) \<and> t_timeline t = log)"
  unfolding insertIncident_def
  by (rule triple_insert) (auto simp: quiet_refl quiet_new assms split: if_splits)

lemma edge_touch: "active r \<Longrightarrow> evaluator_edge r (touch sm o1 now r)"
  by (simp add: evaluator_edge_def touch_def)

lemma edge_severity: "active r \<Longrightarrow> evaluator_edge r ((touch sm o1 now r)\<lparr>in_severity := sev\<rparr>)"
  by (simp add: evaluator_edge_def touch_def)

lemma edge_reopen:
  "in_status r = StatusRecovered \<Longrightarrow> evaluator_edge r
     ((touch sm o1 now r)\<lparr>in_status := StatusOpen, in_severity := sev, in_recovered_at := None\<rparr>)"
  by (simp add: evaluator_edge_def touch_def active_def)

lemma edge_recover:
  "in_status r \<noteq> StatusRecovered \<Longrightarrow> in_status r \<noteq> StatusResolved \<Longrightarrow> evaluator_edge r
     ((touch sm o1 now r)\<lparr>in_status := StatusRecovered, in_recovered_at := Some o1\<rparr>)"
  by (cases "in_status r") (simp_all add: evaluator_edge_def touch_def active_def)

lemma touch_status [simp]: "in_status (touch sm o1 now r) = in_status r"
  by (simp add: touch_def)

lemma triple_query_at: "triple (\<lambda>t. t = t0) (tx_query f) (\<lambda>x t. t = t0 \<and> x = f t0)"
  by (rule triple_query) simp

context intent_writer
begin

lemma recorded_announced:
  "triple (\<lambda>t. quiet rows (t_incidents t) \<and> t_timeline t = log)
     (tx_bind (appendTimeline i sid kd fs ts fsv tsv sm at) (\<lambda>tid.
      tx_bind (enqueueNotification intents (ev tid)) (\<lambda>_. tx_return x))) (\<lambda>_. recorded_step rows log)"
  by (rule triple_conseq [OF triple_announced [where P = "quiet rows"]]) (auto intro: quiet_recorded)

lemma recorded_createIncident:
  assumes "distinct (map in_id rows)"
  shows "triple (\<lambda>t. t_incidents t = rows \<and> t_timeline t = log) (createIncident sig rule cond s n now intents)
    (\<lambda>_. recorded_step rows log)"
proof -
  let ?Q = "\<lambda>t. quiet rows (t_incidents t) \<and> t_timeline t = log"
  have pick: "triple ?Q (case o1 of Some i \<Rightarrow> tx_return i | None \<Rightarrow> tx_row g) (\<lambda>_. ?Q)" for o1 and g :: "tables \<Rightarrow> string option"
    by (cases o1) (auto intro!: triple_return triple_row)
  have row: "triple ?Q (tx_row g) (\<lambda>_. ?Q)" for g :: "tables \<Rightarrow> time option"
    by (rule triple_row)
  show ?thesis
    unfolding createIncident_def Let_def
    by (rule triple_bind [OF triple_insert_quiet [OF assms]], rule triple_bind [OF pick], rule triple_bind [OF row],
        rule triple_if, rule recorded_announced, rule triple_return) (auto intro: quiet_recorded [where xs = "[]"])
qed

lemma recorded_openOrUpdate:
  assumes inv: "state_inv k s t0"
  shows "triple (\<lambda>t. t = t0) (openOrUpdateIncident sig rule cond s n now intents)
    (\<lambda>_. recorded_step (t_incidents t0) (t_timeline t0))"
proof -
  let ?rows = "t_incidents t0" and ?log = "t_timeline t0" and ?i = "rst_ActiveIncidentID s"
  have dist: "distinct (map in_id ?rows)" using inv by (simp add: state_inv_def incident_inv_def)
  have create: "triple (\<lambda>t. t = t0) (createIncident sig rule cond s' n now intents) (\<lambda>_. recorded_step ?rows ?log)" for s'
    by (rule triple_strengthen [OF recorded_createIncident [OF dist]]) simp
  show ?thesis
  proof (cases "?i = ''''")
    case True
    then show ?thesis using create by (simp add: openOrUpdateIncident_def)
  next
    case False
    have act: "active r" if "r \<in> set ?rows" "in_id r = ?i" for r
      using points_to_unique [of t0 k ?i r] inv False that by (auto simp: state_inv_def)
    have move: "triple (\<lambda>t. t = t') (tx_bind (updateIncidentRow ?i f) (\<lambda>_. tx_bind (appendTimeline ?i sid kd fs ts fsv tsv sm at) (\<lambda>tid.
        tx_bind (enqueueNotification intents (ev tid)) (\<lambda>_. tx_return x)))) (\<lambda>_. recorded_step ?rows ?log)"
      if "t' = t0" and "\<And>r. r \<in> set ?rows \<Longrightarrow> in_id r = ?i \<Longrightarrow> evaluator_edge r (f r) \<and>
        (in_status (f r) \<noteq> in_status r \<longrightarrow> fs = Some (in_status r) \<and> ts = Some (in_status (f r)))"
      for t' f sid kd fs ts fsv tsv sm at ev and x :: "incidentChange \<times> ruleState"
      by (rule triple_strengthen [OF triple_move [OF dist]]) (use that in auto)
    have last: "triple (\<lambda>t. t = t') (tx_bind (updateIncidentRow ?i (touch sm o1 now)) (\<lambda>_. tx_return x))
        (\<lambda>_. recorded_step ?rows ?log)" if "t' = t0" for t' sm o1 and x :: "incidentChange \<times> ruleState"
      unfolding updateIncidentRow_def that
      by (rule triple_bind [where R = "\<lambda>_. recorded_step ?rows ?log"], rule triple_exec)
        (auto intro!: quiet_recorded [where xs = "[]"] quiet_update [OF dist] triple_return edge_touch act)
    have st: "in_status r = st" if "map_option (\<lambda>r. (in_status r, in_severity r)) (find_row in_id ?i ?rows) = Some (st, sv)"
      "r \<in> set ?rows" "in_id r = ?i" for r st sv
      using that find_row_distinct [OF dist that(2)] by auto
    have reopen: "evaluator_edge r ((touch sm o1 now r)\<lparr>in_status := StatusOpen, in_severity := sev, in_recovered_at := None\<rparr>)
        \<and> (in_status ((touch sm o1 now r)\<lparr>in_status := StatusOpen, in_severity := sev, in_recovered_at := None\<rparr>) \<noteq> in_status r \<longrightarrow>
          Some StatusRecovered = Some (in_status r) \<and> Some StatusOpen =
          Some (in_status ((touch sm o1 now r)\<lparr>in_status := StatusOpen, in_severity := sev, in_recovered_at := None\<rparr>)))"
      if "r \<in> set ?rows" "in_id r = ?i" "st = StatusRecovered" "x = Some y" "y = (st, sv)"
        "x = map_option (\<lambda>r. (in_status r, in_severity r)) (find_row in_id ?i ?rows)" for r sm o1 sev st sv x y
    proof -
      have "in_status r = StatusRecovered" using st [of st sv r] that by simp
      then show ?thesis by (simp add: edge_reopen)
    qed
    have stay: "evaluator_edge r r' \<Longrightarrow> in_status r' = in_status r \<Longrightarrow>
        evaluator_edge r r' \<and> (in_status r' \<noteq> in_status r \<longrightarrow> P)" for r r' P
      by simp
    show ?thesis
      unfolding openOrUpdateIncident_def Let_def if_not_P [OF False]
      apply (rule triple_bind [OF triple_query_at])
      apply (rule triple_option)
       apply (rule triple_strengthen [OF create], simp)
      apply (rule triple_prod)
      subgoal for x y st sv
        apply (rule triple_pre)
        apply (elim conjE)
        apply (rule triple_if, rule move, assumption, rule reopen, assumption+)
        apply (rule triple_if, rule move, assumption, rule stay, rule edge_severity, erule (1) act, simp)
        apply (rule triple_if, rule move, assumption, rule stay, rule edge_touch, erule (1) act, simp)
        apply (rule last, assumption)
        done
      done
  qed
qed

end

context intent_writer
begin

lemma recorded_recover:
  assumes inv: "state_inv k s t0"
  shows "triple (\<lambda>t. t = t0) (recoverIncident sig rule s n now intents)
    (\<lambda>_. recorded_step (t_incidents t0) (t_timeline t0))"
proof -
  let ?rows = "t_incidents t0" and ?log = "t_timeline t0" and ?i = "rst_ActiveIncidentID s"
  have dist: "distinct (map in_id ?rows)" using inv by (simp add: state_inv_def incident_inv_def)
  have ret: "triple (\<lambda>t. t = t0 \<and> X) (tx_return x) (\<lambda>_. recorded_step ?rows ?log)" for X and x :: "incidentChange \<times> ruleState"
    by (rule triple_return) (use recorded_refl [OF dist] in auto)
  have move: "triple (\<lambda>t. t = t0 \<and> found = map_option (\<lambda>r. (in_status r, in_severity r)) (find_row in_id ?i ?rows))
      (tx_bind (updateIncidentRow ?i (\<lambda>r. (touch sm o1 now r)\<lparr>in_status := StatusRecovered, in_recovered_at := Some o1\<rparr>))
        (\<lambda>_. tx_bind (appendTimeline ?i sid kd (Some st) (Some StatusRecovered) fsv tsv sm2 at) (\<lambda>tid.
        tx_bind (enqueueNotification intents (ev tid)) (\<lambda>_. tx_return x)))) (\<lambda>_. recorded_step ?rows ?log)"
    if "found = Some y" "y = (st, sv)" "\<not> (st = StatusRecovered \<or> st = StatusResolved)"
    for found y st sv sm o1 sid kd fsv tsv sm2 at ev and x :: "incidentChange \<times> ruleState"
  proof (rule triple_pre, elim conjE)
    fix t :: tables
    assume t: "t = t0" and f: "found = map_option (\<lambda>r. (in_status r, in_severity r)) (find_row in_id ?i ?rows)"
    have st: "in_status r = st" if "r \<in> set ?rows" "in_id r = ?i" for r
      using find_row_distinct [OF dist that(1)] f that \<open>found = Some y\<close> \<open>y = (st, sv)\<close> by auto
    show "triple (\<lambda>t'. t' = t)
      (tx_bind (updateIncidentRow ?i (\<lambda>r. (touch sm o1 now r)\<lparr>in_status := StatusRecovered, in_recovered_at := Some o1\<rparr>))
        (\<lambda>_. tx_bind (appendTimeline ?i sid kd (Some st) (Some StatusRecovered) fsv tsv sm2 at) (\<lambda>tid.
        tx_bind (enqueueNotification intents (ev tid)) (\<lambda>_. tx_return x)))) (\<lambda>_. recorded_step ?rows ?log)"
    proof (rule triple_strengthen [OF triple_move [OF dist]])
      fix r
      assume r: "r \<in> set ?rows" "in_id r = ?i"
      show "evaluator_edge r ((touch sm o1 now r)\<lparr>in_status := StatusRecovered, in_recovered_at := Some o1\<rparr>)"
        by (rule edge_recover) (use st [OF r] that(3) in auto)
      show "Some st = Some (in_status r) \<and> Some StatusRecovered =
          Some (in_status ((touch sm o1 now r)\<lparr>in_status := StatusRecovered, in_recovered_at := Some o1\<rparr>))"
        using st [OF r] by simp
    qed (simp add: t)
  qed
  show ?thesis
  proof (cases "?i = ''''")
    case True
    then show ?thesis using ret [of True] by (simp add: recoverIncident_def)
  next
    case False
    show ?thesis
      unfolding recoverIncident_def Let_def if_not_P [OF False]
      by (rule triple_bind [OF triple_query_at], rule triple_option, rule ret, rule triple_prod,
          rule triple_if, rule ret, rule move, assumption+)
  qed
qed

lemma recorded_evaluate:
  assumes inv: "state_inv k s t0"
  shows "triple (\<lambda>t. t = t0) (evaluate sig rule s n now deadline intents)
    (\<lambda>_. recorded_step (t_incidents t0) (t_timeline t0))"
proof -
  let ?R = "\<lambda>_. recorded_step (t_incidents t0) (t_timeline t0)"
  have dist: "distinct (map in_id (t_incidents t0))" using inv by (simp add: state_inv_def incident_inv_def)
  have ret: "triple (\<lambda>t. t = t0) (tx_return x) ?R" for x :: "incidentChange \<times> ruleState"
    by (rule triple_return) (use recorded_refl [OF dist] in auto)
  have op: "triple (\<lambda>t. t = t0) (openOrUpdateIncident sig rule c s' n now intents) ?R"
    if "rst_ActiveIncidentID s' = rst_ActiveIncidentID s \<and> rst_LastSignalID s' = rst_LastSignalID s" for c s'
    by (rule recorded_openOrUpdate [OF state_inv_active [OF that inv]])
  have rc: "triple (\<lambda>t. t = t0) (recoverIncident sig rule s' n now intents) ?R"
    if "rst_ActiveIncidentID s' = rst_ActiveIncidentID s \<and> rst_LastSignalID s' = rst_LastSignalID s" for s'
    by (rule recorded_recover [OF state_inv_active [OF that inv]])
  show ?thesis
    unfolding evaluate_def Let_def by (intro triple_if triple_option ret op rc) simp_all
qed

text \<open>What a transaction of the evaluator does to incidents and timeline, whatever else it writes.\<close>

lemma recorded_evaluate_from:
  "triple (\<lambda>t. state_inv k s t \<and> t_incidents t = rows \<and> t_timeline t = log)
     (evaluate sig rule s n now deadline intents) (\<lambda>_. recorded_step rows log)"
  by (rule triple_pre, elim conjE, hypsubst) (rule recorded_evaluate)

lemma triple_recorded:
  "keeps (\<lambda>t. (t_incidents t, t_timeline t)) m \<Longrightarrow> triple (recorded_step rows log) m (\<lambda>_. recorded_step rows log)"
  by (rule triple_preserves, erule preserves_of_keeps [rotated]) (simp add: recorded_step_def)

lemma keeps_log_settle: "triple (recorded_step rows log) (settle sig a b c d now x) (\<lambda>_. recorded_step rows log)"
  by (rule triple_recorded, rule keeps_settle) simp_all

lemma recorded_save: "triple (recorded_step rows log) (saveRuleState k s now) (\<lambda>_. recorded_step rows log)"
  by (rule triple_recorded, rule keeps_saveRuleState) simp

lemma recorded_lock:
  "triple (\<lambda>t. incident_inv t \<and> t_incidents t = rows \<and> t_timeline t = log) (lockRuleState k)
     (\<lambda>s t. state_inv k s t \<and> t_incidents t = rows \<and> t_timeline t = log)"
  by (rule triple_conseq [OF triple_and_keeps [OF triple_lockRuleState, where f = "\<lambda>t. (t_incidents t, t_timeline t)"
        and L = "\<lambda>x. x = (rows, log)"]]) (auto intro: keeps_lockRuleState)

lemma recorded_here:
  "incident_inv t \<or> state_inv k s t \<Longrightarrow> t_incidents t = rows \<and> t_timeline t = log \<Longrightarrow> recorded_step rows log t"
  using recorded_refl [of t] by (auto simp: state_inv_def incident_inv_def)

lemma recorded_evaluateSignal:
  "triple (\<lambda>t. incident_inv t \<and> t_incidents t = rows \<and> t_timeline t = log)
     (evaluateSignal intents sig now rule n) (\<lambda>_. recorded_step rows log)"
proof -
  let ?k = "signal_key rule sig"
  have key: "(ru_ID rule, s_ResourceID sig, s_CheckType sig) = ?k" by (simp add: signal_key_def)
  let ?G = "\<lambda>s t. state_inv ?k s t \<and> t_incidents t = rows \<and> t_timeline t = log"
  have settled: "triple (?G s) (settle sig a b c d now x) (\<lambda>_. recorded_step rows log)" for s a b c d x
    by (rule triple_strengthen [OF keeps_log_settle]) (auto intro: recorded_here)
  have saved: "triple (?G s) (saveRuleState ?k s' now) (\<lambda>_. recorded_step rows log)" for s s'
    by (rule triple_strengthen [OF recorded_save]) (auto intro: recorded_here)
  have maint: "triple (?G s) (activeMaintenance sig at) (\<lambda>_. ?G s)" for s at
    by (rule triple_keeps) (rule keeps_activeMaintenance)
  show ?thesis
    unfolding evaluateSignal_def Let_def key
    by (rule triple_bind [OF recorded_lock], rule triple_if, rule settled,
        rule triple_bind [OF maint], rule triple_if, rule triple_bind [OF saved], rule keeps_log_settle,
        rule triple_bind [OF recorded_evaluate_from], rule triple_prod,
        rule triple_bind [OF recorded_save], rule triple_prod, rule keeps_log_settle)
qed

lemma recorded_processSignal_body:
  "triple (\<lambda>t. incident_inv t \<and> t_incidents t = rows \<and> t_timeline t = log)
     (processSignal_body intents sig now) (\<lambda>_. recorded_step rows log)"
proof -
  let ?G = "\<lambda>t. incident_inv t \<and> t_incidents t = rows \<and> t_timeline t = log"
  have rule: "triple ?G (tx_try (matchingRule sig)) (\<lambda>_. ?G)"
    by (rule triple_keeps) (intro frame_intros keeps_matchingRule)
  have settled: "triple ?G (settle sig a b c d now x) (\<lambda>_. recorded_step rows log)" for a b c d x
    by (rule triple_strengthen [OF keeps_log_settle]) (auto intro: recorded_here)
  show ?thesis
    unfolding processSignal_body_def processMatched_def
    by (rule triple_bind [where R = "\<lambda>_. ?G"], rule triple_row, assumption, rule triple_prod,
        rule triple_if, rule triple_return, rule recorded_here, blast, blast, rule triple_bind [OF rule], rule triple_sum,
        rule triple_if, rule settled, rule triple_fail, rule triple_prod, rule recorded_evaluateSignal)
qed

lemma recorded_evaluateDue:
  "triple (\<lambda>t. incident_inv t \<and> t_incidents t = rows \<and> t_timeline t = log)
     (evaluateDue intents now k) (\<lambda>_. recorded_step rows log)"
proof -
  let ?G = "\<lambda>s t. state_inv k s t \<and> t_incidents t = rows \<and> t_timeline t = log"
  have last: "triple (?G s) (if rst_LastSignalID s = '''' then tx_fail DbError else tx_row f) (\<lambda>_. ?G s)"
    for s and f :: "tables \<Rightarrow> signal option"
    by (rule triple_if, rule triple_fail, rule triple_row)
  have rule: "triple (?G s) (tx_try (matchingRuleByID i sig)) (\<lambda>_. ?G s)" for s i sig
    by (rule triple_keeps) (intro frame_intros keeps_matchingRule)
  have maint: "triple (?G s) (activeMaintenance sig at) (\<lambda>_. ?G s)" for s sig at
    by (rule triple_keeps) (rule keeps_activeMaintenance)
  have saved: "triple (?G s) (saveRuleState k s' now) (\<lambda>_. recorded_step rows log)" for s s'
    by (rule triple_strengthen [OF recorded_save]) (auto intro: recorded_here)
  have fin: "triple (recorded_step rows log) (tx_return x) (\<lambda>_. recorded_step rows log)" for x :: "(incidentChange \<times> bool) outcome"
    by (rule triple_return)
  show ?thesis
    unfolding evaluateDue_def
    by (rule triple_bind [OF recorded_lock], rule triple_bind [OF last], rule triple_bind [OF rule],
        rule triple_sum, rule triple_if, rule triple_bind [OF saved], rule fin, rule triple_fail,
        rule triple_prod, rule triple_bind [OF maint], rule triple_if, rule triple_bind [OF saved], rule fin,
        rule triple_bind [OF recorded_evaluate_from], rule triple_prod, rule triple_bind [OF recorded_save], rule fin)
qed

lemma recorded_transaction:
  assumes "\<And>rows log. triple (\<lambda>t. incident_inv t \<and> t_incidents t = rows \<and> t_timeline t = log) body (\<lambda>_. recorded_step rows log)"
    and "incident_inv (w_tables w)"
  shows "recorded_step (t_incidents (w_tables w)) (t_timeline (w_tables w)) (w_tables (snd (in_tx body w)))"
  by (rule in_tx_commits [where I = incident_inv and R = "\<lambda>a. recorded_step (t_incidents a) (t_timeline a)",
        OF triple_strengthen [OF assms(1)] _ assms(2)]) (auto intro: recorded_here)

lemma recorded_processSignal:
  "incident_inv (w_tables w) \<Longrightarrow> recorded_step (t_incidents (w_tables w)) (t_timeline (w_tables w))
     (w_tables (snd (processSignal intents sig now w)))"
  unfolding processSignal_def by (rule recorded_transaction [OF recorded_processSignal_body])

lemma recorded_processOneDue:
  "incident_inv (w_tables w) \<Longrightarrow> recorded_step (t_incidents (w_tables w)) (t_timeline (w_tables w))
     (w_tables (snd (processOneDue intents locked now w)))"
  unfolding processOneDue_def
proof (rule recorded_transaction)
  fix rows log
  let ?G = "\<lambda>t. incident_inv t \<and> t_incidents t = rows \<and> t_timeline t = log"
  show "triple ?G (tx_bind (tx_query (\<lambda>t. map_option state_key (first_by due_order
         (filter (\<lambda>r. is_due now r \<and> \<not> locked (state_key r)) (t_rule_states t))))) (\<lambda>found.
     case found of None \<Rightarrow> tx_return (Rollback (noChange, False)) | Some k \<Rightarrow> evaluateDue intents now k))
     (\<lambda>_. recorded_step rows log)"
    by (rule triple_bind [where R = "\<lambda>_. ?G"], rule triple_query, assumption, rule triple_option,
        rule triple_return, rule recorded_here, blast, blast, rule recorded_evaluateDue)
qed

end

end
