(* ===== verification/Incident_Workflow.thy ===== *)
theory Incident_Workflow
  imports Incident_Evaluator
begin

text \<open>
  The operator workflow on incidents (\<open>core/internal/incidents/workflow.go\<close>): acknowledge,
  investigate, assign, note and resolve, each one transaction with optimistic versioning, an
  idempotency receipt, a timeline entry and an audit event. Resolving releases the rule state
  that points to the incident, so that the evaluator may open a new one. The receipts of
  operator actions interpret the contract \<open>receipt_store\<close>.
\<close>

section \<open>Requests and results\<close>

record mutation =
  mu_IncidentID :: string
  mu_Action :: action
  mu_OwnerUserID :: string
  mu_Note :: string
  mu_ExpectedVersion :: int
  mu_IdempotencyKey :: string
  mu_ActorUserID :: string
  mu_ActorName :: string
  mu_SourceAddress :: string
  mu_CorrelationID :: string

record mutation_result =
  mr_IncidentID :: string
  mr_Status :: status
  mr_Version :: int
  mr_TimelineEventID :: string
  mr_CorrelationID :: string
  mr_Replayed :: bool

definition MaxNoteRunes :: nat where
  "MaxNoteRunes = 2000"

definition validIdempotencyKey :: "string \<Rightarrow> bool" where
  "validIdempotencyKey v \<longleftrightarrow> v \<noteq> '''' \<and> length v \<le> 128 \<and> TrimSpace v = v \<and> \<not> list_ex is_control (runes v)"

definition validateMutation :: "mutation \<Rightarrow> err + unit" where
  "validateMutation m =
     (if \<not> uuidPattern (mu_IncidentID m) \<or> \<not> uuidPattern (mu_ActorUserID m) \<or> mu_ExpectedVersion m < 1
        \<or> mu_ActorName m = '''' \<or> 128 < RuneCountInString (mu_ActorName m)
        \<or> mu_CorrelationID m = '''' \<or> 128 < length (mu_CorrelationID m)
        \<or> \<not> validIdempotencyKey (mu_IdempotencyKey m)
      then Inl ErrInvalidMutation
      else case mu_Action m of
        ActionAssign \<Rightarrow> if \<not> uuidPattern (mu_OwnerUserID m) \<or> mu_Note m \<noteq> '''' then Inl ErrInvalidMutation else Inr ()
      | ActionNote \<Rightarrow> if mu_OwnerUserID m \<noteq> '''' \<or> mu_Note m = '''' \<or> MaxNoteRunes < RuneCountInString (mu_Note m)
          then Inl ErrInvalidNote else Inr ()
      | ActionResolve \<Rightarrow> if mu_OwnerUserID m \<noteq> '''' \<or> mu_Note m = '''' \<or> MaxNoteRunes < RuneCountInString (mu_Note m)
          then Inl ErrInvalidNote else Inr ()
      | ActionAcknowledge \<Rightarrow> if mu_OwnerUserID m \<noteq> '''' \<or> mu_Note m \<noteq> '''' then Inl ErrInvalidMutation else Inr ()
      | ActionInvestigate \<Rightarrow> if mu_OwnerUserID m \<noteq> '''' \<or> mu_Note m \<noteq> '''' then Inl ErrInvalidMutation else Inr ()
      | OtherAction _ \<Rightarrow> Inl ErrInvalidMutation)"

definition mutationHash :: "runtime \<Rightarrow> mutation \<Rightarrow> string" where
  "mutationHash rt m = rt_sha256 rt (rt_json rt (JObj
     ([(''action'', JText (action_text (mu_Action m))), (''expected_version'', JInt (mu_ExpectedVersion m))]
      @ (if mu_OwnerUserID m = '''' then [] else [(''owner_user_id'', JText (mu_OwnerUserID m))])
      @ (if mu_Note m = '''' then [] else [(''note'', JText (mu_Note m))]))))"

section \<open>Receipts of operator actions\<close>

type_synonym action_key = "string \<times> string \<times> action \<times> string"

definition action_key_of :: "action_key_row \<Rightarrow> action_key" where
  "action_key_of r = (ak_actor_user_id r, ak_incident_id r, ak_action r, ak_idempotency_key r)"

definition mutation_key :: "mutation \<Rightarrow> action_key" where
  "mutation_key m = (uuid_param (mu_ActorUserID m), uuid_param (mu_IncidentID m), mu_Action m, mu_IdempotencyKey m)"

definition action_lookup :: "tables \<Rightarrow> action_key \<Rightarrow> (string \<times> mutation_result) option" where
  "action_lookup t k = map_option (\<lambda>r. (ak_request_hash r,
      \<lparr> mr_IncidentID = '''', mr_Status = ak_result_status r, mr_Version = ak_result_version r,
        mr_TimelineEventID = ak_timeline_event_id r, mr_CorrelationID = ak_correlation_id r, mr_Replayed = False \<rparr>))
    (find_row action_key_of k (t_action_keys t))"

definition action_put :: "time \<Rightarrow> action_key \<Rightarrow> string \<Rightarrow> mutation_result \<Rightarrow> tables \<Rightarrow> tables" where
  "action_put now k h r t = (case k of (actor, incident, action, key) \<Rightarrow>
     t\<lparr>t_action_keys := t_action_keys t @
       [\<lparr> ak_actor_user_id = actor, ak_incident_id = incident, ak_action = action, ak_idempotency_key = key,
          ak_request_hash = h, ak_result_version = mr_Version r, ak_result_status = mr_Status r,
          ak_timeline_event_id = mr_TimelineEventID r, ak_correlation_id = mr_CorrelationID r,
          ak_created_at = now \<rparr>]\<rparr>)"

definition stored_result :: "mutation_result \<Rightarrow> mutation_result" where
  "stored_result r = r\<lparr>mr_IncidentID := '''', mr_Replayed := False\<rparr>"

definition replayedMutation :: "mutation \<Rightarrow> string \<Rightarrow> mutation_result option tx" where
  "replayedMutation m requestHash =
     tx_bind (tx_query (\<lambda>t. action_lookup t (mutation_key m))) (\<lambda>found.
     case found of
       None \<Rightarrow> tx_return None
     | Some (storedHash, result) \<Rightarrow>
         if storedHash \<noteq> requestHash then tx_fail ErrIdempotencyConflict
         else tx_return (Some (result\<lparr>mr_IncidentID := mu_IncidentID m, mr_Replayed := True\<rparr>)))"

section \<open>One mutation\<close>

definition timelineKind :: "action \<Rightarrow> string" where
  "timelineKind a = (case a of
       ActionAcknowledge \<Rightarrow> ''acknowledged'' | ActionInvestigate \<Rightarrow> ''investigating''
     | ActionAssign \<Rightarrow> ''assigned'' | ActionNote \<Rightarrow> ''note'' | ActionResolve \<Rightarrow> ''resolved''
     | OtherAction _ \<Rightarrow> '''')"

definition eligible_owner :: "tables \<Rightarrow> user_row \<Rightarrow> bool" where
  "eligible_owner t u \<longleftrightarrow> us_enabled u \<and> 1 \<le> RuneCountInString (us_display_name u)
     \<and> RuneCountInString (us_display_name u) \<le> 128
     \<and> list_ex (\<lambda>(user, role). user = us_id u
         \<and> list_ex (\<lambda>r. ro_id r = role \<and> ''incidents:operate'' \<in> set (ro_permissions r)) (t_roles t)) (t_user_roles t)"

definition owner_name :: "string \<Rightarrow> tables \<Rightarrow> string option" where
  "owner_name userID t = (case find_row us_id (uuid_param userID) (t_users t) of
       None \<Rightarrow> None
     | Some u \<Rightarrow> if eligible_owner t u then Some (us_display_name u) else None)"

text \<open>
  What the \<open>switch\<close> over the action decides: the next status, the subject of an assignment,
  the timeline summary, the audit action and what the audit summary adds.
\<close>

record decision =
  dn_Status :: status
  dn_SubjectID :: string
  dn_SubjectName :: string
  dn_Summary :: string
  dn_AuditAction :: string
  dn_After :: summary

definition decideAction :: "mutation \<Rightarrow> status \<Rightarrow> decision tx" where
  "decideAction m current = (case mu_Action m of
       ActionAcknowledge \<Rightarrow>
         if current \<noteq> StatusOpen then tx_fail ErrInvalidTransition
         else tx_return \<lparr> dn_Status = StatusAcknowledged, dn_SubjectID = '''', dn_SubjectName = '''',
           dn_Summary = ''Acknowledged by '' @ mu_ActorName m @ ''.'', dn_AuditAction = ''incident.acknowledged'', dn_After = [] \<rparr>
     | ActionInvestigate \<Rightarrow>
         if current \<noteq> StatusAcknowledged then tx_fail ErrInvalidTransition
         else tx_return \<lparr> dn_Status = StatusInvestigating, dn_SubjectID = '''', dn_SubjectName = '''',
           dn_Summary = ''Investigation started by '' @ mu_ActorName m @ ''.'',
           dn_AuditAction = ''incident.investigation.started'', dn_After = [] \<rparr>
     | ActionAssign \<Rightarrow>
         if current = StatusResolved then tx_fail ErrInvalidTransition
         else tx_bind (tx_query (owner_name (mu_OwnerUserID m))) (\<lambda>found.
           case found of
             None \<Rightarrow> tx_fail ErrOwnerNotEligible
           | Some name \<Rightarrow> tx_return \<lparr> dn_Status = current, dn_SubjectID = mu_OwnerUserID m, dn_SubjectName = name,
               dn_Summary = ''Assigned to '' @ name @ ''.'', dn_AuditAction = ''incident.assigned'',
               dn_After = [(''owner_user_id'', JText (mu_OwnerUserID m))] \<rparr>)
     | ActionNote \<Rightarrow>
         tx_return \<lparr> dn_Status = current, dn_SubjectID = '''', dn_SubjectName = '''', dn_Summary = mu_Note m,
           dn_AuditAction = ''incident.note.added'',
           dn_After = [(''note_characters'', JInt (int (RuneCountInString (mu_Note m))))] \<rparr>
     | ActionResolve \<Rightarrow>
         if current \<noteq> StatusRecovered then tx_fail ErrInvalidTransition
         else tx_return \<lparr> dn_Status = StatusResolved, dn_SubjectID = '''', dn_SubjectName = '''',
           dn_Summary = mu_Note m, dn_AuditAction = ''incident.resolved'',
           dn_After = [(''note_characters'', JInt (int (RuneCountInString (mu_Note m))))] \<rparr>
     | OtherAction _ \<Rightarrow> tx_fail ErrInvalidMutation)"

definition apply_action :: "mutation \<Rightarrow> status \<Rightarrow> time \<Rightarrow> incident_row \<Rightarrow> incident_row" where
  "apply_action m st now r =
     (let r = r\<lparr>in_version := in_version r + 1, in_updated_at := now\<rparr> in
      case mu_Action m of
        ActionAcknowledge \<Rightarrow> r\<lparr>in_status := st, in_acknowledged_at := Some now\<rparr>
      | ActionAssign \<Rightarrow> r\<lparr>in_owner_user_id := Some (uuid_param (mu_OwnerUserID m))\<rparr>
      | ActionResolve \<Rightarrow> r\<lparr>in_status := st, in_resolved_at := Some now\<rparr>
      | _ \<Rightarrow> r\<lparr>in_status := st\<rparr>)"

definition updateIncident :: "mutation \<Rightarrow> status \<Rightarrow> time \<Rightarrow> unit tx" where
  "updateIncident m st now = tx_exec (\<lambda>t. t\<lparr>t_incidents :=
     update_where (\<lambda>r. in_id r = uuid_param (mu_IncidentID m)) (apply_action m st now) (t_incidents t)\<rparr>)"

definition releaseFingerprint :: "mutation \<Rightarrow> time \<Rightarrow> unit tx" where
  "releaseFingerprint m now = tx_exec (\<lambda>t. t\<lparr>t_rule_states :=
     update_where (\<lambda>s. st_active_incident_id s = Some (uuid_param (mu_IncidentID m)))
       (\<lambda>s. s\<lparr>st_active_incident_id := None, st_updated_at := now\<rparr>) (t_rule_states t)\<rparr>)"

definition operatorEntry :: "mutation \<Rightarrow> decision \<Rightarrow> status \<Rightarrow> severity \<Rightarrow> time \<Rightarrow> string tx" where
  "operatorEntry m d current sev now = tx_insert (\<lambda>u c t.
     if u \<in> tl_id ` set (t_timeline t) then Inl DbError
     else Inr (u, t\<lparr>t_timeline := t_timeline t @
       [\<lparr> tl_id = u, tl_incident_id = uuid_param (mu_IncidentID m), tl_signal_id = None,
          tl_actor_user_id = Some (uuid_param (mu_ActorUserID m)), tl_actor_display_name = Some (mu_ActorName m),
          tl_subject_user_id = map_option uuid_param (nullif (dn_SubjectID d)),
          tl_subject_display_name = nullif (dn_SubjectName d), tl_kind = timelineKind (mu_Action m),
          tl_from_status = Some current, tl_to_status = Some (dn_Status d),
          tl_from_severity = Some sev, tl_to_severity = Some sev, tl_summary = dn_Summary d,
          tl_occurred_at = now, tl_created_at = c \<rparr>]\<rparr>))"

definition storeReceipt :: "mutation \<Rightarrow> string \<Rightarrow> mutation_result \<Rightarrow> time \<Rightarrow> unit tx" where
  "storeReceipt m requestHash result now = tx_insert (\<lambda>u c t.
     if action_lookup t (mutation_key m) \<noteq> None then Inl DbError
     else Inr ((), action_put now (mutation_key m) requestHash result t))"

definition loadIncident :: "mutation \<Rightarrow> tables \<Rightarrow> (status \<times> severity \<times> string \<times> int \<times> time) option" where
  "loadIncident m t = map_option (\<lambda>r. (in_status r, in_severity r, text_of (in_owner_user_id r), in_version r, in_updated_at r))
     (find_row in_id (uuid_param (mu_IncidentID m)) (t_incidents t))"

definition mutation_time :: "time \<Rightarrow> time \<Rightarrow> time" where
  "mutation_time clock updatedAt =
     (let now = truncate_us clock in if now \<le> updatedAt then updatedAt + microsecond else now)"

text \<open>The writes of a decided mutation, in the order of the code.\<close>

definition writeMutation ::
  "runtime \<Rightarrow> mutation \<Rightarrow> string \<Rightarrow> status \<times> severity \<times> string \<times> int \<Rightarrow> decision \<Rightarrow> time \<Rightarrow> mutation_result tx" where
  "writeMutation rt m requestHash loaded d now = (case loaded of (current, sev, owner, version) \<Rightarrow>
     tx_bind (updateIncident m (dn_Status d) now) (\<lambda>_.
     tx_bind (if mu_Action m = ActionResolve then releaseFingerprint m now else tx_return ()) (\<lambda>_.
     tx_bind (operatorEntry m d current sev now) (\<lambda>timelineID.
     tx_bind (audit_Append rt \<lparr> ae_ActorUserID = mu_ActorUserID m, ae_Action = dn_AuditAction d,
         ae_TargetType = ''incident'', ae_TargetID = mu_IncidentID m, ae_Result = ''succeeded'',
         ae_SourceAddress = mu_SourceAddress m, ae_CorrelationID = mu_CorrelationID m,
         ae_BeforeSummary = Some [(''owner_user_id'', JText owner), (''status'', JText (status_text current)),
           (''version'', JInt version)],
         ae_AfterSummary = Some (dn_After d @ [(''status'', JText (status_text (dn_Status d))),
           (''version'', JInt (version + 1))]),
         ae_OccurredAt = now \<rparr>) (\<lambda>_.
     let result = \<lparr> mr_IncidentID = mu_IncidentID m, mr_Status = dn_Status d, mr_Version = version + 1,
       mr_TimelineEventID = timelineID, mr_CorrelationID = mu_CorrelationID m, mr_Replayed = False \<rparr> in
     tx_bind (storeReceipt m requestHash result now) (\<lambda>_. tx_return result))))))"

text \<open>The body after the receipt lookup: lock, load, compare versions, decide, write.\<close>

definition applyMutation :: "runtime \<Rightarrow> time \<Rightarrow> mutation \<Rightarrow> string \<Rightarrow> (mutation_result \<times> time) tx" where
  "applyMutation rt clock m requestHash =
     tx_bind (if mu_Action m = ActionResolve then tx_query (\<lambda>_. ()) else tx_return ()) (\<lambda>_.
     tx_bind (tx_query (loadIncident m)) (\<lambda>found.
     case found of
       None \<Rightarrow> tx_fail ErrNotFound
     | Some (current, sev, owner, version, updatedAt) \<Rightarrow>
         if version \<noteq> mu_ExpectedVersion m then tx_fail (ErrVersionConflict version)
         else
           tx_bind (decideAction m current) (\<lambda>d.
           let now = mutation_time clock updatedAt in
           tx_bind (writeMutation rt m requestHash (current, sev, owner, version) d now) (\<lambda>result.
           tx_return (result, now)))))"

definition trimmed :: "mutation \<Rightarrow> mutation" where
  "trimmed m = m\<lparr>mu_ActorName := TrimSpace (mu_ActorName m), mu_Note := TrimSpace (mu_Note m)\<rparr>"

definition Mutate :: "runtime \<Rightarrow> time \<Rightarrow> mutation \<Rightarrow> mutation_result tx" where
  "Mutate rt clock m0 =
     (let m = trimmed m0; requestHash = mutationHash rt m in
      case validateMutation m of
        Inl e \<Rightarrow> tx_fail e
      | Inr _ \<Rightarrow>
          tx_bind (in_tx (
            tx_bind (tx_query (\<lambda>_. ())) (\<lambda>_.
            tx_bind (replayedMutation m requestHash) (\<lambda>found.
            case found of
              Some result \<Rightarrow> tx_return (Rollback (result, None))
            | None \<Rightarrow> tx_bind (applyMutation rt clock m requestHash) (\<lambda>(result, now).
                tx_return (Commit (result, Some now))))))) (\<lambda>(result, committedAt).
          case committedAt of
            None \<Rightarrow> tx_return result
          | Some now \<Rightarrow>
              tx_bind (hub_publish (zeroEvent\<lparr> ev_Kind := ''incident_changed'', ev_IncidentID := mu_IncidentID m,
                ev_Result := status_text (mr_Status result), ev_ChangedAt := now \<rparr>)) (\<lambda>_. tx_return result)))"

section \<open>Receipts\<close>

lemma action_lookup_put:
  assumes "action_lookup t k = None"
  shows "action_lookup (action_put now k h r t) k' = (if k' = k then Some (h, stored_result r) else action_lookup t k')"
proof -
  obtain a b c d where k: "k = (a, b, c, d)" by (cases k)
  from assms have "find_row action_key_of k (t_action_keys t) = None" by (simp add: action_lookup_def)
  then show ?thesis
    by (auto simp: action_lookup_def action_put_def find_row_append action_key_of_def k stored_result_def
        split: option.splits)
qed

interpretation actions: receipt_store action_lookup "action_put now" stored_result for now
proof
  fix t :: tables and k k' :: action_key and h :: string and r :: mutation_result
  show "action_lookup t k = None \<Longrightarrow> action_lookup (action_put now k h r t) k = Some (h, stored_result r)"
    by (simp add: action_lookup_put)
  show "k \<noteq> k' \<Longrightarrow> action_lookup (action_put now k h r t) k' = action_lookup t k'"
    by (cases k) (auto simp: action_lookup_def action_put_def find_row_append action_key_of_def split: option.splits)
qed

section \<open>The transition table\<close>

text \<open>
  The workflow as the documentation has it: which status an action leads to, \<open>None\<close> where it
  is not offered.
\<close>

fun workflow_next :: "action \<Rightarrow> status \<Rightarrow> status option" where
  "workflow_next ActionAcknowledge s = (if s = StatusOpen then Some StatusAcknowledged else None)"
| "workflow_next ActionInvestigate s = (if s = StatusAcknowledged then Some StatusInvestigating else None)"
| "workflow_next ActionAssign s = (if s = StatusResolved then None else Some s)"
| "workflow_next ActionNote s = Some s"
| "workflow_next ActionResolve s = (if s = StatusRecovered then Some StatusResolved else None)"
| "workflow_next (OtherAction _) s = None"

lemma decideAction_Inr:
  assumes "decideAction m s w = (Inr d, w')"
  shows "workflow_next (mu_Action m) s = Some (dn_Status d) \<and> w_tables w' = w_tables w \<and> w_hub w' = w_hub w
    \<and> (mu_Action m = ActionAssign \<longrightarrow> owner_name (mu_OwnerUserID m) (w_tables w) = Some (dn_SubjectName d))"
  using assms
  by (cases "mu_Action m") (auto simp: decideAction_def tx_bind_Inr tx_query_Inr split: if_splits option.splits)

lemma decideAction_refused:
  assumes "workflow_next (mu_Action m) s = None" and "validateMutation m = Inr ()"
  shows "decideAction m s = tx_fail ErrInvalidTransition"
  using assms by (cases "mu_Action m") (auto simp: decideAction_def validateMutation_def split: if_splits)

text \<open>What a successful mutation has done to the tables.\<close>

definition operated :: "mutation \<Rightarrow> status \<Rightarrow> time \<Rightarrow> incident_row \<Rightarrow> timeline_row \<Rightarrow> audit_row \<Rightarrow> tables \<Rightarrow> tables" where
  "operated m st now r e a t =
     t\<lparr>t_incidents := update_where (\<lambda>x. in_id x = in_id r) (apply_action m st now) (t_incidents t),
       t_rule_states := (if mu_Action m = ActionResolve
         then update_where (\<lambda>s. st_active_incident_id s = Some (in_id r))
           (\<lambda>s. s\<lparr>st_active_incident_id := None, st_updated_at := now\<rparr>) (t_rule_states t)
         else t_rule_states t),
       t_timeline := t_timeline t @ [e], t_audit := t_audit t @ [a]\<rparr>"

lemma operated_keys [simp]: "t_action_keys (operated m st now r e a t) = t_action_keys t"
  by (simp add: operated_def)

definition mutation_effect :: "mutation \<Rightarrow> string \<Rightarrow> mutation_result \<Rightarrow> time \<Rightarrow> tables \<Rightarrow> tables \<Rightarrow> bool" where
  "mutation_effect m h res now t t' \<longleftrightarrow>
     (\<exists>r e a. find_row in_id (uuid_param (mu_IncidentID m)) (t_incidents t) = Some r
       \<and> in_version r = mu_ExpectedVersion m \<and> in_updated_at r < now
       \<and> workflow_next (mu_Action m) (in_status r) = Some (mr_Status res) \<and> mr_Version res = in_version r + 1
       \<and> mr_IncidentID res = mu_IncidentID m \<and> mr_CorrelationID res = mu_CorrelationID m \<and> \<not> mr_Replayed res
       \<and> tl_id e = mr_TimelineEventID res \<and> tl_incident_id e = in_id r
       \<and> tl_from_status e = Some (in_status r) \<and> tl_to_status e = Some (mr_Status res)
       \<and> tl_actor_user_id e = Some (uuid_param (mu_ActorUserID m))
       \<and> au_target_id a = nullif (mu_IncidentID m) \<and> au_occurred_at a = now
       \<and> action_lookup t (mutation_key m) = None
       \<and> t' = action_put now (mutation_key m) h res
          (operated m (mr_Status res) now r e a t))"

lemma mutation_effect_fresh: "mutation_effect m h res now t t' \<Longrightarrow> \<not> mr_Replayed res"
  unfolding mutation_effect_def by blast

lemma mutation_effect_stored:
  assumes "mutation_effect m h res now t t'"
  shows "action_lookup t' (mutation_key m) = Some (h, stored_result res)"
proof -
  obtain r e a where none: "action_lookup t (mutation_key m) = None"
    and t': "t' = action_put now (mutation_key m) h res (operated m (mr_Status res) now r e a t)"
    using assms unfolding mutation_effect_def by blast
  have "action_lookup (operated m (mr_Status res) now r e a t) (mutation_key m) = None"
    using none by (simp add: action_lookup_def)
  with t' show ?thesis by (simp add: action_lookup_put)
qed

lemma mutation_time_after: "updatedAt < mutation_time clock updatedAt"
  by (simp add: mutation_time_def Let_def microsecond_def)

lemma storeReceipt_Inr:
  "storeReceipt m h res now w = (Inr u, w') \<Longrightarrow> action_lookup (w_tables w) (mutation_key m) = None
     \<and> w_tables w' = action_put now (mutation_key m) h res (w_tables w)"
  by (cases "action_lookup (w_tables w) (mutation_key m)") (auto simp: storeReceipt_def tx_insert_Inr split: if_splits)

lemma operatorEntry_Inr:
  "operatorEntry m d current sev now w = (Inr i, w') \<Longrightarrow>
     \<exists>e. w_tables w' = (w_tables w)\<lparr>t_timeline := t_timeline (w_tables w) @ [e]\<rparr> \<and> tl_id e = i
       \<and> tl_incident_id e = uuid_param (mu_IncidentID m) \<and> tl_from_status e = Some current
       \<and> tl_to_status e = Some (dn_Status d) \<and> tl_actor_user_id e = Some (uuid_param (mu_ActorUserID m))"
  by (auto simp: operatorEntry_def tx_insert_Inr split: if_splits)

lemma optional_release_Inr:
  "(if b then releaseFingerprint m now else tx_return ()) w = (Inr u, w') \<Longrightarrow>
     w_tables w' = (w_tables w)\<lparr>t_rule_states := (if b
       then update_where (\<lambda>s. st_active_incident_id s = Some (uuid_param (mu_IncidentID m)))
         (\<lambda>s. s\<lparr>st_active_incident_id := None, st_updated_at := now\<rparr>) (t_rule_states (w_tables w))
       else t_rule_states (w_tables w))\<rparr>"
  by (auto simp: releaseFingerprint_def tx_exec_Inr split: if_splits)

lemma writeMutation_Inr:
  assumes "writeMutation rt m h (in_status r, sev, owner, in_version r) d now w = (Inr res, w')"
    and id: "in_id r = uuid_param (mu_IncidentID m)"
    and found: "find_row in_id (uuid_param (mu_IncidentID m)) (t_incidents (w_tables w)) = Some r"
    and version: "in_version r = mu_ExpectedVersion m" and later: "in_updated_at r < now"
    and nxt: "workflow_next (mu_Action m) (in_status r) = Some (dn_Status d)"
  shows "mutation_effect m h res now (w_tables w) (w_tables w')"
proof -
  from assms(1) obtain u1 w4 u2 w5 i w6 e u3 w7 u4 where
    upd: "updateIncident m (dn_Status d) now w = (Inr u1, w4)"
    and rel: "(if mu_Action m = ActionResolve then releaseFingerprint m now else tx_return ()) w4 = (Inr u2, w5)"
    and ent: "operatorEntry m d (in_status r) sev now w5 = (Inr i, w6)"
    and aud: "audit_Append rt e w6 = (Inr u3, w7)" "ae_TargetID e = mu_IncidentID m" "ae_OccurredAt e = now"
    and sto: "storeReceipt m h res now w7 = (Inr u4, w')"
    and res: "res = \<lparr> mr_IncidentID = mu_IncidentID m, mr_Status = dn_Status d, mr_Version = in_version r + 1,
        mr_TimelineEventID = i, mr_CorrelationID = mu_CorrelationID m, mr_Replayed = False \<rparr>"
    unfolding writeMutation_def prod.case Let_def tx_bind_Inr by auto
  have t4: "w_tables w4 = (w_tables w)\<lparr>t_incidents := update_where (\<lambda>x. in_id x = uuid_param (mu_IncidentID m))
      (apply_action m (dn_Status d) now) (t_incidents (w_tables w))\<rparr>"
    using upd by (simp add: updateIncident_def tx_exec_Inr)
  note t5 = optional_release_Inr [OF rel]
  from operatorEntry_Inr [OF ent] obtain entry where t6: "w_tables w6 = (w_tables w5)\<lparr>t_timeline := t_timeline (w_tables w5) @ [entry]\<rparr>"
    and entry: "tl_id entry = i" "tl_incident_id entry = uuid_param (mu_IncidentID m)" "tl_from_status entry = Some (in_status r)"
      "tl_to_status entry = Some (dn_Status d)" "tl_actor_user_id entry = Some (uuid_param (mu_ActorUserID m))"
    by blast
  from audit_Append_Inr [OF aud(1)] aud(2,3) obtain a where
    t7: "w_tables w7 = (w_tables w6)\<lparr>t_audit := t_audit (w_tables w6) @ [a]\<rparr>"
    and a: "au_target_id a = nullif (mu_IncidentID m)" "au_occurred_at a = now"
    by auto
  have tables: "w_tables w7 = operated m (dn_Status d) now r entry a (w_tables w)"
    unfolding t7 t6 t5 t4 operated_def id by simp
  have fresh: "action_lookup (w_tables w) (mutation_key m) = None"
    using storeReceipt_Inr [OF sto] tables by (simp add: action_lookup_def)
  show ?thesis
    unfolding mutation_effect_def
    by (rule exI [of _ r], rule exI [of _ entry], rule exI [of _ a])
      (use found version later nxt entry a fresh storeReceipt_Inr [OF sto] tables res id in simp)
qed

lemma applyMutation_Inr:
  assumes "applyMutation rt clock m h w = (Inr (res, now), w')"
  shows "mutation_effect m h res now (w_tables w) (w_tables w')"
proof -
  obtain w1 where t1: "w_tables w1 = w_tables w"
    and rest: "(case loadIncident m (w_tables w) of
       None \<Rightarrow> tx_fail ErrNotFound
     | Some (current, sev, owner, version, updatedAt) \<Rightarrow>
         if version \<noteq> mu_ExpectedVersion m then tx_fail (ErrVersionConflict version)
         else
           tx_bind (decideAction m current) (\<lambda>d.
           let now = mutation_time clock updatedAt in
           tx_bind (writeMutation rt m h (current, sev, owner, version) d now) (\<lambda>result.
           tx_return (result, now)))) w1 = (Inr (res, now), w')"
  proof -
    from assms obtain u wa x wb where lock: "(if mu_Action m = ActionResolve then tx_query (\<lambda>_. ()) else tx_return ()) w = (Inr u, wa)"
      and load: "tx_query (loadIncident m) wa = (Inr x, wb)"
      and run: "(case x of
       None \<Rightarrow> tx_fail ErrNotFound
     | Some (current, sev, owner, version, updatedAt) \<Rightarrow>
         if version \<noteq> mu_ExpectedVersion m then tx_fail (ErrVersionConflict version)
         else
           tx_bind (decideAction m current) (\<lambda>d.
           let now = mutation_time clock updatedAt in
           tx_bind (writeMutation rt m h (current, sev, owner, version) d now) (\<lambda>result.
           tx_return (result, now)))) wb = (Inr (res, now), w')"
      unfolding applyMutation_def tx_bind_Inr [of "if mu_Action m = ActionResolve then tx_query (\<lambda>_. ()) else tx_return ()"]
        tx_bind_Inr [of "tx_query (loadIncident m)"] by blast
    have "w_tables wa = w_tables w" using lock by (auto simp: tx_query_Inr split: if_splits)
    with load have "x = loadIncident m (w_tables w)" "w_tables wb = w_tables w" by (simp_all add: tx_query_Inr)
    with run that show thesis by blast
  qed
  obtain r where r: "find_row in_id (uuid_param (mu_IncidentID m)) (t_incidents (w_tables w)) = Some r"
    using rest by (cases "find_row in_id (uuid_param (mu_IncidentID m)) (t_incidents (w_tables w))") (auto simp: loadIncident_def)
  then have version: "in_version r = mu_ExpectedVersion m" using rest by (auto simp: loadIncident_def split: if_splits)
  from rest r version obtain d w2 where dec: "decideAction m (in_status r) w1 = (Inr d, w2)"
    and wr: "writeMutation rt m h (in_status r, in_severity r, text_of (in_owner_user_id r), in_version r) d now w2 = (Inr res, w')"
    and now: "now = mutation_time clock (in_updated_at r)"
    by (auto simp: loadIncident_def tx_bind_Inr Let_def)
  from decideAction_Inr [OF dec] t1 have t2: "w_tables w2 = w_tables w"
    and nxt: "workflow_next (mu_Action m) (in_status r) = Some (dn_Status d)" by simp_all
  have "mutation_effect m h res now (w_tables w2) (w_tables w')"
    by (rule writeMutation_Inr [OF wr]) (use find_row_SomeD [OF r] r version nxt now t2 mutation_time_after in simp_all)
  then show ?thesis by (simp add: t2)
qed

lemma apply_action_simps [simp]:
  "in_id (apply_action m st now r) = in_id r" "in_fingerprint (apply_action m st now r) = in_fingerprint r"
  "in_version (apply_action m st now r) = in_version r + 1" "in_updated_at (apply_action m st now r) = now"
  "in_rule_id (apply_action m st now r) = in_rule_id r" "in_resource_id (apply_action m st now r) = in_resource_id r"
  "in_check_type (apply_action m st now r) = in_check_type r" "in_recovered_at (apply_action m st now r) = in_recovered_at r"
  "in_detected_at (apply_action m st now r) = in_detected_at r"
  "in_latest_signal_at (apply_action m st now r) = in_latest_signal_at r"
  by (simp_all add: apply_action_def Let_def split: action.splits)

lemma apply_action_status:
  assumes "workflow_next (mu_Action m) (in_status r) = Some st"
  shows "in_status (apply_action m st now r) = st"
    and "in_resolved_at (apply_action m st now r) = (if mu_Action m = ActionResolve then Some now else in_resolved_at r)"
  using assms by (auto simp: apply_action_def Let_def split: action.splits if_splits)

lemma apply_action_active:
  assumes "workflow_next (mu_Action m) (in_status r) = Some st"
  shows "active (apply_action m st now r) \<longleftrightarrow> active r \<and> mu_Action m \<noteq> ActionResolve"
  using apply_action_status(1) [OF assms] assms
  by (cases "mu_Action m") (auto simp: active_def split: if_splits)

lemma apply_action_ok:
  assumes "workflow_next (mu_Action m) (in_status r) = Some st" and "incident_ok r"
  shows "incident_ok (apply_action m st now r)"
proof -
  note st = apply_action_status [OF assms(1)]
  have "(in_recovered_at r \<noteq> None) = (st = StatusRecovered \<or> st = StatusResolved)"
    "((if mu_Action m = ActionResolve then Some now else in_resolved_at r) \<noteq> None) = (st = StatusResolved)"
    using assms by (cases "mu_Action m"; auto simp: incident_ok_def split: if_splits)+
  with assms(2) show ?thesis unfolding incident_ok_def st by simp
qed

lemma mutation_incident_inv:
  assumes inv: "incident_inv t" and eff: "mutation_effect m h res now t t'"
  shows "incident_inv t'"
proof -
  from eff obtain r e a where find: "find_row in_id (uuid_param (mu_IncidentID m)) (t_incidents t) = Some r"
    and nxt: "workflow_next (mu_Action m) (in_status r) = Some (mr_Status res)"
    and t': "t' = action_put now (mutation_key m) h res
          (operated m (mr_Status res) now r e a t)"
    unfolding mutation_effect_def by blast
  let ?f = "apply_action m (mr_Status res) now" and ?release = "\<lambda>s. s\<lparr>st_active_incident_id := None, st_updated_at := now\<rparr>"
  let ?g = "\<lambda>x. if in_id x = in_id r then ?f x else x"
  have r: "r \<in> set (t_incidents t)" using find_row_SomeD [OF find] by simp
  note parts = inv [unfolded incident_inv_def]
  have same: "x = r" if "x \<in> set (t_incidents t)" "in_id x = in_id r" for x
    using parts that r by (simp add: distinct_map inj_on_def)
  have rows: "t_incidents t' = update_where (\<lambda>x. in_id x = in_id r) ?f (t_incidents t)"
    and idents: "signal_idents t' = signal_idents t"
    and states: "t_rule_states t' = (if mu_Action m = ActionResolve
       then update_where (\<lambda>s. st_active_incident_id s = Some (in_id r)) ?release (t_rule_states t) else t_rule_states t)"
    unfolding t' action_put_def mutation_key_def operated_def by (simp_all add: signal_idents_def)
  have set_rows: "set (t_incidents t') = ?g ` set (t_incidents t)" by (simp add: rows set_update_where)
  have g_ok: "incident_ok (?g x)" and g_fp: "in_fingerprint (?g x) = in_fingerprint x"
    and g_act: "active (?g x) \<longleftrightarrow> active x \<and> (in_id x = in_id r \<longrightarrow> mu_Action m \<noteq> ActionResolve)"
    if x: "x \<in> set (t_incidents t)" for x
  proof -
    have ok: "incident_ok x" using parts x by blast
    show "in_fingerprint (?g x) = in_fingerprint x" by simp
    show "incident_ok (?g x)" using ok same [OF x] apply_action_ok [OF nxt] by (cases "in_id x = in_id r") auto
    show "active (?g x) \<longleftrightarrow> active x \<and> (in_id x = in_id r \<longrightarrow> mu_Action m \<noteq> ActionResolve)"
      using same [OF x] apply_action_active [OF nxt] by (cases "in_id x = in_id r") auto
  qed
  have pt: "points_to t' k j" if "points_to t k j" "j = in_id r \<longrightarrow> mu_Action m \<noteq> ActionResolve" for k j
  proof -
    from that(1) obtain x where x: "x \<in> set (t_incidents t)" "in_id x = j" "active x" "in_fingerprint x = key_fingerprint k"
      by (auto simp: points_to_def)
    have "?g x \<in> set (t_incidents t')" unfolding set_rows using x(1) by (rule imageI)
    moreover have "active (?g x)" using g_act [OF x(1)] x(2,3) that(2) by blast
    moreover have "in_id (?g x) = j" "in_fingerprint (?g x) = key_fingerprint k" using x(2,4) by simp_all
    ultimately show ?thesis unfolding points_to_def by blast
  qed
  have states_from: "\<exists>s \<in> set (t_rule_states t). state_key s' = state_key s \<and> st_last_signal_id s' = st_last_signal_id s
      \<and> (st_active_incident_id s' = None \<or> st_active_incident_id s' = st_active_incident_id s
          \<and> (mu_Action m = ActionResolve \<longrightarrow> st_active_incident_id s \<noteq> Some (in_id r)))"
    if "s' \<in> set (t_rule_states t')" for s'
    using that by (auto simp: states set_update_where state_key_def split: if_splits)
  show ?thesis
    unfolding incident_inv_def
  proof (intro conjI ballI allI impI)
    show "distinct (map in_id (t_incidents t'))"
      using parts map_update_where [of "t_incidents t" "\<lambda>x. in_id x = in_id r" in_id ?f] by (simp add: rows)
    show "incident_ok x" if "x \<in> set (t_incidents t')" for x
      using that g_ok unfolding set_rows by blast
    show "x = y" if x: "x \<in> set (t_incidents t')" and y: "y \<in> set (t_incidents t')"
      and eq: "active x \<and> active y \<and> in_fingerprint x = in_fingerprint y" for x y
    proof -
      from x y obtain x0 y0 where 0: "x0 \<in> set (t_incidents t)" "x = ?g x0" "y0 \<in> set (t_incidents t)" "y = ?g y0"
        unfolding set_rows by blast
      have "active x0 \<and> active y0 \<and> in_fingerprint x0 = in_fingerprint y0"
        using eq g_act [OF 0(1)] g_act [OF 0(3)] g_fp [OF 0(1)] g_fp [OF 0(3)] unfolding 0(2,4) by metis
      then have "x0 = y0" using parts 0(1,3) by blast
      then show "x = y" using 0(2,4) by simp
    qed
    have "map state_key (t_rule_states t') = map state_key (t_rule_states t)"
      using map_update_where [of "t_rule_states t" "\<lambda>s. st_active_incident_id s = Some (in_id r)" state_key ?release]
      by (simp add: states state_key_def)
    then show "distinct (map state_key (t_rule_states t'))" using parts by simp
    show "points_to t' (state_key s) i" if "s \<in> set (t_rule_states t')" "st_active_incident_id s = Some i" for s i
    proof -
      from states_from [OF that(1)] that(2) obtain s0 where s0: "s0 \<in> set (t_rule_states t)" "state_key s = state_key s0"
        "st_active_incident_id s0 = Some i" "i = in_id r \<longrightarrow> mu_Action m \<noteq> ActionResolve"
        by fastforce
      have "points_to t (state_key s0) i" using parts s0(1,3) by blast
      from pt [OF this s0(4)] s0(2) show ?thesis by simp
    qed
    show "distinct (map fst (signal_idents t'))" using parts idents by simp
    show "signal_at t' (state_key s) i" if "s \<in> set (t_rule_states t')" "st_last_signal_id s = Some i" for s i
    proof -
      from states_from [OF that(1)] that(2) obtain s0 where "s0 \<in> set (t_rule_states t)" "state_key s = state_key s0"
        "st_last_signal_id s0 = Some i" by force
      with parts have "signal_at t (state_key s) i" by fastforce
      then show ?thesis by (simp add: signal_at_def idents)
    qed
  qed
qed

section \<open>Whole requests\<close>

definition answer :: "mutation \<Rightarrow> mutation_result \<Rightarrow> mutation_result" where
  "answer m r = r\<lparr>mr_IncidentID := mu_IncidentID m, mr_Replayed := True\<rparr>"

lemma replayedMutation_Inr:
  "replayedMutation m h w = (Inr found, w') \<Longrightarrow> w_tables w' = w_tables w \<and>
     (case found of None \<Rightarrow> action_lookup (w_tables w) (mutation_key m) = None
      | Some res \<Rightarrow> \<exists>r. action_lookup (w_tables w) (mutation_key m) = Some (h, r) \<and> res = answer m r)"
  by (auto simp: replayedMutation_def tx_bind_Inr tx_query_Inr answer_def split: option.splits if_splits)

lemma Mutate_Inr:
  assumes "Mutate rt clock m0 w = (Inr res, w')"
  shows "validateMutation (trimmed m0) = Inr () \<and>
    ((\<exists>r. action_lookup (w_tables w) (mutation_key (trimmed m0)) = Some (mutationHash rt (trimmed m0), r)
        \<and> res = answer (trimmed m0) r \<and> w_tables w' = w_tables w)
     \<or> (\<exists>now. mutation_effect (trimmed m0) (mutationHash rt (trimmed m0)) res now (w_tables w) (w_tables w')))"
proof -
  let ?m = "trimmed m0" and ?h = "mutationHash rt (trimmed m0)"
  let ?body = "tx_bind (tx_query (\<lambda>_. ())) (\<lambda>_.
            tx_bind (replayedMutation ?m ?h) (\<lambda>found.
            case found of
              Some result \<Rightarrow> tx_return (Rollback (result, None))
            | None \<Rightarrow> tx_bind (applyMutation rt clock ?m ?h) (\<lambda>(result, now).
                tx_return (Commit (result, Some now)))))"
  have valid: "validateMutation ?m = Inr ()"
    using assms by (cases "validateMutation ?m") (auto simp: Mutate_def Let_def)
  with assms obtain at w1 where tx: "in_tx ?body w = (Inr (res, at), w1)" and w': "w_tables w' = w_tables w1"
    unfolding Mutate_def Let_def
    by (auto simp: tx_bind_Inr hub_publish_def split: prod.splits option.splits)
  from tx [unfolded in_tx_Inr] consider
      (commit) w2 where "?body (tick w) = (Inr (Commit (res, at)), w2)" "w1 = tick w2"
    | (rollback) w2 where "?body (tick w) = (Inr (Rollback (res, at)), w2)" "w1 = w2\<lparr>w_tables := w_tables w\<rparr>"
    by blast
  then show ?thesis
  proof cases
    case commit
    then obtain wa now where "w_tables wa = w_tables w" "applyMutation rt clock ?m ?h wa = (Inr (res, now), w2)"
      by (auto simp: tx_bind_Inr tx_query_Inr dest!: replayedMutation_Inr split: option.splits prod.splits)
    from applyMutation_Inr [OF this(2)] this(1) valid commit(2) w' show ?thesis by auto
  next
    case rollback
    then obtain r where "action_lookup (w_tables w) (mutation_key ?m) = Some (?h, r)" "res = answer ?m r"
      by (auto simp: tx_bind_Inr tx_query_Inr dest!: replayedMutation_Inr split: option.splits prod.splits)
    with valid rollback(2) w' show ?thesis by auto
  qed
qed

lemma Mutate_Inl: "Mutate rt clock m0 w = (Inl e, w') \<Longrightarrow> w_tables w' = w_tables w"
proof -
  assume run: "Mutate rt clock m0 w = (Inl e, w')"
  show ?thesis
  proof (cases "validateMutation (trimmed m0)")
    case (Inl x)
    with run show ?thesis by (simp add: Mutate_def)
  next
    case (Inr u)
    with run show ?thesis
      by (auto simp: Mutate_def Let_def tx_bind_def hub_publish_def dest: in_tx_atomic split: prod.splits sum.splits option.splits)
  qed
qed

lemma preserves_Mutate: "preserves incident_inv (Mutate rt clock m)"
  unfolding preserves_def
proof (rule alwaysI, rule impI)
  fix w :: world
  assume inv: "incident_inv (w_tables w)"
  obtain r w' where run: "Mutate rt clock m w = (r, w')" by (cases "Mutate rt clock m w")
  show "incident_inv (w_tables (snd (Mutate rt clock m w)))"
  proof (cases r)
    case (Inl e)
    with run inv Mutate_Inl [of rt clock m w e w'] show ?thesis by simp
  next
    case (Inr res)
    from Mutate_Inr [OF run [unfolded Inr]] inv mutation_incident_inv run show ?thesis by auto
  qed
qed

section \<open>Properties\<close>

text \<open>
  C15. An operator action is one atomic, recorded step of the workflow. When \<open>Mutate\<close> answers
  and the answer is not a replay, the incident existed at exactly the expected version, the
  action is offered in its status, the incident has the next status and version and a strictly
  later update instant, exactly one timeline entry with both ends of the transition and exactly
  one audit event were appended, the receipt is stored, resolving has released the rule states
  that pointed to the incident, and no other table changed. When it reports an error, no table
  changed.
\<close>

theorem mutation_atomic:
  assumes "Mutate rt clock m0 w = (result, w')"
  shows "case result of
      Inl e \<Rightarrow> w_tables w' = w_tables w
    | Inr res \<Rightarrow> if mr_Replayed res then w_tables w' = w_tables w
        else (\<exists>now. mutation_effect (trimmed m0) (mutationHash rt (trimmed m0)) res now (w_tables w) (w_tables w'))"
proof (cases result)
  case (Inl e)
  with assms Mutate_Inl [of rt clock m0 w e w'] show ?thesis by simp
next
  case (Inr res)
  from Mutate_Inr [OF assms [unfolded Inr]] Inr show ?thesis
    by (auto simp: answer_def dest: mutation_effect_fresh)
qed

definition sampleIncident :: incident_row where
  "sampleIncident = \<lparr> in_id = ''50000000-0000-4000-8000-000000000001'', in_rule_id = ''20000000-0000-4000-8000-000000000001'',
     in_integration_id = ''22222222-2222-4222-8222-222222222222'', in_resource_id = ''11111111-1111-4111-8111-111111111111'',
     in_check_type = ''host.up'', in_fingerprint = key_fingerprint (''20000000-0000-4000-8000-000000000001'',
       ''11111111-1111-4111-8111-111111111111'', ''host.up''), in_title = ''db: host.up'', in_summary = ''down'',
     in_severity = SeverityCritical, in_status = StatusOpen, in_owner_user_id = None, in_detected_at = 1000,
     in_latest_signal_at = 1000, in_acknowledged_at = None, in_recovered_at = None, in_resolved_at = None,
     in_version = 1, in_created_at = 1000, in_updated_at = 1000 \<rparr>"

definition sampleMutation :: mutation where
  "sampleMutation = \<lparr> mu_IncidentID = ''50000000-0000-4000-8000-000000000001'', mu_Action = ActionAcknowledge,
     mu_OwnerUserID = '''', mu_Note = '''', mu_ExpectedVersion = 1, mu_IdempotencyKey = ''k'',
     mu_ActorUserID = ''80000000-0000-4000-8000-000000000001'', mu_ActorName = ''Ada'', mu_SourceAddress = '''',
     mu_CorrelationID = ''c'' \<rparr>"

definition sampleDesk :: world where
  "sampleDesk = \<lparr> w_tables = empty_tables\<lparr>t_incidents := [sampleIncident]\<rparr>, w_faults = [], w_uuid = sampleUuid,
     w_next = 0, w_clock = 9000, w_hub = NewHub 4 \<rparr>"

lemma sample_mutation_valid: "validateMutation sampleMutation = Inr ()" "trimmed sampleMutation = sampleMutation"
  by code_simp+

lemma sample_uuid_param:
  "uuid_param ''50000000-0000-4000-8000-000000000001'' = ''50000000-0000-4000-8000-000000000001''"
  "uuid_param ''80000000-0000-4000-8000-000000000001'' = ''80000000-0000-4000-8000-000000000001''"
  by code_simp+

lemma sample_audit_valid:
  "validAuditEvent sampleRuntime \<lparr> ae_ActorUserID = a, ae_Action = ''incident.acknowledged'', ae_TargetType = ''incident'',
     ae_TargetID = b, ae_Result = ''succeeded'', ae_SourceAddress = '''', ae_CorrelationID = ''c'', ae_BeforeSummary = x,
     ae_AfterSummary = y, ae_OccurredAt = 5000 \<rparr>"
proof -
  have "TrimSpace ''c'' = ''c''" by code_simp
  then show ?thesis
    by (simp add: validAuditEvent_def targetTypePattern_def identifier_char_def lower_letter_def byte_def)
qed

lemmas mutation_eval = replayedMutation_def applyMutation_def writeMutation_def decideAction_def updateIncident_def
  releaseFingerprint_def operatorEntry_def storeReceipt_def action_lookup_def action_put_def mutation_key_def
  mutation_time_def loadIncident_def find_row_def audit_Append_def encodeSummary_def

lemmas sample_desk_eval = sampleDesk_def sampleIncident_def sampleMutation_def empty_tables_def sampleRuntime_def

lemma sample_mutate:
  "\<exists>res w'. Mutate sampleRuntime 5000 sampleMutation sampleDesk = (Inr res, w') \<and> \<not> mr_Replayed res
    \<and> mr_Status res = StatusAcknowledged \<and> w_faults w' = []"
  unfolding Mutate_def Let_def sample_mutation_valid sum.case
  by (simp add: mutation_eval tx_eval truncate_us_def microsecond_def sample_audit_valid [unfolded sampleRuntime_def]
      sample_desk_eval sample_uuid_param MaxSummaryBytes_def cong: tx_frozen)

theorem mutation_atomic_witness:
  "\<exists>res w' now. Mutate sampleRuntime 5000 sampleMutation sampleDesk = (Inr res, w')
    \<and> mutation_effect sampleMutation (mutationHash sampleRuntime sampleMutation) res now (w_tables sampleDesk) (w_tables w')"
proof -
  obtain res w' where run: "Mutate sampleRuntime 5000 sampleMutation sampleDesk = (Inr res, w')" and fresh: "\<not> mr_Replayed res"
    using sample_mutate by blast
  from mutation_atomic [OF run] fresh run show ?thesis by (auto simp: sample_mutation_valid(2))
qed

text \<open>
  C31. Operator actions are idempotent. Once an action has been answered, sending it again
  under the same key, at any later time and after any further receipts, returns the same
  answer marked as replayed and changes nothing; a different request under that key is refused
  as a conflict and changes nothing either.
\<close>

theorem mutation_idempotent:
  assumes "Mutate rt clock m0 w = (Inr res, w')"
    and "w_faults w2 = []" and "t_action_keys (w_tables w2) = t_action_keys (w_tables w') @ later"
    and "validateMutation (trimmed m1) = Inr ()" and "mutation_key (trimmed m1) = mutation_key (trimmed m0)"
  shows "Mutate rt clock' m1 w2 =
    (if mutationHash rt (trimmed m1) = mutationHash rt (trimmed m0) then Inr (answer (trimmed m1) res)
     else Inl ErrIdempotencyConflict, w2)"
proof -
  from Mutate_Inr [OF assms(1)] obtain r where
    stored: "action_lookup (w_tables w') (mutation_key (trimmed m0)) = Some (mutationHash rt (trimmed m0), r)"
    and r: "answer (trimmed m1) r = answer (trimmed m1) res"
    by (auto simp: answer_def stored_result_def dest: mutation_effect_stored)
  have "action_lookup (w_tables w2) (mutation_key (trimmed m1)) = Some (mutationHash rt (trimmed m0), r)"
    using stored assms(3,5) by (auto simp: action_lookup_def find_row_append split: option.splits)
  with assms(2,4) r show ?thesis
    by (auto simp: Mutate_def Let_def in_tx_run tx_bind_eval replayedMutation_def tx_query_run nofault_simps answer_def)
qed

theorem mutation_idempotent_witness:
  "\<exists>res w'. Mutate sampleRuntime 5000 sampleMutation sampleDesk = (Inr res, w')
    \<and> Mutate sampleRuntime 9000 sampleMutation w' = (Inr (answer sampleMutation res), w')"
proof -
  obtain res w' where run: "Mutate sampleRuntime 5000 sampleMutation sampleDesk = (Inr res, w')" and nf: "w_faults w' = []"
    using sample_mutate by blast
  from mutation_idempotent [OF run nf, of "[]" sampleMutation 9000] run show ?thesis
    by (simp add: sample_mutation_valid)
qed

text \<open>
  Which errors a computation can report. \<open>raises_only E m\<close>: whatever state and faults it meets, an
  error of \<open>m\<close> is one of \<open>E\<close>.
\<close>

definition raises_only :: "err set \<Rightarrow> 'a tx \<Rightarrow> bool" where
  "raises_only E m \<longleftrightarrow> (\<forall>w e w'. m w = (Inl e, w') \<longrightarrow> e \<in> E)"

lemma tx_bind_Inl:
  "tx_bind m k w = (Inl e, w') \<longleftrightarrow> m w = (Inl e, w') \<or> (\<exists>x w1. m w = (Inr x, w1) \<and> k x w1 = (Inl e, w'))"
  by (auto simp: tx_bind_def split: prod.splits sum.splits)

lemma tx_query_Inl: "tx_query f w = (Inl e, w') \<longleftrightarrow> faulty w \<and> e = DbError \<and> w' = tick w"
  by (auto simp: tx_query_def tx_stmt_def)

named_theorems raising

lemma raises_bind [raising]:
  "raises_only E m \<Longrightarrow> (\<And>x. raises_only E (k x)) \<Longrightarrow> raises_only E (tx_bind m k)"
  by (fastforce simp: raises_only_def tx_bind_Inl)

lemma raises_return [raising]: "raises_only E (tx_return x)"
  by (simp add: raises_only_def)

lemma raises_if [raising]: "raises_only E m \<Longrightarrow> raises_only E n \<Longrightarrow> raises_only E (if b then m else n)"
  by simp

lemma raises_exec: "DbError \<in> E \<Longrightarrow> raises_only E (tx_exec f)"
  by (auto simp: raises_only_def tx_exec_def tx_stmt_def)

lemma raises_insert:
  "DbError \<in> E \<Longrightarrow> (\<And>u c t e. f u c t = Inl e \<Longrightarrow> e \<in> E) \<Longrightarrow> raises_only E (tx_insert f)"
  by (auto simp: raises_only_def tx_insert_def tx_stmt_def split: if_splits sum.splits)

definition write_errors :: "err set" where
  "write_errors = {DbError, ErrInvalidAuditEvent}"

lemma raises_audit [raising]: "raises_only write_errors (audit_Append rt e)"
proof -
  have "raises_only write_errors (tx_insert (\<lambda>u c t. if u \<in> au_id ` set (t_audit t) then Inl DbError else Inr ((), g u t)))"
    for g :: "string \<Rightarrow> tables \<Rightarrow> tables"
    by (rule raises_insert) (auto simp: write_errors_def split: if_splits)
  then show ?thesis
    unfolding audit_Append_def
    by (auto simp: raises_only_def encodeSummary_def write_errors_def Let_def split: if_splits option.splits sum.splits)
qed

lemma raises_writes [raising]:
  "raises_only write_errors (updateIncident m st now)" "raises_only write_errors (releaseFingerprint m now)"
  "raises_only write_errors (operatorEntry m d current sev now)" "raises_only write_errors (storeReceipt m h res now)"
  unfolding updateIncident_def releaseFingerprint_def operatorEntry_def storeReceipt_def
  by (auto intro!: raises_exec raises_insert simp: write_errors_def split: if_splits)

lemma raises_writeMutation: "raises_only write_errors (writeMutation rt m h loaded d now)"
proof -
  obtain current sev owner version where l: "loaded = (current, sev, owner, version)" by (cases loaded)
  show ?thesis unfolding writeMutation_def l prod.case Let_def by (intro raising)
qed

text \<open>The reason a valid, new request is refused, in the order the code checks.\<close>

definition refusal :: "mutation \<Rightarrow> tables \<Rightarrow> err option" where
  "refusal m t = (case find_row in_id (uuid_param (mu_IncidentID m)) (t_incidents t) of
       None \<Rightarrow> Some ErrNotFound
     | Some r \<Rightarrow>
         if in_version r \<noteq> mu_ExpectedVersion m then Some (ErrVersionConflict (in_version r))
         else if workflow_next (mu_Action m) (in_status r) = None then Some ErrInvalidTransition
         else if mu_Action m = ActionAssign \<and> owner_name (mu_OwnerUserID m) t = None then Some ErrOwnerNotEligible
         else None)"

lemma decideAction_Inl:
  assumes "decideAction m s w = (Inl e, w')" and "validateMutation m = Inr ()"
  shows "e = DbError \<or> (if workflow_next (mu_Action m) s = None then e = ErrInvalidTransition
    else mu_Action m = ActionAssign \<and> owner_name (mu_OwnerUserID m) (w_tables w) = None \<and> e = ErrOwnerNotEligible)"
proof (cases "workflow_next (mu_Action m) s = None")
  case True
  with assms decideAction_refused [OF True assms(2)] show ?thesis by simp
next
  case False
  with assms show ?thesis
    by (cases "mu_Action m")
      (auto simp: decideAction_def tx_bind_Inl tx_query_Inl tx_query_Inr validateMutation_def split: if_splits option.splits)
qed

lemma applyMutation_Inl:
  assumes run: "applyMutation rt clock m h w = (Inl e, w')" and valid: "validateMutation m = Inr ()"
  shows "e \<in> write_errors \<or> refusal m (w_tables w) = Some e"
proof -
  let ?first = "if mu_Action m = ActionResolve then tx_query (\<lambda>_. ()) else tx_return ()"
  from run consider "?first w = (Inl e, w')"
    | w1 where "?first w = (Inr (), w1)" "tx_query (loadIncident m) w1 = (Inl e, w')"
    | w1 w2 found where "?first w = (Inr (), w1)" "tx_query (loadIncident m) w1 = (Inr found, w2)"
      "(case found of None \<Rightarrow> tx_fail ErrNotFound
       | Some (current, sev, owner, version, updatedAt) \<Rightarrow>
         if version \<noteq> mu_ExpectedVersion m then tx_fail (ErrVersionConflict version)
         else tx_bind (decideAction m current) (\<lambda>d.
           let now = mutation_time clock updatedAt in
           tx_bind (writeMutation rt m h (current, sev, owner, version) d now) (\<lambda>result.
           tx_return (result, now)))) w2 = (Inl e, w')"
    unfolding applyMutation_def tx_bind_Inl [of ?first] tx_bind_Inl [of "tx_query (loadIncident m)"] by auto
  then show ?thesis
  proof cases
    case 3
    have same: "w_tables w1 = w_tables w"
      using 3(1) by (auto simp: tx_query_Inr split: if_splits)
    have found: "found = loadIncident m (w_tables w)" and same2: "w_tables w2 = w_tables w"
      using 3(2) same by (auto simp: tx_query_Inr)
    show ?thesis
    proof (cases "find_row in_id (uuid_param (mu_IncidentID m)) (t_incidents (w_tables w))")
      case None
      with 3(3) found show ?thesis by (simp add: loadIncident_def refusal_def)
    next
      case (Some r)
      show ?thesis
      proof (cases "in_version r = mu_ExpectedVersion m")
        case False
        with 3(3) found Some show ?thesis by (simp add: loadIncident_def refusal_def)
      next
        case True
        let ?now = "mutation_time clock (in_updated_at r)"
        let ?loaded = "(in_status r, in_severity r, text_of (in_owner_user_id r), in_version r)"
        from 3(3) found Some True consider "decideAction m (in_status r) w2 = (Inl e, w')"
          | d w3 where "writeMutation rt m h ?loaded d ?now w3 = (Inl e, w')"
          by (auto simp: loadIncident_def Let_def tx_bind_Inl)
        then show ?thesis
        proof cases
          case 1
          from decideAction_Inl [OF 1 valid] Some True same2 show ?thesis
            by (auto simp: refusal_def write_errors_def split: if_splits)
        next
          case 2
          with raises_writeMutation show ?thesis by (fastforce simp: raises_only_def)
        qed
      qed
    qed
  qed (auto simp: tx_query_Inl write_errors_def split: if_splits)
qed

lemma in_tx_Inl: "in_tx body w = (Inl e, w') \<Longrightarrow> e = DbError \<or> (\<exists>w1. body (tick w) = (Inl e, w1))"
  by (auto simp: in_tx_def split: if_splits prod.splits sum.splits outcome.splits)

lemma replayedMutation_fresh:
  assumes "action_lookup (w_tables w) (mutation_key m) = None"
  shows "replayedMutation m h w = (if faulty w then (Inl DbError, tick w) else (Inr None, tick w))"
  using assms by (simp add: replayedMutation_def tx_bind_def tx_query_def tx_stmt_def)

abbreviation mutation_body ::
  "runtime \<Rightarrow> time \<Rightarrow> mutation \<Rightarrow> string \<Rightarrow> (mutation_result \<times> time option) outcome tx" where
  "mutation_body rt clock m h \<equiv> tx_bind (tx_query (\<lambda>_. ())) (\<lambda>_. tx_bind (replayedMutation m h) (\<lambda>found. case found of
      Some result \<Rightarrow> tx_return (Rollback (result, None))
    | None \<Rightarrow> tx_bind (applyMutation rt clock m h) (\<lambda>(result, now). tx_return (Commit (result, Some now)))))"

lemma mutation_body_Inl:
  assumes "mutation_body rt clock m h w = (Inl e, w')"
    and fresh: "action_lookup (w_tables w) (mutation_key m) = None" and valid: "validateMutation m = Inr ()"
  shows "e \<in> write_errors \<or> refusal m (w_tables w) = Some e"
proof -
  have "action_lookup (w_tables (tick w)) (mutation_key m) = None" using fresh by simp
  note replay = replayedMutation_fresh [OF this, of h]
  from assms(1) consider "e = DbError"
    | "applyMutation rt clock m h (tick (tick w)) = (Inl e, w')"
    by (auto simp: tx_bind_Inl [of "tx_query _"] tx_query_Inl tx_query_Inr tx_bind_Inl [of "replayedMutation _ _"] replay
        tx_bind_Inl [of "applyMutation _ _ _ _"] split: if_splits)
  then show ?thesis
    using applyMutation_Inl [OF _ valid] by cases (fastforce simp: write_errors_def)+
qed

lemma Mutate_raises:
  assumes run: "Mutate rt clock m0 w = (Inl e, w')" and valid: "validateMutation (trimmed m0) = Inr ()"
    and fresh: "action_lookup (w_tables w) (mutation_key (trimmed m0)) = None"
  shows "e \<in> write_errors \<or> refusal (trimmed m0) (w_tables w) = Some e"
proof -
  define K where "K x = (case x of (result, committedAt) \<Rightarrow> (case committedAt of
      None \<Rightarrow> tx_return result
    | Some now \<Rightarrow> tx_bind (hub_publish (zeroEvent\<lparr> ev_Kind := ''incident_changed'', ev_IncidentID := mu_IncidentID (trimmed m0),
        ev_Result := status_text (mr_Status result), ev_ChangedAt := now \<rparr>)) (\<lambda>_. tx_return result)))"
    for x :: "mutation_result \<times> time option"
  have "K x v \<noteq> (Inl e, w')" for x v
    by (auto simp: K_def hub_publish_def tx_bind_def split: prod.splits option.splits)
  with run valid have "\<exists>v. in_tx (mutation_body rt clock (trimmed m0) (mutationHash rt (trimmed m0))) w = (Inl e, v)"
    unfolding Mutate_def Let_def K_def [symmetric] by (auto simp: tx_bind_Inl [of "in_tx _"] K_def [abs_def])
  then obtain v where "in_tx (mutation_body rt clock (trimmed m0) (mutationHash rt (trimmed m0))) w = (Inl e, v)" ..
  from in_tx_Inl [OF this] show ?thesis
  proof
    assume "\<exists>w1. mutation_body rt clock (trimmed m0) (mutationHash rt (trimmed m0)) (tick w) = (Inl e, w1)"
    then obtain w1 where body: "mutation_body rt clock (trimmed m0) (mutationHash rt (trimmed m0)) (tick w) = (Inl e, w1)" ..
    from mutation_body_Inl [OF body _ valid] fresh show ?thesis by simp
  qed (simp add: write_errors_def)
qed

lemma Mutate_refuses:
  assumes "w_faults w = []" and "validateMutation (trimmed m0) = Inr ()"
    and "action_lookup (w_tables w) (mutation_key (trimmed m0)) = None"
    and "refusal (trimmed m0) (w_tables w) = Some e"
  shows "fst (Mutate rt clock m0 w) = Inl e"
proof -
  let ?m = "trimmed m0"
  have "\<exists>w'. applyMutation rt clock ?m h w = (Inl e, w')" for h
  proof (cases "find_row in_id (uuid_param (mu_IncidentID ?m)) (t_incidents (w_tables w))")
    case None
    with assms(1,4) show ?thesis
      by (cases "mu_Action ?m = ActionResolve") (simp_all add: applyMutation_def refusal_def loadIncident_def tx_bind_eval tx_query_run)
  next
    case (Some r)
    have dec: "decideAction ?m (in_status r) w = (Inl e, w)" if "in_version r = mu_ExpectedVersion ?m"
    proof (cases "workflow_next (mu_Action ?m) (in_status r) = None")
      case True
      with assms(4) Some that decideAction_refused [OF True assms(2)] show ?thesis by (simp add: refusal_def)
    next
      case False
      with assms(1,4) Some that show ?thesis
        by (auto simp: refusal_def decideAction_def tx_bind_eval tx_query_run split: if_splits)
    qed
    with assms(1,4) Some show ?thesis
      by (cases "mu_Action ?m = ActionResolve"; cases "in_version r = mu_ExpectedVersion ?m")
        (simp_all add: applyMutation_def refusal_def loadIncident_def tx_bind_eval tx_query_run)
  qed
  then obtain w' where "applyMutation rt clock ?m (mutationHash rt ?m) w = (Inl e, w')" by blast
  with assms(1-3) show ?thesis
    by (simp add: Mutate_def Let_def in_tx_run tx_bind_eval replayedMutation_def tx_query_run)
qed

text \<open>
  C32. A valid new request is refused with one of the workflow errors exactly when the documented
  reason for that error holds: an unknown incident, a version that is not the current one (the
  answer carries the current one), an action the transition table does not offer in the current
  status, or an assignee who is disabled, nameless or without the operator permission, in this
  order. Where no statement fails, a request with such a reason is refused with its error, and
  one without it succeeds or fails with a database error or for an invalid audit record; under
  any failures a workflow error still names a reason that holds. A refusal changes no table.
\<close>

theorem mutation_refused:
  assumes "validateMutation (trimmed m0) = Inr ()"
    and "action_lookup (w_tables w) (mutation_key (trimmed m0)) = None"
  shows "(\<forall>e. fst (Mutate rt clock m0 w) = Inl e \<longrightarrow> w_tables (snd (Mutate rt clock m0 w)) = w_tables w
        \<and> (e = DbError \<or> e = ErrInvalidAuditEvent \<or> refusal (trimmed m0) (w_tables w) = Some e))
    \<and> (\<forall>e. w_faults w = [] \<and> refusal (trimmed m0) (w_tables w) = Some e \<longrightarrow> fst (Mutate rt clock m0 w) = Inl e)"
proof -
  let ?m = "trimmed m0"
  have "w_tables w' = w_tables w \<and> (e = DbError \<or> e = ErrInvalidAuditEvent \<or> refusal ?m (w_tables w) = Some e)"
    if "Mutate rt clock m0 w = (Inl e, w')" for e w'
    using Mutate_raises [OF that assms] Mutate_Inl [OF that] by (auto simp: write_errors_def)
  then have "\<forall>e. fst (Mutate rt clock m0 w) = Inl e \<longrightarrow> w_tables (snd (Mutate rt clock m0 w)) = w_tables w
        \<and> (e = DbError \<or> e = ErrInvalidAuditEvent \<or> refusal ?m (w_tables w) = Some e)"
    by (metis prod.collapse)
  moreover have "fst (Mutate rt clock m0 w) = Inl e"
    if "w_faults w = []" "refusal ?m (w_tables w) = Some e" for e
    by (rule Mutate_refuses [OF that(1) assms that(2)])
  ultimately show ?thesis by blast
qed

theorem mutation_refused_witness:
  "fst (Mutate sampleRuntime 5000 (sampleMutation\<lparr>mu_ExpectedVersion := 7\<rparr>) sampleDesk) = Inl (ErrVersionConflict 1)"
proof -
  let ?m = "sampleMutation\<lparr>mu_ExpectedVersion := 7\<rparr>"
  have valid: "validateMutation (trimmed ?m) = Inr ()" "trimmed ?m = ?m" by code_simp+
  have "w_faults sampleDesk = []" "action_lookup (w_tables sampleDesk) (mutation_key (trimmed ?m)) = None"
    "refusal (trimmed ?m) (w_tables sampleDesk) = Some (ErrVersionConflict 1)"
    unfolding valid(2) by (simp_all add: refusal_def sample_desk_eval action_lookup_def find_row_def sample_uuid_param)
  with mutation_refused [OF valid(1) this(2)] show ?thesis by blast
qed

end
