(* ===== verification/Notification_Outbox.thy ===== *)
theory Notification_Outbox
  imports Incident_Evaluator
begin

text \<open>
  The notification outbox (\<open>core/internal/notifications/writer.go\<close> and \<open>worker.go\<close>). The writer
  appends, inside the incident transaction, one intent per enabled destination, already
  terminal when a silence matches; it provides the contract \<open>intent_writer\<close> of the evaluator.
  The worker claims one due intent under a lease and a fresh token, delivers it outside any
  transaction, and records the outcome if the claim is still its own. The secret resolver,
  the drivers, the public URL and the source of random numbers are parameters.
\<close>

section \<open>The writer\<close>

definition silence_matches :: "notification_event \<Rightarrow> time \<Rightarrow> silence_row \<Rightarrow> bool" where
  "silence_matches event at m \<longleftrightarrow>
     sl_enabled m \<and> sl_revoked_at m = None \<and> sl_starts_at m \<le> at \<and> at < sl_expires_at m
     \<and> (sl_incident_id m \<noteq> None \<and> sl_incident_id m = nullif (ne_IncidentID event)
        \<or> sl_rule_id m \<noteq> None \<and> sl_rule_id m = nullif (ne_RuleID event)
        \<or> sl_resource_id m \<noteq> None \<and> sl_resource_id m = nullif (ne_ResourceID event))"

definition silence_order :: "silence_row \<Rightarrow> bool \<times> bool \<times> time \<times> string" where
  "silence_order m = (sl_incident_id m = None, sl_rule_id m = None, - sl_created_at m, sl_id m)"

definition matchingSilence :: "notification_event \<Rightarrow> time \<Rightarrow> string tx" where
  "matchingSilence event at = tx_query (\<lambda>t.
     case first_by silence_order (filter (silence_matches event at) (t_silences t)) of
       None \<Rightarrow> '''' | Some m \<Rightarrow> sl_id m)"

definition intent_row_of ::
  "string \<Rightarrow> time \<Rightarrow> notification_event \<Rightarrow> string \<Rightarrow> string \<Rightarrow> time \<Rightarrow> intent_row" where
  "intent_row_of u c event destinationID silenceID now =
     \<lparr> nt_id = u, nt_incident_event_id = Some (ne_TimelineEventID event),
       nt_incident_id = Some (ne_IncidentID event), nt_destination_id = destinationID,
       nt_event_kind = ne_Kind event, nt_is_test = False, nt_title = ne_Title event,
       nt_summary = ne_Summary event, nt_severity = Some (ne_Severity event),
       nt_incident_status = Some (ne_Status event), nt_event_occurred_at = ne_OccurredAt event,
       nt_state = (if silenceID \<noteq> '''' then StateSuppressed else StateQueued),
       nt_attempt_count = 0, nt_available_at = c, nt_claimed_until = None, nt_claim_token = None,
       nt_delivered_at = None, nt_terminal_at = (if silenceID \<noteq> '''' then Some now else None),
       nt_suppressed_silence_id = nullif silenceID, nt_last_error_code = None,
       nt_created_at = now, nt_updated_at = now \<rparr>"

definition intent_key :: "intent_row \<Rightarrow> string option \<times> string" where
  "intent_key r = (nt_incident_event_id r, nt_destination_id r)"

definition insertIntent :: "notification_event \<Rightarrow> string \<Rightarrow> string \<Rightarrow> time \<Rightarrow> string option tx" where
  "insertIntent event destinationID silenceID now = tx_insert (\<lambda>u c t.
     if (Some (ne_TimelineEventID event), destinationID) \<in> intent_key ` set (t_intents t) then Inr (None, t)
     else if u \<in> nt_id ` set (t_intents t) then Inl DbError
     else Inr (Some u, t\<lparr>t_intents := t_intents t @ [intent_row_of u c event destinationID silenceID now]\<rparr>))"

definition notificationEntry :: "string \<Rightarrow> string \<Rightarrow> time \<Rightarrow> unit tx" where
  "notificationEntry incidentID summ at = tx_insert (\<lambda>u c t.
     if u \<in> tl_id ` set (t_timeline t) then Inl DbError
     else Inr ((), t\<lparr>t_timeline := t_timeline t @
       [\<lparr> tl_id = u, tl_incident_id = incidentID, tl_signal_id = None, tl_actor_user_id = None,
          tl_actor_display_name = None, tl_subject_user_id = None, tl_subject_display_name = None,
          tl_kind = ''notification'', tl_from_status = None, tl_to_status = None,
          tl_from_severity = None, tl_to_severity = None, tl_summary = summ,
          tl_occurred_at = at, tl_created_at = c \<rparr>]\<rparr>))"

definition enqueueFor :: "notification_event \<Rightarrow> string \<Rightarrow> time \<Rightarrow> string \<times> string \<Rightarrow> unit tx" where
  "enqueueFor event silenceID now destination = (case destination of (destinationID, name) \<Rightarrow>
     tx_bind (insertIntent event destinationID silenceID now) (\<lambda>intent.
     case intent of
       None \<Rightarrow> tx_return ()
     | Some _ \<Rightarrow> notificationEntry (ne_IncidentID event)
         (if silenceID \<noteq> '''' then ''Notification suppressed for '' @ name @ '' by a matching silence.''
          else ''Notification queued for '' @ name @ ''.'') now))"

definition enabled_destinations :: "tables \<Rightarrow> (string \<times> string) list" where
  "enabled_destinations t = map (\<lambda>d. (ds_id d, ds_display_name d))
     (sort_key ds_id (filter ds_enabled (t_destinations t)))"

text \<open>\<open>wallclock\<close> is read only for an event without a creation time.\<close>

definition EnqueueIncidentEvent :: "time \<Rightarrow> notification_event \<Rightarrow> unit tx" where
  "EnqueueIncidentEvent wallclock event =
     (if ne_TimelineEventID event = '''' \<or> ne_IncidentID event = '''' then tx_fail ErrInvalidIncidentEvent
      else
        tx_bind (tx_query enabled_destinations) (\<lambda>destinations.
        tx_bind (matchingSilence event (ne_OccurredAt event)) (\<lambda>silenceID.
        let now = truncate_us (ne_CreatedAt event);
            now = (if now = 0 then truncate_us wallclock else now)
        in tx_for (enqueueFor event silenceID now) destinations)))"

section \<open>The writer keeps its contract\<close>

lemma timeline_notificationEntry: "always timeline_extends (notificationEntry i sm at)"
  unfolding notificationEntry_def
  by (rule timeline.insert) (auto simp: timeline_extends_def split: if_splits)

lemma timeline_enqueueFor: "always timeline_extends (enqueueFor event sid now d)"
  unfolding enqueueFor_def insertIntent_def
  by (intro timeline.composition timeline_notificationEntry timeline.insert)
    (auto simp: timeline_extends_def split: if_splits)

lemma keeps_enqueueFor: "keeps outside_outbox (enqueueFor event sid now d)"
  unfolding enqueueFor_def insertIntent_def notificationEntry_def
  by (intro frame_intros) (auto simp: outside_outbox_def split: if_splits)

interpretation outbox: intent_writer "Some (EnqueueIncidentEvent wallclock)" for wallclock
proof
  fix e
  show "keeps outside_outbox (enqueueNotification (Some (EnqueueIncidentEvent wallclock)) e)"
    unfolding enqueueNotification_def option.case EnqueueIncidentEvent_def matchingSilence_def Let_def
    by (intro frame_intros keeps_enqueueFor)
  show "always timeline_extends (enqueueNotification (Some (EnqueueIncidentEvent wallclock)) e)"
    unfolding enqueueNotification_def option.case EnqueueIncidentEvent_def matchingSilence_def Let_def
    by (intro timeline.composition timeline_enqueueFor)
qed

end
