(* ===== verification/Notification_Worker.thy ===== *)
theory Notification_Worker
  imports Notification_Outbox
begin

text \<open>
  The delivery worker (\<open>core/internal/notifications/worker.go\<close>). A delivery is at least once: an
  intent is claimed under a lease and a fresh token, handed to a driver outside any
  transaction, and completed only by the holder of the token. Rows that other sessions hold
  locked are the parameter \<open>locked\<close>; both clock readings of a pass are arguments. The lease
  travels as text into an interval of PostgreSQL, which is exact for whole microseconds.
\<close>

section \<open>Types\<close>

record delivery_result =
  dr_Delivered :: bool
  dr_Retryable :: bool
  dr_HTTPStatus :: int
  dr_ErrorCode :: string
  dr_ProviderRequestID :: string
  dr_RetryAfter :: duration

record message =
  ms_EventID :: string
  ms_IncidentID :: string
  ms_Kind :: string
  ms_Title :: string
  ms_Summary :: string
  ms_Severity :: string
  ms_Status :: string
  ms_OccurredAt :: time
  ms_IncidentURL :: string
  ms_Test :: bool

record delivery_request =
  rq_Host :: string
  rq_Port :: int
  rq_PathPrefix :: string
  rq_WebhookToken :: string
  rq_Message :: message

record worker_options =
  wo_Concurrency :: int
  wo_PollInterval :: duration
  wo_ClaimLease :: duration
  wo_MaxAttempts :: int
  wo_MaxRetryDelay :: duration
  wo_IncidentURL :: "(string \<Rightarrow> string) option"
  wo_Secrets :: "(string \<Rightarrow> string option) option"
  wo_Drivers :: "string \<Rightarrow> (delivery_request \<Rightarrow> delivery_result) option"

definition NewWorker :: "worker_options \<Rightarrow> worker_options" where
  "NewWorker o0 = o0\<lparr>
     wo_Concurrency := (if wo_Concurrency o0 \<le> 0 then 2 else wo_Concurrency o0),
     wo_PollInterval := (if wo_PollInterval o0 \<le> 0 then second else wo_PollInterval o0),
     wo_ClaimLease := (if wo_ClaimLease o0 \<le> 0 then 30 * second else wo_ClaimLease o0),
     wo_MaxAttempts := (if wo_MaxAttempts o0 \<le> 0 \<or> 6 < wo_MaxAttempts o0 then 6 else wo_MaxAttempts o0),
     wo_MaxRetryDelay := (if wo_MaxRetryDelay o0 \<le> 0 then 300 * second else wo_MaxRetryDelay o0) \<rparr>"

record claimed_intent =
  cl_ID :: string
  cl_ClaimToken :: string
  cl_IncidentID :: string
  cl_DestinationID :: string
  cl_DestinationName :: string
  cl_DestinationType :: string
  cl_EndpointHost :: string
  cl_EndpointPort :: int
  cl_PathPrefix :: string
  cl_SecretReference :: string
  cl_EventKind :: string
  cl_Test :: bool
  cl_Title :: string
  cl_Summary :: string
  cl_Severity :: string
  cl_Status :: string
  cl_OccurredAt :: time
  cl_Attempt :: int

section \<open>Claiming\<close>

definition lease_expired :: "time \<Rightarrow> intent_row \<Rightarrow> bool" where
  "lease_expired now r \<longleftrightarrow> nt_state r = StateAttempting
     \<and> (case nt_claimed_until r of None \<Rightarrow> False | Some u \<Rightarrow> u \<le> now)"

definition intent_claimable :: "time \<Rightarrow> int \<Rightarrow> intent_row \<Rightarrow> bool" where
  "intent_claimable now maxAttempts r \<longleftrightarrow> nt_attempt_count r < maxAttempts
     \<and> ((nt_state r = StateQueued \<or> nt_state r = StateRetryWait) \<and> nt_available_at r \<le> now
        \<or> lease_expired now r)"

definition take_intent :: "time \<Rightarrow> duration \<Rightarrow> string \<Rightarrow> intent_row \<Rightarrow> intent_row" where
  "take_intent now lease token r = r\<lparr> nt_state := StateAttempting, nt_attempt_count := nt_attempt_count r + 1,
     nt_claim_token := Some token, nt_claimed_until := Some (now + lease), nt_updated_at := now \<rparr>"

definition scan_claim :: "intent_row \<Rightarrow> destination_row \<Rightarrow> claimed_intent" where
  "scan_claim r d = \<lparr> cl_ID = nt_id r, cl_ClaimToken = text_of (nt_claim_token r),
     cl_IncidentID = text_of (nt_incident_id r), cl_DestinationID = nt_destination_id r,
     cl_DestinationName = ds_display_name d, cl_DestinationType = ds_destination_type d,
     cl_EndpointHost = ds_endpoint_host d, cl_EndpointPort = ds_endpoint_port d,
     cl_PathPrefix = ds_endpoint_path_prefix d, cl_SecretReference = ds_secret_reference d,
     cl_EventKind = nt_event_kind r, cl_Test = nt_is_test r, cl_Title = nt_title r,
     cl_Summary = nt_summary r,
     cl_Severity = (case nt_severity r of None \<Rightarrow> '''' | Some s \<Rightarrow> severity_text s),
     cl_Status = (case nt_incident_status r of None \<Rightarrow> '''' | Some s \<Rightarrow> status_text s),
     cl_OccurredAt = nt_event_occurred_at r, cl_Attempt = nt_attempt_count r \<rparr>"

definition candidate :: "(string \<Rightarrow> bool) \<Rightarrow> time \<Rightarrow> int \<Rightarrow> tables \<Rightarrow> intent_row option" where
  "candidate locked now maxAttempts t = first_by (\<lambda>r. (nt_available_at r, nt_created_at r, nt_id r))
     (filter (\<lambda>r. intent_claimable now maxAttempts r \<and> \<not> locked (nt_id r)) (t_intents t))"

definition claim :: "worker_options \<Rightarrow> (string \<Rightarrow> bool) \<Rightarrow> time \<Rightarrow> claimed_intent option tx" where
  "claim opts locked now = tx_insert (\<lambda>u c t.
     case candidate locked now (wo_MaxAttempts opts) t of
       None \<Rightarrow> Inr (None, t)
     | Some r \<Rightarrow>
         let r' = take_intent now (wo_ClaimLease opts) u r
         in Inr (map_option (scan_claim r') (find_row ds_id (nt_destination_id r) (t_destinations t)),
                 t\<lparr>t_intents := update_where (\<lambda>x. nt_id x = nt_id r)
                   (take_intent now (wo_ClaimLease opts) u) (t_intents t)\<rparr>))"

section \<open>Delivering\<close>

definition failed_result :: "bool \<Rightarrow> string \<Rightarrow> delivery_result" where
  "failed_result retryable code = \<lparr> dr_Delivered = False, dr_Retryable = retryable, dr_HTTPStatus = 0,
     dr_ErrorCode = code, dr_ProviderRequestID = '''', dr_RetryAfter = 0 \<rparr>"

definition usable_secret :: "string \<Rightarrow> bool" where
  "usable_secret s \<longleftrightarrow> TrimSpace s \<noteq> '''' \<and> length s \<le> 4096
     \<and> list_all (\<lambda>c. c \<noteq> CHR 0x0D \<and> c \<noteq> CHR 0x0A \<and> c \<noteq> CHR 0x00) s"

definition request_of :: "worker_options \<Rightarrow> claimed_intent \<Rightarrow> string \<Rightarrow> delivery_request" where
  "request_of opts c secret = \<lparr> rq_Host = cl_EndpointHost c, rq_Port = cl_EndpointPort c,
     rq_PathPrefix = cl_PathPrefix c, rq_WebhookToken = secret,
     rq_Message = \<lparr> ms_EventID = cl_ID c, ms_IncidentID = cl_IncidentID c, ms_Kind = cl_EventKind c,
       ms_Title = cl_Title c, ms_Summary = cl_Summary c, ms_Severity = cl_Severity c,
       ms_Status = cl_Status c, ms_OccurredAt = cl_OccurredAt c,
       ms_IncidentURL = (case wo_IncidentURL opts of
           Some resolve \<Rightarrow> if cl_Test c then '''' else resolve (cl_IncidentID c)
         | None \<Rightarrow> ''''),
       ms_Test = cl_Test c \<rparr> \<rparr>"

definition deliver :: "worker_options \<Rightarrow> claimed_intent \<Rightarrow> delivery_result" where
  "deliver opts c = (case wo_Secrets opts of
       None \<Rightarrow> failed_result True ''secret_resolver_unavailable''
     | Some resolve \<Rightarrow> (case resolve (cl_SecretReference c) of
         None \<Rightarrow> failed_result True ''secret_resolution_failed''
       | Some secret \<Rightarrow>
           if \<not> usable_secret secret then failed_result True ''secret_resolution_failed''
           else (case wo_Drivers opts (cl_DestinationType c) of
               None \<Rightarrow> failed_result False ''destination_driver_unavailable''
             | Some drv \<Rightarrow> drv (request_of opts c secret))))"

section \<open>Completing\<close>

text \<open>\<open>random n\<close> is \<open>Int63n(n)\<close>.\<close>

definition retryDelay :: "worker_options \<Rightarrow> (int \<Rightarrow> int) \<Rightarrow> int \<Rightarrow> duration \<Rightarrow> duration" where
  "retryDelay opts random attempt after =
     (let delay = 2 ^ nat (min (attempt - 1) 8) * second;
          delay = (if delay < after then after else delay);
          delay = (if wo_MaxRetryDelay opts < delay then wo_MaxRetryDelay opts else delay);
          jitter = random (max 1 (delay sdiv 4))
      in if wo_MaxRetryDelay opts < delay + jitter then wo_MaxRetryDelay opts else delay + jitter)"

definition terminalTimelineSummary :: "delivery_state \<Rightarrow> string \<Rightarrow> string" where
  "terminalTimelineSummary st destination = (case st of
       StateDelivered \<Rightarrow> ''Notification delivered to '' @ destination @ ''.''
     | StateDeadLetter \<Rightarrow> ''Notification moved to dead letter after bounded retries for '' @ destination @ ''.''
     | _ \<Rightarrow> ''Notification delivery failed for '' @ destination @ ''.'')"

text \<open>
  \<open>strings.ToLower\<close> as far as it matters here: the only runes outside ASCII whose lower case
  is ASCII are the Kelvin sign and the dotted capital I, and any other rune outside ASCII is
  rejected whatever its lower case is.
\<close>

definition lower_rune :: "string \<Rightarrow> string" where
  "lower_rune r =
     (if length r = 1 \<and> 0x41 \<le> byte (hd r) \<and> byte (hd r) \<le> 0x5A then [char_of (byte (hd r) + 0x20)]
      else if r = [CHR 0xE2, CHR 0x84, CHR 0xAA] then ''k''
      else if r = [CHR 0xC4, CHR 0xB0] then ''i''
      else r)"

definition normalizedErrorCode :: "string \<Rightarrow> string" where
  "normalizedErrorCode v =
     (let v = concat (map lower_rune (runes (TrimSpace v)))
      in if v = '''' then ''delivery_failed''
         else if \<not> list_all identifier_char v then ''delivery_failed''
         else if 127 < length v then ''delivery_failed''
         else v)"

definition boundedProviderID :: "string \<Rightarrow> string" where
  "boundedProviderID v =
     (let v = TrimSpace v
      in if v = '''' \<or> 128 < length v \<or> list_ex (\<lambda>c. byte c < 0x20 \<or> byte c = 0x7F) v then '''' else v)"

definition verdict ::
  "worker_options \<Rightarrow> (int \<Rightarrow> int) \<Rightarrow> claimed_intent \<Rightarrow> delivery_result \<Rightarrow> time \<Rightarrow> delivery_state \<times> string \<times> string \<times> time" where
  "verdict opts random c result completedAt =
     (if dr_Delivered result then (StateDelivered, ''delivered'', '''', completedAt)
      else let code = normalizedErrorCode (dr_ErrorCode result) in
        if dr_Retryable result \<and> cl_Attempt c < wo_MaxAttempts opts
        then (StateRetryWait, ''retry'', code,
              completedAt + retryDelay opts random (cl_Attempt c) (dr_RetryAfter result))
        else if dr_Retryable result then (StateDeadLetter, ''dead_letter'', code, completedAt)
        else (StateFailed, ''failed'', code, completedAt))"

definition insertAttempt :: "(string \<Rightarrow> time \<Rightarrow> attempt_row) \<Rightarrow> unit tx" where
  "insertAttempt mk = tx_insert (\<lambda>u c t.
     let a = mk u c in
     if u \<in> at_id ` set (t_attempts t)
       \<or> (at_intent_id a, at_attempt_number a) \<in> (\<lambda>x. (at_intent_id x, at_attempt_number x)) ` set (t_attempts t)
     then Inl DbError
     else Inr ((), t\<lparr>t_attempts := t_attempts t @ [a]\<rparr>))"

definition holds_claim :: "claimed_intent \<Rightarrow> intent_row \<Rightarrow> bool" where
  "holds_claim c r \<longleftrightarrow> nt_id r = cl_ID c \<and> nt_state r = StateAttempting
     \<and> nt_claim_token r = Some (cl_ClaimToken c) \<and> nt_attempt_count r = cl_Attempt c"

definition clamp_duration :: "duration \<Rightarrow> duration" where
  "clamp_duration d = (if d < 0 then 0 else if 3600 * second < d then 3600 * second else d)"

definition complete_body ::
  "claimed_intent \<Rightarrow> delivery_result \<Rightarrow> delivery_state \<times> string \<times> string \<times> time \<Rightarrow> time \<Rightarrow> time \<Rightarrow> bool outcome tx" where
  "complete_body c result v startedAt completedAt = (case v of (st, outcome, errorCode, availableAt) \<Rightarrow>
     tx_bind (tx_affect (\<lambda>t. (length (filter (holds_claim c) (t_intents t)),
       t\<lparr>t_intents := update_where (holds_claim c) (\<lambda>r. r\<lparr> nt_state := st, nt_available_at := availableAt,
          nt_claimed_until := None, nt_claim_token := None,
          nt_delivered_at := (if st = StateDelivered then Some completedAt else None),
          nt_terminal_at := (if st = StateRetryWait then None else Some completedAt),
          nt_last_error_code := nullif errorCode, nt_updated_at := completedAt \<rparr>) (t_intents t)\<rparr>))) (\<lambda>n.
     if n = 0 then tx_return (Commit False)
     else
       tx_bind (insertAttempt (\<lambda>u cl. \<lparr> at_id = u, at_intent_id = cl_ID c, at_attempt_number = cl_Attempt c,
           at_outcome = outcome, at_http_status = (if 0 < dr_HTTPStatus result then Some (dr_HTTPStatus result) else None),
           at_safe_error_code = nullif errorCode,
           at_provider_request_id = nullif (boundedProviderID (dr_ProviderRequestID result)),
           at_started_at = startedAt, at_completed_at = completedAt,
           at_duration_ms = clamp_duration (completedAt - startedAt) div 1000000,
           at_created_at = completedAt \<rparr>)) (\<lambda>_.
       tx_bind (if cl_IncidentID c \<noteq> '''' \<and> st \<noteq> StateRetryWait
           then notificationEntry (cl_IncidentID c) (terminalTimelineSummary st (cl_DestinationName c)) completedAt
           else tx_return ()) (\<lambda>_.
       tx_return (Commit True)))))"

definition publishDelivery :: "string \<Rightarrow> string \<Rightarrow> delivery_state \<Rightarrow> time \<Rightarrow> unit tx" where
  "publishDelivery deliveryID incidentID st at = hub_publish (zeroEvent\<lparr>
     ev_Kind := ''notification_delivery_changed'', ev_DeliveryID := deliveryID,
     ev_IncidentID := incidentID, ev_Result := delivery_text st, ev_ChangedAt := at \<rparr>)"

definition complete ::
  "worker_options \<Rightarrow> (int \<Rightarrow> int) \<Rightarrow> claimed_intent \<Rightarrow> delivery_result \<Rightarrow> time \<Rightarrow> time \<Rightarrow> unit tx" where
  "complete opts random c result startedAt completedAt =
     (let v = verdict opts random c result completedAt in
      tx_bind (in_tx (complete_body c result v startedAt completedAt)) (\<lambda>owned.
      if owned then publishDelivery (cl_ID c) (cl_IncidentID c) (fst v) completedAt else tx_return ()))"

section \<open>Exhausted claims and the pass\<close>

definition exhausted :: "time \<Rightarrow> int \<Rightarrow> intent_row \<Rightarrow> bool" where
  "exhausted now maxAttempts r \<longleftrightarrow> lease_expired now r \<and> maxAttempts \<le> nt_attempt_count r"

definition until :: "intent_row \<Rightarrow> time" where
  "until r = (case nt_claimed_until r of None \<Rightarrow> 0 | Some u \<Rightarrow> u)"

definition exhausted_row :: "(string \<Rightarrow> bool) \<Rightarrow> time \<Rightarrow> int \<Rightarrow> tables \<Rightarrow> (intent_row \<times> destination_row) option" where
  "exhausted_row locked now maxAttempts t = Option.bind
     (first_by (\<lambda>r. (until r, nt_id r))
       (filter (\<lambda>r. exhausted now maxAttempts r \<and> \<not> locked (nt_id r)
          \<and> nt_destination_id r \<in> ds_id ` set (t_destinations t)) (t_intents t)))
     (\<lambda>r. map_option (Pair r) (find_row ds_id (nt_destination_id r) (t_destinations t)))"

definition leaseExpiredCode :: string where
  "leaseExpiredCode = ''claim_lease_expired''"

definition deadLetterExpiredClaim :: "worker_options \<Rightarrow> (string \<Rightarrow> bool) \<Rightarrow> time \<Rightarrow> bool tx" where
  "deadLetterExpiredClaim opts locked now =
     tx_bind (in_tx (
       tx_bind (tx_query (exhausted_row locked now (wo_MaxAttempts opts))) (\<lambda>found.
       case found of
         None \<Rightarrow> tx_return (Rollback None)
       | Some (r, d) \<Rightarrow>
           tx_bind (tx_exec (\<lambda>t. t\<lparr>t_intents := update_where (\<lambda>x. nt_id x = nt_id r)
             (\<lambda>x. x\<lparr> nt_state := StateDeadLetter, nt_claimed_until := None, nt_claim_token := None,
                nt_terminal_at := Some now, nt_last_error_code := Some leaseExpiredCode,
                nt_updated_at := now \<rparr>) (t_intents t)\<rparr>)) (\<lambda>_.
           tx_bind (insertAttempt (\<lambda>u c. \<lparr> at_id = u, at_intent_id = nt_id r, at_attempt_number = nt_attempt_count r,
               at_outcome = ''dead_letter'', at_http_status = None, at_safe_error_code = Some leaseExpiredCode,
               at_provider_request_id = None, at_started_at = now, at_completed_at = now,
               at_duration_ms = 0, at_created_at = now \<rparr>)) (\<lambda>_.
           tx_bind (case nt_incident_id r of
               None \<Rightarrow> tx_return ()
             | Some i \<Rightarrow> notificationEntry i (terminalTimelineSummary StateDeadLetter (ds_display_name d)) now) (\<lambda>_.
           tx_return (Commit (Some (nt_id r, text_of (nt_incident_id r))))))))))
     (\<lambda>done1. case done1 of
         None \<Rightarrow> tx_return False
       | Some (i, incidentID) \<Rightarrow>
           tx_bind (publishDelivery i incidentID StateDeadLetter now) (\<lambda>_. tx_return True))"

definition Worker_ProcessOnce ::
  "worker_options \<Rightarrow> (int \<Rightarrow> int) \<Rightarrow> (string \<Rightarrow> bool) \<Rightarrow> time \<Rightarrow> time \<Rightarrow> bool tx" where
  "Worker_ProcessOnce opts random locked clock clock2 =
     (let now = truncate_us clock; completedAt = truncate_us clock2;
          completedAt = (if completedAt < now then now else completedAt) in
      tx_bind (deadLetterExpiredClaim opts locked now) (\<lambda>finalized.
      if finalized then tx_return True
      else
        tx_bind (claim opts locked now) (\<lambda>found.
        case found of
          None \<Rightarrow> tx_return False
        | Some c \<Rightarrow> tx_bind (complete opts random c (deliver opts c) now completedAt) (\<lambda>_. tx_return True))))"

section \<open>The delivery invariant\<close>

definition terminal :: "intent_row \<Rightarrow> bool" where
  "terminal r \<longleftrightarrow> nt_state r \<in> {StateDelivered, StateFailed, StateDeadLetter, StateSuppressed}"

text \<open>The \<open>CHECK\<close> constraints of \<open>notification_intents\<close>, the bound being the worker's own.\<close>

definition intent_ok :: "int \<Rightarrow> intent_row \<Rightarrow> bool" where
  "intent_ok maxAttempts r \<longleftrightarrow>
     (nt_state r = StateSuppressed) = (nt_suppressed_silence_id r \<noteq> None)
     \<and> (nt_delivered_at r \<noteq> None) = (nt_state r = StateDelivered)
     \<and> (nt_terminal_at r \<noteq> None) = terminal r
     \<and> (nt_state r = StateAttempting) = (nt_claim_token r \<noteq> None)
     \<and> (nt_state r = StateAttempting) = (nt_claimed_until r \<noteq> None)
     \<and> 0 \<le> nt_attempt_count r \<and> nt_attempt_count r \<le> maxAttempts
     \<and> (nt_state r = StateAttempting \<longrightarrow> 1 \<le> nt_attempt_count r)"

definition attempt_key :: "attempt_row \<Rightarrow> string \<times> int" where
  "attempt_key a = (at_intent_id a, at_attempt_number a)"

text \<open>An attempt on record is a past attempt of its intent.\<close>

definition attempt_past :: "intent_row list \<Rightarrow> string \<times> int \<Rightarrow> bool" where
  "attempt_past rows k \<longleftrightarrow> (\<exists>r \<in> set rows. nt_id r = fst k \<and> 1 \<le> snd k \<and> snd k \<le> nt_attempt_count r
     \<and> (nt_state r = StateAttempting \<longrightarrow> snd k < nt_attempt_count r))"

definition delivery_inv :: "int \<Rightarrow> tables \<Rightarrow> bool" where
  "delivery_inv maxAttempts t \<longleftrightarrow> distinct (map nt_id (t_intents t))
     \<and> (\<forall>r \<in> set (t_intents t). intent_ok maxAttempts r)
     \<and> distinct (map attempt_key (t_attempts t))
     \<and> (\<forall>k \<in> set (map attempt_key (t_attempts t)). attempt_past (t_intents t) k)"

definition outbox_part :: "tables \<Rightarrow> intent_row list \<times> attempt_row list" where
  "outbox_part t = (t_intents t, t_attempts t)"

lemma delivery_inv_part: "outbox_part a = outbox_part b \<Longrightarrow> delivery_inv m a = delivery_inv m b"
  by (simp add: outbox_part_def delivery_inv_def)

lemma delivery_inv_keeps: "keeps outbox_part m \<Longrightarrow> preserves (delivery_inv k) m"
  by (rule preserves_of_keeps [OF delivery_inv_part])

lemma keeps_notificationEntry: "(\<And>t x. f (t\<lparr>t_timeline := x\<rparr>) = f t) \<Longrightarrow> keeps f (notificationEntry i s at)"
  unfolding notificationEntry_def by (intro frame_intros) (auto split: if_splits)

text \<open>A row update that keeps identity, constraints and the past.\<close>

lemma delivery_inv_update:
  assumes inv: "delivery_inv m t"
    and f: "\<And>r. r \<in> set (t_intents t) \<Longrightarrow> p r \<Longrightarrow> nt_id (f r) = nt_id r \<and> intent_ok m (f r)
      \<and> nt_attempt_count r \<le> nt_attempt_count (f r)
      \<and> (nt_state (f r) = StateAttempting \<longrightarrow> nt_attempt_count r < nt_attempt_count (f r))"
  shows "delivery_inv m (t\<lparr>t_intents := update_where p f (t_intents t)\<rparr>)"
proof -
  note parts = inv [unfolded delivery_inv_def]
  let ?g = "\<lambda>r. if p r then f r else r"
  have g: "nt_id (?g r) = nt_id r" "intent_ok m (?g r)" "nt_attempt_count r \<le> nt_attempt_count (?g r)"
    "nt_state (?g r) = StateAttempting \<longrightarrow>
       nt_attempt_count r < nt_attempt_count (?g r) \<or> ?g r = r"
    if "r \<in> set (t_intents t)" for r
  proof -
    have ok: "intent_ok m r" using parts that by blast
    show "nt_id (?g r) = nt_id r" using f [OF that] by simp
    show "intent_ok m (?g r)" using f [OF that] ok by simp
    show "nt_attempt_count r \<le> nt_attempt_count (?g r)" using f [OF that] by simp
    show "nt_state (?g r) = StateAttempting \<longrightarrow> nt_attempt_count r < nt_attempt_count (?g r) \<or> ?g r = r"
      using f [OF that] by simp
  qed
  have rows: "set (update_where p f (t_intents t)) = ?g ` set (t_intents t)"
    by (simp add: set_update_where)
  have ids: "map nt_id (update_where p f (t_intents t)) = map nt_id (t_intents t)"
    by (rule map_update_where) (use f in blast)
  have past: "attempt_past (update_where p f (t_intents t)) k" if "attempt_past (t_intents t) k" for k
  proof -
    from that obtain r where r: "r \<in> set (t_intents t)" "nt_id r = fst k" "1 \<le> snd k"
      "snd k \<le> nt_attempt_count r" "nt_state r = StateAttempting \<longrightarrow> snd k < nt_attempt_count r"
      by (auto simp: attempt_past_def)
    have "?g r \<in> set (update_where p f (t_intents t))" unfolding rows using r(1) by (rule imageI)
    moreover have "snd k \<le> nt_attempt_count (?g r)" using r(4) g(3) [OF r(1)] by linarith
    moreover have "nt_state (?g r) = StateAttempting \<longrightarrow> snd k < nt_attempt_count (?g r)"
      using r(4,5) g(4) [OF r(1)] by (cases "?g r = r") auto
    ultimately show ?thesis
      unfolding attempt_past_def using r(2,3) g(1) [OF r(1)] by (intro bexI [of _ "?g r"]) simp_all
  qed
  show ?thesis
    unfolding delivery_inv_def
  proof (intro conjI)
    show "\<forall>r \<in> set (t_intents (t\<lparr>t_intents := update_where p f (t_intents t)\<rparr>)). intent_ok m r"
      using f parts by (auto simp: set_update_where)
  qed (use parts past ids in simp_all)
qed

lemma intent_row_of_id: "nt_id (intent_row_of u c event i sid now) = u"
  by (simp add: intent_row_of_def)

lemma delivery_inv_enqueueFor:
  assumes "0 \<le> m"
  shows "preserves (delivery_inv m) (enqueueFor event sid now d)"
proof -
  have ok: "intent_ok m (intent_row_of u c event i sid now)" for u c i
    using assms by (auto simp: intent_ok_def intent_row_of_def terminal_def nullif_def)
  have past: "attempt_past (rows @ [r]) k" if "attempt_past rows k" for rows r k
    using that by (auto simp: attempt_past_def)
  have ins: "preserves (delivery_inv m) (insertIntent event i sid now)" for i
    unfolding insertIntent_def
    by (intro preserves_insert)
      (auto simp: delivery_inv_def ok past intent_row_of_id split: if_splits)
  show ?thesis
    unfolding enqueueFor_def
    by (intro preserves_intros ins delivery_inv_keeps keeps_notificationEntry) (simp add: outbox_part_def)
qed

lemma delivery_inv_EnqueueIncidentEvent:
  "0 \<le> m \<Longrightarrow> preserves (delivery_inv m) (EnqueueIncidentEvent wc event)"
  unfolding EnqueueIncidentEvent_def matchingSilence_def Let_def
  by (intro preserves_intros delivery_inv_enqueueFor)

lemma take_intent_ok:
  assumes "intent_ok m r" and "intent_claimable now m r"
  shows "intent_ok m (take_intent now lease u r)"
proof -
  from assms(2) have "nt_state r \<in> {StateQueued, StateRetryWait, StateAttempting}" and "nt_attempt_count r < m"
    by (auto simp: intent_claimable_def lease_expired_def)
  then have st: "nt_state r \<noteq> StateSuppressed" "nt_state r \<noteq> StateDelivered" "\<not> terminal r" "nt_attempt_count r < m"
    by (auto simp: terminal_def)
  with assms(1) have "nt_suppressed_silence_id r = None" "nt_delivered_at r = None" "nt_terminal_at r = None"
    "0 \<le> nt_attempt_count r"
    by (simp_all add: intent_ok_def)
  with st(4) show ?thesis by (simp add: intent_ok_def take_intent_def terminal_def)
qed

definition take_row :: "time \<Rightarrow> duration \<Rightarrow> string \<Rightarrow> string \<Rightarrow> tables \<Rightarrow> tables" where
  "take_row now lease u i t = t\<lparr>t_intents := update_where (\<lambda>x. nt_id x = i) (take_intent now lease u) (t_intents t)\<rparr>"

lemma claim_result:
  assumes "(case candidate locked now m t of None \<Rightarrow> Inr (None, t)
      | Some r \<Rightarrow> Inr (h r, take_row now lease u (nt_id r) t)) = Inr (x, t')"
  shows "t' = t \<or> (\<exists>r \<in> set (t_intents t). intent_claimable now m r \<and> t' = take_row now lease u (nt_id r) t)"
proof (cases "candidate locked now m t")
  case None
  with assms show ?thesis by simp
next
  case (Some r)
  then have "r \<in> set (filter (\<lambda>r. intent_claimable now m r \<and> \<not> locked (nt_id r)) (t_intents t))"
    unfolding candidate_def by (rule first_by_Some_in)
  moreover have "t' = take_row now lease u (nt_id r) t" using assms Some by simp
  ultimately show ?thesis by auto
qed

lemma delivery_inv_take:
  assumes inv: "delivery_inv m t" and r: "r \<in> set (t_intents t)" "intent_claimable now m r"
  shows "delivery_inv m (take_row now lease u (nt_id r) t)"
  unfolding take_row_def
proof (rule delivery_inv_update [OF inv])
  fix y
  assume y: "y \<in> set (t_intents t)" "nt_id y = nt_id r"
  have "inj_on nt_id (set (t_intents t))" using inv by (simp add: delivery_inv_def distinct_map)
  then have yr: "y = r" using y r(1) by (simp add: inj_on_def)
  have "intent_ok m r" using inv r(1) by (simp add: delivery_inv_def)
  from take_intent_ok [OF this r(2)]
  show "nt_id (take_intent now lease u y) = nt_id y \<and> intent_ok m (take_intent now lease u y)
    \<and> nt_attempt_count y \<le> nt_attempt_count (take_intent now lease u y)
    \<and> (nt_state (take_intent now lease u y) = StateAttempting \<longrightarrow>
        nt_attempt_count y < nt_attempt_count (take_intent now lease u y))"
    unfolding yr by (simp add: take_intent_def)
qed

lemma delivery_inv_claim:
  assumes "wo_MaxAttempts opts = m"
  shows "preserves (delivery_inv m) (claim opts locked now)"
  unfolding claim_def Let_def take_row_def [symmetric]
  by (intro preserves_insert impI, drule claim_result) (auto simp: assms intro: delivery_inv_take)

text \<open>Leaving the attempt: the row takes a state that is not \<open>attempting\<close>.\<close>

definition closed_row :: "int \<Rightarrow> (intent_row \<Rightarrow> intent_row) \<Rightarrow> intent_row \<Rightarrow> bool" where
  "closed_row m f r \<longleftrightarrow> nt_id (f r) = nt_id r \<and> intent_ok m (f r) \<and> nt_state (f r) \<noteq> StateAttempting
     \<and> nt_attempt_count (f r) = nt_attempt_count r"

lemma delivery_inv_close:
  assumes inv: "delivery_inv m t" and cl: "\<And>r. r \<in> set (t_intents t) \<Longrightarrow> p r \<Longrightarrow> closed_row m f r"
  shows "delivery_inv m (t\<lparr>t_intents := update_where p f (t_intents t)\<rparr>)"
    and "\<And>r. r \<in> set (t_intents t) \<Longrightarrow> p r \<Longrightarrow> 1 \<le> nt_attempt_count r \<Longrightarrow>
      attempt_past (update_where p f (t_intents t)) (nt_id r, nt_attempt_count r)"
proof -
  show "delivery_inv m (t\<lparr>t_intents := update_where p f (t_intents t)\<rparr>)"
    by (rule delivery_inv_update [OF inv]) (use cl in \<open>auto simp: closed_row_def\<close>)
  fix r
  assume r: "r \<in> set (t_intents t)" "p r" "1 \<le> nt_attempt_count r"
  have "f r \<in> set (update_where p f (t_intents t))"
    using r(1,2) by (force simp: set_update_where)
  with cl [OF r(1,2)] r(3) show "attempt_past (update_where p f (t_intents t)) (nt_id r, nt_attempt_count r)"
    unfolding attempt_past_def closed_row_def by (intro bexI [of _ "f r"]) auto
qed

lemma triple_insertAttempt:
  assumes "\<And>u c. attempt_key (mk u c) = k"
  shows "triple (\<lambda>t. delivery_inv m t \<and> attempt_past (t_intents t) k) (insertAttempt mk) (\<lambda>_. delivery_inv m)"
  unfolding insertAttempt_def Let_def
proof (rule triple_insert)
  fix u c t x t'
  assume pre: "delivery_inv m t \<and> attempt_past (t_intents t) k"
    and run: "(if u \<in> at_id ` set (t_attempts t) \<or> (at_intent_id (mk u c), at_attempt_number (mk u c))
        \<in> (\<lambda>x. (at_intent_id x, at_attempt_number x)) ` set (t_attempts t) then Inl DbError
      else Inr ((), t\<lparr>t_attempts := t_attempts t @ [mk u c]\<rparr>)) = Inr (x, t')"
  from run have t': "t' = t\<lparr>t_attempts := t_attempts t @ [mk u c]\<rparr>"
    and "attempt_key (mk u c) \<notin> attempt_key ` set (t_attempts t)"
    by (auto simp: attempt_key_def split: if_splits)
  with pre assms [of u c] show "delivery_inv m t'" by (simp add: delivery_inv_def)
qed

lemma verdict_state: "fst (verdict opts random c result at) \<in> {StateDelivered, StateRetryWait, StateDeadLetter, StateFailed}"
  by (simp add: verdict_def Let_def)

lemma intent_ok_attempting:
  "intent_ok m r \<Longrightarrow> nt_state r = StateAttempting \<Longrightarrow> nt_suppressed_silence_id r = None
     \<and> nt_delivered_at r = None \<and> 1 \<le> nt_attempt_count r \<and> nt_attempt_count r \<le> m"
  by (simp add: intent_ok_def)

lemma complete_closes:
  assumes "intent_ok m r" and "nt_state r = StateAttempting"
    and "st \<in> {StateDelivered, StateRetryWait, StateDeadLetter, StateFailed}"
  shows "closed_row m (\<lambda>r. r\<lparr> nt_state := st, nt_available_at := av, nt_claimed_until := None, nt_claim_token := None,
      nt_delivered_at := (if st = StateDelivered then Some at else None),
      nt_terminal_at := (if st = StateRetryWait then None else Some at),
      nt_last_error_code := code, nt_updated_at := at \<rparr>) r"
  using intent_ok_attempting [OF assms(1,2)] assms(3)
  by (elim insertE) (simp_all add: closed_row_def intent_ok_def terminal_def)

lemma triple_complete_body:
  assumes "fst v \<in> {StateDelivered, StateRetryWait, StateDeadLetter, StateFailed}"
  shows "triple (delivery_inv m) (complete_body c result v s e) (\<lambda>_. delivery_inv m)"
proof -
  obtain st outcome code av where v: "v = (st, outcome, code, av)" by (cases v)
  let ?f = "\<lambda>r. r\<lparr> nt_state := st, nt_available_at := av, nt_claimed_until := None, nt_claim_token := None,
      nt_delivered_at := (if st = StateDelivered then Some e else None),
      nt_terminal_at := (if st = StateRetryWait then None else Some e),
      nt_last_error_code := nullif code, nt_updated_at := e \<rparr>"
  have upd: "triple (delivery_inv m) (tx_affect (\<lambda>t. (length (filter (holds_claim c) (t_intents t)),
       t\<lparr>t_intents := update_where (holds_claim c) ?f (t_intents t)\<rparr>)))
     (\<lambda>n t. delivery_inv m t \<and> (n \<noteq> 0 \<longrightarrow> attempt_past (t_intents t) (cl_ID c, cl_Attempt c)))"
  proof (rule triple_affect, unfold fst_conv snd_conv)
    fix t
    assume inv: "delivery_inv m t"
    have ok: "intent_ok m r" if "r \<in> set (t_intents t)" for r using inv that by (simp add: delivery_inv_def)
    have cl: "closed_row m ?f r" if "r \<in> set (t_intents t)" "holds_claim c r" for r
      using complete_closes [OF ok [OF that(1)]] that(2) assms by (simp add: v holds_claim_def)
    have "attempt_past (update_where (holds_claim c) ?f (t_intents t)) (cl_ID c, cl_Attempt c)"
      if "length (filter (holds_claim c) (t_intents t)) \<noteq> 0"
    proof -
      from that obtain r where r: "r \<in> set (t_intents t)" "holds_claim c r"
        by (auto simp: filter_empty_conv)
      have "1 \<le> nt_attempt_count r"
        using intent_ok_attempting [OF ok [OF r(1)]] r(2) by (simp add: holds_claim_def)
      from delivery_inv_close(2) [where p = "holds_claim c" and f = ?f, OF inv cl r this] r(2) show ?thesis by (simp add: holds_claim_def)
    qed
    with delivery_inv_close(1) [where p = "holds_claim c" and f = ?f, OF inv cl]
    show "delivery_inv m (t\<lparr>t_intents := update_where (holds_claim c) ?f (t_intents t)\<rparr>) \<and>
      (length (filter (holds_claim c) (t_intents t)) \<noteq> 0 \<longrightarrow>
        attempt_past (t_intents (t\<lparr>t_intents := update_where (holds_claim c) ?f (t_intents t)\<rparr>)) (cl_ID c, cl_Attempt c))"
      by simp
  qed
  have note_ok: "triple (delivery_inv m) (if b then notificationEntry i sm e else tx_return ()) (\<lambda>_. delivery_inv m)" for b i sm
    by (rule triple_preserves, rule delivery_inv_keeps)
      (auto intro!: keeps_notificationEntry simp: outbox_part_def intro: frame_intros)
  show ?thesis
    unfolding complete_body_def v prod.case
    by (rule triple_bind [OF upd], rule triple_if, rule triple_return, simp, rule triple_bind,
        rule triple_strengthen [OF triple_insertAttempt [where m = m and k = "(cl_ID c, cl_Attempt c)"]],
        simp add: attempt_key_def, simp, rule triple_bind [OF note_ok], rule triple_return)
qed

lemma keeps_publishDelivery: "keeps f (publishDelivery a b st at)"
  unfolding publishDelivery_def by (intro frame_intros)

lemma delivery_inv_complete:
  "preserves (delivery_inv m) (complete opts random c result s e)"
  unfolding complete_def Let_def
  by (intro preserves_intros in_tx_preserves triple_complete_body verdict_state delivery_inv_keeps keeps_publishDelivery)

definition expire :: "time \<Rightarrow> intent_row \<Rightarrow> intent_row" where
  "expire now x = x\<lparr> nt_state := StateDeadLetter, nt_claimed_until := None, nt_claim_token := None,
     nt_terminal_at := Some now, nt_last_error_code := Some leaseExpiredCode, nt_updated_at := now \<rparr>"

lemma expire_closes:
  assumes "intent_ok m r" and "nt_state r = StateAttempting"
  shows "closed_row m (expire now) r"
  using intent_ok_attempting [OF assms] by (simp add: closed_row_def intent_ok_def terminal_def expire_def)

lemma exhausted_row_in:
  assumes "exhausted_row locked now m t = Some (r, d)"
  shows "r \<in> set (t_intents t) \<and> exhausted now m r"
proof -
  from assms have "first_by (\<lambda>r. (until r, nt_id r)) (filter (\<lambda>r. exhausted now m r \<and> \<not> locked (nt_id r)
      \<and> nt_destination_id r \<in> ds_id ` set (t_destinations t)) (t_intents t)) = Some r"
    by (auto simp: exhausted_row_def bind_eq_Some_conv)
  then have "r \<in> set (filter (\<lambda>r. exhausted now m r \<and> \<not> locked (nt_id r)
      \<and> nt_destination_id r \<in> ds_id ` set (t_destinations t)) (t_intents t))"
    by (rule first_by_Some_in)
  then show ?thesis by simp
qed

lemma unique_intent:
  assumes "delivery_inv m t" and "r \<in> set (t_intents t)" and "y \<in> set (t_intents t)" and "nt_id y = nt_id r"
  shows "y = r"
  using assms by (simp add: delivery_inv_def distinct_map inj_on_def)

lemma triple_expire:
  assumes "r0 = (r, d)"
  shows "triple (\<lambda>t. delivery_inv m t \<and> (r \<in> set (t_intents t) \<and> nt_state r = StateAttempting))
    (tx_exec (\<lambda>t. t\<lparr>t_intents := update_where (\<lambda>x. nt_id x = nt_id r) (expire now) (t_intents t)\<rparr>))
    (\<lambda>_ t. delivery_inv m t \<and> attempt_past (t_intents t) (nt_id r, nt_attempt_count r))"
proof (rule triple_exec, elim conjE)
  fix t
  assume inv: "delivery_inv m t" and r: "r \<in> set (t_intents t)" "nt_state r = StateAttempting"
  have ok: "intent_ok m r" using inv r(1) by (simp add: delivery_inv_def)
  have cl: "closed_row m (expire now) y" if "y \<in> set (t_intents t)" "nt_id y = nt_id r" for y
    using unique_intent [OF inv r(1) that] expire_closes [OF ok r(2)] by simp
  have one: "1 \<le> nt_attempt_count r" using intent_ok_attempting [OF ok r(2)] by simp
  show "delivery_inv m (t\<lparr>t_intents := update_where (\<lambda>x. nt_id x = nt_id r) (expire now) (t_intents t)\<rparr>)
      \<and> attempt_past (t_intents (t\<lparr>t_intents := update_where (\<lambda>x. nt_id x = nt_id r) (expire now) (t_intents t)\<rparr>))
          (nt_id r, nt_attempt_count r)"
    using delivery_inv_close(1) [where p = "\<lambda>x. nt_id x = nt_id r" and f = "expire now", OF inv cl]
      delivery_inv_close(2) [where p = "\<lambda>x. nt_id x = nt_id r" and f = "expire now", OF inv cl r(1) refl one]
    by simp
qed

lemma delivery_inv_deadLetter:
  assumes "wo_MaxAttempts opts = m"
  shows "preserves (delivery_inv m) (deadLetterExpiredClaim opts locked now)"
proof -
  have query: "triple (delivery_inv m) (tx_query (exhausted_row locked now m))
      (\<lambda>found t. delivery_inv m t \<and> (\<forall>r d. found = Some (r, d) \<longrightarrow> r \<in> set (t_intents t) \<and> nt_state r = StateAttempting))"
    by (rule triple_query) (use exhausted_row_in in \<open>fastforce simp: exhausted_def lease_expired_def\<close>)
  have note_ok: "triple (delivery_inv m) (case x of None \<Rightarrow> tx_return () | Some i \<Rightarrow> notificationEntry i sm now) (\<lambda>_. delivery_inv m)" for x sm
    by (rule triple_preserves, rule delivery_inv_keeps)
      (cases x; auto intro!: keeps_notificationEntry simp: outbox_part_def intro: frame_intros)
  have body: "triple (\<lambda>t. delivery_inv m t \<and> (\<forall>r d. found = Some (r, d) \<longrightarrow> r \<in> set (t_intents t) \<and> nt_state r = StateAttempting))
      (tx_bind (tx_exec (\<lambda>t. t\<lparr>t_intents := update_where (\<lambda>x. nt_id x = nt_id r) (expire now) (t_intents t)\<rparr>)) (\<lambda>_.
       tx_bind (insertAttempt mk) (\<lambda>_. tx_bind (case nt_incident_id r of
               None \<Rightarrow> tx_return () | Some i \<Rightarrow> notificationEntry i sm now) (\<lambda>_. tx_return x)))) (\<lambda>_. delivery_inv m)"
    if "found = Some y" "y = (r, d)" "\<And>u c. attempt_key (mk u c) = (nt_id r, nt_attempt_count r)"
    for found y r d mk sm and x :: "(string \<times> string) option outcome"
    by (rule triple_bind, rule triple_strengthen [OF triple_expire [where m = m, OF that(2)]], use that in simp,
        rule triple_bind [OF triple_insertAttempt [where m = m, OF that(3)]], rule triple_bind [OF note_ok], rule triple_return)
  show ?thesis
    unfolding deadLetterExpiredClaim_def assms expire_def [symmetric]
    by (intro preserves_intros in_tx_preserves delivery_inv_keeps keeps_publishDelivery,
        rule triple_bind [OF query], rule triple_option, rule triple_return, simp, rule triple_prod,
        rule body, assumption, assumption, simp add: attempt_key_def)
qed

lemma delivery_inv_pass:
  assumes "wo_MaxAttempts opts = m"
  shows "preserves (delivery_inv m) (Worker_ProcessOnce opts random locked clock clock2)"
  unfolding Worker_ProcessOnce_def Let_def
  by (intro preserves_intros delivery_inv_deadLetter delivery_inv_claim delivery_inv_complete assms)

end
