(* ===== verification/Notification_Delivery.thy ===== *)
theory Notification_Delivery
  imports Notification_Worker
begin

text \<open>
  What the outbox guarantees under every interleaving of incident transactions and workers:
  the fan-out of one event to its destinations, the delivery invariant, that terminal
  deliveries are final, that a worker that lost its claim can no longer record an outcome, the
  retry schedule, and that the backlog drains.
\<close>

section \<open>Interleavings of writers and workers\<close>

text \<open>
  Several workers interleave at statement and transaction boundaries: each claims, delivers
  and completes on its own, and a worker may complete a claim it lost long ago or die before
  it completes.
\<close>

datatype outbox_op =
    OEnqueue time notification_event
  | OClaim "string \<Rightarrow> bool" time
  | OComplete "int \<Rightarrow> int" claimed_intent delivery_result time time
  | ODeadLetter "string \<Rightarrow> bool" time

fun outbox_step :: "worker_options \<Rightarrow> outbox_op \<Rightarrow> world \<Rightarrow> world" where
  "outbox_step opts (OEnqueue wallclock event) w = snd (in_tx (tx_bind (EnqueueIncidentEvent wallclock event)
     (\<lambda>_. tx_return (Commit ()))) w)"
| "outbox_step opts (OClaim locked now) w = snd (claim opts locked now w)"
| "outbox_step opts (OComplete random c result s e) w = snd (complete opts random c result s e w)"
| "outbox_step opts (ODeadLetter locked now) w = snd (deadLetterExpiredClaim opts locked now w)"

definition outbox_run :: "worker_options \<Rightarrow> outbox_op list \<Rightarrow> world \<Rightarrow> world" where
  "outbox_run opts ops w = fold (outbox_step opts) ops w"

lemma outbox_step_inv:
  assumes "0 \<le> wo_MaxAttempts opts" and "delivery_inv (wo_MaxAttempts opts) (w_tables w)"
  shows "delivery_inv (wo_MaxAttempts opts) (w_tables (outbox_step opts op w))"
proof (cases op)
  case (OEnqueue wc event)
  have "preserves (delivery_inv (wo_MaxAttempts opts)) (in_tx (tx_bind (EnqueueIncidentEvent wc event) (\<lambda>_. tx_return (Commit ()))))"
    by (intro preserves_intros delivery_inv_EnqueueIncidentEvent assms(1))
  from preserves_snd [OF this assms(2)] OEnqueue show ?thesis by simp
qed (use assms preserves_snd [OF delivery_inv_claim [OF refl]] preserves_snd [OF delivery_inv_complete]
    preserves_snd [OF delivery_inv_deadLetter [OF refl]] in simp_all)

lemma outbox_run_inv:
  "0 \<le> wo_MaxAttempts opts \<Longrightarrow> delivery_inv (wo_MaxAttempts opts) (w_tables w) \<Longrightarrow>
     delivery_inv (wo_MaxAttempts opts) (w_tables (outbox_run opts ops w))"
  unfolding outbox_run_def by (induction ops arbitrary: w) (simp_all add: outbox_step_inv)

section \<open>Progress of every intent\<close>

text \<open>
  Rows keep their identity, their attempt count never falls, and a terminal row stays as it
  is. The relation carries the uniqueness of identifiers along, which makes it transitive
  and provable statement by statement.
\<close>

definition progress :: "intent_row list \<Rightarrow> intent_row list \<Rightarrow> bool" where
  "progress rows rows' \<longleftrightarrow> (\<forall>r \<in> set rows. \<exists>r' \<in> set rows'. nt_id r' = nt_id r
     \<and> nt_attempt_count r \<le> nt_attempt_count r' \<and> (terminal r \<longrightarrow> r' = r))"

definition advances :: "tables \<Rightarrow> tables \<Rightarrow> bool" where
  "advances a b \<longleftrightarrow> (distinct (map nt_id (t_intents a)) \<longrightarrow>
     distinct (map nt_id (t_intents b)) \<and> progress (t_intents a) (t_intents b))"

lemma progress_refl: "progress rows rows"
  by (auto simp: progress_def)

lemma progress_trans:
  assumes "progress a b" and "progress b c"
  shows "progress a c"
  unfolding progress_def
proof
  fix r
  assume "r \<in> set a"
  with assms(1) obtain r1 where r1: "r1 \<in> set b" "nt_id r1 = nt_id r"
    "nt_attempt_count r \<le> nt_attempt_count r1" "terminal r \<longrightarrow> r1 = r"
    by (auto simp: progress_def)
  with assms(2) obtain r2 where r2: "r2 \<in> set c" "nt_id r2 = nt_id r1"
    "nt_attempt_count r1 \<le> nt_attempt_count r2" "terminal r1 \<longrightarrow> r2 = r1"
    by (auto simp: progress_def)
  have "terminal r \<longrightarrow> r2 = r" using r1(4) r2(4) by blast
  then show "\<exists>r' \<in> set c. nt_id r' = nt_id r \<and> nt_attempt_count r \<le> nt_attempt_count r' \<and> (terminal r \<longrightarrow> r' = r)"
    using r1(2,3) r2(1-3) by (intro bexI [of _ r2]) auto
qed

interpretation advance: tx_relation advances
proof
  show "advances t t" for t by (simp add: advances_def progress_refl)
  show "advances a b \<Longrightarrow> advances b c \<Longrightarrow> advances a c" for a b c
    unfolding advances_def using progress_trans by blast
qed

lemma progress_update:
  assumes "\<And>r. r \<in> set rows \<Longrightarrow> p r \<Longrightarrow> nt_id (f r) = nt_id r \<and> nt_attempt_count r \<le> nt_attempt_count (f r) \<and> \<not> terminal r"
  shows "progress rows (update_where p f rows)"
  unfolding progress_def
proof
  fix r
  assume r: "r \<in> set rows"
  show "\<exists>r' \<in> set (update_where p f rows). nt_id r' = nt_id r
     \<and> nt_attempt_count r \<le> nt_attempt_count r' \<and> (terminal r \<longrightarrow> r' = r)"
  proof (cases "p r")
    case True
    with assms [OF r] r show ?thesis by (intro bexI [of _ "f r"]) (auto simp: set_update_where)
  next
    case False
    with r show ?thesis by (intro bexI [of _ r]) (auto simp: set_update_where)
  qed
qed

lemma advances_update:
  assumes "distinct (map nt_id (t_intents t)) \<Longrightarrow> (\<And>r. r \<in> set (t_intents t) \<Longrightarrow> p r \<Longrightarrow>
    nt_id (f r) = nt_id r \<and> nt_attempt_count r \<le> nt_attempt_count (f r) \<and> \<not> terminal r)"
  shows "advances t (t\<lparr>t_intents := update_where p f (t_intents t)\<rparr>)"
proof (unfold advances_def, rule impI)
  assume d: "distinct (map nt_id (t_intents t))"
  have "map nt_id (update_where p f (t_intents t)) = map nt_id (t_intents t)"
    by (rule map_update_where) (use assms [OF d] in blast)
  moreover have "progress (t_intents t) (update_where p f (t_intents t))"
    by (rule progress_update) (rule assms [OF d])
  ultimately show "distinct (map nt_id (t_intents (t\<lparr>t_intents := update_where p f (t_intents t)\<rparr>)))
      \<and> progress (t_intents t) (t_intents (t\<lparr>t_intents := update_where p f (t_intents t)\<rparr>))"
    using d by simp
qed

lemma advances_kept: "keeps t_intents m \<Longrightarrow> always advances m"
  unfolding keeps_def always_def advances_def by (metis progress_refl)

lemma keeps_insertAttempt: "(\<And>t x. f (t\<lparr>t_attempts := x\<rparr>) = f t) \<Longrightarrow> keeps f (insertAttempt mk)"
  unfolding insertAttempt_def Let_def by (rule keeps_insert) (auto split: if_splits)

lemma advances_insertAttempt: "always advances (insertAttempt mk)"
  by (rule advances_kept) (rule keeps_insertAttempt, simp)

lemma advances_notificationEntry: "always advances (notificationEntry i sm at)"
  by (rule advances_kept) (rule keeps_notificationEntry, simp)

lemma advances_EnqueueIncidentEvent: "always advances (EnqueueIncidentEvent wc event)"
proof -
  have "always advances (insertIntent event i sid now)" for i sid now
    unfolding insertIntent_def
    by (rule advance.insert) (auto simp: advances_def progress_def intent_row_of_id split: if_splits)
  then show ?thesis
    unfolding EnqueueIncidentEvent_def enqueueFor_def matchingSilence_def Let_def
    by (intro advance.composition advances_notificationEntry)
qed

lemma same_row: "distinct (map nt_id rows) \<Longrightarrow> r \<in> set rows \<Longrightarrow> y \<in> set rows \<Longrightarrow> nt_id y = nt_id r \<Longrightarrow> y = r"
  by (simp add: distinct_map inj_on_def)

lemma live_states: "nt_state r \<in> {StateQueued, StateRetryWait, StateAttempting} \<Longrightarrow> \<not> terminal r"
  by (auto simp: terminal_def)

lemma candidate_live:
  assumes "candidate locked now m t = Some r"
  shows "r \<in> set (t_intents t)" and "intent_claimable now m r" and "\<not> terminal r"
proof -
  have "r \<in> set (filter (\<lambda>r. intent_claimable now m r \<and> \<not> locked (nt_id r)) (t_intents t))"
    using assms unfolding candidate_def by (rule first_by_Some_in)
  then show "r \<in> set (t_intents t)" and c: "intent_claimable now m r" by simp_all
  from c show "\<not> terminal r"
    by (intro live_states) (auto simp: intent_claimable_def lease_expired_def)
qed

lemma advances_claim: "always advances (claim opts locked now)"
  unfolding claim_def
proof (rule advance.insert)
  fix u c t x t'
  assume eq: "(case candidate locked now (wo_MaxAttempts opts) t of
       None \<Rightarrow> Inr (None, t)
     | Some r \<Rightarrow> let r' = take_intent now (wo_ClaimLease opts) u r
         in Inr (map_option (scan_claim r') (find_row ds_id (nt_destination_id r) (t_destinations t)),
                 t\<lparr>t_intents := update_where (\<lambda>x. nt_id x = nt_id r)
                   (take_intent now (wo_ClaimLease opts) u) (t_intents t)\<rparr>)) = Inr (x, t')"
  show "advances t t'"
  proof (cases "candidate locked now (wo_MaxAttempts opts) t")
    case None
    with eq show ?thesis by (simp add: advance.refl)
  next
    case (Some r)
    note r = candidate_live [OF Some]
    have "advances t (t\<lparr>t_intents := update_where (\<lambda>x. nt_id x = nt_id r) (take_intent now (wo_ClaimLease opts) u) (t_intents t)\<rparr>)"
      by (rule advances_update) (use r same_row [OF _ r(1)] in \<open>auto simp: take_intent_def\<close>)
    with eq Some show ?thesis by simp
  qed
qed

lemma advances_complete: "always advances (complete opts random c result s e)"
proof -
  have upd: "always advances (tx_affect (\<lambda>t. (length (filter (holds_claim c) (t_intents t)),
      t\<lparr>t_intents := update_where (holds_claim c) f (t_intents t)\<rparr>)))"
    if "\<And>r. nt_id (f r) = nt_id r" "\<And>r. nt_attempt_count (f r) = nt_attempt_count r" for f
    by (rule advance.affect, unfold snd_conv, rule advances_update) (use that in \<open>auto simp: holds_claim_def terminal_def\<close>)
  have "always advances (complete_body c result v s e)" for v
    unfolding complete_body_def
    by (rule advance.prod_split)+ (rule advance.bind, rule upd,
      simp, simp, intro advance.composition advances_insertAttempt advances_notificationEntry)
  moreover have "always advances (publishDelivery a b st at)" for a b st at
    unfolding publishDelivery_def by (rule advance.publish)
  ultimately show ?thesis unfolding complete_def Let_def by (intro advance.composition)
qed

lemma exhausted_row_live:
  assumes "exhausted_row locked now m t = Some (r, d)"
  shows "r \<in> set (t_intents t)" and "nt_state r = StateAttempting" and "m \<le> nt_attempt_count r" and "\<not> terminal r"
  using exhausted_row_in [OF assms] by (auto simp: exhausted_def lease_expired_def terminal_def)

lemma triple_advance:
  assumes "always advances m"
  shows "triple (advances t0) m (\<lambda>_. advances t0)"
  unfolding triple_def
proof (intro allI impI)
  fix w x w'
  assume "advances t0 (w_tables w)" and "m w = (Inr x, w')"
  then show "advances t0 (w_tables w')"
    using advance.trans alwaysD [OF assms, of w] by (metis snd_conv)
qed

lemma advances_expire:
  assumes "r \<in> set (t_intents t)" and "\<not> terminal r"
  shows "advances t (t\<lparr>t_intents := update_where (\<lambda>x. nt_id x = nt_id r) (expire now) (t_intents t)\<rparr>)"
  by (rule advances_update) (use assms same_row [OF _ assms(1)] in \<open>auto simp: expire_def\<close>)

lemma advances_deadLetter: "always advances (deadLetterExpiredClaim opts locked now)"
proof -
  let ?body = "tx_bind (tx_query (exhausted_row locked now (wo_MaxAttempts opts))) (\<lambda>found.
       case found of
         None \<Rightarrow> tx_return (Rollback None)
       | Some (r, d) \<Rightarrow>
           tx_bind (tx_exec (\<lambda>t. t\<lparr>t_intents := update_where (\<lambda>x. nt_id x = nt_id r) (expire now) (t_intents t)\<rparr>)) (\<lambda>_.
           tx_bind (insertAttempt (\<lambda>u c. \<lparr> at_id = u, at_intent_id = nt_id r, at_attempt_number = nt_attempt_count r,
               at_outcome = ''dead_letter'', at_http_status = None, at_safe_error_code = Some leaseExpiredCode,
               at_provider_request_id = None, at_started_at = now, at_completed_at = now,
               at_duration_ms = 0, at_created_at = now \<rparr>)) (\<lambda>_.
           tx_bind (case nt_incident_id r of
               None \<Rightarrow> tx_return ()
             | Some i \<Rightarrow> notificationEntry i (terminalTimelineSummary StateDeadLetter (ds_display_name d)) now) (\<lambda>_.
           tx_return (Commit (Some (nt_id r, text_of (nt_incident_id r))))))))"
  have query: "triple (\<lambda>t. t = t0) (tx_query (exhausted_row locked now (wo_MaxAttempts opts)))
      (\<lambda>found t. t = t0 \<and> found = exhausted_row locked now (wo_MaxAttempts opts) t0)" for t0
    by (rule triple_query) simp
  have upd: "triple (\<lambda>t. t = t0 \<and> found = exhausted_row locked now (wo_MaxAttempts opts) t0)
      (tx_exec (\<lambda>t. t\<lparr>t_intents := update_where (\<lambda>x. nt_id x = nt_id r) (expire now) (t_intents t)\<rparr>)) (\<lambda>_. advances t0)"
    if "found = Some y" "y = (r, d)" for t0 found y r d
  proof (rule triple_exec, elim conjE)
    fix t
    assume "t = t0" and "found = exhausted_row locked now (wo_MaxAttempts opts) t0"
    with that have "exhausted_row locked now (wo_MaxAttempts opts) t = Some (r, d)" by simp
    from exhausted_row_live [OF this] \<open>t = t0\<close>
    show "advances t0 (t\<lparr>t_intents := update_where (\<lambda>x. nt_id x = nt_id r) (expire now) (t_intents t)\<rparr>)"
      by (simp add: advances_expire)
  qed
  have note_ok: "triple (advances t0) (case x of None \<Rightarrow> tx_return () | Some i \<Rightarrow> notificationEntry i sm now) (\<lambda>_. advances t0)" for t0 x sm
    by (rule triple_advance) (intro advance.composition advances_notificationEntry)
  have body: "triple (\<lambda>t. t = t0) ?body (\<lambda>_. advances t0)" for t0
    by (rule triple_bind [OF query], rule triple_option, rule triple_return, simp add: advance.refl, rule triple_prod,
        rule triple_bind, rule upd, assumption, assumption,
        rule triple_bind [OF triple_advance [OF advances_insertAttempt]], rule triple_bind [OF note_ok], rule triple_return)
  have "advances (w_tables w) (w_tables (snd (in_tx ?body w)))" for w
    by (rule in_tx_commits [where I = "\<lambda>_. True" and R = advances]) (use body advance.refl in auto)
  then have tx: "always advances (in_tx ?body)" by (rule alwaysI)
  have pub: "always advances (publishDelivery a b st at)" for a b st at
    unfolding publishDelivery_def by (rule advance.publish)
  show ?thesis
    unfolding deadLetterExpiredClaim_def expire_def [symmetric] by (intro advance.bind tx advance.composition pub)
qed

lemma advances_step: "advances (w_tables w) (w_tables (outbox_step opts op w))"
proof (cases op)
  case (OEnqueue wc event)
  have "always advances (in_tx (tx_bind (EnqueueIncidentEvent wc event) (\<lambda>_. tx_return (Commit ()))))"
    by (intro advance.composition advances_EnqueueIncidentEvent)
  from alwaysD [OF this] OEnqueue show ?thesis by simp
qed (use alwaysD [OF advances_claim] alwaysD [OF advances_complete] alwaysD [OF advances_deadLetter] in simp_all)

lemma advances_run: "advances (w_tables w) (w_tables (outbox_run opts ops w))"
  unfolding outbox_run_def
proof (induction ops arbitrary: w)
  case (Cons op ops)
  show ?case using advance.trans [OF advances_step Cons.IH] by simp
qed (simp add: advance.refl)

section \<open>Draining the backlog\<close>

text \<open>
  What is left to do for one intent: nothing once it is terminal, otherwise the attempts it
  has left and the end of the last one.
\<close>

definition remaining :: "int \<Rightarrow> intent_row \<Rightarrow> nat" where
  "remaining m r = (if terminal r then 0 else nat (1 + m - nt_attempt_count r))"

definition backlog :: "int \<Rightarrow> tables \<Rightarrow> nat" where
  "backlog m t = (\<Sum>r \<leftarrow> t_intents t. remaining m r)"

lemma sum_update_le:
  fixes g :: "'a \<Rightarrow> nat"
  assumes "\<And>x. x \<in> set xs \<Longrightarrow> p x \<Longrightarrow> g (f x) \<le> g x"
  shows "(\<Sum>x \<leftarrow> update_where p f xs. g x) \<le> (\<Sum>x \<leftarrow> xs. g x)"
  using assms
proof (induction xs)
  case (Cons x xs)
  from Cons.prems [of x] have "g (if p x then f x else x) \<le> g x" by simp
  moreover have "(\<Sum>x \<leftarrow> update_where p f xs. g x) \<le> (\<Sum>x \<leftarrow> xs. g x)" by (rule Cons.IH) (use Cons.prems in simp)
  ultimately show ?case by (simp add: update_where_def split: if_splits)
qed (simp add: update_where_def)

lemma sum_update_less:
  fixes g :: "'a \<Rightarrow> nat"
  assumes "\<And>x. x \<in> set xs \<Longrightarrow> p x \<Longrightarrow> g (f x) \<le> g x" and "y \<in> set xs" "p y" "g (f y) < g y"
  shows "(\<Sum>x \<leftarrow> update_where p f xs. g x) < (\<Sum>x \<leftarrow> xs. g x)"
proof -
  from assms(2) obtain a b where xs: "xs = a @ y # b" by (meson split_list)
  have "(\<Sum>x \<leftarrow> update_where p f a. g x) \<le> (\<Sum>x \<leftarrow> a. g x)" "(\<Sum>x \<leftarrow> update_where p f b. g x) \<le> (\<Sum>x \<leftarrow> b. g x)"
    by (rule sum_update_le, use assms(1) xs in simp)+
  with assms(3,4) show ?thesis by (simp add: xs update_where_def)
qed

lemma backlog_update_less:
  assumes "distinct (map nt_id (t_intents t))" and "r \<in> set (t_intents t)" and "remaining m (f r) < remaining m r"
    and "t_intents t' = update_where (\<lambda>x. nt_id x = nt_id r) f (t_intents t)"
  shows "backlog m t' < backlog m t"
  unfolding backlog_def assms(4)
proof (rule sum_update_less [where g = "remaining m" and y = r and f = f and p = "\<lambda>x. nt_id x = nt_id r", OF _ assms(2) refl assms(3)])
  fix x
  assume "x \<in> set (t_intents t)" and "nt_id x = nt_id r"
  then have "x = r" by (rule same_row [OF assms(1,2)])
  with assms(3) show "remaining m (f x) \<le> remaining m x" by simp
qed

lemma insertAttempt_intents: "insertAttempt mk w = (x, w') \<Longrightarrow> t_intents (w_tables w') = t_intents (w_tables w)"
  by (rule keepsD [OF keeps_insertAttempt]) simp_all

lemma notificationEntry_intents: "notificationEntry i s at w = (x, w') \<Longrightarrow> t_intents (w_tables w') = t_intents (w_tables w)"
  by (rule keepsD [OF keeps_notificationEntry]) simp_all

lemma claim_drains:
  assumes "claim opts locked now w = (Inr found, w')" and "distinct (map nt_id (t_intents (w_tables w)))"
  shows "backlog (wo_MaxAttempts opts) (w_tables w') \<le> backlog (wo_MaxAttempts opts) (w_tables w)
    \<and> (found \<noteq> None \<longrightarrow> backlog (wo_MaxAttempts opts) (w_tables w') < backlog (wo_MaxAttempts opts) (w_tables w))"
proof (cases "candidate locked now (wo_MaxAttempts opts) (w_tables w)")
  case None
  with assms(1) show ?thesis by (auto simp: claim_def tx_insert_Inr)
next
  case (Some r)
  let ?m = "wo_MaxAttempts opts" and ?f = "take_intent now (wo_ClaimLease opts) (w_uuid w (w_next w))"
  note r = candidate_live [OF Some]
  have eq: "t_intents (w_tables w') = update_where (\<lambda>x. nt_id x = nt_id r) ?f (t_intents (w_tables w))"
    using assms(1) Some by (auto simp: claim_def tx_insert_Inr Let_def)
  have less: "remaining ?m (?f r) < remaining ?m r"
    using r(2,3) by (auto simp: remaining_def take_intent_def terminal_def intent_claimable_def)
  have "backlog ?m (w_tables w') < backlog ?m (w_tables w)"
    by (rule backlog_update_less [OF assms(2) r(1) less eq])
  then show ?thesis by simp
qed

lemma backlog_kept: "keeps t_intents m \<Longrightarrow> m w = (r, w') \<Longrightarrow> backlog k (w_tables w') = backlog k (w_tables w)"
  by (simp add: backlog_def keepsD [of t_intents])

lemma triple_backlog_kept: "keeps t_intents m \<Longrightarrow> triple (\<lambda>t. backlog k t \<le> n) m (\<lambda>_ t. backlog k t \<le> n)"
  by (rule triple_preserves, rule preserves_of_keeps [of t_intents]) (simp_all add: backlog_def)

lemma complete_drains: "backlog m (w_tables (snd (complete opts random c result s e w))) \<le> backlog m (w_tables w)"
proof -
  have upd: "triple (\<lambda>t. t = t0) (tx_affect (\<lambda>t. (length (filter (holds_claim c) (t_intents t)),
      t\<lparr>t_intents := update_where (holds_claim c) f (t_intents t)\<rparr>))) (\<lambda>_ t. backlog m t \<le> backlog m t0)"
    if "\<And>r. nt_attempt_count (f r) = nt_attempt_count r" for f t0
    by (rule triple_affect)
      (use that in \<open>auto simp: backlog_def holds_claim_def remaining_def terminal_def intro!: sum_update_le\<close>)
  have note_ok: "triple (\<lambda>t. backlog m t \<le> n) (if b then notificationEntry i sm e else tx_return ()) (\<lambda>_ t. backlog m t \<le> n)" for n b i sm
    by (rule triple_backlog_kept) (auto intro!: keeps_notificationEntry intro: frame_intros)
  have body: "triple (\<lambda>t. t = t0) (complete_body c result v s e) (\<lambda>_ t. backlog m t \<le> backlog m t0)" for v t0
    unfolding complete_body_def
    by (rule triple_prod)+ (rule triple_bind, rule upd, simp, rule triple_if, rule triple_return, simp,
      rule triple_bind [OF triple_backlog_kept [OF keeps_insertAttempt]], simp, rule triple_bind [OF note_ok], rule triple_return)
  let ?body = "complete_body c result (verdict opts random c result e) s e"
  have tx: "backlog m (w_tables (snd (in_tx ?body w))) \<le> backlog m (w_tables w)"
    by (rule in_tx_commits [where I = "\<lambda>_. True" and R = "\<lambda>a b. backlog m b \<le> backlog m a"]) (use body in auto)
  obtain r w1 where run: "in_tx ?body w = (r, w1)" by (cases "in_tx ?body w")
  show ?thesis
    using tx run by (cases r) (simp_all add: complete_def Let_def tx_bind_def publishDelivery_def hub_publish_def)
qed

lemma deadLetter_drains:
  assumes "deadLetterExpiredClaim opts locked now w = (Inr found, w')"
    and inv: "delivery_inv (wo_MaxAttempts opts) (w_tables w)"
  shows "backlog (wo_MaxAttempts opts) (w_tables w') \<le> backlog (wo_MaxAttempts opts) (w_tables w)
    \<and> (found \<longrightarrow> backlog (wo_MaxAttempts opts) (w_tables w') < backlog (wo_MaxAttempts opts) (w_tables w))"
proof (cases "exhausted_row locked now (wo_MaxAttempts opts) (w_tables w)")
  case None
  with assms(1) show ?thesis
    by (auto simp: deadLetterExpiredClaim_def tx_bind_Inr in_tx_Inr tx_query_Inr)
next
  case (Some y)
  obtain r d where y: "y = (r, d)" by (cases y)
  note r = exhausted_row_live [OF Some [unfolded y]]
  let ?m = "wo_MaxAttempts opts"
  have rows: "t_intents (w_tables w') = update_where (\<lambda>x. nt_id x = nt_id r) (expire now) (t_intents (w_tables w))"
    using assms(1) Some y
    by (auto simp: deadLetterExpiredClaim_def expire_def [symmetric] tx_bind_Inr in_tx_Inr tx_query_Inr tx_exec_Inr
        publishDelivery_def hub_publish_def
        dest!: insertAttempt_intents notificationEntry_intents
        split: option.splits)
  have d: "distinct (map nt_id (t_intents (w_tables w)))" and ok: "intent_ok ?m r"
    using inv r(1) by (simp_all add: delivery_inv_def)
  have less: "remaining ?m (expire now r) < remaining ?m r"
    using ok r(4) by (auto simp: remaining_def expire_def terminal_def intent_ok_def)
  have "backlog ?m (w_tables w') < backlog ?m (w_tables w)"
    by (rule backlog_update_less [OF d r(1) less rows])
  then show ?thesis by simp
qed

lemma pass_drains:
  assumes "Worker_ProcessOnce opts random locked clock clock2 w = (Inr found, w')"
    and inv: "delivery_inv (wo_MaxAttempts opts) (w_tables w)"
  shows "backlog (wo_MaxAttempts opts) (w_tables w') + (if found then 1 else 0) \<le> backlog (wo_MaxAttempts opts) (w_tables w)"
proof -
  let ?m = "wo_MaxAttempts opts" and ?now = "truncate_us clock"
  let ?fin = "if truncate_us clock2 < ?now then ?now else truncate_us clock2"
  obtain d w1 where dl: "deadLetterExpiredClaim opts locked ?now w = (Inr d, w1)"
    and rest: "(if d then tx_return True else tx_bind (claim opts locked ?now) (\<lambda>found.
        case found of None \<Rightarrow> tx_return False
        | Some c \<Rightarrow> tx_bind (complete opts random c (deliver opts c) ?now ?fin) (\<lambda>_. tx_return True))) w1 = (Inr found, w')"
    using assms(1) unfolding Worker_ProcessOnce_def Let_def by (auto simp: tx_bind_Inr)
  note one = deadLetter_drains [OF dl inv]
  have inv1: "delivery_inv ?m (w_tables w1)"
    using preservesD [OF delivery_inv_deadLetter [OF refl] dl inv] .
  show ?thesis
  proof (cases d)
    case True
    with rest one show ?thesis by auto
  next
    case False
    with rest obtain x w2 where cl: "claim opts locked ?now w1 = (Inr x, w2)"
      and fin: "(case x of None \<Rightarrow> tx_return False
        | Some c \<Rightarrow> tx_bind (complete opts random c (deliver opts c) ?now ?fin) (\<lambda>_. tx_return True)) w2 = (Inr found, w')"
      by (auto simp: tx_bind_Inr)
    have two: "backlog ?m (w_tables w2) \<le> backlog ?m (w_tables w1)
        \<and> (x \<noteq> None \<longrightarrow> backlog ?m (w_tables w2) < backlog ?m (w_tables w1))"
      by (rule claim_drains [OF cl]) (use inv1 in \<open>simp add: delivery_inv_def\<close>)
    show ?thesis
    proof (cases x)
      case None
      with fin one two show ?thesis by auto
    next
      case (Some c)
      with fin obtain u where "complete opts random c (deliver opts c) ?now ?fin w2 = (Inr u, w')"
        by (auto simp: tx_bind_Inr)
      with complete_drains [of ?m opts random c "deliver opts c" ?now ?fin w2] one two Some fin
      show ?thesis by (auto simp: tx_bind_Inr)
    qed
  qed
qed

text \<open>Consecutive passes of one worker, each with what it observes; the busy loop of \<open>runOne\<close>.\<close>

type_synonym pass_input = "(int \<Rightarrow> int) \<times> (string \<Rightarrow> bool) \<times> time \<times> time"

fun busy_passes :: "worker_options \<Rightarrow> pass_input list \<Rightarrow> world \<Rightarrow> nat" where
  "busy_passes opts [] w = 0"
| "busy_passes opts ((random, locked, clock, clock2) # inputs) w =
     (case Worker_ProcessOnce opts random locked clock clock2 w of
        (Inr True, w') \<Rightarrow> Suc (busy_passes opts inputs w')
      | _ \<Rightarrow> 0)"

lemma busy_passes_bound:
  "delivery_inv (wo_MaxAttempts opts) (w_tables w) \<Longrightarrow>
     busy_passes opts inputs w \<le> backlog (wo_MaxAttempts opts) (w_tables w)"
proof (induction inputs arbitrary: w)
  case (Cons p inputs)
  obtain random locked clock clock2 where p: "p = (random, locked, clock, clock2)" by (cases p)
  obtain r w' where run: "Worker_ProcessOnce opts random locked clock clock2 w = (r, w')"
    by (cases "Worker_ProcessOnce opts random locked clock clock2 w")
  show ?case
  proof (cases "r = Inr True")
    case True
    note run = run [unfolded True]
    have "delivery_inv (wo_MaxAttempts opts) (w_tables w')"
      using preservesD [OF delivery_inv_pass [OF refl] run Cons.prems] .
    from Cons.IH [OF this] pass_drains [OF run Cons.prems] show ?thesis by (simp add: p run)
  next
    case False
    then have "busy_passes opts (p # inputs) w = 0"
      by (cases r) (simp_all add: p run split: bool.splits)
    then show ?thesis by simp
  qed
qed simp

lemma backlog_le:
  assumes "delivery_inv m t"
  shows "backlog m t \<le> length (t_intents t) * nat (1 + m)"
proof -
  have "remaining m r \<le> nat (1 + m)" if "r \<in> set (t_intents t)" for r
    using assms that by (auto simp: delivery_inv_def intent_ok_def remaining_def)
  then have "(\<Sum>r \<leftarrow> t_intents t. remaining m r) \<le> (\<Sum>r \<leftarrow> t_intents t. nat (1 + m))"
    by (intro sum_list_mono) auto
  then show ?thesis by (simp add: backlog_def sum_list_triv)
qed

lemma NewWorker_bounds:
  "1 \<le> wo_MaxAttempts (NewWorker o0)" "wo_MaxAttempts (NewWorker o0) \<le> 6"
  "0 < wo_MaxRetryDelay (NewWorker o0)" "0 < wo_ClaimLease (NewWorker o0)"
  by (simp_all add: NewWorker_def second_def)

section \<open>Fan-out\<close>

definition silenced :: "notification_event \<Rightarrow> tables \<Rightarrow> bool" where
  "silenced event t \<longleftrightarrow> (\<exists>m \<in> set (t_silences t). silence_matches event (ne_OccurredAt event) m)"

definition fresh_intent :: "notification_event \<Rightarrow> bool \<Rightarrow> intent_row \<Rightarrow> bool" where
  "fresh_intent event hushed r \<longleftrightarrow> nt_incident_event_id r = Some (ne_TimelineEventID event)
     \<and> nt_incident_id r = Some (ne_IncidentID event) \<and> nt_attempt_count r = 0
     \<and> nt_state r = (if hushed then StateSuppressed else StateQueued)"

lemma sort_key_map_id: "map f (sort_key f xs) = sort (map f xs)"
  by (rule properties_for_sort [symmetric]) simp_all

lemma matchingSilence_Inr:
  assumes "matchingSilence event (ne_OccurredAt event) w = (Inr i, w')" and "'''' \<notin> sl_id ` set (t_silences (w_tables w))"
  shows "w_tables w' = w_tables w \<and> (i \<noteq> '''' \<longleftrightarrow> silenced event (w_tables w))"
proof (cases "first_by silence_order (filter (silence_matches event (ne_OccurredAt event)) (t_silences (w_tables w)))")
  case None
  then have "\<not> silenced event (w_tables w)"
    by (auto simp: first_by_def silenced_def filter_empty_conv dest: arg_cong [of _ _ set] split: list.splits)
  with None assms(1) show ?thesis by (auto simp: matchingSilence_def tx_query_Inr first_by_def)
next
  case (Some m)
  then have "m \<in> set (filter (silence_matches event (ne_OccurredAt event)) (t_silences (w_tables w)))"
    by (rule first_by_Some_in)
  with Some assms show ?thesis by (force simp: matchingSilence_def tx_query_Inr silenced_def)
qed

lemma enqueueFor_Inr:
  assumes "enqueueFor event sid now (i, name) w = (Inr u, w')"
  shows "t_intents (w_tables w') = t_intents (w_tables w) \<and> (Some (ne_TimelineEventID event), i) \<in> intent_key ` set (t_intents (w_tables w))
    \<or> (Some (ne_TimelineEventID event), i) \<notin> intent_key ` set (t_intents (w_tables w))
      \<and> (\<exists>r. t_intents (w_tables w') = t_intents (w_tables w) @ [r] \<and> nt_destination_id r = i \<and> fresh_intent event (sid \<noteq> '''') r)"
proof -
  from assms obtain x w1 where ins: "insertIntent event i sid now w = (Inr x, w1)"
    and rest: "(case x of None \<Rightarrow> tx_return () | Some _ \<Rightarrow> notificationEntry (ne_IncidentID event)
         (if sid \<noteq> '''' then ''Notification suppressed for '' @ name @ '' by a matching silence.''
          else ''Notification queued for '' @ name @ ''.'') now) w1 = (Inr u, w')"
    by (auto simp: enqueueFor_def tx_bind_Inr)
  have "t_intents (w_tables w') = t_intents (w_tables w1)"
    using rest by (cases x) (auto dest: notificationEntry_intents)
  with ins show ?thesis
    by (auto simp: insertIntent_def tx_insert_Inr intent_row_of_def fresh_intent_def split: if_splits)
qed

lemma enqueue_loop:
  assumes "tx_for (enqueueFor event sid now) ds w = (Inr u, w')" and "distinct (map fst ds)"
  shows "\<exists>new. t_intents (w_tables w') = t_intents (w_tables w) @ new
    \<and> map nt_destination_id new = filter (\<lambda>i. (Some (ne_TimelineEventID event), i) \<notin> intent_key ` set (t_intents (w_tables w))) (map fst ds)
    \<and> list_all (fresh_intent event (sid \<noteq> '''')) new"
  using assms
proof (induction ds arbitrary: w)
  case (Cons d ds)
  obtain i name where d: "d = (i, name)" by (cases d)
  from Cons.prems(1) obtain u1 w1 where one: "enqueueFor event sid now (i, name) w = (Inr u1, w1)"
    and rest: "tx_for (enqueueFor event sid now) ds w1 = (Inr u, w')"
    by (auto simp: d tx_bind_Inr)
  from Cons.IH [OF rest] Cons.prems(2) obtain new where new:
    "t_intents (w_tables w') = t_intents (w_tables w1) @ new"
    "map nt_destination_id new = filter (\<lambda>i. (Some (ne_TimelineEventID event), i) \<notin> intent_key ` set (t_intents (w_tables w1))) (map fst ds)"
    "list_all (fresh_intent event (sid \<noteq> '''')) new"
    by auto
  from enqueueFor_Inr [OF one] show ?case
  proof (elim disjE conjE exE)
    assume same: "t_intents (w_tables w1) = t_intents (w_tables w)"
      and "(Some (ne_TimelineEventID event), i) \<in> intent_key ` set (t_intents (w_tables w))"
    with new show ?case by (intro exI [of _ new]) (simp add: d)
  next
    fix r
    assume fresh: "(Some (ne_TimelineEventID event), i) \<notin> intent_key ` set (t_intents (w_tables w))"
      and add: "t_intents (w_tables w1) = t_intents (w_tables w) @ [r]" "nt_destination_id r = i" "fresh_intent event (sid \<noteq> '''') r"
    have key: "intent_key r = (Some (ne_TimelineEventID event), i)"
      using add(2,3) by (simp add: intent_key_def fresh_intent_def)
    have "filter (\<lambda>j. (Some (ne_TimelineEventID event), j) \<notin> intent_key ` set (t_intents (w_tables w1))) (map fst ds)
      = filter (\<lambda>j. (Some (ne_TimelineEventID event), j) \<notin> intent_key ` set (t_intents (w_tables w))) (map fst ds)"
      by (rule filter_cong) (use Cons.prems(2) key in \<open>auto simp: d add(1)\<close>)
    with new add fresh show ?case by (intro exI [of _ "r # new"]) (simp add: d)
  qed
qed simp

section \<open>Properties\<close>

text \<open>
  Enqueueing an incident event leaves every existing intent as it is and appends exactly
  one intent for each enabled destination that has none for this timeline event, in the order
  of destination identifiers; the new intents are queued, or all of them are suppressed from
  the start exactly when an active silence covers the event.
\<close>

theorem enqueue_fanout:
  assumes "EnqueueIncidentEvent wc event w = (Inr u, w')"
    and "distinct (map ds_id (t_destinations (w_tables w)))"
    and "'''' \<notin> sl_id ` set (t_silences (w_tables w))"
  shows "\<exists>new. t_intents (w_tables w') = t_intents (w_tables w) @ new
    \<and> map nt_destination_id new = filter (\<lambda>i. (Some (ne_TimelineEventID event), i) \<notin> intent_key ` set (t_intents (w_tables w)))
        (sort (map ds_id (filter ds_enabled (t_destinations (w_tables w)))))
    \<and> list_all (fresh_intent event (silenced event (w_tables w))) new"
proof -
  let ?ds = "enabled_destinations (w_tables w)"
  from assms(1) obtain sid w2 now where
    sil: "matchingSilence event (ne_OccurredAt event) (tick w) = (Inr sid, w2)"
    and loop: "tx_for (enqueueFor event sid now) ?ds w2 = (Inr u, w')"
    unfolding EnqueueIncidentEvent_def Let_def by (auto simp: tx_bind_Inr tx_query_Inr split: if_splits)
  from matchingSilence_Inr [OF sil] assms(3) have t: "w_tables w2 = w_tables w" "(sid \<noteq> '''') = silenced event (w_tables w)"
    by simp_all
  have ids: "map fst ?ds = sort (map ds_id (filter ds_enabled (t_destinations (w_tables w))))"
    by (simp add: enabled_destinations_def comp_def flip: sort_key_map_id)
  have "distinct (map fst ?ds)"
    unfolding ids using assms(2) by (simp add: distinct_map_filter)
  from enqueue_loop [OF loop this] show ?thesis by (simp only: t ids)
qed

definition sampleDestination :: destination_row where
  "sampleDestination = \<lparr> ds_id = ''60000000-0000-4000-8000-000000000001'', ds_display_name = ''Ops'',
     ds_destination_type = ''mattermost'', ds_enabled = True, ds_endpoint_host = ''chat.example.org'',
     ds_endpoint_port = 443, ds_endpoint_path_prefix = ''/hooks'', ds_secret_reference = ''ops'',
     ds_version = 1, ds_created_at = 0, ds_updated_at = 0 \<rparr>"

definition sampleNotice :: notification_event where
  "sampleNotice = \<lparr> ne_TimelineEventID = ''70000000-0000-4000-8000-000000000001'',
     ne_IncidentID = ''50000000-0000-4000-8000-000000000001'', ne_RuleID = ''20000000-0000-4000-8000-000000000001'',
     ne_ResourceID = ''11111111-1111-4111-8111-111111111111'', ne_Kind = ''detected'', ne_Title = ''db: host.up'',
     ne_Summary = ''down'', ne_Severity = SeverityCritical, ne_Status = StatusOpen,
     ne_OccurredAt = 4000, ne_CreatedAt = 5000 \<rparr>"

definition sampleOutbox :: world where
  "sampleOutbox = \<lparr> w_tables = empty_tables\<lparr> t_destinations := [sampleDestination] \<rparr>, w_faults = [],
     w_uuid = sampleUuid, w_next = 0, w_clock = 5000, w_hub = NewHub 4 \<rparr>"

definition sampleWorker :: worker_options where
  "sampleWorker = NewWorker \<lparr> wo_Concurrency = 0, wo_PollInterval = 0, wo_ClaimLease = 0, wo_MaxAttempts = 0,
     wo_MaxRetryDelay = 0, wo_IncidentURL = None, wo_Secrets = None, wo_Drivers = (\<lambda>_. None) \<rparr>"

lemmas outbox_eval = EnqueueIncidentEvent_def enqueueFor_def insertIntent_def notificationEntry_def matchingSilence_def
  enabled_destinations_def first_by_def claim_def candidate_def find_row_def

lemmas sample_outbox_eval = sampleOutbox_def sampleDestination_def sampleNotice_def empty_tables_def

lemma sample_enqueue:
  "\<exists>w'. EnqueueIncidentEvent 0 sampleNotice sampleOutbox = (Inr (), w') \<and> length (t_intents (w_tables w')) = 1"
  by (simp add: outbox_eval sample_outbox_eval tx_eval truncate_us_def microsecond_def cong: tx_frozen)

theorem enqueue_fanout_witness:
  "\<exists>w' new. EnqueueIncidentEvent 0 sampleNotice sampleOutbox = (Inr (), w') \<and> t_intents (w_tables w') = new
    \<and> map nt_destination_id new = [''60000000-0000-4000-8000-000000000001'']
    \<and> list_all (fresh_intent sampleNotice False) new"
proof -
  obtain w' where run: "EnqueueIncidentEvent 0 sampleNotice sampleOutbox = (Inr (), w')"
    using sample_enqueue by blast
  have "distinct (map ds_id (t_destinations (w_tables sampleOutbox)))" "'''' \<notin> sl_id ` set (t_silences (w_tables sampleOutbox))"
    by (simp_all add: sample_outbox_eval)
  from enqueue_fanout [OF run this] show ?thesis
    using run by (simp add: sample_outbox_eval silenced_def)
qed

lemma recorded_attempts_le:
  assumes inv: "delivery_inv m t" and r: "r \<in> set (t_intents t)"
  shows "int (length (filter (\<lambda>a. at_intent_id a = nt_id r) (t_attempts t))) \<le> nt_attempt_count r"
proof -
  let ?as = "filter (\<lambda>a. at_intent_id a = nt_id r) (t_attempts t)"
  have "distinct (map attempt_key ?as)" using inv by (simp add: delivery_inv_def distinct_map_filter)
  then have "distinct (map at_attempt_number ?as)" by (auto simp: distinct_map inj_on_def attempt_key_def)
  then have len: "length ?as = card (set (map at_attempt_number ?as))" using distinct_card by fastforce
  have "set (map at_attempt_number ?as) \<subseteq> {1..nt_attempt_count r}"
  proof
    fix n
    assume "n \<in> set (map at_attempt_number ?as)"
    then obtain a where a: "a \<in> set (t_attempts t)" "at_intent_id a = nt_id r" "n = at_attempt_number a" by auto
    then have "attempt_past (t_intents t) (nt_id r, n)"
      using inv by (force simp: delivery_inv_def attempt_key_def)
    then obtain r' where r': "r' \<in> set (t_intents t)" "nt_id r' = nt_id r" "1 \<le> n" "n \<le> nt_attempt_count r'"
      by (auto simp: attempt_past_def)
    have "r' = r" by (rule unique_intent [OF inv r r'(1,2)])
    with r' show "n \<in> {1..nt_attempt_count r}" by simp
  qed
  from card_mono [OF _ this] len have "length ?as \<le> nat (nt_attempt_count r)" by simp
  moreover have "0 \<le> nt_attempt_count r" using inv r by (auto simp: delivery_inv_def intent_ok_def)
  ultimately show ?thesis by linarith
qed

text \<open>
  C9. However incident transactions and workers interleave, fail, lose their claims or
  complete late, every intent keeps the constraints of its state (a claim token and a lease
  exactly while attempting, a terminal instant exactly when terminal, a delivery instant
  exactly when delivered), identifiers and recorded attempts stay unique, and an intent has
  at most six attempts, each recorded at most once.
\<close>

theorem delivery_invariant:
  assumes "opts = NewWorker o0" and "delivery_inv (wo_MaxAttempts opts) (w_tables w)"
  shows "delivery_inv (wo_MaxAttempts opts) (w_tables (outbox_run opts ops w))
    \<and> (\<forall>r \<in> set (t_intents (w_tables (outbox_run opts ops w))). nt_attempt_count r \<le> 6
        \<and> int (length (filter (\<lambda>a. at_intent_id a = nt_id r) (t_attempts (w_tables (outbox_run opts ops w))))) \<le> nt_attempt_count r)"
proof -
  have inv: "delivery_inv (wo_MaxAttempts opts) (w_tables (outbox_run opts ops w))"
    by (rule outbox_run_inv) (use assms NewWorker_bounds [of o0] in auto)
  have "nt_attempt_count r \<le> 6" if "r \<in> set (t_intents (w_tables (outbox_run opts ops w)))" for r
    using inv that NewWorker_bounds(2) [of o0] assms(1) by (fastforce simp: delivery_inv_def intent_ok_def)
  with inv recorded_attempts_le [OF inv] show ?thesis by blast
qed

definition sampleOps :: "outbox_op list" where
  "sampleOps = [OEnqueue 0 sampleNotice, OClaim (\<lambda>_. False) 6000, ODeadLetter (\<lambda>_. False) 7000]"

lemma sample_outbox_inv: "delivery_inv m (w_tables sampleOutbox)"
  by (simp add: delivery_inv_def sample_outbox_eval)

theorem delivery_invariant_witness:
  "delivery_inv 6 (w_tables (outbox_run sampleWorker sampleOps sampleOutbox))"
proof -
  have "wo_MaxAttempts sampleWorker = 6" by (simp add: sampleWorker_def NewWorker_def)
  with delivery_invariant [OF sampleWorker_def sample_outbox_inv, of sampleOps] show ?thesis by simp
qed

text \<open>
  Terminal is final: once an intent is delivered, failed, suppressed or dead-lettered, no
  later operation of any writer or worker changes it.
\<close>

theorem terminal_delivery_final:
  assumes "delivery_inv m (w_tables w)" and "r \<in> set (t_intents (w_tables w))" and "terminal r"
  shows "r \<in> set (t_intents (w_tables (outbox_run opts ops w)))"
proof -
  have "distinct (map nt_id (t_intents (w_tables w)))" using assms(1) by (simp add: delivery_inv_def)
  with advances_run [of w opts ops] have "progress (t_intents (w_tables w)) (t_intents (w_tables (outbox_run opts ops w)))"
    by (simp add: advances_def)
  with assms(2,3) show ?thesis by (auto simp: progress_def)
qed

definition sampleDelivered :: intent_row where
  "sampleDelivered = (intent_row_of ''d'' 0 sampleNotice (ds_id sampleDestination) '''' 0)
     \<lparr> nt_state := StateDelivered, nt_attempt_count := 1, nt_delivered_at := Some 9, nt_terminal_at := Some 9 \<rparr>"

definition sampleSettled :: world where
  "sampleSettled = sampleOutbox\<lparr> w_tables := (w_tables sampleOutbox)\<lparr> t_intents := [sampleDelivered] \<rparr> \<rparr>"

theorem terminal_delivery_final_witness:
  "sampleDelivered \<in> set (t_intents (w_tables (outbox_run sampleWorker sampleOps sampleSettled)))"
proof (rule terminal_delivery_final [of 6])
  show "delivery_inv 6 (w_tables sampleSettled)"
    by (simp add: delivery_inv_def sampleSettled_def sample_outbox_eval sampleDelivered_def intent_ok_def
        intent_row_of_def terminal_def)
  show "sampleDelivered \<in> set (t_intents (w_tables sampleSettled))" by (simp add: sampleSettled_def)
  show "terminal sampleDelivered" by (simp add: sampleDelivered_def terminal_def)
qed

text \<open>
  C14. Fencing: a worker whose intent has meanwhile been claimed for a later attempt can
  complete as late as it likes, after any further operations; its completion changes no table.
\<close>

theorem late_completion_fenced:
  assumes "delivery_inv m (w_tables w)" and "r \<in> set (t_intents (w_tables w))"
    and "nt_id r = cl_ID c" and "cl_Attempt c < nt_attempt_count r"
  shows "w_tables (snd (complete opts random c result s e (outbox_run opts ops w))) = w_tables (outbox_run opts ops w)"
proof -
  let ?w = "outbox_run opts ops w"
  have "distinct (map nt_id (t_intents (w_tables w)))" using assms(1) by (simp add: delivery_inv_def)
  with advances_run [of w opts ops] have d: "distinct (map nt_id (t_intents (w_tables ?w)))"
    and "progress (t_intents (w_tables w)) (t_intents (w_tables ?w))"
    by (simp_all add: advances_def)
  with assms(2-4) obtain r' where r': "r' \<in> set (t_intents (w_tables ?w))" "nt_id r' = cl_ID c" "cl_Attempt c < nt_attempt_count r'"
    by (force simp: progress_def)
  have stale: "\<not> holds_claim c x" if "x \<in> set (t_intents (w_tables ?w))" for x
    using same_row [OF d r'(1) that] r'(2,3) by (auto simp: holds_claim_def)
  then have none: "filter (holds_claim c) (t_intents (w_tables ?w)) = []"
    "update_where (holds_claim c) f (t_intents (w_tables ?w)) = t_intents (w_tables ?w)" for f
    by (auto simp: filter_empty_conv update_where_def intro: map_idI)
  have body: "complete_body c result v s e (tick ?w) = (if faulty (tick ?w) then (Inl DbError, tick (tick ?w)) else (Inr (Commit False), tick (tick ?w)))" for v
    by (cases v) (simp add: complete_body_def tx_bind_def tx_affect_def tx_stmt_def none)
  have "in_tx (complete_body c result v s e) ?w = (r, w') \<Longrightarrow> w_tables w' = w_tables ?w \<and> r \<noteq> Inr True" for v r w'
    unfolding in_tx_def body by (auto split: if_splits)
  then show ?thesis
    unfolding complete_def Let_def by (auto simp: tx_bind_def split: prod.splits sum.splits)
qed

definition sampleRetaken :: intent_row where
  "sampleRetaken = (intent_row_of ''d'' 0 sampleNotice (ds_id sampleDestination) '''' 0)
     \<lparr> nt_state := StateAttempting, nt_attempt_count := 2, nt_claim_token := Some ''b'', nt_claimed_until := Some 99 \<rparr>"

definition sampleLate :: world where
  "sampleLate = sampleOutbox\<lparr> w_tables := (w_tables sampleOutbox)\<lparr> t_intents := [sampleRetaken] \<rparr> \<rparr>"

definition sampleLost :: claimed_intent where
  "sampleLost = (scan_claim sampleRetaken sampleDestination)\<lparr> cl_ClaimToken := ''a'', cl_Attempt := 1 \<rparr>"

lemma sample_late_inv: "delivery_inv 6 (w_tables sampleLate)"
  by (simp add: delivery_inv_def sampleLate_def sample_outbox_eval sampleRetaken_def intent_ok_def
      intent_row_of_def terminal_def)

theorem late_completion_fenced_witness:
  "w_tables (snd (complete sampleWorker (\<lambda>_. 0) sampleLost (failed_result True ''timeout'') 1 2 (outbox_run sampleWorker sampleOps sampleLate)))
     = w_tables (outbox_run sampleWorker sampleOps sampleLate)"
proof (rule late_completion_fenced [OF sample_late_inv, of sampleRetaken])
qed (simp_all add: sampleLate_def sampleLost_def scan_claim_def sampleRetaken_def)

text \<open>
  A failed attempt is retried neither too early nor too late: with a random source in
  range, the delay is at least the doubling schedule or the provider's \<open>Retry-After\<close>, whichever
  is longer, capped at the configured maximum, and never exceeds that maximum.
\<close>

theorem retry_delay_bounds:
  assumes "opts = NewWorker o0" and "1 \<le> attempt" and "\<And>n. 1 \<le> n \<Longrightarrow> 0 \<le> random n \<and> random n < n"
  shows "min (wo_MaxRetryDelay opts) (max (2 ^ nat (min (attempt - 1) 8) * second) after) \<le> retryDelay opts random attempt after
    \<and> retryDelay opts random attempt after \<le> wo_MaxRetryDelay opts
    \<and> 0 < retryDelay opts random attempt after"
proof -
  define d where "d = min (wo_MaxRetryDelay opts) (max (2 ^ nat (min (attempt - 1) 8) * second) after)"
  define j where "j = random (max 1 (d sdiv 4))"
  have j: "0 \<le> j" using assms(3) [of "max 1 (d sdiv 4)"] by (simp add: j_def)
  have "(0::int) < 2 ^ nat (min (attempt - 1) 8) * second" by (simp add: second_def)
  then have d: "0 < d" "d \<le> wo_MaxRetryDelay opts"
    using NewWorker_bounds(3) [of o0] assms(1) by (simp_all add: d_def)
  have dd: "d = (let delay = 2 ^ nat (min (attempt - 1) 8) * second; delay = (if delay < after then after else delay)
      in if wo_MaxRetryDelay opts < delay then wo_MaxRetryDelay opts else delay)"
    unfolding d_def Let_def min_def max_def by simp
  have "retryDelay opts random attempt after = (if wo_MaxRetryDelay opts < d + j then wo_MaxRetryDelay opts else d + j)"
    unfolding retryDelay_def j_def dd Let_def by (rule refl)
  then show ?thesis unfolding d_def [symmetric] using j d by simp
qed

theorem retry_delay_bounds_witness: "0 < retryDelay sampleWorker (\<lambda>n. n - 1) 3 0 \<and> retryDelay sampleWorker (\<lambda>n. n - 1) 3 0 \<le> 300 * second"
proof -
  have "wo_MaxRetryDelay sampleWorker = 300 * second" by (simp add: sampleWorker_def NewWorker_def)
  with retry_delay_bounds [OF sampleWorker_def, of 3 "\<lambda>n. n - 1" 0] show ?thesis by simp
qed

text \<open>
  C36. The busy loop of a worker ends: whatever clocks, locks, random numbers and faults it
  meets, it can find work in at most seven consecutive passes per stored intent, after which it
  sleeps until more intents arrive.
\<close>

theorem worker_busy_loop_terminates:
  assumes "opts = NewWorker o0" and "delivery_inv (wo_MaxAttempts opts) (w_tables w)"
  shows "busy_passes opts inputs w \<le> 7 * length (t_intents (w_tables w))"
proof -
  have "busy_passes opts inputs w \<le> length (t_intents (w_tables w)) * nat (1 + wo_MaxAttempts opts)"
    using busy_passes_bound [OF assms(2)] backlog_le [OF assms(2)] by (rule le_trans)
  also have "\<dots> \<le> length (t_intents (w_tables w)) * 7"
    using NewWorker_bounds(2) [of o0] assms(1) by (intro mult_le_mono2) simp
  finally show ?thesis by simp
qed

theorem worker_busy_loop_terminates_witness:
  "busy_passes sampleWorker (replicate 9 (\<lambda>_. 0, \<lambda>_. False, 6000, 7000)) sampleLate \<le> 7"
proof -
  have m: "wo_MaxAttempts sampleWorker = 6" by (simp add: sampleWorker_def NewWorker_def)
  have len: "length (t_intents (w_tables sampleLate)) = 1" by (simp add: sampleLate_def)
  show ?thesis
    using worker_busy_loop_terminates [OF sampleWorker_def sample_late_inv [folded m]] unfolding len by simp
qed

definition column_code :: "string \<Rightarrow> bool" where
  "column_code s \<longleftrightarrow> s \<noteq> '''' \<and> 0x61 \<le> byte (hd s) \<and> byte (hd s) \<le> 0x7A
     \<and> list_all identifier_char s \<and> length s \<le> 127"

lemma error_code_accepted:
  "column_code (normalizedErrorCode v) \<longleftrightarrow> 0x61 \<le> byte (hd (normalizedErrorCode v)) \<and> byte (hd (normalizedErrorCode v)) \<le> 0x7A"
proof -
  have fallback: "column_code ''delivery_failed''" by code_simp
  define n where "n = concat (map lower_rune (runes (TrimSpace v)))"
  show ?thesis
  proof (cases "n = '''' \<or> \<not> list_all identifier_char n \<or> 127 < length n")
    case True
    then have "normalizedErrorCode v = ''delivery_failed''" by (auto simp: normalizedErrorCode_def Let_def simp flip: n_def)
    with fallback show ?thesis unfolding column_code_def by simp
  next
    case False
    then have "normalizedErrorCode v = n" by (simp add: normalizedErrorCode_def Let_def flip: n_def)
    with False show ?thesis by (simp add: column_code_def)
  qed
qed

text \<open>
  The stored error code is always in the alphabet and length the table accepts, but not always
  accepted: the column \<open>safe_error_code\<close>
  requires a lower-case letter first, and a provider's code that starts with a digit, a dot, an
  underscore or a hyphen passes through \<open>normalizedErrorCode\<close> unchanged, so the completion that
  stores it violates the constraint.
\<close>

theorem error_code_constraint:
  "(column_code (normalizedErrorCode v) \<longleftrightarrow> 0x61 \<le> byte (hd (normalizedErrorCode v)) \<and> byte (hd (normalizedErrorCode v)) \<le> 0x7A)
    \<and> \<not> column_code (normalizedErrorCode ''404'')"
proof -
  have "\<not> column_code (normalizedErrorCode ''404'')" by code_simp
  with error_code_accepted show ?thesis by blast
qed

end
