(* ===== verification/Incident_Engine.thy ===== *)
theory Incident_Engine
  imports Incident_Workflow Notification_Delivery
begin

text \<open>
  The incident engine as a whole: evaluator passes, operator actions, new signals, rule
  administration and notification workers act on one database in any order. The step relation
  \<open>engine_step\<close> has one rule per actor; the invariant, the finality of resolved incidents and
  the append-only timeline hold along every run.
\<close>

section \<open>What every actor respects\<close>

definition stays_resolved :: "incident_row list \<Rightarrow> incident_row list \<Rightarrow> bool" where
  "stays_resolved rows rows' \<longleftrightarrow> (\<forall>r \<in> set rows. in_status r = StatusResolved \<longrightarrow>
     (\<exists>r' \<in> set rows'. in_id r' = in_id r \<and> in_status r' = StatusResolved
        \<and> in_resolved_at r' = in_resolved_at r \<and> in_fingerprint r' = in_fingerprint r))"

lemma stays_resolved_refl: "stays_resolved rows rows"
  by (auto simp: stays_resolved_def)

lemma stays_resolved_trans: "stays_resolved a b \<Longrightarrow> stays_resolved b c \<Longrightarrow> stays_resolved a c"
  unfolding stays_resolved_def by metis

text \<open>The claimed signals are carried along: they are what a pass relies on from the journal.\<close>

definition lawful :: "signal list \<Rightarrow> tables \<Rightarrow> tables \<Rightarrow> bool" where
  "lawful sigs a b \<longleftrightarrow> (claimed_inv sigs a \<longrightarrow> claimed_inv sigs b
     \<and> stays_resolved (t_incidents a) (t_incidents b) \<and> timeline_extends a b)"

interpretation law: tx_relation "lawful sigs" for sigs
proof
  show "lawful sigs t t" for t by (simp add: lawful_def stays_resolved_refl timeline.refl)
  show "lawful sigs a b \<Longrightarrow> lawful sigs b c \<Longrightarrow> lawful sigs a c" for a b c
    unfolding lawful_def using stays_resolved_trans timeline.trans by blast
qed

lemma claimed_inv_Nil [simp]: "claimed_inv [] t = incident_inv t"
  by (simp add: claimed_inv_def)

lemma claimed_incident_inv: "claimed_inv sigs t \<Longrightarrow> incident_inv t"
  by (simp add: claimed_inv_def)

lemma lawful_core:
  assumes "keeps core m" and "always timeline_extends m"
  shows "always (lawful sigs) m"
proof (rule alwaysI)
  fix w
  have c: "core (w_tables (snd (m w))) = core (w_tables w)" by (rule keeps_snd [OF assms(1)])
  have "claimed_inv sigs (w_tables (snd (m w))) = claimed_inv sigs (w_tables w)" by (rule claimed_inv_core [OF c])
  moreover have "t_incidents (w_tables (snd (m w))) = t_incidents (w_tables w)" using c by (simp add: core_def)
  ultimately show "lawful sigs (w_tables w) (w_tables (snd (m w)))"
    using alwaysD [OF assms(2)] by (simp add: lawful_def stays_resolved_refl)
qed

lemma timeline_kept: "keeps t_timeline m \<Longrightarrow> always timeline_extends m"
  unfolding keeps_def always_def timeline_extends_def by (metis append_Nil2)

lemma evaluator_step_stays: "evaluator_step rows rows' \<Longrightarrow> stays_resolved rows rows'"
  unfolding evaluator_step_def
proof (elim disjE exE conjE)
  fix i f
  assume rows': "rows' = update_where (\<lambda>r. in_id r = i) f rows"
    and edge: "\<forall>r \<in> set rows. in_id r = i \<longrightarrow> evaluator_edge r (f r)"
  have "r \<in> set rows'" if "r \<in> set rows" "in_status r = StatusResolved" for r
    using edge that by (auto simp: rows' set_update_where evaluator_edge_def active_def intro!: image_eqI [of _ _ r])
  then show ?thesis by (auto simp: stays_resolved_def)
qed (auto simp: stays_resolved_def)

section \<open>The evaluator\<close>

context intent_writer
begin

lemma lawful_processSignal:
  assumes "sig \<in> set sigs"
  shows "always (lawful sigs) (processSignal intents sig now)"
proof (rule alwaysI)
  fix w
  let ?t = "w_tables (snd (processSignal intents sig now w))"
  show "lawful sigs (w_tables w) ?t"
    unfolding lawful_def
  proof (intro impI)
    assume c: "claimed_inv sigs (w_tables w)"
    have "claimed_inv sigs ?t" by (rule preserves_snd [OF claimed_processSignal [OF assms] c])
    moreover have "recorded_step (t_incidents (w_tables w)) (t_timeline (w_tables w)) ?t"
      by (rule recorded_processSignal [OF claimed_incident_inv [OF c]])
    ultimately show "claimed_inv sigs ?t \<and> stays_resolved (t_incidents (w_tables w)) (t_incidents ?t) \<and> timeline_extends (w_tables w) ?t"
      by (auto simp: recorded_step_def timeline_extends_def intro: evaluator_step_stays)
  qed
qed

lemma lawful_processOneDue: "always (lawful []) (processOneDue intents locked now)"
proof (rule alwaysI)
  fix w
  let ?t = "w_tables (snd (processOneDue intents locked now w))"
  have "incident_inv (w_tables w) \<Longrightarrow> incident_inv ?t" by (rule preserves_snd [OF preserves_processOneDue])
  then show "lawful [] (w_tables w) ?t"
    using recorded_processOneDue [of w locked now]
    by (auto simp: lawful_def recorded_step_def timeline_extends_def intro: evaluator_step_stays)
qed

lemma lawful_processDue: "always (lawful []) (processDue intents locked now limit)"
proof (induction limit)
  case 0
  show ?case unfolding processDue.simps by (rule law.return)
next
  case (Suc limit)
  then show ?case unfolding processDue.simps by (intro law.composition lawful_processOneDue)
qed

lemma lawful_publish: "always (lawful sigs) (publishChange ch)"
  by (rule lawful_core [OF keeps_publishChange timeline_kept [OF keeps_publishChange]])

lemma lawful_processClaimed:
  assumes "op_Intents opts = intents" and "set rest \<subseteq> set sigs"
  shows "always (lawful sigs) (processClaimed opts now rest)"
  using assms(2)
proof (induction rest)
  case Nil
  show ?case unfolding processClaimed.simps by (rule law.return)
next
  case (Cons sig rest)
  have "keeps t_timeline (Fail i now r m c)" for i r m c by (rule keeps_Fail) simp
  then have "always (lawful sigs) (Fail i now r m c)" for i r m c
    by (intro lawful_core core_Fail timeline_kept)
  with Cons show ?case
    unfolding processClaimed.simps assms(1)
    by (intro law.composition law.attempt lawful_processSignal lawful_publish) auto
qed

lemma lawful_ProcessOnce:
  assumes "op_Intents opts = intents" and "\<And>ys. mset (returning ys) = mset ys"
  shows "always (lawful []) (ProcessOnce opts lockedSignals returning lockedStates clock)"
proof (rule alwaysI)
  fix w :: world
  let ?now = "truncate_us clock"
  let ?claim = "Claim lockedSignals returning ?now (op_BatchSize opts) (op_ClaimLease opts) (op_MaxAttempts opts)"
  let ?due = "\<lambda>x. tx_bind (processDue (op_Intents opts) lockedStates ?now (nat (op_BatchSize opts))) (\<lambda>changes.
      tx_bind (tx_for publishChange changes) (\<lambda>_. tx_return (x :: int)))"
  obtain r w1 where run: "?claim w = (r, w1)" by (cases "?claim w")
  have claim: "always (lawful []) ?claim"
    by (rule lawful_core [OF core_Claim timeline_kept]) (rule keeps_Claim, simp)
  have one: "lawful [] (w_tables w) (w_tables w1)" using alwaysD [OF claim, of w] run by simp
  show "lawful [] (w_tables w) (w_tables (snd (ProcessOnce opts lockedSignals returning lockedStates clock w)))"
  proof (cases r)
    case (Inl e)
    with run one show ?thesis by (simp add: ProcessOnce_def Let_def tx_bind_err)
  next
    case (Inr claimed)
    obtain r2 w2 where run2: "processClaimed opts ?now claimed w1 = (r2, w2)" by (cases "processClaimed opts ?now claimed w1")
    have gen: "claimed_inv claimed (w_tables w1)" if "incident_inv (w_tables w1)"
      using that Claim_genuine [OF run [unfolded Inr] assms(2)] by (simp add: claimed_inv_def)
    have "lawful claimed (w_tables w1) (w_tables w2)"
      using alwaysD [OF lawful_processClaimed [OF assms(1) order_refl, of claimed], of w1 ?now] run2 by simp
    then have two: "lawful [] (w_tables w1) (w_tables w2)"
      using gen claimed_incident_inv by (auto simp: lawful_def)
    have due: "always (lawful []) (?due x)" for x
      unfolding assms(1) by (intro law.composition lawful_processDue lawful_publish)
    have "lawful [] (w_tables w1) (w_tables (snd (ProcessOnce opts lockedSignals returning lockedStates clock w)))"
      using run Inr run2 two law.trans [OF two alwaysD [OF due]]
      by (cases r2) (simp_all add: ProcessOnce_def Let_def tx_bind_run tx_bind_err)
    with one show ?thesis by (rule law.trans)
  qed
qed

end

section \<open>The other actors\<close>

lemma mutation_stays_resolved:
  assumes inv: "incident_inv t" and eff: "mutation_effect m h res now t t'"
  shows "stays_resolved (t_incidents t) (t_incidents t') \<and> timeline_extends t t'"
proof -
  from eff obtain r e a where find: "find_row in_id (uuid_param (mu_IncidentID m)) (t_incidents t) = Some r"
    and nxt: "workflow_next (mu_Action m) (in_status r) = Some (mr_Status res)"
    and t': "t' = action_put now (mutation_key m) h res (operated m (mr_Status res) now r e a t)"
    unfolding mutation_effect_def by blast
  let ?f = "apply_action m (mr_Status res) now"
  have r: "r \<in> set (t_incidents t)" using find_row_SomeD [OF find] by simp
  have rows: "t_incidents t' = update_where (\<lambda>x. in_id x = in_id r) ?f (t_incidents t)"
    and log: "t_timeline t' = t_timeline t @ [e]"
    unfolding t' action_put_def mutation_key_def operated_def by simp_all
  have "\<exists>r' \<in> set (t_incidents t'). in_id r' = in_id x \<and> in_status r' = StatusResolved
      \<and> in_resolved_at r' = in_resolved_at x \<and> in_fingerprint r' = in_fingerprint x"
    if x: "x \<in> set (t_incidents t)" "in_status x = StatusResolved" for x
  proof (cases "in_id x = in_id r")
    case True
    then have "x = r" using inv x(1) r by (simp add: incident_inv_def distinct_map inj_on_def)
    with nxt x(2) have "mu_Action m \<noteq> ActionResolve" "mr_Status res = StatusResolved"
      by (cases "mu_Action m"; auto split: if_splits)+
    with apply_action_status [OF nxt] \<open>x = r\<close> show ?thesis
      by (intro bexI [of _ "?f x"]) (auto simp: rows set_update_where r)
  next
    case False
    with x show ?thesis by (intro bexI [of _ x]) (auto simp: rows set_update_where)
  qed
  then show ?thesis using log by (auto simp: stays_resolved_def timeline_extends_def)
qed

lemma lawful_Mutate: "always (lawful []) (Mutate rt clock m)"
proof (rule alwaysI)
  fix w :: world
  obtain r w' where run: "Mutate rt clock m w = (r, w')" by (cases "Mutate rt clock m w")
  have "lawful [] (w_tables w) (w_tables w')"
  proof (cases r)
    case (Inl e)
    with run Mutate_Inl [of rt clock m w e w'] law.refl show ?thesis by simp
  next
    case (Inr res)
    from Mutate_Inr [OF run [unfolded Inr]] mutation_incident_inv mutation_stays_resolved law.refl
    show ?thesis unfolding lawful_def claimed_inv_Nil by (metis stays_resolved_refl timeline.refl)
  qed
  with run show "lawful [] (w_tables w) (w_tables (snd (Mutate rt clock m w)))" by simp
qed

lemma lawful_Append: "always (lawful []) (Append input)"
proof -
  have inv: "preserves incident_inv (Append input)"
    unfolding Append_def Let_def preserves_def
  proof (rule pres.insert, rule impI)
    fix u c t x t'
    assume eq: "(if si_SourceKey input \<in> sg_source_key ` set (t_signals t) then Inr ((), t)
        else if u \<in> sg_id ` set (t_signals t) then Inl DbError
        else Inr ((), t\<lparr>t_signals := t_signals t @
          [\<lparr> sg_id = u, sg_source_key = si_SourceKey input, sg_kind = si_Kind input,
             sg_integration_id = si_IntegrationID input, sg_resource_id = si_ResourceID input,
             sg_observation_id = nullif (si_ObservationID input),
             sg_check_type = si_CheckType input, sg_state = si_State input,
             sg_reason = si_Reason input, sg_reason_code = nullif (si_ReasonCode input),
             sg_occurred_at = truncate_us (si_OccurredAt input), sg_created_at = c,
             sg_available_at = truncate_us (if si_AvailableAt input = 0 then si_OccurredAt input else si_AvailableAt input),
             sg_claimed_until = None, sg_attempts = 0, sg_processed_at = None, sg_dead_lettered_at = None,
             sg_last_error_code = None \<rparr>]\<rparr>)) = Inr (x, t')" and inv: "incident_inv t"
    then consider "t' = t" | y where "t' = t\<lparr>t_signals := t_signals t @ [y]\<rparr>" "sg_id y = u" "u \<notin> sg_id ` set (t_signals t)"
      by (auto split: if_splits)
    then show "incident_inv t'"
    proof cases
      case 1
      with inv show ?thesis by simp
    next
      case 2
      have fresh: "u \<notin> set (map fst (signal_idents t))" using 2(3) by (auto simp: signal_idents_def image_iff)
      have idents: "signal_idents t' = signal_idents t @ [(u, sg_resource_id y, sg_check_type y)]"
        using 2 by (simp add: signal_idents_def)
      have "t_incidents t' = t_incidents t" "t_rule_states t' = t_rule_states t" using 2(1) by simp_all
      with inv fresh idents show ?thesis
        unfolding incident_inv_def points_to_def signal_at_def by auto
    qed
  qed
  have tl: "keeps t_timeline (Append input)" and inc: "keeps t_incidents (Append input)"
    by (rule keeps_Append, simp)+
  show ?thesis
  proof (rule alwaysI)
    fix w
    show "lawful [] (w_tables w) (w_tables (snd (Append input w)))"
      using preserves_snd [OF inv, of w] keeps_snd [OF tl, of w] keeps_snd [OF inc, of w]
      by (simp add: lawful_def stays_resolved_refl timeline_extends_def)
  qed
qed

lemma keeps_rule_mutate:
  assumes "\<And>t x. f (t\<lparr>t_rules := x\<rparr>) = f t" "\<And>t x. f (t\<lparr>t_conditions := x\<rparr>) = f t"
    "\<And>t x. f (t\<lparr>t_audit := x\<rparr>) = f t" "\<And>t x. f (t\<lparr>t_admin_keys := x\<rparr>) = f t"
  shows "keeps f (rule_mutate rt clock operation i input)"
proof -
  have cr: "keeps f (createRule input now)" for now
    unfolding createRule_def Let_def by (intro frame_intros) (auto simp: assms split: if_splits)
  have rr: "keeps f (readRule j)" for j unfolding readRule_def by (intro frame_intros)
  have rp: "keeps f (replaceRule j input now)" for j now
    unfolding replaceRule_def Let_def by (intro frame_intros rr) (auto simp: assms)
  have ic: "keeps f (insertCondition j c)" for j c
    unfolding insertCondition_def by (intro frame_intros) (auto simp: assms split: if_splits)
  show ?thesis
    unfolding rule_mutate_def applyRule_def Let_def
    by (intro frame_intros keeps_Replay keeps_validateRuleReferences cr rp ic rr audit_Append_only_audit keeps_Save) (simp_all add: assms)
qed

lemma lawful_rule_mutate: "always (lawful []) (rule_mutate rt clock operation i input)"
  by (intro lawful_core timeline_kept keeps_rule_mutate) (simp_all add: core_def signal_idents_def)

lemma keeps_worker_statements:
  assumes "\<And>t x. f (t\<lparr>t_intents := x\<rparr>) = f t"
  shows "keeps f (claim opts locked now)"
  unfolding claim_def by (intro frame_intros) (auto simp: assms Let_def split: option.splits)

lemma lawful_worker: "always (lawful []) (Worker_ProcessOnce opts random locked clock clock2)"
proof -
  have frame: "keeps core m \<Longrightarrow> keeps t_timeline m \<Longrightarrow> always (lawful []) m" for m :: "'a tx"
    by (rule lawful_core [OF _ timeline_kept])
  have entry: "always (lawful []) (notificationEntry i sm at)" for i sm at
    by (rule lawful_core [OF _ timeline_notificationEntry]) (rule keeps_notificationEntry, simp add: core_def)
  have attempt: "always (lawful []) (insertAttempt mk)" for mk
    by (rule frame) (rule keeps_insertAttempt, simp add: core_def signal_idents_def)+
  have intents: "always (lawful []) (tx_exec (\<lambda>t. t\<lparr>t_intents := g t\<rparr>))" for g
    by (rule frame) (intro frame_intros, simp add: core_def)+
  have affect: "always (lawful []) (tx_affect (\<lambda>t. (n t, t\<lparr>t_intents := g t\<rparr>)))" for n :: "tables \<Rightarrow> nat" and g
    by (rule frame) (intro frame_intros, simp add: core_def)+
  have pub: "always (lawful []) (publishDelivery a b st at)" for a b st at
    unfolding publishDelivery_def by (rule law.publish)
  have taken: "always (lawful []) (claim opts locked now)" for now
    by (rule frame) (rule keeps_worker_statements, simp add: core_def)+
  have completed: "always (lawful []) (complete opts random c result s e)" for c result s e
    unfolding complete_def complete_body_def Let_def by (intro law.composition entry attempt affect pub)
  have expired: "always (lawful []) (deadLetterExpiredClaim opts locked now)" for now
    unfolding deadLetterExpiredClaim_def by (intro law.composition entry attempt intents pub)
  show ?thesis unfolding Worker_ProcessOnce_def Let_def by (intro law.composition taken completed expired)
qed

section \<open>Runs of the engine\<close>

inductive engine_step :: "world \<Rightarrow> world \<Rightarrow> bool" where
  evaluate_pass: "op_Intents opts = Some (EnqueueIncidentEvent wallclock) \<Longrightarrow> (\<And>ys. mset (returning ys) = mset ys) \<Longrightarrow>
    engine_step w (snd (ProcessOnce opts lockedSignals returning lockedStates clock w))"
| operate: "engine_step w (snd (Mutate rt clock m w))"
| journal: "engine_step w (snd (Append input w))"
| administer: "engine_step w (snd (rule_mutate rt clock operation i input w))"
| deliver_pass: "engine_step w (snd (Worker_ProcessOnce wopts random locked clock clock2 w))"
| environment: "w_tables w' = w_tables w \<Longrightarrow> engine_step w w'"

inductive_cases engine_stepE: "engine_step w w'"

lemma engine_step_lawful: "engine_step w w' \<Longrightarrow> lawful [] (w_tables w) (w_tables w')"
proof (induction rule: engine_step.induct)
  case (evaluate_pass opts wallclock returning w lockedSignals lockedStates clock)
  show ?case by (rule alwaysD [OF outbox.lawful_ProcessOnce [OF evaluate_pass]])
qed (use alwaysD [OF lawful_Mutate] alwaysD [OF lawful_Append] alwaysD [OF lawful_rule_mutate]
    alwaysD [OF lawful_worker] law.refl in \<open>simp_all del: split_paired_All\<close>)

lemma engine_run_lawful: "engine_step\<^sup>*\<^sup>* w w' \<Longrightarrow> lawful [] (w_tables w) (w_tables w')"
proof (induction rule: rtranclp_induct)
  case base
  show ?case by (rule law.refl)
next
  case (step y z)
  from step.IH engine_step_lawful [OF step.hyps(2)] show ?case by (rule law.trans)
qed

section \<open>Properties of runs\<close>

text \<open>
  C1. The incident invariant holds in every state the engine reaches, however evaluator
  passes, operator actions, new signals, rule changes, delivery workers and database faults
  interleave: there is at most one unresolved incident per fingerprint, every rule state points
  to an unresolved incident of its own rule, resource and check or to none, every last signal
  is a signal of that resource and check, and the recovery and resolution instants agree with
  the status.
\<close>

theorem engine_invariant:
  assumes "engine_step\<^sup>*\<^sup>* w w'" and "incident_inv (w_tables w)"
  shows "incident_inv (w_tables w')"
  using engine_run_lawful [OF assms(1)] assms(2) by (simp add: lawful_def)

lemma sample_desk_inv: "incident_inv (w_tables sampleDesk)"
  by (simp add: incident_inv_def sampleDesk_def empty_tables_def incident_ok_def sampleIncident_def signal_idents_def)

theorem engine_invariant_witness: "incident_inv (w_tables (snd (Mutate sampleRuntime 5000 sampleMutation sampleDesk)))"
  by (rule engine_invariant [OF r_into_rtranclp [where r = engine_step, OF operate] sample_desk_inv])

text \<open>
  C2. Resolved is final and the timeline is append-only: along every run of the engine, a
  resolved incident stays resolved with the same resolution instant and fingerprint (only notes
  can still be added to it), and no timeline entry is ever changed, removed or reordered.
\<close>

theorem resolved_final_timeline_append_only:
  assumes "engine_step\<^sup>*\<^sup>* w w'" and "incident_inv (w_tables w)"
  shows "stays_resolved (t_incidents (w_tables w)) (t_incidents (w_tables w'))
    \<and> (\<exists>new. t_timeline (w_tables w') = t_timeline (w_tables w) @ new)"
  using engine_run_lawful [OF assms(1)] assms(2) by (simp add: lawful_def timeline_extends_def)

theorem resolved_final_timeline_append_only_witness:
  "\<exists>new. t_timeline (w_tables (snd (Mutate sampleRuntime 5000 sampleMutation sampleDesk))) = t_timeline (w_tables sampleDesk) @ new"
  using resolved_final_timeline_append_only [OF r_into_rtranclp [where r = engine_step, OF operate] sample_desk_inv] by blast

text \<open>
  C4. One signal, one recorded transition: evaluating a claimed signal opens at most one
  incident or moves at most one, along an edge of the lifecycle (recover an open, acknowledged
  or investigated incident, reopen a recovered one, or leave the status), advances its version
  by one, never touches a resolved incident, and appends a timeline entry with both ends for
  every change of status; if the transaction fails anywhere, nothing has changed.
\<close>

theorem signal_transition_recorded:
  assumes "incident_inv (w_tables w)"
  shows "recorded_step (t_incidents (w_tables w)) (t_timeline (w_tables w))
    (w_tables (snd (processSignal (Some (EnqueueIncidentEvent wallclock)) sig now w)))"
  using assms by (rule outbox.recorded_processSignal)

theorem signal_transition_recorded_witness:
  "recorded_step [sampleIncident] [] (w_tables (snd (processSignal (Some (EnqueueIncidentEvent 0)) sampleEvaluated 5000 sampleDesk)))"
proof -
  have "t_incidents (w_tables sampleDesk) = [sampleIncident]" "t_timeline (w_tables sampleDesk) = []"
    by (simp_all add: sampleDesk_def empty_tables_def)
  with signal_transition_recorded [OF sample_desk_inv, of 0 sampleEvaluated 5000] show ?thesis by simp
qed

section \<open>Signals are processed once\<close>

definition signal_done :: "string \<Rightarrow> tables \<Rightarrow> bool" where
  "signal_done i t \<longleftrightarrow> (\<forall>r \<in> set (t_signals t). sg_id r = i \<longrightarrow> settled r)"

definition accounted :: "signal \<Rightarrow> tables \<Rightarrow> bool" where
  "accounted sig t \<longleftrightarrow> s_ID sig \<in> sg_id ` set (t_signals t) \<and> signal_done (s_ID sig) t \<and> s_ID sig \<in> evd_signal_id ` set (t_evidence t)"

lemma triple_settled: "triple P (settle sig a b c d now x) (\<lambda>_. accounted sig)"
proof -
  let ?E = "\<lambda>t. s_ID sig \<in> evd_signal_id ` set (t_evidence t)"
  have ev: "triple P (appendEvaluationEvidence (s_ID sig) a b c d now) (\<lambda>_. ?E)"
    unfolding appendEvaluationEvidence_def by (rule triple_exec) auto
  have upd: "triple ?E (tx_affect (\<lambda>t. let p = (\<lambda>r. sg_id r = s_ID sig \<and> \<not> settled r)
        in (length (filter p (t_signals t)),
            t\<lparr>t_signals := update_where p (\<lambda>r. r\<lparr>sg_processed_at := Some (truncate_us now),
                 sg_claimed_until := None, sg_last_error_code := None\<rparr>) (t_signals t)\<rparr>))) (\<lambda>n t. n \<noteq> 0 \<longrightarrow> accounted sig t)"
  proof (rule triple_affect, unfold Let_def fst_conv snd_conv, rule impI)
    fix t :: tables
    let ?p = "\<lambda>r. sg_id r = s_ID sig \<and> \<not> settled r"
    let ?rows = "update_where ?p (\<lambda>r. r\<lparr>sg_processed_at := Some (truncate_us now),
      sg_claimed_until := None, sg_last_error_code := None\<rparr>) (t_signals t)"
    assume "?E t" and "length (filter ?p (t_signals t)) \<noteq> 0"
    have "map sg_id ?rows = map sg_id (t_signals t)" by (rule map_update_where) simp
    then have "sg_id ` set ?rows = sg_id ` set (t_signals t)" by (metis set_map)
    moreover have "s_ID sig \<in> sg_id ` set (t_signals t)"
      using \<open>length (filter ?p (t_signals t)) \<noteq> 0\<close> by (force simp: filter_empty_conv)
    moreover have "signal_done (s_ID sig) (t\<lparr>t_signals := ?rows\<rparr>)"
      by (auto simp: signal_done_def set_update_where settled_def)
    ultimately show "accounted sig (t\<lparr>t_signals := ?rows\<rparr>)" using \<open>?E t\<close> by (simp add: accounted_def)
  qed
  have mark: "triple ?E (MarkProcessed (s_ID sig) now) (\<lambda>_. accounted sig)"
    unfolding MarkProcessed_def by (rule triple_bind [OF upd], rule triple_if, rule triple_fail, rule triple_return) simp
  show ?thesis
    unfolding settle_def by (rule triple_bind [OF ev], rule triple_bind [OF mark], rule triple_return)
qed

lemma triple_any: "triple P m (\<lambda>_ _. True)"
  by (simp add: triple_def)

lemma triple_evaluateSignal_settles: "triple P (evaluateSignal intents sig now rule n) (\<lambda>_. accounted sig)"
  unfolding evaluateSignal_def Let_def
  by (rule triple_bind [OF triple_any], rule triple_if, rule triple_settled, rule triple_bind [OF triple_any],
      rule triple_if, rule triple_bind [OF triple_any], rule triple_settled, rule triple_bind [OF triple_any],
      rule triple_prod, rule triple_bind [OF triple_any], rule triple_prod, rule triple_settled)

definition pending :: "signal \<Rightarrow> tables \<Rightarrow> bool" where
  "pending sig t \<longleftrightarrow> (case find_row sg_id (s_ID sig) (t_signals t) of None \<Rightarrow> False | Some r \<Rightarrow> \<not> settled r)"

lemma triple_processSignal_settles: "triple (pending sig) (processSignal_body intents sig now) (\<lambda>_. accounted sig)"
proof -
  have row: "triple (pending sig) (tx_row (\<lambda>t. map_option (\<lambda>r. (sg_processed_at r, sg_dead_lettered_at r))
      (find_row sg_id (s_ID sig) (t_signals t)))) (\<lambda>(p, d) t. p = None \<and> d = None)"
    by (rule triple_row) (auto simp: pending_def settled_def split: option.splits)
  show ?thesis
    unfolding processSignal_body_def processMatched_def
    by (rule triple_bind [OF row], rule triple_prod, rule triple_if, rule triple_return, simp,
        rule triple_bind [OF triple_any], rule triple_sum, rule triple_if, rule triple_settled, rule triple_fail,
        rule triple_prod, rule triple_evaluateSignal_settles)
qed

lemma processSignal_body_commits:
  "processSignal_body intents sig now w = (Inr out, w') \<Longrightarrow> \<exists>ch. out = Commit ch"
proof -
  have st: "triple (\<lambda>_. True) (settle s a b c d e x) (\<lambda>out _. \<exists>ch. out = Commit ch)" for s a b c d e and x :: incidentChange
    unfolding settle_def by (rule triple_bind [OF triple_any], rule triple_bind [OF triple_any], rule triple_return) simp
  have ev: "triple (\<lambda>_. True) (evaluateSignal intents sig now rule n) (\<lambda>out _. \<exists>ch. out = Commit ch)" for rule n
    unfolding evaluateSignal_def Let_def
    by (rule triple_bind [OF triple_any], rule triple_if, rule st, rule triple_bind [OF triple_any],
      rule triple_if, rule triple_bind [OF triple_any], rule st, rule triple_bind [OF triple_any],
      rule triple_prod, rule triple_bind [OF triple_any], rule triple_prod, rule st)
  have "triple (\<lambda>_. True) (processSignal_body intents sig now) (\<lambda>out _. \<exists>ch. out = Commit ch)"
    unfolding processSignal_body_def processMatched_def
    by (rule triple_bind [OF triple_any], rule triple_prod, rule triple_if, rule triple_return, simp,
        rule triple_bind [OF triple_any], rule triple_sum, rule triple_if, rule st, rule triple_fail,
        rule triple_prod, rule ev)
  then show "processSignal_body intents sig now w = (Inr out, w') \<Longrightarrow> \<exists>ch. out = Commit ch"
    by (rule tripleD) simp_all
qed

text \<open>
  C3. A signal takes effect once. When evaluating a pending signal succeeds, the signal is
  settled and its evaluation is on record; evaluating it again, by any worker at any later time
  while its row is as it is now, reports no change and changes nothing. When evaluating it
  fails, the tables are as before, so the signal stays pending.
\<close>

theorem signal_takes_effect_once:
  assumes "pending sig (w_tables w)" and "processSignal intents sig now w = (result, w')"
  shows "case result of
      Inl e \<Rightarrow> w_tables w' = w_tables w
    | Inr ch \<Rightarrow> accounted sig (w_tables w')
        \<and> (\<forall>intents' now' w2. t_signals (w_tables w2) = t_signals (w_tables w') \<and> w_faults w2 = [] \<longrightarrow>
            processSignal intents' sig now' w2 = (Inr noChange, w2))"
proof (cases result)
  case (Inl e)
  with assms(2) show ?thesis by (auto simp: processSignal_def dest: in_tx_atomic)
next
  case (Inr ch)
  with assms(2) have "in_tx (processSignal_body intents sig now) w = (Inr ch, w')" by (simp add: processSignal_def)
  then obtain w1 where body: "processSignal_body intents sig now (tick w) = (Inr (Commit ch), w1)" and w': "w' = tick w1"
    unfolding in_tx_Inr using processSignal_body_commits by blast
  have acc: "accounted sig (w_tables w')"
    using tripleD [OF triple_processSignal_settles _ body] assms(1) w' by simp
  have again: "processSignal intents' sig now' w2 = (Inr noChange, w2)"
    if "t_signals (w_tables w2) = t_signals (w_tables w')" "w_faults w2 = []" for intents' now' w2
  proof -
    obtain r where r: "find_row sg_id (s_ID sig) (t_signals (w_tables w')) = Some r"
      using acc by (cases "find_row sg_id (s_ID sig) (t_signals (w_tables w'))") (auto simp: accounted_def find_row_def find_None_iff)
    have "settled r" using acc find_row_SomeD [OF r] by (simp add: accounted_def signal_done_def)
    with that r show ?thesis
      by (simp add: processSignal_def processSignal_body_def in_tx_run tx_bind_eval tx_row_run settled_def nofault_simps)
  qed
  from acc again Inr show ?thesis by simp
qed

definition samplePending :: signal_row where
  "samplePending = \<lparr> sg_id = s_ID sampleEvaluated, sg_source_key = ''observation:1'', sg_kind = ''observation'',
     sg_integration_id = s_IntegrationID sampleEvaluated, sg_resource_id = s_ResourceID sampleEvaluated,
     sg_observation_id = None, sg_check_type = s_CheckType sampleEvaluated, sg_state = s_State sampleEvaluated,
     sg_reason = s_Reason sampleEvaluated, sg_reason_code = None, sg_occurred_at = s_OccurredAt sampleEvaluated,
     sg_created_at = 0, sg_available_at = 0, sg_claimed_until = None, sg_attempts = 1, sg_processed_at = None,
     sg_dead_lettered_at = None, sg_last_error_code = None \<rparr>"

definition sampleJournal :: world where
  "sampleJournal = sampleDesk\<lparr>w_tables := (w_tables sampleDesk)\<lparr>t_signals := [samplePending]\<rparr>\<rparr>"

lemmas sample_journal_eval = sampleJournal_def samplePending_def sampleDesk_def empty_tables_def

lemma sample_processed:
  "\<exists>w'. processSignal None sampleEvaluated 5000 sampleJournal = (Inr noChange, w') \<and> w_faults w' = []"
  by (simp add: processSignal_def processSignal_body_def processMatched_def matchingRule_def settle_def
      appendEvaluationEvidence_def MarkProcessed_def tx_eval sample_journal_eval find_row_def first_by_def settled_def update_where_def cong: tx_frozen)

theorem signal_takes_effect_once_witness:
  "\<exists>w'. processSignal None sampleEvaluated 5000 sampleJournal = (Inr noChange, w') \<and> accounted sampleEvaluated (w_tables w')
    \<and> processSignal None sampleEvaluated 9000 w' = (Inr noChange, w')"
proof -
  obtain w' where run: "processSignal None sampleEvaluated 5000 sampleJournal = (Inr noChange, w')" and nf: "w_faults w' = []"
    using sample_processed by blast
  have "pending sampleEvaluated (w_tables sampleJournal)" by (simp add: pending_def sample_journal_eval settled_def)
  from signal_takes_effect_once [OF this run] run nf show ?thesis by simp
qed

section \<open>Maintenance\<close>

definition under_maintenance :: "signal \<Rightarrow> time \<Rightarrow> tables \<Rightarrow> bool" where
  "under_maintenance sig at t \<longleftrightarrow> '''' \<notin> mw_id ` set (t_windows t)
     \<and> (\<exists>m \<in> set (t_windows t). window_covers (s_IntegrationID sig) (s_ResourceID sig) (s_CheckType sig) at m)"

definition lifecycle :: "tables \<Rightarrow> incident_row list \<times> timeline_row list \<times> intent_row list" where
  "lifecycle t = (t_incidents t, t_timeline t, t_intents t)"

lemma activeMaintenance_found:
  "triple (\<lambda>t. under_maintenance sig at t \<and> P t) (activeMaintenance sig at) (\<lambda>mm t. mm_ID mm \<noteq> '''' \<and> P t)"
  unfolding activeMaintenance_def
proof (rule triple_query, elim conjE)
  fix t
  assume um: "under_maintenance sig at t" and P: "P t"
  let ?ws = "filter (window_covers (s_IntegrationID sig) (s_ResourceID sig) (s_CheckType sig) at) (t_windows t)"
  from um have "?ws \<noteq> []" by (auto simp: under_maintenance_def filter_empty_conv)
  then obtain m where m: "first_by window_precedence ?ws = Some m" by (cases "first_by window_precedence ?ws") simp_all
  from first_by_Some_in [OF m] um have "m \<in> set (t_windows t)" "'''' \<notin> mw_id ` set (t_windows t)"
    by (simp_all add: under_maintenance_def)
  then have "mw_id m \<noteq> ''''" by (metis imageI)
  with m P show "mm_ID (case first_by window_precedence ?ws of None \<Rightarrow> \<lparr> mm_ID = '''', mm_Reason = '''' \<rparr>
     | Some m \<Rightarrow> \<lparr> mm_ID = mw_id m, mm_Reason = mw_reason m \<rparr>) \<noteq> '''' \<and> P t" by simp
qed

definition no_effect :: "'a outcome \<Rightarrow> ('a \<Rightarrow> bool) \<Rightarrow> bool" where
  "no_effect out p \<longleftrightarrow> (case out of Commit x \<Rightarrow> p x | Rollback x \<Rightarrow> p x)"

lemma triple_settle_quietly:
  assumes "\<not> ic_Changed x"
  shows "triple (\<lambda>t. lifecycle t = l) (settle sig a b c d now x) (\<lambda>out t. no_effect out (\<lambda>ch. \<not> ic_Changed ch) \<and> lifecycle t = l)"
proof -
  have ev: "keeps lifecycle (appendEvaluationEvidence (s_ID sig) a b c d now)" by (rule keeps_evidence) (simp add: lifecycle_def)
  have mk: "keeps lifecycle (MarkProcessed (s_ID sig) now)" by (rule keeps_MarkProcessed) (simp add: lifecycle_def)
  have frame: "triple (\<lambda>t. lifecycle t = l) m (\<lambda>_ t. lifecycle t = l)" if "keeps lifecycle m" for m :: "unit tx"
    by (rule triple_preserves, rule preserves_of_keeps [OF _ that]) simp
  show ?thesis
    unfolding settle_def by (rule triple_bind [OF frame [OF ev]], rule triple_bind [OF frame [OF mk]], rule triple_return)
      (use assms in \<open>simp add: no_effect_def\<close>)
qed

lemma triple_maintained:
  "triple (\<lambda>t. under_maintenance sig (s_OccurredAt sig) t \<and> lifecycle t = l) (processSignal_body intents sig now)
     (\<lambda>out t. no_effect out (\<lambda>ch. \<not> ic_Changed ch) \<and> lifecycle t = l)"
proof -
  let ?M = "\<lambda>t. under_maintenance sig (s_OccurredAt sig) t \<and> lifecycle t = l"
  have frame: "triple ?M m (\<lambda>_. ?M)" if "keeps (\<lambda>t. (t_windows t, lifecycle t)) m" for m :: "'a tx"
    by (rule triple_preserves, rule preserves_of_keeps [OF _ that]) (simp add: under_maintenance_def)
  have quiet: "\<not> ic_Changed noChange" by (simp add: noChange_def)
  have st: "triple ?M (settle sig a b c d now noChange) (\<lambda>out t. no_effect out (\<lambda>ch. \<not> ic_Changed ch) \<and> lifecycle t = l)" for a b c d
    by (rule triple_strengthen [OF triple_settle_quietly [OF quiet]]) simp
  have lock: "triple ?M (lockRuleState k) (\<lambda>_. ?M)" for k
    by (rule frame) (rule keeps_lockRuleState, simp add: lifecycle_def)
  have save: "triple (\<lambda>t. lifecycle t = l) (saveRuleState k s now) (\<lambda>_ t. lifecycle t = l)" for k s
    unfolding saveRuleState_def by (rule triple_exec) (simp add: lifecycle_def)
  have st': "triple (\<lambda>t. lifecycle t = l) (settle sig a b c d now noChange) (\<lambda>out t. no_effect out (\<lambda>ch. \<not> ic_Changed ch) \<and> lifecycle t = l)" for a b c d
    by (rule triple_settle_quietly [OF quiet])
  have impossible: "triple (\<lambda>t. mm_ID mm \<noteq> '''' \<and> lifecycle t = l) m Q" if "\<not> mm_ID mm \<noteq> ''''" for mm Q and m :: "'a tx"
    using that by (simp add: triple_def)
  have ev: "triple ?M (evaluateSignal intents sig now rule n) (\<lambda>out t. no_effect out (\<lambda>ch. \<not> ic_Changed ch) \<and> lifecycle t = l)" for rule n
    unfolding evaluateSignal_def Let_def
    by (rule triple_bind [OF lock], rule triple_if, rule st, rule triple_bind [OF activeMaintenance_found], rule triple_if,
        rule triple_strengthen, rule triple_bind [OF save], rule st', simp, rule impossible, assumption)
  show ?thesis
    unfolding processSignal_body_def processMatched_def
    by (rule triple_bind [where R = "\<lambda>_. ?M"], rule triple_row, assumption, rule triple_prod, rule triple_if, rule triple_return,
        simp add: no_effect_def noChange_def,
        rule triple_bind [OF frame [OF kept.attempt [folded keeps_def, OF keeps_matchingRule(1)]]],
        rule triple_sum, rule triple_if, rule st, rule triple_fail, rule triple_prod, rule ev)
qed

text \<open>
  C13. Maintenance suppresses alerting: a signal that occurred inside an enabled, unrevoked
  maintenance window covering its integration, resource and check opens, updates or recovers no
  incident, writes no timeline entry and enqueues no notification, whatever the rule and the
  stored state say.
\<close>

theorem maintenance_suppresses:
  assumes "under_maintenance sig (s_OccurredAt sig) (w_tables w)"
    and "processSignal intents sig now w = (result, w')"
  shows "t_incidents (w_tables w') = t_incidents (w_tables w) \<and> t_timeline (w_tables w') = t_timeline (w_tables w)
    \<and> t_intents (w_tables w') = t_intents (w_tables w) \<and> (\<forall>ch. result = Inr ch \<longrightarrow> \<not> ic_Changed ch)"
proof -
  have body: "no_effect out (\<lambda>ch. \<not> ic_Changed ch) \<and> lifecycle (w_tables w1) = lifecycle (w_tables w)"
    if "processSignal_body intents sig now (tick w) = (Inr out, w1)" for out w1
    by (rule tripleD [OF triple_maintained _ that]) (use assms(1) in simp)
  have commit: "\<not> ic_Changed ch \<and> lifecycle (w_tables w1) = lifecycle (w_tables w)"
    if "processSignal_body intents sig now (tick w) = (Inr (Commit ch), w1)" for ch w1
    using body [OF that] by (simp add: no_effect_def)
  have rollback: "\<not> ic_Changed ch" if "processSignal_body intents sig now (tick w) = (Inr (Rollback ch), w1)" for ch w1
    using body [OF that] by (simp add: no_effect_def)
  have "lifecycle (w_tables w') = lifecycle (w_tables w) \<and> (\<forall>ch. result = Inr ch \<longrightarrow> \<not> ic_Changed ch)"
    using assms(2) by (auto simp: processSignal_def in_tx_def dest: commit rollback split: prod.splits sum.splits outcome.splits if_splits)
  then show ?thesis by (simp add: lifecycle_def)
qed

definition sampleWindow :: window_row where
  "sampleWindow = \<lparr> mw_id = ''90000000-0000-4000-8000-000000000001'', mw_reason = ''upgrade'', mw_integration_id = None,
     mw_resource_id = Some (s_ResourceID sampleEvaluated), mw_check_type = None, mw_starts_at = 0,
     mw_ends_at = 9000000, mw_enabled = True, mw_revoked_at = None, mw_expired_at = None, mw_created_by_user_id = None,
     mw_created_by_name = ''Ada'', mw_version = 1, mw_created_at = 0, mw_updated_at = 0 \<rparr>"

theorem maintenance_suppresses_witness:
  "t_incidents (w_tables (snd (processSignal None sampleEvaluated 5000
     (sampleJournal\<lparr>w_tables := (w_tables sampleJournal)\<lparr>t_windows := [sampleWindow]\<rparr>\<rparr>)))) = [sampleIncident]"
proof -
  let ?w = "sampleJournal\<lparr>w_tables := (w_tables sampleJournal)\<lparr>t_windows := [sampleWindow]\<rparr>\<rparr>"
  have "under_maintenance sampleEvaluated (s_OccurredAt sampleEvaluated) (w_tables ?w)"
    by (simp add: under_maintenance_def sampleWindow_def window_covers_def sampleEvaluated_def admits_def)
  moreover have "t_incidents (w_tables ?w) = [sampleIncident]" by (simp add: sample_journal_eval)
  ultimately show ?thesis using maintenance_suppresses [of sampleEvaluated ?w] by (metis prod.collapse)
qed

section \<open>Debouncing refines counting streaks\<close>

text \<open>
  The history of a rule state, newest first: the states and instants of the signals evaluated
  for it. A streak is the run of equal states at its end.
\<close>

type_synonym history = "(state \<times> time) list"

definition streak :: "history \<Rightarrow> history" where
  "streak hs = takeWhile (\<lambda>h. fst h = fst (hd hs)) hs"

definition streak_start :: "history \<Rightarrow> time" where
  "streak_start hs = snd (last (streak hs))"

definition streak_length :: "history \<Rightarrow> int" where
  "streak_length hs = int (length (streak hs))"

text \<open>The stored counters count the current streak, on the side it is on.\<close>

definition counted :: "(state \<Rightarrow> condition option) \<Rightarrow> state \<Rightarrow> history \<Rightarrow> ruleState \<Rightarrow> bool" where
  "counted cond recovery hs s \<longleftrightarrow>
     (if hs = [] then rst_MatchingSince s = None \<and> rst_RecoverySince s = None
      else rst_LastState s = fst (hd hs)
        \<and> (if fst (hd hs) = recovery
           then rst_MatchingSince s = None \<and> rst_RecoverySince s = Some (streak_start hs)
             \<and> rst_RecoveryOccurrences s = streak_length hs
           else rst_RecoverySince s = None
             \<and> (if cond (fst (hd hs)) = None then rst_MatchingSince s = None
                else rst_MatchingSince s = Some (streak_start hs) \<and> rst_MatchingOccurrences s = streak_length hs)))"

lemma streak_Cons:
  "streak ((st, at) # hs) = (st, at) # (if hs \<noteq> [] \<and> fst (hd hs) = st then streak hs else [])"
  by (cases hs) (auto simp: streak_def)

lemma streak_nonempty: "hs \<noteq> [] \<Longrightarrow> streak hs \<noteq> []"
  by (cases hs) (auto simp: streak_def)

lemma streak_start_Cons:
  "streak_start ((st, at) # hs) = (if hs \<noteq> [] \<and> fst (hd hs) = st then streak_start hs else at)"
  using streak_nonempty [of hs] by (simp add: streak_start_def streak_Cons)

lemma streak_length_Cons:
  "streak_length ((st, at) # hs) = (if hs \<noteq> [] \<and> fst (hd hs) = st then streak_length hs + 1 else 1)"
  by (simp add: streak_length_def streak_Cons)

text \<open>The abstract machine: what a streak that has lasted long enough calls for.\<close>

datatype call = Open condition | Recover | Await time | Nothing

definition call_for :: "rule \<Rightarrow> history \<Rightarrow> time \<Rightarrow> call" where
  "call_for rule hs now =
     (if fst (hd hs) = ru_RecoveryState rule then
        if streak_length hs < ru_RecoveryMinOccurrences rule then Nothing
        else if streak_start hs + ru_RecoveryFor rule \<le> now then Recover
        else Await (streak_start hs + ru_RecoveryFor rule)
      else case ru_Condition rule of
        None \<Rightarrow> Nothing
      | Some c \<Rightarrow>
          if streak_length hs < cn_MinOccurrences c then Nothing
          else if streak_start hs + cn_For c \<le> now then Open c
          else Await (streak_start hs + cn_For c))"

definition answer_call :: "call \<Rightarrow> signal \<Rightarrow> rule \<Rightarrow> ruleState \<Rightarrow> string \<Rightarrow> time \<Rightarrow> intents \<Rightarrow> (incidentChange \<times> ruleState) tx" where
  "answer_call c sig rule s n now intents = (case c of
       Open cond \<Rightarrow> openOrUpdateIncident sig rule cond (s\<lparr>rst_DeadlineAt := None\<rparr>) n now intents
     | Recover \<Rightarrow> recoverIncident sig rule (s\<lparr>rst_DeadlineAt := None\<rparr>) n now intents
     | Await due \<Rightarrow> tx_return (unchanged sig now, s\<lparr>rst_DeadlineAt := Some due\<rparr>)
     | Nothing \<Rightarrow> tx_return (unchanged sig now, s\<lparr>rst_DeadlineAt := None\<rparr>))"

text \<open>
  C8. The debouncing of the evaluator refines counting streaks. When the stored counters
  count the current streak of the history of a rule state, evaluating the next signal does what
  the streak extended by that signal calls for (open or update the incident once the streak has
  the rule's minimum length and age, recover it once the recovery streak has, arm a deadline
  when only time is missing, nothing otherwise), and the counters it leaves count the extended
  streak.
\<close>

theorem debounce_refines_streaks:
  assumes "counted cond (ru_RecoveryState rule) hs s" and "ru_Condition rule = cond (s_State sig)"
  shows "\<exists>s'. counted cond (ru_RecoveryState rule) ((s_State sig, s_OccurredAt sig) # hs) (s'\<lparr>rst_LastState := s_State sig\<rparr>)
    \<and> rst_ActiveIncidentID s' = rst_ActiveIncidentID s
    \<and> evaluate sig rule s n now False intents =
        answer_call (call_for rule ((s_State sig, s_OccurredAt sig) # hs) now) sig rule s' n now intents"
proof -
  let ?st = "s_State sig" and ?at = "s_OccurredAt sig"
  let ?hs = "(?st, ?at) # hs"
  consider (recovery) "?st = ru_RecoveryState rule" | (idle) "?st \<noteq> ru_RecoveryState rule" "ru_Condition rule = None"
    | (breach) c where "?st \<noteq> ru_RecoveryState rule" "ru_Condition rule = Some c"
    by blast
  then show ?thesis
  proof cases
    case recovery
    let ?s = "s\<lparr>rst_MatchingSince := None, rst_DeadlineAt := None, rst_MatchingOccurrences := 0,
      rst_RecoverySince := Some (streak_start ?hs), rst_RecoveryOccurrences := streak_length ?hs\<rparr>"
    have ongoing: "rst_LastState s = ?st \<and> rst_RecoverySince s \<noteq> None \<longleftrightarrow> hs \<noteq> [] \<and> fst (hd hs) = ?st"
      using assms(1) recovery by (auto simp: counted_def split: if_splits)
    have same: "hs \<noteq> [] \<and> fst (hd hs) = ?st \<Longrightarrow> rst_RecoverySince s = Some (streak_start hs) \<and> rst_RecoveryOccurrences s = streak_length hs"
      using assms(1) recovery by (auto simp: counted_def split: if_splits)
    have "evaluate sig rule s n now False intents = answer_call (call_for rule ?hs now) sig rule ?s n now intents"
    proof (cases "hs \<noteq> [] \<and> fst (hd hs) = ?st")
      case True
      with ongoing have l: "rst_LastState s = ru_RecoveryState rule" using recovery by simp
      from True same [OF True] l show ?thesis
        by (cases s) (simp add: evaluate_def Let_def recovery [symmetric] call_for_def answer_call_def streak_start_Cons streak_length_Cons)
    next
      case False
      then have new: "streak_start ?hs = ?at" "streak_length ?hs = 1" by (auto simp: streak_start_Cons streak_length_Cons)
      from False ongoing have "rst_LastState s = ?st \<longrightarrow> rst_RecoverySince s = None" by blast
      with recovery show ?thesis
        by (cases "rst_LastState s = ?st"; cases s) (simp_all add: evaluate_def Let_def call_for_def answer_call_def new [unfolded recovery])
    qed
    moreover have "counted cond (ru_RecoveryState rule) ?hs (?s\<lparr>rst_LastState := ?st\<rparr>)" using recovery by (simp add: counted_def)
    ultimately show ?thesis by (intro exI [of _ ?s]) simp
  next
    case idle
    let ?s = "s\<lparr>rst_RecoverySince := None, rst_RecoveryOccurrences := 0, rst_MatchingSince := None, rst_DeadlineAt := None,
      rst_MatchingOccurrences := 0\<rparr>"
    have "evaluate sig rule s n now False intents = answer_call (call_for rule ?hs now) sig rule ?s n now intents"
      using idle by (cases s) (simp add: evaluate_def Let_def call_for_def answer_call_def)
    moreover have "counted cond (ru_RecoveryState rule) ?hs (?s\<lparr>rst_LastState := ?st\<rparr>)" using idle assms(2) by (simp add: counted_def)
    ultimately show ?thesis by (intro exI [of _ ?s]) simp
  next
    case breach
    let ?s = "s\<lparr>rst_RecoverySince := None, rst_RecoveryOccurrences := 0,
      rst_MatchingSince := Some (streak_start ?hs), rst_MatchingOccurrences := streak_length ?hs\<rparr>"
    have ongoing: "rst_LastState s = ?st \<and> rst_MatchingSince s \<noteq> None \<longleftrightarrow> hs \<noteq> [] \<and> fst (hd hs) = ?st"
      using assms breach by (auto simp: counted_def split: if_splits)
    have same: "hs \<noteq> [] \<and> fst (hd hs) = ?st \<Longrightarrow> rst_MatchingSince s = Some (streak_start hs) \<and> rst_MatchingOccurrences s = streak_length hs"
      using assms breach by (auto simp: counted_def split: if_splits)
    have "evaluate sig rule s n now False intents = answer_call (call_for rule ?hs now) sig rule ?s n now intents"
    proof (cases "hs \<noteq> [] \<and> fst (hd hs) = ?st")
      case True
      with ongoing have l: "rst_LastState s = ?st" by simp
      from True same [OF True] breach l show ?thesis
        by (cases s) (simp add: evaluate_def Let_def call_for_def answer_call_def streak_start_Cons streak_length_Cons not_le [symmetric])
    next
      case False
      then have new: "streak_start ?hs = ?at" "streak_length ?hs = 1" by (auto simp: streak_start_Cons streak_length_Cons)
      from False ongoing have "rst_LastState s = ?st \<longrightarrow> rst_MatchingSince s = None" by blast
      with breach show ?thesis
        by (cases "rst_LastState s = ?st"; cases s) (simp_all add: evaluate_def Let_def call_for_def answer_call_def new not_le [symmetric])
    qed
    moreover have "counted cond (ru_RecoveryState rule) ?hs (?s\<lparr>rst_LastState := ?st\<rparr>)" using breach assms(2) by (simp add: counted_def)
    ultimately show ?thesis by (intro exI [of _ ?s]) simp
  qed
qed

definition sampleRuleView :: rule where
  "sampleRuleView = \<lparr> ru_ID = ''20000000-0000-4000-8000-000000000001'', ru_Name = ''Default'', ru_RecoveryState = Healthy,
     ru_RecoveryMinOccurrences = 1, ru_RecoveryFor = 0,
     ru_Condition = Some \<lparr> cn_Severity = SeverityCritical, cn_MinOccurrences = 2, cn_For = 0 \<rparr> \<rparr>"

definition sampleState :: ruleState where
  "sampleState = (scan_state (new_rule_state (''r'', ''s'', ''c'') 0))"

theorem debounce_refines_streaks_witness:
  "\<exists>s'. rst_ActiveIncidentID s' = '''' \<and> evaluate sampleEvaluated sampleRuleView sampleState ''db'' 2000000 False None =
     answer_call Nothing sampleEvaluated sampleRuleView s' ''db'' 2000000 None"
proof -
  have "counted (\<lambda>_. ru_Condition sampleRuleView) (ru_RecoveryState sampleRuleView) [] sampleState"
    by (simp add: counted_def sampleState_def scan_state_def new_rule_state_def)
  from debounce_refines_streaks [OF this, of sampleEvaluated "''db''" 2000000 None]
  obtain s' where "rst_ActiveIncidentID s' = rst_ActiveIncidentID sampleState"
    "evaluate sampleEvaluated sampleRuleView sampleState ''db'' 2000000 False None =
      answer_call (call_for sampleRuleView [(s_State sampleEvaluated, s_OccurredAt sampleEvaluated)] 2000000) sampleEvaluated sampleRuleView s' ''db'' 2000000 None"
    by blast
  moreover have "call_for sampleRuleView [(s_State sampleEvaluated, s_OccurredAt sampleEvaluated)] 2000000 = Nothing"
    by (simp add: call_for_def sampleRuleView_def sampleEvaluated_def streak_length_def streak_def)
  ultimately show ?thesis by (auto simp: sampleState_def scan_state_def new_rule_state_def)
qed

section \<open>Deadlines\<close>

definition disarmed :: "state_key \<Rightarrow> tables \<Rightarrow> bool" where
  "disarmed k t \<longleftrightarrow> (\<forall>r \<in> set (t_rule_states t). state_key r = k \<longrightarrow> st_deadline_at r = None)"

lemma triple_save_disarms:
  "rst_DeadlineAt s = None \<Longrightarrow> triple P (saveRuleState k s now) (\<lambda>_. disarmed k)"
  unfolding saveRuleState_def by (rule triple_exec) (auto simp: disarmed_def set_update_where store_state_def)

lemma triple_evaluateDue_disarms: "triple P (evaluateDue intents now k) (\<lambda>_. disarmed k)"
proof -
  have fin: "triple (disarmed k) (tx_return x) (\<lambda>_. disarmed k)" for x :: "(incidentChange \<times> bool) outcome"
    by (rule triple_return)
  have sus: "rst_DeadlineAt (suspend m s) = None" for m s by (simp add: suspend_def)
  have clr: "rst_DeadlineAt (s\<lparr>rst_DeadlineAt := None\<rparr>) = None" for s by simp
  show ?thesis
    unfolding evaluateDue_def
    by (rule triple_bind [OF triple_any], rule triple_bind [OF triple_any], rule triple_bind [OF triple_any],
        rule triple_sum, rule triple_if, rule triple_bind [OF triple_save_disarms [OF clr]], rule fin, rule triple_fail,
        rule triple_prod, rule triple_bind [OF triple_any], rule triple_if, rule triple_bind [OF triple_save_disarms [OF sus]], rule fin,
        rule triple_bind [OF triple_any], rule triple_prod, rule triple_bind [OF triple_save_disarms [OF clr]], rule fin)
qed

definition due_count :: "time \<Rightarrow> tables \<Rightarrow> nat" where
  "due_count now t = length (filter (is_due now) (t_rule_states t))"

text \<open>What a due evaluation leaves alone: every other rule state; its own is disarmed.\<close>

definition only_state :: "state_key \<Rightarrow> tables \<Rightarrow> tables \<Rightarrow> bool" where
  "only_state k a b \<longleftrightarrow> (k \<in> state_key ` set (t_rule_states a) \<longrightarrow>
     (\<exists>f. t_rule_states b = update_where (\<lambda>r. state_key r = k) f (t_rule_states a) \<and> (\<forall>r. state_key (f r) = state_key r)))"

lemma update_where_id: "update_where p (\<lambda>r. r) rows = rows"
  by (induction rows) (simp_all add: update_where_def)

lemma update_where_comp:
  "(\<And>r. p (f r) = p r) \<Longrightarrow> update_where p g (update_where p f rows) = update_where p (\<lambda>r. g (f r)) rows"
  by (induction rows) (simp_all add: update_where_def)

interpretation state_only: tx_relation "only_state k" for k
proof
  show "only_state k t t" for t unfolding only_state_def by (metis update_where_id)
  fix a b c
  assume ab: "only_state k a b" and bc: "only_state k b c"
  show "only_state k a c"
    unfolding only_state_def
  proof (intro impI)
    assume k: "k \<in> state_key ` set (t_rule_states a)"
    with ab obtain f where f: "t_rule_states b = update_where (\<lambda>r. state_key r = k) f (t_rule_states a)" "\<And>r. state_key (f r) = state_key r"
      by (auto simp: only_state_def)
    have "map state_key (t_rule_states b) = map state_key (t_rule_states a)"
      unfolding f(1) by (rule map_update_where) (rule f(2))
    with k have "k \<in> state_key ` set (t_rule_states b)" by (metis set_map)
    with bc obtain g where g: "t_rule_states c = update_where (\<lambda>r. state_key r = k) g (t_rule_states b)" "\<And>r. state_key (g r) = state_key r"
      by (auto simp: only_state_def)
    have "t_rule_states c = update_where (\<lambda>r. state_key r = k) (\<lambda>r. g (f r)) (t_rule_states a)"
      unfolding g(1) f(1) by (rule update_where_comp) (simp add: f(2))
    then show "\<exists>f. t_rule_states c = update_where (\<lambda>r. state_key r = k) f (t_rule_states a) \<and> (\<forall>r. state_key (f r) = state_key r)"
      using f(2) g(2) by auto
  qed
qed

lemma state_only_kept: "keeps t_rule_states m \<Longrightarrow> always (only_state k) m"
  unfolding keeps_def always_def only_state_def by (metis update_where_id)

lemma state_only_lock: "always (only_state k) (lockRuleState k)"
proof -
  have "always (only_state k) (tx_insert (\<lambda>u c t. Inr ((),
       if k \<in> state_key ` set (t_rule_states t) then t
       else t\<lparr>t_rule_states := t_rule_states t @ [new_rule_state k c]\<rparr>)))"
  proof (rule state_only.insert)
    fix u c t x t'
    assume "Inr ((), if k \<in> state_key ` set (t_rule_states t) then t
       else t\<lparr>t_rule_states := t_rule_states t @ [new_rule_state k c]\<rparr>) = (Inr (x, t') :: err + unit \<times> tables)"
    then show "only_state k t t'"
      by (cases "k \<in> state_key ` set (t_rule_states t)") (auto simp: state_only.refl, simp add: only_state_def)
  qed
  then show ?thesis unfolding lockRuleState_def by (intro state_only.composition)
qed

lemma state_only_save: "always (only_state k) (saveRuleState k s now)"
  unfolding saveRuleState_def
  by (rule state_only.exec) (auto simp: only_state_def intro!: exI [of _ "store_state s now"])

context intent_writer
begin

lemma state_only_evaluateDue: "always (only_state k) (evaluateDue intents now k)"
proof -
  have "keeps t_rule_states (evaluate sig rule s n now d intents)" for sig rule s n d
    by (rule keeps_evaluate) simp_all
  then show ?thesis
    unfolding evaluateDue_def
    by (intro state_only.composition state_only_lock state_only_save state_only.attempt state_only_kept keeps_matchingRule keeps_activeMaintenance)
qed

end

lemma due_count_less:
  assumes "only_state k a b" and "disarmed k b" and "r \<in> set (t_rule_states a)" and "state_key r = k" and "is_due now r"
  shows "due_count now b < due_count now a"
proof -
  have "k \<in> state_key ` set (t_rule_states a)" using assms(3,4) by blast
  with assms(1) obtain f where b: "t_rule_states b = update_where (\<lambda>r. state_key r = k) f (t_rule_states a)"
    and keys: "\<And>r. state_key (f r) = state_key r"
    unfolding only_state_def by blast
  have off: "\<not> is_due now (f x)" if "x \<in> set (t_rule_states a)" "state_key x = k" for x
  proof -
    have "f x \<in> set (t_rule_states b)" unfolding b set_update_where using that by force
    with assms(2) that(2) keys [of x] have "st_deadline_at (f x) = None" by (simp add: disarmed_def)
    then show ?thesis by (simp add: is_due_def)
  qed
  let ?g = "\<lambda>x. if is_due now x then 1 else (0::nat)"
  have len: "length (filter p xs) = (\<Sum>x \<leftarrow> xs. if p x then 1 else 0)" for p and xs :: "'a list"
    by (induction xs) simp_all
  have "(\<Sum>x \<leftarrow> update_where (\<lambda>r. state_key r = k) f (t_rule_states a). ?g x) < (\<Sum>x \<leftarrow> t_rule_states a. ?g x)"
    by (rule sum_update_less [where y = r]) (use off assms(3-5) in auto)
  then show ?thesis by (simp add: due_count_def len b)
qed

lemma processOneDue_progress:
  assumes "processOneDue (Some (EnqueueIncidentEvent wc)) locked now w = (Inr (ch, found), w')"
  shows "if found then due_count now (w_tables w') < due_count now (w_tables w) else w_tables w' = w_tables w"
proof (cases "first_by due_order (filter (\<lambda>r. is_due now r \<and> \<not> locked (state_key r)) (t_rule_states (w_tables w)))")
  case None
  with assms show ?thesis by (auto simp: processOneDue_def in_tx_Inr tx_bind_Inr tx_query_Inr)
next
  case (Some r)
  let ?k = "state_key r" and ?intents = "Some (EnqueueIncidentEvent wc)"
  have r: "r \<in> set (t_rule_states (w_tables w))" "is_due now r" using first_by_Some_in [OF Some] by simp_all
  have tail: "\<exists>c. out = Commit c \<and> snd c" if "evaluateDue ?intents now ?k v = (Inr out, v')" for v out v'
  proof -
    have "triple (\<lambda>_. True) (evaluateDue ?intents now ?k) (\<lambda>out _. \<exists>c. out = Commit c \<and> snd c)"
      unfolding evaluateDue_def
      by (rule triple_bind [OF triple_any], rule triple_bind [OF triple_any], rule triple_bind [OF triple_any],
        rule triple_sum, rule triple_if, rule triple_bind [OF triple_any], rule triple_return, simp, rule triple_fail,
        rule triple_prod, rule triple_bind [OF triple_any], rule triple_if, rule triple_bind [OF triple_any], rule triple_return, simp,
        rule triple_bind [OF triple_any], rule triple_prod, rule triple_bind [OF triple_any], rule triple_return, simp)
    from tripleD [OF this _ that] show ?thesis by simp
  qed
  obtain v v' where v: "w_tables v = w_tables w" and w': "w_tables w' = w_tables v'"
    and run: "evaluateDue ?intents now ?k v = (Inr (Commit (ch, found)), v')"
  proof -
    from assms obtain out v' where out: "evaluateDue ?intents now ?k (tick (tick w)) = (Inr out, v')"
      and ends: "out = Commit (ch, found) \<and> w' = tick v' \<or> out = Rollback (ch, found)"
      unfolding processOneDue_def in_tx_Inr by (auto simp: tx_bind_Inr tx_query_Inr Some)
    from tail [OF out] ends that [of "tick (tick w)" v'] out show thesis by auto
  qed
  have "found" using tail [OF run] by simp
  moreover have "due_count now (w_tables v') < due_count now (w_tables v)"
  proof (rule due_count_less)
    show "only_state ?k (w_tables v) (w_tables v')" using alwaysD [OF outbox.state_only_evaluateDue [of ?k wc now], of v] run by simp
    show "disarmed ?k (w_tables v')" by (rule tripleD [OF triple_evaluateDue_disarms [where P = "\<lambda>_. True"] _ run]) simp
  qed (use r v in simp_all)
  ultimately show ?thesis using v w' by simp
qed

text \<open>
  Every due evaluation consumes a deadline: when \<open>processOneDue\<close> reports that it found a
  due rule state, one fewer state is due at that instant, and when it reports none the tables
  are untouched; so the loop of \<open>processDue\<close> stops by itself after at most as many rounds as
  states are due, whatever its limit.
\<close>

theorem due_evaluation_consumes_deadline:
  assumes "processOneDue (Some (EnqueueIncidentEvent wc)) locked now w = (Inr (ch, found), w')"
  shows "if found then due_count now (w_tables w') < due_count now (w_tables w) else w_tables w' = w_tables w"
  using assms by (rule processOneDue_progress)

definition sampleArmed :: rule_state_row where
  "sampleArmed = (new_rule_state (''20000000-0000-4000-8000-000000000001'', s_ResourceID sampleEvaluated, s_CheckType sampleEvaluated) 0)
     \<lparr> st_last_signal_id := Some (s_ID sampleEvaluated), st_last_signal_at := Some (s_OccurredAt sampleEvaluated),
       st_last_state := Some Critical, st_last_reason := Some ''down'', st_matching_since := Some (s_OccurredAt sampleEvaluated),
       st_matching_occurrences := 3, st_deadline_at := Some 2000000 \<rparr>"

definition sampleLengthened :: condition_row where
  "sampleLengthened = \<lparr> cd_rule_id = ''20000000-0000-4000-8000-000000000001'', cd_state = Critical, cd_severity = SeverityCritical,
     cd_min_occurrences = 1, cd_for_seconds = 60 \<rparr>"

definition sampleDue :: world where
  "sampleDue = sampleJournal\<lparr>w_tables := (w_tables sampleJournal)\<lparr> t_incidents := [], t_resources := [sampleResource],
     t_rules := [sampleRule], t_conditions := [sampleLengthened], t_rule_states := [sampleArmed] \<rparr>\<rparr>"

lemmas due_eval = processOneDue_def evaluateDue_def lockRuleState_def saveRuleState_def matchingRuleByID_def activeMaintenance_def
  evaluate_def store_state_def unchanged_def noChange_def tx_eval first_by_def is_due_def state_key_def find_row_def update_where_def
  scan_state_def scan_signal_def rule_matches_def admits_def rule_of_def condition_key_def

lemmas sample_due_eval = sampleDue_def sample_journal_eval sampleArmed_def sampleLengthened_def sampleEvaluated_def
  new_rule_state_def sampleResource_def sampleRule_def new_rule_row_def second_def

text \<open>
  A due deadline is dropped instead of rearmed. On this state a deadline was armed and the
  rule was then lengthened to a minute: the streak calls for waiting until the minute has
  passed, and the due evaluation nevertheless stores the state with no deadline at all. Nothing
  evaluates the state again until another signal arrives, so a resource that stays silent in a
  failed state never opens the incident. (The code computes the new deadline in \<open>evaluate\<close> and
  clears it before \<open>saveRuleState\<close>.)
\<close>

theorem rearmed_deadline_dropped:
  "\<exists>ch w'. processOneDue (Some (EnqueueIncidentEvent 0)) (\<lambda>_. False) 5000000 sampleDue = (Inr (ch, True), w')
    \<and> \<not> ic_Changed ch \<and> map st_deadline_at (t_rule_states (w_tables w')) = [None]
    \<and> map st_matching_since (t_rule_states (w_tables w')) = [Some 1000000] \<and> t_incidents (w_tables w') = []
    \<and> call_for (rule_of (w_tables sampleDue) Critical sampleRule) (replicate 3 (Critical, 1000000)) 5000000
        = Await (1000000 + 60 * second)"
proof -
  have "call_for (rule_of (w_tables sampleDue) Critical sampleRule) (replicate 3 (Critical, 1000000)) 5000000
        = Await (1000000 + 60 * second)"
    by code_simp
  then show ?thesis by (simp add: due_eval sample_due_eval cong: tx_frozen)
qed

theorem due_evaluation_consumes_deadline_witness:
  "\<exists>ch w'. processOneDue (Some (EnqueueIncidentEvent 0)) (\<lambda>_. False) 5000000 sampleDue = (Inr (ch, True), w')
    \<and> due_count 5000000 (w_tables w') < due_count 5000000 (w_tables sampleDue)"
proof -
  obtain ch w' where run: "processOneDue (Some (EnqueueIncidentEvent 0)) (\<lambda>_. False) 5000000 sampleDue = (Inr (ch, True), w')"
    by (simp add: due_eval sample_due_eval cong: tx_frozen)
  from due_evaluation_consumes_deadline [OF run] run show ?thesis by auto
qed

end
