(* ===== verification/Suppressions.thy ===== *)
theory Suppressions
  imports Notification_Outbox
begin

text \<open>
  Package \<open>suppressions\<close> (\<open>core/internal/suppressions/service.go\<close>, \<open>worker.go\<close>): maintenance
  windows, which keep the evaluator from opening incidents, and silences, which keep the
  notification writer from sending. The service creates, replaces and revokes both under
  optimistic versions and idempotency receipts; the worker expires what has ended. Whenever a
  running window stops covering a check, synthetic signals are appended to the journal in the
  same transaction, so that the evaluator looks at the check again.

  Instants bound to a \<open>timestamptz\<close> parameter are cut to whole microseconds. Two parameters
  stand for what PostgreSQL leaves open: \<open>arrange\<close>, the order of the rows of a query without
  \<open>ORDER BY\<close>, and \<open>locked\<close>, the rows other sessions hold when the worker skips locked rows.
\<close>

section \<open>Types\<close>

record maintenance_window =
  win_ID :: string
  win_Reason :: string
  win_IntegrationID :: string
  win_ResourceID :: string
  win_CheckType :: string
  win_StartsAt :: time
  win_EndsAt :: time
  win_Enabled :: bool
  win_RevokedAt :: "time option"
  win_ExpiredAt :: "time option"
  win_CreatedByName :: string
  win_Version :: int
  win_CreatedAt :: time
  win_UpdatedAt :: time

record maintenance_definition =
  mdf_Reason :: string
  mdf_IntegrationID :: string
  mdf_ResourceID :: string
  mdf_CheckType :: string
  mdf_StartsAt :: time
  mdf_EndsAt :: time
  mdf_Enabled :: bool

record silence =
  sil_ID :: string
  sil_Reason :: string
  sil_IncidentID :: string
  sil_RuleID :: string
  sil_ResourceID :: string
  sil_StartsAt :: time
  sil_ExpiresAt :: time
  sil_Enabled :: bool
  sil_RevokedAt :: "time option"
  sil_ExpiredAt :: "time option"
  sil_CreatedByName :: string
  sil_Version :: int
  sil_CreatedAt :: time
  sil_UpdatedAt :: time

record silence_definition =
  sdf_Reason :: string
  sdf_IncidentID :: string
  sdf_RuleID :: string
  sdf_ResourceID :: string
  sdf_StartsAt :: time
  sdf_ExpiresAt :: time
  sdf_Enabled :: bool

record mutation_metadata =
  mt_ExpectedVersion :: int
  mt_IdempotencyKey :: string
  mt_ActorUserID :: string
  mt_ActorName :: string
  mt_SourceAddress :: string
  mt_CorrelationID :: string

record incident_context =
  ix_IncidentID :: string
  ix_RuleID :: string
  ix_ResourceID :: string

record silence_match =
  sm_ID :: string
  sm_Reason :: string
  sm_ExpiresAt :: time

section \<open>Validation\<close>

definition validateReason :: "string \<Rightarrow> bool" where
  "validateReason reason \<longleftrightarrow>
     reason \<noteq> '''' \<and> TrimSpace reason = reason \<and> RuneCountInString reason \<le> 512"

text \<open>\<open>366*24*time.Hour\<close>; \<open>Sub\<close> saturates at 2^63 - 1, which is larger.\<close>

definition longestSuppression :: duration where
  "longestSuppression = 366 * 24 * 3600 * second"

definition ValidateMaintenance :: "maintenance_definition \<Rightarrow> err + unit" where
  "ValidateMaintenance v =
     (if \<not> validateReason (mdf_Reason v) \<or> mdf_StartsAt v = 0 \<or> mdf_EndsAt v = 0
        \<or> \<not> mdf_StartsAt v < mdf_EndsAt v \<or> longestSuppression < mdf_EndsAt v - mdf_StartsAt v
      then Inl ErrSuppressionInvalid
      else if mdf_IntegrationID v = '''' \<and> mdf_ResourceID v = '''' \<and> mdf_CheckType v = ''''
      then Inl ErrSuppressionInvalid
      else if mdf_IntegrationID v \<noteq> '''' \<and> \<not> uuidPattern (mdf_IntegrationID v)
        \<or> mdf_ResourceID v \<noteq> '''' \<and> \<not> uuidPattern (mdf_ResourceID v)
        \<or> mdf_CheckType v \<noteq> '''' \<and> \<not> identifierPattern (mdf_CheckType v)
      then Inl ErrSuppressionInvalid
      else Inr ())"

text \<open>The loop over the three identifiers; the count of those set, or an ill-formed one.\<close>

fun countScopes :: "string list \<Rightarrow> nat \<Rightarrow> nat option" where
  "countScopes [] n = Some n"
| "countScopes (i # ids) n =
     (if i \<noteq> '''' then (if \<not> uuidPattern i then None else countScopes ids (Suc n))
      else countScopes ids n)"

definition ValidateSilence :: "silence_definition \<Rightarrow> err + unit" where
  "ValidateSilence v =
     (if \<not> validateReason (sdf_Reason v) \<or> sdf_StartsAt v = 0 \<or> sdf_ExpiresAt v = 0
        \<or> \<not> sdf_StartsAt v < sdf_ExpiresAt v \<or> longestSuppression < sdf_ExpiresAt v - sdf_StartsAt v
      then Inl ErrSuppressionInvalid
      else case countScopes [sdf_IncidentID v, sdf_RuleID v, sdf_ResourceID v] 0 of
        None \<Rightarrow> Inl ErrSuppressionInvalid
      | Some n \<Rightarrow> if n \<noteq> 1 then Inl ErrSuppressionInvalid else Inr ())"

section \<open>Reading\<close>

definition scanMaintenance :: "window_row \<Rightarrow> maintenance_window" where
  "scanMaintenance m = \<lparr> win_ID = mw_id m, win_Reason = mw_reason m,
     win_IntegrationID = text_of (mw_integration_id m), win_ResourceID = text_of (mw_resource_id m),
     win_CheckType = text_of (mw_check_type m), win_StartsAt = mw_starts_at m,
     win_EndsAt = mw_ends_at m, win_Enabled = mw_enabled m, win_RevokedAt = mw_revoked_at m,
     win_ExpiredAt = mw_expired_at m, win_CreatedByName = mw_created_by_name m,
     win_Version = mw_version m, win_CreatedAt = mw_created_at m, win_UpdatedAt = mw_updated_at m \<rparr>"

definition scanSilence :: "silence_row \<Rightarrow> silence" where
  "scanSilence m = \<lparr> sil_ID = sl_id m, sil_Reason = sl_reason m,
     sil_IncidentID = text_of (sl_incident_id m), sil_RuleID = text_of (sl_rule_id m),
     sil_ResourceID = text_of (sl_resource_id m), sil_StartsAt = sl_starts_at m,
     sil_ExpiresAt = sl_expires_at m, sil_Enabled = sl_enabled m, sil_RevokedAt = sl_revoked_at m,
     sil_ExpiredAt = sl_expired_at m, sil_CreatedByName = sl_created_by_name m,
     sil_Version = sl_version m, sil_CreatedAt = sl_created_at m, sil_UpdatedAt = sl_updated_at m \<rparr>"

text \<open>\<open>ORDER BY starts_at DESC, id DESC LIMIT 200\<close>.\<close>

definition latest_first :: "('r \<Rightarrow> time) \<Rightarrow> ('r \<Rightarrow> string) \<Rightarrow> 'r list \<Rightarrow> 'r list" where
  "latest_first at ident rows = take 200 (rev (sort_key (\<lambda>r. (at r, ident r)) rows))"

definition MaintenanceWindows :: "maintenance_window list tx" where
  "MaintenanceWindows = tx_query (\<lambda>t. map scanMaintenance (latest_first mw_starts_at mw_id (t_windows t)))"

definition Silences :: "silence list tx" where
  "Silences = tx_query (\<lambda>t. map scanSilence (latest_first sl_starts_at sl_id (t_silences t)))"

text \<open>Identifiers reach the service through handlers that accept UUIDs only.\<close>

definition readMaintenance :: "string \<Rightarrow> maintenance_window tx" where
  "readMaintenance i =
     tx_bind (tx_query (\<lambda>t. find_row mw_id (uuid_param i) (t_windows t))) (\<lambda>found.
     case found of None \<Rightarrow> tx_fail ErrSuppressionNotFound | Some m \<Rightarrow> tx_return (scanMaintenance m))"

definition readSilence :: "string \<Rightarrow> silence tx" where
  "readSilence i =
     tx_bind (tx_query (\<lambda>t. find_row sl_id (uuid_param i) (t_silences t))) (\<lambda>found.
     case found of None \<Rightarrow> tx_fail ErrSuppressionNotFound | Some m \<Rightarrow> tx_return (scanSilence m))"

definition MaintenanceWindow :: "string \<Rightarrow> maintenance_window tx" where
  "MaintenanceWindow i = readMaintenance i"

definition Silence :: "string \<Rightarrow> silence tx" where
  "Silence i = readSilence i"

definition maintenanceActive :: "maintenance_window \<Rightarrow> time \<Rightarrow> bool" where
  "maintenanceActive v at \<longleftrightarrow>
     win_Enabled v \<and> win_RevokedAt v = None \<and> \<not> at < win_StartsAt v \<and> at < win_EndsAt v"

definition silence_applies :: "incident_context \<Rightarrow> time \<Rightarrow> silence_row \<Rightarrow> bool" where
  "silence_applies c at m \<longleftrightarrow>
     sl_enabled m \<and> sl_revoked_at m = None \<and> sl_starts_at m \<le> at \<and> at < sl_expires_at m
     \<and> (sl_incident_id m \<noteq> None \<and> sl_incident_id m = uuid_or_null (ix_IncidentID c)
        \<or> sl_rule_id m \<noteq> None \<and> sl_rule_id m = uuid_or_null (ix_RuleID c)
        \<or> sl_resource_id m \<noteq> None \<and> sl_resource_id m = uuid_or_null (ix_ResourceID c))"

definition MatchSilence :: "incident_context \<Rightarrow> time \<Rightarrow> silence_match option tx" where
  "MatchSilence incident at = tx_query (\<lambda>t.
     map_option (\<lambda>m. \<lparr> sm_ID = sl_id m, sm_Reason = sl_reason m, sm_ExpiresAt = sl_expires_at m \<rparr>)
       (first_by silence_order (filter (silence_applies incident (truncate_us at)) (t_silences t))))"

section \<open>References and summaries\<close>

definition validateMaintenanceReferences :: "maintenance_definition \<Rightarrow> unit tx" where
  "validateMaintenanceReferences v =
     (if mdf_ResourceID v \<noteq> '''' then
        tx_bind (tx_catch
            (tx_row (\<lambda>t. map_option rs_integration_id
               (find_row rs_id (uuid_param (mdf_ResourceID v)) (t_resources t))))
            (\<lambda>_. tx_fail ErrSuppressionInvalid)) (\<lambda>integration.
        if mdf_IntegrationID v \<noteq> '''' \<and> integration \<noteq> mdf_IntegrationID v
        then tx_fail ErrSuppressionInvalid else tx_return ())
      else if mdf_IntegrationID v \<noteq> '''' then
        tx_bind (tx_catch (tx_query (\<lambda>t. uuid_param (mdf_IntegrationID v) \<in> it_id ` set (t_integrations t)))
            (\<lambda>_. tx_fail ErrSuppressionInvalid)) (\<lambda>exists.
        if \<not> exists then tx_fail ErrSuppressionInvalid else tx_return ())
      else tx_return ())"

definition validateSilenceReferences :: "silence_definition \<Rightarrow> unit tx" where
  "validateSilenceReferences v =
     tx_bind (tx_catch (tx_query (\<lambda>t.
         if sdf_IncidentID v \<noteq> '''' then uuid_param (sdf_IncidentID v) \<in> in_id ` set (t_incidents t)
         else if sdf_RuleID v \<noteq> '''' then uuid_param (sdf_RuleID v) \<in> rl_id ` set (t_rules t)
         else uuid_param (sdf_ResourceID v) \<in> rs_id ` set (t_resources t)))
       (\<lambda>_. tx_fail ErrSuppressionInvalid)) (\<lambda>exists.
     if \<not> exists then tx_fail ErrSuppressionInvalid else tx_return ())"

definition maintenanceSummary :: "maintenance_window \<Rightarrow> summary" where
  "maintenanceSummary v = [(''check_type'', JText (win_CheckType v)), (''enabled'', JBool (win_Enabled v)),
     (''ends_at'', JTime (win_EndsAt v)), (''integration_id'', JText (win_IntegrationID v)),
     (''reason'', JText (win_Reason v)), (''resource_id'', JText (win_ResourceID v)),
     (''starts_at'', JTime (win_StartsAt v)), (''version'', JInt (win_Version v))]"

definition silenceSummary :: "silence \<Rightarrow> summary" where
  "silenceSummary v = [(''enabled'', JBool (sil_Enabled v)), (''expires_at'', JTime (sil_ExpiresAt v)),
     (''incident_id'', JText (sil_IncidentID v)), (''reason'', JText (sil_Reason v)),
     (''resource_id'', JText (sil_ResourceID v)), (''rule_id'', JText (sil_RuleID v)),
     (''starts_at'', JTime (sil_StartsAt v)), (''version'', JInt (sil_Version v))]"


section \<open>Exit signals\<close>

text \<open>\<open>time.Time.UnixMicro\<close>, and the \<open>%d\<close> verb.\<close>

definition unix_epoch :: time where
  "unix_epoch = 62135596800 * second"

definition UnixMicro :: "time \<Rightarrow> int" where
  "UnixMicro t = (t - unix_epoch) div microsecond"

definition decimal_int :: "int \<Rightarrow> string" where
  "decimal_int n = (if n < 0 then CHR ''-'' # decimal (nat (- n)) else decimal (nat n))"

record exitSignal =
  ex_integrationID :: string
  ex_resourceID :: string
  ex_observationID :: string
  ex_checkType :: string
  ex_reason :: string
  ex_state :: state

text \<open>One row of the join of \<open>current_health\<close> with its resource and its observation.\<close>

definition exit_row :: "tables \<Rightarrow> current \<Rightarrow> exitSignal option" where
  "exit_row t ch =
     Option.bind (find_row rs_id (cur_ResourceID ch) (t_resources t)) (\<lambda>r.
     Option.bind (cur_ObservationID ch) (\<lambda>oid.
     map_option (\<lambda>ob. \<lparr> ex_integrationID = rs_integration_id r, ex_resourceID = rs_id r,
         ex_observationID = ob_id ob, ex_checkType = ob_check_type ob,
         ex_reason = cur_Reason ch, ex_state = cur_State ch \<rparr>)
       (find_row ob_id oid (t_observations t))))"

definition in_scope :: "maintenance_window \<Rightarrow> exitSignal \<Rightarrow> bool" where
  "in_scope v x \<longleftrightarrow>
     (win_IntegrationID v = '''' \<or> ex_integrationID x = uuid_param (win_IntegrationID v))
     \<and> (win_ResourceID v = '''' \<or> ex_resourceID x = uuid_param (win_ResourceID v))
     \<and> (win_CheckType v = '''' \<or> ex_checkType x = win_CheckType v)"

definition exit_items :: "tables \<Rightarrow> maintenance_window \<Rightarrow> exitSignal list" where
  "exit_items t v = filter (in_scope v) (List.map_filter (exit_row t) (t_current t))"

definition exit_key :: "maintenance_window \<Rightarrow> exitSignal \<Rightarrow> time \<Rightarrow> string" where
  "exit_key v x at = ''maintenance-expiry:'' @ win_ID v @ '':'' @ ex_resourceID x @ '':''
     @ ex_checkType x @ '':'' @ decimal_int (UnixMicro at)"

definition exit_input :: "maintenance_window \<Rightarrow> time \<Rightarrow> exitSignal \<Rightarrow> signal_input" where
  "exit_input v at x = \<lparr> si_SourceKey = exit_key v x at, si_Kind = ''maintenance_expiry'',
     si_IntegrationID = ex_integrationID x, si_ResourceID = ex_resourceID x,
     si_ObservationID = ex_observationID x, si_CheckType = ex_checkType x, si_State = ex_state x,
     si_Reason = ex_reason x, si_ReasonCode = '''', si_OccurredAt = at, si_AvailableAt = at \<rparr>"

definition appendExitSignals ::
  "(exitSignal list \<Rightarrow> exitSignal list) \<Rightarrow> maintenance_window \<Rightarrow> time \<Rightarrow> unit tx" where
  "appendExitSignals arrange window at =
     tx_bind (tx_query (\<lambda>t. arrange (exit_items t window))) (\<lambda>items.
     tx_for (\<lambda>x. Append (exit_input window at x)) items)"

section \<open>Mutations of windows\<close>

definition publish :: "string \<Rightarrow> time \<Rightarrow> unit tx" where
  "publish i now = hub_publish (zeroEvent\<lparr> ev_Kind := ''suppression_changed'', ev_Result := i,
     ev_ChangedAt := now \<rparr>)"

text \<open>
  The frame of every mutation: \<open>BeginTx\<close>, a replayed receipt or the body, \<open>Commit\<close>, and the
  announcement of a fresh change.
\<close>

definition suppression_tx ::
  "mutation_metadata \<Rightarrow> string \<Rightarrow> string \<Rightarrow> string \<Rightarrow> time \<Rightarrow> receipt tx \<Rightarrow> receipt tx" where
  "suppression_tx metadata target operation hash now body =
     tx_bind (in_tx (
       tx_bind (Replay (mt_ActorUserID metadata) target operation (mt_IdempotencyKey metadata) hash)
         (\<lambda>found. case found of
            Some replay \<Rightarrow> tx_return (Commit (replay, False))
          | None \<Rightarrow> tx_bind body (\<lambda>receipt. tx_return (Commit (receipt, True))))))
       (\<lambda>(receipt, fresh).
          if fresh then tx_bind (publish (rc_ID receipt) now) (\<lambda>_. tx_return receipt)
          else tx_return receipt)"

text \<open>The end of every body: the audit entry and the stored receipt.\<close>

definition recordMutation ::
  "runtime \<Rightarrow> mutation_metadata \<Rightarrow> string \<Rightarrow> string \<Rightarrow> string \<Rightarrow> string \<Rightarrow> int \<Rightarrow> summary option \<Rightarrow>
     summary \<Rightarrow> time \<Rightarrow> receipt tx" where
  "recordMutation rt metadata target operation hash i version before after now =
     (let receipt = \<lparr> rc_ID = i, rc_Version = version, rc_RequestID = mt_CorrelationID metadata,
            rc_Replayed = False, rc_AuditURL = '''' \<rparr> in
      tx_bind (audit_Append rt \<lparr> ae_ActorUserID = mt_ActorUserID metadata,
          ae_Action = target @ ''.'' @ operation, ae_TargetType = target, ae_TargetID = i,
          ae_Result = ''succeeded'', ae_SourceAddress = mt_SourceAddress metadata,
          ae_CorrelationID = mt_CorrelationID metadata, ae_BeforeSummary = before,
          ae_AfterSummary = Some after, ae_OccurredAt = now \<rparr>) (\<lambda>_.
      tx_bind (Save (mt_ActorUserID metadata) target operation (mt_IdempotencyKey metadata) hash receipt)
        (\<lambda>_. tx_return receipt)))"

text \<open>A string field marked \<open>omitempty\<close>.\<close>

definition omitempty :: "string \<Rightarrow> string \<Rightarrow> (string \<times> jvalue) list" where
  "omitempty name v = (if v = '''' then [] else [(name, JText v)])"

definition maintenance_json :: "maintenance_definition \<Rightarrow> jvalue" where
  "maintenance_json v = JObj ([(''reason'', JText (mdf_Reason v))]
     @ omitempty ''integration_id'' (mdf_IntegrationID v) @ omitempty ''resource_id'' (mdf_ResourceID v)
     @ omitempty ''check_type'' (mdf_CheckType v)
     @ [(''starts_at'', JTime (mdf_StartsAt v)), (''ends_at'', JTime (mdf_EndsAt v)),
        (''enabled'', JBool (mdf_Enabled v))])"

definition maintenanceHash ::
  "runtime \<Rightarrow> string \<Rightarrow> string \<Rightarrow> maintenance_definition \<Rightarrow> mutation_metadata \<Rightarrow> string" where
  "maintenanceHash rt operation i value metadata = adminops_Hash rt (JObj
     [(''Operation'', JText operation), (''ID'', JText i), (''Value'', maintenance_json value),
      (''Version'', JInt (mt_ExpectedVersion metadata))])"

text \<open>The columns \<open>INSERT\<close> and \<open>UPDATE\<close> take from the definition.\<close>

definition set_window_columns :: "maintenance_definition \<Rightarrow> window_row \<Rightarrow> window_row" where
  "set_window_columns v m = m\<lparr> mw_reason := mdf_Reason v,
     mw_integration_id := uuid_or_null (mdf_IntegrationID v),
     mw_resource_id := uuid_or_null (mdf_ResourceID v), mw_check_type := nullif (mdf_CheckType v),
     mw_starts_at := truncate_us (mdf_StartsAt v), mw_ends_at := truncate_us (mdf_EndsAt v),
     mw_enabled := mdf_Enabled v \<rparr>"

definition new_window_row :: "string \<Rightarrow> mutation_metadata \<Rightarrow> time \<Rightarrow> window_row" where
  "new_window_row u metadata now = \<lparr> mw_id = u, mw_reason = '''', mw_integration_id = None,
     mw_resource_id = None, mw_check_type = None, mw_starts_at = 0, mw_ends_at = 0,
     mw_enabled = True, mw_revoked_at = None, mw_expired_at = None,
     mw_created_by_user_id = Some (uuid_param (mt_ActorUserID metadata)),
     mw_created_by_name = mt_ActorName metadata, mw_version = 1, mw_created_at = now,
     mw_updated_at = now \<rparr>"

definition createMaintenance ::
  "maintenance_definition \<Rightarrow> mutation_metadata \<Rightarrow> time \<Rightarrow> (string \<times> int \<times> maintenance_window option) tx" where
  "createMaintenance value metadata now = tx_insert (\<lambda>u c t.
     if u \<in> mw_id ` set (t_windows t) then Inl DbError
     else let m = set_window_columns value (new_window_row u metadata now)
       in Inr ((u, mw_version m, None), t\<lparr>t_windows := t_windows t @ [m]\<rparr>))"

definition replaceMaintenance ::
  "string \<Rightarrow> maintenance_definition \<Rightarrow> mutation_metadata \<Rightarrow> time \<Rightarrow>
     (string \<times> int \<times> maintenance_window option) tx" where
  "replaceMaintenance i value metadata now =
     tx_bind (readMaintenance i) (\<lambda>current.
     if win_Version current \<noteq> mt_ExpectedVersion metadata then tx_fail ErrSuppressionConflict
     else tx_bind (tx_affect (\<lambda>t.
         let p = (\<lambda>m. mw_id m = uuid_param i \<and> mw_revoked_at m = None);
             rows = update_where p (\<lambda>m. (set_window_columns value m)\<lparr> mw_expired_at := None,
                mw_version := mw_version m + 1, mw_updated_at := now \<rparr>) (t_windows t)
         in (map_option mw_version (List.find p rows), t\<lparr>t_windows := rows\<rparr>))) (\<lambda>version.
       case version of
         None \<Rightarrow> tx_fail ErrSuppressionConflict
       | Some version \<Rightarrow> tx_return (i, version, Some current)))"

text \<open>A running window that the new definition ends, moves away or narrows.\<close>

definition leavesMaintenance :: "maintenance_window \<Rightarrow> maintenance_definition \<Rightarrow> time \<Rightarrow> bool" where
  "leavesMaintenance previous value now \<longleftrightarrow> maintenanceActive previous now
     \<and> (\<not> mdf_Enabled value \<or> now < mdf_StartsAt value \<or> \<not> now < mdf_EndsAt value
        \<or> win_IntegrationID previous \<noteq> mdf_IntegrationID value
        \<or> win_ResourceID previous \<noteq> mdf_ResourceID value
        \<or> win_CheckType previous \<noteq> mdf_CheckType value)"

definition applyMaintenance ::
  "runtime \<Rightarrow> (exitSignal list \<Rightarrow> exitSignal list) \<Rightarrow> string \<Rightarrow> string \<Rightarrow> maintenance_definition \<Rightarrow>
     mutation_metadata \<Rightarrow> string \<Rightarrow> time \<Rightarrow> receipt tx" where
  "applyMaintenance rt arrange operation i value metadata hash now =
     tx_bind (validateMaintenanceReferences value) (\<lambda>_.
     tx_bind (if operation = ''create'' then createMaintenance value metadata now
              else replaceMaintenance i value metadata now) (\<lambda>(target, version, previous).
     tx_bind (case previous of
         None \<Rightarrow> tx_return ()
       | Some p \<Rightarrow> if operation = ''replace'' \<and> leavesMaintenance p value now
           then appendExitSignals arrange p now else tx_return ()) (\<lambda>_.
     tx_bind (readMaintenance target) (\<lambda>current.
     recordMutation rt metadata ''maintenance_window'' operation hash target version
       (map_option maintenanceSummary previous) (maintenanceSummary current) now))))"

definition mutateMaintenance ::
  "runtime \<Rightarrow> (exitSignal list \<Rightarrow> exitSignal list) \<Rightarrow> time \<Rightarrow> string \<Rightarrow> string \<Rightarrow>
     maintenance_definition \<Rightarrow> mutation_metadata \<Rightarrow> receipt tx" where
  "mutateMaintenance rt arrange clock operation i value metadata =
     (case ValidateMaintenance value of
       Inl e \<Rightarrow> tx_fail e
     | Inr _ \<Rightarrow>
         let hash = maintenanceHash rt operation i value metadata; now = truncate_us clock in
         suppression_tx metadata ''maintenance_window'' operation hash now
           (applyMaintenance rt arrange operation i value metadata hash now))"

definition CreateMaintenance ::
  "runtime \<Rightarrow> (exitSignal list \<Rightarrow> exitSignal list) \<Rightarrow> time \<Rightarrow> maintenance_definition \<Rightarrow>
     mutation_metadata \<Rightarrow> receipt tx" where
  "CreateMaintenance rt arrange clock value metadata =
     mutateMaintenance rt arrange clock ''create'' '''' value metadata"

definition ReplaceMaintenance ::
  "runtime \<Rightarrow> (exitSignal list \<Rightarrow> exitSignal list) \<Rightarrow> time \<Rightarrow> string \<Rightarrow> maintenance_definition \<Rightarrow>
     mutation_metadata \<Rightarrow> receipt tx" where
  "ReplaceMaintenance rt arrange clock i value metadata =
     mutateMaintenance rt arrange clock ''replace'' i value metadata"


section \<open>Mutations of silences\<close>

definition silence_json :: "silence_definition \<Rightarrow> jvalue" where
  "silence_json v = JObj ([(''reason'', JText (sdf_Reason v))]
     @ omitempty ''incident_id'' (sdf_IncidentID v) @ omitempty ''rule_id'' (sdf_RuleID v)
     @ omitempty ''resource_id'' (sdf_ResourceID v)
     @ [(''starts_at'', JTime (sdf_StartsAt v)), (''expires_at'', JTime (sdf_ExpiresAt v)),
        (''enabled'', JBool (sdf_Enabled v))])"

definition silenceHash ::
  "runtime \<Rightarrow> string \<Rightarrow> string \<Rightarrow> silence_definition \<Rightarrow> mutation_metadata \<Rightarrow> string" where
  "silenceHash rt operation i value metadata = adminops_Hash rt (JObj
     [(''Operation'', JText operation), (''ID'', JText i), (''Value'', silence_json value),
      (''Version'', JInt (mt_ExpectedVersion metadata))])"

definition set_silence_columns :: "silence_definition \<Rightarrow> silence_row \<Rightarrow> silence_row" where
  "set_silence_columns v m = m\<lparr> sl_reason := sdf_Reason v,
     sl_incident_id := uuid_or_null (sdf_IncidentID v), sl_rule_id := uuid_or_null (sdf_RuleID v),
     sl_resource_id := uuid_or_null (sdf_ResourceID v),
     sl_starts_at := truncate_us (sdf_StartsAt v), sl_expires_at := truncate_us (sdf_ExpiresAt v),
     sl_enabled := sdf_Enabled v \<rparr>"

definition new_silence_row :: "string \<Rightarrow> mutation_metadata \<Rightarrow> time \<Rightarrow> silence_row" where
  "new_silence_row u metadata now = \<lparr> sl_id = u, sl_reason = '''', sl_incident_id = None,
     sl_rule_id = None, sl_resource_id = None, sl_starts_at = 0, sl_expires_at = 0,
     sl_enabled = True, sl_revoked_at = None, sl_expired_at = None,
     sl_created_by_user_id = Some (uuid_param (mt_ActorUserID metadata)),
     sl_created_by_name = mt_ActorName metadata, sl_version = 1, sl_created_at = now,
     sl_updated_at = now \<rparr>"

definition createSilence ::
  "silence_definition \<Rightarrow> mutation_metadata \<Rightarrow> time \<Rightarrow> (string \<times> int \<times> silence option) tx" where
  "createSilence value metadata now = tx_insert (\<lambda>u c t.
     if u \<in> sl_id ` set (t_silences t) then Inl DbError
     else let m = set_silence_columns value (new_silence_row u metadata now)
       in Inr ((u, sl_version m, None), t\<lparr>t_silences := t_silences t @ [m]\<rparr>))"

definition replaceSilence ::
  "string \<Rightarrow> silence_definition \<Rightarrow> mutation_metadata \<Rightarrow> time \<Rightarrow> (string \<times> int \<times> silence option) tx" where
  "replaceSilence i value metadata now =
     tx_bind (readSilence i) (\<lambda>current.
     if sil_Version current \<noteq> mt_ExpectedVersion metadata then tx_fail ErrSuppressionConflict
     else tx_bind (tx_affect (\<lambda>t.
         let p = (\<lambda>m. sl_id m = uuid_param i \<and> sl_revoked_at m = None);
             rows = update_where p (\<lambda>m. (set_silence_columns value m)\<lparr> sl_expired_at := None,
                sl_version := sl_version m + 1, sl_updated_at := now \<rparr>) (t_silences t)
         in (map_option sl_version (List.find p rows), t\<lparr>t_silences := rows\<rparr>))) (\<lambda>version.
       case version of
         None \<Rightarrow> tx_fail ErrSuppressionConflict
       | Some version \<Rightarrow> tx_return (i, version, Some current)))"

definition applySilence ::
  "runtime \<Rightarrow> string \<Rightarrow> string \<Rightarrow> silence_definition \<Rightarrow> mutation_metadata \<Rightarrow> string \<Rightarrow> time \<Rightarrow> receipt tx" where
  "applySilence rt operation i value metadata hash now =
     tx_bind (validateSilenceReferences value) (\<lambda>_.
     tx_bind (if operation = ''create'' then createSilence value metadata now
              else replaceSilence i value metadata now) (\<lambda>(target, version, previous).
     tx_bind (readSilence target) (\<lambda>current.
     recordMutation rt metadata ''silence'' operation hash target version
       (map_option silenceSummary previous) (silenceSummary current) now)))"

definition mutateSilence ::
  "runtime \<Rightarrow> time \<Rightarrow> string \<Rightarrow> string \<Rightarrow> silence_definition \<Rightarrow> mutation_metadata \<Rightarrow> receipt tx" where
  "mutateSilence rt clock operation i value metadata =
     (case ValidateSilence value of
       Inl e \<Rightarrow> tx_fail e
     | Inr _ \<Rightarrow>
         let hash = silenceHash rt operation i value metadata; now = truncate_us clock in
         suppression_tx metadata ''silence'' operation hash now
           (applySilence rt operation i value metadata hash now))"

definition CreateSilence :: "runtime \<Rightarrow> time \<Rightarrow> silence_definition \<Rightarrow> mutation_metadata \<Rightarrow> receipt tx" where
  "CreateSilence rt clock value metadata = mutateSilence rt clock ''create'' '''' value metadata"

definition ReplaceSilence ::
  "runtime \<Rightarrow> time \<Rightarrow> string \<Rightarrow> silence_definition \<Rightarrow> mutation_metadata \<Rightarrow> receipt tx" where
  "ReplaceSilence rt clock i value metadata = mutateSilence rt clock ''replace'' i value metadata"

section \<open>Revocation\<close>

definition revokeHash :: "runtime \<Rightarrow> string \<Rightarrow> string \<Rightarrow> mutation_metadata \<Rightarrow> string" where
  "revokeHash rt target i metadata = adminops_Hash rt (JObj
     [(''Target'', JText target), (''ID'', JText i), (''Version'', JInt (mt_ExpectedVersion metadata))])"

definition revokeWindow ::
  "(exitSignal list \<Rightarrow> exitSignal list) \<Rightarrow> string \<Rightarrow> mutation_metadata \<Rightarrow> time \<Rightarrow> (int \<times> summary) tx" where
  "revokeWindow arrange i metadata now =
     tx_bind (readMaintenance i) (\<lambda>item.
     if win_Version item \<noteq> mt_ExpectedVersion metadata then tx_fail ErrSuppressionConflict
     else if win_RevokedAt item \<noteq> None then tx_fail ErrSuppressionConflict
     else tx_bind (tx_affect (\<lambda>t.
         let p = (\<lambda>m. mw_id m = uuid_param i);
             rows = update_where p (\<lambda>m. m\<lparr> mw_revoked_at := Some now,
                mw_version := mw_version m + 1, mw_updated_at := now \<rparr>) (t_windows t)
         in (map_option mw_version (List.find p rows), t\<lparr>t_windows := rows\<rparr>))) (\<lambda>version.
       case version of
         None \<Rightarrow> tx_fail NoRows
       | Some version \<Rightarrow>
           tx_bind (if win_Enabled item \<and> \<not> now < win_StartsAt item \<and> now < win_EndsAt item
               then appendExitSignals arrange item now else tx_return ()) (\<lambda>_.
           tx_return (version, maintenanceSummary item))))"

definition revokeSilenceRow :: "string \<Rightarrow> mutation_metadata \<Rightarrow> time \<Rightarrow> (int \<times> summary) tx" where
  "revokeSilenceRow i metadata now =
     tx_bind (readSilence i) (\<lambda>item.
     if sil_Version item \<noteq> mt_ExpectedVersion metadata then tx_fail ErrSuppressionConflict
     else if sil_RevokedAt item \<noteq> None then tx_fail ErrSuppressionConflict
     else tx_bind (tx_affect (\<lambda>t.
         let p = (\<lambda>m. sl_id m = uuid_param i);
             rows = update_where p (\<lambda>m. m\<lparr> sl_revoked_at := Some now,
                sl_version := sl_version m + 1, sl_updated_at := now \<rparr>) (t_silences t)
         in (map_option sl_version (List.find p rows), t\<lparr>t_silences := rows\<rparr>))) (\<lambda>version.
       case version of
         None \<Rightarrow> tx_fail NoRows
       | Some version \<Rightarrow> tx_return (version, silenceSummary item)))"

definition applyRevoke ::
  "runtime \<Rightarrow> (exitSignal list \<Rightarrow> exitSignal list) \<Rightarrow> string \<Rightarrow> string \<Rightarrow> mutation_metadata \<Rightarrow> string \<Rightarrow>
     time \<Rightarrow> receipt tx" where
  "applyRevoke rt arrange target i metadata hash now =
     tx_bind (if target = ''maintenance_window'' then revokeWindow arrange i metadata now
              else revokeSilenceRow i metadata now) (\<lambda>(version, before).
     recordMutation rt metadata target ''revoke'' hash i version (Some before)
       [(''revoked_at'', JTime now), (''version'', JInt version)] now)"

definition revoke ::
  "runtime \<Rightarrow> (exitSignal list \<Rightarrow> exitSignal list) \<Rightarrow> time \<Rightarrow> string \<Rightarrow> string \<Rightarrow> mutation_metadata \<Rightarrow>
     receipt tx" where
  "revoke rt arrange clock target i metadata =
     (let hash = revokeHash rt target i metadata; now = truncate_us clock in
      suppression_tx metadata target ''revoke'' hash now
        (applyRevoke rt arrange target i metadata hash now))"

definition RevokeMaintenance ::
  "runtime \<Rightarrow> (exitSignal list \<Rightarrow> exitSignal list) \<Rightarrow> time \<Rightarrow> string \<Rightarrow> mutation_metadata \<Rightarrow> receipt tx" where
  "RevokeMaintenance rt arrange clock i metadata = revoke rt arrange clock ''maintenance_window'' i metadata"

definition RevokeSilence ::
  "runtime \<Rightarrow> (exitSignal list \<Rightarrow> exitSignal list) \<Rightarrow> time \<Rightarrow> string \<Rightarrow> mutation_metadata \<Rightarrow> receipt tx" where
  "RevokeSilence rt arrange clock i metadata = revoke rt arrange clock ''silence'' i metadata"

section \<open>The expiry worker\<close>

definition default_poll :: "duration \<Rightarrow> duration" where
  "default_poll poll = (if poll \<le> 0 then second else poll)"

definition due_window :: "time \<Rightarrow> window_row \<Rightarrow> bool" where
  "due_window now m \<longleftrightarrow> mw_expired_at m = None \<and> mw_ends_at m \<le> now"

definition expiry_order :: "window_row \<Rightarrow> time \<times> string" where
  "expiry_order m = (mw_ends_at m, mw_id m)"

definition expireWindow_body ::
  "(exitSignal list \<Rightarrow> exitSignal list) \<Rightarrow> (string \<Rightarrow> bool) \<Rightarrow> time \<Rightarrow> string option outcome tx" where
  "expireWindow_body arrange locked now =
     tx_bind (tx_query (\<lambda>t. first_by expiry_order
         (filter (\<lambda>m. due_window now m \<and> \<not> locked (mw_id m)) (t_windows t)))) (\<lambda>found.
     case found of
       None \<Rightarrow> tx_return (Rollback None)
     | Some m \<Rightarrow>
         let item = scanMaintenance m in
         tx_bind (if win_Enabled item \<and> win_RevokedAt item = None
             then appendExitSignals arrange item (win_EndsAt item) else tx_return ()) (\<lambda>_.
         tx_bind (tx_exec (\<lambda>t. t\<lparr>t_windows := update_where (\<lambda>r. mw_id r = win_ID item)
             (\<lambda>r. r\<lparr> mw_expired_at := Some now, mw_updated_at := max (mw_updated_at r) now \<rparr>)
             (t_windows t)\<rparr>)) (\<lambda>_.
         tx_return (Commit (Some (win_ID item))))))"

definition expireWindow ::
  "(exitSignal list \<Rightarrow> exitSignal list) \<Rightarrow> (string \<Rightarrow> bool) \<Rightarrow> time \<Rightarrow> bool tx" where
  "expireWindow arrange locked now =
     tx_bind (in_tx (expireWindow_body arrange locked now)) (\<lambda>expired.
     case expired of
       None \<Rightarrow> tx_return False
     | Some i \<Rightarrow> tx_bind (publish i now) (\<lambda>_. tx_return True))"

text \<open>The loop \<open>for processed < 50\<close>; the argument counts the rounds left.\<close>

fun expireWindows ::
  "nat \<Rightarrow> (exitSignal list \<Rightarrow> exitSignal list) \<Rightarrow> (string \<Rightarrow> bool) \<Rightarrow> time \<Rightarrow> nat \<Rightarrow>
     (nat \<times> err option) tx" where
  "expireWindows 0 arrange locked now processed = tx_return (processed, None)"
| "expireWindows (Suc n) arrange locked now processed =
     tx_bind (tx_try (expireWindow arrange locked now)) (\<lambda>r.
     case r of
       Inl e \<Rightarrow> tx_return (processed, Some e)
     | Inr found \<Rightarrow>
         if \<not> found then tx_return (processed, None)
         else expireWindows n arrange locked now (Suc processed))"

definition due_silence :: "time \<Rightarrow> silence_row \<Rightarrow> bool" where
  "due_silence now m \<longleftrightarrow> sl_expired_at m = None \<and> sl_expires_at m \<le> now"

definition expireSilences :: "(string \<Rightarrow> bool) \<Rightarrow> time \<Rightarrow> nat tx" where
  "expireSilences locked now = tx_affect (\<lambda>t.
     let ids = set (map sl_id (take 50 (sort_key (\<lambda>m. (sl_expires_at m, sl_id m))
           (filter (\<lambda>m. due_silence now m \<and> \<not> locked (sl_id m)) (t_silences t)))));
         p = (\<lambda>m. sl_id m \<in> ids)
     in (length (filter p (t_silences t)),
         t\<lparr>t_silences := update_where p (\<lambda>m. m\<lparr> sl_expired_at := Some now, sl_updated_at := now \<rparr>)
             (t_silences t)\<rparr>))"

text \<open>\<open>ProcessOnce\<close> returns the count together with the error.\<close>

definition Suppression_ProcessOnce ::
  "(exitSignal list \<Rightarrow> exitSignal list) \<Rightarrow> (string \<Rightarrow> bool) \<Rightarrow> time \<Rightarrow> (nat \<times> err option) tx" where
  "Suppression_ProcessOnce arrange locked clock =
     (let now = truncate_us clock in
      tx_bind (expireWindows 50 arrange locked now 0) (\<lambda>(processed, e).
      if e \<noteq> None then tx_return (processed, e)
      else tx_bind (tx_try (expireSilences locked now)) (\<lambda>r.
        case r of
          Inl e \<Rightarrow> tx_return (processed, Some e)
        | Inr n \<Rightarrow> tx_return (processed + n, None))))"


section \<open>What the statements do\<close>

text \<open>The journal may have grown; nothing else has changed.\<close>

definition journal_only :: "tables \<Rightarrow> tables \<Rightarrow> bool" where
  "journal_only a b \<longleftrightarrow> (\<exists>new. b = a\<lparr>t_signals := t_signals a @ new\<rparr>)"

interpretation journal: tx_relation journal_only
proof
  show "journal_only t t" for t
    unfolding journal_only_def by (rule exI [of _ "[]"]) simp
  show "journal_only a c" if "journal_only a b" and "journal_only b c" for a b c
    using that by (auto simp: journal_only_def)
qed

lemma journal_only_Append: "always journal_only (Append input)"
  unfolding Append_def Let_def
  by (rule journal.insert) (auto simp: journal_only_def journal.refl [unfolded journal_only_def] split: if_splits)

lemma journal_only_exit: "always journal_only (appendExitSignals arrange v at)"
  unfolding appendExitSignals_def by (intro journal.composition journal_only_Append)

lemma journal_onlyD:
  "journal_only a b \<Longrightarrow> t_windows b = t_windows a \<and> t_silences b = t_silences a
     \<and> set (t_signals a) \<subseteq> set (t_signals b) \<and> t_current b = t_current a
     \<and> t_admin_keys b = t_admin_keys a"
  by (auto simp: journal_only_def)

text \<open>An exit of a check from a window has been put into the journal.\<close>

definition exit_recorded :: "tables \<Rightarrow> maintenance_window \<Rightarrow> time \<Rightarrow> exitSignal \<Rightarrow> bool" where
  "exit_recorded t v at x \<longleftrightarrow> exit_key v x at \<in> sg_source_key ` set (t_signals t)"

lemma Append_records: "Append input w = (Inr u, w') \<Longrightarrow> si_SourceKey input \<in> sg_source_key ` set (t_signals (w_tables w'))"
  by (auto simp: Append_def Let_def tx_insert_Inr split: if_splits)

lemma Append_all_recorded:
  assumes "tx_for (\<lambda>x. Append (f x)) xs w = (Inr u, w')" and "x \<in> set xs"
  shows "si_SourceKey (f x) \<in> sg_source_key ` set (t_signals (w_tables w'))"
  using assms
proof (induction xs arbitrary: w)
  case Nil
  then show ?case by simp
next
  case (Cons y ys)
  then obtain w1 where head: "Append (f y) w = (Inr (), w1)"
    and rest: "tx_for (\<lambda>x. Append (f x)) ys w1 = (Inr u, w')"
    by (auto simp: tx_bind_Inr)
  show ?case
  proof (cases "x \<in> set ys")
    case True
    with Cons.IH [OF rest] show ?thesis by simp
  next
    case False
    have "always journal_only (tx_for (\<lambda>x. Append (f x)) ys)"
      by (rule journal.for_loop) (rule journal_only_Append)
    from alwaysD [OF this, of w1] rest have "journal_only (w_tables w1) (w_tables w')" by simp
    from journal_onlyD [OF this] have "set (t_signals (w_tables w1)) \<subseteq> set (t_signals (w_tables w'))"
      by simp
    with Append_records [OF head] False Cons.prems(2) show ?thesis by auto
  qed
qed

lemma appendExitSignals_Inr:
  assumes "appendExitSignals arrange v at w = (Inr u, w')" and "\<And>xs. set (arrange xs) = set xs"
  shows "journal_only (w_tables w) (w_tables w')
    \<and> (\<forall>x \<in> set (exit_items (w_tables w) v). exit_recorded (w_tables w') v at x)"
proof -
  from assms(1) obtain w1 where loop: "tx_for (\<lambda>x. Append (exit_input v at x))
      (arrange (exit_items (w_tables w) v)) w1 = (Inr u, w')"
    by (auto simp: appendExitSignals_def tx_bind_Inr tx_query_Inr)
  have "exit_recorded (w_tables w') v at x" if "x \<in> set (exit_items (w_tables w) v)" for x
    using Append_all_recorded [OF loop, of x] that assms(2)
    by (simp add: exit_recorded_def exit_input_def)
  moreover have "journal_only (w_tables w) (w_tables w')"
    using alwaysD [OF journal_only_exit, of w arrange v at] assms(1) by simp
  ultimately show ?thesis by blast
qed

lemma readMaintenance_Inr:
  "readMaintenance i w = (Inr v, w') \<longleftrightarrow> \<not> faulty w \<and> w' = tick w
     \<and> (\<exists>m. find_row mw_id (uuid_param i) (t_windows (w_tables w)) = Some m \<and> v = scanMaintenance m)"
  by (auto simp: readMaintenance_def tx_success split: option.splits)

lemma readSilence_Inr:
  "readSilence i w = (Inr v, w') \<longleftrightarrow> \<not> faulty w \<and> w' = tick w
     \<and> (\<exists>m. find_row sl_id (uuid_param i) (t_silences (w_tables w)) = Some m \<and> v = scanSilence m)"
  by (auto simp: readSilence_def tx_success split: option.splits)

lemma keeps_reading [frame_intros]:
  "keeps f (readMaintenance i)" "keeps f (readSilence i)"
  "keeps f (validateMaintenanceReferences v)" "keeps f (validateSilenceReferences s)"
  unfolding readMaintenance_def readSilence_def validateMaintenanceReferences_def
    validateSilenceReferences_def
  by (intro frame_intros)+

lemma keeps_recordMutation:
  "(\<And>t x. f (t\<lparr>t_audit := x\<rparr>) = f t) \<Longrightarrow> (\<And>t x. f (t\<lparr>t_admin_keys := x\<rparr>) = f t) \<Longrightarrow>
     keeps f (recordMutation rt md target operation hash i version before after now)"
  unfolding recordMutation_def Let_def
  by (intro frame_intros audit_Append_only_audit keeps_Save)

definition suppression_key :: "mutation_metadata \<Rightarrow> string \<Rightarrow> string \<Rightarrow> admin_key" where
  "suppression_key md target operation =
     (uuid_param (mt_ActorUserID md), target, operation, mt_IdempotencyKey md)"

lemma recordMutation_Inr:
  assumes "recordMutation rt md target operation hash i version before after now w = (Inr rc, w')"
  shows "rc = \<lparr> rc_ID = i, rc_Version = version, rc_RequestID = mt_CorrelationID md,
      rc_Replayed = False, rc_AuditURL = '''' \<rparr>
    \<and> (\<exists>t. admin_lookup t (suppression_key md target operation) = None
        \<and> w_tables w' = admin_put (suppression_key md target operation) hash rc t)
    \<and> t_windows (w_tables w') = t_windows (w_tables w)
    \<and> t_silences (w_tables w') = t_silences (w_tables w)
    \<and> t_signals (w_tables w') = t_signals (w_tables w)"
proof -
  have same: "keeps t_windows (recordMutation rt md target operation hash i version before after now)"
    "keeps t_silences (recordMutation rt md target operation hash i version before after now)"
    "keeps t_signals (recordMutation rt md target operation hash i version before after now)"
    by (rule keeps_recordMutation; simp)+
  from assms show ?thesis
    using keepsD [OF same(1) assms] keepsD [OF same(2) assms] keepsD [OF same(3) assms]
    by (auto simp: recordMutation_def Let_def tx_bind_Inr suppression_key_def dest!: Save_Inr)
qed

text \<open>A mutation answers from a stored receipt, or its body ran on the tables as they were.\<close>

lemma suppression_tx_Inr:
  assumes "suppression_tx md target operation hash now body w = (Inr rc, w')"
  obtains (replayed) "admin.decide (w_tables w) (suppression_key md target operation) hash = Inr (Some rc)"
      "w_tables w' = w_tables w"
    | (fresh) w1 w2 where
      "admin.decide (w_tables w) (suppression_key md target operation) hash = Inr None"
      "w_tables w1 = w_tables w" "body w1 = (Inr rc, w2)" "w_tables w' = w_tables w2"
proof -
  from assms obtain fr w0 where tx: "in_tx (
       tx_bind (Replay (mt_ActorUserID md) target operation (mt_IdempotencyKey md) hash)
         (\<lambda>found. case found of
            Some replay \<Rightarrow> tx_return (Commit (replay, False))
          | None \<Rightarrow> tx_bind body (\<lambda>receipt. tx_return (Commit (receipt, True))))) w = (Inr (rc, fr), w0)"
    and w': "w_tables w' = w_tables w0"
    by (auto simp: suppression_tx_def tx_bind_Inr publish_def hub_publish_def split: if_splits)
  let ?w1 = "tick (tick (tick w))"
  obtain w1 where w1: "w_tables w1 = w_tables w" "w1 = ?w1" by simp
  from tx obtain found where
    dec: "admin.decide (w_tables w) (suppression_key md target operation) hash = Inr found"
    and cont: "case found of
        Some replay \<Rightarrow> rc = replay \<and> w_tables w0 = w_tables w1
      | None \<Rightarrow> \<exists>w2. body w1 = (Inr rc, w2) \<and> w_tables w0 = w_tables w2"
    unfolding w1(2)
    by (auto simp: in_tx_Inr tx_bind_Inr Replay_Inr suppression_key_def split: option.splits)
  show thesis
  proof (cases found)
    case None
    with cont obtain w2 where "body w1 = (Inr rc, w2)" "w_tables w0 = w_tables w2" by auto
    moreover have "admin.decide (w_tables w) (suppression_key md target operation) hash = Inr None"
      using dec None by simp
    ultimately show thesis by (intro that(2) [of w1 w2]) (simp_all add: w1(1) w')
  next
    case (Some r)
    with cont have "rc = r" "w_tables w0 = w_tables w1" by auto
    with dec Some show thesis by (intro that(1)) (simp_all add: w1(1) w')
  qed
qed


section \<open>Coverage never ends silently\<close>

definition covered :: "window_row \<Rightarrow> exitSignal \<Rightarrow> time \<Rightarrow> bool" where
  "covered m x at \<longleftrightarrow> window_covers (ex_integrationID x) (ex_resourceID x) (ex_checkType x) at m"

text \<open>A \<open>uuid\<close> column reads back in canonical form.\<close>

definition canonical_window :: "window_row \<Rightarrow> bool" where
  "canonical_window m \<longleftrightarrow>
     map_option uuid_param (mw_integration_id m) = mw_integration_id m
     \<and> map_option uuid_param (mw_resource_id m) = mw_resource_id m"

lemma canonical_set_window_columns: "canonical_window (set_window_columns v m)"
  by (auto simp: canonical_window_def set_window_columns_def uuid_or_null_def option.map_comp comp_def)

lemma covered_in_scope:
  "covered m x at \<Longrightarrow> canonical_window m \<Longrightarrow> in_scope (scanMaintenance m) x"
  by (auto simp: covered_def window_covers_def admits_def in_scope_def scanMaintenance_def
      canonical_window_def)

lemma covered_active: "covered m x at \<Longrightarrow> maintenanceActive (scanMaintenance m) at"
  by (auto simp: covered_def window_covers_def maintenanceActive_def scanMaintenance_def)

lemma find_update_where:
  assumes "\<And>r. p (f r) = p r"
  shows "List.find p (update_where p f rows) = map_option f (List.find p rows)"
  using assms by (induction rows) auto

definition replaced_window :: "maintenance_definition \<Rightarrow> time \<Rightarrow> window_row \<Rightarrow> window_row" where
  "replaced_window value now m = (set_window_columns value m)\<lparr> mw_expired_at := None,
     mw_version := mw_version m + 1, mw_updated_at := now \<rparr>"

definition revoked_window :: "time \<Rightarrow> window_row \<Rightarrow> window_row" where
  "revoked_window now m = m\<lparr> mw_revoked_at := Some now, mw_version := mw_version m + 1,
     mw_updated_at := now \<rparr>"

lemma set_window_columns_simps [simp]:
  "mw_id (set_window_columns v m) = mw_id m" "mw_revoked_at (set_window_columns v m) = mw_revoked_at m"
  "mw_expired_at (set_window_columns v m) = mw_expired_at m"
  "mw_version (set_window_columns v m) = mw_version m"
  by (simp_all add: set_window_columns_def)

lemma replaced_window_simps [simp]:
  "mw_id (replaced_window v now m) = mw_id m" "mw_revoked_at (replaced_window v now m) = mw_revoked_at m"
  "mw_version (replaced_window v now m) = mw_version m + 1"
  by (simp_all add: replaced_window_def)

lemma revoked_window_simps [simp]:
  "mw_id (revoked_window now m) = mw_id m" "mw_revoked_at (revoked_window now m) = Some now"
  "mw_version (revoked_window now m) = mw_version m + 1"
  by (simp_all add: revoked_window_def)

lemma scanMaintenance_simps [simp]:
  "win_ID (scanMaintenance m) = mw_id m" "win_Version (scanMaintenance m) = mw_version m"
  "win_RevokedAt (scanMaintenance m) = mw_revoked_at m" "win_Enabled (scanMaintenance m) = mw_enabled m"
  "win_StartsAt (scanMaintenance m) = mw_starts_at m" "win_EndsAt (scanMaintenance m) = mw_ends_at m"
  "win_ExpiredAt (scanMaintenance m) = mw_expired_at m"
  by (simp_all add: scanMaintenance_def)

lemma replaceMaintenance_Inr:
  assumes "replaceMaintenance i value md now w = (Inr (target, version, previous), w')"
  obtains m where "find_row mw_id (uuid_param i) (t_windows (w_tables w)) = Some m"
    "target = i" "previous = Some (scanMaintenance m)" "mw_version m = mt_ExpectedVersion md"
    "w_tables w' = (w_tables w)\<lparr>t_windows := update_where
       (\<lambda>m. mw_id m = uuid_param i \<and> mw_revoked_at m = None) (replaced_window value now) (t_windows (w_tables w))\<rparr>"
proof -
  from assms have "\<exists>m. find_row mw_id (uuid_param i) (t_windows (w_tables w)) = Some m
    \<and> target = i \<and> previous = Some (scanMaintenance m) \<and> mw_version m = mt_ExpectedVersion md
    \<and> w_tables w' = (w_tables w)\<lparr>t_windows := update_where
       (\<lambda>m. mw_id m = uuid_param i \<and> mw_revoked_at m = None) (replaced_window value now) (t_windows (w_tables w))\<rparr>"
    unfolding replaceMaintenance_def Let_def replaced_window_def [symmetric]
    by (auto simp: tx_bind_Inr readMaintenance_Inr tx_affect_Inr split: if_splits option.splits)
  with that show thesis by blast
qed

lemma revokeWindow_Inr:
  assumes "revokeWindow arrange i md now w = (Inr (version, before), w')"
  obtains m w1 where "find_row mw_id (uuid_param i) (t_windows (w_tables w)) = Some m"
    "mw_version m = mt_ExpectedVersion md" "mw_revoked_at m = None"
    "w_tables w1 = (w_tables w)\<lparr>t_windows := update_where (\<lambda>m. mw_id m = uuid_param i)
       (revoked_window now) (t_windows (w_tables w))\<rparr>"
    "(if maintenanceActive (scanMaintenance m) now then appendExitSignals arrange (scanMaintenance m) now
      else tx_return ()) w1 = (Inr (), w')"
proof -
  define E where "E item = (if win_Enabled item \<and> \<not> now < win_StartsAt item \<and> now < win_EndsAt item
      then appendExitSignals arrange item now else tx_return ())" for item
  from assms have "\<exists>m w1. find_row mw_id (uuid_param i) (t_windows (w_tables w)) = Some m
    \<and> win_Version (scanMaintenance m) = mt_ExpectedVersion md \<and> win_RevokedAt (scanMaintenance m) = None
    \<and> E (scanMaintenance m) w1 = (Inr (), w')
    \<and> w_tables w1 = (w_tables w)\<lparr>t_windows := update_where (\<lambda>m. mw_id m = uuid_param i)
       (revoked_window now) (t_windows (w_tables w))\<rparr>"
    unfolding revokeWindow_def E_def [symmetric] Let_def revoked_window_def [symmetric]
    by (auto simp: tx_bind_Inr readMaintenance_Inr tx_affect_Inr split: if_splits option.splits)
      (rule exI, rule conjI, assumption, simp)
  then obtain m w1 where *: "find_row mw_id (uuid_param i) (t_windows (w_tables w)) = Some m"
    "win_Version (scanMaintenance m) = mt_ExpectedVersion md" "win_RevokedAt (scanMaintenance m) = None"
    "E (scanMaintenance m) w1 = (Inr (), w')"
    "w_tables w1 = (w_tables w)\<lparr>t_windows := update_where (\<lambda>m. mw_id m = uuid_param i)
       (revoked_window now) (t_windows (w_tables w))\<rparr>" by blast
  have act: "E (scanMaintenance m) = (if maintenanceActive (scanMaintenance m) now
      then appendExitSignals arrange (scanMaintenance m) now else tx_return ())"
    using *(3) by (simp add: E_def maintenanceActive_def)
  show thesis
  proof (rule that [OF *(1) _ _ *(5)])
    show "mw_version m = mt_ExpectedVersion md" "mw_revoked_at m = None"
      using *(2,3) by simp_all
    show "(if maintenanceActive (scanMaintenance m) now
      then appendExitSignals arrange (scanMaintenance m) now else tx_return ()) w1 = (Inr (), w')"
      using *(4) by (simp only: act)
  qed
qed


datatype window_change = Replacement maintenance_definition | Revocation

definition changeWindow ::
  "runtime \<Rightarrow> (exitSignal list \<Rightarrow> exitSignal list) \<Rightarrow> time \<Rightarrow> string \<Rightarrow> mutation_metadata \<Rightarrow>
     window_change \<Rightarrow> receipt tx" where
  "changeWindow rt arrange clock i md c = (case c of
       Replacement value \<Rightarrow> ReplaceMaintenance rt arrange clock i value md
     | Revocation \<Rightarrow> RevokeMaintenance rt arrange clock i md)"

lemma exit_items_windows [simp]: "exit_items (t\<lparr>t_windows := rows\<rparr>) v = exit_items t v"
proof -
  have "exit_row (t\<lparr>t_windows := rows\<rparr>) = exit_row t"
    by (rule ext) (simp add: exit_row_def)
  then show ?thesis by (simp add: exit_items_def)
qed

lemma covered_exit_item:
  assumes "covered m x at" and "canonical_window m"
    and "x \<in> set (List.map_filter (exit_row t) (t_current t))"
  shows "x \<in> set (exit_items t (scanMaintenance m))"
  using covered_in_scope [OF assms(1,2)] assms(3) by (simp add: exit_items_def)

text \<open>A replacement that leaves nothing keeps covering what the window covered.\<close>

lemma admits_kept:
  "admits c x \<Longrightarrow> map_option uuid_param c = c \<Longrightarrow> admits (uuid_or_null (text_of c)) x"
  "admits c x \<Longrightarrow> admits (nullif (text_of c)) x"
  by (cases c; auto simp: admits_def uuid_or_null_def nullif_def)+

text \<open>
  The column keeps whole microseconds: a replacement whose end lies less than a microsecond ahead is
  compared as still running and stored as ending now, enabled and due for the expiry worker.
\<close>

definition left_to_expiry :: "window_row \<Rightarrow> maintenance_definition \<Rightarrow> time \<Rightarrow> bool" where
  "left_to_expiry m value now \<longleftrightarrow>
     now < mdf_EndsAt value \<and> mdf_EndsAt value < now + microsecond
     \<and> mw_ends_at m = now \<and> due_window now m \<and> mw_enabled m \<and> mw_revoked_at m = None"

lemma covered_replaced:
  assumes "covered m x now" and "canonical_window m"
    and "\<not> leavesMaintenance (scanMaintenance m) value now"
    and "truncate_us now = now"
  shows "covered (replaced_window value now m) x now \<or> left_to_expiry (replaced_window value now m) value now"
proof -
  have "maintenanceActive (scanMaintenance m) now" by (rule covered_active [OF assms(1)])
  with assms(3) have running: "mdf_Enabled value" "mdf_StartsAt value \<le> now" "now < mdf_EndsAt value"
    and scope: "mdf_IntegrationID value = text_of (mw_integration_id m)"
      "mdf_ResourceID value = text_of (mw_resource_id m)"
      "mdf_CheckType value = text_of (mw_check_type m)"
    by (auto simp: leavesMaintenance_def scanMaintenance_def)
  have alive: "mw_revoked_at m = None" using assms(1) by (simp add: covered_def window_covers_def)
  have "now \<le> truncate_us (mdf_EndsAt value)"
    using truncate_us_mono [of now "mdf_EndsAt value"] running(3) assms(4) by simp
  moreover have "truncate_us (mdf_StartsAt value) \<le> now"
    using truncate_us_le [of "mdf_StartsAt value"] running(2) by simp
  moreover have "mdf_EndsAt value < truncate_us (mdf_EndsAt value) + microsecond"
    by (rule truncate_us_gt)
  ultimately show ?thesis
    using assms(1,2) running alive
    by (auto simp: covered_def window_covers_def replaced_window_def set_window_columns_def scope
        canonical_window_def admits_kept left_to_expiry_def due_window_def)
qed

lemma find_row_changed:
  assumes "find_row mw_id k rows = Some m" and "\<And>r. mw_id (f r) = mw_id r" and "p m"
  shows "find_row mw_id k (update_where p f rows) = Some (f m)"
  using find_row_update_where [of p mw_id f k rows] assms by simp

lemma replace_exit:
  assumes run: "applyMaintenance rt arrange ''replace'' i value md hash now w = (Inr rc, w')"
    and arrange: "\<And>xs. set (arrange xs) = set xs"
    and now: "truncate_us now = now"
    and m: "find_row mw_id (uuid_param i) (t_windows (w_tables w)) = Some m" "canonical_window m"
    and x: "x \<in> set (List.map_filter (exit_row (w_tables w)) (t_current (w_tables w)))" "covered m x now"
  shows "find_row mw_id (uuid_param i) (t_windows (w_tables w')) = Some (replaced_window value now m)
    \<and> (covered (replaced_window value now m) x now \<or> exit_recorded (w_tables w') (scanMaintenance m) now x
       \<or> left_to_expiry (replaced_window value now m) value now)"
proof -
  from run obtain w1 target version previous w2 w3 current w4 where
    w1: "validateMaintenanceReferences value w = (Inr (), w1)"
    and repl: "replaceMaintenance i value md now w1 = (Inr (target, version, previous), w2)"
    and exits: "(case previous of None \<Rightarrow> tx_return ()
       | Some p \<Rightarrow> if ''replace'' = ''replace'' \<and> leavesMaintenance p value now
           then appendExitSignals arrange p now else tx_return ()) w2 = (Inr (), w3)"
    and read: "readMaintenance target w3 = (Inr current, w4)"
    and rec: "recordMutation rt md ''maintenance_window'' ''replace'' hash target version
       (map_option maintenanceSummary previous) (maintenanceSummary current) now w4 = (Inr rc, w')"
    by (auto simp: applyMaintenance_def tx_bind_Inr)
  have t1: "w_tables w1 = w_tables w"
    using keepsD [OF keeps_reading(3) [of "\<lambda>t. t"] w1] by simp
  from repl m(1) have prev: "previous = Some (scanMaintenance m)"
    and t2: "w_tables w2 = (w_tables w)\<lparr>t_windows := update_where
       (\<lambda>m. mw_id m = uuid_param i \<and> mw_revoked_at m = None) (replaced_window value now) (t_windows (w_tables w))\<rparr>"
    by (auto elim!: replaceMaintenance_Inr simp: t1)
  have ends_w': "t_windows (w_tables w') = t_windows (w_tables w3)" "t_signals (w_tables w') = t_signals (w_tables w3)"
    using recordMutation_Inr [OF rec] read by (auto simp: readMaintenance_Inr)
  have alive: "mw_id m = uuid_param i \<and> mw_revoked_at m = None"
    using find_row_SomeD [OF m(1)] x(2) by (simp add: covered_def window_covers_def)
  have found: "find_row mw_id (uuid_param i) (t_windows (w_tables w2)) = Some (replaced_window value now m)"
    using find_row_changed [OF m(1), of "replaced_window value now"] alive by (simp add: t2)
  show ?thesis
  proof (cases "leavesMaintenance (scanMaintenance m) value now")
    case True
    with exits prev have out: "appendExitSignals arrange (scanMaintenance m) now w2 = (Inr (), w3)" by simp
    have "x \<in> set (exit_items (w_tables w2) (scanMaintenance m))"
      using covered_exit_item [OF x(2) m(2) x(1)] by (simp add: t2)
    with appendExitSignals_Inr [OF out arrange] have "exit_recorded (w_tables w3) (scanMaintenance m) now x"
      and "t_windows (w_tables w3) = t_windows (w_tables w2)" by (auto dest: journal_onlyD)
    with found ends_w' show ?thesis by (simp add: exit_recorded_def)
  next
    case False
    with exits prev have "w3 = w2" by simp
    with found ends_w' covered_replaced [OF x(2) m(2) False now] show ?thesis by auto
  qed
qed

lemma revoke_exit:
  assumes run: "applyRevoke rt arrange ''maintenance_window'' i md hash now w = (Inr rc, w')"
    and arrange: "\<And>xs. set (arrange xs) = set xs"
    and m: "find_row mw_id (uuid_param i) (t_windows (w_tables w)) = Some m" "canonical_window m"
    and x: "x \<in> set (List.map_filter (exit_row (w_tables w)) (t_current (w_tables w)))" "covered m x now"
  shows "find_row mw_id (uuid_param i) (t_windows (w_tables w')) = Some (revoked_window now m)
    \<and> exit_recorded (w_tables w') (scanMaintenance m) now x"
proof -
  from run obtain version before w2 where
    rev: "revokeWindow arrange i md now w = (Inr (version, before), w2)"
    and rec: "recordMutation rt md ''maintenance_window'' ''revoke'' hash i version (Some before)
       [(''revoked_at'', JTime now), (''version'', JInt version)] now w2 = (Inr rc, w')"
    by (auto simp: applyRevoke_def tx_bind_Inr)
  obtain m' w1 where m': "find_row mw_id (uuid_param i) (t_windows (w_tables w)) = Some m'"
    and t1: "w_tables w1 = (w_tables w)\<lparr>t_windows := update_where (\<lambda>m. mw_id m = uuid_param i)
       (revoked_window now) (t_windows (w_tables w))\<rparr>"
    and out': "(if maintenanceActive (scanMaintenance m') now
       then appendExitSignals arrange (scanMaintenance m') now else tx_return ()) w1 = (Inr (), w2)"
    by (rule revokeWindow_Inr [OF rev])
  from m(1) m' have "m' = m" by simp
  with out' covered_active [OF x(2)]
  have out: "appendExitSignals arrange (scanMaintenance m) now w1 = (Inr (), w2)" by simp
  have "x \<in> set (exit_items (w_tables w1) (scanMaintenance m))"
    using covered_exit_item [OF x(2) m(2) x(1)] by (simp add: t1)
  with appendExitSignals_Inr [OF out arrange] have exit: "exit_recorded (w_tables w2) (scanMaintenance m) now x"
    and wins: "t_windows (w_tables w2) = t_windows (w_tables w1)" by (auto dest: journal_onlyD)
  have "mw_id m = uuid_param i" using find_row_SomeD [OF m(1)] by simp
  then have "find_row mw_id (uuid_param i) (t_windows (w_tables w1)) = Some (revoked_window now m)"
    using find_row_changed [OF m(1), of "revoked_window now"] by (simp add: t1)
  with exit wins recordMutation_Inr [OF rec] show ?thesis by (simp add: exit_recorded_def)
qed


lemma suppression_tx_fresh:
  assumes "suppression_tx md target operation hash now body w = (Inr rc, w')" and "\<not> rc_Replayed rc"
  obtains w1 w2 where "w_tables w1 = w_tables w" "body w1 = (Inr rc, w2)" "w_tables w' = w_tables w2"
  by (rule suppression_tx_Inr [OF assms(1)])
    (use assms(2) admin_decide_replayed that in blast)+

definition sampleWindow :: window_row where
  "sampleWindow = \<lparr> mw_id = ''b1'', mw_reason = ''patching'',
     mw_integration_id = None, mw_resource_id = Some ''11111111-1111-4111-8111-111111111111'',
     mw_check_type = None, mw_starts_at = 62135596800000001000, mw_ends_at = 62135596800000009000, mw_enabled = True,
     mw_revoked_at = None, mw_expired_at = None, mw_created_by_user_id = None,
     mw_created_by_name = ''Ada'', mw_version = 1, mw_created_at = 1000, mw_updated_at = 1000 \<rparr>"

definition sampleCurrent :: current where
  "sampleCurrent = \<lparr> cur_ResourceID = ''11111111-1111-4111-8111-111111111111'',
     cur_CheckType = ''host.up'', cur_State = Critical, cur_Reason = ''down'',
     cur_ObservationID = Some ''70000000-0000-4000-8000-000000000001'', cur_ObservedAt = Some 1000,
     cur_LastSuccessAt = None, cur_StaleAt = None, cur_UnknownAt = None, cur_UpdatedAt = 1000 \<rparr>"

definition sampleObserved :: observation_row where
  "sampleObserved = \<lparr> ob_id = ''70000000-0000-4000-8000-000000000001'',
     ob_integration_id = ''22222222-2222-4222-8222-222222222222'',
     ob_resource_id = ''11111111-1111-4111-8111-111111111111'', ob_check_type = ''host.up'',
     ob_observed_state = Critical, ob_summary = ''down'', ob_observed_at = 1000,
     ob_received_at = 1000, ob_expires_at = 90000001000, ob_expected_refresh_seconds = 60,
     ob_measurements = ''{}'', ob_metadata = ''{}'' \<rparr>"

definition sampleExit :: exitSignal where
  "sampleExit = \<lparr> ex_integrationID = ''22222222-2222-4222-8222-222222222222'',
     ex_resourceID = ''11111111-1111-4111-8111-111111111111'',
     ex_observationID = ''70000000-0000-4000-8000-000000000001'', ex_checkType = ''host.up'',
     ex_reason = ''down'', ex_state = Critical \<rparr>"

definition sampleMaintained :: world where
  "sampleMaintained = sampleRuleWorld\<lparr>w_tables := sampleRuleTables\<lparr> t_windows := [sampleWindow],
     t_current := [sampleCurrent], t_observations := [sampleObserved] \<rparr>\<rparr>"

definition sampleMetadata :: mutation_metadata where
  "sampleMetadata = \<lparr> mt_ExpectedVersion = 1, mt_IdempotencyKey = ''k1'',
     mt_ActorUserID = ''a1'', mt_ActorName = ''Ada'',
     mt_SourceAddress = '''', mt_CorrelationID = ''req-1'' \<rparr>"

text \<open>
  C10. Maintenance never ends silently. When an operator replaces or revokes a window that is
  running, every check with current health that the window covered is either still covered by
  the window as stored, or the same transaction has put an exit signal for that check into the
  journal, from which the evaluator looks at the check again. The one exception is a replacement
  whose end lies less than a microsecond after the current instant: the stored window then ends
  now, still enabled, and is left to the expiry worker, which writes the exit signals.
\<close>

theorem coverage_end_is_signalled:
  assumes run: "changeWindow rt arrange clock i md c w = (Inr rc, w')" and "\<not> rc_Replayed rc"
    and arrange: "\<And>xs. set (arrange xs) = set xs"
    and m: "find_row mw_id (uuid_param i) (t_windows (w_tables w)) = Some m" "canonical_window m"
    and x: "x \<in> set (List.map_filter (exit_row (w_tables w)) (t_current (w_tables w)))"
      "covered m x (truncate_us clock)"
  shows "\<exists>m'. find_row mw_id (uuid_param i) (t_windows (w_tables w')) = Some m'
    \<and> (covered m' x (truncate_us clock)
       \<or> exit_recorded (w_tables w') (scanMaintenance m) (truncate_us clock) x
       \<or> (\<exists>value. c = Replacement value \<and> left_to_expiry m' value (truncate_us clock)))"
proof (cases c)
  case (Replacement v)
  let ?hash = "maintenanceHash rt ''replace'' i v md"
  from run Replacement have "suppression_tx md ''maintenance_window'' ''replace'' ?hash (truncate_us clock)
      (applyMaintenance rt arrange ''replace'' i v md ?hash (truncate_us clock)) w = (Inr rc, w')"
    by (auto simp: changeWindow_def ReplaceMaintenance_def mutateMaintenance_def Let_def split: sum.splits)
  then obtain w1 w2 where t1: "w_tables w1 = w_tables w" "w_tables w' = w_tables w2"
    and body: "applyMaintenance rt arrange ''replace'' i v md ?hash (truncate_us clock) w1 = (Inr rc, w2)"
    using assms(2) by (rule suppression_tx_fresh) blast
  from replace_exit [OF body arrange truncate_us_idem] m x Replacement show ?thesis
    unfolding t1 by blast
next
  case Revocation
  let ?hash = "revokeHash rt ''maintenance_window'' i md"
  from run Revocation have "suppression_tx md ''maintenance_window'' ''revoke'' ?hash (truncate_us clock)
      (applyRevoke rt arrange ''maintenance_window'' i md ?hash (truncate_us clock)) w = (Inr rc, w')"
    by (simp add: changeWindow_def RevokeMaintenance_def revoke_def Let_def)
  then obtain w1 w2 where t1: "w_tables w1 = w_tables w" "w_tables w' = w_tables w2"
    and body: "applyRevoke rt arrange ''maintenance_window'' i md ?hash (truncate_us clock) w1 = (Inr rc, w2)"
    using assms(2) by (rule suppression_tx_fresh) blast
  from revoke_exit [OF body arrange] m x show ?thesis
    unfolding t1 by blast
qed

lemmas suppression_eval = changeWindow_def RevokeMaintenance_def revoke_def applyRevoke_def
  revokeWindow_def readMaintenance_def appendExitSignals_def exit_items_def List.map_filter_def
  exit_row_def in_scope_def exit_input_def suppression_tx_def recordMutation_def
  publish_def audit_Append_def encodeSummary_def Save_def Replay_def admin_lookup_def admin_put_def
  Append_def tx_eval uuid_param_def lower_hex_def byte_def validAuditEvent_def
  truncate_us_def microsecond_def targetTypePattern_def lower_letter_def
  identifier_char_def digit_def TrimSpace_def is_space_def MaxSummaryBytes_def

lemmas sample_suppression_eval = sampleMaintained_def sampleWindow_def sampleCurrent_def
  sampleObserved_def sampleMetadata_def sampleRuleWorld_def sampleRuleTables_def sampleRuntime_def
  sampleResource_def sampleUuid_def empty_tables_def

lemma sample_exit_items: "List.map_filter (exit_row (w_tables sampleMaintained))
    (t_current (w_tables sampleMaintained)) = [sampleExit]"
  by code_simp


lemma sample_revoked:
  "\<exists>rc w'. changeWindow sampleRuntime id 62135596800000005000 ''b1'' sampleMetadata
      Revocation sampleMaintained = (Inr rc, w') \<and> \<not> rc_Replayed rc \<and> w_faults w' = []"
  by (simp add: suppression_eval sample_suppression_eval scanMaintenance_def cong: tx_frozen)

theorem coverage_end_is_signalled_witness:
  "\<exists>rc w'. changeWindow sampleRuntime id 62135596800000005000 ''b1'' sampleMetadata
      Revocation sampleMaintained = (Inr rc, w')
    \<and> (\<exists>m'. find_row mw_id ''b1'' (t_windows (w_tables w')) = Some m'
        \<and> (covered m' sampleExit 62135596800000005000
           \<or> exit_recorded (w_tables w') (scanMaintenance sampleWindow) 62135596800000005000 sampleExit))"
proof -
  obtain rc w' where run: "changeWindow sampleRuntime id 62135596800000005000 ''b1''
      sampleMetadata Revocation sampleMaintained = (Inr rc, w')" and rc: "\<not> rc_Replayed rc"
    using sample_revoked by blast
  have i: "uuid_param ''b1'' = ''b1''"
    and at: "truncate_us 62135596800000005000 = 62135596800000005000"
    and m: "find_row mw_id (uuid_param ''b1'')
      (t_windows (w_tables sampleMaintained)) = Some sampleWindow" "canonical_window sampleWindow"
    and x: "covered sampleWindow sampleExit (truncate_us 62135596800000005000)"
    by code_simp+
  have "sampleExit \<in> set (List.map_filter (exit_row (w_tables sampleMaintained)) (t_current (w_tables sampleMaintained)))"
    by (simp add: sample_exit_items)
  from coverage_end_is_signalled [OF run rc _ m this x] run show ?thesis
    by (auto simp: i at)
qed


section \<open>Expiry\<close>

definition expired_window :: "time \<Rightarrow> window_row \<Rightarrow> window_row" where
  "expired_window now r = r\<lparr> mw_expired_at := Some now, mw_updated_at := max (mw_updated_at r) now \<rparr>"

lemma expired_window_simps [simp]:
  "mw_id (expired_window now r) = mw_id r" "mw_revoked_at (expired_window now r) = mw_revoked_at r"
  "\<not> due_window at (expired_window now r)"
  by (simp_all add: expired_window_def due_window_def)

definition next_due :: "(string \<Rightarrow> bool) \<Rightarrow> time \<Rightarrow> tables \<Rightarrow> window_row option" where
  "next_due locked now t = first_by expiry_order
     (filter (\<lambda>m. due_window now m \<and> \<not> locked (mw_id m)) (t_windows t))"

lemma expireWindow_body_stages:
  assumes "expireWindow_body arrange locked now w = (Inr out, w')"
    and "next_due locked now (w_tables w) = Some m"
  obtains w1 where "out = Commit (Some (mw_id m))"
    "(if mw_enabled m \<and> mw_revoked_at m = None
      then appendExitSignals arrange (scanMaintenance m) (win_EndsAt (scanMaintenance m))
      else tx_return ()) (tick w) = (Inr (), w1)"
    "w_tables w' = (w_tables w1)\<lparr>t_windows := update_where (\<lambda>r. mw_id r = mw_id m)
       (expired_window now) (t_windows (w_tables w1))\<rparr>"
proof -
  define X where "X = (if mw_enabled m \<and> mw_revoked_at m = None
      then appendExitSignals arrange (scanMaintenance m) (win_EndsAt (scanMaintenance m)) else tx_return ())"
  from assms obtain w1 where "out = Commit (Some (mw_id m))" "X (tick w) = (Inr (), w1)"
    "w_tables w' = (w_tables w1)\<lparr>t_windows := update_where (\<lambda>r. mw_id r = mw_id m)
       (expired_window now) (t_windows (w_tables w1))\<rparr>"
    by (auto simp: expireWindow_body_def tx_bind_Inr tx_query_Inr next_due_def [symmetric] Let_def
        X_def [symmetric] tx_exec_Inr expired_window_def [symmetric])
  then show thesis unfolding X_def by (rule that)
qed

lemma expireWindow_body_Inr:
  assumes "expireWindow_body arrange locked now w = (Inr out, w')"
    and "\<And>xs. set (arrange xs) = set xs"
  shows "case next_due locked now (w_tables w) of
      None \<Rightarrow> out = Rollback None
    | Some m \<Rightarrow> out = Commit (Some (mw_id m))
        \<and> t_windows (w_tables w') = update_where (\<lambda>r. mw_id r = mw_id m) (expired_window now) (t_windows (w_tables w))
        \<and> set (t_signals (w_tables w)) \<subseteq> set (t_signals (w_tables w'))
        \<and> t_silences (w_tables w') = t_silences (w_tables w)
        \<and> (mw_enabled m \<and> mw_revoked_at m = None \<longrightarrow> (\<forall>x \<in> set (exit_items (w_tables w) (scanMaintenance m)).
             exit_recorded (w_tables w') (scanMaintenance m) (mw_ends_at m) x))"
proof (cases "next_due locked now (w_tables w)")
  case None
  with assms(1) show ?thesis
    by (auto simp: expireWindow_body_def tx_bind_Inr tx_query_Inr next_due_def [symmetric])
next
  case (Some m)
  obtain w1 where out: "out = Commit (Some (mw_id m))"
    and x: "(if mw_enabled m \<and> mw_revoked_at m = None
      then appendExitSignals arrange (scanMaintenance m) (win_EndsAt (scanMaintenance m))
      else tx_return ()) (tick w) = (Inr (), w1)"
    and w': "w_tables w' = (w_tables w1)\<lparr>t_windows := update_where (\<lambda>r. mw_id r = mw_id m)
       (expired_window now) (t_windows (w_tables w1))\<rparr>"
    by (rule expireWindow_body_stages [OF assms(1) Some])
  have one: "journal_only (w_tables w) (w_tables w1)"
  proof -
    have "always journal_only (if mw_enabled m \<and> mw_revoked_at m = None
      then appendExitSignals arrange (scanMaintenance m) (win_EndsAt (scanMaintenance m)) else tx_return ())"
      by (intro journal.composition journal_only_exit)
    from alwaysD [OF this, of "tick w"] x show ?thesis by simp
  qed
  have two: "exit_recorded (w_tables w1) (scanMaintenance m) (mw_ends_at m) y"
    if "mw_enabled m \<and> mw_revoked_at m = None" "y \<in> set (exit_items (w_tables w) (scanMaintenance m))" for y
  proof -
    from that(1) x have "appendExitSignals arrange (scanMaintenance m) (mw_ends_at m) (tick w) = (Inr (), w1)"
      by simp
    from appendExitSignals_Inr [OF this assms(2)] that(2) show ?thesis by simp
  qed
  from Some out w' journal_onlyD [OF one] two show ?thesis
    by (simp add: exit_recorded_def)
qed

lemma expireWindow_cases:
  assumes "\<And>xs. set (arrange xs) = set xs"
  shows "case expireWindow arrange locked now w of
      (Inl e, w') \<Rightarrow> w_tables w' = w_tables w
    | (Inr False, w') \<Rightarrow> w_tables w' = w_tables w \<and> next_due locked now (w_tables w) = None
    | (Inr True, w') \<Rightarrow> (\<exists>m. next_due locked now (w_tables w) = Some m
        \<and> t_windows (w_tables w') = update_where (\<lambda>r. mw_id r = mw_id m) (expired_window now) (t_windows (w_tables w))
        \<and> set (t_signals (w_tables w)) \<subseteq> set (t_signals (w_tables w'))
        \<and> t_silences (w_tables w') = t_silences (w_tables w)
        \<and> (mw_enabled m \<and> mw_revoked_at m = None \<longrightarrow> (\<forall>x \<in> set (exit_items (w_tables w) (scanMaintenance m)).
             exit_recorded (w_tables w') (scanMaintenance m) (mw_ends_at m) x)))"
proof -
  obtain r w1 where tx: "in_tx (expireWindow_body arrange locked now) w = (r, w1)" by (cases "in_tx (expireWindow_body arrange locked now) w")
  show ?thesis
  proof (cases r)
    case (Inl e)
    with tx in_tx_atomic [of "expireWindow_body arrange locked now" w e w1] show ?thesis
      by (simp add: expireWindow_def tx_bind_def)
  next
    case (Inr found)
    with tx obtain w2 where
      step: "(expireWindow_body arrange locked now (tick w) = (Inr (Commit found), w2) \<and> w_tables w1 = w_tables w2)
        \<or> (expireWindow_body arrange locked now (tick w) = (Inr (Rollback found), w2) \<and> w_tables w1 = w_tables w)"
      by (auto simp: in_tx_Inr)
    have run: "expireWindow arrange locked now w = (case found of None \<Rightarrow> (Inr False, w1)
        | Some i \<Rightarrow> (Inr True, w1\<lparr>w_hub := fst (Publish (w_hub w1) (zeroEvent\<lparr> ev_Kind := ''suppression_changed'',
            ev_Result := i, ev_ChangedAt := now \<rparr>))\<rparr>))"
      using tx Inr by (simp add: expireWindow_def tx_bind_def publish_def hub_publish_def split: option.splits)
    show ?thesis
    proof (cases "next_due locked now (w_tables w)")
      case None
      with step expireWindow_body_Inr [OF _ assms, of locked now "tick w"]
      have "found = None" "w_tables w1 = w_tables w" by fastforce+
      with None run show ?thesis by simp
    next
      case (Some m)
      with step expireWindow_body_Inr [OF _ assms, of locked now "tick w"]
      have body: "expireWindow_body arrange locked now (tick w) = (Inr (Commit found), w2)"
        and w1: "w_tables w1 = w_tables w2" by fastforce+
      from expireWindow_body_Inr [OF body assms] Some have "found = Some (mw_id m)" by simp
      with expireWindow_body_Inr [OF body assms] Some run w1 show ?thesis by simp
    qed
  qed
qed

text \<open>
  One step of the expiry worker is exact and atomic. On an error, or when no unlocked
  window is due, the tables are as before. Otherwise the window that ended first (ties broken
  by identifier) is marked expired and no other window changes, no signal is lost, and if the
  window was in force when it ended, every check in its scope with current health has an exit
  signal in the journal, dated at the end of the window.
\<close>

theorem expire_window_exact:
  assumes "\<And>xs. set (arrange xs) = set xs"
  shows "case expireWindow arrange locked now w of
      (Inl e, w') \<Rightarrow> w_tables w' = w_tables w
    | (Inr False, w') \<Rightarrow> w_tables w' = w_tables w \<and> next_due locked now (w_tables w) = None
    | (Inr True, w') \<Rightarrow> (\<exists>m. next_due locked now (w_tables w) = Some m
        \<and> t_windows (w_tables w') = update_where (\<lambda>r. mw_id r = mw_id m) (expired_window now) (t_windows (w_tables w))
        \<and> set (t_signals (w_tables w)) \<subseteq> set (t_signals (w_tables w'))
        \<and> t_silences (w_tables w') = t_silences (w_tables w)
        \<and> (mw_enabled m \<and> mw_revoked_at m = None \<longrightarrow> (\<forall>x \<in> set (exit_items (w_tables w) (scanMaintenance m)).
             exit_recorded (w_tables w') (scanMaintenance m) (mw_ends_at m) x)))"
  by (rule expireWindow_cases [OF assms])

lemma sample_expired:
  "\<exists>w'. expireWindow id (\<lambda>_. False) 62135596800000010000 sampleMaintained = (Inr True, w')"
  by (simp add: expireWindow_def expireWindow_body_def first_by_def due_window_def suppression_eval
      sample_suppression_eval scanMaintenance_def cong: tx_frozen)

theorem expire_window_exact_witness:
  "\<exists>w'. expireWindow id (\<lambda>_. False) 62135596800000010000 sampleMaintained = (Inr True, w')
    \<and> exit_recorded (w_tables w') (scanMaintenance sampleWindow) 62135596800000009000 sampleExit"
proof -
  obtain w' where run: "expireWindow id (\<lambda>_. False) 62135596800000010000 sampleMaintained = (Inr True, w')"
    using sample_expired by blast
  have due: "next_due (\<lambda>_. False) 62135596800000010000 (w_tables sampleMaintained) = Some sampleWindow"
    and force: "mw_enabled sampleWindow \<and> mw_revoked_at sampleWindow = None"
      "mw_ends_at sampleWindow = 62135596800000009000"
    and scope: "sampleExit \<in> set (exit_items (w_tables sampleMaintained) (scanMaintenance sampleWindow))"
    by code_simp+
  show ?thesis
    using expire_window_exact [of id sampleMaintained "\<lambda>_. False" 62135596800000010000] run due force scope
    by simp
qed

text \<open>Rows that stop satisfying a predicate when they are updated.\<close>

lemma length_filter_update:
  assumes "\<And>r. r \<in> set rows \<Longrightarrow> p r \<Longrightarrow> P r" and "\<And>r. \<not> P (f r)"
  shows "length (filter P (update_where p f rows)) + length (filter p rows) = length (filter P rows)"
  using assms(1) by (induction rows) (auto simp: assms(2))

lemma length_filter_keys:
  assumes "distinct (map key rows)" and "set xs \<subseteq> set rows" and "distinct xs"
  shows "length (filter (\<lambda>r. key r \<in> key ` set xs) rows) = length xs"
proof -
  from assms(1) have inj: "inj_on key (set rows)" and dist: "distinct rows" by (auto simp: distinct_map)
  have "set (filter (\<lambda>r. key r \<in> key ` set xs) rows) = set xs"
    using inj assms(2) by (auto dest: inj_onD)
  moreover have "distinct (filter (\<lambda>r. key r \<in> key ` set xs) rows)" using dist by simp
  ultimately show ?thesis using assms(3) by (metis distinct_card)
qed

text \<open>
  The worker takes the longest ended rows first. A row is among the first \<open>k\<close> when fewer than
  \<open>k\<close> rows come before it.
\<close>

lemma take_sort_key_rank:
  assumes "distinct rows" and "inj_on key (set rows)" and "x \<in> set rows"
  shows "x \<in> set (take k (sort_key key rows)) \<longleftrightarrow> length (filter (\<lambda>y. key y < key x) rows) < k"
proof -
  let ?ys = "sort_key key rows"
  have dist: "distinct ?ys" using assms(1) by simp
  from assms(3) obtain i where i: "i < length ?ys" "?ys ! i = x"
    by (metis in_set_conv_nth set_sort)
  have below: "key (?ys ! j) < key x \<longleftrightarrow> j < i" if "j < length ?ys" for j
  proof -
    have mono: "a \<le> b \<Longrightarrow> b < length ?ys \<Longrightarrow> key (?ys ! a) \<le> key (?ys ! b)" for a b
      using sorted_sort_key [of key rows] by (auto simp: sorted_iff_nth_mono)
    have "key (?ys ! j) \<noteq> key x" if "j \<noteq> i"
      using that i dist \<open>j < length ?ys\<close> assms(2)
      by (metis inj_onD nth_eq_iff_index_eq nth_mem set_sort)
    with mono [of j i] mono [of i j] i that show ?thesis by (cases j i rule: linorder_cases) auto
  qed
  have "length (filter (\<lambda>y. key y < key x) rows) = length (filter (\<lambda>y. key y < key x) ?ys)"
    by (metis mset_filter mset_sort size_mset)
  also have "\<dots> = card {j. j < length ?ys \<and> key (?ys ! j) < key x}"
    by (rule length_filter_conv_card)
  also have "{j. j < length ?ys \<and> key (?ys ! j) < key x} = {..<i}" using below i by auto
  finally have "length (filter (\<lambda>y. key y < key x) rows) = i" by simp
  moreover have "x \<in> set (take k ?ys) \<longleftrightarrow> i < k"
    using i dist by (auto simp: in_set_conv_nth nth_eq_iff_index_eq)
  ultimately show ?thesis by simp
qed

definition window_before :: "time \<Rightarrow> window_row \<Rightarrow> window_row \<Rightarrow> bool" where
  "window_before now x m \<longleftrightarrow> mw_expired_at x = None \<and> mw_ends_at x \<le> now
     \<and> (mw_ends_at x < mw_ends_at m \<or> mw_ends_at x = mw_ends_at m \<and> mw_id x < mw_id m)"

definition expire_first_windows :: "nat \<Rightarrow> time \<Rightarrow> window_row list \<Rightarrow> window_row list" where
  "expire_first_windows k now rows = map (\<lambda>m.
     if mw_expired_at m = None \<and> mw_ends_at m \<le> now
        \<and> length (filter (\<lambda>x. window_before now x m) rows) < k
     then m\<lparr>mw_expired_at := Some now, mw_updated_at := max (mw_updated_at m) now\<rparr> else m) rows"

definition silence_before :: "time \<Rightarrow> silence_row \<Rightarrow> silence_row \<Rightarrow> bool" where
  "silence_before now x m \<longleftrightarrow> sl_expired_at x = None \<and> sl_expires_at x \<le> now
     \<and> (sl_expires_at x < sl_expires_at m \<or> sl_expires_at x = sl_expires_at m \<and> sl_id x < sl_id m)"

definition expire_first_silences :: "nat \<Rightarrow> time \<Rightarrow> silence_row list \<Rightarrow> silence_row list" where
  "expire_first_silences k now rows = map (\<lambda>m.
     if sl_expired_at m = None \<and> sl_expires_at m \<le> now
        \<and> length (filter (\<lambda>x. silence_before now x m) rows) < k
     then m\<lparr>sl_expired_at := Some now, sl_updated_at := now\<rparr> else m) rows"

lemma window_before_order: "window_before now x m \<longleftrightarrow> due_window now x \<and> expiry_order x < expiry_order m"
  by (auto simp: window_before_def due_window_def expiry_order_def)

lemma expire_first_windows_rows:
  "expire_first_windows k now rows = map (\<lambda>m. if due_window now m
     \<and> length (filter (\<lambda>x. window_before now x m) rows) < k then expired_window now m else m) rows"
  by (simp add: expire_first_windows_def due_window_def expired_window_def)

lemma expire_first_windows_zero: "expire_first_windows 0 now rows = rows"
  by (simp add: expire_first_windows_def)

lemma expire_first_windows_none:
  "filter (due_window now) rows = [] \<Longrightarrow> expire_first_windows k now rows = rows"
  by (auto simp: expire_first_windows_def due_window_def filter_empty_conv intro!: map_idI)

text \<open>Expiring the first due window and then the first \<open>k\<close> expires the first \<open>Suc k\<close>.\<close>

lemma expire_first_windows_Suc:
  assumes dist: "distinct (map mw_id rows)"
    and first: "first_by expiry_order (filter (due_window now) rows) = Some m"
  shows "expire_first_windows k now (update_where (\<lambda>r. mw_id r = mw_id m) (expired_window now) rows)
    = expire_first_windows (Suc k) now rows"
proof -
  let ?rows = "update_where (\<lambda>r. mw_id r = mw_id m) (expired_window now) rows"
  have m: "m \<in> set rows" "due_window now m" using first_by_Some_in [OF first] by auto
  have same: "r = m" if "r \<in> set rows" "mw_id r = mw_id m" for r
    using that m(1) dist by (metis distinct_map inj_onD)
  have before: "window_before now m r" if "r \<in> set rows" "due_window now r" "r \<noteq> m" for r
  proof -
    have "expiry_order m \<le> expiry_order r" by (rule first_by_least [OF first]) (use that in simp)
    moreover have "expiry_order m \<noteq> expiry_order r" using same [OF that(1)] that(3) by (auto simp: expiry_order_def)
    ultimately show ?thesis using m(2) by (simp add: window_before_order)
  qed
  have one: "length (filter (\<lambda>r. mw_id r = mw_id m) rows) = 1"
    using length_filter_keys [OF dist, of "[m]"] m(1) by simp
  have less: "length (filter (\<lambda>x. window_before now x r) rows) = Suc (length (filter (\<lambda>x. window_before now x r) ?rows))"
    if "r \<in> set rows" "due_window now r" "r \<noteq> m" for r
  proof -
    have "length (filter (\<lambda>x. window_before now x r) ?rows) + length (filter (\<lambda>r. mw_id r = mw_id m) rows)
        = length (filter (\<lambda>x. window_before now x r) rows)"
      by (rule length_filter_update) (use before [OF that] same in \<open>auto simp: window_before_order\<close>)
    with one show ?thesis by simp
  qed
  have "\<not> window_before now x m" if "x \<in> set rows" for x
    using before [OF that] same by (cases "x = m") (auto simp: window_before_order)
  then have zero: "filter (\<lambda>x. window_before now x m) rows = []" by (simp add: filter_empty_conv)
  let ?g = "\<lambda>r. if mw_id r = mw_id m then expired_window now r else r"
  have "(if due_window now (?g r) \<and> length (filter (\<lambda>x. window_before now x (?g r)) ?rows) < k
      then expired_window now (?g r) else ?g r)
    = (if due_window now r \<and> length (filter (\<lambda>x. window_before now x r) rows) < Suc k
       then expired_window now r else r)" if r: "r \<in> set rows" for r
  proof (cases "r = m")
    case True
    with m(2) zero show ?thesis by simp
  next
    case False
    with same [OF r] have "mw_id r \<noteq> mw_id m" by blast
    with less [OF r _ False] show ?thesis by auto
  qed
  moreover have "map h ?rows = map (\<lambda>r. h (?g r)) rows" for h :: "window_row \<Rightarrow> window_row"
    by (simp add: update_where_def comp_def)
  ultimately show ?thesis unfolding expire_first_windows_rows by (simp only: cong: map_cong)
qed

definition due_windows :: "time \<Rightarrow> tables \<Rightarrow> nat" where
  "due_windows now t = length (filter (due_window now) (t_windows t))"

definition due_silences :: "time \<Rightarrow> tables \<Rightarrow> nat" where
  "due_silences now t = length (filter (due_silence now) (t_silences t))"

definition unique_suppressions :: "tables \<Rightarrow> bool" where
  "unique_suppressions t \<longleftrightarrow> distinct (map mw_id (t_windows t)) \<and> distinct (map sl_id (t_silences t))"

lemma tx_try_Inr: "tx_try m w = (Inr r, w') \<longleftrightarrow> m w = (r, w')"
  by (auto simp: tx_try_def split: prod.splits)

lemma expireWindow_counts:
  assumes "expireWindow arrange (\<lambda>_. False) now w = (Inr found, w')"
    and "\<And>xs. set (arrange xs) = set xs" and "unique_suppressions (w_tables w)"
  shows "unique_suppressions (w_tables w') \<and> t_silences (w_tables w') = t_silences (w_tables w)
    \<and> due_windows now (w_tables w) = due_windows now (w_tables w') + (if found then 1 else 0)
    \<and> (\<not> found \<longrightarrow> due_windows now (w_tables w) = 0)"
proof (cases found)
  case False
  with expireWindow_cases [OF assms(2), where locked = "\<lambda>_. False" and now = now and w = w] assms(1,3)
  have "w_tables w' = w_tables w" "next_due (\<lambda>_. False) now (w_tables w) = None" by simp_all
  with False assms(3) show ?thesis by (simp add: next_due_def due_windows_def)
next
  case True
  with expireWindow_cases [OF assms(2), where locked = "\<lambda>_. False" and now = now and w = w] assms(1)
  obtain m where m: "next_due (\<lambda>_. False) now (w_tables w) = Some m"
    and wins: "t_windows (w_tables w') = update_where (\<lambda>r. mw_id r = mw_id m) (expired_window now) (t_windows (w_tables w))"
    and sil: "t_silences (w_tables w') = t_silences (w_tables w)" by auto
  from m have due: "m \<in> set (t_windows (w_tables w))" "due_window now m"
    by (auto simp: next_due_def dest: first_by_Some_in)
  let ?rows = "t_windows (w_tables w)"
  have dist: "distinct (map mw_id ?rows)" using assms(3) by (simp add: unique_suppressions_def)
  have only: "due_window now r" if "r \<in> set ?rows" "mw_id r = mw_id m" for r
    using that due dist by (metis distinct_map inj_onD)
  have "length (filter (due_window now) (update_where (\<lambda>r. mw_id r = mw_id m) (expired_window now) ?rows))
      + length (filter (\<lambda>r. mw_id r = mw_id m) ?rows) = length (filter (due_window now) ?rows)"
    by (rule length_filter_update) (auto intro: only)
  moreover have "length (filter (\<lambda>r. mw_id r = mw_id m) ?rows) = 1"
    using length_filter_keys [OF dist, of "[m]"] due(1) by simp
  moreover have "distinct (map mw_id (t_windows (w_tables w')))"
    unfolding wins using dist by (simp add: map_update_where)
  ultimately show ?thesis
    using True sil assms(3) by (simp add: due_windows_def unique_suppressions_def wins)
qed

lemma expireWindow_first:
  assumes "expireWindow arrange (\<lambda>_. False) now w = (Inr found, w')"
    and "\<And>xs. set (arrange xs) = set xs" and "unique_suppressions (w_tables w)"
  shows "expire_first_windows (Suc k) now (t_windows (w_tables w)) =
    (if found then expire_first_windows k now (t_windows (w_tables w')) else t_windows (w_tables w'))"
proof (cases found)
  case True
  with expireWindow_cases [OF assms(2), where locked = "\<lambda>_. False" and now = now and w = w] assms(1)
  obtain m where m: "next_due (\<lambda>_. False) now (w_tables w) = Some m"
    and wins: "t_windows (w_tables w') = update_where (\<lambda>r. mw_id r = mw_id m) (expired_window now) (t_windows (w_tables w))"
    by auto
  have "distinct (map mw_id (t_windows (w_tables w)))" using assms(3) by (simp add: unique_suppressions_def)
  from expire_first_windows_Suc [OF this, of now m k] m True wins show ?thesis by (simp add: next_due_def)
next
  case False
  with expireWindow_cases [OF assms(2), where locked = "\<lambda>_. False" and now = now and w = w] assms(1)
  have "w_tables w' = w_tables w" "filter (due_window now) (t_windows (w_tables w)) = []"
    by (simp_all add: next_due_def)
  with False show ?thesis by (simp add: expire_first_windows_none)
qed

lemma expireWindows_counts:
  assumes "expireWindows n arrange (\<lambda>_. False) now processed w = (Inr (reported, None), w')"
    and "\<And>xs. set (arrange xs) = set xs" and "unique_suppressions (w_tables w)"
  shows "t_windows (w_tables w') = expire_first_windows n now (t_windows (w_tables w))
    \<and> unique_suppressions (w_tables w') \<and> t_silences (w_tables w') = t_silences (w_tables w)
    \<and> reported = processed + min n (due_windows now (w_tables w))
    \<and> due_windows now (w_tables w') = due_windows now (w_tables w) - n"
  using assms(1,3)
proof (induction n arbitrary: processed w)
  case 0
  then show ?case by (simp add: expire_first_windows_zero)
next
  case (Suc n)
  from Suc.prems(1) obtain found w1 where
    step: "expireWindow arrange (\<lambda>_. False) now w = (Inr found, w1)"
    and rest: "(if \<not> found then tx_return (processed, None)
       else expireWindows n arrange (\<lambda>_. False) now (Suc processed)) w1 = (Inr (reported, None), w')"
  proof -
    from Suc.prems(1) obtain r w1 where "expireWindow arrange (\<lambda>_. False) now w = (r, w1)"
      and "(case r of Inl e \<Rightarrow> tx_return (processed, Some e) | Inr found \<Rightarrow>
         if \<not> found then tx_return (processed, None)
         else expireWindows n arrange (\<lambda>_. False) now (Suc processed)) w1 = (Inr (reported, None), w')"
      by (auto simp: tx_bind_Inr tx_try_Inr)
    with that show thesis by (cases r) auto
  qed
  note count = expireWindow_counts [OF step assms(2) Suc.prems(2)]
    and first = expireWindow_first [OF step assms(2) Suc.prems(2), of n]
  show ?case
  proof (cases found)
    case False
    with rest count first show ?thesis by auto
  next
    case True
    with rest have "expireWindows n arrange (\<lambda>_. False) now (Suc processed) w1 = (Inr (reported, None), w')" by simp
    from Suc.IH [OF this] count first True show ?thesis by auto
  qed
qed

lemma silence_before_order:
  "silence_before now x m \<longleftrightarrow> due_silence now x \<and> (sl_expires_at x, sl_id x) < (sl_expires_at m, sl_id m)"
  by (auto simp: silence_before_def due_silence_def)

lemma first_silences:
  assumes "distinct (map sl_id rows)"
  shows "update_where (\<lambda>m. sl_id m \<in> sl_id ` set (take k (sort_key (\<lambda>m. (sl_expires_at m, sl_id m))
      (filter (due_silence now) rows)))) (\<lambda>m. m\<lparr>sl_expired_at := Some now, sl_updated_at := now\<rparr>) rows
    = expire_first_silences k now rows"
proof -
  let ?key = "\<lambda>m. (sl_expires_at m, sl_id m)"
  let ?due = "filter (due_silence now) rows"
  let ?xs = "take k (sort_key ?key ?due)"
  have inj: "inj_on sl_id (set rows)" and dist: "distinct ?due" using assms by (auto simp: distinct_map)
  have sub: "set ?xs \<subseteq> set ?due" by (rule set_take_sort_key)
  have "sl_id m \<in> sl_id ` set ?xs \<longleftrightarrow> due_silence now m \<and> length (filter (\<lambda>x. silence_before now x m) rows) < k"
    if m: "m \<in> set rows" for m
  proof -
    have "set ?xs \<subseteq> set rows" using sub by auto
    then have "sl_id m \<in> sl_id ` set ?xs \<longleftrightarrow> m \<in> set ?xs" by (rule inj_on_image_mem_iff [OF inj m])
    also have "\<dots> \<longleftrightarrow> m \<in> set ?due \<and> m \<in> set ?xs" using sub by blast
    also have "\<dots> \<longleftrightarrow> m \<in> set ?due \<and> length (filter (\<lambda>x. ?key x < ?key m) ?due) < k"
      using take_sort_key_rank [OF dist, of ?key m k] inj by (auto simp: inj_on_def)
    also have "filter (\<lambda>x. ?key x < ?key m) ?due = filter (\<lambda>x. silence_before now x m) rows"
      by (simp only: filter_filter silence_before_order)
    finally show ?thesis using m by simp
  qed
  then show ?thesis
    by (auto simp: update_where_def expire_first_silences_def due_silence_def)
qed

lemma expireSilences_counts:
  assumes "expireSilences (\<lambda>_. False) now w = (Inr n, w')" and "unique_suppressions (w_tables w)"
  shows "t_silences (w_tables w') = expire_first_silences 50 now (t_silences (w_tables w))
    \<and> n = min 50 (due_silences now (w_tables w)) \<and> t_windows (w_tables w') = t_windows (w_tables w)
    \<and> due_silences now (w_tables w') = due_silences now (w_tables w) - 50"
proof -
  let ?rows = "t_silences (w_tables w)"
  let ?due = "filter (due_silence now) ?rows"
  let ?xs = "take 50 (sort_key (\<lambda>m. (sl_expires_at m, sl_id m)) ?due)"
  let ?p = "\<lambda>m. sl_id m \<in> sl_id ` set ?xs"
  let ?f = "\<lambda>m. m\<lparr> sl_expired_at := Some now, sl_updated_at := now \<rparr>"
  have dist: "distinct (map sl_id ?rows)" using assms(2) by (simp add: unique_suppressions_def)
  have sub: "set ?xs \<subseteq> set ?due" by (rule set_take_sort_key)
  have run: "n = length (filter ?p ?rows)"
    "w_tables w' = (w_tables w)\<lparr>t_silences := update_where ?p ?f ?rows\<rparr>"
    using assms(1) by (simp_all add: expireSilences_def tx_affect_Inr Let_def)
  have len: "length (filter ?p ?rows) = min 50 (length ?due)"
  proof -
    from sub have "set ?xs \<subseteq> set ?rows" by (meson filter_is_subset order_trans)
    moreover have "distinct ?xs" using dist by (simp add: distinct_map)
    ultimately have "length (filter ?p ?rows) = length ?xs" by (rule length_filter_keys [OF dist])
    then show ?thesis by simp
  qed
  have "length (filter (due_silence now) (update_where ?p ?f ?rows)) + length (filter ?p ?rows) = length ?due"
  proof (rule length_filter_update)
    show "\<not> due_silence now (?f r)" for r by (simp add: due_silence_def)
    show "due_silence now r" if "r \<in> set ?rows" "?p r" for r
    proof -
      from that(2) obtain y where y: "y \<in> set ?xs" "sl_id r = sl_id y" by blast
      with sub have "y \<in> set ?due" by blast
      with y(2) that(1) dist have "r = y" by (auto simp: distinct_map dest: inj_onD)
      with \<open>y \<in> set ?due\<close> show ?thesis by simp
    qed
  qed
  with len run first_silences [OF dist, of 50 now] show ?thesis by (simp add: due_silences_def)
qed

text \<open>
  C37. A pass of the expiry worker is bounded and makes progress. Suppose it reports no error, no
  other session holds rows and identifiers are unique. Then a window is marked expired by the
  pass exactly when it had ended, was not expired before and fewer than 50 such windows end
  before it (or at the same instant with a smaller identifier); every other window is as it was.
  The same holds of the silences. The pass reports exactly the number of rows it expired, and
  that many fewer are due afterwards.
\<close>

theorem expiry_pass_bounded_progress:
  assumes "Suppression_ProcessOnce arrange (\<lambda>_. False) clock w = (Inr (n, None), w')"
    and "\<And>xs. set (arrange xs) = set xs" and "unique_suppressions (w_tables w)"
  shows "t_windows (w_tables w') = expire_first_windows 50 (truncate_us clock) (t_windows (w_tables w))
    \<and> t_silences (w_tables w') = expire_first_silences 50 (truncate_us clock) (t_silences (w_tables w))
    \<and> n = min 50 (due_windows (truncate_us clock) (w_tables w))
      + min 50 (due_silences (truncate_us clock) (w_tables w))
    \<and> due_windows (truncate_us clock) (w_tables w') = due_windows (truncate_us clock) (w_tables w) - 50
    \<and> due_silences (truncate_us clock) (w_tables w') = due_silences (truncate_us clock) (w_tables w) - 50"
proof -
  let ?now = "truncate_us clock"
  from assms(1) obtain k w1 s where
    wins: "expireWindows 50 arrange (\<lambda>_. False) ?now 0 w = (Inr (k, None), w1)"
    and sils: "expireSilences (\<lambda>_. False) ?now w1 = (Inr s, w')" and n: "n = k + s"
  proof -
    from assms(1) obtain k e w1 where wins: "expireWindows 50 arrange (\<lambda>_. False) ?now 0 w = (Inr (k, e), w1)"
      and rest: "(if e \<noteq> None then tx_return (k, e)
        else tx_bind (tx_try (expireSilences (\<lambda>_. False) ?now)) (\<lambda>r. case r of
          Inl e \<Rightarrow> tx_return (k, Some e) | Inr s \<Rightarrow> tx_return (k + s, None))) w1 = (Inr (n, None), w')"
      by (auto simp: Suppression_ProcessOnce_def Let_def tx_bind_Inr [of "expireWindows 50 arrange (\<lambda>_. False) ?now 0"]
          simp del: expireWindows.simps)
    from rest have e: "e = None" by (auto split: if_splits)
    with rest obtain r w2 where "expireSilences (\<lambda>_. False) ?now w1 = (r, w2)"
      and "(case r of Inl e \<Rightarrow> tx_return (k, Some e) | Inr s \<Rightarrow> tx_return (k + s, None)) w2 = (Inr (n, None), w')"
      by (auto simp: tx_bind_Inr tx_try_Inr)
    with wins e show thesis by (cases r) (auto intro: that)
  qed
  note one = expireWindows_counts [OF wins assms(2,3)]
  then have "unique_suppressions (w_tables w1)" by simp
  from expireSilences_counts [OF sils this] one n show ?thesis
    by (auto simp: due_silences_def due_windows_def)
qed


definition sampleSilence :: silence_row where
  "sampleSilence = \<lparr> sl_id = ''c1'', sl_reason = ''known'', sl_incident_id = None, sl_rule_id = None,
     sl_resource_id = Some ''11111111-1111-4111-8111-111111111111'', sl_starts_at = 1000,
     sl_expires_at = 62135596800000008000, sl_enabled = True, sl_revoked_at = None,
     sl_expired_at = None, sl_created_by_user_id = None, sl_created_by_name = ''Ada'',
     sl_version = 1, sl_created_at = 1000, sl_updated_at = 1000 \<rparr>"

definition sampleBacklog :: world where
  "sampleBacklog = sampleMaintained\<lparr>w_tables := (w_tables sampleMaintained)\<lparr>
     t_silences := [sampleSilence], t_windows := [sampleWindow\<lparr>mw_enabled := False\<rparr>]\<rparr>\<rparr>"

lemma sample_pass:
  "\<exists>w'. Suppression_ProcessOnce id (\<lambda>_. False) 62135596800000010000 sampleBacklog = (Inr (2, None), w')"
  by (simp add: Suppression_ProcessOnce_def expireWindow_def expireWindow_body_def first_by_def
      due_window_def expireSilences_def due_silence_def numeral_eq_Suc suppression_eval
      sample_suppression_eval sampleBacklog_def sampleSilence_def scanMaintenance_def cong: tx_frozen)

theorem expiry_pass_bounded_progress_witness:
  "\<exists>w'. Suppression_ProcessOnce id (\<lambda>_. False) 62135596800000010000 sampleBacklog = (Inr (2, None), w')
    \<and> map mw_expired_at (t_windows (w_tables w')) = [Some 62135596800000010000]
    \<and> map sl_expired_at (t_silences (w_tables w')) = [Some 62135596800000010000]
    \<and> due_windows 62135596800000010000 (w_tables w') = 0
    \<and> due_silences 62135596800000010000 (w_tables w') = 0"
proof -
  obtain w' where run: "Suppression_ProcessOnce id (\<lambda>_. False) 62135596800000010000 sampleBacklog = (Inr (2, None), w')"
    using sample_pass by blast
  have uniq: "unique_suppressions (w_tables sampleBacklog)"
    and due: "due_windows 62135596800000010000 (w_tables sampleBacklog) = 1"
      "due_silences 62135596800000010000 (w_tables sampleBacklog) = 1"
    and at: "truncate_us 62135596800000010000 = 62135596800000010000"
    and wins: "map mw_expired_at (expire_first_windows 50 62135596800000010000
      (t_windows (w_tables sampleBacklog))) = [Some 62135596800000010000]"
    and sils: "map sl_expired_at (expire_first_silences 50 62135596800000010000
      (t_silences (w_tables sampleBacklog))) = [Some 62135596800000010000]"
    by code_simp+
  from expiry_pass_bounded_progress [OF run _ uniq] run show ?thesis
    by (simp add: at due wins sils)
qed

end
