(* ===== verification/Suppression_Life.thy ===== *)
theory Suppression_Life
  imports Suppressions
begin

text \<open>
  The life of a suppression over whole runs of the service and its worker: a step relation
  for every operation of package \<open>suppressions\<close> and for whatever the rest of the system does,
  the finality of a revocation, the idempotency of the mutations, and the agreement of the two
  places that decide whether a silence applies.
\<close>

section \<open>Revocation is final\<close>

definition revoked_kept :: "tables \<Rightarrow> tables \<Rightarrow> bool" where
  "revoked_kept a b \<longleftrightarrow> (unique_suppressions a \<longrightarrow> unique_suppressions b
     \<and> (\<forall>m \<in> set (t_windows a). mw_revoked_at m \<noteq> None \<longrightarrow>
          (\<exists>m' \<in> set (t_windows b). mw_id m' = mw_id m \<and> mw_revoked_at m' = mw_revoked_at m))
     \<and> (\<forall>m \<in> set (t_silences a). sl_revoked_at m \<noteq> None \<longrightarrow>
          (\<exists>m' \<in> set (t_silences b). sl_id m' = sl_id m \<and> sl_revoked_at m' = sl_revoked_at m)))"

interpretation revocation: tx_relation revoked_kept
proof
  show "revoked_kept t t" for t by (auto simp: revoked_kept_def)
  show "revoked_kept a c" if "revoked_kept a b" and "revoked_kept b c" for a b c
    using that unfolding revoked_kept_def by metis
qed

lemma revoked_kept_same:
  "t_windows b = t_windows a \<Longrightarrow> t_silences b = t_silences a \<Longrightarrow> revoked_kept a b"
  by (auto simp: revoked_kept_def unique_suppressions_def)

definition suppression_part :: "tables \<Rightarrow> window_row list \<times> silence_row list" where
  "suppression_part t = (t_windows t, t_silences t)"

lemma revocation_keeps: "keeps suppression_part m \<Longrightarrow> always revoked_kept m"
  unfolding keeps_def always_def by (auto simp: suppression_part_def intro: revoked_kept_same)

lemma revocation_journal: "always journal_only m \<Longrightarrow> always revoked_kept m"
  unfolding always_def by (auto dest!: journal_onlyD intro: revoked_kept_same)

lemma update_where_ex:
  "r \<in> set rows \<Longrightarrow> (p r \<Longrightarrow> Q (f r)) \<Longrightarrow> (\<not> p r \<Longrightarrow> Q r) \<Longrightarrow> \<exists>r' \<in> set (update_where p f rows). Q r'"
  by (auto simp: set_update_where)

text \<open>An \<open>UPDATE\<close> that touches revoked rows only in other columns.\<close>

lemma revoked_kept_windows:
  assumes "\<And>r. mw_id (f r) = mw_id r"
    and "\<And>r. unique_suppressions t \<Longrightarrow> r \<in> set (t_windows t) \<Longrightarrow> p r \<Longrightarrow> mw_revoked_at r \<noteq> None \<Longrightarrow>
      mw_revoked_at (f r) = mw_revoked_at r"
  shows "revoked_kept t (t\<lparr>t_windows := update_where p f (t_windows t)\<rparr>)"
  unfolding revoked_kept_def
proof (intro impI conjI ballI)
  assume u: "unique_suppressions t"
  then show "unique_suppressions (t\<lparr>t_windows := update_where p f (t_windows t)\<rparr>)"
    using assms(1) by (simp add: unique_suppressions_def map_update_where)
  show "\<exists>m' \<in> set (t_windows (t\<lparr>t_windows := update_where p f (t_windows t)\<rparr>)). mw_id m' = mw_id m \<and> mw_revoked_at m' = mw_revoked_at m"
    if "m \<in> set (t_windows t)" "mw_revoked_at m \<noteq> None" for m
    using assms that u by (auto intro!: update_where_ex)
qed (auto intro: bexI)

lemma revoked_kept_silences:
  assumes "\<And>r. sl_id (f r) = sl_id r"
    and "\<And>r. unique_suppressions t \<Longrightarrow> r \<in> set (t_silences t) \<Longrightarrow> p r \<Longrightarrow> sl_revoked_at r \<noteq> None \<Longrightarrow>
      sl_revoked_at (f r) = sl_revoked_at r"
  shows "revoked_kept t (t\<lparr>t_silences := update_where p f (t_silences t)\<rparr>)"
  unfolding revoked_kept_def
proof (intro impI conjI ballI)
  assume u: "unique_suppressions t"
  then show "unique_suppressions (t\<lparr>t_silences := update_where p f (t_silences t)\<rparr>)"
    using assms(1) by (simp add: unique_suppressions_def map_update_where)
  show "\<exists>m' \<in> set (t_silences (t\<lparr>t_silences := update_where p f (t_silences t)\<rparr>)). sl_id m' = sl_id m \<and> sl_revoked_at m' = sl_revoked_at m"
    if "m \<in> set (t_silences t)" "sl_revoked_at m \<noteq> None" for m
    using assms that u by (auto intro!: update_where_ex)
qed (auto intro: bexI)

lemma revocation_create:
  "always revoked_kept (createMaintenance v md now)" "always revoked_kept (createSilence s md now)"
  unfolding createMaintenance_def createSilence_def Let_def
  by (rule revocation.insert;
      auto simp: revoked_kept_def unique_suppressions_def new_window_row_def new_silence_row_def
        set_window_columns_def set_silence_columns_def split: if_splits)+

lemma keeps_reads: "keeps suppression_part (readMaintenance i)" "keeps suppression_part (readSilence i)"
  "keeps suppression_part (validateMaintenanceReferences v)" "keeps suppression_part (validateSilenceReferences s)"
  by (rule keeps_reading)+

lemma revocation_record: "always revoked_kept (recordMutation rt md target operation hash i version before after now)"
  by (rule revocation_keeps, rule keeps_recordMutation) (simp_all add: suppression_part_def)

lemma revocation_replace: "always revoked_kept (replaceMaintenance i v md now)"
  unfolding replaceMaintenance_def Let_def
  by (intro revocation.composition revocation_keeps [OF keeps_reads(1)] revocation.affect)
    (auto intro!: revoked_kept_windows)

lemma revocation_replace_silence: "always revoked_kept (replaceSilence i v md now)"
  unfolding replaceSilence_def Let_def
  by (intro revocation.composition revocation_keeps [OF keeps_reads(2)] revocation.affect)
    (auto intro!: revoked_kept_silences simp: set_silence_columns_def)

lemma revocation_exit: "always revoked_kept (appendExitSignals arrange v at)"
  by (rule revocation_journal) (rule journal_only_exit)

lemma revocation_apply:
  "always revoked_kept (applyMaintenance rt arrange operation i v md hash now)"
  "always revoked_kept (applySilence rt operation i s md hash now)"
  unfolding applyMaintenance_def applySilence_def
  by (intro revocation.composition revocation_keeps [OF keeps_reads(1)] revocation_keeps [OF keeps_reads(2)]
      revocation_keeps [OF keeps_reads(3)] revocation_keeps [OF keeps_reads(4)] revocation_create
      revocation_replace revocation_replace_silence revocation_exit revocation_record)+

lemma revocation_tx:
  "always revoked_kept body \<Longrightarrow> always revoked_kept (suppression_tx md target operation hash now body)"
  unfolding suppression_tx_def publish_def
  by (intro revocation.composition revocation_keeps [OF keeps_Replay])

lemma revocation_mutate:
  "always revoked_kept (mutateMaintenance rt arrange clock operation i v md)"
  "always revoked_kept (mutateSilence rt clock operation i s md)"
  unfolding mutateMaintenance_def mutateSilence_def Let_def
  by (intro revocation.composition revocation_tx revocation_apply)+

lemma revocation_worker: "always revoked_kept (Suppression_ProcessOnce arrange locked clock)"
proof -
  have one: "always revoked_kept (expireWindow arrange locked now)" for now
    unfolding expireWindow_def expireWindow_body_def publish_def Let_def
    by (intro revocation.composition revocation_exit revocation.exec) (auto intro: revoked_kept_windows)
  have "always revoked_kept (expireWindows n arrange locked now k)" for n now k
    by (induction n arbitrary: k)
      (auto intro!: revocation.composition revocation.attempt one simp: split_def)
  moreover have "always revoked_kept (expireSilences locked now)" for now
    unfolding expireSilences_def Let_def
    by (rule revocation.affect) (auto intro: revoked_kept_silences)
  ultimately show ?thesis
    unfolding Suppression_ProcessOnce_def Let_def
    by (intro revocation.composition revocation.attempt)
qed


lemma suppression_tx_atomic:
  assumes "suppression_tx md target operation hash now body w = (Inl e, w')"
  shows "w_tables w' = w_tables w"
  using assms
  by (auto simp: suppression_tx_def tx_bind_def publish_def hub_publish_def dest: in_tx_atomic
      split: prod.splits sum.splits if_splits)

definition revoked_silence :: "time \<Rightarrow> silence_row \<Rightarrow> silence_row" where
  "revoked_silence now m = m\<lparr> sl_revoked_at := Some now, sl_version := sl_version m + 1,
     sl_updated_at := now \<rparr>"

lemma revokeSilenceRow_Inr:
  assumes "revokeSilenceRow i md now w = (Inr out, w')"
  shows "\<exists>m. find_row sl_id (uuid_param i) (t_silences (w_tables w)) = Some m \<and> sl_revoked_at m = None
    \<and> w_tables w' = (w_tables w)\<lparr>t_silences := update_where (\<lambda>m. sl_id m = uuid_param i)
       (revoked_silence now) (t_silences (w_tables w))\<rparr>"
  using assms unfolding revokeSilenceRow_def Let_def revoked_silence_def [symmetric]
  by (auto simp: tx_bind_Inr readSilence_Inr tx_affect_Inr scanSilence_def split: if_splits option.splits)

text \<open>The row a key finds is the only row with that key.\<close>

lemma find_row_only:
  "find_row key k rows = Some m \<Longrightarrow> distinct (map key rows) \<Longrightarrow> r \<in> set rows \<Longrightarrow> key r = k \<Longrightarrow> r = m"
  using find_row_distinct [of key rows r] by auto

lemma applyRevoke_revoked_kept:
  assumes "applyRevoke rt arrange target i md hash now w = (Inr rc, w')"
  shows "revoked_kept (w_tables w) (w_tables w')"
proof -
  from assms obtain version before w2 where
    rev: "(if target = ''maintenance_window'' then revokeWindow arrange i md now
        else revokeSilenceRow i md now) w = (Inr (version, before), w2)"
    and rec: "recordMutation rt md target ''revoke'' hash i version (Some before)
       [(''revoked_at'', JTime now), (''version'', JInt version)] now w2 = (Inr rc, w')"
    by (auto simp: applyRevoke_def tx_bind_Inr)
  have "revoked_kept (w_tables w) (w_tables w2)"
  proof (cases "target = ''maintenance_window''")
    case True
    with rev have "revokeWindow arrange i md now w = (Inr (version, before), w2)" by simp
    then obtain m w1 where m: "find_row mw_id (uuid_param i) (t_windows (w_tables w)) = Some m" "mw_revoked_at m = None"
      and t1: "w_tables w1 = (w_tables w)\<lparr>t_windows := update_where (\<lambda>m. mw_id m = uuid_param i)
         (revoked_window now) (t_windows (w_tables w))\<rparr>"
      and out: "(if maintenanceActive (scanMaintenance m) now then appendExitSignals arrange (scanMaintenance m) now
         else tx_return ()) w1 = (Inr (), w2)"
      by (rule revokeWindow_Inr) blast
    have one: "revoked_kept (w_tables w) (w_tables w1)"
      unfolding t1
    proof (rule revoked_kept_windows)
      show "mw_revoked_at (revoked_window now r) = mw_revoked_at r"
        if "unique_suppressions (w_tables w)" "r \<in> set (t_windows (w_tables w))" "mw_id r = uuid_param i"
          "mw_revoked_at r \<noteq> None" for r
        using that m find_row_only [OF m(1), of r] by (auto simp: unique_suppressions_def)
    qed simp
    have "always revoked_kept (if maintenanceActive (scanMaintenance m) now
        then appendExitSignals arrange (scanMaintenance m) now else tx_return ())"
      by (intro revocation.composition revocation_exit)
    from alwaysD [OF this, of w1] out have "revoked_kept (w_tables w1) (w_tables w2)" by simp
    with one show ?thesis by (rule revocation.trans)
  next
    case False
    with rev have "revokeSilenceRow i md now w = (Inr (version, before), w2)" by simp
    from revokeSilenceRow_Inr [OF this] obtain m where
      m: "find_row sl_id (uuid_param i) (t_silences (w_tables w)) = Some m" "sl_revoked_at m = None"
      and t2: "w_tables w2 = (w_tables w)\<lparr>t_silences := update_where (\<lambda>m. sl_id m = uuid_param i)
         (revoked_silence now) (t_silences (w_tables w))\<rparr>" by blast
    show ?thesis
      unfolding t2
    proof (rule revoked_kept_silences)
      show "sl_revoked_at (revoked_silence now r) = sl_revoked_at r"
        if "unique_suppressions (w_tables w)" "r \<in> set (t_silences (w_tables w))" "sl_id r = uuid_param i"
          "sl_revoked_at r \<noteq> None" for r
        using that m find_row_only [OF m(1), of r] by (auto simp: unique_suppressions_def)
    qed (simp add: revoked_silence_def)
  qed
  moreover have "revoked_kept (w_tables w2) (w_tables w')"
    using alwaysD [OF revocation_record, of w2] rec by (metis snd_conv)
  ultimately show ?thesis by (rule revocation.trans)
qed

lemma revocation_revoke: "always revoked_kept (revoke rt arrange clock target i md)"
proof (rule alwaysI)
  fix w
  let ?h = "revokeHash rt target i md" and ?now = "truncate_us clock"
  obtain r w' where run: "suppression_tx md target ''revoke'' ?h ?now
      (applyRevoke rt arrange target i md ?h ?now) w = (r, w')" by (cases "suppression_tx md target ''revoke'' ?h ?now (applyRevoke rt arrange target i md ?h ?now) w")
  have "revoked_kept (w_tables w) (w_tables w')"
  proof (cases r)
    case (Inl e)
    with run suppression_tx_atomic show ?thesis by (metis revocation.refl)
  next
    case (Inr rc)
    with run have "suppression_tx md target ''revoke'' ?h ?now
      (applyRevoke rt arrange target i md ?h ?now) w = (Inr rc, w')" by simp
    then show ?thesis
      by (rule suppression_tx_Inr) (auto intro: revocation.refl dest: applyRevoke_revoked_kept)
  qed
  with run show "revoked_kept (w_tables w) (w_tables (snd (revoke rt arrange clock target i md w)))"
    by (simp add: revoke_def Let_def)
qed

section \<open>Runs\<close>

text \<open>
  Every operation of the package, whichever statements fail, and every step of the rest of the
  system, which reads the two tables and never writes them.
\<close>

inductive suppression_step :: "world \<Rightarrow> world \<Rightarrow> bool" where
  maintain: "suppression_step w (snd (mutateMaintenance rt arrange clock operation i v md w))"
| silence: "suppression_step w (snd (mutateSilence rt clock operation i s md w))"
| revoked: "suppression_step w (snd (revoke rt arrange clock target i md w))"
| expire: "suppression_step w (snd (Suppression_ProcessOnce arrange locked clock w))"
| elsewhere: "suppression_part (w_tables w') = suppression_part (w_tables w) \<Longrightarrow> suppression_step w w'"

inductive_cases suppression_stepE: "suppression_step w w'"

lemma suppression_step_revoked: "suppression_step w w' \<Longrightarrow> revoked_kept (w_tables w) (w_tables w')"
  by (erule suppression_stepE)
    (auto intro: alwaysD revocation_mutate revocation_revoke revocation_worker revoked_kept_same
      simp: suppression_part_def)

lemma suppression_run_revoked: "suppression_step\<^sup>*\<^sup>* w w' \<Longrightarrow> revoked_kept (w_tables w) (w_tables w')"
  by (induction rule: rtranclp_induct)
    (auto intro: revocation.refl revocation.trans suppression_step_revoked)

text \<open>
  A revocation is final. Whatever operators and the worker do afterwards, with whatever
  failures, a revoked window stays in the table with its revocation time and never covers
  anything again, and a revoked silence never applies to any incident again.
\<close>

theorem revocation_is_final:
  assumes "suppression_step\<^sup>*\<^sup>* w w'" and "unique_suppressions (w_tables w)"
  shows "(m \<in> set (t_windows (w_tables w)) \<and> mw_revoked_at m = Some at \<longrightarrow>
      (\<exists>m'. find_row mw_id (mw_id m) (t_windows (w_tables w')) = Some m' \<and> mw_revoked_at m' = Some at
        \<and> (\<forall>i r c when. \<not> window_covers i r c when m')))
    \<and> (s \<in> set (t_silences (w_tables w)) \<and> sl_revoked_at s = Some at \<longrightarrow>
      (\<exists>s'. find_row sl_id (sl_id s) (t_silences (w_tables w')) = Some s' \<and> sl_revoked_at s' = Some at
        \<and> (\<forall>c when. \<not> silence_applies c when s')))"
proof -
  from suppression_run_revoked [OF assms(1)] assms(2) have uniq: "unique_suppressions (w_tables w')"
    and wins: "\<forall>m \<in> set (t_windows (w_tables w)). mw_revoked_at m \<noteq> None \<longrightarrow>
          (\<exists>m' \<in> set (t_windows (w_tables w')). mw_id m' = mw_id m \<and> mw_revoked_at m' = mw_revoked_at m)"
    and sils: "\<forall>m \<in> set (t_silences (w_tables w)). sl_revoked_at m \<noteq> None \<longrightarrow>
          (\<exists>m' \<in> set (t_silences (w_tables w')). sl_id m' = sl_id m \<and> sl_revoked_at m' = sl_revoked_at m)"
    by (simp_all add: revoked_kept_def)
  have found: "\<exists>m'. find_row mw_id (mw_id m) (t_windows (w_tables w')) = Some m' \<and> mw_revoked_at m' = Some at"
    if "m \<in> set (t_windows (w_tables w))" "mw_revoked_at m = Some at"
  proof -
    from that wins obtain m' where "m' \<in> set (t_windows (w_tables w'))" "mw_id m' = mw_id m" "mw_revoked_at m' = Some at"
      by fastforce
    with find_row_distinct [of mw_id "t_windows (w_tables w')" m'] uniq show ?thesis
      by (simp add: unique_suppressions_def)
  qed
  have found_silence: "\<exists>s'. find_row sl_id (sl_id s) (t_silences (w_tables w')) = Some s' \<and> sl_revoked_at s' = Some at"
    if "s \<in> set (t_silences (w_tables w))" "sl_revoked_at s = Some at"
  proof -
    from that sils obtain s' where "s' \<in> set (t_silences (w_tables w'))" "sl_id s' = sl_id s" "sl_revoked_at s' = Some at"
      by fastforce
    with find_row_distinct [of sl_id "t_silences (w_tables w')" s'] uniq show ?thesis
      by (simp add: unique_suppressions_def)
  qed
  show ?thesis
    using found found_silence by (fastforce simp: window_covers_def silence_applies_def)
qed


definition sampleRevoked :: world where
  "sampleRevoked = sampleBacklog\<lparr>w_tables := (w_tables sampleBacklog)\<lparr>
     t_windows := [sampleWindow\<lparr>mw_revoked_at := Some 2000\<rparr>]\<rparr>\<rparr>"

theorem revocation_is_final_witness:
  "\<exists>m'. find_row mw_id ''b1'' (t_windows (w_tables (snd (Suppression_ProcessOnce id (\<lambda>_. False)
      62135596800000010000 sampleRevoked)))) = Some m' \<and> mw_revoked_at m' = Some 2000
    \<and> \<not> window_covers '''' ''11111111-1111-4111-8111-111111111111'' ''host.up'' 62135596800000005000 m'"
proof -
  let ?m = "sampleWindow\<lparr>mw_revoked_at := Some 2000\<rparr>"
  let ?w' = "snd (Suppression_ProcessOnce id (\<lambda>_. False) 62135596800000010000 sampleRevoked)"
  have run: "suppression_step\<^sup>*\<^sup>* sampleRevoked ?w'"
    by (rule r_into_rtranclp) (rule suppression_step.expire)
  have "unique_suppressions (w_tables sampleRevoked)" and "?m \<in> set (t_windows (w_tables sampleRevoked))"
    and "mw_revoked_at ?m = Some 2000" and "mw_id ?m = ''b1''"
    by code_simp+
  with revocation_is_final [OF run, of ?m 2000] show ?thesis by metis
qed

section \<open>Two deciders of a silence\<close>

text \<open>
  The notification writer and \<open>MatchSilence\<close> decide alike, for canonical identifiers and an
  instant in whole microseconds.
\<close>

lemma match_silence_agrees:
  assumes "uuid_param (ne_IncidentID e) = ne_IncidentID e" and "uuid_param (ne_RuleID e) = ne_RuleID e"
    and "uuid_param (ne_ResourceID e) = ne_ResourceID e" and "truncate_us at = at"
  shows "fst (MatchSilence \<lparr> ix_IncidentID = ne_IncidentID e, ix_RuleID = ne_RuleID e,
      ix_ResourceID = ne_ResourceID e \<rparr> at w) = (case fst (matchingSilence e at w) of
        Inl x \<Rightarrow> Inl x
      | Inr _ \<Rightarrow> Inr (map_option (\<lambda>m. \<lparr> sm_ID = sl_id m, sm_Reason = sl_reason m, sm_ExpiresAt = sl_expires_at m \<rparr>)
          (first_by silence_order (filter (silence_matches e at) (t_silences (w_tables w))))))"
proof -
  have null: "uuid_or_null s = nullif s" if "uuid_param s = s" for s
    using that by (simp add: uuid_or_null_def nullif_def)
  have "silence_applies \<lparr> ix_IncidentID = ne_IncidentID e, ix_RuleID = ne_RuleID e,
      ix_ResourceID = ne_ResourceID e \<rparr> at = silence_matches e at"
    using assms(1-3) by (auto simp: fun_eq_iff silence_applies_def silence_matches_def null)
  with assms(4) show ?thesis
    by (simp add: MatchSilence_def matchingSilence_def tx_query_def tx_stmt_def)
qed

section \<open>Repeated requests\<close>

text \<open>After a mutation answered, its key answers the same receipt again, marked as replayed.\<close>

lemma suppression_tx_recorded:
  assumes "suppression_tx md target operation hash now body w = (Inr rc, w')"
    and "canonical_receipts (w_tables w)"
    and "\<And>w1 rc w2. body w1 = (Inr rc, w2) \<Longrightarrow> \<exists>t. admin_lookup t (suppression_key md target operation) = None
       \<and> w_tables w2 = admin_put (suppression_key md target operation) hash rc t"
  shows "admin_lookup (w_tables w') (suppression_key md target operation) = Some (hash, replayed rc)"
  using assms(1)
proof (cases rule: suppression_tx_Inr)
  case replayed
  with admin_decide_canonical [OF assms(2) replayed(1)] show ?thesis
    by (auto simp: admin.decide_def split: option.splits if_splits)
next
  case (fresh w1 w2)
  with assms(3) [OF fresh(3)] show ?thesis by (auto simp: admin_lookup_put)
qed

lemma suppression_tx_again:
  assumes "admin_lookup (w_tables w) (suppression_key md target operation) = Some (hash, rc)" and "w_faults w = []"
  shows "suppression_tx md target operation hash' now body w =
    (if hash' = hash then Inr rc else Inl ErrIdempotencyConflict, w)"
  using assms
  by (auto simp: suppression_tx_def in_tx_run tx_bind_eval Replay_def tx_query_run suppression_key_def nofault_simps)

lemma apply_recorded:
  "applyMaintenance rt arrange operation i v md hash now w = (Inr rc, w') \<Longrightarrow>
     \<exists>t. admin_lookup t (suppression_key md ''maintenance_window'' operation) = None
       \<and> w_tables w' = admin_put (suppression_key md ''maintenance_window'' operation) hash rc t"
  "applySilence rt operation i s md hash now w = (Inr rc, w') \<Longrightarrow>
     \<exists>t. admin_lookup t (suppression_key md ''silence'' operation) = None
       \<and> w_tables w' = admin_put (suppression_key md ''silence'' operation) hash rc t"
  "applyRevoke rt arrange target i md hash now w = (Inr rc, w') \<Longrightarrow>
     \<exists>t. admin_lookup t (suppression_key md target ''revoke'') = None
       \<and> w_tables w' = admin_put (suppression_key md target ''revoke'') hash rc t"
  by (auto simp: applyMaintenance_def applySilence_def applyRevoke_def tx_bind_Inr dest!: recordMutation_Inr)

text \<open>The three mutations are idempotent, whatever later requests have stored.\<close>

lemma later_receipts:
  assumes "admin_lookup a k = Some x" and "t_admin_keys b = t_admin_keys a @ later"
  shows "admin_lookup b k = Some x"
  using assms by (auto simp: admin_lookup_def find_row_append split: option.splits)

lemma suppression_idempotent:
  assumes "canonical_receipts (w_tables w)" and "w_faults w2 = []"
    and "t_admin_keys (w_tables w2) = t_admin_keys (w_tables w') @ later"
  shows "mutateMaintenance rt arrange clock operation i v md w = (Inr rc, w') \<Longrightarrow>
      mutateMaintenance rt arrange clock' operation i v md w2 = (Inr (replayed rc), w2)"
    and "mutateSilence rt clock operation i s md w = (Inr rc, w') \<Longrightarrow>
      mutateSilence rt clock' operation i s md w2 = (Inr (replayed rc), w2)"
    and "revoke rt arrange clock target i md w = (Inr rc, w') \<Longrightarrow>
      revoke rt arrange clock' target i md w2 = (Inr (replayed rc), w2)"
  using assms(1,2)
  by (auto simp: mutateMaintenance_def mutateSilence_def revoke_def Let_def split: sum.splits
      dest!: suppression_tx_recorded [OF _ assms(1)] intro!: suppression_tx_again [THEN trans]
      later_receipts [OF _ assms(3)] dest: apply_recorded)


section \<open>A window that has ended but not yet expired\<close>

text \<open>
  Between the end of a window and the next pass of the worker, a revocation finds the window
  no longer running and writes no exit signals; the worker then sees a revoked window and
  writes none either. The checks under such a window are not looked at again until their next
  observation.
\<close>

lemma late_revocation_writes_no_exit:
  assumes "RevokeMaintenance rt arrange clock i md w = (Inr rc, w')" and "\<not> rc_Replayed rc"
    and "find_row mw_id (uuid_param i) (t_windows (w_tables w)) = Some m"
    and "mw_ends_at m \<le> truncate_us clock"
  shows "t_signals (w_tables w') = t_signals (w_tables w)
    \<and> find_row mw_id (uuid_param i) (t_windows (w_tables w')) = Some (revoked_window (truncate_us clock) m)"
proof -
  let ?h = "revokeHash rt ''maintenance_window'' i md" and ?now = "truncate_us clock"
  from assms(1) have "suppression_tx md ''maintenance_window'' ''revoke'' ?h ?now
      (applyRevoke rt arrange ''maintenance_window'' i md ?h ?now) w = (Inr rc, w')"
    by (simp add: RevokeMaintenance_def revoke_def Let_def)
  then obtain w1 w2 where t1: "w_tables w1 = w_tables w" "w_tables w' = w_tables w2"
    and body: "applyRevoke rt arrange ''maintenance_window'' i md ?h ?now w1 = (Inr rc, w2)"
    using assms(2) by (rule suppression_tx_fresh) blast
  from body obtain version before w3 where
    rev: "revokeWindow arrange i md ?now w1 = (Inr (version, before), w3)"
    and rec: "recordMutation rt md ''maintenance_window'' ''revoke'' ?h i version (Some before)
       [(''revoked_at'', JTime ?now), (''version'', JInt version)] ?now w3 = (Inr rc, w2)"
    by (auto simp: applyRevoke_def tx_bind_Inr)
  obtain m' w4 where m': "find_row mw_id (uuid_param i) (t_windows (w_tables w1)) = Some m'"
    and t4: "w_tables w4 = (w_tables w1)\<lparr>t_windows := update_where (\<lambda>m. mw_id m = uuid_param i)
       (revoked_window ?now) (t_windows (w_tables w1))\<rparr>"
    and out: "(if maintenanceActive (scanMaintenance m') ?now
       then appendExitSignals arrange (scanMaintenance m') ?now else tx_return ()) w4 = (Inr (), w3)"
    by (rule revokeWindow_Inr [OF rev])
  from m' assms(3) t1 have "m' = m" by simp
  with out assms(4) have "w3 = w4" by (simp add: maintenanceActive_def)
  moreover have "mw_id m = uuid_param i" using find_row_SomeD [OF assms(3)] by simp
  ultimately show ?thesis
    using recordMutation_Inr [OF rec] t1 t4 find_row_changed [OF assms(3), of "revoked_window ?now"] by simp
qed

lemma revoked_expiry_writes_no_exit:
  assumes "expireWindow arrange locked now w = (Inr True, w')"
    and "next_due locked now (w_tables w) = Some m" and "mw_revoked_at m \<noteq> None"
  shows "t_signals (w_tables w') = t_signals (w_tables w)"
proof -
  from assms(1) obtain found w1 where tx: "in_tx (expireWindow_body arrange locked now) w = (Inr found, w1)"
    and w': "w_tables w' = w_tables w1"
    by (auto simp: expireWindow_def tx_bind_Inr publish_def hub_publish_def split: option.splits)
  have same: "t_signals (w_tables w2) = t_signals (w_tables w)"
    if "expireWindow_body arrange locked now (tick w) = (Inr x, w2)" for x w2
    using that(1)
  proof (rule expireWindow_body_stages)
    show "next_due locked now (w_tables (tick w)) = Some m" using assms(2) by simp
  qed (use assms(3) in auto)
  from tx obtain x w2 where "expireWindow_body arrange locked now (tick w) = (Inr x, w2)"
    and "w_tables w1 = w_tables w2 \<or> w_tables w1 = w_tables w"
    by (auto simp: in_tx_Inr)
  with same w' show ?thesis by metis
qed

end
