(* ===== verification/Scheduler.thy ===== *)
theory Scheduler
  imports Go_Text "HOL-Library.Word"
begin

text \<open>
  Package \<open>scheduler\<close>, first half (\<open>core/internal/scheduler/jitter.go\<close>, \<open>scheduler.go\<close>): the
  deterministic jitter and the dispatch of collections. One \<open>Run\<close> per adapter process
  generation selects over a timer, a manual trigger and the completion of its collection
  goroutine; all runs share a token channel that bounds the collections of the process.

  \<open>Run\<close> and its goroutines become a transition system. Every communication on a channel and
  every access to an atomic counter is a step of its own, so a theorem about reachable states
  holds for every interleaving. \<open>updateMaximum\<close> retries a compare-and-swap until the maximum
  is at least the value it was called with; its step stands for the round that succeeds.
\<close>

unbundle bit_operations_syntax

section \<open>Jitter\<close>

text \<open>\<open>hash/fnv\<close>: \<open>New64a\<close>, \<open>Write\<close>, \<open>Sum64\<close>.\<close>

definition fnv_offset64 :: "64 word" where
  "fnv_offset64 = 14695981039346656037"

definition fnv_prime64 :: "64 word" where
  "fnv_prime64 = 1099511628211"

fun fnv_Write :: "64 word \<Rightarrow> nat list \<Rightarrow> 64 word" where
  "fnv_Write h [] = h"
| "fnv_Write h (b # bs) = fnv_Write ((h XOR of_nat b) * fnv_prime64) bs"

text \<open>\<open>binary.BigEndian.PutUint64\<close>.\<close>

definition PutUint64 :: "64 word \<Rightarrow> nat list" where
  "PutUint64 v = map (\<lambda>k. unat (drop_bit (8 * k) v) mod 256) [7, 6, 5, 4, 3, 2, 1, 0]"

definition jitter_spread :: "duration \<Rightarrow> duration" where
  "jitter_spread interval =
     (let spread = interval sdiv 10 in if 30 * second < spread then 30 * second else spread)"

definition Offset :: "64 word \<Rightarrow> string \<Rightarrow> 64 word \<Rightarrow> duration \<Rightarrow> duration" where
  "Offset seed integrationID sequence interval =
     (let spread = jitter_spread interval in
      if spread \<le> 0 then 0
      else
        let hash = fnv_Write fnv_offset64 (map byte integrationID);
            value = fnv_Write hash (PutUint64 seed @ PutUint64 sequence)
        in if sequence = 0 then uint (value mod of_int (spread + 1))
           else
             let width = (of_int (2 * spread + 1) :: 64 word)
             in uint (value mod width) - spread)"

text \<open>\<open>delay\<close>: the \<open>Jitter\<close> interface is a parameter, interpreted by \<open>Offset\<close>.\<close>

definition delay :: "(string \<Rightarrow> 64 word \<Rightarrow> duration \<Rightarrow> duration) \<Rightarrow> string \<Rightarrow> duration \<Rightarrow> 64 word \<Rightarrow> duration" where
  "delay jitter integrationID interval sequence =
     (let offset = jitter integrationID sequence interval in
      if sequence = 0 then (if offset < 0 then 0 else offset)
      else
        let d = wrap64 (interval + offset)
        in if d \<le> 0 then 1 else d)"

section \<open>Bounds of the jitter\<close>

text \<open>The contract of a jitter: within a tenth of the interval and half a minute.\<close>

locale bounded_jitter =
  fixes jitter :: "string \<Rightarrow> 64 word \<Rightarrow> duration \<Rightarrow> duration"
  assumes startup: "0 \<le> interval \<Longrightarrow> 0 \<le> jitter i 0 interval \<and> jitter i 0 interval \<le> min (interval div 10) (30 * second)"
    and periodic: "0 \<le> interval \<Longrightarrow> \<bar>jitter i n interval\<bar> \<le> min (interval div 10) (30 * second)"
begin

lemma first_delay:
  "0 < interval \<Longrightarrow> 0 \<le> delay jitter i interval 0 \<and> delay jitter i interval 0 \<le> min (interval div 10) (30 * second)"
  using startup [of interval i] by (simp add: delay_def Let_def)

lemma later_delay:
  assumes "0 < interval" and "interval + 30 * second < 2 ^ 63" and "n \<noteq> 0"
  shows "0 < delay jitter i interval n
    \<and> \<bar>delay jitter i interval n - interval\<bar> \<le> min (interval div 10) (30 * second)"
proof -
  let ?o = "jitter i n interval"
  have o: "\<bar>?o\<bar> \<le> min (interval div 10) (30 * second)" using periodic assms(1) by simp
  have pos: "0 < interval + ?o"
  proof -
    have "interval div 10 < interval" using assms(1) by simp
    with o show ?thesis by linarith
  qed
  moreover have "interval + ?o < 2 ^ 63" using o assms(2) by linarith
  ultimately have "wrap64 (interval + ?o) = interval + ?o" by (intro wrap64_id) simp_all
  with pos o assms(3) show ?thesis by (simp add: delay_def Let_def)
qed

end

lemma jitter_spread_nonneg: "0 \<le> interval \<Longrightarrow> jitter_spread interval = min (interval div 10) (30 * second)"
  by (simp add: jitter_spread_def Let_def sdiv_nonneg min_def)

lemma uint_mod_less: "0 < x \<Longrightarrow> x < 2 ^ 64 \<Longrightarrow> uint ((v :: 64 word) mod of_int x) < x"
  by (simp add: uint_mod unsigned_of_int take_bit_int_eq_self)

text \<open>The hash reduced modulo a width stays below it.\<close>

definition jitter_value :: "64 word \<Rightarrow> string \<Rightarrow> 64 word \<Rightarrow> 64 word" where
  "jitter_value seed integrationID sequence = fnv_Write (fnv_Write fnv_offset64 (map byte integrationID))
     (PutUint64 seed @ PutUint64 sequence)"

interpretation stable: bounded_jitter "Offset seed" for seed
proof
  fix i :: string and n :: "64 word" and interval :: duration
  assume pos: "0 \<le> interval"
  let ?s = "jitter_spread interval"
  have s: "?s = min (interval div 10) (30 * second)" using pos by (rule jitter_spread_nonneg)
  have small: "?s + 1 < 2 ^ 64" "2 * ?s + 1 < 2 ^ 64" by (simp_all add: s min_def second_def)
  have nonneg: "0 \<le> ?s" using pos by (simp add: s second_def)
  have zero: "Offset seed i m interval = 0" if "?s = 0" for m
    using that by (simp add: Offset_def Let_def)
  have startup: "0 \<le> Offset seed i 0 interval \<and> Offset seed i 0 interval \<le> ?s"
  proof (cases "?s = 0")
    case False
    with nonneg have "uint (jitter_value seed i 0 mod of_int (?s + 1)) < ?s + 1"
      by (intro uint_mod_less small) simp
    with False nonneg show ?thesis by (simp add: Offset_def Let_def jitter_value_def)
  qed (simp add: zero)
  have periodic: "\<bar>Offset seed i n interval\<bar> \<le> ?s"
  proof (cases "?s = 0 \<or> n = 0")
    case False
    with nonneg have "uint (jitter_value seed i n mod of_int (2 * ?s + 1)) < 2 * ?s + 1"
      by (intro uint_mod_less small) simp
    with False nonneg show ?thesis by (simp add: Offset_def Let_def jitter_value_def abs_le_iff)
  next
    case True
    with startup zero nonneg show ?thesis by auto
  qed
  show "0 \<le> Offset seed i 0 interval \<and> Offset seed i 0 interval \<le> min (interval div 10) (30 * second)"
    using startup by (simp only: s)
  show "\<bar>Offset seed i n interval\<bar> \<le> min (interval div 10) (30 * second)"
    using periodic by (simp only: s)
qed


text \<open>
  C40. Collections keep to their interval: with the stable jitter, the first collection of a
  generation waits at most a tenth of the interval and at most 30 seconds, every later one
  waits a positive time that differs from the interval by at most a tenth of it and at most
  30 seconds, whatever the seed, the integration and the sequence number. The premise keeps
  the 64-bit sum of interval and offset from wrapping around.
\<close>

theorem collection_delay_bounds:
  assumes "0 < interval" and "interval + 30 * second < 2 ^ 63"
  shows "0 \<le> delay (Offset seed) i interval 0
    \<and> delay (Offset seed) i interval 0 \<le> min (interval div 10) (30 * second)
    \<and> (n = 0 \<or> 0 < delay (Offset seed) i interval n
        \<and> \<bar>delay (Offset seed) i interval n - interval\<bar> \<le> min (interval div 10) (30 * second))"
  using stable.first_delay [OF assms(1)] stable.later_delay [OF assms] by blast

theorem collection_delay_bounds_witness:
  "delay (Offset 7) ''node'' (60 * second) 0 \<le> 6 * second
    \<and> \<bar>delay (Offset 7) ''node'' (60 * second) 1 - 60 * second\<bar> \<le> 6 * second"
  using collection_delay_bounds [of "60 * second" 7 "''node''" 1] by (simp add: second_def)

section \<open>Dispatch\<close>

text \<open>
  The goroutine \<open>start\<close> spawns, between two accesses to shared state: at the select on the
  token channel; holding a token; after incrementing \<open>active\<close> and reading the new value; inside
  \<open>Collect\<close>; after decrementing \<open>active\<close>; after giving the token back; about to send on \<open>done\<close>.
  An error is the text of a Go error, \<open>None\<close> is nil.
\<close>

datatype phase =
    Waiting | Holding | Counted int | Collecting
  | Returned "string option" | Released "string option" | Sending "string option"

datatype loop = Selecting | Draining | Exited "string option"

record run =
  rn_ID :: string
  rn_Interval :: duration
  rn_sequence :: "64 word"
  rn_delay :: duration
  rn_active :: bool
  rn_pending :: bool
  rn_trigger :: bool
  rn_done :: "string option list"
  rn_workers :: "phase list"
  rn_cancelled :: bool
  rn_loop :: loop

record scheduler =
  sc_capacity :: nat
  sc_tokens :: nat
  sc_active :: int
  sc_maximum :: int
  sc_completed :: "64 word"
  sc_coalesced :: "64 word"
  sc_triggers :: "string \<Rightarrow> nat option"
  sc_runs :: "run list"

definition New :: "int \<Rightarrow> scheduler" where
  "New globalConcurrency = \<lparr> sc_capacity = nat (if globalConcurrency \<le> 0 then 4 else globalConcurrency),
     sc_tokens = 0, sc_active = 0, sc_maximum = 0, sc_completed = 0, sc_coalesced = 0,
     sc_triggers = Map.empty, sc_runs = [] \<rparr>"

definition set_run :: "nat \<Rightarrow> run \<Rightarrow> scheduler \<Rightarrow> scheduler" where
  "set_run k r s = s\<lparr>sc_runs := (sc_runs s)[k := r]\<rparr>"

text \<open>\<open>Request\<close>: a send on a channel of capacity one, or a coalesced request.\<close>

definition Request :: "scheduler \<Rightarrow> string \<Rightarrow> bool \<times> scheduler" where
  "Request s integrationID = (case sc_triggers s integrationID of
       None \<Rightarrow> (False, s)
     | Some k \<Rightarrow>
         let r = sc_runs s ! k in
         if \<not> rn_trigger r then (True, set_run k (r\<lparr>rn_trigger := True\<rparr>) s)
         else (True, s\<lparr>sc_coalesced := sc_coalesced s + 1\<rparr>))"

text \<open>\<open>Run\<close> up to its loop.\<close>

definition Run_begin ::
  "(string \<Rightarrow> 64 word \<Rightarrow> duration \<Rightarrow> duration) \<Rightarrow> string \<Rightarrow> duration \<Rightarrow> scheduler \<Rightarrow> string + scheduler" where
  "Run_begin jitter integrationID interval s =
     (if interval \<le> 0 then Inl ''invalid_collection_interval''
      else Inr (s\<lparr> sc_triggers := (sc_triggers s)(integrationID \<mapsto> length (sc_runs s)),
        sc_runs := sc_runs s @ [\<lparr> rn_ID = integrationID, rn_Interval = interval, rn_sequence = 0,
          rn_delay = delay jitter integrationID interval 0, rn_active = False, rn_pending = False,
          rn_trigger = False, rn_done = [], rn_workers = [], rn_cancelled = False,
          rn_loop = Selecting \<rparr>] \<rparr>))"

definition start_collection :: "run \<Rightarrow> run" where
  "start_collection r = r\<lparr> rn_active := True, rn_workers := rn_workers r @ [Waiting] \<rparr>"

text \<open>A request for work, from the timer or from the trigger.\<close>

definition demand :: "nat \<Rightarrow> run \<Rightarrow> scheduler \<Rightarrow> scheduler" where
  "demand k r s =
     (if rn_active r then
        if \<not> rn_pending r then (set_run k (r\<lparr>rn_pending := True\<rparr>) s)\<lparr>sc_coalesced := sc_coalesced s + 1\<rparr>
        else set_run k r s
      else set_run k (start_collection r) s)"

definition on_timer :: "(string \<Rightarrow> 64 word \<Rightarrow> duration \<Rightarrow> duration) \<Rightarrow> nat \<Rightarrow> scheduler \<Rightarrow> scheduler" where
  "on_timer jitter k s =
     (let r = sc_runs s ! k; n = rn_sequence r + 1
      in demand k (r\<lparr> rn_sequence := n, rn_delay := delay jitter (rn_ID r) (rn_Interval r) n \<rparr>) s)"

definition on_trigger :: "nat \<Rightarrow> scheduler \<Rightarrow> scheduler" where
  "on_trigger k s = demand k ((sc_runs s ! k)\<lparr>rn_trigger := False\<rparr>) s"

text \<open>Returning runs the deferred removal of the trigger, if it is still this run's.\<close>

definition leave :: "nat \<Rightarrow> run \<Rightarrow> string option \<Rightarrow> scheduler \<Rightarrow> scheduler" where
  "leave k r e s = (set_run k (r\<lparr>rn_loop := Exited e\<rparr>) s)\<lparr>
     sc_triggers := (if sc_triggers s (rn_ID r) = Some k then (sc_triggers s)(rn_ID r := None)
       else sc_triggers s) \<rparr>"

definition on_done :: "nat \<Rightarrow> scheduler \<Rightarrow> scheduler" where
  "on_done k s =
     (let r = sc_runs s ! k; e = hd (rn_done r);
          r = r\<lparr> rn_done := tl (rn_done r), rn_active := False \<rparr>
      in if e \<noteq> None then leave k r e s
         else if rn_pending r then set_run k (start_collection (r\<lparr>rn_pending := False\<rparr>)) s
         else set_run k r s)"

definition context_canceled :: string where
  "context_canceled = ''context canceled''"

definition on_cancel :: "nat \<Rightarrow> scheduler \<Rightarrow> scheduler" where
  "on_cancel k s =
     (let r = sc_runs s ! k
      in if rn_active r then set_run k (r\<lparr>rn_loop := Draining\<rparr>) s
         else leave k r (Some context_canceled) s)"

definition on_drained :: "nat \<Rightarrow> scheduler \<Rightarrow> scheduler" where
  "on_drained k s =
     (let r = sc_runs s ! k in leave k (r\<lparr>rn_done := tl (rn_done r)\<rparr>) (Some context_canceled) s)"

definition set_worker :: "nat \<Rightarrow> nat \<Rightarrow> phase \<Rightarrow> scheduler \<Rightarrow> scheduler" where
  "set_worker k j p s = (let r = sc_runs s ! k in set_run k (r\<lparr>rn_workers := (rn_workers r)[j := p]\<rparr>) s)"

definition updateMaximum :: "int \<Rightarrow> int \<Rightarrow> int" where
  "updateMaximum maximum current = (if current \<le> maximum then maximum else current)"

definition Snapshot :: "scheduler \<Rightarrow> int \<times> int \<times> 64 word \<times> 64 word" where
  "Snapshot s = (sc_active s, sc_maximum s, sc_completed s, sc_coalesced s)"

text \<open>The send on \<open>done\<close> ends the goroutine.\<close>

definition send_done :: "nat \<Rightarrow> nat \<Rightarrow> string option \<Rightarrow> scheduler \<Rightarrow> scheduler" where
  "send_done k j e s = (let r = sc_runs s ! k in set_run k (r\<lparr> rn_done := rn_done r @ [e],
     rn_workers := take j (rn_workers r) @ drop (Suc j) (rn_workers r) \<rparr>) s)"

definition selecting :: "scheduler \<Rightarrow> nat \<Rightarrow> bool" where
  "selecting s k \<longleftrightarrow> k < length (sc_runs s) \<and> rn_loop (sc_runs s ! k) = Selecting"

definition worker_at :: "scheduler \<Rightarrow> nat \<Rightarrow> nat \<Rightarrow> phase \<Rightarrow> bool" where
  "worker_at s k j p \<longleftrightarrow> k < length (sc_runs s) \<and> j < length (rn_workers (sc_runs s ! k))
     \<and> rn_workers (sc_runs s ! k) ! j = p"

inductive sched_step ::
  "(string \<Rightarrow> 64 word \<Rightarrow> duration \<Rightarrow> duration) \<Rightarrow> scheduler \<Rightarrow> scheduler \<Rightarrow> bool"
  for jitter :: "string \<Rightarrow> 64 word \<Rightarrow> duration \<Rightarrow> duration" where
  request: "sched_step jitter s (snd (Request s i))"
| opened: "Run_begin jitter i interval s = Inr s' \<Longrightarrow> sched_step jitter s s'"
| cancelled: "k < length (sc_runs s) \<Longrightarrow>
    sched_step jitter s (set_run k ((sc_runs s ! k)\<lparr>rn_cancelled := True\<rparr>) s)"
| timer: "selecting s k \<Longrightarrow> sched_step jitter s (on_timer jitter k s)"
| trigger: "selecting s k \<Longrightarrow> rn_trigger (sc_runs s ! k) \<Longrightarrow> sched_step jitter s (on_trigger k s)"
| finished: "selecting s k \<Longrightarrow> rn_done (sc_runs s ! k) \<noteq> [] \<Longrightarrow> sched_step jitter s (on_done k s)"
| stop: "selecting s k \<Longrightarrow> rn_cancelled (sc_runs s ! k) \<Longrightarrow> sched_step jitter s (on_cancel k s)"
| drained: "k < length (sc_runs s) \<Longrightarrow> rn_loop (sc_runs s ! k) = Draining \<Longrightarrow> rn_done (sc_runs s ! k) \<noteq> [] \<Longrightarrow>
    sched_step jitter s (on_drained k s)"
| acquire: "worker_at s k j Waiting \<Longrightarrow> sc_tokens s < sc_capacity s \<Longrightarrow>
    sched_step jitter s ((set_worker k j Holding s)\<lparr>sc_tokens := sc_tokens s + 1\<rparr>)"
| abandon: "worker_at s k j Waiting \<Longrightarrow> rn_cancelled (sc_runs s ! k) \<Longrightarrow>
    sched_step jitter s (set_worker k j (Sending (Some context_canceled)) s)"
| count: "worker_at s k j Holding \<Longrightarrow>
    sched_step jitter s ((set_worker k j (Counted (sc_active s + 1)) s)\<lparr>sc_active := sc_active s + 1\<rparr>)"
| maximum: "worker_at s k j (Counted c) \<Longrightarrow>
    sched_step jitter s ((set_worker k j Collecting s)\<lparr>sc_maximum := updateMaximum (sc_maximum s) c\<rparr>)"
| collected: "worker_at s k j Collecting \<Longrightarrow>
    sched_step jitter s ((set_worker k j (Returned e) s)\<lparr>sc_active := sc_active s - 1\<rparr>)"
| release: "worker_at s k j (Returned e) \<Longrightarrow>
    sched_step jitter s ((set_worker k j (Released e) s)\<lparr>sc_tokens := sc_tokens s - 1\<rparr>)"
| completed: "worker_at s k j (Released e) \<Longrightarrow>
    sched_step jitter s ((set_worker k j (Sending e) s)\<lparr>sc_completed := sc_completed s + 1\<rparr>)"
| send: "worker_at s k j (Sending e) \<Longrightarrow> rn_done (sc_runs s ! k) = [] \<Longrightarrow>
    sched_step jitter s (send_done k j e s)"


inductive_cases sched_stepE: "sched_step jitter s s'"

section \<open>Bounded concurrency\<close>

definition token_of :: "phase \<Rightarrow> nat" where
  "token_of p = (case p of Holding \<Rightarrow> 1 | Counted _ \<Rightarrow> 1 | Collecting \<Rightarrow> 1 | Returned _ \<Rightarrow> 1 | _ \<Rightarrow> 0)"

definition active_of :: "phase \<Rightarrow> nat" where
  "active_of p = (case p of Counted _ \<Rightarrow> 1 | Collecting \<Rightarrow> 1 | _ \<Rightarrow> 0)"

definition total_of :: "(phase \<Rightarrow> nat) \<Rightarrow> run list \<Rightarrow> nat" where
  "total_of f runs = (\<Sum>r\<leftarrow>runs. \<Sum>p\<leftarrow>rn_workers r. f p)"

definition run_ok :: "nat \<Rightarrow> run \<Rightarrow> bool" where
  "run_ok cap r \<longleftrightarrow>
     (case rn_loop r of
        Selecting \<Rightarrow> length (rn_workers r) + length (rn_done r) = (if rn_active r then 1 else 0)
          \<and> (rn_pending r \<longrightarrow> rn_active r)
      | Draining \<Rightarrow> length (rn_workers r) + length (rn_done r) = 1
      | Exited _ \<Rightarrow> rn_workers r = [] \<and> rn_done r = [])
     \<and> list_all (\<lambda>p. case p of Counted c \<Rightarrow> c \<le> int cap | _ \<Rightarrow> True) (rn_workers r)"

definition triggers_ok :: "scheduler \<Rightarrow> bool" where
  "triggers_ok s \<longleftrightarrow> (\<forall>i k. sc_triggers s i = Some k \<longrightarrow> k < length (sc_runs s) \<and> rn_ID (sc_runs s ! k) = i)"

definition sched_inv :: "scheduler \<Rightarrow> bool" where
  "sched_inv s \<longleftrightarrow> sc_tokens s = total_of token_of (sc_runs s)
     \<and> sc_active s = int (total_of active_of (sc_runs s))
     \<and> sc_tokens s \<le> sc_capacity s \<and> 0 \<le> sc_maximum s \<and> sc_maximum s \<le> int (sc_capacity s)
     \<and> list_all (run_ok (sc_capacity s)) (sc_runs s) \<and> triggers_ok s"

lemma total_of_update:
  "k < length runs \<Longrightarrow> total_of f (runs[k := r]) + (\<Sum>p\<leftarrow>rn_workers (runs ! k). f p)
     = total_of f runs + (\<Sum>p\<leftarrow>rn_workers r. f p)"
proof (induction runs arbitrary: k)
  case Nil
  then show ?case by simp
next
  case (Cons x xs)
  then show ?case by (cases k) (simp_all add: total_of_def add.assoc)
qed

lemma total_of_snoc [simp]: "total_of f (runs @ [r]) = total_of f runs + (\<Sum>p\<leftarrow>rn_workers r. f p)"
  by (simp add: total_of_def)

lemma active_le_token: "total_of active_of runs \<le> total_of token_of runs"
proof -
  have "(\<Sum>p\<leftarrow>ps. active_of p) \<le> (\<Sum>p\<leftarrow>ps. token_of p)" for ps
    by (rule sum_list_mono) (simp add: active_of_def token_of_def split: phase.splits)
  then show ?thesis unfolding total_of_def by (rule sum_list_mono)
qed

lemma run_ok_signals [simp]:
  "run_ok cap (r\<lparr>rn_trigger := b\<rparr>) = run_ok cap r" "run_ok cap (r\<lparr>rn_cancelled := b\<rparr>) = run_ok cap r"
  by (cases "rn_loop r"; simp add: run_ok_def)+

text \<open>Replacing one run, with the shared counters adjusted by what it holds.\<close>

lemma sched_inv_update:
  assumes inv: "sched_inv s" and k: "k < length (sc_runs s)"
    and runs: "sc_runs s' = (sc_runs s)[k := r]" and cap: "sc_capacity s' = sc_capacity s"
    and ok: "run_ok (sc_capacity s) r" and id: "rn_ID r = rn_ID (sc_runs s ! k)"
    and tokens: "sc_tokens s' + (\<Sum>p\<leftarrow>rn_workers (sc_runs s ! k). token_of p)
      = sc_tokens s + (\<Sum>p\<leftarrow>rn_workers r. token_of p)"
    and active: "sc_active s' + int (\<Sum>p\<leftarrow>rn_workers (sc_runs s ! k). active_of p)
      = sc_active s + int (\<Sum>p\<leftarrow>rn_workers r. active_of p)"
    and bounds: "sc_tokens s' \<le> sc_capacity s" "0 \<le> sc_maximum s'" "sc_maximum s' \<le> int (sc_capacity s)"
    and trig: "\<And>i j. sc_triggers s' i = Some j \<Longrightarrow> sc_triggers s i = Some j"
  shows "sched_inv s'"
proof -
  have "sc_tokens s' = total_of token_of (sc_runs s')"
    using total_of_update [OF k, of token_of r] inv tokens by (simp add: sched_inv_def runs)
  moreover have "sc_active s' = int (total_of active_of (sc_runs s'))"
    using total_of_update [OF k, of active_of r] inv active by (simp add: sched_inv_def runs)
  moreover have "list_all (run_ok (sc_capacity s')) (sc_runs s')"
    using inv ok k by (auto simp: sched_inv_def list_all_length nth_list_update runs cap)
  moreover have "j < length (sc_runs s') \<and> rn_ID (sc_runs s' ! j) = i" if "sc_triggers s' i = Some j" for i j
    using trig [OF that] inv id k by (auto simp: sched_inv_def triggers_ok_def nth_list_update runs)
  ultimately show ?thesis using bounds by (simp add: sched_inv_def triggers_ok_def cap)
qed

lemma sched_inv_run: "sched_inv s \<Longrightarrow> k < length (sc_runs s) \<Longrightarrow> run_ok (sc_capacity s) (sc_runs s ! k)"
  by (simp add: sched_inv_def list_all_length)

text \<open>A goroutine is the only one of its run, and nothing waits in the channel.\<close>

lemma single_worker:
  assumes "sched_inv s" and "worker_at s k j p"
  shows "j = 0 \<and> rn_workers (sc_runs s ! k) = [p] \<and> rn_done (sc_runs s ! k) = []
    \<and> k < length (sc_runs s) \<and> rn_loop (sc_runs s ! k) \<noteq> Exited e"
  using sched_inv_run [OF assms(1), of k] assms(2)
  by (cases "rn_workers (sc_runs s ! k)")
    (auto simp: worker_at_def run_ok_def split: loop.splits if_splits)


lemma sched_inv_New: "sched_inv (New g)"
  by (simp add: New_def sched_inv_def total_of_def triggers_ok_def)

lemma sched_inv_bounds:
  "sched_inv s \<Longrightarrow> sc_tokens s \<le> sc_capacity s" "sched_inv s \<Longrightarrow> 0 \<le> sc_maximum s"
  "sched_inv s \<Longrightarrow> sc_maximum s \<le> int (sc_capacity s)"
  by (simp_all add: sched_inv_def)

text \<open>Steps of the select loop leave the counters of running collections alone.\<close>

lemma sched_inv_loop:
  assumes "sched_inv s" and "k < length (sc_runs s)" and "sc_runs s' = (sc_runs s)[k := r]"
    and "sc_capacity s' = sc_capacity s" and "sc_tokens s' = sc_tokens s" and "sc_active s' = sc_active s"
    and "sc_maximum s' = sc_maximum s" and "run_ok (sc_capacity s) r" and "rn_ID r = rn_ID (sc_runs s ! k)"
    and "(\<Sum>p\<leftarrow>rn_workers r. token_of p) = (\<Sum>p\<leftarrow>rn_workers (sc_runs s ! k). token_of p)"
    and "(\<Sum>p\<leftarrow>rn_workers r. active_of p) = (\<Sum>p\<leftarrow>rn_workers (sc_runs s ! k). active_of p)"
    and "\<And>i j. sc_triggers s' i = Some j \<Longrightarrow> sc_triggers s i = Some j"
  shows "sched_inv s'"
  using assms(1,2,3,4,8,9)
  by (rule sched_inv_update) (use assms sched_inv_bounds [OF assms(1)] in simp_all)

lemma sched_inv_demand:
  assumes "sched_inv s" and "selecting s k" and "rn_workers r = rn_workers (sc_runs s ! k)"
    and "rn_done r = rn_done (sc_runs s ! k)" and "rn_active r = rn_active (sc_runs s ! k)"
    and "rn_pending r = rn_pending (sc_runs s ! k)" and "rn_loop r = Selecting" and "rn_ID r = rn_ID (sc_runs s ! k)"
  shows "sched_inv (demand k r s)"
proof -
  have k: "k < length (sc_runs s)" using assms(2) by (simp add: selecting_def)
  note ok = sched_inv_run [OF assms(1) k]
  let ?r = "if rn_active r then r\<lparr>rn_pending := True\<rparr> else start_collection r"
  have "run_ok (sc_capacity s) ?r" "rn_ID ?r = rn_ID (sc_runs s ! k)"
    "(\<Sum>p\<leftarrow>rn_workers ?r. token_of p) = (\<Sum>p\<leftarrow>rn_workers (sc_runs s ! k). token_of p)"
    "(\<Sum>p\<leftarrow>rn_workers ?r. active_of p) = (\<Sum>p\<leftarrow>rn_workers (sc_runs s ! k). active_of p)"
    using ok assms(2-8)
    by (auto simp: run_ok_def selecting_def start_collection_def token_of_def active_of_def)
  moreover have "sc_runs (demand k r s) = (sc_runs s)[k := ?r]"
    by (cases r) (auto simp: demand_def set_run_def)
  moreover have "sc_capacity (demand k r s) = sc_capacity s" "sc_tokens (demand k r s) = sc_tokens s"
    "sc_active (demand k r s) = sc_active s" "sc_maximum (demand k r s) = sc_maximum s"
    "sc_triggers (demand k r s) = sc_triggers s"
    by (simp_all add: demand_def set_run_def)
  ultimately show ?thesis
    by (intro sched_inv_loop [OF assms(1) k, where r = ?r]) simp_all
qed


lemma sched_inv_leave:
  assumes "sched_inv s" and "k < length (sc_runs s)" and "rn_workers (sc_runs s ! k) = []"
    and "rn_workers r = []" and "rn_done r = []" and "rn_ID r = rn_ID (sc_runs s ! k)"
  shows "sched_inv (leave k r e s)"
  by (rule sched_inv_loop [OF assms(1,2), where r = "r\<lparr>rn_loop := Exited e\<rparr>"])
    (use assms in \<open>auto simp: leave_def set_run_def run_ok_def split: if_splits\<close>)

lemma sched_inv_done:
  assumes "sched_inv s" and "selecting s k" and "rn_done (sc_runs s ! k) \<noteq> []"
  shows "sched_inv (on_done k s)"
proof -
  have k: "k < length (sc_runs s)" and sel: "rn_loop (sc_runs s ! k) = Selecting"
    using assms(2) by (simp_all add: selecting_def)
  obtain e where e: "rn_done (sc_runs s ! k) = [e]" and w: "rn_workers (sc_runs s ! k) = []"
    using sched_inv_run [OF assms(1) k] assms(3) sel
    by (cases "rn_done (sc_runs s ! k)") (auto simp: run_ok_def split: if_splits)
  let ?r = "(sc_runs s ! k)\<lparr> rn_done := [], rn_active := False \<rparr>"
  show ?thesis
  proof (cases e)
    case None
    let ?r' = "if rn_pending ?r then start_collection (?r\<lparr>rn_pending := False\<rparr>) else ?r"
    have "on_done k s = set_run k ?r' s" using e None by (simp add: on_done_def Let_def)
    moreover have "sched_inv (set_run k ?r' s)"
      by (rule sched_inv_loop [OF assms(1) k, where r = ?r'])
        (use w sel in \<open>auto simp: set_run_def run_ok_def start_collection_def token_of_def active_of_def\<close>)
    ultimately show ?thesis by simp
  next
    case (Some x)
    then have "on_done k s = leave k ?r e s" using e by (simp add: on_done_def Let_def)
    then show ?thesis using sched_inv_leave [OF assms(1) k w, of ?r] w by simp
  qed
qed

lemma sched_inv_cancel:
  assumes "sched_inv s" and "selecting s k"
  shows "sched_inv (on_cancel k s)"
proof -
  have k: "k < length (sc_runs s)" and sel: "rn_loop (sc_runs s ! k) = Selecting"
    using assms(2) by (simp_all add: selecting_def)
  note ok = sched_inv_run [OF assms(1) k]
  show ?thesis
  proof (cases "rn_active (sc_runs s ! k)")
    case True
    then have "on_cancel k s = set_run k ((sc_runs s ! k)\<lparr>rn_loop := Draining\<rparr>) s"
      by (simp add: on_cancel_def Let_def)
    moreover have "sched_inv (set_run k ((sc_runs s ! k)\<lparr>rn_loop := Draining\<rparr>) s)"
      by (rule sched_inv_loop [OF assms(1) k, where r = "(sc_runs s ! k)\<lparr>rn_loop := Draining\<rparr>"])
        (use ok sel True in \<open>auto simp: set_run_def run_ok_def\<close>)
    ultimately show ?thesis by simp
  next
    case False
    with ok sel have "rn_workers (sc_runs s ! k) = []" "rn_done (sc_runs s ! k) = []"
      by (auto simp: run_ok_def)
    with sched_inv_leave [OF assms(1) k, of "sc_runs s ! k"] False show ?thesis
      by (simp add: on_cancel_def Let_def)
  qed
qed

lemma sched_inv_drained:
  assumes "sched_inv s" and k: "k < length (sc_runs s)" and "rn_loop (sc_runs s ! k) = Draining"
    and "rn_done (sc_runs s ! k) \<noteq> []"
  shows "sched_inv (on_drained k s)"
proof -
  from sched_inv_run [OF assms(1) k] assms(3,4)
  have "rn_workers (sc_runs s ! k) = []" "tl (rn_done (sc_runs s ! k)) = []"
    by (cases "rn_done (sc_runs s ! k)"; auto simp: run_ok_def)+
  with sched_inv_leave [OF assms(1) k] show ?thesis by (simp add: on_drained_def Let_def)
qed

text \<open>A step of the goroutine, with what it does to the shared counters.\<close>

lemma sched_inv_worker:
  assumes inv: "sched_inv s" and at: "worker_at s k j p"
    and runs: "sc_runs s' = sc_runs (set_worker k j q s)" and cap: "sc_capacity s' = sc_capacity s"
    and trig: "sc_triggers s' = sc_triggers s"
    and tokens: "sc_tokens s' + token_of p = sc_tokens s + token_of q" "sc_tokens s' \<le> sc_capacity s"
    and active: "sc_active s' + int (active_of p) = sc_active s + int (active_of q)"
    and maximum: "0 \<le> sc_maximum s'" "sc_maximum s' \<le> int (sc_capacity s)"
    and counted: "\<And>c. q = Counted c \<Longrightarrow> c \<le> int (sc_capacity s)"
  shows "sched_inv s'"
proof -
  from single_worker [OF inv at] have k: "k < length (sc_runs s)" and j: "j = 0"
    and w: "rn_workers (sc_runs s ! k) = [p]" and d: "rn_done (sc_runs s ! k) = []" by auto
  let ?r = "(sc_runs s ! k)\<lparr>rn_workers := [q]\<rparr>"
  show ?thesis
  proof (rule sched_inv_update [OF inv k, where r = ?r])
    show "sc_runs s' = (sc_runs s)[k := ?r]" by (simp add: runs set_worker_def set_run_def Let_def w j)
    show "run_ok (sc_capacity s) ?r"
    proof -
      have "case q of Counted c \<Rightarrow> c \<le> int (sc_capacity s) | _ \<Rightarrow> True" by (cases q) (auto dest: counted)
      with sched_inv_run [OF inv k] w d show ?thesis
        by (cases "rn_loop (sc_runs s ! k)") (simp_all add: run_ok_def)
    qed
  qed (use w tokens active maximum cap trig in simp_all)
qed

lemma token_room: "sched_inv s \<Longrightarrow> worker_at s k j p \<Longrightarrow> token_of p \<le> sc_tokens s"
proof -
  assume inv: "sched_inv s" and at: "worker_at s k j p"
  have "token_of p = (\<Sum>p\<leftarrow>rn_workers (sc_runs s ! k). token_of p)" using single_worker [OF inv at] by simp
  also have "\<dots> \<le> total_of token_of (sc_runs s)"
    unfolding total_of_def
    by (rule member_le_sum_list)
      (use single_worker [OF inv at, of None] in \<open>force simp: in_set_conv_nth\<close>, simp)
  finally show ?thesis using inv by (simp add: sched_inv_def)
qed

text \<open>Before a goroutine counts itself, the counted ones hold other tokens.\<close>

lemma active_room:
  assumes inv: "sched_inv s" and at: "worker_at s k j Holding"
  shows "sc_active s + 1 \<le> int (sc_capacity s)"
proof -
  let ?run = "(sc_runs s ! k)\<lparr>rn_workers := [Counted 0]\<rparr>"
  from single_worker [OF inv at] have k: "k < length (sc_runs s)" and w: "rn_workers (sc_runs s ! k) = [Holding]"
    by auto
  have "total_of active_of ((sc_runs s)[k := ?run]) = total_of active_of (sc_runs s) + 1"
    using total_of_update [OF k, of active_of ?run] w by (simp add: active_of_def)
  moreover have "total_of token_of ((sc_runs s)[k := ?run]) = total_of token_of (sc_runs s)"
    using total_of_update [OF k, of token_of ?run] w by (simp add: token_of_def)
  ultimately show ?thesis
    using active_le_token [of "(sc_runs s)[k := ?run]"] inv by (simp add: sched_inv_def)
qed


lemma sched_inv_send:
  assumes inv: "sched_inv s" and at: "worker_at s k j (Sending e)"
  shows "sched_inv (send_done k j e s)"
proof -
  from single_worker [OF inv at] have k: "k < length (sc_runs s)" and j: "j = 0"
    and w: "rn_workers (sc_runs s ! k) = [Sending e]" and d: "rn_done (sc_runs s ! k) = []" by auto
  let ?r = "(sc_runs s ! k)\<lparr> rn_done := [e], rn_workers := [] \<rparr>"
  have "run_ok (sc_capacity s) ?r"
    using sched_inv_run [OF inv k] w d by (cases "rn_loop (sc_runs s ! k)") (simp_all add: run_ok_def)
  then show ?thesis
    by (intro sched_inv_loop [OF inv k, where r = ?r])
      (simp_all add: send_done_def set_run_def Let_def w d j token_of_def active_of_def)
qed

lemma sched_inv_request: "sched_inv s \<Longrightarrow> sched_inv (snd (Request s i))"
proof (cases "sc_triggers s i")
  case None
  then show "sched_inv s \<Longrightarrow> ?thesis" by (simp add: Request_def)
next
  case (Some k)
  assume inv: "sched_inv s"
  with Some have k: "k < length (sc_runs s)" by (simp add: sched_inv_def triggers_ok_def)
  have "sched_inv (set_run k ((sc_runs s ! k)\<lparr>rn_trigger := True\<rparr>) s)"
    by (rule sched_inv_loop [OF inv k, where r = "(sc_runs s ! k)\<lparr>rn_trigger := True\<rparr>"])
      (use sched_inv_run [OF inv k] in \<open>simp_all add: set_run_def\<close>)
  moreover have "sched_inv (s\<lparr>sc_coalesced := n\<rparr>)" for n
    using inv by (simp add: sched_inv_def triggers_ok_def)
  ultimately show ?thesis using Some by (simp add: Request_def Let_def)
qed

lemma sched_inv_begin: "sched_inv s \<Longrightarrow> Run_begin jitter i interval s = Inr s' \<Longrightarrow> sched_inv s'"
  by (auto simp: Run_begin_def sched_inv_def triggers_ok_def run_ok_def nth_append less_Suc_eq
      split: if_splits)

lemma sched_step_inv:
  assumes "sched_step jitter s s'" and inv: "sched_inv s"
  shows "sched_inv s'"
  using assms(1)
proof cases
  case (request i)
  then show ?thesis using sched_inv_request [OF inv] by simp
next
  case (opened i interval)
  then show ?thesis using sched_inv_begin [OF inv] by simp
next
  case (cancelled k)
  have "sched_inv (set_run k ((sc_runs s ! k)\<lparr>rn_cancelled := True\<rparr>) s)"
    by (rule sched_inv_loop [OF inv cancelled(2), where r = "(sc_runs s ! k)\<lparr>rn_cancelled := True\<rparr>"])
      (use sched_inv_run [OF inv cancelled(2)] in \<open>simp_all add: set_run_def\<close>)
  with cancelled show ?thesis by simp
next
  case (timer k)
  then show ?thesis
    unfolding timer(1) on_timer_def Let_def
    by (intro sched_inv_demand inv) (simp_all add: selecting_def)
next
  case (trigger k)
  then show ?thesis
    unfolding trigger(1) on_trigger_def
    by (intro sched_inv_demand inv) (simp_all add: selecting_def)
next
  case (finished k)
  then show ?thesis using sched_inv_done [OF inv] by simp
next
  case (stop k)
  then show ?thesis using sched_inv_cancel [OF inv] by simp
next
  case (drained k)
  then show ?thesis using sched_inv_drained [OF inv] by simp
next
  case (acquire k j)
  show ?thesis
    by (rule sched_inv_worker [OF inv acquire(2), where q = Holding])
      (use acquire sched_inv_bounds [OF inv] in \<open>simp_all add: token_of_def active_of_def set_worker_def set_run_def Let_def\<close>)
next
  case (abandon k j)
  show ?thesis
    by (rule sched_inv_worker [OF inv abandon(2), where q = "Sending (Some context_canceled)"])
      (use abandon sched_inv_bounds [OF inv] in \<open>simp_all add: token_of_def active_of_def set_worker_def set_run_def Let_def\<close>)
next
  case (count k j)
  show ?thesis
    by (rule sched_inv_worker [OF inv count(2), where q = "Counted (sc_active s + 1)"])
      (use count sched_inv_bounds [OF inv] active_room [OF inv count(2)] in
        \<open>simp_all add: token_of_def active_of_def set_worker_def set_run_def Let_def\<close>)
next
  case (maximum k j c)
  have "c \<le> int (sc_capacity s)"
    using sched_inv_run [OF inv, of k] single_worker [OF inv maximum(2)] by (simp add: run_ok_def)
  then show ?thesis
    by (intro sched_inv_worker [OF inv maximum(2), where q = Collecting])
      (use maximum sched_inv_bounds [OF inv] in
        \<open>simp_all add: token_of_def active_of_def set_worker_def set_run_def Let_def updateMaximum_def\<close>)
next
  case (collected k j e)
  show ?thesis
    by (rule sched_inv_worker [OF inv collected(2), where q = "Returned e"])
      (use collected sched_inv_bounds [OF inv] in \<open>simp_all add: token_of_def active_of_def set_worker_def set_run_def Let_def\<close>)
next
  case (release k j e)
  show ?thesis
    by (rule sched_inv_worker [OF inv release(2), where q = "Released e"])
      (use release sched_inv_bounds [OF inv] token_room [OF inv release(2)] in
        \<open>simp_all add: token_of_def active_of_def set_worker_def set_run_def Let_def\<close>)
next
  case (completed k j e)
  show ?thesis
    by (rule sched_inv_worker [OF inv completed(2), where q = "Sending e"])
      (use completed sched_inv_bounds [OF inv] in \<open>simp_all add: token_of_def active_of_def set_worker_def set_run_def Let_def\<close>)
next
  case (send k j e)
  then show ?thesis using sched_inv_send [OF inv] by simp
qed

lemma sched_run_inv: "(sched_step jitter)\<^sup>*\<^sup>* (New g) s \<Longrightarrow> sched_inv s"
  by (induction rule: rtranclp_induct) (auto intro: sched_inv_New sched_step_inv)

lemma sched_step_capacity: "sched_step jitter s s' \<Longrightarrow> sc_capacity s' = sc_capacity s"
  by (erule sched_stepE)
    (auto simp: Request_def Run_begin_def set_run_def on_timer_def on_trigger_def on_done_def on_cancel_def
      on_drained_def demand_def leave_def set_worker_def send_done_def Let_def split: option.splits if_splits)

lemma sched_run_capacity: "(sched_step jitter)\<^sup>*\<^sup>* (New g) s \<Longrightarrow> sc_capacity s = sc_capacity (New g)"
  by (induction rule: rtranclp_induct) (auto dest: sched_step_capacity)


lemma total_of_concat: "total_of f runs = (\<Sum>p\<leftarrow>concat (map rn_workers runs). f p)"
  by (induction runs) (simp_all add: total_of_def)

lemma collecting_le_active: "length (filter (\<lambda>p. p = Collecting) ps) \<le> (\<Sum>p\<leftarrow>ps. active_of p)"
  by (induction ps) (auto simp: active_of_def split: phase.splits)

definition capacity_of :: "int \<Rightarrow> nat" where
  "capacity_of globalConcurrency = (if globalConcurrency \<le> 0 then 4 else nat globalConcurrency)"

text \<open>
  C17. Collection is bounded. In every state the scheduler can reach, under every interleaving
  of requests, timers, cancellations and goroutines, at most \<open>GlobalConcurrency\<close> calls of
  \<open>Collect\<close> are in progress, a run has at most one collection goroutine, and the counters the
  metrics show (active and maximum active) lie between zero and that bound.
\<close>

theorem collections_bounded:
  assumes "(sched_step jitter)\<^sup>*\<^sup>* (New g) s"
  shows "length (filter (\<lambda>p. p = Collecting) (concat (map rn_workers (sc_runs s)))) \<le> capacity_of g
    \<and> list_all (\<lambda>r. length (rn_workers r) \<le> 1) (sc_runs s)
    \<and> (case Snapshot s of (active, maximum, _) \<Rightarrow>
        0 \<le> active \<and> active \<le> int (capacity_of g) \<and> 0 \<le> maximum \<and> maximum \<le> int (capacity_of g))"
proof -
  have inv: "sched_inv s" by (rule sched_run_inv [OF assms])
  have cap: "sc_capacity s = capacity_of g"
    using sched_run_capacity [OF assms] by (simp add: New_def capacity_of_def)
  have le: "total_of active_of (sc_runs s) \<le> capacity_of g"
    using active_le_token [of "sc_runs s"] inv cap by (simp add: sched_inv_def)
  then have "length (filter (\<lambda>p. p = Collecting) (concat (map rn_workers (sc_runs s)))) \<le> capacity_of g"
    using collecting_le_active [of "concat (map rn_workers (sc_runs s))"]
    by (simp only: total_of_concat)
  moreover have "length (rn_workers r) \<le> 1" if "r \<in> set (sc_runs s)" for r
  proof -
    from inv that have "run_ok (sc_capacity s) r" by (simp add: sched_inv_def list_all_iff)
    then show ?thesis by (cases "rn_loop r") (auto simp: run_ok_def split: if_splits)
  qed
  ultimately show ?thesis
    using le inv cap by (auto simp: Snapshot_def sched_inv_def list_all_iff)
qed

definition noJitter :: "string \<Rightarrow> 64 word \<Rightarrow> duration \<Rightarrow> duration" where
  "noJitter i n interval = 0"

definition sampleBegun :: scheduler where
  "sampleBegun = projr (Run_begin noJitter ''n1'' second (New 1))"

lemma sample_begun: "sched_step noJitter (New 1) sampleBegun"
  by (rule sched_step.opened [of _ "''n1''" second])
    (simp add: sampleBegun_def Run_begin_def second_def)

lemma sample_begun_run: "sc_runs sampleBegun = [\<lparr> rn_ID = ''n1'', rn_Interval = second, rn_sequence = 0,
    rn_delay = 0, rn_active = False, rn_pending = False, rn_trigger = False, rn_done = [], rn_workers = [],
    rn_cancelled = False, rn_loop = Selecting \<rparr>]" "sc_triggers sampleBegun = [''n1'' \<mapsto> 0]"
  "sc_capacity sampleBegun = 1"
  by (simp_all add: sampleBegun_def Run_begin_def second_def New_def delay_def noJitter_def)

theorem collections_bounded_witness:
  "rn_workers (sc_runs (on_timer noJitter 0 sampleBegun) ! 0) = [Waiting]
    \<and> length (rn_workers (sc_runs (on_timer noJitter 0 sampleBegun) ! 0)) \<le> 1"
proof -
  have "selecting sampleBegun 0" by (simp add: selecting_def sample_begun_run)
  then have "sched_step noJitter sampleBegun (on_timer noJitter 0 sampleBegun)" by (rule sched_step.timer)
  with sample_begun have "(sched_step noJitter)\<^sup>*\<^sup>* (New 1) (on_timer noJitter 0 sampleBegun)"
    by (meson rtranclp.rtrancl_into_rtrancl r_into_rtranclp)
  from collections_bounded [OF this] show ?thesis
    by (simp add: on_timer_def demand_def set_run_def start_collection_def sample_begun_run Let_def)
qed

section \<open>No request is lost\<close>

text \<open>Work the loop still owes to a request: in the channel, or noted as pending.\<close>

definition owed :: "scheduler \<Rightarrow> nat \<Rightarrow> bool" where
  "owed s k \<longleftrightarrow> k < length (sc_runs s) \<and> (rn_trigger (sc_runs s ! k) \<or> rn_pending (sc_runs s ! k))"

definition stopping :: "scheduler \<Rightarrow> nat \<Rightarrow> bool" where
  "stopping s k \<longleftrightarrow> k < length (sc_runs s) \<and> rn_loop (sc_runs s ! k) \<noteq> Selecting"

text \<open>A collection that begins in a step.\<close>

definition begins :: "scheduler \<Rightarrow> scheduler \<Rightarrow> nat \<Rightarrow> bool" where
  "begins s s' k \<longleftrightarrow> rn_workers (sc_runs s ! k) = [] \<and> rn_workers (sc_runs s' ! k) = [Waiting]"

lemma owed_frame:
  assumes "owed s k" and "sc_runs s' = (sc_runs s)[k' := r]"
    and "k' = k \<Longrightarrow> rn_trigger r = rn_trigger (sc_runs s ! k) \<and> rn_pending r = rn_pending (sc_runs s ! k)"
  shows "owed s' k"
  using assms by (cases "k' = k") (auto simp: owed_def)

lemma owed_worker: "owed s k \<Longrightarrow> sc_runs s' = sc_runs (set_worker k' j p s) \<Longrightarrow> owed s' k"
  by (rule owed_frame [where k' = k' and r = "(sc_runs s ! k')\<lparr>rn_workers := (rn_workers (sc_runs s ! k'))[j := p]\<rparr>"])
    (auto simp: set_worker_def set_run_def Let_def)

lemma owed_done:
  assumes "owed s k" and "selecting s k'" and "rn_done (sc_runs s ! k') \<noteq> []" and "sched_inv s"
  shows "owed (on_done k' s) k \<or> stopping (on_done k' s) k \<or> begins s (on_done k' s) k"
proof -
  have k': "k' < length (sc_runs s)" using assms(2) by (simp add: selecting_def)
  have "rn_workers (sc_runs s ! k') = []"
    using sched_inv_run [OF assms(4) k'] assms(2,3)
    by (cases "rn_done (sc_runs s ! k')") (auto simp: run_ok_def selecting_def split: if_splits)
  with assms(1) k' show ?thesis
    by (cases "k' = k")
      (auto simp: owed_def stopping_def begins_def on_done_def leave_def set_run_def start_collection_def Let_def)
qed

lemma owed_demand:
  assumes "owed s k" and "selecting s k'" and "sched_inv s"
    and "rn_workers r = rn_workers (sc_runs s ! k')" and "rn_active r = rn_active (sc_runs s ! k')"
    and "rn_pending r = rn_pending (sc_runs s ! k')" and "rn_loop r = Selecting"
  shows "owed (demand k' r s) k \<or> begins s (demand k' r s) k"
proof -
  have k': "k' < length (sc_runs s)" using assms(2) by (simp add: selecting_def)
  have "rn_workers (sc_runs s ! k') = []" if "\<not> rn_active (sc_runs s ! k')"
    using sched_inv_run [OF assms(3) k'] assms(2) that by (auto simp: run_ok_def selecting_def)
  with assms k' show ?thesis
    by (cases "k' = k")
      (auto simp: owed_def begins_def demand_def set_run_def start_collection_def)
qed


lemma owed_request: "owed s k \<Longrightarrow> owed (snd (Request s i)) k"
proof (cases "sc_triggers s i")
  case (Some j)
  then show "owed s k \<Longrightarrow> ?thesis"
    by (cases "j = k") (auto simp: Request_def Let_def owed_def set_run_def)
qed (simp add: Request_def)

lemma sched_step_owed:
  assumes "sched_step jitter s s'" and "sched_inv s" and "owed s k"
  shows "owed s' k \<or> stopping s' k \<or> begins s s' k"
  using assms(1)
proof cases
  case (request i)
  then show ?thesis using owed_request assms(3) by simp
next
  case (opened i interval)
  then show ?thesis using assms(3) by (auto simp: Run_begin_def owed_def nth_append split: if_splits)
next
  case (cancelled k')
  have "owed s' k"
    by (rule owed_frame [OF assms(3), where k' = k' and r = "(sc_runs s ! k')\<lparr>rn_cancelled := True\<rparr>"])
      (use cancelled in \<open>auto simp: set_run_def\<close>)
  then show ?thesis by simp
next
  case (timer k')
  let ?n = "rn_sequence (sc_runs s ! k') + 1"
  let ?r = "(sc_runs s ! k')\<lparr> rn_sequence := ?n,
    rn_delay := delay jitter (rn_ID (sc_runs s ! k')) (rn_Interval (sc_runs s ! k')) ?n \<rparr>"
  have "owed (demand k' ?r s) k \<or> begins s (demand k' ?r s) k"
    by (rule owed_demand [OF assms(3) timer(2) assms(2)]) (use timer in \<open>simp_all add: selecting_def\<close>)
  then show ?thesis by (auto simp: timer(1) on_timer_def Let_def)
next
  case (trigger k')
  then show ?thesis
    unfolding trigger(1) on_trigger_def
    using owed_demand [OF assms(3) trigger(2) assms(2), of "(sc_runs s ! k')\<lparr>rn_trigger := False\<rparr>"]
    by (auto simp: selecting_def)
next
  case (finished k')
  then show ?thesis using owed_done [OF assms(3) _ _ assms(2)] by simp
next
  case (stop k')
  then show ?thesis
    using assms(3) by (cases "k' = k") (auto simp: owed_def stopping_def on_cancel_def leave_def set_run_def Let_def)
next
  case (drained k')
  then show ?thesis
    using assms(3) by (cases "k' = k") (auto simp: owed_def stopping_def on_drained_def leave_def set_run_def Let_def)
next
  case (send k' j e)
  have "owed s' k"
    by (rule owed_frame [OF assms(3), where k' = k' and r = "(sc_runs s ! k')\<lparr> rn_done := rn_done (sc_runs s ! k') @ [e],
     rn_workers := take j (rn_workers (sc_runs s ! k')) @ drop (Suc j) (rn_workers (sc_runs s ! k')) \<rparr>"])
      (use send in \<open>auto simp: send_done_def set_run_def Let_def\<close>)
  then show ?thesis by simp
qed (use owed_worker [OF assms(3)] in auto)

text \<open>
  C21. No accepted request is lost. When \<open>Request\<close> answers true, the run it addressed owes a
  collection; and in every reachable state a step either keeps that debt, or begins a new
  collection in that run (which had none in progress), or belongs to a run that is stopping.
  Requests that coalesce therefore still get a collection that starts after them.
\<close>

theorem request_not_lost:
  assumes "(sched_step jitter)\<^sup>*\<^sup>* (New g) s"
  shows "(Request s i = (True, s1) \<longrightarrow> (\<exists>k. sc_triggers s i = Some k \<and> rn_ID (sc_runs s ! k) = i \<and> owed s1 k))
    \<and> (sched_step jitter s s' \<and> owed s k \<longrightarrow> owed s' k \<or> stopping s' k \<or> begins s s' k)"
proof -
  have inv: "sched_inv s" by (rule sched_run_inv [OF assms])
  have "\<exists>k. sc_triggers s i = Some k \<and> rn_ID (sc_runs s ! k) = i \<and> owed s1 k" if "Request s i = (True, s1)"
  proof (cases "sc_triggers s i")
    case None
    with that show ?thesis by (simp add: Request_def)
  next
    case (Some k)
    with inv have "k < length (sc_runs s) \<and> rn_ID (sc_runs s ! k) = i"
      by (simp add: sched_inv_def triggers_ok_def)
    with that Some show ?thesis
      by (auto simp: Request_def Let_def owed_def set_run_def split: if_splits)
  qed
  with sched_step_owed [OF _ inv] show ?thesis by blast
qed

theorem request_not_lost_witness:
  "\<exists>k. sc_triggers sampleBegun ''n1'' = Some k \<and> owed (snd (Request sampleBegun ''n1'')) k"
proof -
  have reach: "(sched_step noJitter)\<^sup>*\<^sup>* (New 1) sampleBegun"
    using sample_begun by (rule r_into_rtranclp)
  have "Request sampleBegun ''n1'' = (True, snd (Request sampleBegun ''n1''))"
    by (simp add: Request_def sample_begun_run Let_def)
  with request_not_lost [OF reach, of "''n1''"] show ?thesis by blast
qed

end
