(* ===== verification/Coordinator.thy ===== *)
theory Coordinator
  imports Scheduler
begin

text \<open>
  Package \<open>scheduler\<close>, second half (\<open>core/internal/scheduler/coordinator.go\<close>): the coordinator
  keeps one supervised run per enabled integration. It reconciles with the list of enabled
  integrations at start and on a timer, cancels runs on request and when their integration
  disappears, forgets a run only after its exit has been received, and drains all runs before
  it returns. The lister and the runner are not part of the package: a list of identifiers or
  an error, and the moment a run returns, are choices of the environment.

  As in the scheduler theory every channel operation is a step, so the theorems hold for every
  interleaving. A run is identified by its position in the list of all runs ever started,
  which is the identity of its \<open>*managedRun\<close>.
\<close>

section \<open>State and operations\<close>

text \<open>
  The goroutine of a run: inside \<open>runner.Run\<close>; at the select that reports the exit, having put
  its error into \<open>run.done\<close>; finished.
\<close>

datatype runner_phase = Running | Reporting "string option" | Finished "string option"

record managed_run =
  mr_id :: string
  mr_cancelled :: bool
  mr_phase :: runner_phase

record run_exit =
  ex_id :: string
  ex_run :: nat
  ex_err :: "string option"

datatype coordinator_phase = Looping | Stopping string | Stopped string

record coordinator =
  co_interval :: duration
  co_runs :: "managed_run list"
  co_managed :: "string \<Rightarrow> nat option"
  co_exits :: "run_exit list"
  co_restarts :: "string list"
  co_reported :: "(string \<times> string) list"
  co_cancelled :: bool
  co_phase :: coordinator_phase

definition NewCoordinator :: "duration \<Rightarrow> coordinator" where
  "NewCoordinator interval = \<lparr> co_interval = (if interval \<le> 0 then 10 * second else interval),
     co_runs = [], co_managed = Map.empty, co_exits = [], co_restarts = [], co_reported = [],
     co_cancelled = False, co_phase = Looping \<rparr>"

text \<open>A send that is dropped when 64 requests are waiting.\<close>

definition Restart :: "string \<Rightarrow> coordinator \<Rightarrow> coordinator" where
  "Restart integrationID c =
     (if length (co_restarts c) < 64 then c\<lparr>co_restarts := co_restarts c @ [integrationID]\<rparr> else c)"

definition start_run :: "string \<Rightarrow> coordinator \<Rightarrow> coordinator" where
  "start_run i c = c\<lparr> co_runs := co_runs c @ [\<lparr> mr_id = i, mr_cancelled = False, mr_phase = Running \<rparr>],
     co_managed := (co_managed c)(i \<mapsto> length (co_runs c)) \<rparr>"

fun start_missing :: "string list \<Rightarrow> coordinator \<Rightarrow> coordinator" where
  "start_missing [] c = c"
| "start_missing (i # ids) c =
     start_missing ids (if co_managed c i = None then start_run i c else c)"

text \<open>\<open>run.cancel()\<close> for every managed run the predicate selects.\<close>

definition cancel_managed :: "(string \<Rightarrow> bool) \<Rightarrow> coordinator \<Rightarrow> coordinator" where
  "cancel_managed p c = c\<lparr>co_runs := map (\<lambda>(k, r).
     if co_managed c (mr_id r) = Some k \<and> p (mr_id r) then r\<lparr>mr_cancelled := True\<rparr> else r)
       (enumerate 0 (co_runs c))\<rparr>"

definition reconcile :: "string list \<Rightarrow> coordinator \<Rightarrow> coordinator" where
  "reconcile ids c = cancel_managed (\<lambda>i. i \<notin> set ids) (start_missing ids c)"

text \<open>Leaving the loop: every managed run is cancelled, then drained.\<close>

definition shut_down :: "string \<Rightarrow> coordinator \<Rightarrow> coordinator" where
  "shut_down e c = (cancel_managed (\<lambda>_. True) c)\<lparr>co_phase := Stopping e\<rparr>"

definition on_exit :: "coordinator \<Rightarrow> coordinator" where
  "on_exit c =
     (let x = hd (co_exits c);
          managed = (if co_managed c (ex_id x) = Some (ex_run x) then (co_managed c)(ex_id x := None)
            else co_managed c);
          reported = (case ex_err x of
              None \<Rightarrow> co_reported c
            | Some e \<Rightarrow> if co_cancelled c then co_reported c else co_reported c @ [(ex_id x, e)])
      in c\<lparr> co_exits := tl (co_exits c), co_managed := managed, co_reported := reported \<rparr>)"

definition on_restart :: "coordinator \<Rightarrow> coordinator" where
  "on_restart c = (cancel_managed (\<lambda>i. i = hd (co_restarts c)) c)\<lparr>co_restarts := tl (co_restarts c)\<rparr>"

definition set_phase :: "nat \<Rightarrow> runner_phase \<Rightarrow> coordinator \<Rightarrow> coordinator" where
  "set_phase k p c = c\<lparr>co_runs := (co_runs c)[k := (co_runs c ! k)\<lparr>mr_phase := p\<rparr>]\<rparr>"

text \<open>\<open>drain\<close> has received from \<open>done\<close> of every managed run.\<close>

definition drained :: "coordinator \<Rightarrow> bool" where
  "drained c \<longleftrightarrow> list_all (\<lambda>(k, r). co_managed c (mr_id r) = Some k \<longrightarrow> mr_phase r \<noteq> Running)
     (enumerate 0 (co_runs c))"

definition in_phase :: "coordinator \<Rightarrow> nat \<Rightarrow> runner_phase \<Rightarrow> bool" where
  "in_phase c k p \<longleftrightarrow> k < length (co_runs c) \<and> mr_phase (co_runs c ! k) = p"

inductive coord_step :: "coordinator \<Rightarrow> coordinator \<Rightarrow> bool" where
  restart: "coord_step c (Restart i c)"
| cancel: "coord_step c (c\<lparr>co_cancelled := True\<rparr>)"
| reconciled: "co_phase c = Looping \<Longrightarrow> coord_step c (reconcile ids c)"
| list_failed: "co_phase c = Looping \<Longrightarrow> coord_step c (shut_down e c)"
| context_done: "co_phase c = Looping \<Longrightarrow> co_cancelled c \<Longrightarrow> coord_step c (shut_down context_canceled c)"
| exited: "co_phase c = Looping \<Longrightarrow> co_exits c \<noteq> [] \<Longrightarrow> coord_step c (on_exit c)"
| restarted: "co_phase c = Looping \<Longrightarrow> co_restarts c \<noteq> [] \<Longrightarrow> coord_step c (on_restart c)"
| returned: "in_phase c k Running \<Longrightarrow> coord_step c (set_phase k (Reporting e) c)"
| reported: "in_phase c k (Reporting e) \<Longrightarrow> length (co_exits c) < 128 \<Longrightarrow>
    coord_step c ((set_phase k (Finished e) c)\<lparr>co_exits :=
      co_exits c @ [\<lparr> ex_id = mr_id (co_runs c ! k), ex_run = k, ex_err = e \<rparr>]\<rparr>)"
| unreported: "in_phase c k (Reporting e) \<Longrightarrow> co_cancelled c \<Longrightarrow> coord_step c (set_phase k (Finished e) c)"
| stopped: "co_phase c = Stopping e \<Longrightarrow> drained c \<Longrightarrow> coord_step c (c\<lparr>co_phase := Stopped e\<rparr>)"

inductive_cases coord_stepE: "coord_step c c'"

section \<open>One run per integration\<close>

definition unfinished :: "managed_run \<Rightarrow> bool" where
  "unfinished r = (case mr_phase r of Finished _ \<Rightarrow> False | _ \<Rightarrow> True)"

text \<open>A run whose goroutine has not finished is the managed run of its integration.\<close>

definition alive_managed :: "coordinator \<Rightarrow> bool" where
  "alive_managed c \<longleftrightarrow> (\<forall>k < length (co_runs c). unfinished (co_runs c ! k) \<longrightarrow>
     co_managed c (mr_id (co_runs c ! k)) = Some k)"

text \<open>An exit in the channel comes from a finished goroutine.\<close>

definition exits_finished :: "coordinator \<Rightarrow> bool" where
  "exits_finished c \<longleftrightarrow> (\<forall>x \<in> set (co_exits c). ex_run x < length (co_runs c)
     \<and> \<not> unfinished (co_runs c ! ex_run x))"

definition managed_known :: "coordinator \<Rightarrow> bool" where
  "managed_known c \<longleftrightarrow> (\<forall>i k. co_managed c i = Some k \<longrightarrow> k < length (co_runs c) \<and> mr_id (co_runs c ! k) = i)"

definition stopped_quiet :: "coordinator \<Rightarrow> bool" where
  "stopped_quiet c \<longleftrightarrow> (case co_phase c of
      Stopped _ \<Rightarrow> list_all (\<lambda>r. mr_phase r \<noteq> Running) (co_runs c) | _ \<Rightarrow> True)"

definition coord_inv :: "coordinator \<Rightarrow> bool" where
  "coord_inv c \<longleftrightarrow> alive_managed c \<and> exits_finished c \<and> managed_known c \<and> stopped_quiet c"

lemmas coord_inv_parts = coord_inv_def alive_managed_def exits_finished_def managed_known_def

text \<open>Steps that leave every run's identity and phase alone.\<close>

lemma coord_inv_frame:
  assumes "coord_inv c" and "length (co_runs c') = length (co_runs c)"
    and "\<And>k. k < length (co_runs c) \<Longrightarrow> mr_id (co_runs c' ! k) = mr_id (co_runs c ! k)
      \<and> mr_phase (co_runs c' ! k) = mr_phase (co_runs c ! k)"
    and "co_managed c' = co_managed c" and "co_exits c' = co_exits c"
    and "\<And>e. co_phase c' = Stopped e \<Longrightarrow> co_phase c = Stopped e"
  shows "coord_inv c'"
proof -
  have "stopped_quiet c'"
  proof (cases "co_phase c'")
    case (Stopped e)
    with assms(6) have "co_phase c = Stopped e" by simp
    with assms(1-3) Stopped show ?thesis by (simp add: coord_inv_def stopped_quiet_def list_all_length)
  qed (simp_all add: stopped_quiet_def)
  moreover have "unfinished (co_runs c' ! k) = unfinished (co_runs c ! k)" if "k < length (co_runs c)" for k
    using assms(3) [OF that] by (simp add: unfinished_def)
  ultimately show ?thesis
    using assms(1-5) by (simp add: coord_inv_parts)
qed

lemma cancel_managed_runs:
  "length (co_runs (cancel_managed p c)) = length (co_runs c)"
  "k < length (co_runs c) \<Longrightarrow> mr_id (co_runs (cancel_managed p c) ! k) = mr_id (co_runs c ! k)"
  "k < length (co_runs c) \<Longrightarrow> mr_phase (co_runs (cancel_managed p c) ! k) = mr_phase (co_runs c ! k)"
  "co_managed (cancel_managed p c) = co_managed c" "co_exits (cancel_managed p c) = co_exits c"
  "co_phase (cancel_managed p c) = co_phase c" "co_restarts (cancel_managed p c) = co_restarts c"
  by (simp_all add: cancel_managed_def nth_enumerate_eq)

lemma coord_inv_cancel: "coord_inv c \<Longrightarrow> coord_inv (cancel_managed p c)"
  by (erule coord_inv_frame) (simp_all add: cancel_managed_runs)

lemma coord_inv_start:
  assumes "coord_inv c" and "co_managed c i = None" and "co_phase c = Looping"
  shows "coord_inv (start_run i c)"
proof -
  let ?n = "length (co_runs c)"
  have known: "managed_known c" and alive: "alive_managed c" and out: "exits_finished c"
    using assms(1) by (simp_all add: coord_inv_def)
  have "alive_managed (start_run i c)"
  proof -
    have "mr_id (co_runs c ! k) \<noteq> i" if "k < ?n" "unfinished (co_runs c ! k)" for k
      using alive that assms(2) by (auto simp: alive_managed_def)
    with alive show ?thesis
      by (simp add: alive_managed_def start_run_def nth_append less_Suc_eq)
  qed
  moreover have "exits_finished (start_run i c)"
    using out by (force simp: exits_finished_def start_run_def nth_append)
  moreover have "managed_known (start_run i c)"
    using known by (auto simp: managed_known_def start_run_def nth_append less_SucI split: if_splits)
  ultimately show ?thesis
    using assms(3) by (simp add: coord_inv_def stopped_quiet_def start_run_def)
qed

lemma co_phase_start [simp]: "co_phase (start_run i c) = co_phase c"
  by (simp add: start_run_def)

lemma coord_inv_start_missing:
  "coord_inv c \<Longrightarrow> co_phase c = Looping \<Longrightarrow>
     coord_inv (start_missing ids c) \<and> co_phase (start_missing ids c) = Looping"
  by (induction ids c rule: start_missing.induct) (simp_all add: coord_inv_start)

lemma coord_inv_reconcile: "coord_inv c \<Longrightarrow> co_phase c = Looping \<Longrightarrow> coord_inv (reconcile ids c)"
  unfolding reconcile_def by (intro coord_inv_cancel) (simp add: coord_inv_start_missing)

lemma coord_inv_shut_down:
  assumes "coord_inv c"
  shows "coord_inv (shut_down e c)"
  unfolding shut_down_def
  by (rule coord_inv_frame [OF coord_inv_cancel [OF assms, where p = "\<lambda>_. True"]]) simp_all

lemma coord_inv_exit:
  assumes inv: "coord_inv c" and "co_exits c \<noteq> []" and "co_phase c = Looping"
  shows "coord_inv (on_exit c)"
proof -
  obtain x xs where x: "co_exits c = x # xs" using assms(2) by (cases "co_exits c") auto
  have gone: "\<not> unfinished (co_runs c ! ex_run x)"
    using inv x by (simp add: coord_inv_parts)
  have runs: "co_runs (on_exit c) = co_runs c" "co_exits (on_exit c) = xs" "co_phase (on_exit c) = Looping"
    "co_managed (on_exit c) = (if co_managed c (ex_id x) = Some (ex_run x) then (co_managed c)(ex_id x := None)
       else co_managed c)"
    using assms(3) by (simp_all add: on_exit_def Let_def x)
  have "alive_managed (on_exit c)"
    unfolding alive_managed_def runs
  proof (intro allI impI)
    fix k assume k: "k < length (co_runs c)" "unfinished (co_runs c ! k)"
    with inv have m: "co_managed c (mr_id (co_runs c ! k)) = Some k" by (simp add: coord_inv_parts)
    with gone k(2) have "k \<noteq> ex_run x" by auto
    with m show "(if co_managed c (ex_id x) = Some (ex_run x) then (co_managed c)(ex_id x := None)
       else co_managed c) (mr_id (co_runs c ! k)) = Some k" by auto
  qed
  moreover have "exits_finished (on_exit c)" using inv by (simp add: coord_inv_parts runs x)
  moreover have "managed_known (on_exit c)" using inv by (auto simp: coord_inv_parts runs split: if_splits)
  ultimately show ?thesis by (simp add: coord_inv_def stopped_quiet_def runs)
qed

text \<open>A goroutine moves on.\<close>

lemma coord_inv_phase:
  assumes inv: "coord_inv c" and k: "k < length (co_runs c)" and live: "unfinished (co_runs c ! k)"
    and next_phase: "p \<noteq> Running" and "exits = co_exits c \<or> exits = co_exits c @ [x] \<and> ex_run x = k \<and> (\<exists>e. p = Finished e)"
  shows "coord_inv ((set_phase k p c)\<lparr>co_exits := exits\<rparr>)"
proof -
  let ?c = "(set_phase k p c)\<lparr>co_exits := exits\<rparr>"
  have runs: "co_runs ?c = (co_runs c)[k := (co_runs c ! k)\<lparr>mr_phase := p\<rparr>]" "co_managed ?c = co_managed c"
    "co_phase ?c = co_phase c" "co_exits ?c = exits" by (simp_all add: set_phase_def)
  have "alive_managed ?c"
    using inv live k unfolding alive_managed_def runs
    by (auto simp: coord_inv_parts nth_list_update)
  moreover have "exits_finished ?c"
  proof -
    have other: "ex_run y \<noteq> k" "ex_run y < length (co_runs c)" "\<not> unfinished (co_runs c ! ex_run y)"
      if "y \<in> set (co_exits c)" for y
      using inv live that by (auto simp: coord_inv_parts)
    have "ex_run y < length (co_runs ?c) \<and> \<not> unfinished (co_runs ?c ! ex_run y)" if "y \<in> set exits" for y
    proof (cases "y \<in> set (co_exits c)")
      case True
      with other [OF True] show ?thesis by (simp add: runs)
    next
      case False
      with that assms(5) have "ex_run y = k" "\<exists>e. p = Finished e" by auto
      with k show ?thesis by (auto simp: runs unfinished_def)
    qed
    then show ?thesis by (simp add: exits_finished_def runs)
  qed
  moreover have "managed_known ?c"
    using inv k unfolding managed_known_def runs by (auto simp: coord_inv_parts nth_list_update)
  moreover have "stopped_quiet ?c"
    using inv k next_phase unfolding stopped_quiet_def runs
    by (cases "co_phase c") (auto simp: coord_inv_def stopped_quiet_def list_all_length nth_list_update)
  ultimately show ?thesis by (simp add: coord_inv_def)
qed

lemma drained_quiet:
  assumes "coord_inv c" and "drained c"
  shows "list_all (\<lambda>r. mr_phase r \<noteq> Running) (co_runs c)"
  unfolding list_all_length
proof (intro allI impI notI)
  fix k assume k: "k < length (co_runs c)" and run: "mr_phase (co_runs c ! k) = Running"
  then have "co_managed c (mr_id (co_runs c ! k)) = Some k"
    using assms(1) by (simp add: coord_inv_parts unfinished_def)
  moreover have "(k, co_runs c ! k) \<in> set (enumerate 0 (co_runs c))"
    using k by (simp add: in_set_enumerate_eq)
  ultimately show False using assms(2) run by (auto simp: drained_def list_all_iff)
qed

lemma coord_step_inv:
  assumes "coord_step c c'" and inv: "coord_inv c"
  shows "coord_inv c'"
  using assms(1)
proof cases
  case (restart i)
  have "coord_inv (Restart i c)"
    by (rule coord_inv_frame [OF inv]) (auto simp: Restart_def split: if_splits)
  with restart show ?thesis by simp
next
  case cancel
  have "coord_inv (c\<lparr>co_cancelled := True\<rparr>)" by (rule coord_inv_frame [OF inv]) simp_all
  with cancel show ?thesis by simp
next
  case (reconciled ids)
  then show ?thesis using coord_inv_reconcile [OF inv] by simp
next
  case (list_failed e)
  then show ?thesis using coord_inv_shut_down [OF inv] by simp
next
  case context_done
  then show ?thesis using coord_inv_shut_down [OF inv] by simp
next
  case exited
  then show ?thesis using coord_inv_exit [OF inv] by simp
next
  case restarted
  have "coord_inv (on_restart c)"
    unfolding on_restart_def
    by (rule coord_inv_frame [OF coord_inv_cancel [OF inv, where p = "\<lambda>i. i = hd (co_restarts c)"]]) simp_all
  with restarted show ?thesis by simp
next
  case (returned k e)
  then show ?thesis
    using coord_inv_phase [OF inv, of k "Reporting e" "co_exits c"]
    by (simp add: in_phase_def unfinished_def set_phase_def)
next
  case (reported k e)
  then show ?thesis
    using coord_inv_phase [OF inv, of k "Finished e" "co_exits c @ [\<lparr> ex_id = mr_id (co_runs c ! k), ex_run = k, ex_err = e \<rparr>]"]
    by (simp add: in_phase_def unfinished_def set_phase_def)
next
  case (unreported k e)
  then show ?thesis
    using coord_inv_phase [OF inv, of k "Finished e" "co_exits c"]
    by (simp add: in_phase_def unfinished_def set_phase_def)
next
  case (stopped e)
  with drained_quiet [OF inv] inv show ?thesis by (simp add: coord_inv_parts stopped_quiet_def)
qed

lemma coord_inv_New: "coord_inv (NewCoordinator interval)"
  by (simp add: NewCoordinator_def coord_inv_parts stopped_quiet_def)

lemma coord_run_inv: "coord_step\<^sup>*\<^sup>* (NewCoordinator interval) c \<Longrightarrow> coord_inv c"
  by (induction rule: rtranclp_induct) (auto intro: coord_inv_New coord_step_inv)

text \<open>
  C22. The coordinator never supervises one integration twice. In every state it can reach,
  under every interleaving of reconciliation, restarts, exits and cancellation, two runs of the
  same integration are never executing at the same time; and once \<open>Run\<close> has returned, no run
  is executing at all.
\<close>

theorem single_run_per_integration:
  assumes "coord_step\<^sup>*\<^sup>* (NewCoordinator interval) c"
  shows "(in_phase c j Running \<and> in_phase c k Running \<and> mr_id (co_runs c ! j) = mr_id (co_runs c ! k) \<longrightarrow> j = k)
    \<and> (co_phase c = Stopped e \<longrightarrow> \<not> in_phase c k Running)"
proof -
  have inv: "coord_inv c" by (rule coord_run_inv [OF assms])
  have "co_managed c (mr_id (co_runs c ! k)) = Some k" if "in_phase c k Running" for k
    using inv that by (simp add: coord_inv_parts in_phase_def unfinished_def)
  then have "j = k" if "in_phase c j Running" "in_phase c k Running" "mr_id (co_runs c ! j) = mr_id (co_runs c ! k)"
    using that by (metis option.inject)
  moreover have "\<not> in_phase c k Running" if "co_phase c = Stopped e"
    using inv that by (auto simp: coord_inv_def stopped_quiet_def in_phase_def list_all_length)
  ultimately show ?thesis by blast
qed

theorem single_run_per_integration_witness:
  "in_phase (reconcile [''n1'', ''n1''] (NewCoordinator 0)) 0 Running
    \<and> (in_phase (reconcile [''n1'', ''n1''] (NewCoordinator 0)) 1 Running
       \<and> mr_id (co_runs (reconcile [''n1'', ''n1''] (NewCoordinator 0)) ! 1) = ''n1'') = False"
proof -
  let ?c = "reconcile [''n1'', ''n1''] (NewCoordinator 0)"
  have "coord_step (NewCoordinator 0) ?c"
    by (rule coord_step.reconciled) (simp add: NewCoordinator_def)
  then have reach: "coord_step\<^sup>*\<^sup>* (NewCoordinator 0) ?c" by (rule r_into_rtranclp)
  have "in_phase ?c 0 Running" "mr_id (co_runs ?c ! 0) = ''n1''"
    by (simp_all add: reconcile_def cancel_managed_def start_run_def NewCoordinator_def in_phase_def)
  with single_run_per_integration [OF reach, of 0 1] show ?thesis by auto
qed

text \<open>After a reconciliation every listed integration has a run, and the runs of all others
  are cancelled.\<close>

lemma start_missing_managed:
  "co_managed c i \<noteq> None \<or> i \<in> set ids \<Longrightarrow> co_managed (start_missing ids c) i \<noteq> None"
proof (induction ids c rule: start_missing.induct)
  case (2 j ids c)
  have "co_managed (if co_managed c j = None then start_run j c else c) i \<noteq> None \<or> i \<in> set ids"
    using 2(2) by (auto simp: start_run_def)
  with 2(1) show ?case by simp
qed simp

lemma reconcile_converges:
  "(i \<in> set ids \<longrightarrow> co_managed (reconcile ids c) i \<noteq> None)
    \<and> (k < length (co_runs (reconcile ids c)) \<and> i \<notin> set ids \<and> co_managed (reconcile ids c) i = Some k
        \<and> mr_id (co_runs (reconcile ids c) ! k) = i \<longrightarrow> mr_cancelled (co_runs (reconcile ids c) ! k))"
  by (auto simp: reconcile_def cancel_managed_runs cancel_managed_def nth_enumerate_eq start_missing_managed
      split: if_splits)

end
