(* ===== verification/Password.thy ===== *)
theory Password
  imports Go_Text Tx "HOL-Library.Word"
begin

text \<open>
  \<open>core/internal/auth/password.go\<close>: password policy and the encoded Argon2id hash. The key
  derivation \<open>argon2.IDKey\<close> and its version are a parameter (\<open>argon2\<close>); the salt the source draws
  from \<open>crypto/rand\<close> is an argument, \<open>None\<close> when the source of randomness fails. \<open>strings.Split\<close>,
  the verb \<open>%d\<close> of \<open>fmt.Sscanf\<close> and \<open>encoding/base64\<close> are modelled as far as the source uses them:
  the decoder skips line breaks, has no padding and does not check trailing bits, and \<open>%d\<close> skips
  blanks, reads a sign into signed targets only and rejects values beyond the target's width.
\<close>

section \<open>Base64 without padding\<close>

definition std_alphabet :: string where
  "std_alphabet = ''ABCDEFGHIJKLMNOPQRSTUVWXYZabcdefghijklmnopqrstuvwxyz0123456789+/''"

definition url_alphabet :: string where
  "url_alphabet = ''ABCDEFGHIJKLMNOPQRSTUVWXYZabcdefghijklmnopqrstuvwxyz0123456789-_''"

fun sextets :: "nat list \<Rightarrow> nat list" where
  "sextets [] = []"
| "sextets [a] = [a div 4, a mod 4 * 16]"
| "sextets [a, b] = [a div 4, a mod 4 * 16 + b div 16, b mod 16 * 4]"
| "sextets (a # b # c # r) =
     a div 4 # (a mod 4 * 16 + b div 16) # (b mod 16 * 4 + c div 64) # c mod 64 # sextets r"

fun octets :: "nat list \<Rightarrow> nat list option" where
  "octets [] = Some []"
| "octets [_] = None"
| "octets [p, q] = Some [p * 4 + q div 16]"
| "octets [p, q, r] = Some [p * 4 + q div 16, q mod 16 * 16 + r div 4]"
| "octets (p # q # r # s # t) = map_option
     (\<lambda>rest. (p * 4 + q div 16) # (q mod 16 * 16 + r div 4) # (r mod 4 * 64 + s) # rest) (octets t)"

definition EncodeToString :: "string \<Rightarrow> string \<Rightarrow> string" where
  "EncodeToString alphabet s = map (\<lambda>n. alphabet ! n) (sextets (map byte s))"

fun alphabet_index :: "string \<Rightarrow> char \<Rightarrow> nat option" where
  "alphabet_index [] c = None"
| "alphabet_index (a # as) c = (if a = c then Some 0 else map_option Suc (alphabet_index as c))"

definition DecodeString :: "string \<Rightarrow> string \<Rightarrow> string option" where
  "DecodeString alphabet s =
     Option.bind (those (map (alphabet_index alphabet) (filter (\<lambda>c. c \<noteq> CHR 0x0A \<and> c \<noteq> CHR 0x0D) s)))
       (\<lambda>ns. map_option (map char_of) (octets ns))"

section \<open>Scanning\<close>

fun Split :: "char \<Rightarrow> string \<Rightarrow> string list" where
  "Split sep [] = [[]]"
| "Split sep (c # s) =
     (if c = sep then [] # Split sep s
      else case Split sep s of [] \<Rightarrow> [[c]] | p # ps \<Rightarrow> (c # p) # ps)"

definition digits_value :: "string \<Rightarrow> nat" where
  "digits_value s = foldl (\<lambda>n c. n * 10 + (byte c - 48)) 0 s"

definition skip_space :: "string \<Rightarrow> string" where
  "skip_space s = concat (dropWhile (\<lambda>r. is_space r \<and> r \<noteq> [CHR 0x0A]) (runes s))"

definition scan_nat :: "string \<Rightarrow> (nat \<times> string) option" where
  "scan_nat s = (let ds = takeWhile digit s in if ds = [] then None else Some (digits_value ds, dropWhile digit s))"

definition scan_uint :: "nat \<Rightarrow> string \<Rightarrow> (nat \<times> string) option" where
  "scan_uint bits s = (case scan_nat (skip_space s) of
       None \<Rightarrow> None
     | Some (n, rest) \<Rightarrow> if n < 2 ^ bits then Some (n, rest) else None)"

definition scan_int :: "string \<Rightarrow> (int \<times> string) option" where
  "scan_int s = (case skip_space s of
       [] \<Rightarrow> None
     | c # t \<Rightarrow>
         let signed = (c = CHR ''-'' \<or> c = CHR ''+'')
         in case scan_nat (if signed then t else c # t) of
              None \<Rightarrow> None
            | Some (n, rest) \<Rightarrow>
                let i = (if c = CHR ''-'' then - int n else int n)
                in if - (2 ^ 63) \<le> i \<and> i < 2 ^ 63 then Some (i, rest) else None)"

definition literal :: "string \<Rightarrow> string \<Rightarrow> string option" where
  "literal p s = (if take (length p) s = p then Some (drop (length p) s) else None)"

section \<open>Policy and hashes\<close>

definition MinPasswordLength :: nat where
  "MinPasswordLength = 15"

definition MaxPasswordLength :: nat where
  "MaxPasswordLength = 128"

definition commonPasswords :: "string list" where
  "commonPasswords = [''administrator'', ''passwordpassword'', ''password123456789'',
     ''qwertyuiopasdfgh'', ''ubnetdefubnetdef'', ''espialespialespial'', ''changemechangeme'',
     ''letmeinletmein123'', ''correcthorsebattery'']"

definition ValidString :: "string \<Rightarrow> bool" where
  "ValidString s \<longleftrightarrow> list_all stable_rune (runes s)"

definition ValidatePassword :: "(string \<Rightarrow> string) \<Rightarrow> string \<Rightarrow> err + unit" where
  "ValidatePassword ToLower password =
     (let n = RuneCountInString password in
      if \<not> ValidString password \<or> n < MinPasswordLength \<or> MaxPasswordLength < n
      then Inl (ErrText ''password must contain between 15 and 128 Unicode characters'')
      else if ToLower password \<in> set commonPasswords then Inl (ErrText ''password is too common'')
      else Inr ())"

record password_hasher =
  ph_Memory :: "32 word"
  ph_Iterations :: "32 word"
  ph_Parallelism :: "8 word"
  ph_SaltLength :: "32 word"
  ph_KeyLength :: "32 word"

definition DefaultPasswordHasher :: password_hasher where
  "DefaultPasswordHasher = \<lparr> ph_Memory = 19 * 1024, ph_Iterations = 2, ph_Parallelism = 1,
     ph_SaltLength = 16, ph_KeyLength = 32 \<rparr>"

record argon2 =
  ar_Version :: nat
  ar_IDKey :: "string \<Rightarrow> string \<Rightarrow> 32 word \<Rightarrow> 32 word \<Rightarrow> 8 word \<Rightarrow> 32 word \<Rightarrow> string"

definition Hash ::
  "argon2 \<Rightarrow> (string \<Rightarrow> string) \<Rightarrow> password_hasher \<Rightarrow> string option \<Rightarrow> string \<Rightarrow> err + string" where
  "Hash argon2 ToLower hasher salt password = (case ValidatePassword ToLower password of
       Inl e \<Rightarrow> Inl e
     | Inr _ \<Rightarrow> (case salt of
         None \<Rightarrow> Inl (ErrText ''generate password salt'')
       | Some salt \<Rightarrow>
           let hash = ar_IDKey argon2 password salt (ph_Iterations hasher) (ph_Memory hasher)
                 (ph_Parallelism hasher) (ph_KeyLength hasher)
           in Inr (''$argon2id$v='' @ decimal (ar_Version argon2)
                @ ''$m='' @ decimal (unat (ph_Memory hasher))
                @ '',t='' @ decimal (unat (ph_Iterations hasher))
                @ '',p='' @ decimal (unat (ph_Parallelism hasher))
                @ ''$'' @ EncodeToString std_alphabet salt @ ''$'' @ EncodeToString std_alphabet hash)))"

definition scan_version :: "string \<Rightarrow> int option" where
  "scan_version s = Option.bind (literal ''v='' s) (\<lambda>s. map_option fst (scan_int s))"

definition scan_parameters :: "string \<Rightarrow> password_hasher option" where
  "scan_parameters s =
     Option.bind (literal ''m='' s) (\<lambda>s. Option.bind (scan_uint 32 s) (\<lambda>(m, s).
     Option.bind (literal '',t='' s) (\<lambda>s. Option.bind (scan_uint 32 s) (\<lambda>(i, s).
     Option.bind (literal '',p='' s) (\<lambda>s. Option.bind (scan_uint 8 s) (\<lambda>(p, s).
       Some \<lparr> ph_Memory = of_nat m, ph_Iterations = of_nat i, ph_Parallelism = of_nat p,
         ph_SaltLength = 0, ph_KeyLength = 0 \<rparr>))))))"

definition parameters_in_bounds :: "password_hasher \<Rightarrow> bool" where
  "parameters_in_bounds p \<longleftrightarrow> \<not> (ph_Memory p < 8 * 1024 \<or> 1024 * 1024 < ph_Memory p
     \<or> ph_Iterations p < 1 \<or> 10 < ph_Iterations p \<or> ph_Parallelism p < 1 \<or> 16 < ph_Parallelism p)"

definition decoded_part :: "string \<Rightarrow> string option" where
  "decoded_part s = (case DecodeString std_alphabet s of
       None \<Rightarrow> None
     | Some d \<Rightarrow> if length d < 16 \<or> 64 < length d then None else Some d)"

definition parsePasswordHash :: "argon2 \<Rightarrow> string \<Rightarrow> err + password_hasher \<times> string \<times> string" where
  "parsePasswordHash argon2 encoded =
     (let parts = Split (CHR ''$'') encoded in
      if length parts \<noteq> 6 \<or> parts ! 1 \<noteq> ''argon2id'' then Inl (ErrText ''invalid password hash'')
      else if scan_version (parts ! 2) \<noteq> Some (int (ar_Version argon2))
      then Inl (ErrText ''unsupported password hash version'')
      else case scan_parameters (parts ! 3) of
        None \<Rightarrow> Inl (ErrText ''invalid password hash parameters'')
      | Some parameters \<Rightarrow>
          if \<not> parameters_in_bounds parameters then Inl (ErrText ''password hash parameters are out of bounds'')
          else case decoded_part (parts ! 4) of
            None \<Rightarrow> Inl (ErrText ''invalid password hash salt'')
          | Some salt \<Rightarrow> (case decoded_part (parts ! 5) of
              None \<Rightarrow> Inl (ErrText ''invalid password hash value'')
            | Some expected \<Rightarrow> Inr (parameters, salt, expected)))"

definition Verify :: "argon2 \<Rightarrow> string \<Rightarrow> string \<Rightarrow> err + bool" where
  "Verify argon2 password encoded = (case parsePasswordHash argon2 encoded of
       Inl e \<Rightarrow> Inl e
     | Inr (parameters, salt, expected) \<Rightarrow>
         Inr (ar_IDKey argon2 password salt (ph_Iterations parameters) (ph_Memory parameters)
           (ph_Parallelism parameters) (of_nat (length expected)) = expected))"

section \<open>Round trips\<close>

lemma sextets_lt: "\<forall>n \<in> set ns. n < 256 \<Longrightarrow> n \<in> set (sextets ns) \<Longrightarrow> n < 64"
  by (induction ns rule: sextets.induct) auto

lemma octets_sextets: "\<forall>n \<in> set ns. n < 256 \<Longrightarrow> octets (sextets ns) = Some ns"
  by (induction ns rule: sextets.induct) auto

lemma alphabet_index_nth: "distinct al \<Longrightarrow> n < length al \<Longrightarrow> alphabet_index al (al ! n) = Some n"
proof (induction al arbitrary: n)
  case Nil
  then show ?case by simp
next
  case (Cons a al)
  then show ?case by (cases n) (auto simp: nth_mem)
qed

lemma those_map_Some: "(\<And>x. x \<in> set xs \<Longrightarrow> f x = Some (g x)) \<Longrightarrow> those (map f xs) = Some (map g xs)"
  by (induction xs) auto

lemma EncodeToString_set:
  assumes "length al = 64"
  shows "set (EncodeToString al s) \<subseteq> set al"
proof -
  have "n < 64" if "n \<in> set (sextets (map byte s))" for n
    by (rule sextets_lt [OF _ that]) (simp add: byte_def of_char_of)
  with assms show ?thesis by (auto simp: EncodeToString_def)
qed

lemma DecodeString_EncodeToString:
  assumes al: "distinct al" "length al = 64" "CHR 0x0A \<notin> set al" "CHR 0x0D \<notin> set al"
  shows "DecodeString al (EncodeToString al s) = Some s"
proof -
  let ?ns = "sextets (map byte s)"
  have bytes: "\<forall>n \<in> set (map byte s). n < 256" by (auto simp: byte_def)
  have keep: "filter (\<lambda>c. c \<noteq> CHR 0x0A \<and> c \<noteq> CHR 0x0D) (EncodeToString al s) = EncodeToString al s"
    using EncodeToString_set [OF al(2), of s] al(3,4) by (auto simp: filter_id_conv)
  have "those (map (alphabet_index al) (EncodeToString al s)) = Some ?ns"
    using those_map_Some [of ?ns "\<lambda>n. alphabet_index al (al ! n)" id]
      alphabet_index_nth [OF al(1)] sextets_lt [OF bytes] al(2)
    by (simp add: EncodeToString_def comp_def)
  with keep octets_sextets [OF bytes] show ?thesis
    by (simp add: DecodeString_def comp_def byte_def)
qed

lemma std_alphabet_ok:
  "distinct std_alphabet" "length std_alphabet = 64" "CHR 0x0A \<notin> set std_alphabet"
  "CHR 0x0D \<notin> set std_alphabet" "CHR ''$'' \<notin> set std_alphabet"
  by (simp_all add: std_alphabet_def)

lemma url_alphabet_ok:
  "distinct url_alphabet" "length url_alphabet = 64" "CHR 0x0A \<notin> set url_alphabet"
  "CHR 0x0D \<notin> set url_alphabet"
  by (simp_all add: url_alphabet_def)

lemma Split_absent: "sep \<notin> set p \<Longrightarrow> Split sep p = [p]"
  by (induction p) auto

lemma Split_append: "sep \<notin> set p \<Longrightarrow> Split sep (p @ sep # s) = p # Split sep s"
  by (induction p) auto

lemma decimal_digits: "c \<in> set (decimal n) \<Longrightarrow> digit c"
proof (induction n rule: decimal.induct)
  case (1 n)
  show ?case
  proof (cases "n < 10")
    case True
    with 1 show ?thesis by (simp add: decimal.simps [of n] digit_def byte_def)
  next
    case False
    have "n mod 10 < 10" by simp
    then have "digit (char_of (48 + n mod 10))" by (simp add: digit_def byte_def)
    with False 1 show ?thesis by (auto simp: decimal.simps [of n])
  qed
qed

lemma decimal_nonempty: "decimal n \<noteq> []"
  by (subst decimal.simps) simp

lemma digits_value_snoc: "digits_value (s @ [c]) = digits_value s * 10 + (byte c - 48)"
  by (simp add: digits_value_def)

lemma digits_value_decimal: "digits_value (decimal n) = n"
proof (induction n rule: decimal.induct)
  case (1 n)
  show ?case
  proof (cases "n < 10")
    case True
    then show ?thesis by (simp add: decimal.simps [of n] digits_value_def byte_def)
  next
    case False
    have "n mod 10 < 10" by simp
    then have "byte (char_of (48 + n mod 10)) = 48 + n mod 10" by (simp add: byte_def)
    with False 1 show ?thesis
      by (simp add: decimal.simps [of n] digits_value_snoc)
  qed
qed

lemma skip_space_digit:
  assumes "digit c"
  shows "skip_space (c # s) = c # s"
proof -
  have "rune_width (c # s) = 1"
    using assms by (cases "c # s" rule: rune_width.cases) (auto simp: digit_def)
  then have "runes (c # s) = [c] # runes s" by simp
  moreover have "\<not> is_space [c]"
    using assms by (auto simp: is_space_def digit_def byte_def)
  ultimately show ?thesis by (simp add: skip_space_def)
qed

lemma scan_nat_decimal:
  assumes "rest = [] \<or> \<not> digit (hd rest)"
  shows "scan_nat (decimal n @ rest) = Some (n, rest)"
proof -
  have "takeWhile digit (decimal n @ rest) = decimal n"
    using assms decimal_digits by (cases rest) (auto simp: takeWhile_append takeWhile_eq_all_conv)
  moreover have "dropWhile digit (decimal n @ rest) = rest"
    using assms decimal_digits by (cases rest) (auto simp: dropWhile_append3 dropWhile_append2)
  ultimately show ?thesis by (simp add: scan_nat_def decimal_nonempty digits_value_decimal)
qed

lemma decimal_Cons: "\<exists>c s. decimal n = c # s \<and> digit c"
  using decimal_nonempty [of n] decimal_digits [of _ n] by (cases "decimal n") auto

lemma scan_uint_decimal:
  assumes "rest = [] \<or> \<not> digit (hd rest)" and "n < 2 ^ bits"
  shows "scan_uint bits (decimal n @ rest) = Some (n, rest)"
proof -
  obtain c s where "decimal n = c # s" and "digit c" using decimal_Cons by blast
  then have "skip_space (decimal n @ rest) = decimal n @ rest" by (simp add: skip_space_digit)
  with scan_nat_decimal [OF assms(1), of n] assms(2) show ?thesis by (simp add: scan_uint_def)
qed

lemma scan_int_decimal:
  assumes "n < 2 ^ 63"
  shows "scan_int (decimal n) = Some (int n, [])"
proof -
  obtain c s where d: "decimal n = c # s" and c: "digit c" using decimal_Cons by blast
  have "c \<noteq> CHR ''-''" "c \<noteq> CHR ''+''" using c by (auto simp: digit_def byte_def)
  moreover have "int n < 2 ^ 63" using assms by (simp add: of_nat_less_iff [symmetric])
  moreover have "scan_nat (c # s) = Some (n, [])"
    using scan_nat_decimal [of "[]" n] d by simp
  ultimately show ?thesis
    using skip_space_digit [OF c, of s] d by (simp add: scan_int_def Let_def)
qed

text \<open>The parts of an encoded hash.\<close>

definition hash_parts :: "argon2 \<Rightarrow> password_hasher \<Rightarrow> string \<Rightarrow> string \<Rightarrow> string list" where
  "hash_parts argon2 hasher salt hash =
     [[], ''argon2id'', ''v='' @ decimal (ar_Version argon2),
      ''m='' @ decimal (unat (ph_Memory hasher)) @ '',t='' @ decimal (unat (ph_Iterations hasher))
        @ '',p='' @ decimal (unat (ph_Parallelism hasher)),
      EncodeToString std_alphabet salt, EncodeToString std_alphabet hash]"

lemma decimal_no_dollar: "CHR ''$'' \<notin> set (decimal n)"
  using decimal_digits [of "CHR ''$''" n] by (auto simp: digit_def byte_def)

lemma encoded_no_dollar: "CHR ''$'' \<notin> set (EncodeToString std_alphabet s)"
  using EncodeToString_set [OF std_alphabet_ok(2), of s] std_alphabet_ok(5) by blast

lemma Split_Hash:
  assumes "Hash argon2 ToLower hasher (Some salt) password = Inr encoded"
  shows "Split (CHR ''$'') encoded = hash_parts argon2 hasher salt
    (ar_IDKey argon2 password salt (ph_Iterations hasher) (ph_Memory hasher) (ph_Parallelism hasher)
      (ph_KeyLength hasher))"
proof -
  let ?hash = "ar_IDKey argon2 password salt (ph_Iterations hasher) (ph_Memory hasher)
    (ph_Parallelism hasher) (ph_KeyLength hasher)"
  let ?v = "''v='' @ decimal (ar_Version argon2)"
  let ?p = "''m='' @ decimal (unat (ph_Memory hasher)) @ '',t='' @ decimal (unat (ph_Iterations hasher))
        @ '',p='' @ decimal (unat (ph_Parallelism hasher))"
  let ?s = "EncodeToString std_alphabet salt" and ?h = "EncodeToString std_alphabet ?hash"
  have enc: "encoded = [] @ CHR ''$'' # ''argon2id'' @ CHR ''$'' # ?v @ CHR ''$'' # ?p @ CHR ''$'' # ?s @ CHR ''$'' # ?h"
    using assms by (simp add: Hash_def Let_def split: sum.splits)
  have absent: "CHR ''$'' \<notin> set ''argon2id''" "CHR ''$'' \<notin> set ?v" "CHR ''$'' \<notin> set ?p"
    "CHR ''$'' \<notin> set ?s" "CHR ''$'' \<notin> set ?h"
    using decimal_no_dollar encoded_no_dollar by simp_all
  show ?thesis
    unfolding enc hash_parts_def
    by (simp only: Split_append [OF absent(1)] Split_append [OF absent(2)] Split_append [OF absent(3)]
        Split_append [OF absent(4)] Split_absent [OF absent(5)] append_Nil Split.simps simp_thms if_True)
qed

lemma literal_append [simp]: "literal p (p @ s) = Some s"
  by (simp add: literal_def)

lemma scan_parameters_decimal:
  "scan_parameters (''m='' @ decimal (unat (ph_Memory h)) @ '',t='' @ decimal (unat (ph_Iterations h))
     @ '',p='' @ decimal (unat (ph_Parallelism h))) =
   Some (h\<lparr>ph_SaltLength := 0, ph_KeyLength := 0\<rparr>)"
proof -
  have m: "unat (ph_Memory h) < 2 ^ 32" and i: "unat (ph_Iterations h) < 2 ^ 32"
    and p: "unat (ph_Parallelism h) < 2 ^ 8"
    using unsigned_less [where ?'a = nat, of "ph_Memory h"] unsigned_less [where ?'a = nat, of "ph_Iterations h"]
      unsigned_less [where ?'a = nat, of "ph_Parallelism h"]
    by simp_all
  have c: "\<not> digit (CHR '','')" by (simp add: digit_def byte_def)
  note lit = literal_append [of "''m=''"] literal_append [of "'',t=''"] literal_append [of "'',p=''"]
  have 1: "scan_uint 32 (decimal (unat (ph_Memory h)) @ '',t='' @ x) = Some (unat (ph_Memory h), '',t='' @ x)" for x
    by (rule scan_uint_decimal [OF _ m]) (simp add: c)
  have 2: "scan_uint 32 (decimal (unat (ph_Iterations h)) @ '',p='' @ x) = Some (unat (ph_Iterations h), '',p='' @ x)" for x
    by (rule scan_uint_decimal [OF _ i]) (simp add: c)
  have 3: "scan_uint 8 (decimal (unat (ph_Parallelism h))) = Some (unat (ph_Parallelism h), [])"
    using scan_uint_decimal [OF _ p, of "[]"] by simp
  show ?thesis
    unfolding scan_parameters_def lit bind.bind_lunit prod.case 1 2 3
    by (cases h) simp
qed

lemma decoded_part_encoded:
  "16 \<le> length s \<Longrightarrow> length s \<le> 64 \<Longrightarrow> decoded_part (EncodeToString std_alphabet s) = Some s"
  by (simp add: decoded_part_def DecodeString_EncodeToString std_alphabet_ok)

text \<open>
  What is needed of the key derivation and the hasher: the version is an \<open>int\<close>, a key has the
  requested length, and the parameters are ones \<open>parsePasswordHash\<close> accepts.
\<close>

definition usable_hasher :: "argon2 \<Rightarrow> password_hasher \<Rightarrow> bool" where
  "usable_hasher argon2 hasher \<longleftrightarrow> ar_Version argon2 < 2 ^ 63 \<and> parameters_in_bounds hasher
     \<and> 16 \<le> unat (ph_KeyLength hasher) \<and> unat (ph_KeyLength hasher) \<le> 64"

lemma parsePasswordHash_Hash:
  assumes hash: "Hash argon2 ToLower hasher (Some salt) password = Inr encoded"
    and ok: "usable_hasher argon2 hasher" and salt: "16 \<le> length salt" "length salt \<le> 64"
    and len: "\<And>p s i m l n. length (ar_IDKey argon2 p s i m l n) = unat n"
  shows "parsePasswordHash argon2 encoded = Inr (hasher\<lparr>ph_SaltLength := 0, ph_KeyLength := 0\<rparr>, salt,
    ar_IDKey argon2 password salt (ph_Iterations hasher) (ph_Memory hasher) (ph_Parallelism hasher)
      (ph_KeyLength hasher))"
proof -
  let ?key = "ar_IDKey argon2 password salt (ph_Iterations hasher) (ph_Memory hasher)
    (ph_Parallelism hasher) (ph_KeyLength hasher)"
  have version: "scan_version (''v='' @ decimal (ar_Version argon2)) = Some (int (ar_Version argon2))"
    using ok scan_int_decimal [of "ar_Version argon2"] literal_append [of "''v=''"]
    by (simp only: scan_version_def usable_hasher_def bind.bind_lunit option.map fst_conv)
  have bounds: "parameters_in_bounds (hasher\<lparr>ph_SaltLength := 0, ph_KeyLength := 0\<rparr>)"
    using ok by (simp add: usable_hasher_def parameters_in_bounds_def)
  have key: "decoded_part (EncodeToString std_alphabet ?key) = Some ?key"
    by (rule decoded_part_encoded) (use ok len in \<open>simp_all add: usable_hasher_def\<close>)
  define a where "a = ''v='' @ decimal (ar_Version argon2)"
  define b where "b = ''m='' @ decimal (unat (ph_Memory hasher)) @ '',t='' @ decimal (unat (ph_Iterations hasher))
        @ '',p='' @ decimal (unat (ph_Parallelism hasher))"
  show ?thesis
    using version scan_parameters_decimal [of hasher]
    unfolding parsePasswordHash_def Split_Hash [OF hash] hash_parts_def a_def [symmetric] b_def [symmetric]
    by (simp add: bounds key decoded_part_encoded [OF salt])
qed

text \<open>
  C34. Stored passwords verify: what \<open>Hash\<close> encodes, \<open>Verify\<close> parses back to the same parameters,
  salt and key, so it accepts the password that was hashed and accepts another one exactly when
  the key derivation maps both to the same key.
\<close>

theorem stored_password_verifies:
  assumes "Hash argon2 ToLower hasher (Some salt) password = Inr encoded"
    and "usable_hasher argon2 hasher" and "16 \<le> length salt" and "length salt \<le> 64"
    and len: "\<And>p s i m l n. length (ar_IDKey argon2 p s i m l n) = unat n"
  shows "Verify argon2 password encoded = Inr True
    \<and> Verify argon2 other encoded = Inr
      (ar_IDKey argon2 other salt (ph_Iterations hasher) (ph_Memory hasher) (ph_Parallelism hasher)
         (ph_KeyLength hasher) =
       ar_IDKey argon2 password salt (ph_Iterations hasher) (ph_Memory hasher) (ph_Parallelism hasher)
         (ph_KeyLength hasher))"
  using parsePasswordHash_Hash [OF assms] by (simp add: Verify_def len)

definition sampleArgon2 :: argon2 where
  "sampleArgon2 = \<lparr> ar_Version = 19, ar_IDKey = (\<lambda>p s i m l n. take (unat n) (p @ replicate (unat n) (CHR ''0''))) \<rparr>"

lemma sampleArgon2_length: "length (ar_IDKey sampleArgon2 p s i m l n) = unat n"
  by (simp add: sampleArgon2_def)

lemma sample_usable: "usable_hasher sampleArgon2 DefaultPasswordHasher"
  by (simp add: usable_hasher_def sampleArgon2_def parameters_in_bounds_def DefaultPasswordHasher_def)

lemma sample_policy: "ValidatePassword (\<lambda>s. s) ''an unusual passphrase'' = Inr ()"
  by code_simp

theorem stored_password_verifies_witness:
  "\<exists>encoded. Hash sampleArgon2 (\<lambda>s. s) DefaultPasswordHasher (Some (replicate 16 (CHR ''s''))) ''an unusual passphrase''
       = Inr encoded
     \<and> Verify sampleArgon2 ''an unusual passphrase'' encoded = Inr True
     \<and> Verify sampleArgon2 ''a different passphrase'' encoded = Inr False"
proof -
  let ?salt = "replicate 16 (CHR ''s'')"
  obtain encoded where h: "Hash sampleArgon2 (\<lambda>s. s) DefaultPasswordHasher (Some ?salt) ''an unusual passphrase'' = Inr encoded"
    using sample_policy by (simp add: Hash_def Let_def)
  note facts = stored_password_verifies [OF h sample_usable _ _ sampleArgon2_length]
  have "Verify sampleArgon2 ''a different passphrase'' encoded = Inr False"
    using facts [of "''a different passphrase''"] by (simp add: sampleArgon2_def DefaultPasswordHasher_def)
  with h facts show ?thesis by simp
qed

end
