(* ===== verification/Login_Limiter.thy ===== *)
theory Login_Limiter
  imports Espial_Prelude "HOL-Library.AList"
begin

text \<open>
  \<open>core/internal/auth/limiter.go\<close>: the login limiter, a fixed window per key with opportunistic
  pruning. The Go map is an association list with one entry per key; a missing entry reads as the
  zero value, whose start \<open>IsZero\<close>. \<open>time.Sub\<close> saturates at the width of a duration. The mutex
  serialises calls, so a run is a list of calls.
\<close>

record limit_entry =
  le_started :: time
  le_count :: int

record limiter =
  lm_limit :: int
  lm_window :: duration
  lm_entries :: "(string \<times> limit_entry) list"

definition NewLoginLimiter :: "int \<Rightarrow> duration \<Rightarrow> limiter" where
  "NewLoginLimiter limit window = \<lparr> lm_limit = limit, lm_window = window, lm_entries = [] \<rparr>"

definition outdated :: "duration \<Rightarrow> time \<Rightarrow> limit_entry \<Rightarrow> bool" where
  "outdated window now e \<longleftrightarrow> window \<le> Sub now (le_started e)"

definition Allow :: "limiter \<Rightarrow> string \<Rightarrow> time \<Rightarrow> bool \<times> limiter" where
  "Allow l key now =
     (let entry = (case map_of (lm_entries l) key of
            None \<Rightarrow> \<lparr> le_started = 0, le_count = 0 \<rparr> | Some e \<Rightarrow> e);
          entry = (if le_started entry = 0 \<or> outdated (lm_window l) now entry
            then \<lparr> le_started = now, le_count = 0 \<rparr> else entry)
      in if lm_limit l \<le> le_count entry then (False, l)
         else
           let entries = AList.update key (entry\<lparr>le_count := le_count entry + 1\<rparr>) (lm_entries l);
               entries = (if 1024 < length entries
                 then filter (\<lambda>(k, e). \<not> outdated (lm_window l) now e) entries else entries)
           in (True, l\<lparr>lm_entries := entries\<rparr>))"

text \<open>Runs, with a log of the calls that were allowed.\<close>

type_synonym limiter_log = "(string \<times> time) list"

fun serve :: "limiter \<times> limiter_log \<Rightarrow> string \<times> time \<Rightarrow> limiter \<times> limiter_log" where
  "serve (l, log) (key, now) =
     (case Allow l key now of (ok, l') \<Rightarrow> (l', if ok then log @ [(key, now)] else log))"

definition served :: "limiter \<Rightarrow> (string \<times> time) list \<Rightarrow> limiter \<times> limiter_log" where
  "served l calls = foldl serve (l, []) calls"

definition admitted :: "string \<Rightarrow> time \<Rightarrow> time \<Rightarrow> limiter_log \<Rightarrow> nat" where
  "admitted key lo hi log = length (filter (\<lambda>(k, u). k = key \<and> lo \<le> u \<and> u < hi) log)"

section \<open>Fixed windows\<close>

text \<open>
  The calls of one key, each with the start of the window that admitted it: a call lies in its
  window, two windows do not overlap, and a window admits at most the limit.
\<close>

definition windowed :: "nat \<Rightarrow> duration \<Rightarrow> (time \<times> time) list \<Rightarrow> bool" where
  "windowed limit window g \<longleftrightarrow>
     (\<forall>(s, u) \<in> set g. s \<le> u \<and> u < s + window)
     \<and> (\<forall>s \<in> fst ` set g. \<forall>s' \<in> fst ` set g. s < s' \<longrightarrow> s + window \<le> s')
     \<and> (\<forall>s. length (filter (\<lambda>p. fst p = s) g) \<le> limit)"

lemma length_le_fibres:
  assumes "finite S" and "f ` set xs \<subseteq> S" and "\<And>s. length (filter (\<lambda>x. f x = s) xs) \<le> n"
  shows "length xs \<le> card S * n"
  using assms
proof (induction S arbitrary: xs rule: finite_induct)
  case empty
  then show ?case by simp
next
  case (insert s S)
  let ?in = "filter (\<lambda>x. f x = s) xs" and ?out = "filter (\<lambda>x. f x \<noteq> s) xs"
  have "length (filter (\<lambda>x. f x = s') ?out) \<le> n" for s'
    using insert.prems(2) [of s'] length_filter_le [of "\<lambda>x. f x \<noteq> s" "filter (\<lambda>x. f x = s') xs"]
    by (simp add: conj_commute)
  then have "length ?out \<le> card S * n"
    by (intro insert.IH) (use insert.prems(1) in auto)
  moreover have "length xs = length ?in + length ?out" by (simp add: sum_length_filter_compl)
  ultimately show ?case using insert.prems(2) [of s] insert.hyps by simp
qed

lemma windowed_filter: "windowed n w g \<Longrightarrow> windowed n w (filter p g)"
proof -
  assume g: "windowed n w g"
  have "length (filter (\<lambda>q. fst q = s) (filter p g)) \<le> n" for s
  proof -
    have "length (filter (\<lambda>q. fst q = s) (filter p g)) = length (filter p (filter (\<lambda>q. fst q = s) g))"
      by (simp add: conj_commute)
    also have "\<dots> \<le> length (filter (\<lambda>q. fst q = s) g)" by (rule length_filter_le)
    also have "\<dots> \<le> n" using g by (simp add: windowed_def)
    finally show ?thesis .
  qed
  moreover have "fst ` set (filter p g) \<subseteq> fst ` set g" "set (filter p g) \<subseteq> set g" by auto
  ultimately show ?thesis using g unfolding windowed_def by blast
qed

text \<open>An interval of the length of a window meets at most two windows.\<close>

lemma windowed_interval:
  assumes g: "windowed n w g" and inside: "\<And>s u. (s, u) \<in> set g \<Longrightarrow> t \<le> u \<and> u < t + w"
  shows "length g \<le> 2 * n"
proof -
  let ?S = "fst ` set g"
  have "card ?S \<le> 2"
  proof (rule ccontr)
    assume "\<not> card ?S \<le> 2"
    then have three: "3 \<le> card ?S" by simp
    define a where "a = Min ?S" define c where "c = Max ?S"
    have fin: "finite ?S" "?S \<noteq> {}" using three by auto
    have ac: "a \<in> ?S" "c \<in> ?S" using fin by (simp_all add: a_def c_def)
    have "card (?S - {a, c}) \<ge> 1"
      using three card_Diff_subset [of "{a, c}" ?S] ac card_insert_le_m1 [of 2 "{c}" a]
      by (cases "a = c") auto
    then obtain b where b: "b \<in> ?S" "b \<noteq> a" "b \<noteq> c" by (metis Diff_iff card.empty empty_iff ex_in_conv insert_iff not_one_le_zero)
    have "a \<le> b" "b \<le> c" using fin b by (simp_all add: a_def c_def)
    with b have "a < b" "b < c" by simp_all
    with g ac b have gaps: "a + w \<le> b" "b + w \<le> c" by (auto simp: windowed_def)
    obtain u where "(a, u) \<in> set g" using ac by auto
    with g inside have "t \<le> u" "u < a + w" by (auto simp: windowed_def)
    moreover obtain v where "(c, v) \<in> set g" using ac by auto
    with g inside have "c \<le> v" "v < t + w" by (auto simp: windowed_def)
    ultimately show False using gaps by simp
  qed
  moreover have "length g \<le> card ?S * n"
    by (rule length_le_fibres [where f = fst]) (use g in \<open>auto simp: windowed_def\<close>)
  ultimately show ?thesis by (meson le_trans mult_le_mono1)
qed

section \<open>The limiter keeps fixed windows\<close>

lemma outdated_iff:
  "0 < window \<Longrightarrow> window < 2 ^ 63 \<Longrightarrow> outdated window now e \<longleftrightarrow> le_started e + window \<le> now"
  by (auto simp: outdated_def Sub_def)

lemma map_of_filter_value:
  assumes "distinct (map fst xs)"
  shows "map_of (filter (\<lambda>(k, v). P v) xs) k = (case map_of xs k of None \<Rightarrow> None | Some v \<Rightarrow> if P v then Some v else None)"
  using assms
proof (induction xs)
  case Nil
  then show ?case by simp
next
  case (Cons x xs)
  then have "map_of xs (fst x) = None" by (simp add: map_of_eq_None_iff)
  with Cons show ?case by (cases x) auto
qed

lemma distinct_filter_fst: "distinct (map fst xs) \<Longrightarrow> distinct (map fst (filter p xs))"
  by (induction xs) auto

text \<open>What a key's entry says about the windows \<open>g\<close> of that key, once no call is later than \<open>latest\<close>.\<close>

definition entry_agrees :: "duration \<Rightarrow> time \<Rightarrow> limit_entry option \<Rightarrow> (time \<times> time) list \<Rightarrow> bool" where
  "entry_agrees window latest x g \<longleftrightarrow> (case x of
       None \<Rightarrow> \<forall>s \<in> fst ` set g. s + window \<le> latest
     | Some e \<Rightarrow> le_started e \<noteq> 0 \<and> le_started e \<le> latest
         \<and> le_count e = int (length (filter (\<lambda>p. fst p = le_started e) g))
         \<and> (\<forall>s \<in> fst ` set g. s = le_started e \<or> s + window \<le> le_started e))"

lemma entry_agrees_later: "entry_agrees w latest x g \<Longrightarrow> latest \<le> now \<Longrightarrow> entry_agrees w now x g"
  by (force simp: entry_agrees_def split: option.splits)

lemma entry_agrees_pruned:
  assumes "entry_agrees w now (Some e) g" and "0 < w" and "le_started e + w \<le> now"
  shows "entry_agrees w now None g"
  using assms by (force simp: entry_agrees_def)

definition limiter_inv ::
  "int \<Rightarrow> duration \<Rightarrow> string \<Rightarrow> time \<Rightarrow> limiter \<times> limiter_log \<Rightarrow> (time \<times> time) list \<Rightarrow> bool" where
  "limiter_inv limit window key latest st g \<longleftrightarrow>
     lm_limit (fst st) = limit \<and> lm_window (fst st) = window
     \<and> distinct (map fst (lm_entries (fst st)))
     \<and> map snd g = map snd (filter (\<lambda>p. fst p = key) (snd st))
     \<and> windowed (nat limit) window g \<and> (\<forall>u \<in> snd ` set g. u \<le> latest)
     \<and> entry_agrees window latest (map_of (lm_entries (fst st)) key) g"

text \<open>The entry a call works on: a new window, or the running one.\<close>

definition entry_for :: "limiter \<Rightarrow> string \<Rightarrow> time \<Rightarrow> limit_entry" where
  "entry_for l key now = (case map_of (lm_entries l) key of
       None \<Rightarrow> \<lparr> le_started = now, le_count = 0 \<rparr>
     | Some e \<Rightarrow> if le_started e = 0 \<or> outdated (lm_window l) now e
         then \<lparr> le_started = now, le_count = 0 \<rparr> else e)"

lemma Allow_entry_for:
  "Allow l key now =
     (if lm_limit l \<le> le_count (entry_for l key now) then (False, l)
      else (True, l\<lparr>lm_entries :=
        (let entries = AList.update key ((entry_for l key now)\<lparr>le_count := le_count (entry_for l key now) + 1\<rparr>) (lm_entries l)
         in if 1024 < length entries then filter (\<lambda>(k, e). \<not> outdated (lm_window l) now e) entries else entries)\<rparr>))"
  by (auto simp: Allow_def entry_for_def Let_def split: option.splits)

lemma map_of_pruned:
  assumes "distinct (map fst xs)" and "0 < w" "w < 2 ^ 63"
  shows "map_of (if b then filter (\<lambda>(k, e). \<not> outdated w now e) xs else xs) k = map_of xs k
    \<or> (\<exists>e. map_of xs k = Some e \<and> le_started e + w \<le> now
        \<and> map_of (if b then filter (\<lambda>(k, e). \<not> outdated w now e) xs else xs) k = None)"
  using assms map_of_filter_value [OF assms(1), of "\<lambda>e. \<not> outdated w now e" k]
  by (auto simp: outdated_iff split: option.splits if_splits)

lemma entry_for_agrees:
  assumes agr: "entry_agrees w latest (map_of (lm_entries l) key) g" and w: "0 < w" "w < 2 ^ 63" "lm_window l = w"
    and now: "latest \<le> now" "0 < now"
  shows "le_started (entry_for l key now) \<noteq> 0" and "le_started (entry_for l key now) \<le> now"
    and "now < le_started (entry_for l key now) + w"
    and "le_count (entry_for l key now) = int (length (filter (\<lambda>p. fst p = le_started (entry_for l key now)) g))"
    and "\<forall>s \<in> fst ` set g. s = le_started (entry_for l key now) \<or> s + w \<le> le_started (entry_for l key now)"
proof -
  have none: "filter (\<lambda>p. fst p = now) g = []" if "\<And>s. s \<in> fst ` set g \<Longrightarrow> s + w \<le> now"
    using that w(1) by (force simp: filter_empty_conv)
  show "le_started (entry_for l key now) \<noteq> 0" "le_started (entry_for l key now) \<le> now"
    "now < le_started (entry_for l key now) + w"
    using agr now w by (auto simp: entry_for_def entry_agrees_def outdated_iff split: option.splits)
  have "le_count (entry_for l key now) = int (length (filter (\<lambda>p. fst p = le_started (entry_for l key now)) g))
    \<and> (\<forall>s \<in> fst ` set g. s = le_started (entry_for l key now) \<or> s + w \<le> le_started (entry_for l key now))"
  proof (cases "map_of (lm_entries l) key")
    case None
    then have new: "entry_for l key now = \<lparr> le_started = now, le_count = 0 \<rparr>" by (simp add: entry_for_def)
    have "s + w \<le> now" if "s \<in> fst ` set g" for s
      using None agr that now by (force simp: entry_agrees_def)
    with new none show ?thesis by force
  next
    case (Some e)
    show ?thesis
    proof (cases "le_started e + w \<le> now")
      case True
      with Some w have new: "entry_for l key now = \<lparr> le_started = now, le_count = 0 \<rparr>"
        by (simp add: entry_for_def outdated_iff)
      have "s + w \<le> now" if "s \<in> fst ` set g" for s
        using Some True agr that now w by (force simp: entry_agrees_def)
      with new none show ?thesis by force
    next
      case False
      with Some agr w show ?thesis by (simp add: entry_for_def entry_agrees_def outdated_iff)
    qed
  qed
  then show "le_count (entry_for l key now) = int (length (filter (\<lambda>p. fst p = le_started (entry_for l key now)) g))"
    and "\<forall>s \<in> fst ` set g. s = le_started (entry_for l key now) \<or> s + w \<le> le_started (entry_for l key now)"
    by blast+
qed

lemma windowed_snoc:
  assumes "windowed n w g" and "s \<le> u" "u < s + w" and "0 < w"
    and "\<forall>s' \<in> fst ` set g. s' = s \<or> s' + w \<le> s" and "length (filter (\<lambda>p. fst p = s) g) < n"
  shows "windowed n w (g @ [(s, u)])"
proof -
  have apart: "\<forall>x \<in> fst ` set (g @ [(s, u)]). \<forall>y \<in> fst ` set (g @ [(s, u)]). x < y \<longrightarrow> x + w \<le> y"
    using assms(1,4,5) by (force simp: windowed_def)
  have "length (filter (\<lambda>p. fst p = x) (g @ [(s, u)])) \<le> n" for x
    using assms(1,6) by (cases "x = s") (auto simp: windowed_def)
  with apart assms(1-3) show ?thesis by (simp add: windowed_def)
qed

lemma limiter_inv_serve:
  assumes inv: "limiter_inv limit w key latest (l, log) g" and w: "0 < w" "w < 2 ^ 63"
    and now: "latest \<le> now" "0 < now"
  shows "\<exists>g'. limiter_inv limit w key now (serve (l, log) (k, now)) g'"
proof (cases "lm_limit l \<le> le_count (entry_for l k now)")
  case True
  with inv now show ?thesis
    by (intro exI [of _ g]) (force simp: limiter_inv_def Allow_entry_for intro: entry_agrees_later)
next
  case False
  define e where "e = (entry_for l k now)\<lparr>le_count := le_count (entry_for l k now) + 1\<rparr>"
  define xs where "xs = AList.update k e (lm_entries l)"
  define ys where "ys = (if 1024 < length xs then filter (\<lambda>(k, e). \<not> outdated w now e) xs else xs)"
  from inv have facts: "lm_limit l = limit" "lm_window l = w" "distinct (map fst (lm_entries l))"
    "map snd g = map snd (filter (\<lambda>p. fst p = key) log)" "windowed (nat limit) w g" "\<forall>u \<in> snd ` set g. u \<le> latest"
    "entry_agrees w latest (map_of (lm_entries l) key) g"
    by (simp_all add: limiter_inv_def)
  have step: "serve (l, log) (k, now) = (l\<lparr>lm_entries := ys\<rparr>, log @ [(k, now)])"
    using False facts(2) by (simp add: Allow_entry_for ys_def xs_def e_def Let_def)
  have dist: "distinct (map fst xs)" using facts(3) by (simp add: xs_def distinct_update)
  have dist': "distinct (map fst ys)" using dist by (simp add: ys_def distinct_filter_fst)
  note pruned = map_of_pruned [OF dist w, where k = key and b = "1024 < length xs" and now = now, folded ys_def]
  have early: "\<forall>u \<in> snd ` set g. u \<le> now" using facts(6) now(1) by force
  show ?thesis
  proof (cases "k = key")
    case False
    have "map_of xs key = map_of (lm_entries l) key" using False by (simp add: xs_def update_conv)
    with pruned entry_agrees_later [OF facts(7) now(1)] entry_agrees_pruned [OF _ w(1)]
    have "entry_agrees w now (map_of ys key) g" by metis
    with facts early dist' False show ?thesis unfolding step by (intro exI [of _ g]) (simp add: limiter_inv_def)
  next
    case True
    note ent = entry_for_agrees [OF facts(7) w facts(2) now, folded True]
    let ?s = "le_started (entry_for l k now)"
    let ?g = "g @ [(?s, now)]"
    have room: "length (filter (\<lambda>p. fst p = ?s) g) < nat limit"
      using False ent(4) facts(1) by simp
    have "windowed (nat limit) w ?g" by (rule windowed_snoc [OF facts(5) ent(2,3) w(1) ent(5) room])
    moreover have "map_of ys key = Some e"
      using pruned ent(3) True by (auto simp: xs_def update_conv e_def)
    moreover have "entry_agrees w now (Some e) ?g" using ent by (simp add: entry_agrees_def e_def)
    ultimately show ?thesis
      using facts early dist' True unfolding step by (intro exI [of _ ?g]) (simp add: limiter_inv_def)
  qed
qed

text \<open>Calls in the order of the clock, none at Go's zero instant.\<close>

definition in_order :: "(string \<times> time) list \<Rightarrow> bool" where
  "in_order calls \<longleftrightarrow> sorted (map snd calls) \<and> (\<forall>c \<in> set calls. 0 < snd c)"

definition latest_of :: "(string \<times> time) list \<Rightarrow> time" where
  "latest_of calls = (if calls = [] then 0 else snd (List.last calls))"

lemma limiter_inv_served:
  assumes "0 < w" "w < 2 ^ 63" and "in_order calls"
  shows "\<exists>g. limiter_inv limit w key (latest_of calls) (served (NewLoginLimiter limit w) calls) g"
  using assms(3)
proof (induction calls rule: rev_induct)
  case Nil
  show ?case
    by (intro exI [of _ "[]"])
      (simp add: limiter_inv_def served_def NewLoginLimiter_def windowed_def entry_agrees_def)
next
  case (snoc c calls)
  obtain k now where c: "c = (k, now)" by (cases c)
  obtain l log where st: "served (NewLoginLimiter limit w) calls = (l, log)" by fastforce
  from snoc.prems have ord: "in_order calls" and pos: "0 < now"
    by (auto simp: in_order_def sorted_append c)
  have le: "latest_of calls \<le> now"
    using snoc.prems pos by (auto simp: latest_of_def in_order_def sorted_append c)
  obtain g where "limiter_inv limit w key (latest_of calls) (l, log) g" using snoc.IH [OF ord] st by auto
  from limiter_inv_serve [OF this assms(1,2) le pos, of k]
  show ?case using st c by (simp add: served_def latest_of_def)
qed

lemma admitted_windows:
  assumes "map snd g = map snd (filter (\<lambda>p. fst p = key) log)"
  shows "admitted key lo hi log = length (filter (\<lambda>p. lo \<le> snd p \<and> snd p < hi) g)"
proof -
  have "admitted key lo hi log = length (filter (\<lambda>u. lo \<le> u \<and> u < hi) (map snd (filter (\<lambda>p. fst p = key) log)))"
    by (simp add: admitted_def filter_map comp_def case_prod_beta' conj_ac)
  also have "\<dots> = length (filter (\<lambda>p. lo \<le> snd p \<and> snd p < hi) g)"
    unfolding assms [symmetric] by (simp add: filter_map comp_def)
  finally show ?thesis .
qed

text \<open>
  Login throttling: whatever calls were made for whatever keys, in an interval as long as the
  window at most twice the limit of calls are allowed for one key; and a call is refused only when
  as many calls as the limit were allowed for its key within the window before it. Pruning of old
  entries is therefore never visible.
\<close>

theorem login_limiter_bounds:
  assumes "0 < window" "window < 2 ^ 63" and "in_order (calls @ [(key, now)])"
    and "served (NewLoginLimiter limit window) calls = (l, log)"
  shows "admitted key t (t + window) log \<le> 2 * nat limit
    \<and> (\<not> fst (Allow l key now) \<longrightarrow> nat limit \<le> admitted key (now - window + 1) (now + 1) log)"
proof -
  have ord: "in_order calls" and now: "latest_of calls \<le> now" "0 < now"
    using assms(3) by (auto simp: in_order_def sorted_append latest_of_def)
  obtain g where inv: "limiter_inv limit window key (latest_of calls) (l, log) g"
    using limiter_inv_served [OF assms(1,2) ord] assms(4) by metis
  have log: "map snd g = map snd (filter (\<lambda>p. fst p = key) log)" and win: "windowed (nat limit) window g"
    using inv by (simp_all add: limiter_inv_def)
  have "length (filter (\<lambda>p. t \<le> snd p \<and> snd p < t + window) g) \<le> 2 * nat limit"
    by (rule windowed_interval [OF windowed_filter [OF win], where t = t]) auto
  moreover have "nat limit \<le> admitted key (now - window + 1) (now + 1) log" if "\<not> fst (Allow l key now)"
  proof -
    let ?s = "le_started (entry_for l key now)"
    have ent: "le_count (entry_for l key now) = int (length (filter (\<lambda>p. fst p = ?s) g))" "now < ?s + window"
      using inv entry_for_agrees [of window "latest_of calls" l key g now] assms(1,2) now
      by (auto simp: limiter_inv_def)
    have "limit \<le> le_count (entry_for l key now)"
      using that inv by (auto simp: Allow_entry_for limiter_inv_def split: if_splits)
    then have "nat limit \<le> length (filter (\<lambda>p. fst p = ?s) g)" using ent(1) by simp
    also have "\<dots> \<le> length (filter (\<lambda>p. now - window + 1 \<le> snd p \<and> snd p < now + 1) g)"
    proof (rule length_filter_mono)
      fix p assume p: "p \<in> set g" "fst p = ?s"
      then have "?s \<le> snd p" using win by (force simp: windowed_def)
      moreover have "snd p \<le> latest_of calls" using inv p by (force simp: limiter_inv_def)
      ultimately show "now - window + 1 \<le> snd p \<and> snd p < now + 1" using ent(2) now(1) by simp
    qed
    finally show ?thesis by (simp add: admitted_windows [OF log])
  qed
  ultimately show ?thesis by (simp add: admitted_windows [OF log])
qed

theorem login_limiter_bounds_witness:
  "admitted ''10.0.0.1'' 5 15 [(''10.0.0.1'', 5), (''10.0.0.1'', 12)] \<le> 4
   \<and> \<not> fst (Allow (fst (served (NewLoginLimiter 2 10) [(''10.0.0.1'', 5), (''10.0.0.1'', 12)])) ''10.0.0.1'' 13)
   \<and> 2 \<le> admitted ''10.0.0.1'' 4 14 [(''10.0.0.1'', 5), (''10.0.0.1'', 12)]"
proof -
  let ?calls = "[(''10.0.0.1'', 5), (''10.0.0.1'', 12)]"
  have run: "served (NewLoginLimiter 2 10) ?calls =
      (\<lparr> lm_limit = 2, lm_window = 10, lm_entries = [(''10.0.0.1'', \<lparr> le_started = 5, le_count = 2 \<rparr>)] \<rparr>, ?calls)"
    by (simp add: served_def NewLoginLimiter_def Allow_def outdated_def Sub_def)
  have refused: "\<not> fst (Allow (fst (served (NewLoginLimiter 2 10) ?calls)) ''10.0.0.1'' 13)"
    unfolding run by (simp add: Allow_def outdated_def Sub_def)
  show ?thesis
    using login_limiter_bounds [OF _ _ _ run, of "''10.0.0.1''" 13 5] refused run
    by (simp add: in_order_def)
qed

end
