(* ===== verification/Auth.thy ===== *)
theory Auth
  imports Password Login_Limiter Admin_Ops
begin

text \<open>
  Package \<open>auth\<close> (\<open>core/internal/auth/types.go\<close>, \<open>service.go\<close>): local accounts, roles, login with
  throttling and lockout, sessions and their rotation, and the administration of users. Every
  method of \<open>Service\<close> is a computation on the tables; the clock \<open>options.Now\<close> and the bytes read
  from \<open>crypto/rand\<close> are arguments. A \<open>timestamptz\<close> parameter has microseconds, so an instant is
  truncated where it enters a statement. Identifiers the service read back from the database are
  canonical; one that comes with a request is normalised where a \<open>uuid\<close> parameter takes it. The login limiter is the only state outside the
  database; \<open>Login\<close> returns it updated.

  \<open>auth_env\<close> collects the library functions no property depends on: the Unicode tables behind
  \<open>strings.ToLower\<close>, \<open>unicode.IsLetter\<close> and \<open>unicode.IsDigit\<close>, the \<open>lower()\<close> of the database,
  \<open>mail.ParseAddress\<close>, \<open>strings.EqualFold\<close> and \<open>json.Unmarshal\<close> of a cursor, next to Argon2 and
  \<open>runtime\<close>. Text is ordered by bytes.
\<close>

section \<open>Types\<close>

record user =
  ur_ID :: string
  ur_Username :: string
  ur_DisplayName :: string
  ur_Roles :: "string list"
  ur_Permissions :: "string list"

record managed_user =
  mg_ID :: string
  mg_Username :: string
  mg_DisplayName :: string
  mg_Email :: string
  mg_IdentityProvider :: string
  mg_Enabled :: bool
  mg_Roles :: "string list"
  mg_ActiveSessions :: nat
  mg_PasswordChanged :: "time option"
  mg_CreatedAt :: time
  mg_UpdatedAt :: time

record managed_user_list =
  ml_Items :: "managed_user list"
  ml_NextCursor :: string

record managed_user_filter =
  mf_Limit :: int
  mf_Cursor :: string

record role_view =
  rv_Name :: string
  rv_Permissions :: "string list"

record administration_context =
  ac_ActorUserID :: string
  ac_SourceAddress :: string
  ac_CorrelationID :: string

record create_managed_user =
  cm_Username :: string
  cm_DisplayName :: string
  cm_Email :: string
  cm_Role :: string
  cm_Password :: string
  cm_Context :: administration_context

record update_managed_user =
  um_ID :: string
  um_DisplayName :: string
  um_Email :: string
  um_Role :: string
  um_Enabled :: bool
  um_ExpectedUpdatedAt :: time
  um_Context :: administration_context

record reset_managed_password =
  rp_ID :: string
  rp_Password :: string
  rp_Context :: administration_context

definition HasPermission :: "user \<Rightarrow> string \<Rightarrow> bool" where
  "HasPermission u permission = list_ex (\<lambda>candidate. candidate = permission) (ur_Permissions u)"

record session =
  se_ID :: string
  se_Token :: string
  se_CSRFToken :: string
  se_CSRFDigest :: string
  se_User :: user
  se_ExpiresAt :: time
  se_AbsoluteExpiry :: time

record auth_env =
  en_rt :: runtime
  en_argon2 :: argon2
  en_ToLower :: "string \<Rightarrow> string"
  en_lower :: "string \<Rightarrow> string"
  en_IsLetter :: "string \<Rightarrow> bool"
  en_IsDigit :: "string \<Rightarrow> bool"
  en_ParseAddress :: "string \<Rightarrow> string option"
  en_EqualFold :: "string \<Rightarrow> string \<Rightarrow> bool"
  en_UnmarshalCursor :: "string \<Rightarrow> (string \<times> string) option"

definition NormalizeUsername :: "auth_env \<Rightarrow> string \<Rightarrow> string" where
  "NormalizeUsername env username = en_ToLower env (TrimSpace username)"

definition digestSecret :: "auth_env \<Rightarrow> string \<Rightarrow> string" where
  "digestSecret env raw = rt_sha256 (en_rt env) raw"

definition newSecret :: "auth_env \<Rightarrow> string option \<Rightarrow> err + string \<times> string" where
  "newSecret env bytes = (case bytes of
       None \<Rightarrow> Inl (ErrText ''rand'')
     | Some value \<Rightarrow>
         let raw = EncodeToString url_alphabet value in Inr (raw, digestSecret env raw))"

section \<open>Options\<close>

record auth_options =
  op_Hasher :: password_hasher
  op_SessionIdle :: duration
  op_SessionAbsolute :: duration
  op_FailureLimit :: int
  op_LockoutDuration :: duration
  op_LoginLimiter :: "limiter option"

definition DefaultOptions :: auth_options where
  "DefaultOptions = \<lparr> op_Hasher = DefaultPasswordHasher, op_SessionIdle = 30 * 60 * second,
     op_SessionAbsolute = 12 * 3600 * second, op_FailureLimit = 5, op_LockoutDuration = 15 * 60 * second,
     op_LoginLimiter = Some (NewLoginLimiter 10 (60 * second)) \<rparr>"

record auth_service =
  sv_options :: auth_options
  sv_dummyHash :: string

definition NewService :: "auth_env \<Rightarrow> string option \<Rightarrow> auth_options \<Rightarrow> err + auth_service" where
  "NewService env salt options0 =
     (let o1 = (if ph_Memory (op_Hasher options0) = 0 then options0\<lparr>op_Hasher := op_Hasher DefaultOptions\<rparr> else options0);
          o2 = (if op_SessionIdle o1 \<le> 0 then o1\<lparr>op_SessionIdle := op_SessionIdle DefaultOptions\<rparr> else o1);
          o3 = (if op_SessionAbsolute o2 \<le> 0 then o2\<lparr>op_SessionAbsolute := op_SessionAbsolute DefaultOptions\<rparr> else o2);
          o4 = (if op_FailureLimit o3 \<le> 0 then o3\<lparr>op_FailureLimit := op_FailureLimit DefaultOptions\<rparr> else o3);
          o5 = (if op_LockoutDuration o4 \<le> 0 then o4\<lparr>op_LockoutDuration := op_LockoutDuration DefaultOptions\<rparr> else o4);
          options = (if op_LoginLimiter o5 = None then o5\<lparr>op_LoginLimiter := op_LoginLimiter DefaultOptions\<rparr> else o5)
      in case Hash (en_argon2 env) (en_ToLower env) (op_Hasher options) salt ''this password is never accepted'' of
           Inl _ \<Rightarrow> Inl (ErrText ''create comparison hash'')
         | Inr dummyHash \<Rightarrow> Inr \<lparr> sv_options = options, sv_dummyHash = dummyHash \<rparr>)"

definition hash_password :: "auth_env \<Rightarrow> auth_service \<Rightarrow> string option \<Rightarrow> string \<Rightarrow> err + string" where
  "hash_password env sv salt password =
     Hash (en_argon2 env) (en_ToLower env) (op_Hasher (sv_options sv)) salt password"

section \<open>Audit\<close>

record auth_audit_event =
  aa_ActorUserID :: string
  aa_Action :: string
  aa_TargetType :: string
  aa_TargetID :: string
  aa_Result :: string
  aa_SourceAddress :: string
  aa_CorrelationID :: string
  aa_BeforeSummary :: "summary option"
  aa_AfterSummary :: "summary option"

definition nullableAddress :: "auth_env \<Rightarrow> string \<Rightarrow> string option" where
  "nullableAddress env v = (if rt_ParseIP (en_rt env) v then Some v else None)"

definition nullableText :: "string \<Rightarrow> string option" where
  "nullableText v = (if v = '''' then None else Some v)"

definition auditArguments :: "auth_env \<Rightarrow> auth_audit_event \<Rightarrow> string \<Rightarrow> time \<Rightarrow> audit_row" where
  "auditArguments env e u c = \<lparr> au_id = u,
     au_actor_user_id = (if aa_ActorUserID e = '''' then None else Some (uuid_param (aa_ActorUserID e))),
     au_action = aa_Action e, au_target_type = aa_TargetType e, au_target_id = nullableText (aa_TargetID e),
     au_result = aa_Result e, au_source_address = nullableAddress env (aa_SourceAddress e),
     au_correlation_id = (if aa_CorrelationID e = '''' then ''system'' else aa_CorrelationID e),
     au_before_summary = map_option (\<lambda>s. rt_json (en_rt env) (JObj s)) (aa_BeforeSummary e),
     au_after_summary = map_option (\<lambda>s. rt_json (en_rt env) (JObj s)) (aa_AfterSummary e),
     au_occurred_at = c \<rparr>"

definition insertAudit :: "auth_env \<Rightarrow> auth_audit_event \<Rightarrow> unit tx" where
  "insertAudit env e = tx_insert (\<lambda>u c t.
     if u \<in> au_id ` set (t_audit t) then Inl DbError
     else Inr ((), t\<lparr>t_audit := t_audit t @ [auditArguments env e u c]\<rparr>))"

definition plain_event :: "string \<Rightarrow> string \<Rightarrow> string \<Rightarrow> string \<Rightarrow> string \<Rightarrow> string \<Rightarrow> string \<Rightarrow> auth_audit_event" where
  "plain_event actor action targetType targetID result source correlation =
     \<lparr> aa_ActorUserID = actor, aa_Action = action, aa_TargetType = targetType, aa_TargetID = targetID,
       aa_Result = result, aa_SourceAddress = source, aa_CorrelationID = correlation,
       aa_BeforeSummary = None, aa_AfterSummary = None \<rparr>"

definition RecordDenied :: "auth_env \<Rightarrow> user \<Rightarrow> string \<Rightarrow> string \<Rightarrow> string \<Rightarrow> unit tx" where
  "RecordDenied env u action source requestID =
     insertAudit env (plain_event (ur_ID u) action ''permission'' action ''denied'' source requestID)"

section \<open>Validation\<close>

definition username_rune :: "auth_env \<Rightarrow> string \<Rightarrow> bool" where
  "username_rune env r \<longleftrightarrow> en_IsLetter env (encode_rune r) \<or> en_IsDigit env (encode_rune r)
     \<or> r \<in> {''.'', ''_'', ''-''}"

definition validateUsername :: "auth_env \<Rightarrow> string \<Rightarrow> err + unit" where
  "validateUsername env username =
     (let n = RuneCountInString username in
      if n < 3 \<or> 64 < n then Inl (ErrText ''username must contain between 3 and 64 characters'')
      else if \<not> list_all (username_rune env) (runes username)
      then Inl (ErrText ''username may contain letters, numbers, dot, underscore, and hyphen'')
      else Inr ())"

definition validateManagedIdentity :: "auth_env \<Rightarrow> string \<Rightarrow> string \<Rightarrow> err + unit" where
  "validateManagedIdentity env displayName email =
     (if \<not> ValidString displayName \<or> RuneCountInString displayName < 1 \<or> 128 < RuneCountInString displayName
      then Inl (ErrText ''display name must contain between 1 and 128 Unicode characters'')
      else if email = '''' then Inr ()
      else if 254 < length email then Inl (ErrText ''email address is too long'')
      else case en_ParseAddress env email of
        None \<Rightarrow> Inl (ErrText ''email address is invalid'')
      | Some address \<Rightarrow>
          if \<not> en_EqualFold env address email then Inl (ErrText ''email address is invalid'') else Inr ())"

definition managedUserSummary :: "managed_user \<Rightarrow> string \<Rightarrow> summary" where
  "managedUserSummary u role = [(''display_name'', JText (mg_DisplayName u)), (''email'', JText (mg_Email u)),
     (''enabled'', JBool (mg_Enabled u)), (''role'', JText role), (''username'', JText (mg_Username u))]"

definition keys :: "string list \<Rightarrow> string list" where
  "keys xs = sort (remdups xs)"

definition administratorPermissions :: "string list" where
  "administratorPermissions = [''audit:read'', ''incident_rules:manage'', ''incidents:operate'', ''incidents:read'',
     ''integrations:manage'', ''integrations:read'', ''notification_destinations:manage'',
     ''overview:read'', ''resources:read'', ''roles:manage'', ''suppressions:manage'',
     ''users:manage'', ''webpages:read'', ''website_monitors:manage'']"

section \<open>Statements on accounts\<close>

text \<open>The unique indexes of \<open>users\<close>: \<open>lower(username)\<close>, and the subject at its provider.\<close>

definition user_conflict :: "auth_env \<Rightarrow> string \<Rightarrow> user_row \<Rightarrow> bool" where
  "user_conflict env username u \<longleftrightarrow> en_lower env (us_username u) = en_lower env username
     \<or> (us_identity_provider u = ''local'' \<and> us_external_subject u = Some username)"

definition new_local_user :: "string \<Rightarrow> string \<Rightarrow> string \<Rightarrow> string \<Rightarrow> time \<Rightarrow> user_row" where
  "new_local_user u username displayName email c = \<lparr> us_id = u, us_username = username,
     us_display_name = displayName, us_email = nullif email, us_identity_provider = ''local'',
     us_external_subject = Some username, us_enabled = True, us_created_at = c, us_updated_at = c \<rparr>"

text \<open>\<open>INSERT INTO users ... ON CONFLICT DO NOTHING RETURNING\<close>\<close>

definition insertUser :: "auth_env \<Rightarrow> string \<Rightarrow> string \<Rightarrow> string \<Rightarrow> user_row option tx" where
  "insertUser env username displayName email = tx_insert (\<lambda>u c t.
     if u \<in> us_id ` set (t_users t) \<or> list_ex (user_conflict env username) (t_users t) then Inr (None, t)
     else let r = new_local_user u username displayName email c
          in Inr (Some r, t\<lparr>t_users := t_users t @ [r]\<rparr>))"

definition insertCredential :: "string \<Rightarrow> string \<Rightarrow> unit tx" where
  "insertCredential userID passwordHash = tx_insert (\<lambda>u c t.
     if userID \<in> cr_user_id ` set (t_credentials t) then Inl DbError
     else Inr ((), t\<lparr>t_credentials := t_credentials t @ [\<lparr> cr_user_id = userID,
       cr_password_hash = passwordHash, cr_password_changed_at = c, cr_failed_attempts = 0,
       cr_locked_until = None \<rparr>]\<rparr>))"

definition insertUserRole :: "string \<Rightarrow> string \<Rightarrow> unit tx" where
  "insertUserRole userID roleID = tx_insert (\<lambda>u c t.
     if (userID, roleID) \<in> set (t_user_roles t) then Inl DbError
     else Inr ((), t\<lparr>t_user_roles := t_user_roles t @ [(userID, roleID)]\<rparr>))"

definition role_by_name :: "string \<Rightarrow> role_row option tx" where
  "role_by_name name = tx_query (\<lambda>t. find_row ro_name name (t_roles t))"

text \<open>Names of the roles of a user, and whether one of them is \<open>administrator\<close>.\<close>

definition role_names :: "tables \<Rightarrow> string \<Rightarrow> string list" where
  "role_names t userID = concat (map (\<lambda>(u, r).
     if u = userID then map ro_name (filter (\<lambda>x. ro_id x = r) (t_roles t)) else []) (t_user_roles t))"

definition revokeSessions :: "(session_row \<Rightarrow> bool) \<Rightarrow> nat tx" where
  "revokeSessions p = tx_clocked (\<lambda>c t.
     let q = (\<lambda>s. p s \<and> ss_revoked_at s = None)
     in (length (filter q (t_sessions t)),
         t\<lparr>t_sessions := update_where q (\<lambda>s. s\<lparr>ss_revoked_at := Some c\<rparr>) (t_sessions t)\<rparr>))"

text \<open>\<open>UPDATE local_credentials SET password_hash ...\<close>, with the number of rows.\<close>

definition resetCredential :: "string \<Rightarrow> string \<Rightarrow> nat tx" where
  "resetCredential userID passwordHash = tx_clocked (\<lambda>c t.
     let p = (\<lambda>r. cr_user_id r = userID)
     in (length (filter p (t_credentials t)),
         t\<lparr>t_credentials := update_where p (\<lambda>r. r\<lparr> cr_password_hash := passwordHash,
           cr_password_changed_at := c, cr_failed_attempts := 0, cr_locked_until := None \<rparr>) (t_credentials t)\<rparr>))"

definition localUserID :: "auth_env \<Rightarrow> string \<Rightarrow> string tx" where
  "localUserID env username = tx_bind (tx_query (\<lambda>t. List.find (\<lambda>u.
       en_lower env (us_username u) = en_lower env username \<and> us_identity_provider u = ''local'') (t_users t))) (\<lambda>found.
     case found of None \<Rightarrow> tx_fail ErrUserNotFound | Some u \<Rightarrow> tx_return (us_id u))"

section \<open>Accounts\<close>

text \<open>Whether some account holds the administrator role, enabled or not.\<close>

definition bootstrapped :: "tables \<Rightarrow> bool" where
  "bootstrapped t = list_ex (\<lambda>(u, r). list_ex (\<lambda>x. ro_id x = r \<and> ro_name x = ''administrator'') (t_roles t)) (t_user_roles t)"

text \<open>The plain \<open>INSERT INTO users\<close>: a conflict is an error.\<close>

definition insertBootstrapUser :: "auth_env \<Rightarrow> string \<Rightarrow> string tx" where
  "insertBootstrapUser env username = tx_insert (\<lambda>u c t.
     if u \<in> us_id ` set (t_users t) \<or> list_ex (user_conflict env username) (t_users t) then Inl DbError
     else Inr (u, t\<lparr>t_users := t_users t @ [new_local_user u username username '''' c]\<rparr>))"

definition BootstrapAdmin ::
  "auth_env \<Rightarrow> auth_service \<Rightarrow> string option \<Rightarrow> string \<Rightarrow> string \<Rightarrow> string \<Rightarrow> string \<Rightarrow> user tx" where
  "BootstrapAdmin env sv salt username0 password requestID source =
     (let username = NormalizeUsername env username0 in
      case validateUsername env username of Inl e \<Rightarrow> tx_fail e | Inr _ \<Rightarrow>
      (case hash_password env sv salt password of Inl e \<Rightarrow> tx_fail e | Inr passwordHash \<Rightarrow>
       in_tx (
         tx_bind (tx_query (\<lambda>_. ())) (\<lambda>_.
         tx_bind (tx_query bootstrapped) (\<lambda>exists.
         if exists then tx_fail ErrAlreadyBootstrapped
         else
           tx_bind (insertBootstrapUser env username) (\<lambda>userID.
           tx_bind (insertCredential userID passwordHash) (\<lambda>_.
           tx_bind (tx_exec (\<lambda>t. t\<lparr>t_user_roles := t_user_roles t @
             map (\<lambda>r. (userID, ro_id r)) (filter (\<lambda>r. ro_name r = ''administrator'') (t_roles t))\<rparr>)) (\<lambda>_.
           tx_bind (insertAudit env (plain_event userID ''auth.local.bootstrap'' ''user'' userID ''succeeded''
             source requestID)) (\<lambda>_.
           tx_return (Commit \<lparr> ur_ID = userID, ur_Username = username, ur_DisplayName = username,
             ur_Roles = [''administrator''], ur_Permissions = administratorPermissions \<rparr>))))))))))"

definition scan_managed :: "user_row \<Rightarrow> managed_user" where
  "scan_managed u = \<lparr> mg_ID = us_id u, mg_Username = us_username u, mg_DisplayName = us_display_name u,
     mg_Email = text_of (us_email u), mg_IdentityProvider = us_identity_provider u, mg_Enabled = us_enabled u,
     mg_Roles = [], mg_ActiveSessions = 0, mg_PasswordChanged = None, mg_CreatedAt = us_created_at u,
     mg_UpdatedAt = us_updated_at u \<rparr>"

definition CreateManagedUser ::
  "auth_env \<Rightarrow> auth_service \<Rightarrow> string option \<Rightarrow> create_managed_user \<Rightarrow> managed_user tx" where
  "CreateManagedUser env sv salt input =
     (let username = NormalizeUsername env (cm_Username input);
          displayName = TrimSpace (cm_DisplayName input);
          email = TrimSpace (cm_Email input);
          role = en_ToLower env (TrimSpace (cm_Role input)) in
      case validateUsername env username of Inl e \<Rightarrow> tx_fail e | Inr _ \<Rightarrow>
      (case validateManagedIdentity env displayName email of Inl e \<Rightarrow> tx_fail e | Inr _ \<Rightarrow>
      (case hash_password env sv salt (cm_Password input) of Inl e \<Rightarrow> tx_fail e | Inr passwordHash \<Rightarrow>
       in_tx (
         tx_bind (role_by_name role) (\<lambda>found.
         case found of None \<Rightarrow> tx_fail ErrRoleNotFound | Some r \<Rightarrow>
         tx_bind (insertUser env username displayName email) (\<lambda>created.
         case created of None \<Rightarrow> tx_fail ErrUsernameTaken | Some u \<Rightarrow>
         let user = scan_managed u in
         tx_bind (insertCredential (mg_ID user) passwordHash) (\<lambda>_.
         tx_bind (insertUserRole (mg_ID user) (ro_id r)) (\<lambda>_.
         tx_bind (insertAudit env \<lparr> aa_ActorUserID = ac_ActorUserID (cm_Context input),
           aa_Action = ''auth.local.user.created'', aa_TargetType = ''user'', aa_TargetID = mg_ID user,
           aa_Result = ''succeeded'', aa_SourceAddress = ac_SourceAddress (cm_Context input),
           aa_CorrelationID = ac_CorrelationID (cm_Context input), aa_BeforeSummary = None,
           aa_AfterSummary = Some (managedUserSummary (user\<lparr>mg_Enabled := True\<rparr>) role) \<rparr>) (\<lambda>_.
         tx_return (Commit (user\<lparr>mg_Roles := [role]\<rparr>)))))))))))"

text \<open>The role an update looks at: the first by name, or none.\<close>

definition current_role :: "tables \<Rightarrow> string \<Rightarrow> string" where
  "current_role t userID = (case first_by id (role_names t userID) of None \<Rightarrow> '''' | Some r \<Rightarrow> r)"

definition other_administrators :: "tables \<Rightarrow> string \<Rightarrow> nat" where
  "other_administrators t userID = sum_list (map (\<lambda>u.
     if us_enabled u \<and> us_id u \<noteq> userID
     then length (filter (\<lambda>n. n = ''administrator'') (role_names t (us_id u))) else 0) (t_users t))"

definition loseAdministrator :: "update_managed_user \<Rightarrow> string \<Rightarrow> bool" where
  "loseAdministrator input role \<longleftrightarrow> \<not> um_Enabled input \<or> role \<noteq> ''administrator''"

text \<open>\<open>UPDATE users ... RETURNING\<close>\<close>

definition updateUserRow :: "update_managed_user \<Rightarrow> string \<Rightarrow> string \<Rightarrow> user_row option tx" where
  "updateUserRow input displayName email = tx_clocked (\<lambda>c t.
     let p = (\<lambda>u. us_id u = um_ID input);
         rows = update_where p (\<lambda>u. u\<lparr> us_display_name := displayName, us_email := nullif email,
           us_enabled := um_Enabled input, us_updated_at := c \<rparr>) (t_users t)
     in (List.find p rows, t\<lparr>t_users := rows\<rparr>))"

definition replaceRole :: "string \<Rightarrow> string \<Rightarrow> unit tx" where
  "replaceRole userID roleID =
     tx_bind (tx_exec (\<lambda>t. t\<lparr>t_user_roles := filter (\<lambda>(u, r). u \<noteq> userID) (t_user_roles t)\<rparr>)) (\<lambda>_.
     insertUserRole userID roleID)"

definition applyManagedUpdate ::
  "auth_env \<Rightarrow> update_managed_user \<Rightarrow> string \<Rightarrow> string \<Rightarrow> string \<Rightarrow> managed_user \<Rightarrow> string \<Rightarrow> string \<Rightarrow>
     managed_user outcome tx" where
  "applyManagedUpdate env input displayName email role before currentRole roleID =
     tx_bind (updateUserRow input displayName email) (\<lambda>row.
     case row of None \<Rightarrow> tx_fail DbError | Some u \<Rightarrow>
     let updated = scan_managed u in
     tx_bind (if currentRole \<noteq> role then replaceRole (um_ID input) roleID else tx_return ()) (\<lambda>_.
     tx_bind (if currentRole \<noteq> role \<or> mg_Enabled before \<noteq> um_Enabled input
         then revokeSessions (\<lambda>s. ss_user_id s = um_ID input) else tx_return 0) (\<lambda>_.
     tx_bind (insertAudit env \<lparr> aa_ActorUserID = ac_ActorUserID (um_Context input),
       aa_Action = ''auth.user.updated'', aa_TargetType = ''user'', aa_TargetID = um_ID input,
       aa_Result = ''succeeded'', aa_SourceAddress = ac_SourceAddress (um_Context input),
       aa_CorrelationID = ac_CorrelationID (um_Context input),
       aa_BeforeSummary = Some (managedUserSummary before currentRole),
       aa_AfterSummary = Some (managedUserSummary updated role) \<rparr>) (\<lambda>_.
     tx_return (Commit (updated\<lparr>mg_Roles := [role]\<rparr>))))))"

text \<open>The reads and checks of an update, under its advisory lock.\<close>

definition keepsAdministrator :: "update_managed_user \<Rightarrow> string \<Rightarrow> string \<Rightarrow> bool \<Rightarrow> unit tx" where
  "keepsAdministrator input role currentRole enabled =
     (if currentRole = ''administrator'' \<and> enabled \<and> loseAdministrator input role
      then tx_bind (tx_query (\<lambda>t. other_administrators t (um_ID input))) (\<lambda>others.
        if others = 0 then tx_fail ErrLastAdministrator else tx_return ())
      else tx_return ())"

definition checkManagedUpdate :: "update_managed_user \<Rightarrow> string \<Rightarrow> (managed_user \<times> string \<times> string) tx" where
  "checkManagedUpdate input role =
     tx_bind (tx_query (\<lambda>_. ())) (\<lambda>_.
     tx_bind (tx_query (\<lambda>t. map_option (\<lambda>u. (scan_managed u, current_role t (us_id u)))
         (find_row us_id (um_ID input) (t_users t)))) (\<lambda>found.
     case found of None \<Rightarrow> tx_fail ErrUserNotFound | Some (before, currentRole) \<Rightarrow>
     if um_ExpectedUpdatedAt input = 0 \<or> mg_UpdatedAt before \<noteq> um_ExpectedUpdatedAt input
     then tx_fail ErrUserChanged
     else if um_ID input = ac_ActorUserID (um_Context input) \<and> loseAdministrator input role
     then tx_fail ErrSelfLockout
     else
       tx_bind (keepsAdministrator input role currentRole (mg_Enabled before)) (\<lambda>_.
       tx_bind (role_by_name role) (\<lambda>found.
       case found of None \<Rightarrow> tx_fail ErrRoleNotFound | Some r \<Rightarrow> tx_return (before, currentRole, ro_id r)))))"

definition UpdateManagedUser :: "auth_env \<Rightarrow> update_managed_user \<Rightarrow> managed_user tx" where
  "UpdateManagedUser env input =
     (let displayName = TrimSpace (um_DisplayName input);
          email = TrimSpace (um_Email input);
          role = en_ToLower env (TrimSpace (um_Role input)) in
      case validateManagedIdentity env displayName email of Inl e \<Rightarrow> tx_fail e | Inr _ \<Rightarrow>
      in_tx (tx_bind (checkManagedUpdate input role) (\<lambda>(before, currentRole, roleID).
        applyManagedUpdate env input displayName email role before currentRole roleID)))"

text \<open>The statements after a password was replaced: one credential, and every session ends.\<close>

definition ResetManagedUserPassword ::
  "auth_env \<Rightarrow> auth_service \<Rightarrow> string option \<Rightarrow> reset_managed_password \<Rightarrow> unit tx" where
  "ResetManagedUserPassword env sv salt input =
     (case hash_password env sv salt (rp_Password input) of Inl e \<Rightarrow> tx_fail e | Inr passwordHash \<Rightarrow>
      in_tx (
        tx_bind (tx_query (\<lambda>t. find_row us_id (rp_ID input) (t_users t))) (\<lambda>found.
        case found of None \<Rightarrow> tx_fail ErrUserNotFound | Some u \<Rightarrow>
        if us_identity_provider u \<noteq> ''local'' then tx_fail ErrUserNotFound
        else
          tx_bind (resetCredential (rp_ID input) passwordHash) (\<lambda>n.
          if n \<noteq> 1 then tx_fail ErrUserNotFound
          else
            tx_bind (revokeSessions (\<lambda>s. ss_user_id s = rp_ID input)) (\<lambda>_.
            tx_bind (insertAudit env \<lparr> aa_ActorUserID = ac_ActorUserID (rp_Context input),
              aa_Action = ''auth.password.reset'', aa_TargetType = ''user'', aa_TargetID = rp_ID input,
              aa_Result = ''succeeded'', aa_SourceAddress = ac_SourceAddress (rp_Context input),
              aa_CorrelationID = ac_CorrelationID (rp_Context input), aa_BeforeSummary = None,
              aa_AfterSummary = Some [(''sessions_revoked'', JBool True), (''username'', JText (us_username u))] \<rparr>) (\<lambda>_.
            tx_return (Commit ())))))))"

section \<open>Accounts from the host\<close>

definition CreateLocalUser ::
  "auth_env \<Rightarrow> auth_service \<Rightarrow> string option \<Rightarrow> string \<Rightarrow> string \<Rightarrow> string \<Rightarrow> string \<Rightarrow> user tx" where
  "CreateLocalUser env sv salt username0 password role0 requestID =
     (let username = NormalizeUsername env username0; role = en_ToLower env (TrimSpace role0) in
      case validateUsername env username of Inl e \<Rightarrow> tx_fail e | Inr _ \<Rightarrow>
      (case hash_password env sv salt password of Inl e \<Rightarrow> tx_fail e | Inr passwordHash \<Rightarrow>
       in_tx (
         tx_bind (role_by_name role) (\<lambda>found.
         case found of None \<Rightarrow> tx_fail ErrRoleNotFound | Some r \<Rightarrow>
         tx_bind (insertUser env username username '''') (\<lambda>created.
         case created of None \<Rightarrow> tx_fail ErrUsernameTaken | Some u \<Rightarrow>
         tx_bind (insertCredential (us_id u) passwordHash) (\<lambda>_.
         tx_bind (insertUserRole (us_id u) (ro_id r)) (\<lambda>_.
         tx_bind (insertAudit env (plain_event '''' ''auth.local.user.created'' ''user'' (us_id u) ''succeeded''
           '''' requestID)) (\<lambda>_.
         tx_return (Commit \<lparr> ur_ID = us_id u, ur_Username = username, ur_DisplayName = username,
           ur_Roles = [role], ur_Permissions = sort (ro_permissions r) \<rparr>)))))))))"

definition AssignRole :: "auth_env \<Rightarrow> string \<Rightarrow> string \<Rightarrow> string \<Rightarrow> unit tx" where
  "AssignRole env username0 role0 requestID =
     (let username = NormalizeUsername env username0; role = en_ToLower env (TrimSpace role0) in
      in_tx (
        tx_bind (localUserID env username) (\<lambda>userID.
        tx_bind (role_by_name role) (\<lambda>found.
        case found of None \<Rightarrow> tx_fail ErrRoleNotFound | Some r \<Rightarrow>
        tx_bind (replaceRole userID (ro_id r)) (\<lambda>_.
        tx_bind (revokeSessions (\<lambda>s. ss_user_id s = userID)) (\<lambda>_.
        tx_bind (insertAudit env (plain_event '''' ''auth.role.assigned'' ''user'' userID ''succeeded'' '''' requestID)) (\<lambda>_.
        tx_return (Commit ()))))))))"

definition ResetLocalPassword ::
  "auth_env \<Rightarrow> auth_service \<Rightarrow> string option \<Rightarrow> string \<Rightarrow> string \<Rightarrow> string \<Rightarrow> unit tx" where
  "ResetLocalPassword env sv salt username0 password requestID =
     (let username = NormalizeUsername env username0 in
      case hash_password env sv salt password of Inl e \<Rightarrow> tx_fail e | Inr passwordHash \<Rightarrow>
      in_tx (
        tx_bind (localUserID env username) (\<lambda>userID.
        tx_bind (resetCredential userID passwordHash) (\<lambda>n.
        if n \<noteq> 1 then tx_fail ErrUserNotFound
        else
          tx_bind (revokeSessions (\<lambda>s. ss_user_id s = userID)) (\<lambda>_.
          tx_bind (insertAudit env (plain_event '''' ''auth.password.reset'' ''user'' userID ''succeeded'' '''' requestID)) (\<lambda>_.
          tx_return (Commit ())))))))"

definition SetLocalUserEnabled :: "auth_env \<Rightarrow> string \<Rightarrow> bool \<Rightarrow> string \<Rightarrow> unit tx" where
  "SetLocalUserEnabled env username0 enabled requestID =
     (let username = NormalizeUsername env username0 in
      in_tx (
        tx_bind (localUserID env username) (\<lambda>userID.
        tx_bind (tx_clocked (\<lambda>c t. ((), t\<lparr>t_users := update_where (\<lambda>u. us_id u = userID)
          (\<lambda>u. u\<lparr> us_enabled := enabled, us_updated_at := c \<rparr>) (t_users t)\<rparr>))) (\<lambda>_.
        tx_bind (revokeSessions (\<lambda>s. ss_user_id s = userID)) (\<lambda>_.
        tx_bind (insertAudit env (plain_event ''''
          (if enabled then ''auth.user.enabled'' else ''auth.user.disabled'') ''user'' userID ''succeeded'' '''' requestID)) (\<lambda>_.
        tx_return (Commit ())))))))"

section \<open>Login\<close>

record credential =
  cd_UserID :: string
  cd_Username :: string
  cd_DisplayName :: string
  cd_Enabled :: bool
  cd_PasswordHash :: string
  cd_LockedUntil :: "time option"

definition find_credential :: "auth_env \<Rightarrow> string \<Rightarrow> tables \<Rightarrow> credential option" where
  "find_credential env username t = Option.bind
     (List.find (\<lambda>u. en_lower env (us_username u) = en_lower env username \<and> us_identity_provider u = ''local''
        \<and> us_id u \<in> cr_user_id ` set (t_credentials t)) (t_users t)) (\<lambda>u.
     map_option (\<lambda>c. \<lparr> cd_UserID = us_id u, cd_Username = us_username u, cd_DisplayName = us_display_name u,
       cd_Enabled = us_enabled u, cd_PasswordHash = cr_password_hash c, cd_LockedUntil = cr_locked_until c \<rparr>)
       (find_row cr_user_id (us_id u) (t_credentials t)))"

definition credential_query :: "auth_env \<Rightarrow> string \<Rightarrow> credential option tx" where
  "credential_query env username = tx_query (find_credential env username)"

definition recordFailure :: "auth_options \<Rightarrow> string \<Rightarrow> time \<Rightarrow> unit tx" where
  "recordFailure options userID now = tx_exec (\<lambda>t. t\<lparr>t_credentials :=
     update_where (\<lambda>r. cr_user_id r = userID)
       (\<lambda>r. r\<lparr> cr_failed_attempts := cr_failed_attempts r + 1,
          cr_locked_until := (if op_FailureLimit options \<le> cr_failed_attempts r + 1
            then Some (truncate_us (now + op_LockoutDuration options)) else cr_locked_until r) \<rparr>) (t_credentials t)\<rparr>)"

definition locked_at :: "time \<Rightarrow> credential \<Rightarrow> bool" where
  "locked_at now c \<longleftrightarrow> (case cd_LockedUntil c of None \<Rightarrow> False | Some until \<Rightarrow> now < until)"

definition user_roles_query :: "string \<Rightarrow> (string list \<times> string list) tx" where
  "user_roles_query userID = tx_query (\<lambda>t.
     (keys (role_names t userID),
      keys (concat (map (\<lambda>(u, r). if u = userID
        then concat (map ro_permissions (filter (\<lambda>x. ro_id x = r) (t_roles t))) else []) (t_user_roles t)))))"

text \<open>\<open>INSERT INTO sessions\<close>: keys, the unique digest and the check on the expiry.\<close>

definition insertSession ::
  "auth_env \<Rightarrow> string \<Rightarrow> string \<Rightarrow> string \<Rightarrow> string \<Rightarrow> time \<Rightarrow> time \<Rightarrow> time \<Rightarrow> string tx" where
  "insertSession env userID tokenDigest csrfDigest source now idleExpiry absoluteExpiry = tx_insert (\<lambda>u c t.
     if u \<in> ss_id ` set (t_sessions t) \<or> tokenDigest \<in> ss_token_digest ` set (t_sessions t)
       \<or> truncate_us absoluteExpiry < truncate_us idleExpiry then Inl DbError
     else Inr (u, t\<lparr>t_sessions := t_sessions t @ [\<lparr> ss_id = u, ss_user_id = userID,
       ss_token_digest = tokenDigest, ss_csrf_digest = csrfDigest,
       ss_source_address = nullableAddress env source, ss_last_seen_at = truncate_us now,
       ss_expires_at = truncate_us idleExpiry, ss_absolute_expires_at = truncate_us absoluteExpiry,
       ss_revoked_at = None, ss_created_at = c \<rparr>]\<rparr>))"

definition createSession ::
  "auth_env \<Rightarrow> auth_options \<Rightarrow> string option \<Rightarrow> string option \<Rightarrow> credential \<Rightarrow> time \<Rightarrow> string \<Rightarrow> string \<Rightarrow> session tx" where
  "createSession env options tokenBytes csrfBytes cred now source requestID =
     (case newSecret env tokenBytes of Inl e \<Rightarrow> tx_fail e | Inr (rawToken, tokenDigest) \<Rightarrow>
     (case newSecret env csrfBytes of Inl e \<Rightarrow> tx_fail e | Inr (csrfToken, csrfDigest) \<Rightarrow>
      let idleExpiry = now + op_SessionIdle options; absoluteExpiry = now + op_SessionAbsolute options in
      tx_bind (in_tx (
        tx_bind (tx_exec (\<lambda>t. t\<lparr>t_credentials := update_where (\<lambda>r. cr_user_id r = cd_UserID cred)
          (\<lambda>r. r\<lparr> cr_failed_attempts := 0, cr_locked_until := None \<rparr>) (t_credentials t)\<rparr>)) (\<lambda>_.
        tx_bind (insertSession env (cd_UserID cred) tokenDigest csrfDigest source now idleExpiry absoluteExpiry) (\<lambda>sessionID.
        tx_bind (tx_for (\<lambda>action. insertAudit env (plain_event (cd_UserID cred) action ''session'' sessionID
          ''succeeded'' source requestID)) [''auth.login.succeeded'', ''auth.local.used'']) (\<lambda>_.
        tx_return (Commit sessionID)))))) (\<lambda>sessionID.
      tx_bind (user_roles_query (cd_UserID cred)) (\<lambda>(roles, permissions).
      tx_return \<lparr> se_ID = sessionID, se_Token = rawToken, se_CSRFToken = csrfToken, se_CSRFDigest = csrfDigest,
        se_User = \<lparr> ur_ID = cd_UserID cred, ur_Username = cd_Username cred, ur_DisplayName = cd_DisplayName cred,
          ur_Roles = roles, ur_Permissions = permissions \<rparr>,
        se_ExpiresAt = idleExpiry, se_AbsoluteExpiry = absoluteExpiry \<rparr>))))"

text \<open>
  The part of \<open>Login\<close> up to the decision: an unknown name and a refused attempt are audited and
  answered alike; a wrong password counts as a failure unless the account is locked. Verifying
  against the comparison hash has no effect on the result.
\<close>

definition login_check ::
  "auth_env \<Rightarrow> auth_options \<Rightarrow> string \<Rightarrow> string \<Rightarrow> string \<Rightarrow> string \<Rightarrow> time \<Rightarrow> credential tx" where
  "login_check env options username password source requestID now =
     tx_bind (credential_query env username) (\<lambda>found.
     case found of
       None \<Rightarrow> tx_bind (insertAudit env (plain_event '''' ''auth.login.failed'' ''login_identity'' username ''failed''
           source requestID)) (\<lambda>_. tx_fail ErrInvalidCredentials)
     | Some cred \<Rightarrow> (case Verify (en_argon2 env) password (cd_PasswordHash cred) of
         Inl _ \<Rightarrow> tx_fail (ErrText ''verify stored credential'')
       | Inr valid \<Rightarrow>
           if \<not> valid \<or> \<not> cd_Enabled cred \<or> locked_at now cred then
             tx_bind (if \<not> valid \<and> \<not> locked_at now cred then recordFailure options (cd_UserID cred) now
                 else tx_return ()) (\<lambda>_.
             tx_bind (insertAudit env (plain_event '''' ''auth.login.failed'' ''user'' (cd_UserID cred) ''failed''
               source requestID)) (\<lambda>_. tx_fail ErrInvalidCredentials))
           else tx_return cred))"

definition Login ::
  "auth_env \<Rightarrow> auth_options \<Rightarrow> limiter \<Rightarrow> string option \<Rightarrow> string option \<Rightarrow> string \<Rightarrow> string \<Rightarrow> string \<Rightarrow> string \<Rightarrow> time \<Rightarrow>
     limiter \<times> session tx" where
  "Login env options limiter tokenBytes csrfBytes username0 password source requestID now =
     (case Allow limiter source now of (allowed, limiter') \<Rightarrow>
       (limiter',
        if \<not> allowed then tx_fail ErrRateLimited
        else
          let username = NormalizeUsername env username0 in
          tx_bind (login_check env options username password source requestID now) (\<lambda>cred.
          createSession env options tokenBytes csrfBytes cred now source requestID)))"

section \<open>Sessions\<close>

definition session_live :: "time \<Rightarrow> session_row \<Rightarrow> bool" where
  "session_live now s \<longleftrightarrow> ss_revoked_at s = None \<and> now < ss_expires_at s \<and> now < ss_absolute_expires_at s"

definition session_user :: "tables \<Rightarrow> session_row \<Rightarrow> user_row option" where
  "session_user t s = List.find (\<lambda>u. us_id u = ss_user_id s \<and> us_enabled u) (t_users t)"

definition authenticates :: "auth_env \<Rightarrow> string \<Rightarrow> time \<Rightarrow> tables \<Rightarrow> session_row \<Rightarrow> bool" where
  "authenticates env rawToken now t s \<longleftrightarrow> ss_token_digest s = digestSecret env rawToken
     \<and> session_live now s \<and> session_user t s \<noteq> None"

definition extend_session :: "time \<Rightarrow> time \<Rightarrow> session_row \<Rightarrow> session_row" where
  "extend_session now newIdleExpiry s =
     s\<lparr> ss_last_seen_at := now, ss_expires_at := min newIdleExpiry (ss_absolute_expires_at s) \<rparr>"

definition touchSession :: "auth_env \<Rightarrow> string \<Rightarrow> time \<Rightarrow> time \<Rightarrow> (session_row \<times> user_row) option tx" where
  "touchSession env rawToken now newIdleExpiry = tx_affect (\<lambda>t.
     let p = authenticates env rawToken now t; f = extend_session now newIdleExpiry
     in (Option.bind (List.find p (t_sessions t)) (\<lambda>s. map_option (\<lambda>u. (f s, u)) (session_user t s)),
         t\<lparr>t_sessions := update_where p f (t_sessions t)\<rparr>))"

definition Authenticate :: "auth_env \<Rightarrow> auth_options \<Rightarrow> time \<Rightarrow> string \<Rightarrow> session tx" where
  "Authenticate env options now rawToken =
     (if rawToken = '''' then tx_fail ErrSessionNotFound
      else
        tx_bind (touchSession env rawToken (truncate_us now) (truncate_us (now + op_SessionIdle options))) (\<lambda>found.
        case found of None \<Rightarrow> tx_fail ErrSessionNotFound | Some (s, u) \<Rightarrow>
        tx_bind (user_roles_query (us_id u)) (\<lambda>(roles, permissions).
        tx_return \<lparr> se_ID = ss_id s, se_Token = '''', se_CSRFToken = '''', se_CSRFDigest = ss_csrf_digest s,
          se_User = \<lparr> ur_ID = us_id u, ur_Username = us_username u, ur_DisplayName = us_display_name u,
            ur_Roles = roles, ur_Permissions = permissions \<rparr>,
          se_ExpiresAt = ss_expires_at s, se_AbsoluteExpiry = ss_absolute_expires_at s \<rparr>)))"

definition VerifyCSRF :: "auth_env \<Rightarrow> session \<Rightarrow> string \<Rightarrow> bool" where
  "VerifyCSRF env s rawToken = (if rawToken = '''' then False else se_CSRFDigest s = digestSecret env rawToken)"

definition Logout :: "auth_env \<Rightarrow> session \<Rightarrow> string \<Rightarrow> string \<Rightarrow> unit tx" where
  "Logout env s source requestID = in_tx (
     tx_bind (revokeSessions (\<lambda>r. ss_id r = se_ID s)) (\<lambda>n.
     tx_bind (if 0 < n then insertAudit env (plain_event (ur_ID (se_User s)) ''auth.logout'' ''session'' (se_ID s)
         ''succeeded'' source requestID) else tx_return ()) (\<lambda>_.
     tx_return (Commit ()))))"

definition rotateRow :: "session \<Rightarrow> string \<Rightarrow> string \<Rightarrow> time \<Rightarrow> nat tx" where
  "rotateRow s tokenDigest csrfDigest now = tx_insert (\<lambda>u c t.
     let p = (\<lambda>r. ss_id r = se_ID s \<and> session_live now r)
     in if list_ex p (t_sessions t) \<and> list_ex (\<lambda>r. \<not> p r \<and> ss_token_digest r = tokenDigest) (t_sessions t)
        then Inl DbError
        else Inr (length (filter p (t_sessions t)),
          t\<lparr>t_sessions := update_where p (\<lambda>r. r\<lparr> ss_token_digest := tokenDigest, ss_csrf_digest := csrfDigest \<rparr>)
            (t_sessions t)\<rparr>))"

definition RotateSession ::
  "auth_env \<Rightarrow> string option \<Rightarrow> string option \<Rightarrow> session \<Rightarrow> string \<Rightarrow> string \<Rightarrow> time \<Rightarrow> session tx" where
  "RotateSession env tokenBytes csrfBytes s source requestID now =
     (case newSecret env tokenBytes of Inl e \<Rightarrow> tx_fail e | Inr (rawToken, tokenDigest) \<Rightarrow>
     (case newSecret env csrfBytes of Inl e \<Rightarrow> tx_fail e | Inr (csrfToken, csrfDigest) \<Rightarrow>
      in_tx (
        tx_bind (rotateRow s tokenDigest csrfDigest (truncate_us now)) (\<lambda>n.
        if n \<noteq> 1 then tx_fail ErrSessionNotFound
        else
          tx_bind (insertAudit env (plain_event (ur_ID (se_User s)) ''auth.session.rotated'' ''session'' (se_ID s)
            ''succeeded'' source requestID)) (\<lambda>_.
          tx_return (Commit (s\<lparr> se_Token := rawToken, se_CSRFToken := csrfToken, se_CSRFDigest := csrfDigest \<rparr>)))))))"

definition RevokeUserSessions :: "auth_env \<Rightarrow> string \<Rightarrow> string \<Rightarrow> string \<Rightarrow> string \<Rightarrow> unit tx" where
  "RevokeUserSessions env userID actorID source requestID = in_tx (
     tx_bind (revokeSessions (\<lambda>s. ss_user_id s = uuid_param userID)) (\<lambda>_.
     tx_bind (insertAudit env (plain_event actorID ''auth.session.revoked'' ''user'' userID ''succeeded'' source requestID)) (\<lambda>_.
     tx_return (Commit ()))))"

definition DeleteExpiredSessions :: "time \<Rightarrow> unit tx" where
  "DeleteExpiredSessions now0 = tx_exec (\<lambda>t.
     let now = truncate_us now0 in
     t\<lparr>t_sessions := filter (\<lambda>s. \<not> (ss_expires_at s < now \<or> ss_absolute_expires_at s < now
       \<or> (case ss_revoked_at s of None \<Rightarrow> False | Some at \<Rightarrow> at < now - 24 * 3600 * second))) (t_sessions t)\<rparr>)"

section \<open>Reads\<close>

definition defaultManagedUserLimit :: int where
  "defaultManagedUserLimit = 50"

definition maximumManagedUserLimit :: int where
  "maximumManagedUserLimit = 200"

definition encodeManagedUserCursor :: "auth_env \<Rightarrow> string \<Rightarrow> string \<Rightarrow> string" where
  "encodeManagedUserCursor env username i = EncodeToString url_alphabet
     (rt_json (en_rt env) (JObj [(''username'', JText (en_ToLower env username)), (''id'', JText i)]))"

definition decodeManagedUserCursor :: "auth_env \<Rightarrow> string \<Rightarrow> (string \<times> string) option" where
  "decodeManagedUserCursor env raw =
     (if raw = '''' then Some ('''', '''')
      else if 2048 < length raw then None
      else case DecodeString url_alphabet raw of
        None \<Rightarrow> None
      | Some decoded \<Rightarrow> (case en_UnmarshalCursor env decoded of
          None \<Rightarrow> None
        | Some (username, i) \<Rightarrow> if username = '''' \<or> i = '''' then None else Some (username, i)))"

definition user_position :: "auth_env \<Rightarrow> user_row \<Rightarrow> string \<times> string" where
  "user_position env u = (en_lower env (us_username u), us_id u)"

definition managed_view :: "time \<Rightarrow> tables \<Rightarrow> user_row \<Rightarrow> managed_user" where
  "managed_view clock t u = (scan_managed u)\<lparr>
     mg_Roles := keys (role_names t (us_id u)),
     mg_ActiveSessions := length (filter (\<lambda>s. ss_user_id s = us_id u \<and> ss_revoked_at s = None
       \<and> clock < ss_expires_at s) (t_sessions t)),
     mg_PasswordChanged := map_option cr_password_changed_at (find_row cr_user_id (us_id u) (t_credentials t)) \<rparr>"

definition managed_page :: "auth_env \<Rightarrow> string \<times> string \<Rightarrow> nat \<Rightarrow> tables \<Rightarrow> user_row list" where
  "managed_page env cursor n t = take n (sort_key (user_position env)
     (filter (\<lambda>u. fst cursor = '''' \<or> cursor < user_position env u) (t_users t)))"

definition ManagedUsers :: "auth_env \<Rightarrow> managed_user_filter \<Rightarrow> managed_user_list tx" where
  "ManagedUsers env flt =
     (let limit = (if mf_Limit flt \<le> 0 then defaultManagedUserLimit else mf_Limit flt);
          limit = (if maximumManagedUserLimit < limit then maximumManagedUserLimit else limit) in
      case decodeManagedUserCursor env (mf_Cursor flt) of None \<Rightarrow> tx_fail ErrInvalidUserCursor | Some cursor \<Rightarrow>
      tx_bind (tx_clocked (\<lambda>c t. (map (managed_view c t) (managed_page env cursor (nat (limit + 1)) t), t))) (\<lambda>items.
      tx_return (if int (length items) \<le> limit then \<lparr> ml_Items = items, ml_NextCursor = '''' \<rparr>
        else let kept = take (nat limit) items; final = kept ! (length kept - 1)
             in \<lparr> ml_Items = kept, ml_NextCursor = encodeManagedUserCursor env (mg_Username final) (mg_ID final) \<rparr>)))"

definition ManagedRoles :: "role_view list tx" where
  "ManagedRoles = tx_query (\<lambda>t. map (\<lambda>r. \<lparr> rv_Name = ro_name r, rv_Permissions = sort (ro_permissions r) \<rparr>)
     (sort_key ro_name (t_roles t)))"

end
