(* ===== verification/Tx_World.thy ===== *)
theory Tx_World
  imports Tx
begin

text \<open>
  Relations between process states before and after a computation, where the tables alone are not
  enough: freshness of identifiers is about the supply behind \<open>gen_random_uuid()\<close>, which a rollback
  does not take back. The locale \<open>world_relation\<close> is the counterpart of \<open>tx_relation\<close>; a relation
  between tables gives one between states by \<open>sublocale\<close>.
\<close>

definition throughout :: "(world \<Rightarrow> world \<Rightarrow> bool) \<Rightarrow> 'a tx \<Rightarrow> bool" where
  "throughout W m \<longleftrightarrow> (\<forall>w. W w (snd (m w)))"

lemma throughoutI: "(\<And>w. W w (snd (m w))) \<Longrightarrow> throughout W m"
  by (simp add: throughout_def)

lemma throughoutD: "throughout W m \<Longrightarrow> m w = (r, w') \<Longrightarrow> W w w'"
  by (metis snd_conv throughout_def)

locale world_relation =
  fixes W :: "world \<Rightarrow> world \<Rightarrow> bool"
  assumes refl: "W w w"
    and trans: "W a b \<Longrightarrow> W b c \<Longrightarrow> W a c"
    and ticked: "W w (tick w)"
    and rolled_back: "W w w' \<Longrightarrow> W w (w'\<lparr>w_tables := w_tables w\<rparr>)"
    and published: "W w (w\<lparr>w_hub := h\<rparr>)"
    and drawn: "W w (w\<lparr>w_next := Suc (w_next w)\<rparr>)"
begin

lemma return: "throughout W (tx_return x)"
  by (simp add: throughout_def refl)

lemma fail: "throughout W (tx_fail e)"
  by (simp add: throughout_def refl)

lemma bind:
  assumes m: "throughout W m" and k: "\<And>x. throughout W (k x)"
  shows "throughout W (tx_bind m k)"
proof (rule throughoutI)
  fix w
  obtain r w1 where run: "m w = (r, w1)" by (cases "m w")
  show "W w (snd (tx_bind m k w))"
  proof (cases r)
    case (Inl e)
    with run throughoutD [OF m run] show ?thesis by (simp add: tx_bind_def)
  next
    case (Inr x)
    obtain q w2 where "k x w1 = (q, w2)" by (cases "k x w1")
    with Inr run trans [OF throughoutD [OF m run] throughoutD [OF k]] show ?thesis
      by (simp add: tx_bind_def)
  qed
qed

lemma stmt: "(\<And>w. W w (snd (f w))) \<Longrightarrow> throughout W (tx_stmt f)"
  unfolding throughout_def tx_stmt_def by (auto intro: ticked trans)

lemma query: "throughout W (tx_query f)"
  unfolding tx_query_def by (rule stmt) (simp add: refl)

lemma row: "throughout W (tx_row f)"
  unfolding tx_row_def by (rule stmt) (simp add: refl)

lemma exec: "(\<And>w. W w (w\<lparr>w_tables := f (w_tables w)\<rparr>)) \<Longrightarrow> throughout W (tx_exec f)"
  unfolding tx_exec_def by (rule stmt) simp

lemma affect: "(\<And>w. W w (w\<lparr>w_tables := snd (f (w_tables w))\<rparr>)) \<Longrightarrow> throughout W (tx_affect f)"
  unfolding tx_affect_def by (rule stmt) (simp split: prod.split add: prod.case_eq_if)

lemma clocked: "(\<And>w c. W w (w\<lparr>w_tables := snd (f c (w_tables w))\<rparr>)) \<Longrightarrow> throughout W (tx_clocked f)"
  unfolding tx_clocked_def by (rule stmt) (simp add: prod.case_eq_if)

lemma insert:
  assumes "\<And>w c x t. f (w_uuid w (w_next w)) c (w_tables w) = Inr (x, t) \<Longrightarrow>
    W w (w\<lparr>w_next := Suc (w_next w), w_tables := t\<rparr>)"
  shows "throughout W (tx_insert f)"
  unfolding tx_insert_def by (rule stmt) (auto intro: assms drawn split: sum.splits)

lemma for_loop: "(\<And>x. throughout W (f x)) \<Longrightarrow> throughout W (tx_for f xs)"
  by (induction xs) (auto intro: return bind)

lemma publish: "throughout W (hub_publish e)"
  by (simp add: throughout_def hub_publish_def published)

lemma if_split: "throughout W m \<Longrightarrow> throughout W n \<Longrightarrow> throughout W (if b then m else n)"
  by simp

lemma option_split:
  "throughout W m \<Longrightarrow> (\<And>y. throughout W (n y)) \<Longrightarrow> throughout W (case x of None \<Rightarrow> m | Some y \<Rightarrow> n y)"
  by (cases x) auto

lemma sum_split:
  "(\<And>e. throughout W (m e)) \<Longrightarrow> (\<And>y. throughout W (n y)) \<Longrightarrow>
   throughout W (case x of Inl e \<Rightarrow> m e | Inr y \<Rightarrow> n y)"
  by (cases x) auto

lemma prod_split: "(\<And>a b. throughout W (m a b)) \<Longrightarrow> throughout W (case x of (a, b) \<Rightarrow> m a b)"
  by (cases x) auto

lemma transaction:
  assumes body: "throughout W body"
  shows "throughout W (in_tx body)"
proof (rule throughoutI)
  fix w
  obtain r w1 where run: "body (tick w) = (r, w1)" by (cases "body (tick w)")
  have step: "W w w1" using trans [OF ticked throughoutD [OF body run]] .
  have undone: "W w (w1\<lparr>w_tables := w_tables w\<rparr>)" "W w ((tick w1)\<lparr>w_tables := w_tables w\<rparr>)" "W w (tick w1)"
    using rolled_back [OF step] rolled_back [OF trans [OF step ticked]] trans [OF step ticked] by simp_all
  show "W w (snd (in_tx body w))"
    using run undone ticked by (auto simp: in_tx_def split: sum.splits outcome.splits)
qed

lemmas composition = return fail bind query row for_loop publish if_split option_split sum_split
  prod_split transaction

end

sublocale tx_relation \<subseteq> states: world_relation "\<lambda>w w'. R (w_tables w) (w_tables w')"
  by unfold_locales (auto intro: refl trans)

section \<open>The supply of identifiers\<close>

definition supply_grows :: "world \<Rightarrow> world \<Rightarrow> bool" where
  "supply_grows w w' \<longleftrightarrow> w_uuid w' = w_uuid w \<and> w_next w \<le> w_next w'"

interpretation drawing: world_relation supply_grows
  by unfold_locales (auto simp: supply_grows_def)

end
