(* ===== verification/Auth_Life.thy ===== *)
theory Auth_Life
  imports Auth Tx_World
begin

text \<open>
  Accounts and sessions over time. \<open>auth_step\<close> interleaves every operation of the service with
  logins in their two stages (the check of the password and the creation of the session are
  separate database interactions, so other work can come between) and with the rest of the
  program, which shares the tables and the supply of identifiers; \<open>permitted\<close> says which operations
  may be called, so that the API can be told from the host's command line. \<open>sessions_evolve\<close> says what can
  happen to the session table between two states: a session is one that was there before, with the
  same user and absolute expiry and still revoked if it was, or its identifier was drawn in
  between.
\<close>

section \<open>Sessions between two states\<close>

definition continues :: "session_row \<Rightarrow> session_row \<Rightarrow> bool" where
  "continues s s' \<longleftrightarrow> ss_id s' = ss_id s \<and> ss_user_id s' = ss_user_id s
     \<and> ss_absolute_expires_at s' = ss_absolute_expires_at s
     \<and> (ss_revoked_at s \<noteq> None \<longrightarrow> ss_revoked_at s' = ss_revoked_at s)"

definition drawn_between :: "world \<Rightarrow> world \<Rightarrow> string \<Rightarrow> bool" where
  "drawn_between w w' i \<longleftrightarrow> (\<exists>n. w_next w \<le> n \<and> n < w_next w' \<and> i = w_uuid w n)"

abbreviation sessions_of :: "world \<Rightarrow> session_row list" where
  "sessions_of w \<equiv> t_sessions (w_tables w)"

definition sessions_evolve :: "world \<Rightarrow> world \<Rightarrow> bool" where
  "sessions_evolve w w' \<longleftrightarrow> supply_grows w w' \<and>
     (\<forall>s' \<in> set (sessions_of w'). (\<exists>s \<in> set (sessions_of w). continues s s') \<or> drawn_between w w' (ss_id s'))"

lemma continues_refl: "continues s s"
  by (simp add: continues_def)

lemma continues_trans: "continues a b \<Longrightarrow> continues b c \<Longrightarrow> continues a c"
  by (auto simp: continues_def)

lemma sessions_evolve_same:
  "supply_grows w w' \<Longrightarrow> sessions_of w' = sessions_of w \<Longrightarrow> sessions_evolve w w'"
  by (auto simp: sessions_evolve_def intro: continues_refl)

lemma drawn_between_trans:
  assumes "supply_grows a b" "supply_grows b c"
  shows "drawn_between a b i \<Longrightarrow> drawn_between a c i" and "drawn_between b c i \<Longrightarrow> drawn_between a c i"
  using assms unfolding drawn_between_def supply_grows_def by (metis le_trans less_le_trans)+

lemma sessions_evolve_trans:
  assumes "sessions_evolve a b" "sessions_evolve b c"
  shows "sessions_evolve a c"
proof -
  have grow: "supply_grows a b" "supply_grows b c" using assms by (simp_all add: sessions_evolve_def)
  have "(\<exists>s \<in> set (sessions_of a). continues s s'') \<or> drawn_between a c (ss_id s'')"
    if s'': "s'' \<in> set (sessions_of c)" for s''
  proof -
    from assms(2) s'' consider s' where "s' \<in> set (sessions_of b)" "continues s' s''"
      | "drawn_between b c (ss_id s'')" by (auto simp: sessions_evolve_def)
    then show ?thesis
    proof cases
      case (1 s')
      with assms(1) consider s where "s \<in> set (sessions_of a)" "continues s s'"
        | "drawn_between a b (ss_id s')" by (auto simp: sessions_evolve_def)
      then show ?thesis
        using 1 drawn_between_trans(1) [OF grow] by cases (auto dest: continues_trans simp: continues_def)
    next
      case 2
      then show ?thesis using drawn_between_trans(2) [OF grow] by simp
    qed
  qed
  with drawing.trans [OF grow] show ?thesis by (simp add: sessions_evolve_def)
qed

interpretation life: world_relation sessions_evolve
proof
  show "sessions_evolve w w" for w by (rule sessions_evolve_same) (simp_all add: drawing.refl)
  show "sessions_evolve a b \<Longrightarrow> sessions_evolve b c \<Longrightarrow> sessions_evolve a c" for a b c
    by (rule sessions_evolve_trans)
  show "sessions_evolve w (tick w)" for w by (rule sessions_evolve_same) (simp_all add: drawing.ticked)
  show "sessions_evolve w w' \<Longrightarrow> sessions_evolve w (w'\<lparr>w_tables := w_tables w\<rparr>)" for w w'
    by (rule sessions_evolve_same) (simp_all add: drawing.rolled_back sessions_evolve_def)
  show "sessions_evolve w (w\<lparr>w_hub := h\<rparr>)" for w h
    by (rule sessions_evolve_same) (simp_all add: drawing.published)
  show "sessions_evolve w (w\<lparr>w_next := Suc (w_next w)\<rparr>)" for w
    by (rule sessions_evolve_same) (simp_all add: drawing.drawn)
qed

named_theorems life_intros

lemmas life_composition [life_intros] = life.composition

text \<open>Statements that leave the session table alone.\<close>

lemma evolve_exec:
  "(\<And>t. t_sessions (f t) = t_sessions t) \<Longrightarrow> throughout sessions_evolve (tx_exec f)"
  by (rule life.exec, rule sessions_evolve_same) (simp_all add: supply_grows_def)

lemma evolve_clocked:
  "(\<And>c t. t_sessions (snd (f c t)) = t_sessions t) \<Longrightarrow> throughout sessions_evolve (tx_clocked f)"
  by (rule life.clocked, rule sessions_evolve_same) (simp_all add: supply_grows_def)

lemma evolve_insert:
  "(\<And>u c t x t'. f u c t = Inr (x, t') \<Longrightarrow> t_sessions t' = t_sessions t) \<Longrightarrow> throughout sessions_evolve (tx_insert f)"
  by (rule life.insert, rule sessions_evolve_same) (auto simp: supply_grows_def)

text \<open>Statements that update sessions in place.\<close>

lemma evolve_update:
  assumes "\<And>s. p s \<Longrightarrow> continues s (f s)"
  shows "sessions_evolve w (w\<lparr>w_tables := (w_tables w)\<lparr>t_sessions := update_where p f (sessions_of w)\<rparr>\<rparr>)"
proof -
  have "\<exists>s \<in> set (sessions_of w). continues s s'" if "s' \<in> set (update_where p f (sessions_of w))" for s'
    using that assms by (auto simp: set_update_where intro: continues_refl)
  then show ?thesis by (simp add: sessions_evolve_def supply_grows_def)
qed

lemma evolve_insertAudit [life_intros]: "throughout sessions_evolve (insertAudit env e)"
  unfolding insertAudit_def by (rule evolve_insert) (auto split: if_splits)

lemma evolve_insertUser [life_intros]: "throughout sessions_evolve (insertUser env a b c)"
  unfolding insertUser_def by (rule evolve_insert) (auto simp: Let_def split: if_splits)

lemma evolve_insertBootstrapUser [life_intros]: "throughout sessions_evolve (insertBootstrapUser env a)"
  unfolding insertBootstrapUser_def by (rule evolve_insert) (auto split: if_splits)

lemma evolve_insertCredential [life_intros]: "throughout sessions_evolve (insertCredential a b)"
  unfolding insertCredential_def by (rule evolve_insert) (auto split: if_splits)

lemma evolve_insertUserRole [life_intros]: "throughout sessions_evolve (insertUserRole a b)"
  unfolding insertUserRole_def by (rule evolve_insert) (auto split: if_splits)

lemma evolve_role_by_name [life_intros]: "throughout sessions_evolve (role_by_name n)"
  unfolding role_by_name_def by (rule life.query)

lemma evolve_localUserID [life_intros]: "throughout sessions_evolve (localUserID env n)"
  unfolding localUserID_def by (intro life_intros)

lemma evolve_replaceRole [life_intros]: "throughout sessions_evolve (replaceRole a b)"
  unfolding replaceRole_def by (intro life_intros evolve_exec) simp

lemma evolve_resetCredential [life_intros]: "throughout sessions_evolve (resetCredential a b)"
  unfolding resetCredential_def by (rule evolve_clocked) (simp add: Let_def)

lemma evolve_updateUserRow [life_intros]: "throughout sessions_evolve (updateUserRow a b c)"
  unfolding updateUserRow_def by (rule evolve_clocked) (simp add: Let_def)

lemma evolve_revokeSessions [life_intros]: "throughout sessions_evolve (revokeSessions p)"
  unfolding revokeSessions_def Let_def by (rule life.clocked, simp, rule evolve_update) (simp add: continues_def)

lemma evolve_touchSession [life_intros]: "throughout sessions_evolve (touchSession env a b c)"
  unfolding touchSession_def Let_def
  by (rule life.affect, simp, rule evolve_update) (simp add: continues_def extend_session_def)

lemma evolve_rotateRow [life_intros]: "throughout sessions_evolve (rotateRow s a b c)"
proof -
  have "sessions_evolve w (w\<lparr>w_next := Suc (w_next w), w_tables := (w_tables w)\<lparr>t_sessions := update_where p
      (\<lambda>r. r\<lparr>ss_token_digest := a, ss_csrf_digest := b\<rparr>) (sessions_of w)\<rparr>\<rparr>)" for w :: world and p
    using life.trans [OF life.drawn evolve_update] by (simp add: continues_def)
  then show ?thesis
    unfolding rotateRow_def Let_def by (intro life.insert) (auto split: if_splits)
qed

lemma evolve_insertSession [life_intros]: "throughout sessions_evolve (insertSession env a b c d e f g)"
  unfolding insertSession_def
  by (rule life.insert)
    (auto simp: sessions_evolve_def supply_grows_def drawn_between_def intro: continues_refl split: if_splits)

text \<open>The operations.\<close>

lemma evolve_BootstrapAdmin: "throughout sessions_evolve (BootstrapAdmin env sv a b c d e)"
  unfolding BootstrapAdmin_def Let_def by (intro life_intros evolve_exec) simp

lemma evolve_CreateManagedUser: "throughout sessions_evolve (CreateManagedUser env sv a b)"
  unfolding CreateManagedUser_def Let_def by (intro life_intros)

lemma evolve_UpdateManagedUser: "throughout sessions_evolve (UpdateManagedUser env a)"
  unfolding UpdateManagedUser_def applyManagedUpdate_def checkManagedUpdate_def keepsAdministrator_def Let_def
  by (intro life_intros)

lemma evolve_ResetManagedUserPassword: "throughout sessions_evolve (ResetManagedUserPassword env sv a b)"
  unfolding ResetManagedUserPassword_def by (intro life_intros)

lemma evolve_CreateLocalUser: "throughout sessions_evolve (CreateLocalUser env sv a b c d e)"
  unfolding CreateLocalUser_def Let_def by (intro life_intros)

lemma evolve_AssignRole: "throughout sessions_evolve (AssignRole env a b c)"
  unfolding AssignRole_def Let_def by (intro life_intros)

lemma evolve_ResetLocalPassword: "throughout sessions_evolve (ResetLocalPassword env sv a b c d)"
  unfolding ResetLocalPassword_def Let_def by (intro life_intros)

lemma evolve_SetLocalUserEnabled: "throughout sessions_evolve (SetLocalUserEnabled env a b c)"
  unfolding SetLocalUserEnabled_def Let_def by (intro life_intros evolve_clocked) simp

lemma evolve_login_check: "throughout sessions_evolve (login_check env opts a b c d e)"
  unfolding login_check_def credential_query_def recordFailure_def by (intro life_intros evolve_exec) simp

lemma evolve_createSession: "throughout sessions_evolve (createSession env opts a b c d e f)"
  unfolding createSession_def user_roles_query_def Let_def by (intro life_intros evolve_exec) simp

lemma evolve_Authenticate: "throughout sessions_evolve (Authenticate env opts a b)"
  unfolding Authenticate_def user_roles_query_def by (intro life_intros)

lemma evolve_Logout: "throughout sessions_evolve (Logout env a b c)"
  unfolding Logout_def by (intro life_intros)

lemma evolve_RotateSession: "throughout sessions_evolve (RotateSession env a b c d e f)"
  unfolding RotateSession_def by (intro life_intros)

lemma evolve_RevokeUserSessions: "throughout sessions_evolve (RevokeUserSessions env a b c d)"
  unfolding RevokeUserSessions_def by (intro life_intros)

lemma evolve_RecordDenied: "throughout sessions_evolve (RecordDenied env a b c d)"
  unfolding RecordDenied_def by (intro life_intros)

lemma evolve_DeleteExpiredSessions: "throughout sessions_evolve (DeleteExpiredSessions now)"
  unfolding DeleteExpiredSessions_def Let_def
  by (rule life.exec) (auto simp: sessions_evolve_def supply_grows_def intro: continues_refl)

lemmas evolve_operations = evolve_BootstrapAdmin evolve_CreateManagedUser evolve_UpdateManagedUser
  evolve_ResetManagedUserPassword evolve_CreateLocalUser evolve_AssignRole evolve_ResetLocalPassword
  evolve_SetLocalUserEnabled evolve_Authenticate evolve_Logout evolve_RotateSession
  evolve_RevokeUserSessions evolve_RecordDenied evolve_DeleteExpiredSessions

section \<open>Steps\<close>

datatype auth_op =
    OpBootstrapAdmin "string option" string string string string
  | OpCreateManagedUser "string option" create_managed_user
  | OpUpdateManagedUser update_managed_user
  | OpResetManagedUserPassword "string option" reset_managed_password
  | OpCreateLocalUser "string option" string string string string
  | OpAssignRole string string string
  | OpResetLocalPassword "string option" string string string
  | OpSetLocalUserEnabled string bool string
  | OpAuthenticate time string
  | OpLogout session string string
  | OpRotateSession "string option" "string option" session string string time
  | OpRevokeUserSessions string string string string
  | OpRecordDenied user string string string
  | OpDeleteExpiredSessions time

fun perform :: "auth_env \<Rightarrow> auth_service \<Rightarrow> auth_op \<Rightarrow> world \<Rightarrow> world" where
  "perform env sv (OpBootstrapAdmin a b c d e) w = snd (BootstrapAdmin env sv a b c d e w)"
| "perform env sv (OpCreateManagedUser a b) w = snd (CreateManagedUser env sv a b w)"
| "perform env sv (OpUpdateManagedUser a) w = snd (UpdateManagedUser env a w)"
| "perform env sv (OpResetManagedUserPassword a b) w = snd (ResetManagedUserPassword env sv a b w)"
| "perform env sv (OpCreateLocalUser a b c d e) w = snd (CreateLocalUser env sv a b c d e w)"
| "perform env sv (OpAssignRole a b c) w = snd (AssignRole env a b c w)"
| "perform env sv (OpResetLocalPassword a b c d) w = snd (ResetLocalPassword env sv a b c d w)"
| "perform env sv (OpSetLocalUserEnabled a b c) w = snd (SetLocalUserEnabled env a b c w)"
| "perform env sv (OpAuthenticate a b) w = snd (Authenticate env (sv_options sv) a b w)"
| "perform env sv (OpLogout a b c) w = snd (Logout env a b c w)"
| "perform env sv (OpRotateSession a b c d e f) w = snd (RotateSession env a b c d e f w)"
| "perform env sv (OpRevokeUserSessions a b c d) w = snd (RevokeUserSessions env a b c d w)"
| "perform env sv (OpRecordDenied a b c d) w = snd (RecordDenied env a b c d w)"
| "perform env sv (OpDeleteExpiredSessions a) w = snd (DeleteExpiredSessions a w)"

record auth_state =
  as_world :: world
  as_limiter :: limiter
  as_pending :: "(credential \<times> time \<times> string \<times> string) list"

definition auth_tables :: "tables \<Rightarrow> user_row list \<times> credential_row list \<times> role_row list \<times> (string \<times> string) list \<times> session_row list" where
  "auth_tables t = (t_users t, t_credentials t, t_roles t, t_user_roles t, t_sessions t)"

inductive auth_step :: "auth_env \<Rightarrow> auth_service \<Rightarrow> (auth_op \<Rightarrow> bool) \<Rightarrow> auth_state \<Rightarrow> auth_state \<Rightarrow> bool"
  for env :: auth_env and sv :: auth_service and permitted :: "auth_op \<Rightarrow> bool" where
  login_limited: "Allow (as_limiter st) source now = (False, l) \<Longrightarrow>
    auth_step env sv permitted st (st\<lparr>as_limiter := l\<rparr>)"
| login_refused: "Allow (as_limiter st) source now = (True, l) \<Longrightarrow>
    login_check env (sv_options sv) (NormalizeUsername env username) password source requestID now (as_world st) = (Inl e, w) \<Longrightarrow>
    auth_step env sv permitted st (st\<lparr>as_world := w, as_limiter := l\<rparr>)"
| login_checked: "Allow (as_limiter st) source now = (True, l) \<Longrightarrow>
    login_check env (sv_options sv) (NormalizeUsername env username) password source requestID now (as_world st) = (Inr cred, w) \<Longrightarrow>
    auth_step env sv permitted st (st\<lparr>as_world := w, as_limiter := l, as_pending := (cred, now, source, requestID) # as_pending st\<rparr>)"
| login_created: "(cred, now, source, requestID) \<in> set (as_pending st) \<Longrightarrow>
    createSession env (sv_options sv) tokenBytes csrfBytes cred now source requestID (as_world st) = (r, w) \<Longrightarrow>
    auth_step env sv permitted st (st\<lparr>as_world := w, as_pending := remove1 (cred, now, source, requestID) (as_pending st)\<rparr>)"
| operation: "permitted x \<Longrightarrow> auth_step env sv permitted st (st\<lparr>as_world := perform env sv x (as_world st)\<rparr>)"
| elsewhere: "auth_tables (w_tables w) = auth_tables (w_tables (as_world st)) \<Longrightarrow> supply_grows (as_world st) w \<Longrightarrow>
    auth_step env sv permitted st (st\<lparr>as_world := w\<rparr>)"

lemma perform_evolves: "sessions_evolve w (perform env sv x w)"
  using evolve_operations by (cases x) (simp_all add: throughout_def)

lemma auth_step_evolves: "auth_step env sv permitted st st' \<Longrightarrow> sessions_evolve (as_world st) (as_world st')"
proof (induction rule: auth_step.induct)
  case (elsewhere w st)
  then show ?case by (auto simp: auth_tables_def intro: sessions_evolve_same)
qed (auto simp: life.refl perform_evolves dest: throughoutD [OF evolve_login_check] throughoutD [OF evolve_createSession])

lemma auth_run_evolves: "(auth_step env sv permitted)\<^sup>*\<^sup>* st st' \<Longrightarrow> sessions_evolve (as_world st) (as_world st')"
  by (induction rule: rtranclp_induct) (auto intro: life.refl life.trans auth_step_evolves)

section \<open>What ends sessions\<close>

definition all_revoked :: "string \<Rightarrow> tables \<Rightarrow> bool" where
  "all_revoked u t \<longleftrightarrow> (\<forall>s \<in> set (t_sessions t). ss_user_id s = u \<longrightarrow> ss_revoked_at s \<noteq> None)"

lemma all_revoked_update:
  "all_revoked u (t\<lparr>t_sessions := update_where (\<lambda>s. ss_user_id s = u \<and> ss_revoked_at s = None)
     (\<lambda>s. s\<lparr>ss_revoked_at := Some c\<rparr>) (t_sessions t)\<rparr>)"
proof -
  have "\<forall>s \<in> set (update_where (\<lambda>s. ss_user_id s = u \<and> ss_revoked_at s = None)
     (\<lambda>s. s\<lparr>ss_revoked_at := Some c\<rparr>) xs). ss_user_id s = u \<longrightarrow> ss_revoked_at s \<noteq> None" for xs
    by (induction xs) auto
  then show ?thesis by (simp add: all_revoked_def)
qed

lemma insertAudit_Inr:
  assumes "insertAudit env e w = (Inr x, w')"
  shows "\<exists>rows. w_tables w' = (w_tables w)\<lparr>t_audit := rows\<rparr>"
  using assms by (auto simp: insertAudit_def tx_insert_Inr split: if_splits)

text \<open>The common tail of the operations: end the sessions, write the audit row, commit.\<close>

definition end_sessions :: "auth_env \<Rightarrow> string \<Rightarrow> auth_audit_event \<Rightarrow> 'a \<Rightarrow> 'a outcome tx" where
  "end_sessions env u e x = tx_bind (revokeSessions (\<lambda>s. ss_user_id s = u)) (\<lambda>_.
     tx_bind (insertAudit env e) (\<lambda>_. tx_return (Commit x)))"

lemma end_sessions_Inr:
  assumes "end_sessions env u e x w = (Inr r, w')"
  shows "r = Commit x \<and> all_revoked u (w_tables w')"
proof -
  from assms obtain n w1 w2 where rev: "revokeSessions (\<lambda>s. ss_user_id s = u) w = (Inr n, w1)"
    and aud: "insertAudit env e w1 = (Inr (), w2)" and fin: "r = Commit x" "w' = w2"
    by (auto simp: end_sessions_def tx_bind_Inr)
  have "all_revoked u (w_tables w1)"
    using rev all_revoked_update by (auto simp: revokeSessions_def tx_clocked_Inr Let_def)
  with insertAudit_Inr [OF aud] fin show ?thesis by (auto simp: all_revoked_def)
qed

lemma in_tx_end_sessions:
  assumes "in_tx body w = (Inr x, w')"
    and "\<And>r w1. body (tick w) = (Inr r, w1) \<Longrightarrow> (\<exists>x. r = Commit x) \<and> all_revoked u (w_tables w1)"
  shows "all_revoked u (w_tables w')"
  using assms by (auto simp: in_tx_Inr)

definition local_user :: "auth_env \<Rightarrow> string \<Rightarrow> tables \<Rightarrow> string option" where
  "local_user env username t = map_option us_id (List.find (\<lambda>u.
     en_lower env (us_username u) = en_lower env (NormalizeUsername env username) \<and> us_identity_provider u = ''local'') (t_users t))"

text \<open>The operations that draw a new authorization boundary for a user, when they succeed.\<close>

inductive ends_sessions :: "auth_env \<Rightarrow> auth_service \<Rightarrow> string \<Rightarrow> world \<Rightarrow> world \<Rightarrow> bool"
  for env :: auth_env and sv :: auth_service where
  role_or_enablement: "UpdateManagedUser env input w = (Inr m, w') \<Longrightarrow>
    find_row us_id (um_ID input) (t_users (w_tables w)) = Some u \<Longrightarrow>
    current_role (w_tables w) (um_ID input) \<noteq> en_ToLower env (TrimSpace (um_Role input)) \<or> us_enabled u \<noteq> um_Enabled input \<Longrightarrow>
    ends_sessions env sv (um_ID input) w w'"
| password: "ResetManagedUserPassword env sv salt input2 w = (Inr (), w') \<Longrightarrow> ends_sessions env sv (rp_ID input2) w w'"
| host_role: "AssignRole env name role requestID w = (Inr (), w') \<Longrightarrow> local_user env name (w_tables w) = Some i \<Longrightarrow>
    ends_sessions env sv i w w'"
| host_password: "ResetLocalPassword env sv salt name password requestID w = (Inr (), w') \<Longrightarrow>
    local_user env name (w_tables w) = Some i \<Longrightarrow> ends_sessions env sv i w w'"
| host_enablement: "SetLocalUserEnabled env name enabled requestID w = (Inr (), w') \<Longrightarrow>
    local_user env name (w_tables w) = Some i \<Longrightarrow> ends_sessions env sv i w w'"
| revocation: "RevokeUserSessions env userID actorID source requestID w = (Inr (), w') \<Longrightarrow>
    ends_sessions env sv (uuid_param userID) w w'"

lemma ends_sessions_evolves: "ends_sessions env sv i w w' \<Longrightarrow> sessions_evolve w w'"
  by (induction rule: ends_sessions.induct) (blast intro: throughoutD evolve_operations)+

lemma localUserID_Inr:
  "localUserID env (NormalizeUsername env name) w = (Inr i, w') \<longleftrightarrow>
     \<not> faulty w \<and> local_user env name (w_tables w) = Some i \<and> w' = tick w"
  by (auto simp: localUserID_def local_user_def tx_success split: option.splits)

lemma AssignRole_revokes:
  assumes "AssignRole env name role requestID w = (Inr (), w')" "local_user env name (w_tables w) = Some i"
  shows "all_revoked i (w_tables w')"
  using assms(1) unfolding AssignRole_def Let_def end_sessions_def [symmetric]
  by (rule in_tx_end_sessions)
    (use assms(2) in \<open>auto simp: tx_bind_Inr localUserID_Inr split: option.splits dest: end_sessions_Inr\<close>)

lemma ResetLocalPassword_revokes:
  assumes "ResetLocalPassword env sv salt name password requestID w = (Inr (), w')" "local_user env name (w_tables w) = Some i"
  shows "all_revoked i (w_tables w')"
proof (cases "hash_password env sv salt password")
  case (Inl e)
  with assms(1) show ?thesis by (simp add: ResetLocalPassword_def)
next
  case (Inr h)
  with assms(1) show ?thesis
    unfolding ResetLocalPassword_def Let_def end_sessions_def [symmetric] Inr sum.case
    by - (erule in_tx_end_sessions,
      use assms(2) in \<open>auto simp: tx_bind_Inr localUserID_Inr split: if_splits dest: end_sessions_Inr\<close>)
qed

lemma SetLocalUserEnabled_revokes:
  assumes "SetLocalUserEnabled env name enabled requestID w = (Inr (), w')" "local_user env name (w_tables w) = Some i"
  shows "all_revoked i (w_tables w')"
  using assms(1) unfolding SetLocalUserEnabled_def Let_def end_sessions_def [symmetric]
  by (rule in_tx_end_sessions)
    (use assms(2) in \<open>auto simp: tx_bind_Inr localUserID_Inr dest: end_sessions_Inr\<close>)

lemma RevokeUserSessions_revokes:
  assumes "RevokeUserSessions env userID actorID source requestID w = (Inr (), w')"
  shows "all_revoked (uuid_param userID) (w_tables w')"
  using assms unfolding RevokeUserSessions_def end_sessions_def [symmetric]
  by (rule in_tx_end_sessions) (auto dest: end_sessions_Inr)

lemma ResetManagedUserPassword_revokes:
  assumes "ResetManagedUserPassword env sv salt input w = (Inr (), w')"
  shows "all_revoked (rp_ID input) (w_tables w')"
proof (cases "hash_password env sv salt (rp_Password input)")
  case (Inl e)
  with assms show ?thesis by (simp add: ResetManagedUserPassword_def)
next
  case (Inr h)
  with assms show ?thesis
    unfolding ResetManagedUserPassword_def end_sessions_def [symmetric] Inr sum.case
    by - (erule in_tx_end_sessions,
      auto simp: tx_bind_Inr split: if_splits option.splits dest: end_sessions_Inr)
qed

lemma applyManagedUpdate_revokes:
  assumes "applyManagedUpdate env input displayName email role before currentRole roleID w = (Inr r, w')"
    and "currentRole \<noteq> role \<or> mg_Enabled before \<noteq> um_Enabled input"
  shows "(\<exists>x. r = Commit x) \<and> all_revoked (um_ID input) (w_tables w')"
  using assms(1) unfolding applyManagedUpdate_def Let_def if_P [OF assms(2)] end_sessions_def [symmetric]
  by (auto simp: tx_bind_Inr split: option.splits dest: end_sessions_Inr)

lemma tx_bind_query_Inr:
  "tx_bind (tx_query f) k w = (Inr y, w') \<longleftrightarrow> \<not> faulty w \<and> k (f (w_tables w)) (tick w) = (Inr y, w')"
  by (auto simp: tx_bind_Inr tx_query_Inr)

text \<open>What a successful update has checked before it writes.\<close>

definition update_allowed :: "auth_env \<Rightarrow> update_managed_user \<Rightarrow> user_row \<Rightarrow> tables \<Rightarrow> bool" where
  "update_allowed env input u t \<longleftrightarrow>
     (let role = en_ToLower env (TrimSpace (um_Role input)) in
      find_row us_id (um_ID input) (t_users t) = Some u
      \<and> um_ExpectedUpdatedAt input \<noteq> 0 \<and> us_updated_at u = um_ExpectedUpdatedAt input
      \<and> \<not> (um_ID input = ac_ActorUserID (um_Context input) \<and> loseAdministrator input role)
      \<and> (current_role t (um_ID input) = ''administrator'' \<and> us_enabled u \<and> loseAdministrator input role
         \<longrightarrow> other_administrators t (um_ID input) \<noteq> 0))"

lemma checkManagedUpdate_Inr:
  assumes "checkManagedUpdate input (en_ToLower env (TrimSpace (um_Role input))) w = (Inr (before, currentRole, roleID), w')"
  shows "\<exists>u rl. update_allowed env input u (w_tables w) \<and> w_tables w' = w_tables w \<and> before = scan_managed u
    \<and> currentRole = current_role (w_tables w) (um_ID input)
    \<and> find_row ro_name (en_ToLower env (TrimSpace (um_Role input))) (t_roles (w_tables w)) = Some rl \<and> roleID = ro_id rl"
proof -
  define role where "role = en_ToLower env (TrimSpace (um_Role input))"
  have keep: "keepsAdministrator input role c e v = (Inr x, v') \<longleftrightarrow>
      (if c = ''administrator'' \<and> e \<and> loseAdministrator input role
       then \<not> faulty v \<and> v' = tick v \<and> other_administrators (w_tables v) (um_ID input) \<noteq> 0 else v' = v)" for c e v x v'
    by (auto simp: keepsAdministrator_def tx_bind_query_Inr)
  obtain u where u: "find_row us_id (um_ID input) (t_users (w_tables w)) = Some u"
    using assms by (cases "find_row us_id (um_ID input) (t_users (w_tables w))")
      (auto simp: checkManagedUpdate_def tx_bind_query_Inr)
  then have uid: "us_id u = um_ID input" using find_row_SomeD by fastforce
  show ?thesis
    using assms unfolding role_def [symmetric]
    by (auto simp: checkManagedUpdate_def tx_bind_query_Inr u uid tx_bind_Inr [of "keepsAdministrator _ _ _ _"] keep
        role_by_name_def update_allowed_def Let_def role_def [symmetric] scan_managed_def split: if_splits option.splits)
qed

lemma applyManagedUpdate_commits:
  "applyManagedUpdate env input displayName email role before currentRole roleID w = (Inr r, w') \<Longrightarrow> \<exists>x. r = Commit x"
  by (auto simp: applyManagedUpdate_def Let_def tx_bind_Inr split: option.splits)

lemma UpdateManagedUser_Inr:
  assumes "UpdateManagedUser env input w = (Inr m, w')"
  shows "\<exists>u rl w1 w2. update_allowed env input u (w_tables w) \<and> w_tables w1 = w_tables w
    \<and> find_row ro_name (en_ToLower env (TrimSpace (um_Role input))) (t_roles (w_tables w)) = Some rl
    \<and> applyManagedUpdate env input (TrimSpace (um_DisplayName input)) (TrimSpace (um_Email input))
        (en_ToLower env (TrimSpace (um_Role input))) (scan_managed u) (current_role (w_tables w) (um_ID input)) (ro_id rl) w1
      = (Inr (Commit m), w2) \<and> w_tables w' = w_tables w2"
proof -
  let ?role = "en_ToLower env (TrimSpace (um_Role input))"
  let ?apply = "applyManagedUpdate env input (TrimSpace (um_DisplayName input)) (TrimSpace (um_Email input)) ?role"
  from assms obtain before cur roleID w1 w2 where chk: "checkManagedUpdate input ?role (tick w) = (Inr (before, cur, roleID), w1)"
    and app: "?apply before cur roleID w1 = (Inr (Commit m), w2)" and fin: "w_tables w' = w_tables w2"
    by (auto simp: UpdateManagedUser_def Let_def in_tx_Inr tx_bind_Inr split: sum.splits
        dest: applyManagedUpdate_commits)
  from checkManagedUpdate_Inr [OF chk] app fin show ?thesis by auto
qed

lemma UpdateManagedUser_revokes:
  assumes "UpdateManagedUser env input w = (Inr m, w')"
    and "find_row us_id (um_ID input) (t_users (w_tables w)) = Some u"
    and "current_role (w_tables w) (um_ID input) \<noteq> en_ToLower env (TrimSpace (um_Role input)) \<or> us_enabled u \<noteq> um_Enabled input"
  shows "all_revoked (um_ID input) (w_tables w')"
proof -
  have change: "current_role (w_tables w) (um_ID input) \<noteq> en_ToLower env (TrimSpace (um_Role input))
      \<or> mg_Enabled (scan_managed u) \<noteq> um_Enabled input"
    using assms(3) by (simp add: scan_managed_def)
  from UpdateManagedUser_Inr [OF assms(1)] assms(2) show ?thesis
    by (auto simp: update_allowed_def Let_def dest: applyManagedUpdate_revokes [OF _ change])
qed

lemma ends_sessions_revokes: "ends_sessions env sv i w w' \<Longrightarrow> all_revoked i (w_tables w')"
  by (induction rule: ends_sessions.induct)
    (blast intro: UpdateManagedUser_revokes ResetManagedUserPassword_revokes AssignRole_revokes
      ResetLocalPassword_revokes SetLocalUserEnabled_revokes RevokeUserSessions_revokes)+

section \<open>Ended sessions stay ended\<close>

text \<open>Identifiers of sessions have been drawn; the supply never repeats one.\<close>

definition ids_drawn :: "world \<Rightarrow> bool" where
  "ids_drawn w \<longleftrightarrow> inj (w_uuid w) \<and> (\<forall>s \<in> set (sessions_of w). \<exists>n < w_next w. ss_id s = w_uuid w n)"

lemma ids_drawn_evolve:
  assumes "ids_drawn w" "sessions_evolve w w'"
  shows "ids_drawn w'"
proof -
  have grow: "w_uuid w' = w_uuid w" "w_next w \<le> w_next w'"
    using assms(2) by (simp_all add: sessions_evolve_def supply_grows_def)
  have "\<exists>n < w_next w'. ss_id s' = w_uuid w n" if "s' \<in> set (sessions_of w')" for s'
    using assms that grow(2) unfolding ids_drawn_def sessions_evolve_def continues_def drawn_between_def
    by (metis less_le_trans)
  with assms(1) grow show ?thesis by (simp add: ids_drawn_def)
qed

lemma old_session_continues:
  assumes "ids_drawn w" "sessions_evolve w w'" "s' \<in> set (sessions_of w')" and "ss_id s' \<in> ss_id ` set (sessions_of w)"
  shows "\<exists>s \<in> set (sessions_of w). continues s s'"
proof -
  from assms(1,4) obtain n where n: "n < w_next w" "ss_id s' = w_uuid w n" by (auto simp: ids_drawn_def)
  with assms(1) have "\<not> drawn_between w w' (ss_id s')"
    by (auto simp: drawn_between_def ids_drawn_def dest: injD)
  with assms(2,3) show ?thesis by (auto simp: sessions_evolve_def)
qed

lemma find_SomeD: "List.find p xs = Some r \<Longrightarrow> r \<in> set xs \<and> p r"
  by (induction xs) (auto split: if_splits)

lemma touchSession_Some:
  assumes "touchSession env tok now newIdle w = (Inr (Some (s, u)), w')"
  shows "\<exists>r \<in> set (sessions_of w). authenticates env tok now (w_tables w) r \<and> s = extend_session now newIdle r
    \<and> us_id u = ss_user_id r"
proof -
  let ?found = "List.find (authenticates env tok now (w_tables w)) (sessions_of w)"
  from assms have "Option.bind ?found (\<lambda>s. map_option (\<lambda>u. (extend_session now newIdle s, u)) (session_user (w_tables w) s))
      = Some (s, u)"
    by (simp add: touchSession_def Let_def tx_affect_Inr)
  then obtain r where r: "?found = Some r" and u: "session_user (w_tables w) r = Some u" and s: "s = extend_session now newIdle r"
    by (cases ?found) auto
  from find_SomeD [OF r] find_SomeD [OF u [unfolded session_user_def]] s show ?thesis by blast
qed

lemma Authenticate_Inr:
  assumes "Authenticate env options now tok w = (Inr s, w')"
  shows "\<exists>r \<in> set (sessions_of w). authenticates env tok (truncate_us now) (w_tables w) r \<and> se_ID s = ss_id r
    \<and> ur_ID (se_User s) = ss_user_id r \<and> se_AbsoluteExpiry s = ss_absolute_expires_at r
    \<and> se_ExpiresAt s = min (truncate_us (now + op_SessionIdle options)) (ss_absolute_expires_at r)
    \<and> se_CSRFDigest s = ss_csrf_digest r"
proof -
  define T where "T = touchSession env tok (truncate_us now) (truncate_us (now + op_SessionIdle options))"
  from assms have "tok \<noteq> ''''" by (auto simp: Authenticate_def)
  with assms obtain s1 u w1 where t: "T w = (Inr (Some (s1, u)), w1)"
    and s: "se_ID s = ss_id s1" "ur_ID (se_User s) = us_id u" "se_AbsoluteExpiry s = ss_absolute_expires_at s1"
      "se_ExpiresAt s = ss_expires_at s1" "se_CSRFDigest s = ss_csrf_digest s1"
    unfolding Authenticate_def T_def [symmetric]
    by (auto simp: tx_bind_Inr user_roles_query_def tx_query_Inr split: option.splits)
  from touchSession_Some [OF t [unfolded T_def]] s show ?thesis by (auto simp: extend_session_def)
qed

definition auth_initial :: "auth_state \<Rightarrow> bool" where
  "auth_initial st \<longleftrightarrow> inj (w_uuid (as_world st)) \<and> sessions_of (as_world st) = [] \<and> as_pending st = []"

lemma ids_drawn_run:
  assumes "auth_initial st0" "(auth_step env sv permitted)\<^sup>*\<^sup>* st0 st"
  shows "ids_drawn (as_world st)"
proof (rule ids_drawn_evolve [OF _ auth_run_evolves [OF assms(2)]])
  show "ids_drawn (as_world st0)" using assms(1) by (simp add: auth_initial_def ids_drawn_def)
qed

lemma drawn_session_continues:
  assumes "inj (w_uuid w)" "sessions_evolve w w'" "s' \<in> set (sessions_of w')" and "n < w_next w" "ss_id s' = w_uuid w n"
  shows "\<exists>s \<in> set (sessions_of w). continues s s'"
proof -
  have "\<not> drawn_between w w' (ss_id s')" using assms(1,4,5) by (auto simp: drawn_between_def dest: injD)
  with assms(2,3) show ?thesis by (auto simp: sessions_evolve_def)
qed

text \<open>
  C7. A change of privileges ends sessions for good: once a role change, an enablement change, a
  password reset or a revocation for a user has succeeded, no session that existed before it
  authenticates that user again, whatever operations, logins and other work follow in whatever
  order and with whatever failures.
\<close>

theorem privilege_change_ends_sessions:
  assumes init: "auth_initial st0" and before: "(auth_step env sv permitted)\<^sup>*\<^sup>* st0 st"
    and change: "ends_sessions env sv userID (as_world st) w1"
    and after: "(auth_step env sv permitted)\<^sup>*\<^sup>* (st\<lparr>as_world := w1\<rparr>) st'"
    and auth: "Authenticate env options now tok (as_world st') = (Inr s, w')"
    and user: "ur_ID (se_User s) = userID"
  shows "se_ID s \<notin> ss_id ` set (sessions_of (as_world st))"
proof
  let ?w = "as_world st"
  assume old: "se_ID s \<in> ss_id ` set (sessions_of ?w)"
  have drawn: "ids_drawn ?w" by (rule ids_drawn_run [OF init before])
  have step: "sessions_evolve ?w w1" by (rule ends_sessions_evolves [OF change])
  have later: "sessions_evolve w1 (as_world st')" using auth_run_evolves [OF after] by simp
  obtain r where r: "r \<in> set (sessions_of (as_world st'))" "authenticates env tok (truncate_us now) (w_tables (as_world st')) r"
    "se_ID s = ss_id r" "ss_user_id r = userID"
    using Authenticate_Inr [OF auth] user by auto
  obtain n where n: "n < w_next ?w" "se_ID s = w_uuid ?w n" using old drawn by (auto simp: ids_drawn_def)
  have grow: "w_uuid w1 = w_uuid ?w" "w_next ?w \<le> w_next w1"
    using step by (simp_all add: sessions_evolve_def supply_grows_def)
  have "\<exists>s1 \<in> set (sessions_of w1). continues s1 r"
    by (rule drawn_session_continues [OF _ later r(1)]) (use n grow drawn r(3) in \<open>auto simp: ids_drawn_def\<close>)
  then obtain s1 where s1: "s1 \<in> set (sessions_of w1)" "continues s1 r" by blast
  have "ss_revoked_at s1 \<noteq> None"
    using ends_sessions_revokes [OF change] s1 r(4) by (auto simp: all_revoked_def continues_def)
  then have "ss_revoked_at r \<noteq> None" using s1(2) by (simp add: continues_def)
  with r(2) show False by (simp add: authenticates_def session_live_def)
qed

end
