(* ===== verification/Auth_Sample.thy ===== *)
theory Auth_Sample
  imports Auth_Life
begin

text \<open>A small directory with one administrator, on which the properties of accounts are exercised.\<close>

definition sampleEnv :: auth_env where
  "sampleEnv = \<lparr> en_rt = \<lparr> rt_json = (\<lambda>_. ''{}''), rt_sha256 = (\<lambda>s. s), rt_ParseIP = (\<lambda>_. False), rt_Quote = (\<lambda>s. s) \<rparr>,
     en_argon2 = sampleArgon2, en_ToLower = (\<lambda>s. s), en_lower = (\<lambda>s. s), en_IsLetter = (\<lambda>_. True),
     en_IsDigit = (\<lambda>_. True), en_ParseAddress = Some, en_EqualFold = (=), en_UnmarshalCursor = (\<lambda>_. None) \<rparr>"

definition samplePassword :: string where
  "samplePassword = ''an unusual passphrase''"

definition sampleHash :: string where
  "sampleHash = projr (Hash sampleArgon2 (\<lambda>s. s) DefaultPasswordHasher (Some (replicate 16 (CHR ''s''))) samplePassword)"

definition sampleService :: auth_service where
  "sampleService = \<lparr> sv_options = DefaultOptions, sv_dummyHash = '''' \<rparr>"

lemma sampleHash_eq:
  "Hash sampleArgon2 (\<lambda>s. s) DefaultPasswordHasher (Some (replicate 16 (CHR ''s''))) samplePassword = Inr sampleHash"
  using sample_policy by (simp add: sampleHash_def samplePassword_def Hash_def Let_def)

lemma sample_parse:
  "parsePasswordHash sampleArgon2 sampleHash = Inr (DefaultPasswordHasher\<lparr>ph_SaltLength := 0, ph_KeyLength := 0\<rparr>,
     replicate 16 (CHR ''s''), take 32 (samplePassword @ replicate 32 (CHR ''0'')))"
  using parsePasswordHash_Hash [OF sampleHash_eq sample_usable _ _ sampleArgon2_length]
  by (simp add: sampleArgon2_def DefaultPasswordHasher_def)

lemma sample_key: "ar_IDKey sampleArgon2 p s i m l n = take (unat n) (p @ replicate (unat n) (CHR ''0''))"
  by (simp add: sampleArgon2_def)

lemma sample_verify: "Verify sampleArgon2 samplePassword sampleHash = Inr True"
  "Verify sampleArgon2 ''wrong'' sampleHash = Inr False"
  by (simp_all add: Verify_def sample_parse sample_key samplePassword_def DefaultPasswordHasher_def)

definition sampleUser :: user_row where
  "sampleUser = \<lparr> us_id = ''u1'', us_username = ''ada'', us_display_name = ''Ada'', us_email = None,
     us_identity_provider = ''local'', us_external_subject = Some ''ada'', us_enabled = True,
     us_created_at = 1000, us_updated_at = 1000 \<rparr>"

definition sampleCredential :: credential_row where
  "sampleCredential = \<lparr> cr_user_id = ''u1'', cr_password_hash = sampleHash, cr_password_changed_at = 1000,
     cr_failed_attempts = 0, cr_locked_until = None \<rparr>"

definition sampleRole :: role_row where
  "sampleRole = \<lparr> ro_id = ''r1'', ro_name = ''administrator'', ro_permissions = [''users:manage''] \<rparr>"

definition sampleAccounts :: world where
  "sampleAccounts = \<lparr> w_tables = empty_tables\<lparr>t_users := [sampleUser], t_credentials := [sampleCredential],
       t_roles := [sampleRole], t_user_roles := [(''u1'', ''r1'')]\<rparr>,
     w_faults = [], w_uuid = decimal, w_next = 0, w_clock = 5000, w_hub = NewHub 1 \<rparr>"

definition sampleChecked :: credential where
  "sampleChecked = \<lparr> cd_UserID = ''u1'', cd_Username = ''ada'', cd_DisplayName = ''Ada'', cd_Enabled = True,
     cd_PasswordHash = sampleHash, cd_LockedUntil = None \<rparr>"

lemma inj_decimal: "inj decimal"
  by (rule injI) (metis digits_value_decimal)

lemma sample_normalize: "NormalizeUsername sampleEnv ''ada'' = ''ada''"
  by (simp add: NormalizeUsername_def sampleEnv_def) code_simp

lemma sampleEnv_fields:
  "rt_json (en_rt sampleEnv) v = ''{}''" "rt_sha256 (en_rt sampleEnv) x = x" "rt_ParseIP (en_rt sampleEnv) y = False"
  "en_argon2 sampleEnv = sampleArgon2" "en_ToLower sampleEnv x = x" "en_lower sampleEnv x = x"
  by (simp_all add: sampleEnv_def)

lemma DefaultOptions_fields:
  "op_SessionIdle DefaultOptions = 1800000000000" "op_SessionAbsolute DefaultOptions = 43200000000000"
  "op_FailureLimit DefaultOptions = 5" "op_LockoutDuration DefaultOptions = 900000000000"
  "op_Hasher DefaultOptions = DefaultPasswordHasher"
  by (simp_all add: DefaultOptions_def second_def)

lemmas sample_env_simps = sampleEnv_fields DefaultOptions_fields sampleUser_def sampleCredential_def sampleRole_def

lemma sample_login_check:
  "login_check sampleEnv DefaultOptions ''ada'' samplePassword ''here'' ''req'' 6000 sampleAccounts = (Inr sampleChecked, sampleAccounts)"
  by (simp add: login_check_def credential_query_def find_credential_def sampleAccounts_def sample_env_simps tx_eval
      locked_at_def sample_verify sampleChecked_def cong: tx_frozen)

definition sampleStored :: "string \<Rightarrow> string \<Rightarrow> session_row" where
  "sampleStored i raw = \<lparr> ss_id = i, ss_user_id = ''u1'', ss_token_digest = raw, ss_csrf_digest = ''ZGVm'',
     ss_source_address = None, ss_last_seen_at = 6000, ss_expires_at = 1800000006000,
     ss_absolute_expires_at = 43200000006000, ss_revoked_at = None, ss_created_at = 5000 \<rparr>"

lemma sample_secrets:
  "newSecret sampleEnv (Some ''abc'') = Inr (''YWJj'', ''YWJj'')"
  "newSecret sampleEnv (Some ''abd'') = Inr (''YWJk'', ''YWJk'')"
  "newSecret sampleEnv (Some ''def'') = Inr (''ZGVm'', ''ZGVm'')"
  by (simp_all add: newSecret_def digestSecret_def sampleEnv_def EncodeToString_def byte_def url_alphabet_def Let_def)

definition sampleSession :: session where
  "sampleSession = \<lparr> se_ID = ''0'', se_Token = ''YWJj'', se_CSRFToken = ''ZGVm'', se_CSRFDigest = ''ZGVm'',
     se_User = \<lparr> ur_ID = ''u1'', ur_Username = ''ada'', ur_DisplayName = ''Ada'', ur_Roles = [''administrator''],
       ur_Permissions = [''users:manage''] \<rparr>,
     se_ExpiresAt = 1800000006000, se_AbsoluteExpiry = 43200000006000 \<rparr>"

definition sampleLoggedIn :: world where
  "sampleLoggedIn = snd (createSession sampleEnv DefaultOptions (Some ''abc'') (Some ''def'') sampleChecked 6000 ''here'' ''req''
     sampleAccounts)"

lemma sample_auth_uuid: "uuid_param ''u1'' = ''u1''" "uuid_param ''r1'' = ''r1''" "uuid_param ''0'' = ''0''"
  by (simp_all add: uuid_param_def lower_hex_def byte_def)

lemma sample_decimal: "decimal 0 = ''0''" "decimal 1 = ''1''" "decimal 2 = ''2''" "decimal 3 = ''3''" "decimal 4 = ''4''"
  "decimal 5 = ''5''" "decimal 6 = ''6''" "decimal 7 = ''7''"
  "decimal (Suc 0) = ''1''" "decimal (Suc (Suc 0)) = ''2''"
  by code_simp+

lemmas create_eval = createSession_def sample_secrets insertSession_def insertAudit_def auditArguments_def plain_event_def
  nullableAddress_def nullableText_def user_roles_query_def role_names_def keys_def tx_eval sample_auth_uuid
  truncate_us_def microsecond_def sample_decimal

lemma sample_session_created:
  "createSession sampleEnv DefaultOptions (Some ''abc'') (Some ''def'') sampleChecked 6000 ''here'' ''req'' sampleAccounts
     = (Inr sampleSession, sampleLoggedIn)"
  "sessions_of sampleLoggedIn = [sampleStored ''0'' ''YWJj'']"
  "t_users (w_tables sampleLoggedIn) = [sampleUser]" "t_credentials (w_tables sampleLoggedIn) = [sampleCredential]"
  "t_roles (w_tables sampleLoggedIn) = [sampleRole]" "t_user_roles (w_tables sampleLoggedIn) = [(''u1'', ''r1'')]"
  "w_faults sampleLoggedIn = []" "w_uuid sampleLoggedIn = decimal" "w_next sampleLoggedIn = 3" "w_clock sampleLoggedIn = 5000"
  "au_id ` set (t_audit (w_tables sampleLoggedIn)) = {''1'', ''2''}"
  by (simp_all add: sampleLoggedIn_def create_eval sampleAccounts_def sampleChecked_def sample_env_simps empty_tables_def
      sampleStored_def sampleSession_def insert_commute cong: tx_frozen)

definition sampleResetInput :: reset_managed_password where
  "sampleResetInput = \<lparr> rp_ID = ''u1'', rp_Password = samplePassword,
     rp_Context = \<lparr> ac_ActorUserID = ''u1'', ac_SourceAddress = ''here'', ac_CorrelationID = ''req'' \<rparr> \<rparr>"

definition sampleReset :: world where
  "sampleReset = snd (ResetManagedUserPassword sampleEnv sampleService (Some (replicate 16 (CHR ''s''))) sampleResetInput sampleLoggedIn)"

lemma sample_hash_password: "hash_password sampleEnv sampleService (Some (replicate 16 (CHR ''s''))) samplePassword = Inr sampleHash"
proof -
  have "en_ToLower sampleEnv = (\<lambda>s. s)" by (simp add: sampleEnv_def)
  with sampleHash_eq show ?thesis
    by (simp add: hash_password_def sampleService_def sampleEnv_fields DefaultOptions_fields)
qed

lemma sample_reset:
  "ResetManagedUserPassword sampleEnv sampleService (Some (replicate 16 (CHR ''s''))) sampleResetInput sampleLoggedIn
     = (Inr (), sampleReset)"
  "sessions_of sampleReset = [(sampleStored ''0'' ''YWJj'')\<lparr>ss_revoked_at := Some 5000\<rparr>]"
  "t_users (w_tables sampleReset) = [sampleUser]"
  "t_credentials (w_tables sampleReset) = [sampleCredential\<lparr>cr_password_changed_at := 5000\<rparr>]"
  "t_roles (w_tables sampleReset) = [sampleRole]" "t_user_roles (w_tables sampleReset) = [(''u1'', ''r1'')]"
  "w_faults sampleReset = []" "w_uuid sampleReset = decimal" "w_next sampleReset = 4" "w_clock sampleReset = 5000"
  "au_id ` set (t_audit (w_tables sampleReset)) = {''1'', ''2'', ''3''}"
  by (simp_all add: sampleReset_def ResetManagedUserPassword_def sampleResetInput_def sample_hash_password resetCredential_def
      revokeSessions_def insertAudit_def auditArguments_def nullableAddress_def nullableText_def sample_env_simps sampleStored_def
      sample_session_created(2-) sample_decimal sample_auth_uuid tx_eval insert_commute cong: tx_frozen)

definition sampleRelogged :: world where
  "sampleRelogged = snd (createSession sampleEnv DefaultOptions (Some ''abd'') (Some ''def'') sampleChecked 6000 ''here'' ''req'' sampleReset)"

lemma sample_recreate:
  "sessions_of sampleRelogged = [(sampleStored ''0'' ''YWJj'')\<lparr>ss_revoked_at := Some 5000\<rparr>, sampleStored ''4'' ''YWJk'']"
  "t_users (w_tables sampleRelogged) = [sampleUser]" "t_roles (w_tables sampleRelogged) = [sampleRole]"
  "t_user_roles (w_tables sampleRelogged) = [(''u1'', ''r1'')]" "w_faults sampleRelogged = []"
  by (simp_all add: sampleRelogged_def create_eval sampleChecked_def sample_env_simps sample_reset(2-) sampleStored_def
      cong: tx_frozen)

lemma sample_authenticate:
  "\<exists>s w'. Authenticate sampleEnv DefaultOptions 7000 ''YWJk'' sampleRelogged = (Inr s, w') \<and> ur_ID (se_User s) = ''u1'' \<and> se_ID s = ''4''"
  by (simp add: Authenticate_def touchSession_def authenticates_def session_live_def session_user_def digestSecret_def
      extend_session_def user_roles_query_def sample_recreate sample_env_simps sampleStored_def truncate_us_def microsecond_def
      tx_eval cong: tx_frozen)

definition sampleLimiter :: "int \<Rightarrow> limiter" where
  "sampleLimiter n = \<lparr> lm_limit = 10, lm_window = 60000000000,
     lm_entries = (if n = 0 then [] else [(''here'', \<lparr> le_started = 6000, le_count = n \<rparr>)]) \<rparr>"

definition sampleState :: "world \<Rightarrow> int \<Rightarrow> nat \<Rightarrow> auth_state" where
  "sampleState w n k = \<lparr> as_world = w, as_limiter = sampleLimiter n, as_pending = replicate k (sampleChecked, 6000, ''here'', ''req'') \<rparr>"

lemma sample_allow: "Allow (sampleLimiter 0) ''here'' 6000 = (True, sampleLimiter 1)"
  "Allow (sampleLimiter 1) ''here'' 6000 = (True, sampleLimiter 2)"
  by (simp_all add: Allow_def sampleLimiter_def outdated_def Sub_def)

lemma sample_step_checked:
  assumes "Allow (sampleLimiter n) ''here'' 6000 = (True, sampleLimiter m)"
  shows "auth_step sampleEnv sampleService (\<lambda>_. True) (sampleState sampleAccounts n k) (sampleState sampleAccounts m (Suc k))"
proof -
  have "auth_step sampleEnv sampleService (\<lambda>_. True) (sampleState sampleAccounts n k)
      ((sampleState sampleAccounts n k)\<lparr>as_world := sampleAccounts, as_limiter := sampleLimiter m,
        as_pending := (sampleChecked, 6000, ''here'', ''req'') # as_pending (sampleState sampleAccounts n k)\<rparr>)"
    by (rule auth_step.login_checked [where username = "''ada''" and password = samplePassword])
      (use assms sample_login_check in \<open>simp_all add: sampleState_def sampleService_def sample_normalize\<close>)
  then show ?thesis by (simp add: sampleState_def)
qed

lemma sample_step_created:
  assumes "createSession sampleEnv DefaultOptions (Some t) (Some ''def'') sampleChecked 6000 ''here'' ''req'' w = (r, w')"
  shows "auth_step sampleEnv sampleService (\<lambda>_. True) (sampleState w n (Suc k)) (sampleState w' n k)"
proof -
  have "auth_step sampleEnv sampleService (\<lambda>_. True) (sampleState w n (Suc k))
      ((sampleState w n (Suc k))\<lparr>as_world := w', as_pending := remove1 (sampleChecked, 6000, ''here'', ''req'') (as_pending (sampleState w n (Suc k)))\<rparr>)"
    by (rule auth_step.login_created [where tokenBytes = "Some t" and csrfBytes = "Some ''def''"])
      (use assms in \<open>simp_all add: sampleState_def sampleService_def\<close>)
  then show ?thesis by (simp add: sampleState_def)
qed

lemma sample_initial: "auth_initial (sampleState sampleAccounts 0 0)"
  by (simp add: auth_initial_def sampleState_def sampleAccounts_def inj_decimal empty_tables_def)

text \<open>Two logins were checked, one of them has its session.\<close>

lemma sample_before: "(auth_step sampleEnv sampleService (\<lambda>_. True))\<^sup>*\<^sup>* (sampleState sampleAccounts 0 0) (sampleState sampleLoggedIn 2 1)"
proof -
  have "auth_step sampleEnv sampleService (\<lambda>_. True) (sampleState sampleAccounts 0 0) (sampleState sampleAccounts 1 1)"
    using sample_step_checked [OF sample_allow(1)] by simp
  moreover have "auth_step sampleEnv sampleService (\<lambda>_. True) (sampleState sampleAccounts 1 1) (sampleState sampleAccounts 2 2)"
    using sample_step_checked [OF sample_allow(2), of 1] by (simp add: numeral_2_eq_2)
  moreover have "auth_step sampleEnv sampleService (\<lambda>_. True) (sampleState sampleAccounts 2 2) (sampleState sampleLoggedIn 2 1)"
    using sample_step_created [OF sample_session_created(1), of 2 1] by (simp add: numeral_2_eq_2)
  ultimately show ?thesis by (meson converse_rtranclp_into_rtranclp rtranclp.rtrancl_refl)
qed

lemma sample_after: "auth_step sampleEnv sampleService (\<lambda>_. True) (sampleState sampleReset 2 1) (sampleState sampleRelogged 2 0)"
  using sample_step_created [of "''abd''" sampleReset "fst (createSession sampleEnv DefaultOptions (Some ''abd'') (Some ''def'')
    sampleChecked 6000 ''here'' ''req'' sampleReset)" sampleRelogged 2 0] by (simp add: sampleRelogged_def)

theorem privilege_change_ends_sessions_witness:
  "\<exists>st' s w'. (auth_step sampleEnv sampleService (\<lambda>_. True))\<^sup>*\<^sup>* (sampleState sampleReset 2 1) st'
     \<and> Authenticate sampleEnv DefaultOptions 7000 ''YWJk'' (as_world st') = (Inr s, w')
     \<and> sessions_of sampleLoggedIn \<noteq> [] \<and> se_ID s \<notin> ss_id ` set (sessions_of sampleLoggedIn)"
proof -
  obtain s w' where auth: "Authenticate sampleEnv DefaultOptions 7000 ''YWJk'' sampleRelogged = (Inr s, w')"
    and user: "ur_ID (se_User s) = ''u1''" using sample_authenticate by blast
  have change: "ends_sessions sampleEnv sampleService ''u1'' sampleLoggedIn sampleReset"
    using ends_sessions.password [OF sample_reset(1)] by (simp add: sampleResetInput_def)
  have "se_ID s \<notin> ss_id ` set (sessions_of (as_world (sampleState sampleLoggedIn 2 1)))"
    by (rule privilege_change_ends_sessions [OF sample_initial sample_before, of "''u1''" sampleReset "sampleState sampleRelogged 2 0"])
      (use change auth user sample_after in \<open>auto simp: sampleState_def\<close>)
  with auth sample_after sample_session_created(2) show ?thesis
    by (intro exI [of _ "sampleState sampleRelogged 2 0"] exI [of _ s] exI [of _ w']) (auto simp: sampleState_def)
qed

text \<open>
  The check of a password and the creation of its session are not one transaction: a login that
  was checked before a password reset obtains a live session after it, which the reset was meant
  to rule out.
\<close>

lemma checked_login_survives_password_reset:
  "\<exists>st w1 st' s w'. (auth_step sampleEnv sampleService (\<lambda>_. True))\<^sup>*\<^sup>* (sampleState sampleAccounts 0 0) st
     \<and> ResetManagedUserPassword sampleEnv sampleService (Some (replicate 16 (CHR ''s''))) sampleResetInput (as_world st) = (Inr (), w1)
     \<and> (\<exists>r. createSession sampleEnv DefaultOptions (Some ''abd'') (Some ''def'') sampleChecked 6000 ''here'' ''req'' w1 = (r, as_world st'))
     \<and> auth_step sampleEnv sampleService (\<lambda>_. True) (st\<lparr>as_world := w1\<rparr>) st'
     \<and> Authenticate sampleEnv DefaultOptions 7000 ''YWJk'' (as_world st') = (Inr s, w') \<and> ur_ID (se_User s) = rp_ID sampleResetInput"
proof -
  obtain s w' where auth: "Authenticate sampleEnv DefaultOptions 7000 ''YWJk'' sampleRelogged = (Inr s, w')"
    and user: "ur_ID (se_User s) = ''u1''" using sample_authenticate by blast
  have created: "\<exists>r. createSession sampleEnv DefaultOptions (Some ''abd'') (Some ''def'') sampleChecked 6000 ''here'' ''req'' sampleReset
      = (r, sampleRelogged)"
    unfolding sampleRelogged_def by (metis prod.collapse)
  show ?thesis
    by (rule exI [of _ "sampleState sampleLoggedIn 2 1"], rule exI [of _ sampleReset],
        rule exI [of _ "sampleState sampleRelogged 2 0"], rule exI [of _ s], rule exI [of _ w'])
      (use sample_before sample_reset(1) sample_after created auth user in \<open>simp add: sampleState_def sampleResetInput_def\<close>)
qed

end
