(* ===== verification/Auth_Safety.thy ===== *)
theory Auth_Safety
  imports Auth_Sample
begin

text \<open>
  Safety of accounts and sessions: an enabled administrator remains through every operation of the
  API, a session ends at its idle and at its absolute expiry, repeated failures lock an account,
  and a login that succeeds was entitled to its session.
\<close>

section \<open>An administrator remains\<close>

definition is_administrator :: "tables \<Rightarrow> user_row \<Rightarrow> bool" where
  "is_administrator t u \<longleftrightarrow> us_enabled u \<and> ''administrator'' \<in> set (role_names t (us_id u))"

text \<open>One row per user and role name, one role per user.\<close>

definition directory_ok :: "tables \<Rightarrow> bool" where
  "directory_ok t \<longleftrightarrow> distinct (map us_id (t_users t)) \<and> distinct (map ro_id (t_roles t))
     \<and> distinct (map ro_name (t_roles t))
     \<and> distinct (map fst (t_user_roles t)) \<and> fst ` set (t_user_roles t) \<subseteq> us_id ` set (t_users t)"

definition administered :: "tables \<Rightarrow> bool" where
  "administered t \<longleftrightarrow> directory_ok t \<and> (\<exists>u \<in> set (t_users t). is_administrator t u)"

definition directory_part :: "tables \<Rightarrow> user_row list \<times> role_row list \<times> (string \<times> string) list" where
  "directory_part t = (t_users t, t_roles t, t_user_roles t)"

lemma role_names_cong:
  "t_user_roles t' = t_user_roles t \<Longrightarrow> t_roles t' = t_roles t \<Longrightarrow> role_names t' u = role_names t u"
  unfolding role_names_def by (rule arg_cong [where f = concat], rule map_cong) auto

lemma administered_cong: "directory_part t' = directory_part t \<Longrightarrow> administered t' = administered t"
  using role_names_cong [of t' t]
  by (simp add: administered_def directory_ok_def is_administrator_def directory_part_def)

lemma in_role_names:
  "n \<in> set (role_names t u) \<longleftrightarrow> (\<exists>r. (u, r) \<in> set (t_user_roles t) \<and> (\<exists>x \<in> set (t_roles t). ro_id x = r \<and> ro_name x = n))"
  by (auto simp: role_names_def split: if_splits)

text \<open>With one role per user, the role an update looks at is the role the user has.\<close>

lemma single_role:
  assumes ok: "directory_ok t" and n: "n \<in> set (role_names t u)"
  shows "current_role t u = n"
proof -
  have "m = n" if "m \<in> set (role_names t u)" for m
  proof -
    from n that obtain r x r' y where "(u, r) \<in> set (t_user_roles t)" "x \<in> set (t_roles t)" "ro_id x = r" "ro_name x = n"
      "(u, r') \<in> set (t_user_roles t)" "y \<in> set (t_roles t)" "ro_id y = r'" "ro_name y = m"
      by (auto simp: in_role_names)
    moreover from this ok have "r = r'" by (auto simp: directory_ok_def dest: eq_key_imp_eq_value)
    ultimately show ?thesis using ok by (auto simp: directory_ok_def distinct_map dest: inj_onD)
  qed
  moreover have "first_by id (role_names t u) \<noteq> None" using n by auto
  then obtain m where "first_by id (role_names t u) = Some m" by blast
  ultimately show ?thesis using first_by_Some_in [of id] by (fastforce simp: current_role_def)
qed

text \<open>Growing the directory keeps an administrator.\<close>

lemma administered_grow:
  assumes "administered t" and "set (t_users t) \<subseteq> set (t_users t')" "t_roles t' = t_roles t"
    and "set (t_user_roles t) \<subseteq> set (t_user_roles t')" "directory_ok t'"
  shows "administered t'"
proof -
  from assms(1) obtain u where "u \<in> set (t_users t)" "is_administrator t u" by (auto simp: administered_def)
  then have "u \<in> set (t_users t')" "is_administrator t' u"
    using assms(2-4) by (auto simp: is_administrator_def in_role_names)
  with assms(5) show ?thesis by (auto simp: administered_def)
qed

lemma insertUser_grows:
  assumes "insertUser env a b c w = (Inr (Some u), w')" and "administered (w_tables w)"
  shows "administered (w_tables w') \<and> u \<in> set (t_users (w_tables w')) \<and> us_id u \<notin> fst ` set (t_user_roles (w_tables w'))"
proof -
  from assms(1) have new: "us_id u \<notin> us_id ` set (t_users (w_tables w))"
    and tab: "w_tables w' = (w_tables w)\<lparr>t_users := t_users (w_tables w) @ [u]\<rparr>"
    by (auto simp: insertUser_def tx_insert_Inr Let_def new_local_user_def split: if_splits)
  have ok: "directory_ok (w_tables w)" using assms(2) by (simp add: administered_def)
  have "administered (w_tables w')"
    by (rule administered_grow [OF assms(2)]) (use new ok in \<open>auto simp: tab directory_ok_def\<close>)
  with new ok tab show ?thesis by (auto simp: directory_ok_def)
qed

lemma insertUserRole_grows:
  assumes "insertUserRole i r w = (Inr x, w')" and "administered (w_tables w)"
    and "i \<in> us_id ` set (t_users (w_tables w))" "i \<notin> fst ` set (t_user_roles (w_tables w))"
  shows "administered (w_tables w')"
proof -
  from assms(1) have tab: "w_tables w' = (w_tables w)\<lparr>t_user_roles := t_user_roles (w_tables w) @ [(i, r)]\<rparr>"
    by (auto simp: insertUserRole_def tx_insert_Inr split: if_splits)
  have ok: "directory_ok (w_tables w)" using assms(2) by (simp add: administered_def)
  show ?thesis
    by (rule administered_grow [OF assms(2)]) (use assms(3,4) ok in \<open>auto simp: tab directory_ok_def\<close>)
qed

text \<open>Statements and operations that leave the directory alone.\<close>

lemma directory_insertAudit [frame_intros]: "keeps directory_part (insertAudit env e)"
  unfolding insertAudit_def by (rule keeps_insert) (auto simp: directory_part_def split: if_splits)

lemma directory_insertCredential [frame_intros]: "keeps directory_part (insertCredential a b)"
  unfolding insertCredential_def by (rule keeps_insert) (auto simp: directory_part_def split: if_splits)

lemma directory_resetCredential [frame_intros]: "keeps directory_part (resetCredential a b)"
  unfolding resetCredential_def by (rule keeps_clocked) (simp add: directory_part_def Let_def)

lemma directory_revokeSessions [frame_intros]: "keeps directory_part (revokeSessions p)"
  unfolding revokeSessions_def by (rule keeps_clocked) (simp add: directory_part_def Let_def)

lemma directory_insertSession [frame_intros]: "keeps directory_part (insertSession env a b c d e f g)"
  unfolding insertSession_def by (rule keeps_insert) (auto simp: directory_part_def split: if_splits)

lemma directory_rotateRow [frame_intros]: "keeps directory_part (rotateRow s a b c)"
  unfolding rotateRow_def by (rule keeps_insert) (auto simp: directory_part_def Let_def split: if_splits)

lemma directory_touchSession [frame_intros]: "keeps directory_part (touchSession env a b c)"
  unfolding touchSession_def by (rule keeps_affect) (simp add: directory_part_def Let_def)

lemma directory_localUserID [frame_intros]: "keeps directory_part (localUserID env n)"
  unfolding localUserID_def by (intro frame_intros)

lemma directory_role_by_name [frame_intros]: "keeps directory_part (role_by_name n)"
  unfolding role_by_name_def by (intro frame_intros)

lemma directory_updates: "directory_part (t\<lparr>t_credentials := x\<rparr>) = directory_part t"
  "directory_part (t\<lparr>t_sessions := y\<rparr>) = directory_part t"
  by (simp_all add: directory_part_def)

lemma directory_ResetManagedUserPassword: "keeps directory_part (ResetManagedUserPassword env sv a b)"
  unfolding ResetManagedUserPassword_def by (intro frame_intros)

lemma directory_ResetLocalPassword: "keeps directory_part (ResetLocalPassword env sv a b c d)"
  unfolding ResetLocalPassword_def Let_def by (intro frame_intros)

lemma directory_login_check: "keeps directory_part (login_check env opts a b c d e)"
  unfolding login_check_def credential_query_def recordFailure_def
  by (intro frame_intros) (simp_all add: directory_updates)

lemma directory_createSession: "keeps directory_part (createSession env opts a b c d e f)"
  unfolding createSession_def user_roles_query_def Let_def
  by (intro frame_intros) (simp_all add: directory_updates)

lemma directory_Authenticate: "keeps directory_part (Authenticate env opts a b)"
  unfolding Authenticate_def user_roles_query_def by (intro frame_intros)

lemma directory_Logout: "keeps directory_part (Logout env a b c)"
  unfolding Logout_def by (intro frame_intros)

lemma directory_RotateSession: "keeps directory_part (RotateSession env a b c d e f)"
  unfolding RotateSession_def by (intro frame_intros)

lemma directory_RevokeUserSessions: "keeps directory_part (RevokeUserSessions env a b c d)"
  unfolding RevokeUserSessions_def by (intro frame_intros)

lemma directory_RecordDenied: "keeps directory_part (RecordDenied env a b c d)"
  unfolding RecordDenied_def by (intro frame_intros)

lemma directory_DeleteExpiredSessions: "keeps directory_part (DeleteExpiredSessions now)"
  unfolding DeleteExpiredSessions_def by (rule keeps_exec) (simp add: directory_updates Let_def)

lemma administered_kept: "keeps directory_part m \<Longrightarrow> administered (w_tables w) \<Longrightarrow> administered (w_tables (snd (m w)))"
  by (rule iffD2 [OF administered_cong [of "w_tables (snd (m w))" "w_tables w"]]) (simp_all add: keeps_snd)

lemma kept_administered: "keeps directory_part m \<Longrightarrow> m w = (r, w') \<Longrightarrow> administered (w_tables w') = administered (w_tables w)"
  by (rule administered_cong) (rule keepsD)

lemmas administered_frame = directory_ResetManagedUserPassword directory_ResetLocalPassword directory_Authenticate
  directory_Logout directory_RotateSession directory_RevokeUserSessions directory_RecordDenied directory_DeleteExpiredSessions

text \<open>Operations that add an account.\<close>

lemma in_tx_invariant:
  fixes w :: world
  assumes "I (w_tables w)" and "\<And>r w1. body (tick w) = (Inr r, w1) \<Longrightarrow> I (w_tables w1)"
  shows "I (w_tables (snd (in_tx body w)))"
proof -
  obtain r w1 where "body (tick w) = (r, w1)" by (cases "body (tick w)")
  with assms show ?thesis by (auto simp: in_tx_def split: sum.splits outcome.splits)
qed

definition add_account :: "auth_env \<Rightarrow> string \<Rightarrow> string \<Rightarrow> role_row \<Rightarrow> auth_audit_event \<Rightarrow> 'a \<Rightarrow> 'a outcome tx" where
  "add_account env i passwordHash r e y = tx_bind (insertCredential i passwordHash) (\<lambda>_.
     tx_bind (insertUserRole i (ro_id r)) (\<lambda>_. tx_bind (insertAudit env e) (\<lambda>_. tx_return (Commit y))))"

lemma administered_add_account:
  assumes "add_account env i h r e y w = (Inr z, w')" and "administered (w_tables w)"
    and "i \<in> us_id ` set (t_users (w_tables w))" "i \<notin> fst ` set (t_user_roles (w_tables w))"
  shows "administered (w_tables w')"
proof -
  from assms(1) obtain w1 w2 where c: "insertCredential i h w = (Inr (), w1)"
    and r: "insertUserRole i (ro_id r) w1 = (Inr (), w2)" and a: "insertAudit env e w2 = (Inr (), w')"
    by (auto simp: add_account_def tx_bind_Inr)
  have part: "directory_part (w_tables w1) = directory_part (w_tables w)"
    by (rule keepsD [OF directory_insertCredential c])
  have "administered (w_tables w2)"
    by (rule insertUserRole_grows [OF r])
      (use assms(2-4) part administered_cong [OF part] in \<open>auto simp: directory_part_def\<close>)
  with kept_administered [OF directory_insertAudit a] show ?thesis by simp
qed

lemma administered_create:
  assumes "tx_bind (role_by_name role) (\<lambda>found.
         case found of None \<Rightarrow> tx_fail ErrRoleNotFound | Some r \<Rightarrow>
         tx_bind (insertUser env username displayName email) (\<lambda>created.
         case created of None \<Rightarrow> tx_fail ErrUsernameTaken | Some u \<Rightarrow>
         add_account env (us_id u) h r (ev u) (y r u))) (tick w) = (Inr z, w1)"
    and "administered (w_tables w)"
  shows "administered (w_tables w1)"
proof -
  from assms(1) obtain x u w2 w3 where q: "role_by_name role (tick w) = (Inr (Some x), w2)"
    and i: "insertUser env username displayName email w2 = (Inr (Some u), w3)"
    and add: "add_account env (us_id u) h x (ev u) (y x u) w3 = (Inr z, w1)"
    by (auto simp: tx_bind_Inr split: option.splits)
  have "administered (w_tables w2)" using kept_administered [OF directory_role_by_name q] assms(2) by simp
  from insertUser_grows [OF i this] administered_add_account [OF add] show ?thesis by simp
qed

lemma scan_managed_ID: "mg_ID (scan_managed u) = us_id u"
  by (simp add: scan_managed_def)

lemma administered_CreateManagedUser:
  "administered (w_tables w) \<Longrightarrow> administered (w_tables (snd (CreateManagedUser env sv salt input w)))"
  unfolding CreateManagedUser_def Let_def add_account_def [symmetric] scan_managed_ID
  by (auto split: sum.splits intro!: in_tx_invariant [where I = administered] elim: administered_create)

lemma administered_CreateLocalUser:
  "administered (w_tables w) \<Longrightarrow> administered (w_tables (snd (CreateLocalUser env sv salt a b c d w)))"
  unfolding CreateLocalUser_def Let_def add_account_def [symmetric]
  by (auto split: sum.splits intro!: in_tx_invariant [where I = administered] elim: administered_create)

text \<open>Where an administrator exists, there is nothing to bootstrap.\<close>

lemma administered_bootstrapped: "administered t \<Longrightarrow> bootstrapped t"
  by (auto simp: administered_def is_administrator_def in_role_names bootstrapped_def list_ex_iff)

lemma administered_BootstrapAdmin:
  assumes "administered (w_tables w)"
  shows "administered (w_tables (snd (BootstrapAdmin env sv salt a b c d w)))"
  unfolding BootstrapAdmin_def Let_def
  by (auto simp: assms tx_bind_query_Inr administered_bootstrapped split: sum.splits
      intro!: in_tx_invariant [where I = administered])

text \<open>What an update does to the directory.\<close>

definition edit_user :: "update_managed_user \<Rightarrow> string \<Rightarrow> string \<Rightarrow> time \<Rightarrow> user_row \<Rightarrow> user_row" where
  "edit_user input displayName email c u = u\<lparr> us_display_name := displayName, us_email := nullif email,
     us_enabled := um_Enabled input, us_updated_at := c \<rparr>"

lemma edit_user_simps [simp]:
  "us_id (edit_user input a b c u) = us_id u" "us_enabled (edit_user input a b c u) = um_Enabled input"
  by (simp_all add: edit_user_def)

lemma applyManagedUpdate_directory:
  assumes "applyManagedUpdate env input displayName email role before currentRole roleID w = (Inr r, w')"
  shows "t_roles (w_tables w') = t_roles (w_tables w)
    \<and> t_users (w_tables w') = update_where (\<lambda>u. us_id u = um_ID input)
        (edit_user input displayName email (w_clock w)) (t_users (w_tables w))
    \<and> t_user_roles (w_tables w') = (if currentRole \<noteq> role
        then filter (\<lambda>(u, r). u \<noteq> um_ID input) (t_user_roles (w_tables w)) @ [(um_ID input, roleID)]
        else t_user_roles (w_tables w))"
proof -
  define R where "R = (if currentRole \<noteq> role then replaceRole (um_ID input) roleID else tx_return ())"
  define S where "S = (if currentRole \<noteq> role \<or> mg_Enabled before \<noteq> um_Enabled input
    then revokeSessions (\<lambda>s. ss_user_id s = um_ID input) else tx_return 0)"
  from assms obtain row w1 w2 w3 n e where u: "updateUserRow input displayName email w = (Inr row, w1)"
    and r: "R w1 = (Inr (), w2)" and s: "S w2 = (Inr n, w3)" and a: "insertAudit env e w3 = (Inr (), w')"
    unfolding applyManagedUpdate_def Let_def R_def [symmetric] S_def [symmetric]
    by (auto simp: tx_bind_Inr split: option.splits)
  have 3: "directory_part (w_tables w') = directory_part (w_tables w3)"
    by (rule keepsD [OF directory_insertAudit a])
  have 2: "directory_part (w_tables w3) = directory_part (w_tables w2)"
    using s keepsD [OF directory_revokeSessions] by (auto simp: S_def split: if_splits)
  have 1: "t_roles (w_tables w1) = t_roles (w_tables w)" "t_user_roles (w_tables w1) = t_user_roles (w_tables w)"
    "t_users (w_tables w1) = update_where (\<lambda>u. us_id u = um_ID input)
        (edit_user input displayName email (w_clock w)) (t_users (w_tables w))"
    using u by (auto simp: updateUserRow_def tx_clocked_Inr Let_def edit_user_def [abs_def])
  have "t_roles (w_tables w2) = t_roles (w_tables w1)" "t_users (w_tables w2) = t_users (w_tables w1)"
    "t_user_roles (w_tables w2) = (if currentRole \<noteq> role
        then filter (\<lambda>(u, r). u \<noteq> um_ID input) (t_user_roles (w_tables w1)) @ [(um_ID input, roleID)]
        else t_user_roles (w_tables w1))"
    using r by (auto simp: R_def replaceRole_def insertUserRole_def tx_bind_Inr tx_exec_Inr tx_insert_Inr split: if_splits)
  with 1 2 3 show ?thesis by (simp add: directory_part_def)
qed

lemma other_administrators_pos:
  "other_administrators t i \<noteq> 0 \<Longrightarrow> \<exists>u \<in> set (t_users t). us_id u \<noteq> i \<and> is_administrator t u"
  by (auto simp: other_administrators_def is_administrator_def filter_empty_conv split: if_splits)

text \<open>The new directory, seen from the rows an update leaves alone.\<close>

lemma directory_ok_update:
  assumes ok: "directory_ok t" and mem: "i \<in> us_id ` set (t_users t)"
    and roles: "t_roles t' = t_roles t" and users: "t_users t' = update_where (\<lambda>u. us_id u = i) f (t_users t)"
    and ids: "\<And>u. us_id (f u) = us_id u"
    and user_roles: "t_user_roles t' = (if b then filter (\<lambda>(u, r). u \<noteq> i) (t_user_roles t) @ [(i, x)] else t_user_roles t)"
  shows "directory_ok t'"
proof -
  have same: "map us_id (t_users t') = map us_id (t_users t)"
    unfolding users by (rule map_update_where) (simp add: ids)
  then have set_same: "us_id ` set (t_users t') = us_id ` set (t_users t)" by (metis set_map)
  have "distinct (map fst (filter (\<lambda>(u, r). u \<noteq> i) xs @ [(i, x)]))" if "distinct (map fst xs)" for xs :: "(string \<times> string) list"
    using that by (induction xs) auto
  then have "distinct (map fst (t_user_roles t'))" using ok by (simp add: user_roles directory_ok_def)
  moreover have "fst ` set (t_user_roles t') \<subseteq> us_id ` set (t_users t)"
    using ok mem by (auto simp: user_roles directory_ok_def)
  ultimately show ?thesis using ok same set_same roles by (simp add: directory_ok_def)
qed

lemma administrator_elsewhere:
  assumes "u \<in> set (t_users t)" "is_administrator t u" "us_id u \<noteq> i"
    and "t_roles t' = t_roles t" "t_users t' = update_where (\<lambda>u. us_id u = i) f (t_users t)"
    and "t_user_roles t' = (if b then filter (\<lambda>(u, r). u \<noteq> i) (t_user_roles t) @ [(i, x)] else t_user_roles t)"
  shows "\<exists>u \<in> set (t_users t'). is_administrator t' u"
proof -
  have "u \<in> set (t_users t')" using assms(1,3) by (auto simp: assms(5) set_update_where)
  moreover have "is_administrator t' u"
    using assms(2,3) by (auto simp: is_administrator_def in_role_names assms(4,6))
  ultimately show ?thesis by blast
qed

lemma administered_UpdateManagedUser:
  assumes adm: "administered (w_tables w)"
  shows "administered (w_tables (snd (UpdateManagedUser env input w)))"
proof -
  let ?t = "w_tables w" and ?i = "um_ID input" and ?role = "en_ToLower env (TrimSpace (um_Role input))"
  obtain res w' where run: "UpdateManagedUser env input w = (res, w')" by (cases "UpdateManagedUser env input w")
  show ?thesis
  proof (cases res)
    case (Inl e)
    with run have "w_tables w' = ?t"
      by (auto simp: UpdateManagedUser_def Let_def split: sum.splits dest: in_tx_atomic)
    with adm run show ?thesis by simp
  next
    case (Inr m)
    obtain u w1 w2 and rl :: role_row where al: "update_allowed env input u ?t" and w1: "w_tables w1 = ?t"
      and app: "applyManagedUpdate env input (TrimSpace (um_DisplayName input)) (TrimSpace (um_Email input))
        ?role (scan_managed u) (current_role ?t ?i) (ro_id rl) w1 = (Inr (Commit m), w2)" and fin: "w_tables w' = w_tables w2"
      using UpdateManagedUser_Inr [OF run [unfolded Inr]] by (elim exE conjE) (rule that, assumption+)
    note dir = applyManagedUpdate_directory [OF app, unfolded w1]
    have ok: "directory_ok ?t" using adm by (simp add: administered_def)
    have u: "u \<in> set (t_users ?t)" "us_id u = ?i"
      using al find_row_SomeD [of us_id ?i "t_users ?t" u] by (auto simp: update_allowed_def Let_def)
    note d1 = dir [THEN conjunct1] and d2 = dir [THEN conjunct2, THEN conjunct1] and d3 = dir [THEN conjunct2, THEN conjunct2]
    have mem: "?i \<in> us_id ` set (t_users ?t)" using u by force
    have ok': "directory_ok (w_tables w2)"
      by (rule directory_ok_update [OF ok mem d1 d2 edit_user_simps(1) d3])
    obtain a where a: "a \<in> set (t_users ?t)" "is_administrator ?t a" using adm by (auto simp: administered_def)
    have "\<exists>v \<in> set (t_users (w_tables w2)). is_administrator (w_tables w2) v"
    proof (cases "\<exists>v \<in> set (t_users ?t). us_id v \<noteq> ?i \<and> is_administrator ?t v")
      case True
      then obtain v where v: "v \<in> set (t_users ?t)" "is_administrator ?t v" "us_id v \<noteq> ?i" by blast
      then show ?thesis by (rule administrator_elsewhere [OF _ _ _ d1 d2 d3])
    next
      case False
      with a have "us_id a = us_id u" using u(2) by auto
      then have au: "a = u" using a(1) u(1) ok inj_onD [of us_id "set (t_users ?t)"] by (auto simp: directory_ok_def distinct_map)
      have cur: "current_role ?t ?i = ''administrator''"
        by (rule single_role [OF ok]) (use a(2) au u in \<open>simp add: is_administrator_def\<close>)
      have "\<not> loseAdministrator input ?role"
        using al cur a(2) au False other_administrators_pos [of ?t ?i]
        by (auto simp: update_allowed_def Let_def is_administrator_def)
      then have keep: "um_Enabled input" "?role = ''administrator''" by (simp_all add: loseAdministrator_def)
      let ?v = "edit_user input (TrimSpace (um_DisplayName input)) (TrimSpace (um_Email input)) (w_clock w1) u"
      have "?v \<in> set (t_users (w_tables w2))" using u by (force simp: d2 set_update_where)
      moreover have "is_administrator (w_tables w2) ?v"
        using a(2) cur keep by (simp add: is_administrator_def au in_role_names d1 d3)
      ultimately show ?thesis by blast
    qed
    with ok' fin run show ?thesis by (simp add: administered_def)
  qed
qed

text \<open>The operations reachable over the API: all but the host's role assignment and account switch.\<close>

fun over_api :: "auth_op \<Rightarrow> bool" where
  "over_api (OpAssignRole _ _ _) = False"
| "over_api (OpSetLocalUserEnabled _ _ _) = False"
| "over_api _ = True"

lemma administered_perform:
  "over_api x \<Longrightarrow> administered (w_tables w) \<Longrightarrow> administered (w_tables (perform env sv x w))"
  by (cases x) (simp_all add: administered_BootstrapAdmin administered_CreateManagedUser administered_CreateLocalUser
      administered_UpdateManagedUser administered_kept administered_frame)

lemma administered_step:
  assumes "auth_step env sv over_api st st'" "administered (w_tables (as_world st))"
  shows "administered (w_tables (as_world st'))"
  using assms
proof (induction rule: auth_step.induct)
  case (login_refused st source now l username password requestID e w)
  then show ?case using kept_administered [OF directory_login_check login_refused(2)] by simp
next
  case (login_checked st source now l username password requestID cred w)
  then show ?case using kept_administered [OF directory_login_check login_checked(2)] by simp
next
  case (login_created cred now source requestID st tokenBytes csrfBytes r w)
  then show ?case using kept_administered [OF directory_createSession login_created(2)] by simp
next
  case (elsewhere w st)
  then have "directory_part (w_tables w) = directory_part (w_tables (as_world st))"
    by (auto simp: auth_tables_def directory_part_def)
  with elsewhere(3) administered_cong [OF this] show ?case by simp
qed (simp_all add: administered_perform)

text \<open>
  C11. No lockout of the last administrator: where every user has one role and an enabled
  administrator exists, both stay true through every run of logins and API operations, under every
  interleaving and every failure of a statement.
\<close>

theorem administrator_remains:
  assumes "(auth_step env sv over_api)\<^sup>*\<^sup>* st st'" and "administered (w_tables (as_world st))"
  shows "administered (w_tables (as_world st'))"
  using assms by (induction rule: rtranclp_induct) (auto intro: administered_step)

definition sampleDemotion :: update_managed_user where
  "sampleDemotion = \<lparr> um_ID = ''u1'', um_DisplayName = ''Ada'', um_Email = '''', um_Role = ''viewer'', um_Enabled = True,
     um_ExpectedUpdatedAt = 1000, um_Context = \<lparr> ac_ActorUserID = ''u2'', ac_SourceAddress = '''', ac_CorrelationID = ''req'' \<rparr> \<rparr>"

lemma sample_administered: "administered (w_tables sampleAccounts)"
  by (simp add: administered_def directory_ok_def is_administrator_def in_role_names sampleAccounts_def sample_env_simps)

theorem administrator_remains_witness:
  "administered (w_tables sampleAccounts)
   \<and> administered (w_tables (snd (UpdateManagedUser sampleEnv sampleDemotion sampleAccounts)))"
proof -
  have "auth_step sampleEnv sampleService over_api (sampleState sampleAccounts 0 0)
    ((sampleState sampleAccounts 0 0)\<lparr>as_world := perform sampleEnv sampleService (OpUpdateManagedUser sampleDemotion)
      (as_world (sampleState sampleAccounts 0 0))\<rparr>)"
    by (rule auth_step.operation) simp
  from administrator_remains [OF r_into_rtranclp [where r = "auth_step sampleEnv sampleService over_api", OF this]] sample_administered
  show ?thesis by (simp add: sampleState_def)
qed

section \<open>What a created session is\<close>

definition session_row_of :: "auth_env \<Rightarrow> auth_options \<Rightarrow> string \<Rightarrow> string \<Rightarrow> string \<Rightarrow> string \<Rightarrow> string \<Rightarrow> time \<Rightarrow> time \<Rightarrow> session_row" where
  "session_row_of env options i userID tokenDigest csrfDigest source now c = \<lparr> ss_id = i, ss_user_id = userID,
     ss_token_digest = tokenDigest, ss_csrf_digest = csrfDigest, ss_source_address = nullableAddress env source,
     ss_last_seen_at = truncate_us now, ss_expires_at = truncate_us (now + op_SessionIdle options),
     ss_absolute_expires_at = truncate_us (now + op_SessionAbsolute options), ss_revoked_at = None, ss_created_at = c \<rparr>"

lemma insertSession_Inr:
  assumes "insertSession env userID d c source now (now + op_SessionIdle options) (now + op_SessionAbsolute options) w = (Inr i, w')"
  shows "w_tables w' = (w_tables w)\<lparr>t_sessions := sessions_of w @ [session_row_of env options i userID d c source now (w_clock w)]\<rparr>
    \<and> i \<notin> ss_id ` set (sessions_of w) \<and> d \<notin> ss_token_digest ` set (sessions_of w)
    \<and> truncate_us (now + op_SessionIdle options) \<le> truncate_us (now + op_SessionAbsolute options)
    \<and> i = w_uuid w (w_next w) \<and> w_next w' = Suc (w_next w) \<and> w_uuid w' = w_uuid w"
  using assms by (auto simp: insertSession_def tx_insert_Inr session_row_of_def split: if_splits)

text \<open>The tables around sessions.\<close>

definition session_context :: "tables \<Rightarrow> session_row list \<times> user_row list" where
  "session_context t = (t_sessions t, t_users t)"

lemma context_insertAudit: "keeps session_context (insertAudit env e)"
  unfolding insertAudit_def by (rule keeps_insert) (auto simp: session_context_def split: if_splits)

lemma createSession_Inr:
  assumes "createSession env options tb cb cred now source requestID w = (Inr s, w')"
  shows "\<exists>d c. newSecret env tb = Inr (se_Token s, d) \<and> newSecret env cb = Inr (se_CSRFToken s, se_CSRFDigest s)
    \<and> se_CSRFDigest s = digestSecret env (se_CSRFToken s) \<and> d = digestSecret env (se_Token s)
    \<and> ur_ID (se_User s) = cd_UserID cred
    \<and> sessions_of w' = sessions_of w @ [session_row_of env options (se_ID s) (cd_UserID cred) d (se_CSRFDigest s) source now c]
    \<and> t_users (w_tables w') = t_users (w_tables w)
    \<and> se_ID s \<notin> ss_id ` set (sessions_of w) \<and> d \<notin> ss_token_digest ` set (sessions_of w)
    \<and> truncate_us (now + op_SessionIdle options) \<le> truncate_us (now + op_SessionAbsolute options)
    \<and> (\<exists>n. se_ID s = w_uuid w n \<and> n < w_next w')"
proof -
  let ?reset = "tx_exec (\<lambda>t. t\<lparr>t_credentials := update_where (\<lambda>r. cr_user_id r = cd_UserID cred)
    (\<lambda>r. r\<lparr> cr_failed_attempts := 0, cr_locked_until := None \<rparr>) (t_credentials t)\<rparr>)"
  let ?audits = "\<lambda>i. tx_for (\<lambda>action. insertAudit env (plain_event (cd_UserID cred) action ''session'' i
      ''succeeded'' source requestID)) [''auth.login.succeeded'', ''auth.local.used'']"
  define K where "K d c = tx_bind ?reset (\<lambda>_. tx_bind (insertSession env (cd_UserID cred) d c source now
      (now + op_SessionIdle options) (now + op_SessionAbsolute options)) (\<lambda>i. tx_bind (?audits i) (\<lambda>_. tx_return (Commit i))))" for d c
  obtain x d where t: "newSecret env tb = Inr (x, d)"
    using assms by (cases "newSecret env tb") (auto simp: createSession_def)
  obtain y c where cs: "newSecret env cb = Inr (y, c)"
    using assms t by (cases "newSecret env cb") (auto simp: createSession_def)
  have dig: "d = digestSecret env x" "c = digestSecret env y"
    using t cs by (auto simp: newSecret_def Let_def split: option.splits)
  have body: "createSession env options tb cb cred now source requestID w = tx_bind (in_tx (K d c)) (\<lambda>i.
      tx_bind (user_roles_query (cd_UserID cred)) (\<lambda>(roles, permissions).
      tx_return \<lparr> se_ID = i, se_Token = x, se_CSRFToken = y, se_CSRFDigest = c,
        se_User = \<lparr> ur_ID = cd_UserID cred, ur_Username = cd_Username cred, ur_DisplayName = cd_DisplayName cred,
          ur_Roles = roles, ur_Permissions = permissions \<rparr>,
        se_ExpiresAt = now + op_SessionIdle options, se_AbsoluteExpiry = now + op_SessionAbsolute options \<rparr>)) w"
    by (simp add: createSession_def t cs K_def Let_def)
  from assms [unfolded body] obtain i w1 where tx: "in_tx (K d c) w = (Inr i, w1)" and w': "w' = tick w1"
    and s: "se_ID s = i" "se_Token s = x" "se_CSRFToken s = y" "se_CSRFDigest s = c" "ur_ID (se_User s) = cd_UserID cred"
    by (auto simp: tx_bind_Inr user_roles_query_def tx_query_Inr)
  from tx obtain w2 w3 w4 where ins: "insertSession env (cd_UserID cred) d c source now
      (now + op_SessionIdle options) (now + op_SessionAbsolute options) w2 = (Inr i, w3)"
    and w2: "session_context (w_tables w2) = session_context (w_tables w)" "w_uuid w2 = w_uuid w"
    and aud: "?audits i w3 = (Inr (), w4)" and w1: "w1 = tick w4"
    by (auto simp: K_def in_tx_Inr tx_bind_Inr tx_exec_Inr session_context_def)
  have "keeps session_context (?audits i)" by (intro frame_intros context_insertAudit)
  from keepsD [OF this aud] have ctx: "session_context (w_tables w4) = session_context (w_tables w3)" .
  have "throughout supply_grows (?audits i)"
    unfolding insertAudit_def by (intro drawing.for_loop drawing.insert) (simp add: supply_grows_def)
  from throughoutD [OF this aud] have "w_next w3 \<le> w_next w4" by (simp add: supply_grows_def)
  with insertSession_Inr [OF ins] ctx w2 w1 w' s t cs dig show ?thesis
    by (intro exI [of _ d] exI [of _ "w_clock w2"]) (auto simp: session_context_def intro!: exI [of _ "w_next w2"])
qed

section \<open>The life of a session\<close>

lemma Authenticate_effect:
  assumes "Authenticate env options now tok w = (Inr s, w')"
  shows "sessions_of w' = update_where (authenticates env tok (truncate_us now) (w_tables w))
      (extend_session (truncate_us now) (truncate_us (now + op_SessionIdle options))) (sessions_of w)
    \<and> t_users (w_tables w') = t_users (w_tables w)"
proof -
  define T where "T = touchSession env tok (truncate_us now) (truncate_us (now + op_SessionIdle options))"
  from assms have "tok \<noteq> ''''" by (auto simp: Authenticate_def)
  with assms obtain x w1 where t: "T w = (Inr x, w1)" and w': "w_tables w' = w_tables w1"
    unfolding Authenticate_def T_def [symmetric]
    by (auto simp: tx_bind_Inr user_roles_query_def tx_query_Inr split: option.splits)
  from t w' show ?thesis by (auto simp: T_def touchSession_def tx_affect_Inr Let_def)
qed

lemma authenticates_earlier:
  assumes "authenticates env tok now2 t r" and "now \<le> now2"
  shows "authenticates env tok now t r"
  using assms by (auto simp: authenticates_def session_live_def)

text \<open>A row that authenticates after a use was extended by that use.\<close>

lemma idle_bound:
  assumes auth: "Authenticate env options now tok w = (Inr s, w')" and later: "now \<le> now2"
    and again: "Authenticate env options now2 tok w' = (Inr s2, w2)"
  shows "truncate_us now2 < truncate_us (now + op_SessionIdle options)"
proof -
  let ?p = "authenticates env tok (truncate_us now) (w_tables w)"
  let ?f = "extend_session (truncate_us now) (truncate_us (now + op_SessionIdle options))"
  have eff: "sessions_of w' = update_where ?p ?f (sessions_of w)" "t_users (w_tables w') = t_users (w_tables w)"
    using Authenticate_effect [OF auth] by simp_all
  obtain r where r: "r \<in> set (sessions_of w')" "authenticates env tok (truncate_us now2) (w_tables w') r"
    using Authenticate_Inr [OF again] by blast
  then obtain r0 where r0: "r0 \<in> set (sessions_of w)" "r = (if ?p r0 then ?f r0 else r0)"
    by (auto simp: eff(1) set_update_where)
  have "?p r0"
  proof (rule ccontr)
    assume n: "\<not> ?p r0"
    then have "r = r0" using r0(2) by simp
    then have "authenticates env tok (truncate_us now2) (w_tables w) r0"
      using r(2) by (simp add: authenticates_def session_user_def eff(2))
    with n authenticates_earlier truncate_us_mono [OF later] show False by blast
  qed
  then have "ss_expires_at r \<le> truncate_us (now + op_SessionIdle options)" using r0(2) by (simp add: extend_session_def)
  moreover have "truncate_us now2 < ss_expires_at r" using r(2) by (simp add: authenticates_def session_live_def)
  ultimately show ?thesis by simp
qed

text \<open>
  C18. Session lifetime: no activity carries a session beyond its absolute expiry, counted from the
  login that created it, whatever happens in between; each use extends it to at most the idle
  timeout from that use and never past the absolute expiry; and after an idle timeout without use
  the token is refused.
\<close>

theorem session_lifetime:
  assumes created: "createSession env options tb cb cred now0 source requestID w0 = (Inr s0, as_world st)"
    and drawn: "ids_drawn w0"
    and run: "(auth_step env sv permitted)\<^sup>*\<^sup>* st st'"
    and auth: "Authenticate env options now tok (as_world st') = (Inr s, w')"
  shows "(se_ID s = se_ID s0 \<longrightarrow> truncate_us now < truncate_us (now0 + op_SessionAbsolute options)
      \<and> se_AbsoluteExpiry s = truncate_us (now0 + op_SessionAbsolute options))
    \<and> se_ExpiresAt s \<le> truncate_us (now + op_SessionIdle options) \<and> se_ExpiresAt s \<le> se_AbsoluteExpiry s
    \<and> (\<forall>now2 s2 w2. now \<le> now2 \<longrightarrow> Authenticate env options now2 tok w' = (Inr s2, w2)
         \<longrightarrow> truncate_us now2 < truncate_us (now + op_SessionIdle options))"
proof -
  obtain r where r: "r \<in> set (sessions_of (as_world st'))" "authenticates env tok (truncate_us now) (w_tables (as_world st')) r"
    "se_ID s = ss_id r" "se_AbsoluteExpiry s = ss_absolute_expires_at r"
    "se_ExpiresAt s = min (truncate_us (now + op_SessionIdle options)) (ss_absolute_expires_at r)"
    using Authenticate_Inr [OF auth] by auto
  have "ss_absolute_expires_at r = truncate_us (now0 + op_SessionAbsolute options)" if same: "se_ID s = se_ID s0"
  proof -
    obtain row n where rows: "sessions_of (as_world st) = sessions_of w0 @ [row]"
      and row: "ss_id row = se_ID s0" "ss_absolute_expires_at row = truncate_us (now0 + op_SessionAbsolute options)"
      and fresh: "se_ID s0 \<notin> ss_id ` set (sessions_of w0)" and n: "se_ID s0 = w_uuid w0 n" "n < w_next (as_world st)"
      using createSession_Inr [OF created] by (auto simp: session_row_of_def)
    have uuid: "w_uuid (as_world st) = w_uuid w0"
      using throughoutD [OF evolve_createSession created] by (simp add: sessions_evolve_def supply_grows_def)
    have "\<exists>s1 \<in> set (sessions_of (as_world st)). continues s1 r"
      by (rule drawn_session_continues [OF _ auth_run_evolves [OF run] r(1) n(2)])
        (use drawn uuid n(1) same r(3) in \<open>simp_all add: ids_drawn_def\<close>)
    then obtain s1 where s1: "s1 \<in> set (sessions_of (as_world st))" "continues s1 r" by blast
    have "ss_id s1 = se_ID s0" using s1(2) same r(3) by (simp add: continues_def)
    with s1(1) rows fresh have "s1 = row" by (auto simp: image_iff)
    with s1(2) row(2) show ?thesis by (simp add: continues_def)
  qed
  moreover have "truncate_us now < ss_absolute_expires_at r" using r(2) by (simp add: authenticates_def session_live_def)
  ultimately show ?thesis using r(4,5) idle_bound [OF auth] by auto
qed

lemma sample_ids_drawn: "ids_drawn sampleAccounts"
  by (simp add: ids_drawn_def sampleAccounts_def inj_decimal empty_tables_def)

lemma sample_authenticate_first:
  "\<exists>s w'. Authenticate sampleEnv DefaultOptions 7000 ''YWJj'' sampleLoggedIn = (Inr s, w') \<and> se_ID s = ''0''"
  by (simp add: Authenticate_def touchSession_def authenticates_def session_live_def session_user_def digestSecret_def
      extend_session_def user_roles_query_def sample_session_created(2-) sample_env_simps sampleStored_def truncate_us_def microsecond_def
      tx_eval cong: tx_frozen)

theorem session_lifetime_witness:
  "\<exists>s w'. Authenticate sampleEnv DefaultOptions 7000 ''YWJj'' sampleLoggedIn = (Inr s, w')
     \<and> se_AbsoluteExpiry s = truncate_us (6000 + op_SessionAbsolute DefaultOptions)
     \<and> se_ExpiresAt s \<le> truncate_us (7000 + op_SessionIdle DefaultOptions)"
proof -
  obtain s w' where auth: "Authenticate sampleEnv DefaultOptions 7000 ''YWJj'' sampleLoggedIn = (Inr s, w')" "se_ID s = ''0''"
    using sample_authenticate_first by blast
  have created: "createSession sampleEnv DefaultOptions (Some ''abc'') (Some ''def'') sampleChecked 6000 ''here'' ''req'' sampleAccounts
      = (Inr sampleSession, as_world (sampleState sampleLoggedIn 0 0))"
    using sample_session_created(1) by (simp add: sampleState_def)
  have "Authenticate sampleEnv DefaultOptions 7000 ''YWJj'' (as_world (sampleState sampleLoggedIn 0 0)) = (Inr s, w')"
    using auth(1) by (simp add: sampleState_def)
  from session_lifetime [OF created sample_ids_drawn rtranclp.rtrancl_refl this] auth show ?thesis
    by (auto simp: sampleSession_def)
qed

end
