(* ===== verification/Auth_Login.thy ===== *)
theory Auth_Login
  imports Auth_Safety
begin

text \<open>
  The decision of \<open>Login\<close>: what a successful login has shown, what its session is good for, and
  when failures lock an account.
\<close>

section \<open>The account behind a user name\<close>

definition account :: "auth_env \<Rightarrow> string \<Rightarrow> tables \<Rightarrow> (user_row \<times> credential_row) option" where
  "account env username t = Option.bind
     (List.find (\<lambda>u. en_lower env (us_username u) = en_lower env username \<and> us_identity_provider u = ''local''
        \<and> us_id u \<in> cr_user_id ` set (t_credentials t)) (t_users t)) (\<lambda>u.
     map_option (Pair u) (find_row cr_user_id (us_id u) (t_credentials t)))"

definition view_account :: "user_row \<times> credential_row \<Rightarrow> credential" where
  "view_account a = \<lparr> cd_UserID = us_id (fst a), cd_Username = us_username (fst a), cd_DisplayName = us_display_name (fst a),
     cd_Enabled = us_enabled (fst a), cd_PasswordHash = cr_password_hash (snd a), cd_LockedUntil = cr_locked_until (snd a) \<rparr>"

lemma find_credential_account: "find_credential env username t = map_option view_account (account env username t)"
  by (simp add: find_credential_def account_def map_option_bind comp_def option.map_comp view_account_def)

lemma account_member: "account env username t = Some (u, c) \<Longrightarrow> u \<in> set (t_users t) \<and> cr_user_id c = us_id u"
  by (auto simp: account_def bind_eq_Some_conv dest: find_SomeD find_row_SomeD)

lemma login_check_Inr:
  "login_check env options username password source requestID now w = (Inr cred, w') \<longleftrightarrow>
     \<not> faulty w \<and> w' = tick w \<and> find_credential env username (w_tables w) = Some cred
     \<and> Verify (en_argon2 env) password (cd_PasswordHash cred) = Inr True \<and> cd_Enabled cred \<and> \<not> locked_at now cred"
  by (auto simp: login_check_def credential_query_def tx_bind_query_Inr tx_bind_Inr [of "insertAudit _ _"]
      tx_bind_Inr [of "if _ then _ else _"] split: option.splits sum.splits if_splits)

section \<open>Lockout\<close>

definition fail_row :: "auth_options \<Rightarrow> time \<Rightarrow> credential_row \<Rightarrow> credential_row" where
  "fail_row options now r = r\<lparr> cr_failed_attempts := cr_failed_attempts r + 1,
     cr_locked_until := (if op_FailureLimit options \<le> cr_failed_attempts r + 1
       then Some (truncate_us (now + op_LockoutDuration options)) else cr_locked_until r) \<rparr>"

lemma fail_row_simps [simp]: "cr_user_id (fail_row options now r) = cr_user_id r"
  "cr_password_hash (fail_row options now r) = cr_password_hash r"
  "cr_failed_attempts (fail_row options now r) = cr_failed_attempts r + 1"
  by (simp_all add: fail_row_def)

lemma account_fail_row:
  assumes "account env name t = Some (u, row)"
  shows "account env name (t\<lparr>t_credentials := update_where (\<lambda>r. cr_user_id r = us_id u) (fail_row options now) (t_credentials t)\<rparr>)
    = Some (u, fail_row options now row)"
proof -
  let ?rows = "update_where (\<lambda>r. cr_user_id r = us_id u) (fail_row options now) (t_credentials t)"
  have ids: "cr_user_id ` set ?rows = cr_user_id ` set (t_credentials t)"
    by (metis (no_types, lifting) fail_row_simps(1) map_update_where set_map)
  have row: "find_row cr_user_id (us_id u) (t_credentials t) = Some row" "cr_user_id row = us_id u"
    using assms account_member [OF assms] by (auto simp: account_def bind_eq_Some_conv)
  have "find_row cr_user_id (us_id u) ?rows = Some (fail_row options now row)"
    by (subst find_row_update_where) (simp_all add: row)
  with assms show ?thesis by (auto simp: account_def ids bind_eq_Some_conv)
qed

lemma account_audit: "account env name (t\<lparr>t_audit := x\<rparr>) = account env name t"
  by (simp add: account_def)

lemma insertAudit_frame:
  assumes "w_faults w = []"
  shows "w_faults (snd (insertAudit env e w)) = []"
    and "\<exists>x. w_tables (snd (insertAudit env e w)) = (w_tables w)\<lparr>t_audit := x\<rparr>"
proof -
  show "w_faults (snd (insertAudit env e w)) = []"
    using assms by (simp add: insertAudit_def tx_insert_run split: sum.splits if_splits)
  have "w_tables (snd (insertAudit env e w)) = w_tables w
    \<or> w_tables (snd (insertAudit env e w)) = (w_tables w)\<lparr>t_audit := t_audit (w_tables w) @ [auditArguments env e (w_uuid w (w_next w)) (w_clock w)]\<rparr>"
    using assms by (simp add: insertAudit_def tx_insert_run split: sum.splits if_splits)
  moreover have "w_tables w = (w_tables w)\<lparr>t_audit := t_audit (w_tables w)\<rparr>" by simp
  ultimately show "\<exists>x. w_tables (snd (insertAudit env e w)) = (w_tables w)\<lparr>t_audit := x\<rparr>" by metis
qed

lemma snd_bind_fail: "snd (tx_bind m (\<lambda>_. tx_fail e) w) = snd (m w)"
  by (simp add: tx_bind_def split: prod.splits sum.splits)

text \<open>One wrong password on an account that is not locked.\<close>

lemma wrong_password:
  assumes "w_faults w = []" and acc: "account env name (w_tables w) = Some (u, row)"
    and "Verify (en_argon2 env) p (cr_password_hash row) = Inr False" and "cr_locked_until row = None"
  shows "w_faults (snd (login_check env options name p source requestID now w)) = []
    \<and> account env name (w_tables (snd (login_check env options name p source requestID now w))) = Some (u, fail_row options now row)"
proof -
  let ?w1 = "w\<lparr>w_tables := (w_tables w)\<lparr>t_credentials := update_where (\<lambda>r. cr_user_id r = us_id u) (fail_row options now)
    (t_credentials (w_tables w))\<rparr>\<rparr>"
  let ?e = "plain_event '''' ''auth.login.failed'' ''user'' (us_id u) ''failed'' source requestID"
  have cred: "find_credential env name (w_tables w) = Some (view_account (u, row))"
    by (simp add: find_credential_account acc)
  have fail: "recordFailure options (us_id u) now w = (Inr (), ?w1)"
    using assms(1) by (simp add: recordFailure_def tx_exec_run fail_row_def [abs_def])
  have "login_check env options name p source requestID now w =
      tx_bind (insertAudit env ?e) (\<lambda>_. tx_fail ErrInvalidCredentials) ?w1"
    using assms by (simp add: login_check_def credential_query_def tx_bind_eval [of "tx_query _"] tx_query_run cred
        view_account_def locked_at_def tx_bind_run [where m = "recordFailure options (us_id u) now", OF fail])
  then have "snd (login_check env options name p source requestID now w) = snd (insertAudit env ?e ?w1)"
    by (simp add: snd_bind_fail)
  with insertAudit_frame [of ?w1 env ?e] assms(1) account_fail_row [OF acc, of options now] show ?thesis
    by (auto simp: account_audit)
qed

lemma sample_account: "account sampleEnv ''ada'' (w_tables sampleAccounts) = Some (sampleUser, sampleCredential)"
  by (simp add: account_def sampleAccounts_def sample_env_simps)

section \<open>What a login grants\<close>

lemma newSecret_nonempty: "newSecret env (Some (b # bs)) = Inr (raw, d) \<Longrightarrow> raw \<noteq> ''''"
  by (cases "map byte (b # bs)" rule: sextets.cases) (auto simp: newSecret_def Let_def EncodeToString_def)

lemma find_append_fresh: "(\<And>x. x \<in> set xs \<Longrightarrow> \<not> p x) \<Longrightarrow> p y \<Longrightarrow> List.find p (xs @ [y]) = Some y"
  by (induction xs) auto

lemma find_exists: "x \<in> set xs \<Longrightarrow> p x \<Longrightarrow> \<exists>y. List.find p xs = Some y \<and> y \<in> set xs \<and> p y"
  by (induction xs) auto

text \<open>A stored session authenticates while it is live and its user is enabled.\<close>

lemma Authenticate_stored:
  assumes faults: "w_faults w = []" and tok: "tok \<noteq> ''''"
    and rows: "sessions_of w = xs @ [r]" "digestSecret env tok \<notin> ss_token_digest ` set xs" "ss_token_digest r = digestSecret env tok"
    and live: "session_live (truncate_us now) r"
    and user: "u \<in> set (t_users (w_tables w))" "us_id u = ss_user_id r" "us_enabled u"
  shows "\<exists>s w'. Authenticate env options now tok w = (Inr s, w') \<and> se_ID s = ss_id r \<and> ur_ID (se_User s) = ss_user_id r
    \<and> se_CSRFDigest s = ss_csrf_digest r"
proof -
  let ?p = "authenticates env tok (truncate_us now) (w_tables w)"
  let ?f = "extend_session (truncate_us now) (truncate_us (now + op_SessionIdle options))"
  obtain v where v: "session_user (w_tables w) r = Some v" "us_id v = ss_user_id r"
    using find_exists [OF user(1), of "\<lambda>u. us_id u = ss_user_id r \<and> us_enabled u"] user(2,3) by (auto simp: session_user_def)
  have found: "List.find ?p (sessions_of w) = Some r"
    unfolding rows(1) by (rule find_append_fresh) (use rows(2,3) live v(1) in \<open>force simp: authenticates_def\<close>)+
  let ?w1 = "w\<lparr>w_tables := (w_tables w)\<lparr>t_sessions := update_where ?p ?f (sessions_of w)\<rparr>\<rparr>"
  have touch: "touchSession env tok (truncate_us now) (truncate_us (now + op_SessionIdle options)) w = (Inr (Some (?f r, v)), ?w1)"
    using faults by (simp add: touchSession_def tx_affect_run Let_def found v(1))
  have "w_faults ?w1 = []" using faults by simp
  then show ?thesis
    using tok v(2) by (simp add: Authenticate_def tx_bind_run [where m = "touchSession env tok (truncate_us now) (truncate_us (now + op_SessionIdle options))", OF touch] user_roles_query_def tx_bind_eval [of "tx_query _"]
        tx_query_run extend_session_def)
qed

text \<open>
  C33. Login: a session is handed out only when the limiter allowed the source and the name belongs
  to an enabled account that is not locked and whose stored hash verifies the password; and while
  the session has not been idle for the timeout its token authenticates as that user, with the
  CSRF token that came with it.
\<close>

theorem login_grants_session:
  assumes login: "Login env options limiter (Some (b # bs)) (Some (c # cs)) username password source requestID now = (limiter', m)"
    and run: "m w = (Inr s, w')" and faults: "w_faults w' = []"
    and later: "truncate_us now2 < truncate_us (now + op_SessionIdle options)"
  shows "fst (Allow limiter source now)
    \<and> (\<exists>cred. find_credential env (NormalizeUsername env username) (w_tables w) = Some cred
         \<and> Verify (en_argon2 env) password (cd_PasswordHash cred) = Inr True
         \<and> cd_Enabled cred \<and> \<not> locked_at now cred \<and> ur_ID (se_User s) = cd_UserID cred)
    \<and> (\<exists>s2 w2. Authenticate env options now2 (se_Token s) w' = (Inr s2, w2) \<and> se_ID s2 = se_ID s
         \<and> ur_ID (se_User s2) = ur_ID (se_User s) \<and> VerifyCSRF env s2 (se_CSRFToken s))"
proof -
  have allowed: "fst (Allow limiter source now)"
    using login run by (cases "fst (Allow limiter source now)") (auto simp: Login_def split: prod.splits)
  define create where "create cred = createSession env options (Some (b # bs)) (Some (c # cs)) cred now source requestID" for cred
  have m: "m = tx_bind (login_check env options (NormalizeUsername env username) password source requestID now) create"
    using login allowed by (auto simp: Login_def create_def [abs_def] split: prod.splits)
  from run obtain cred w1 where check: "login_check env options (NormalizeUsername env username) password source requestID now w = (Inr cred, w1)"
    and created: "create cred w1 = (Inr s, w')"
    unfolding m by (auto simp: tx_bind_Inr)
  have ok: "find_credential env (NormalizeUsername env username) (w_tables w) = Some cred" "w_tables w1 = w_tables w"
    "Verify (en_argon2 env) password (cd_PasswordHash cred) = Inr True" "cd_Enabled cred" "\<not> locked_at now cred"
    using check by (simp_all add: login_check_Inr)
  obtain d cl where cr: "newSecret env (Some (b # bs)) = Inr (se_Token s, d)" "newSecret env (Some (c # cs)) = Inr (se_CSRFToken s, se_CSRFDigest s)"
    "se_CSRFDigest s = digestSecret env (se_CSRFToken s)" "d = digestSecret env (se_Token s)" "ur_ID (se_User s) = cd_UserID cred"
    "sessions_of w' = sessions_of w1 @ [session_row_of env options (se_ID s) (cd_UserID cred) d (se_CSRFDigest s) source now cl]"
    "t_users (w_tables w') = t_users (w_tables w1)" "d \<notin> ss_token_digest ` set (sessions_of w1)"
    "truncate_us (now + op_SessionIdle options) \<le> truncate_us (now + op_SessionAbsolute options)"
    using createSession_Inr [OF created [unfolded create_def]] by blast
  obtain u where u: "u \<in> set (t_users (w_tables w))" "us_id u = cd_UserID cred" "us_enabled u"
    using ok(1,4) by (auto simp: find_credential_account view_account_def dest: account_member)
  let ?r = "session_row_of env options (se_ID s) (cd_UserID cred) d (se_CSRFDigest s) source now cl"
  have "\<exists>s2 w2. Authenticate env options now2 (se_Token s) w' = (Inr s2, w2) \<and> se_ID s2 = ss_id ?r
      \<and> ur_ID (se_User s2) = ss_user_id ?r \<and> se_CSRFDigest s2 = ss_csrf_digest ?r"
    by (rule Authenticate_stored [OF faults newSecret_nonempty [OF cr(1)] cr(6), of env now2 u options])
      (use cr(4,7,8,9) ok(2) u later in \<open>simp_all add: session_row_of_def session_live_def\<close>)
  then obtain s2 w2 where "Authenticate env options now2 (se_Token s) w' = (Inr s2, w2)" "se_ID s2 = se_ID s"
    "ur_ID (se_User s2) = cd_UserID cred" "se_CSRFDigest s2 = se_CSRFDigest s"
    by (auto simp: session_row_of_def)
  moreover from this have "VerifyCSRF env s2 (se_CSRFToken s)"
    using newSecret_nonempty [OF cr(2)] cr(3) by (simp add: VerifyCSRF_def)
  ultimately show ?thesis using allowed ok cr(5) by auto
qed

lemma sample_login:
  "Login sampleEnv DefaultOptions (sampleLimiter 0) (Some ''abc'') (Some ''def'') ''ada'' samplePassword ''here'' ''req'' 6000 =
     (sampleLimiter 1, tx_bind (login_check sampleEnv DefaultOptions ''ada'' samplePassword ''here'' ''req'' 6000)
       (\<lambda>cred. createSession sampleEnv DefaultOptions (Some ''abc'') (Some ''def'') cred 6000 ''here'' ''req''))"
  by (simp add: Login_def sample_allow sample_normalize)

theorem login_grants_session_witness:
  "\<exists>s2 w2. Authenticate sampleEnv DefaultOptions 1000000 (se_Token sampleSession) sampleLoggedIn = (Inr s2, w2)
     \<and> se_ID s2 = se_ID sampleSession \<and> VerifyCSRF sampleEnv s2 (se_CSRFToken sampleSession)"
proof -
  have "(tx_bind (login_check sampleEnv DefaultOptions ''ada'' samplePassword ''here'' ''req'' 6000)
       (\<lambda>cred. createSession sampleEnv DefaultOptions (Some ''abc'') (Some ''def'') cred 6000 ''here'' ''req'')) sampleAccounts
     = (Inr sampleSession, sampleLoggedIn)"
    using sample_session_created(1) by (simp add: tx_bind_eval [of "login_check _ _ _ _ _ _ _"] sample_login_check)
  from login_grants_session [OF sample_login this, of 1000000] sample_session_created(7) show ?thesis
    by (auto simp: truncate_us_def microsecond_def DefaultOptions_fields)
qed

end
