(* ===== verification/Auth_Lockout.thy ===== *)
theory Auth_Lockout
  imports Auth_Login
begin

text \<open>
  How long a lockout lasts. The steps of a login are taken apart here: a login reads the account,
  decides on what it read (and records a failure), and creates its session in a third step, and
  the steps of any number of logins interleave with each other, with the other operations of the
  service and with work elsewhere, under every failure of a statement.
\<close>

section \<open>Logins in three steps\<close>

definition login_decide ::
  "auth_env \<Rightarrow> auth_options \<Rightarrow> string \<Rightarrow> string \<Rightarrow> string \<Rightarrow> string \<Rightarrow> time \<Rightarrow> credential option \<Rightarrow> credential tx" where
  "login_decide env options username password source requestID now found =
     (case found of
       None \<Rightarrow> tx_bind (insertAudit env (plain_event '''' ''auth.login.failed'' ''login_identity'' username ''failed''
           source requestID)) (\<lambda>_. tx_fail ErrInvalidCredentials)
     | Some cred \<Rightarrow> (case Verify (en_argon2 env) password (cd_PasswordHash cred) of
         Inl _ \<Rightarrow> tx_fail (ErrText ''verify stored credential'')
       | Inr valid \<Rightarrow>
           if \<not> valid \<or> \<not> cd_Enabled cred \<or> locked_at now cred then
             tx_bind (if \<not> valid \<and> \<not> locked_at now cred then recordFailure options (cd_UserID cred) now
                 else tx_return ()) (\<lambda>_.
             tx_bind (insertAudit env (plain_event '''' ''auth.login.failed'' ''user'' (cd_UserID cred) ''failed''
               source requestID)) (\<lambda>_. tx_fail ErrInvalidCredentials))
           else tx_return cred))"

lemma login_check_steps:
  "login_check env options username password source requestID now =
     tx_bind (credential_query env username) (login_decide env options username password source requestID now)"
  by (simp add: login_check_def login_decide_def [abs_def])

record flight =
  fl_found :: "credential option"
  fl_username :: string
  fl_password :: string
  fl_source :: string
  fl_request :: string
  fl_now :: time

record login_state =
  ls_world :: world
  ls_limiter :: limiter
  ls_flights :: "flight list"
  ls_pending :: "(credential \<times> time \<times> string \<times> string) list"

datatype login_event =
    LoginRead string string string string time
  | LoginDecide flight
  | LoginCreate credential
  | LoginOperation auth_op
  | LoginElsewhere

inductive login_step :: "auth_env \<Rightarrow> auth_service \<Rightarrow> login_event \<Rightarrow> login_state \<Rightarrow> login_state \<Rightarrow> bool"
  for env :: auth_env and sv :: auth_service where
  limited: "Allow (ls_limiter st) source now = (False, l) \<Longrightarrow>
    login_step env sv (LoginRead username password source requestID now) st (st\<lparr>ls_limiter := l\<rparr>)"
| unread: "Allow (ls_limiter st) source now = (True, l) \<Longrightarrow>
    credential_query env (NormalizeUsername env username) (ls_world st) = (Inl e, w) \<Longrightarrow>
    login_step env sv (LoginRead username password source requestID now) st (st\<lparr>ls_world := w, ls_limiter := l\<rparr>)"
| read: "Allow (ls_limiter st) source now = (True, l) \<Longrightarrow>
    credential_query env (NormalizeUsername env username) (ls_world st) = (Inr found, w) \<Longrightarrow>
    login_step env sv (LoginRead username password source requestID now) st
      (st\<lparr>ls_world := w, ls_limiter := l, ls_flights := \<lparr> fl_found = found, fl_username = NormalizeUsername env username,
         fl_password = password, fl_source = source, fl_request = requestID, fl_now = now \<rparr> # ls_flights st\<rparr>)"
| refused: "f \<in> set (ls_flights st) \<Longrightarrow>
    login_decide env (sv_options sv) (fl_username f) (fl_password f) (fl_source f) (fl_request f) (fl_now f) (fl_found f)
      (ls_world st) = (Inl e, w) \<Longrightarrow>
    login_step env sv (LoginDecide f) st (st\<lparr>ls_world := w, ls_flights := remove1 f (ls_flights st)\<rparr>)"
| checked: "f \<in> set (ls_flights st) \<Longrightarrow>
    login_decide env (sv_options sv) (fl_username f) (fl_password f) (fl_source f) (fl_request f) (fl_now f) (fl_found f)
      (ls_world st) = (Inr cred, w) \<Longrightarrow>
    login_step env sv (LoginDecide f) st (st\<lparr>ls_world := w, ls_flights := remove1 f (ls_flights st),
      ls_pending := (cred, fl_now f, fl_source f, fl_request f) # ls_pending st\<rparr>)"
| created: "(cred, now, source, requestID) \<in> set (ls_pending st) \<Longrightarrow>
    createSession env (sv_options sv) tokenBytes csrfBytes cred now source requestID (ls_world st) = (r, w) \<Longrightarrow>
    login_step env sv (LoginCreate cred) st
      (st\<lparr>ls_world := w, ls_pending := remove1 (cred, now, source, requestID) (ls_pending st)\<rparr>)"
| operation: "login_step env sv (LoginOperation x) st (st\<lparr>ls_world := perform env sv x (ls_world st)\<rparr>)"
| elsewhere: "auth_tables (w_tables w) = auth_tables (w_tables (ls_world st)) \<Longrightarrow>
    login_step env sv LoginElsewhere st (st\<lparr>ls_world := w\<rparr>)"

section \<open>A locked account\<close>

definition locked_account :: "string \<Rightarrow> time \<Rightarrow> int \<Rightarrow> tables \<Rightarrow> bool" where
  "locked_account i until limit t \<longleftrightarrow> (case find_row cr_user_id i (t_credentials t) of
      None \<Rightarrow> False
    | Some r \<Rightarrow> limit \<le> cr_failed_attempts r
        \<and> (case cr_locked_until r of None \<Rightarrow> False | Some x \<Rightarrow> until \<le> x))"

definition lock_kept :: "string \<Rightarrow> time \<Rightarrow> int \<Rightarrow> world \<Rightarrow> world \<Rightarrow> bool" where
  "lock_kept i until limit w w' \<longleftrightarrow>
     (locked_account i until limit (w_tables w) \<longrightarrow> locked_account i until limit (w_tables w'))"

interpretation lock: world_relation "lock_kept i until limit" for i until limit
  by unfold_locales (auto simp: lock_kept_def)

named_theorems lock_intros

lemmas lock_composition [lock_intros] = lock.composition

lemma lock_kept_same: "t_credentials (w_tables w') = t_credentials (w_tables w) \<Longrightarrow> lock_kept i until limit w w'"
  by (simp add: lock_kept_def locked_account_def)

lemma lock_exec: "(\<And>t. t_credentials (f t) = t_credentials t) \<Longrightarrow> throughout (lock_kept i until limit) (tx_exec f)"
  by (rule lock.exec, rule lock_kept_same) simp

lemma lock_clocked:
  "(\<And>c t. t_credentials (snd (f c t)) = t_credentials t) \<Longrightarrow> throughout (lock_kept i until limit) (tx_clocked f)"
  by (rule lock.clocked, rule lock_kept_same) simp

lemma lock_affect:
  "(\<And>t. t_credentials (snd (f t)) = t_credentials t) \<Longrightarrow> throughout (lock_kept i until limit) (tx_affect f)"
  by (rule lock.affect, rule lock_kept_same) simp

lemma lock_insert:
  "(\<And>u c t x t'. f u c t = Inr (x, t') \<Longrightarrow> t_credentials t' = t_credentials t) \<Longrightarrow>
   throughout (lock_kept i until limit) (tx_insert f)"
  by (rule lock.insert, rule lock_kept_same) auto

text \<open>Updates of the credential of another user, and a new credential.\<close>

lemma locked_other_row:
  assumes "locked_account i until limit t" and "j \<noteq> i" and "\<And>r. cr_user_id (f r) = cr_user_id r"
  shows "locked_account i until limit (t\<lparr>t_credentials := update_where (\<lambda>r. cr_user_id r = j) f (t_credentials t)\<rparr>)"
  using assms
  by (auto simp: locked_account_def find_row_update_where split: option.splits dest: find_row_SomeD)

lemma lock_resetCredential: "j \<noteq> i \<Longrightarrow> throughout (lock_kept i until limit) (resetCredential j h)"
  unfolding resetCredential_def Let_def
  by (rule lock.clocked) (simp add: lock_kept_def locked_other_row)

lemma lock_insertCredential [lock_intros]: "throughout (lock_kept i until limit) (insertCredential a b)"
  unfolding insertCredential_def
  by (rule lock.insert)
    (auto simp: lock_kept_def locked_account_def find_row_append split: if_splits option.splits)

lemma lock_insertAudit [lock_intros]: "throughout (lock_kept i until limit) (insertAudit env e)"
  unfolding insertAudit_def by (rule lock_insert) (auto split: if_splits)

lemma lock_insertUser [lock_intros]: "throughout (lock_kept i until limit) (insertUser env a b c)"
  unfolding insertUser_def by (rule lock_insert) (auto simp: Let_def split: if_splits)

lemma lock_insertBootstrapUser [lock_intros]: "throughout (lock_kept i until limit) (insertBootstrapUser env a)"
  unfolding insertBootstrapUser_def by (rule lock_insert) (auto split: if_splits)

lemma lock_insertUserRole [lock_intros]: "throughout (lock_kept i until limit) (insertUserRole a b)"
  unfolding insertUserRole_def by (rule lock_insert) (auto split: if_splits)

lemma lock_role_by_name [lock_intros]: "throughout (lock_kept i until limit) (role_by_name n)"
  unfolding role_by_name_def by (rule lock.query)

lemma lock_localUserID [lock_intros]: "throughout (lock_kept i until limit) (localUserID env n)"
  unfolding localUserID_def by (intro lock_intros)

lemma lock_replaceRole [lock_intros]: "throughout (lock_kept i until limit) (replaceRole a b)"
  unfolding replaceRole_def by (intro lock_intros lock_exec) simp

lemma lock_updateUserRow [lock_intros]: "throughout (lock_kept i until limit) (updateUserRow a b c)"
  unfolding updateUserRow_def by (rule lock_clocked) (simp add: Let_def)

lemma lock_revokeSessions [lock_intros]: "throughout (lock_kept i until limit) (revokeSessions p)"
  unfolding revokeSessions_def by (rule lock_clocked) (simp add: Let_def)

lemma lock_touchSession [lock_intros]: "throughout (lock_kept i until limit) (touchSession env a b c)"
  unfolding touchSession_def by (rule lock_affect) (simp add: Let_def)

lemma lock_rotateRow [lock_intros]: "throughout (lock_kept i until limit) (rotateRow s a b c)"
  unfolding rotateRow_def by (rule lock_insert) (auto simp: Let_def split: if_splits)

lemma lock_insertSession [lock_intros]: "throughout (lock_kept i until limit) (insertSession env a b c d e f g)"
  unfolding insertSession_def by (rule lock_insert) (auto split: if_splits)

section \<open>Operations\<close>

lemma lock_BootstrapAdmin: "throughout (lock_kept i until limit) (BootstrapAdmin env sv a b c d e)"
  unfolding BootstrapAdmin_def Let_def by (intro lock_intros lock_exec) simp

lemma lock_CreateManagedUser: "throughout (lock_kept i until limit) (CreateManagedUser env sv a b)"
  unfolding CreateManagedUser_def Let_def by (intro lock_intros)

lemma lock_UpdateManagedUser: "throughout (lock_kept i until limit) (UpdateManagedUser env a)"
  unfolding UpdateManagedUser_def applyManagedUpdate_def checkManagedUpdate_def keepsAdministrator_def Let_def
  by (intro lock_intros)

lemma lock_ResetManagedUserPassword:
  "rp_ID b \<noteq> i \<Longrightarrow> throughout (lock_kept i until limit) (ResetManagedUserPassword env sv a b)"
  unfolding ResetManagedUserPassword_def by (intro lock_intros lock_resetCredential)

lemma lock_CreateLocalUser: "throughout (lock_kept i until limit) (CreateLocalUser env sv a b c d e)"
  unfolding CreateLocalUser_def Let_def by (intro lock_intros)

lemma lock_AssignRole: "throughout (lock_kept i until limit) (AssignRole env a b c)"
  unfolding AssignRole_def Let_def by (intro lock_intros)

lemma lock_SetLocalUserEnabled: "throughout (lock_kept i until limit) (SetLocalUserEnabled env a b c)"
  unfolding SetLocalUserEnabled_def Let_def by (intro lock_intros lock_clocked) simp

lemma lock_Authenticate: "throughout (lock_kept i until limit) (Authenticate env opts a b)"
  unfolding Authenticate_def user_roles_query_def by (intro lock_intros)

lemma lock_Logout: "throughout (lock_kept i until limit) (Logout env a b c)"
  unfolding Logout_def by (intro lock_intros)

lemma lock_RotateSession: "throughout (lock_kept i until limit) (RotateSession env a b c d e f)"
  unfolding RotateSession_def by (intro lock_intros)

lemma lock_RevokeUserSessions: "throughout (lock_kept i until limit) (RevokeUserSessions env a b c d)"
  unfolding RevokeUserSessions_def by (intro lock_intros)

lemma lock_RecordDenied: "throughout (lock_kept i until limit) (RecordDenied env a b c d)"
  unfolding RecordDenied_def by (intro lock_intros)

lemma lock_DeleteExpiredSessions: "throughout (lock_kept i until limit) (DeleteExpiredSessions now)"
  unfolding DeleteExpiredSessions_def by (intro lock_exec) (simp add: Let_def)

lemma lock_createSession:
  "cd_UserID cred \<noteq> i \<Longrightarrow> throughout (lock_kept i until limit) (createSession env opts a b cred d e f)"
  unfolding createSession_def user_roles_query_def Let_def
  by (intro lock_intros lock.exec) (simp add: lock_kept_def locked_other_row)

lemma lock_transaction_at:
  assumes "lock_kept i until limit (tick w) (snd (body (tick w)))"
  shows "lock_kept i until limit w (snd (in_tx body w))"
  using assms by (auto simp: in_tx_def lock_kept_def split: prod.splits sum.splits outcome.splits)

lemma lock_bind_at:
  assumes "throughout (lock_kept i until limit) m"
    and "\<And>x w1. m w = (Inr x, w1) \<Longrightarrow> throughout (lock_kept i until limit) (k x)"
  shows "lock_kept i until limit w (snd (tx_bind m k w))"
proof -
  obtain r w1 where m: "m w = (r, w1)" by (cases "m w")
  then have first: "lock_kept i until limit w w1" by (rule throughoutD [OF assms(1)])
  show ?thesis
  proof (cases r)
    case (Inr x)
    with assms(2) m have "lock_kept i until limit w1 (snd (k x w1))" by (simp add: throughout_def)
    with first Inr m show ?thesis by (auto simp: tx_bind_def intro: lock.trans)
  qed (use first m in \<open>simp add: tx_bind_def\<close>)
qed

lemma lock_ResetLocalPassword:
  assumes "local_user env b (w_tables w) \<noteq> Some i"
  shows "lock_kept i until limit w (snd (ResetLocalPassword env sv a b c d w))"
proof (cases "hash_password env sv a c")
  case (Inl e)
  then show ?thesis by (simp add: ResetLocalPassword_def lock.refl)
next
  case (Inr h)
  show ?thesis
    unfolding ResetLocalPassword_def Let_def Inr sum.case
  proof (rule lock_transaction_at, rule lock_bind_at)
    fix j w1
    assume "localUserID env (NormalizeUsername env b) (tick w) = (Inr j, w1)"
    with assms have "j \<noteq> i" by (auto simp: localUserID_Inr)
    then show "throughout (lock_kept i until limit) (tx_bind (resetCredential j h) (\<lambda>n.
        if n \<noteq> 1 then tx_fail ErrUserNotFound
        else tx_bind (revokeSessions (\<lambda>s. ss_user_id s = j)) (\<lambda>_.
          tx_bind (insertAudit env (plain_event '''' ''auth.password.reset'' ''user'' j ''succeeded'' '''' d)) (\<lambda>_.
          tx_return (Commit ())))))"
      by (intro lock_intros lock_resetCredential)
  qed (rule lock_localUserID)
qed

text \<open>Whose password an operation sets anew: such an operation lifts the lock of that account.\<close>

fun password_reset :: "auth_env \<Rightarrow> auth_op \<Rightarrow> tables \<Rightarrow> string option" where
  "password_reset env (OpResetManagedUserPassword salt input) t = Some (rp_ID input)"
| "password_reset env (OpResetLocalPassword salt username password requestID) t = local_user env username t"
| "password_reset env _ t = None"

lemma lock_perform:
  assumes "password_reset env x (w_tables w) \<noteq> Some i"
  shows "lock_kept i until limit w (perform env sv x w)"
  using assms
  by (cases x) (simp_all add: throughout_def [symmetric] lock_ResetLocalPassword
      throughoutD [OF lock_ResetManagedUserPassword, OF _ prod.collapse [symmetric]]
      throughoutD [OF lock_BootstrapAdmin prod.collapse [symmetric]]
      throughoutD [OF lock_CreateManagedUser prod.collapse [symmetric]]
      throughoutD [OF lock_UpdateManagedUser prod.collapse [symmetric]]
      throughoutD [OF lock_CreateLocalUser prod.collapse [symmetric]]
      throughoutD [OF lock_AssignRole prod.collapse [symmetric]]
      throughoutD [OF lock_SetLocalUserEnabled prod.collapse [symmetric]]
      throughoutD [OF lock_Authenticate prod.collapse [symmetric]]
      throughoutD [OF lock_Logout prod.collapse [symmetric]]
      throughoutD [OF lock_RotateSession prod.collapse [symmetric]]
      throughoutD [OF lock_RevokeUserSessions prod.collapse [symmetric]]
      throughoutD [OF lock_RecordDenied prod.collapse [symmetric]]
      throughoutD [OF lock_DeleteExpiredSessions prod.collapse [symmetric]])

section \<open>Runs during a lockout\<close>

text \<open>
  A login of the locked user that was already under way is harmless when it has a wrong password
  and its failure locks the account at least as long.
\<close>

definition harmless :: "auth_env \<Rightarrow> auth_options \<Rightarrow> string \<Rightarrow> time \<Rightarrow> flight \<Rightarrow> bool" where
  "harmless env options i until f \<longleftrightarrow> (case fl_found f of
      None \<Rightarrow> True
    | Some cred \<Rightarrow> cd_UserID cred = i \<longrightarrow> locked_at (fl_now f) cred
        \<or> Verify (en_argon2 env) (fl_password f) (cd_PasswordHash cred) \<noteq> Inr True
          \<and> until \<le> truncate_us (fl_now f + op_LockoutDuration options))"

fun during :: "auth_env \<Rightarrow> string \<Rightarrow> time \<Rightarrow> login_event \<Rightarrow> login_state \<Rightarrow> bool" where
  "during env i until (LoginRead username password source requestID now) st \<longleftrightarrow> now < until"
| "during env i until (LoginOperation x) st \<longleftrightarrow> password_reset env x (w_tables (ls_world st)) \<noteq> Some i"
| "during env i until _ st \<longleftrightarrow> True"

definition lockout_step :: "auth_env \<Rightarrow> auth_service \<Rightarrow> string \<Rightarrow> time \<Rightarrow> login_state \<Rightarrow> login_state \<Rightarrow> bool" where
  "lockout_step env sv i until st st' \<longleftrightarrow> (\<exists>ev. login_step env sv ev st st' \<and> during env i until ev st)"

definition lockout_inv :: "auth_env \<Rightarrow> auth_service \<Rightarrow> string \<Rightarrow> time \<Rightarrow> login_state \<Rightarrow> bool" where
  "lockout_inv env sv i until st \<longleftrightarrow>
     locked_account i until (op_FailureLimit (sv_options sv)) (w_tables (ls_world st))
     \<and> (\<forall>f \<in> set (ls_flights st). harmless env (sv_options sv) i until f)
     \<and> (\<forall>p \<in> set (ls_pending st). cd_UserID (fst p) \<noteq> i)"

lemma find_credential_locked:
  assumes "find_credential env name t = Some cred" and "cd_UserID cred = i"
    and "locked_account i until limit t" and "now < until"
  shows "locked_at now cred"
  using assms
  by (auto simp: find_credential_def locked_account_def locked_at_def bind_eq_Some_conv split: option.splits)

lemma locked_fail_row:
  assumes "locked_account i until (op_FailureLimit options) t"
    and "i = j \<longrightarrow> until \<le> truncate_us (now + op_LockoutDuration options)"
  shows "locked_account i until (op_FailureLimit options)
    (t\<lparr>t_credentials := update_where (\<lambda>r. cr_user_id r = j) (fail_row options now) (t_credentials t)\<rparr>)"
proof (cases "j = i")
  case True
  with assms show ?thesis
    by (auto simp: locked_account_def find_row_update_where fail_row_def split: option.splits dest!: find_row_SomeD)
next
  case False
  with assms(1) show ?thesis by (intro locked_other_row) simp_all
qed

lemma lock_recordFailure:
  assumes "i = j \<longrightarrow> until \<le> truncate_us (now + op_LockoutDuration options)"
  shows "throughout (lock_kept i until (op_FailureLimit options)) (recordFailure options j now)"
  unfolding recordFailure_def fail_row_def [symmetric]
  by (rule lock.exec) (simp add: lock_kept_def locked_fail_row assms)

lemma lock_login_decide:
  assumes "harmless env options i until f"
  shows "throughout (lock_kept i until (op_FailureLimit options))
    (login_decide env options (fl_username f) (fl_password f) (fl_source f) (fl_request f) (fl_now f) (fl_found f))"
proof -
  have fail: "throughout (lock_kept i until (op_FailureLimit options))
      (if \<not> valid \<and> \<not> locked_at (fl_now f) cred then recordFailure options (cd_UserID cred) (fl_now f) else tx_return ())"
    if "fl_found f = Some cred" "Verify (en_argon2 env) (fl_password f) (cd_PasswordHash cred) = Inr valid" for cred valid
    using that assms by (auto simp: harmless_def intro!: lock_recordFailure lock.return)
  show ?thesis
  proof (cases "fl_found f")
    case None
    then show ?thesis unfolding login_decide_def by (simp only: option.case) (intro lock_intros)
  next
    case (Some cred)
    show ?thesis
    proof (cases "Verify (en_argon2 env) (fl_password f) (cd_PasswordHash cred)")
      case (Inl e)
      with Some show ?thesis unfolding login_decide_def by (simp only: option.case sum.case) (intro lock_intros)
    next
      case (Inr valid)
      show ?thesis
        unfolding login_decide_def Some option.case Inr sum.case
        by (rule lock.if_split, rule lock.bind, rule fail [OF Some Inr]) (intro lock_intros)+
    qed
  qed
qed

lemma login_decide_Inr:
  assumes "login_decide env options username password source requestID now found w = (Inr cred, w')"
  shows "found = Some cred \<and> Verify (en_argon2 env) password (cd_PasswordHash cred) = Inr True \<and> \<not> locked_at now cred"
  using assms by (auto simp: login_decide_def tx_bind_Inr [of "insertAudit _ _"] tx_bind_Inr [of "if _ then _ else _"]
      split: option.splits sum.splits if_splits)

lemma harmless_refused:
  assumes "harmless env options i until f"
    and "login_decide env options (fl_username f) (fl_password f) (fl_source f) (fl_request f) (fl_now f) (fl_found f) w = (Inr cred, w')"
  shows "cd_UserID cred \<noteq> i"
  using assms login_decide_Inr [OF assms(2)] by (auto simp: harmless_def)

lemma lockout_step_inv:
  assumes "login_step env sv ev st st'" and "during env i until ev st" and "lockout_inv env sv i until st"
  shows "lockout_inv env sv i until st'"
  using assms
proof (induction rule: login_step.induct)
  case (unread st source now l username e w password requestID)
  then have "w_tables w = w_tables (ls_world st)"
    by (auto simp: credential_query_def tx_query_def tx_stmt_def split: if_splits)
  with unread show ?case by (simp add: lockout_inv_def)
next
  case (read st source now l username found w password requestID)
  then have found: "found = find_credential env (NormalizeUsername env username) (w_tables (ls_world st))"
    and same: "w_tables w = w_tables (ls_world st)"
    by (auto simp: credential_query_def tx_query_Inr)
  have "locked_at now cred" if "found = Some cred" "cd_UserID cred = i" for cred
    by (rule find_credential_locked) (use that found read in \<open>auto simp: lockout_inv_def\<close>)
  with read same show ?case by (auto simp: lockout_inv_def harmless_def split: option.splits)
next
  case (refused f st e w)
  then have "lock_kept i until (op_FailureLimit (sv_options sv)) (ls_world st) w"
    by (intro throughoutD [OF lock_login_decide]) (auto simp: lockout_inv_def)
  with refused show ?case by (auto simp: lockout_inv_def lock_kept_def dest: notin_set_remove1)
next
  case (checked f st cred w)
  then have calm: "harmless env (sv_options sv) i until f" by (auto simp: lockout_inv_def)
  have "lock_kept i until (op_FailureLimit (sv_options sv)) (ls_world st) w"
    by (rule throughoutD [OF lock_login_decide [OF calm] checked(2)])
  moreover have "cd_UserID cred \<noteq> i" by (rule harmless_refused [OF calm checked(2)])
  ultimately show ?case using checked by (auto simp: lockout_inv_def lock_kept_def dest: notin_set_remove1)
next
  case (created cred now source requestID st tokenBytes csrfBytes r w)
  then have "cd_UserID cred \<noteq> i" by (auto simp: lockout_inv_def)
  then have "lock_kept i until (op_FailureLimit (sv_options sv)) (ls_world st) w"
    using throughoutD [OF lock_createSession created(2)] by blast
  with created show ?case by (auto simp: lockout_inv_def lock_kept_def dest: notin_set_remove1)
next
  case (operation x st)
  then have "lock_kept i until (op_FailureLimit (sv_options sv)) (ls_world st) (perform env sv x (ls_world st))"
    by (intro lock_perform) simp
  with operation show ?case by (simp add: lockout_inv_def lock_kept_def)
next
  case (elsewhere w st)
  then show ?case by (simp add: lockout_inv_def locked_account_def auth_tables_def)
qed (simp add: lockout_inv_def)

lemma lockout_run_inv:
  "(lockout_step env sv i until)\<^sup>*\<^sup>* st st' \<Longrightarrow> lockout_inv env sv i until st \<Longrightarrow> lockout_inv env sv i until st'"
  by (induction rule: rtranclp_induct) (auto simp: lockout_step_def intro: lockout_step_inv)

section \<open>From the failures to the end of the lockout\<close>

text \<open>Complete logins with their passwords, sources, request identifiers and clock readings.\<close>

record login_try =
  lt_password :: string
  lt_source :: string
  lt_request :: string
  lt_now :: time

definition failed_logins :: "auth_env \<Rightarrow> auth_options \<Rightarrow> string \<Rightarrow> login_try list \<Rightarrow> world \<Rightarrow> world" where
  "failed_logins env options name tries w = foldl (\<lambda>w x.
     snd (login_check env options name (lt_password x) (lt_source x) (lt_request x) (lt_now x) w)) w tries"

lemma failed_logins_lock:
  assumes "w_faults w = []" "account env name (w_tables w) = Some (u, row)" "cr_locked_until row = None" "tries \<noteq> []"
    and "int (length tries) = op_FailureLimit options - cr_failed_attempts row"
    and "\<forall>x \<in> set tries. Verify (en_argon2 env) (lt_password x) (cr_password_hash row) = Inr False"
  shows "w_faults (failed_logins env options name tries w) = []
    \<and> (\<exists>row'. account env name (w_tables (failed_logins env options name tries w)) = Some (u, row')
    \<and> cr_failed_attempts row' = op_FailureLimit options
    \<and> cr_locked_until row' = Some (truncate_us (lt_now (last tries) + op_LockoutDuration options)))"
  using assms
proof (induction tries arbitrary: w row)
  case Nil
  then show ?case by simp
next
  case (Cons x rest)
  let ?now = "lt_now x"
  let ?w1 = "snd (login_check env options name (lt_password x) (lt_source x) (lt_request x) ?now w)"
  have step: "w_faults ?w1 = []" "account env name (w_tables ?w1) = Some (u, fail_row options ?now row)"
    using wrong_password [OF Cons.prems(1,2)] Cons.prems(3,6) by simp_all
  have next_state: "failed_logins env options name (x # rest) w = failed_logins env options name rest ?w1"
    by (simp add: failed_logins_def)
  show ?case
  proof (cases "rest = []")
    case True
    with step Cons.prems(5) show ?thesis by (simp add: next_state failed_logins_def fail_row_def)
  next
    case False
    then have "1 \<le> int (length rest)" by (cases rest) simp_all
    then have "cr_locked_until (fail_row options ?now row) = None"
      using Cons.prems(3,5) by (simp add: fail_row_def)
    from Cons.IH [OF step this False] Cons.prems(5,6) False show ?thesis by (simp add: next_state)
  qed
qed

lemma account_locked:
  assumes "account env name t = Some (u, row)" and "limit \<le> cr_failed_attempts row"
    and "cr_locked_until row = Some x" and "until \<le> x"
  shows "locked_account (us_id u) until limit t"
  using assms by (auto simp: account_def locked_account_def bind_eq_Some_conv)

text \<open>
  C23. Lockout: when as many wrong passwords as the failure limit have been tried on an account
  (each from its own source, with its own request identifier and clock), no login of that user
  succeeds until the lockout has passed since the last of them, the right password included.
  This holds along every run of reads, decisions and session creations of any logins, of the
  other operations and of other work, under every failure of a statement, as long as nobody sets
  that user's password anew and no login of the user with the right password was already under
  way when the lock was set: a reset and the session of such a login lift the lock. A wrong
  login that was under way may set the end of the lock back to its own clock plus the lockout,
  so \<open>until\<close> is at most that.
\<close>

theorem lockout_after_failures:
  assumes "w_faults w = []" and "account env name (w_tables w) = Some (u, row)" and "cr_locked_until row = None"
    and "tries \<noteq> []" and "int (length tries) = op_FailureLimit (sv_options sv) - cr_failed_attempts row"
    and "\<forall>x \<in> set tries. Verify (en_argon2 env) (lt_password x) (cr_password_hash row) = Inr False"
    and "ls_world st = failed_logins env (sv_options sv) name tries w"
    and "until \<le> truncate_us (lt_now (last tries) + op_LockoutDuration (sv_options sv))"
    and "\<forall>f \<in> set (ls_flights st). harmless env (sv_options sv) (us_id u) until f"
    and "\<forall>p \<in> set (ls_pending st). cd_UserID (fst p) \<noteq> us_id u"
    and "(lockout_step env sv (us_id u) until)\<^sup>*\<^sup>* st st'"
  shows "(\<forall>p \<in> set (ls_pending st'). cd_UserID (fst p) \<noteq> us_id u)
    \<and> locked_account (us_id u) until (op_FailureLimit (sv_options sv)) (w_tables (ls_world st'))
    \<and> (\<forall>username password source requestID now cred w'.
         login_check env (sv_options sv) username password source requestID now (ls_world st') = (Inr cred, w')
         \<and> cd_UserID cred = us_id u \<longrightarrow> until \<le> now)"
proof -
  obtain row' where "account env name (w_tables (ls_world st)) = Some (u, row')"
    "cr_failed_attempts row' = op_FailureLimit (sv_options sv)"
    "cr_locked_until row' = Some (truncate_us (lt_now (last tries) + op_LockoutDuration (sv_options sv)))"
    using failed_logins_lock [OF assms(1-6)] assms(7) by auto
  then have "locked_account (us_id u) until (op_FailureLimit (sv_options sv)) (w_tables (ls_world st))"
    using assms(8) by (intro account_locked) auto
  with assms(9,10) have "lockout_inv env sv (us_id u) until st" by (simp add: lockout_inv_def)
  with assms(11) have inv: "lockout_inv env sv (us_id u) until st'" by (rule lockout_run_inv)
  have "until \<le> now"
    if "login_check env (sv_options sv) username password source requestID now (ls_world st') = (Inr cred, w')"
      and "cd_UserID cred = us_id u" for username password source requestID now cred w'
  proof (rule ccontr)
    assume "\<not> until \<le> now"
    then have "locked_at now cred"
      using that inv by (intro find_credential_locked) (auto simp: login_check_Inr lockout_inv_def)
    with that(1) show False by (simp add: login_check_Inr)
  qed
  with inv show ?thesis by (auto simp: lockout_inv_def)
qed

text \<open>
  Five wrong passwords from five sources lock the account of Ada; the right password is then read
  and decided on in vain.
\<close>

definition sampleTries :: "login_try list" where
  "sampleTries = map (\<lambda>n. \<lparr> lt_password = ''wrong'', lt_source = replicate n CHR ''s'',
     lt_request = replicate n CHR ''r'', lt_now = 1000 * int n \<rparr>) [1, 2, 3, 4, 5]"

definition sampleLocked :: login_state where
  "sampleLocked = \<lparr> ls_world = failed_logins sampleEnv DefaultOptions ''ada'' sampleTries sampleAccounts,
     ls_limiter = sampleLimiter 0, ls_flights = [], ls_pending = [] \<rparr>"

lemma sample_tries:
  "w_faults sampleAccounts = []" "cr_locked_until sampleCredential = None" "sampleTries \<noteq> []"
  "int (length sampleTries) = op_FailureLimit (sv_options sampleService) - cr_failed_attempts sampleCredential"
  "\<forall>x \<in> set sampleTries. Verify (en_argon2 sampleEnv) (lt_password x) (cr_password_hash sampleCredential) = Inr False"
  "ls_world sampleLocked = failed_logins sampleEnv (sv_options sampleService) ''ada'' sampleTries sampleAccounts"
  "900000005000 \<le> truncate_us (lt_now (last sampleTries) + op_LockoutDuration (sv_options sampleService))"
  by (simp_all add: sampleAccounts_def sample_env_simps sampleTries_def sampleService_def sampleLocked_def sample_verify
      truncate_us_def microsecond_def)

lemma sample_right_password:
  "\<exists>st st'. lockout_step sampleEnv sampleService ''u1'' 900000005000 sampleLocked st \<and> ls_flights st \<noteq> []
    \<and> lockout_step sampleEnv sampleService ''u1'' 900000005000 st st'"
proof -
  let ?w = "ls_world sampleLocked" and ?n = "NormalizeUsername sampleEnv ''ada''"
  let ?found = "find_credential sampleEnv ?n (w_tables ?w)"
  let ?f = "\<lparr> fl_found = ?found, fl_username = ?n, fl_password = samplePassword, fl_source = ''here'',
     fl_request = ''req'', fl_now = 6000 \<rparr>"
  let ?st = "sampleLocked\<lparr>ls_world := tick ?w, ls_limiter := sampleLimiter 1, ls_flights := [?f]\<rparr>"
  have "w_faults ?w = []"
    using failed_logins_lock [OF sample_tries(1) sample_account sample_tries(2-5)] sample_tries(6) by simp
  then have q: "credential_query sampleEnv ?n ?w = (Inr ?found, tick ?w)"
    by (simp add: credential_query_def tx_query_Inr faulty_def)
  have allow: "Allow (ls_limiter sampleLocked) ''here'' 6000 = (True, sampleLimiter 1)"
    by (simp add: sampleLocked_def sample_allow)
  have "login_step sampleEnv sampleService (LoginRead ''ada'' samplePassword ''here'' ''req'' 6000) sampleLocked ?st"
    using login_step.read [OF allow q, of sampleService samplePassword "''req''"] by (simp add: sampleLocked_def)
  then have one: "lockout_step sampleEnv sampleService ''u1'' 900000005000 sampleLocked ?st"
    unfolding lockout_step_def by (intro exI conjI) (assumption, simp)
  obtain r w where d: "login_decide sampleEnv (sv_options sampleService) (fl_username ?f) (fl_password ?f) (fl_source ?f)
      (fl_request ?f) (fl_now ?f) (fl_found ?f) (ls_world ?st) = (r, w)"
    by (metis surj_pair)
  have f: "?f \<in> set (ls_flights ?st)" by simp
  have "\<exists>st'. login_step sampleEnv sampleService (LoginDecide ?f) ?st st'"
    using login_step.refused [OF f] login_step.checked [OF f] d by (cases r) blast+
  then obtain st' where "login_step sampleEnv sampleService (LoginDecide ?f) ?st st'" ..
  then have "lockout_step sampleEnv sampleService ''u1'' 900000005000 ?st st'"
    unfolding lockout_step_def by (intro exI conjI) (assumption, simp)
  with one show ?thesis by (intro exI conjI) (assumption, simp, assumption)
qed

theorem lockout_after_failures_witness:
  "\<exists>st st'. lockout_step sampleEnv sampleService ''u1'' 900000005000 sampleLocked st \<and> ls_flights st \<noteq> []
    \<and> lockout_step sampleEnv sampleService ''u1'' 900000005000 st st'
    \<and> locked_account ''u1'' 900000005000 5 (w_tables (ls_world st'))
    \<and> \<not> (\<exists>cred w'. login_check sampleEnv DefaultOptions ''ada'' samplePassword ''here'' ''req'' 20000 (ls_world st') = (Inr cred, w')
        \<and> cd_UserID cred = ''u1'')"
proof -
  obtain st st' where run: "lockout_step sampleEnv sampleService ''u1'' 900000005000 sampleLocked st" "ls_flights st \<noteq> []"
    "lockout_step sampleEnv sampleService ''u1'' 900000005000 st st'"
    using sample_right_password by blast
  have id: "us_id sampleUser = ''u1''" by (simp add: sampleUser_def)
  have steps: "(lockout_step sampleEnv sampleService (us_id sampleUser) 900000005000)\<^sup>*\<^sup>* sampleLocked st'"
    unfolding id using run(1,3) by (rule converse_rtranclp_into_rtranclp [OF _ r_into_rtranclp])
  have calm: "\<forall>f \<in> set (ls_flights sampleLocked). harmless sampleEnv (sv_options sampleService) (us_id sampleUser) 900000005000 f"
    "\<forall>p \<in> set (ls_pending sampleLocked). cd_UserID (fst p) \<noteq> us_id sampleUser"
    by (simp_all add: sampleLocked_def)
  from lockout_after_failures [OF sample_tries(1) sample_account sample_tries(2-7) calm steps] run
  show ?thesis by (auto simp: id sampleService_def DefaultOptions_fields) fastforce
qed

end
