(* ===== verification/Observations.thy ===== *)
theory Observations
  imports Signal_Journal
begin

text \<open>
  Package \<open>observations\<close> (\<open>core/internal/observations\<close>): validation of a batch of normalised
  resources and observations (\<open>validate.go\<close>), the statements that store them
  (\<open>repository.go\<close>) and the ingestion transaction (\<open>service.go\<close>), which also appends the
  signals of new observations and re-evaluates the current health of every check the batch
  touched.

  Values of Go's \<open>any\<close> are the datatype \<open>any_value\<close> (\<open>AInt\<close> is \<open>int\<close> and \<open>int64\<close>, \<open>AOtherInt\<close> every other integer
  type, \<open>FiniteFloat m e\<close> the number \<open>m * 2 ^ e\<close>); \<open>None\<close> as an \<open>any_map\<close> is the nil map. What
  \<open>encoding/json\<close>, the \<open>jsonb\<close> type and \<open>net/url\<close> do with them is a parameter (\<open>ingest_env\<close>). The
  clock is the argument \<open>receivedAt\<close>, and the publisher is the event hub, as \<open>monitoring.NewRuntime\<close>
  wires it.
\<close>

section \<open>Types\<close>

datatype go_float = FiniteFloat int int | InfiniteFloat bool | NotANumber

datatype any_value =
    AString string
  | ABool bool
  | AInt int
  | AOtherInt int
  | ANumber string
  | AFloat64 go_float
  | AFloat32 go_float
  | ANil
  | AArray "any_value list"
  | AObject "(string \<times> any_value) list"

type_synonym any_map = "(string \<times> any_value) list option"

definition entries :: "any_map \<Rightarrow> (string \<times> any_value) list" where
  "entries m = (case m of None \<Rightarrow> [] | Some kvs \<Rightarrow> kvs)"

record ingest_env =
  ie_Marshal :: "any_map \<Rightarrow> string option"
  ie_Unmarshal :: "string \<Rightarrow> any_value option"
  ie_jsonb :: "string \<Rightarrow> string"
  ie_ParseURL :: "string \<Rightarrow> (string \<times> string) option"

record resource_input =
  ri_ID :: string
  ri_ExternalID :: string
  ri_Kind :: string
  ri_DisplayName :: string
  ri_ObservedAt :: time
  ri_Attributes :: any_map
  ri_SourceURL :: string

record observation_input =
  oi_ID :: string
  oi_ExternalResourceID :: string
  oi_CheckType :: string
  oi_State :: state
  oi_Summary :: string
  oi_ObservedAt :: time
  oi_ExpectedRefreshSeconds :: int
  oi_Measurements :: any_map
  oi_Metadata :: any_map

record batch =
  ba_Resources :: "resource_input list"
  ba_Observations :: "observation_input list"

record ingest_result =
  ir_ResourcesUpserted :: nat
  ir_ObservationsInserted :: nat
  ir_DuplicateObservations :: nat
  ir_Changes :: "change list"

section \<open>Validation\<close>

definition MaxFutureSkew :: duration where
  "MaxFutureSkew = 300 * second"

definition MaxBatchRecords :: nat where
  "MaxBatchRecords = 1000"

definition MaxNestedJSONBytes :: nat where
  "MaxNestedJSONBytes = 64 * 1024"

definition MaxResourceProperties :: nat where
  "MaxResourceProperties = 128"

definition MaxObservationProperties :: nat where
  "MaxObservationProperties = 64"

text \<open>\<open>^[a-z][a-z0-9_]{0,62}$\<close>; the pattern of check types is \<open>identifierPattern\<close>.\<close>

fun resourceKindPattern :: "string \<Rightarrow> bool" where
  "resourceKindPattern [] = False"
| "resourceKindPattern (c # s) =
     (lower_letter c \<and> length s \<le> 62 \<and> list_all (\<lambda>d. lower_letter d \<or> digit d \<or> d = CHR ''_'') s)"

definition addFieldError :: "string \<Rightarrow> int \<Rightarrow> string \<Rightarrow> string \<Rightarrow> field_error list" where
  "addFieldError record index field code =
     [\<lparr> fe_Record = record, fe_Index = index, fe_Field = field, fe_Code = code \<rparr>]"

definition validateIdentity :: "string \<Rightarrow> nat \<Rightarrow> string \<Rightarrow> int \<Rightarrow> string \<Rightarrow> field_error list" where
  "validateIdentity v maximum record index field =
     (if TrimSpace v = '''' then addFieldError record index field ''required''
      else (if TrimSpace v \<noteq> v then addFieldError record index field ''ambiguous_whitespace'' else [])
         @ (if maximum < RuneCountInString v then addFieldError record index field ''too_long'' else []))"

definition validateText :: "string \<Rightarrow> nat \<Rightarrow> string \<Rightarrow> int \<Rightarrow> string \<Rightarrow> field_error list" where
  "validateText v maximum record index field =
     (if TrimSpace v = '''' then addFieldError record index field ''required''
      else if maximum < RuneCountInString v then addFieldError record index field ''too_long'' else [])"

definition validateObservedAt :: "time \<Rightarrow> time \<Rightarrow> string \<Rightarrow> int \<Rightarrow> field_error list" where
  "validateObservedAt v receivedAt record index =
     (if v = 0 then addFieldError record index ''observed_at'' ''required''
      else if receivedAt + MaxFutureSkew < v then addFieldError record index ''observed_at'' ''future_skew''
      else [])"

definition validateJSONSize :: "ingest_env \<Rightarrow> any_map \<Rightarrow> string \<Rightarrow> int \<Rightarrow> string \<Rightarrow> field_error list" where
  "validateJSONSize env v record index field =
     (case ie_Marshal env v of
        None \<Rightarrow> addFieldError record index field ''invalid_json''
      | Some encoded \<Rightarrow>
          if MaxNestedJSONBytes < length encoded then addFieldError record index field ''encoded_size_exceeded'' else [])"

fun validMeasurement :: "any_value \<Rightarrow> bool" where
  "validMeasurement (AString _) = True"
| "validMeasurement (ABool _) = True"
| "validMeasurement (ANumber _) = True"
| "validMeasurement (AInt _) = True"
| "validMeasurement (AOtherInt _) = True"
| "validMeasurement (AFloat32 (FiniteFloat _ _)) = True"
| "validMeasurement (AFloat64 (FiniteFloat _ _)) = True"
| "validMeasurement _ = False"

definition validateResource :: "ingest_env \<Rightarrow> resource_input \<Rightarrow> int \<Rightarrow> time \<Rightarrow> field_error list" where
  "validateResource env r index receivedAt =
     (if ri_ID r \<noteq> '''' \<and> \<not> uuidPattern (ri_ID r) then addFieldError ''resource'' index ''id'' ''invalid_uuid'' else [])
     @ validateIdentity (ri_ExternalID r) 512 ''resource'' index ''external_id''
     @ (if \<not> resourceKindPattern (ri_Kind r) then addFieldError ''resource'' index ''kind'' ''invalid_format'' else [])
     @ validateText (ri_DisplayName r) 256 ''resource'' index ''display_name''
     @ validateObservedAt (ri_ObservedAt r) receivedAt ''resource'' index
     @ (if MaxResourceProperties < length (entries (ri_Attributes r))
        then addFieldError ''resource'' index ''attributes'' ''property_limit_exceeded'' else [])
     @ validateJSONSize env (ri_Attributes r) ''resource'' index ''attributes''
     @ (if ri_SourceURL r \<noteq> '''' \<and> (case ie_ParseURL env (ri_SourceURL r) of
            None \<Rightarrow> True
          | Some (scheme, host) \<Rightarrow> host = '''' \<or> (scheme \<noteq> ''http'' \<and> scheme \<noteq> ''https'')
              \<or> 2048 < length (ri_SourceURL r))
        then addFieldError ''resource'' index ''source_url'' ''invalid_url'' else [])"

definition validateObservation :: "ingest_env \<Rightarrow> observation_input \<Rightarrow> int \<Rightarrow> time \<Rightarrow> field_error list" where
  "validateObservation env ob index receivedAt =
     (if oi_ID ob \<noteq> '''' \<and> \<not> uuidPattern (oi_ID ob) then addFieldError ''observation'' index ''id'' ''invalid_uuid'' else [])
     @ validateIdentity (oi_ExternalResourceID ob) 512 ''observation'' index ''external_resource_id''
     @ (if \<not> identifierPattern (oi_CheckType ob)
        then addFieldError ''observation'' index ''check_type'' ''invalid_format'' else [])
     @ (if \<not> ValidObserved (oi_State ob) then addFieldError ''observation'' index ''state'' ''invalid_state'' else [])
     @ validateText (oi_Summary ob) 1024 ''observation'' index ''summary''
     @ validateObservedAt (oi_ObservedAt ob) receivedAt ''observation'' index
     @ (if oi_ExpectedRefreshSeconds ob < 1 \<or> 86400 < oi_ExpectedRefreshSeconds ob
        then addFieldError ''observation'' index ''expected_refresh_seconds'' ''out_of_bounds'' else [])
     @ (if MaxObservationProperties < length (entries (oi_Measurements ob))
        then addFieldError ''observation'' index ''measurements'' ''property_limit_exceeded'' else [])
     @ (if list_ex (\<lambda>(k, v). \<not> validMeasurement v) (entries (oi_Measurements ob))
        then addFieldError ''observation'' index ''measurements'' ''invalid_value'' else [])
     @ validateJSONSize env (oi_Measurements ob) ''observation'' index ''measurements''
     @ (if MaxObservationProperties < length (entries (oi_Metadata ob))
        then addFieldError ''observation'' index ''metadata'' ''property_limit_exceeded'' else [])
     @ validateJSONSize env (oi_Metadata ob) ''observation'' index ''metadata''"

text \<open>The loop over resources: \<open>seen\<close> holds the external identifiers of earlier ones.\<close>

fun validateResources ::
  "ingest_env \<Rightarrow> time \<Rightarrow> string list \<Rightarrow> int \<Rightarrow> resource_input list \<Rightarrow> field_error list" where
  "validateResources env receivedAt seen index [] = []"
| "validateResources env receivedAt seen index (r # rs) =
     validateResource env r index receivedAt
     @ (if ri_ExternalID r \<in> set seen then addFieldError ''resource'' index ''external_id'' ''duplicate'' else [])
     @ validateResources env receivedAt (ri_ExternalID r # seen) (index + 1) rs"

fun validateObservations :: "ingest_env \<Rightarrow> time \<Rightarrow> int \<Rightarrow> observation_input list \<Rightarrow> field_error list" where
  "validateObservations env receivedAt index [] = []"
| "validateObservations env receivedAt index (ob # obs) =
     validateObservation env ob index receivedAt @ validateObservations env receivedAt (index + 1) obs"

definition ValidateBatch :: "ingest_env \<Rightarrow> batch \<Rightarrow> time \<Rightarrow> err + unit" where
  "ValidateBatch env ba receivedAt =
     (let errors =
        (if MaxBatchRecords < length (ba_Resources ba) + length (ba_Observations ba)
         then addFieldError ''batch'' (-1) ''records'' ''limit_exceeded'' else [])
        @ validateResources env receivedAt [] 0 (ba_Resources ba)
        @ validateObservations env receivedAt 0 (ba_Observations ba)
      in if errors \<noteq> [] then Inl (ValidationError errors) else Inr ())"

section \<open>Statements\<close>

definition integrationExists :: "string \<Rightarrow> bool tx" where
  "integrationExists integrationID = tx_query (\<lambda>t. uuid_param integrationID \<in> it_id ` set (t_integrations t))"

definition resource_match :: "string \<Rightarrow> string \<Rightarrow> resource_row \<Rightarrow> bool" where
  "resource_match integrationID externalID r \<longleftrightarrow>
     rs_integration_id r = uuid_param integrationID \<and> rs_external_id r = externalID"

definition merge_resource :: "resource_input \<Rightarrow> string \<Rightarrow> resource_row \<Rightarrow> resource_row" where
  "merge_resource input attributes r =
     (let seen = truncate_us (ri_ObservedAt input);
          merged = r\<lparr> rs_first_seen_at := min (rs_first_seen_at r) seen, rs_last_seen_at := max (rs_last_seen_at r) seen \<rparr>
      in if rs_last_seen_at r \<le> seen
         then merged\<lparr> rs_kind := ri_Kind input, rs_display_name := ri_DisplayName input, rs_attributes := attributes,
           rs_source_url := nullif (ri_SourceURL input) \<rparr>
         else merged)"

definition upsertResource :: "ingest_env \<Rightarrow> string \<Rightarrow> resource_input \<Rightarrow> string tx" where
  "upsertResource env integrationID input =
     (case ie_Marshal env (ri_Attributes input) of
        None \<Rightarrow> tx_fail (ErrText ''encode resource attributes'')
      | Some attributes \<Rightarrow> tx_insert (\<lambda>u c t.
          let p = resource_match integrationID (ri_ExternalID input);
              rid = (if ri_ID input = '''' then u else uuid_param (ri_ID input));
              seen = truncate_us (ri_ObservedAt input)
          in case List.find p (t_resources t) of
               Some r \<Rightarrow> Inr (rs_id r, t\<lparr>t_resources :=
                 update_where p (merge_resource input (ie_jsonb env attributes)) (t_resources t)\<rparr>)
             | None \<Rightarrow>
                 if rid \<in> rs_id ` set (t_resources t) then Inl DbError
                 else Inr (rid, t\<lparr>t_resources := t_resources t @
                   [\<lparr> rs_id = rid, rs_integration_id = uuid_param integrationID, rs_external_id = ri_ExternalID input,
                      rs_kind = ri_Kind input, rs_display_name = ri_DisplayName input,
                      rs_attributes = ie_jsonb env attributes, rs_source_url = nullif (ri_SourceURL input),
                      rs_first_seen_at = seen, rs_last_seen_at = seen \<rparr>]\<rparr>)))"

definition resolveResource :: "string \<Rightarrow> string \<Rightarrow> string tx" where
  "resolveResource integrationID externalID =
     tx_bind (tx_query (\<lambda>t. map_option rs_id (List.find (resource_match integrationID externalID) (t_resources t))))
       (\<lambda>found. case found of
          None \<Rightarrow> tx_fail (ConflictError ''observation'' (-1) ''resource_not_found'')
        | Some i \<Rightarrow> tx_return i)"

definition lockResource :: "string \<Rightarrow> string \<Rightarrow> unit tx" where
  "lockResource integrationID resourceID =
     tx_row (\<lambda>t. map_option (\<lambda>_. ()) (List.find
       (\<lambda>r. rs_integration_id r = uuid_param integrationID \<and> rs_id r = resourceID) (t_resources t)))"

definition refresh_of :: "int \<Rightarrow> duration" where
  "refresh_of seconds = wrap64 (seconds * second)"

definition scan_observation :: "observation_row \<Rightarrow> observation" where
  "scan_observation r = \<lparr> o_ID = ob_id r, o_ResourceID = ob_resource_id r, o_CheckType = ob_check_type r,
     o_State = ob_observed_state r, o_Summary = ob_summary r, o_ObservedAt = ob_observed_at r,
     o_ReceivedAt = ob_received_at r, o_ExpectedRefresh = refresh_of (ob_expected_refresh_seconds r) \<rparr>"

text \<open>The row an insertion writes: \<open>expires_at\<close> is the stale instant of the observation.\<close>

definition new_observation ::
  "ingest_env \<Rightarrow> string \<Rightarrow> string \<Rightarrow> string \<Rightarrow> observation_input \<Rightarrow> time \<Rightarrow> string \<Rightarrow> string \<Rightarrow> observation_row" where
  "new_observation env oid integrationID resourceID input receivedAt measurements metadata =
     (let ob = \<lparr> ob_id = oid, ob_integration_id = uuid_param integrationID, ob_resource_id = resourceID,
            ob_check_type = oi_CheckType input, ob_observed_state = oi_State input, ob_summary = oi_Summary input,
            ob_observed_at = truncate_us (oi_ObservedAt input), ob_received_at = truncate_us receivedAt,
            ob_expires_at = 0, ob_expected_refresh_seconds = oi_ExpectedRefreshSeconds input,
            ob_measurements = ie_jsonb env measurements, ob_metadata = ie_jsonb env metadata \<rparr>
      in ob\<lparr> ob_expires_at := truncate_us (fst (TransitionTimes (scan_observation ob))) \<rparr>)"

text \<open>The delivery key and the identifier of an input: the two unique constraints.\<close>

definition same_delivery :: "string \<Rightarrow> string \<Rightarrow> observation_input \<Rightarrow> observation_row \<Rightarrow> bool" where
  "same_delivery integrationID resourceID input r \<longleftrightarrow> ob_integration_id r = uuid_param integrationID
     \<and> ob_resource_id r = resourceID \<and> ob_check_type r = oi_CheckType input
     \<and> ob_observed_at r = truncate_us (oi_ObservedAt input)"

definition same_id :: "observation_input \<Rightarrow> observation_row \<Rightarrow> bool" where
  "same_id input r \<longleftrightarrow> oi_ID input \<noteq> '''' \<and> ob_id r = uuid_param (oi_ID input)"

definition conflicting :: "string \<Rightarrow> string \<Rightarrow> observation_input \<Rightarrow> observation_row list \<Rightarrow> observation_row option" where
  "conflicting integrationID resourceID input rows =
     first_by (\<lambda>r. if same_id input r then 0 else (1 :: nat))
       (filter (\<lambda>r. ob_integration_id r = uuid_param integrationID
          \<and> (same_id input r \<or> same_delivery integrationID resourceID input r)) rows)"

definition findConflictingObservation ::
  "string \<Rightarrow> string \<Rightarrow> observation_input \<Rightarrow> (observation \<times> string \<times> string) tx" where
  "findConflictingObservation integrationID resourceID input =
     tx_row (\<lambda>t. map_option (\<lambda>r. (scan_observation r, ob_measurements r, ob_metadata r))
       (conflicting integrationID resourceID input (t_observations t)))"

definition equivalentJSON :: "ingest_env \<Rightarrow> string \<Rightarrow> string \<Rightarrow> bool" where
  "equivalentJSON env left right \<longleftrightarrow>
     (case (ie_Unmarshal env left, ie_Unmarshal env right) of (Some a, Some b) \<Rightarrow> a = b | _ \<Rightarrow> False)"

definition sameObservationContent ::
  "ingest_env \<Rightarrow> observation \<Rightarrow> observation_input \<Rightarrow> string \<Rightarrow> string \<Rightarrow> string \<Rightarrow> string \<Rightarrow> bool" where
  "sameObservationContent env existing input existingMeasurements existingMetadata measurements metadata \<longleftrightarrow>
     \<not> (oi_ID input \<noteq> '''' \<and> o_ID existing \<noteq> oi_ID input)
     \<and> \<not> (o_ResourceID existing = '''' \<or> o_State existing \<noteq> oi_State input \<or> o_Summary existing \<noteq> oi_Summary input
        \<or> o_ObservedAt existing \<noteq> truncate_us (oi_ObservedAt input)
        \<or> o_ExpectedRefresh existing \<noteq> refresh_of (oi_ExpectedRefreshSeconds input))
     \<and> equivalentJSON env existingMeasurements measurements \<and> equivalentJSON env existingMetadata metadata"

definition insertObservationRow ::
  "ingest_env \<Rightarrow> string \<Rightarrow> string \<Rightarrow> observation_input \<Rightarrow> time \<Rightarrow> string \<Rightarrow> string \<Rightarrow> observation_row option tx" where
  "insertObservationRow env integrationID resourceID input receivedAt measurements metadata =
     tx_insert (\<lambda>u c t.
       let oid = (if oi_ID input = '''' then u else uuid_param (oi_ID input));
           row = new_observation env oid integrationID resourceID input receivedAt measurements metadata
       in if oid \<in> ob_id ` set (t_observations t)
             \<or> list_ex (same_delivery integrationID resourceID input) (t_observations t)
          then Inr (None, t)
          else Inr (Some row, t\<lparr>t_observations := t_observations t @ [row]\<rparr>))"

definition insertObservation ::
  "ingest_env \<Rightarrow> string \<Rightarrow> string \<Rightarrow> observation_input \<Rightarrow> time \<Rightarrow> (observation \<times> bool) tx" where
  "insertObservation env integrationID resourceID input receivedAt =
     (case ie_Marshal env (oi_Measurements input) of
        None \<Rightarrow> tx_fail (ErrText ''encode observation measurements'')
      | Some measurements \<Rightarrow> (case ie_Marshal env (oi_Metadata input) of
          None \<Rightarrow> tx_fail (ErrText ''encode observation metadata'')
        | Some metadata \<Rightarrow>
            tx_bind (insertObservationRow env integrationID resourceID input receivedAt measurements metadata)
              (\<lambda>inserted. case inserted of
                 Some row \<Rightarrow> tx_return (scan_observation row, True)
               | None \<Rightarrow>
                   tx_bind (findConflictingObservation integrationID resourceID input)
                     (\<lambda>(existing, existingMeasurements, existingMetadata).
                     if \<not> sameObservationContent env existing input existingMeasurements existingMetadata measurements metadata
                     then tx_fail (ConflictError ''observation'' (-1) ''idempotency_conflict'')
                     else tx_return (existing, False)))))"

text \<open>\<open>ORDER BY observed_at DESC, received_at DESC, id DESC LIMIT 1\<close>\<close>

definition obs_key :: "observation_row \<Rightarrow> string \<times> string" where
  "obs_key r = (ob_resource_id r, ob_check_type r)"

definition obs_order :: "observation_row \<Rightarrow> time \<times> time \<times> string" where
  "obs_order r = (ob_observed_at r, ob_received_at r, ob_id r)"

definition newest_of :: "string \<times> string \<Rightarrow> observation_row list \<Rightarrow> observation_row option" where
  "newest_of key rows = (case rev (sort_key obs_order (filter (\<lambda>r. obs_key r = key) rows)) of
     [] \<Rightarrow> None | r # _ \<Rightarrow> Some r)"

definition latestObservation :: "string \<Rightarrow> string \<Rightarrow> observation option tx" where
  "latestObservation resourceID checkType =
     tx_query (\<lambda>t. map_option scan_observation (newest_of (resourceID, checkType) (t_observations t)))"

definition cur_key :: "current \<Rightarrow> string \<times> string" where
  "cur_key c = (cur_ResourceID c, cur_CheckType c)"

definition loadCurrent :: "string \<Rightarrow> string \<Rightarrow> current option tx" where
  "loadCurrent resourceID checkType = tx_query (\<lambda>t. find_row cur_key (resourceID, checkType) (t_current t))"

text \<open>
  A row of \<open>current_health\<close> as stored: timestamps have microseconds. The identifier of an observation
  comes from the database and is not empty, so writing it as \<open>NULLIF($5, '')\<close> and reading it back
  leaves it as it is.
\<close>

definition stored_current :: "current \<Rightarrow> current" where
  "stored_current c = c\<lparr> cur_ObservedAt := map_option truncate_us (cur_ObservedAt c),
     cur_LastSuccessAt := map_option truncate_us (cur_LastSuccessAt c),
     cur_StaleAt := map_option truncate_us (cur_StaleAt c),
     cur_UnknownAt := map_option truncate_us (cur_UnknownAt c), cur_UpdatedAt := truncate_us (cur_UpdatedAt c) \<rparr>"

definition saveCurrent :: "current \<Rightarrow> unit tx" where
  "saveCurrent c = tx_exec (\<lambda>t. t\<lparr>t_current :=
     (if cur_key c \<in> cur_key ` set (t_current t)
      then update_where (\<lambda>d. cur_key d = cur_key c) (\<lambda>_. stored_current c) (t_current t)
      else t_current t @ [stored_current c])\<rparr>)"

definition currentEquivalent :: "current \<Rightarrow> current \<Rightarrow> bool" where
  "currentEquivalent left right \<longleftrightarrow> cur_ResourceID left = cur_ResourceID right \<and> cur_State left = cur_State right
     \<and> cur_Reason left = cur_Reason right \<and> cur_ObservationID left = cur_ObservationID right
     \<and> cur_ObservedAt left = cur_ObservedAt right \<and> cur_LastSuccessAt left = cur_LastSuccessAt right
     \<and> cur_StaleAt left = cur_StaleAt right \<and> cur_UnknownAt left = cur_UnknownAt right"

section \<open>Ingestion\<close>

fun upsertResources :: "ingest_env \<Rightarrow> string \<Rightarrow> resource_input list \<Rightarrow> (string \<times> string) list \<Rightarrow> (string \<times> string) list tx" where
  "upsertResources env integrationID [] ids = tx_return ids"
| "upsertResources env integrationID (r # rs) ids =
     tx_bind (upsertResource env integrationID r) (\<lambda>i.
     upsertResources env integrationID rs ((ri_ExternalID r, i) # ids))"

fun at_index :: "nat \<Rightarrow> err \<Rightarrow> err" where
  "at_index index (ConflictError record _ code) = ConflictError record (int index) code"
| "at_index index e = e"

definition indexed :: "nat \<Rightarrow> 'a tx \<Rightarrow> 'a tx" where
  "indexed index m = tx_catch m (\<lambda>e. tx_fail (at_index index e))"

fun resolveResources ::
  "string \<Rightarrow> nat \<Rightarrow> observation_input list \<Rightarrow> (string \<times> string) list \<Rightarrow> (string \<times> string) list tx" where
  "resolveResources integrationID index [] ids = tx_return ids"
| "resolveResources integrationID index (ob # obs) ids =
     (if map_of ids (oi_ExternalResourceID ob) \<noteq> None then resolveResources integrationID (Suc index) obs ids
      else tx_bind (indexed index (resolveResource integrationID (oi_ExternalResourceID ob))) (\<lambda>i.
        resolveResources integrationID (Suc index) obs ((oi_ExternalResourceID ob, i) # ids)))"

definition reason_code :: "observation_input \<Rightarrow> string" where
  "reason_code ob = (case map_of (entries (oi_Metadata ob)) ''reason_code'' of Some (AString s) \<Rightarrow> s | _ \<Rightarrow> '''')"

definition observation_signal :: "string \<Rightarrow> string \<Rightarrow> observation \<Rightarrow> string \<Rightarrow> time \<Rightarrow> signal_input" where
  "observation_signal integrationID resourceID stored reasonCode receivedAt =
     \<lparr> si_SourceKey = ObservationSourceKey (o_ID stored), si_Kind = ''observation'',
       si_IntegrationID = uuid_param integrationID, si_ResourceID = resourceID, si_ObservationID = o_ID stored,
       si_CheckType = o_CheckType stored, si_State = o_State stored, si_Reason = o_Summary stored,
       si_ReasonCode = reasonCode, si_OccurredAt = o_ObservedAt stored, si_AvailableAt = receivedAt \<rparr>"

text \<open>One observation of the batch: stored with its signal, or recognised as a redelivery.\<close>

definition storeObservation :: "ingest_env \<Rightarrow> string \<Rightarrow> string \<Rightarrow> nat \<Rightarrow> observation_input \<Rightarrow> time \<Rightarrow> bool tx" where
  "storeObservation env integrationID resourceID index ob receivedAt =
     tx_bind (indexed index (insertObservation env integrationID resourceID ob receivedAt)) (\<lambda>(stored, inserted).
     tx_bind (if inserted
         then Append (observation_signal integrationID resourceID stored (reason_code ob) receivedAt)
         else tx_return ()) (\<lambda>_.
     tx_return inserted))"

definition resource_of :: "(string \<times> string) list \<Rightarrow> observation_input \<Rightarrow> string" where
  "resource_of ids ob = (case map_of ids (oi_ExternalResourceID ob) of Some i \<Rightarrow> i | None \<Rightarrow> '''')"

fun storeObservations ::
  "ingest_env \<Rightarrow> string \<Rightarrow> (string \<times> string) list \<Rightarrow> time \<Rightarrow> nat \<Rightarrow> observation_input list \<Rightarrow> ingest_result \<Rightarrow> ingest_result tx" where
  "storeObservations env integrationID ids receivedAt index [] result = tx_return result"
| "storeObservations env integrationID ids receivedAt index (ob # obs) result =
     tx_bind (storeObservation env integrationID (resource_of ids ob) index ob receivedAt) (\<lambda>inserted.
     storeObservations env integrationID ids receivedAt (Suc index) obs
       (if inserted then result\<lparr>ir_ObservationsInserted := ir_ObservationsInserted result + 1\<rparr>
        else result\<lparr>ir_DuplicateObservations := ir_DuplicateObservations result + 1\<rparr>))"

text \<open>The body of the loop over the affected checks.\<close>

definition refreshCurrent :: "string \<times> string \<Rightarrow> time \<Rightarrow> change option tx" where
  "refreshCurrent key receivedAt =
     tx_bind (loadCurrent (fst key) (snd key)) (\<lambda>previous.
     tx_bind (latestObservation (fst key) (snd key)) (\<lambda>latest.
     case latest of
       None \<Rightarrow> tx_return None
     | Some ob \<Rightarrow>
         let desired = Evaluate (fst key) ob previous receivedAt
         in if (case previous of None \<Rightarrow> False | Some p \<Rightarrow> currentEquivalent p desired) then tx_return None
            else tx_bind (saveCurrent desired) (\<lambda>_.
              tx_return (if (case previous of None \<Rightarrow> True | Some p \<Rightarrow> cur_State p \<noteq> cur_State desired)
                then Some \<lparr> ch_Before = previous, ch_After = desired \<rparr> else None))))"

fun refreshCurrents :: "(string \<times> string) list \<Rightarrow> time \<Rightarrow> change list \<Rightarrow> change list tx" where
  "refreshCurrents [] receivedAt changes = tx_return changes"
| "refreshCurrents (key # keys) receivedAt changes =
     tx_bind (refreshCurrent key receivedAt) (\<lambda>c.
     refreshCurrents keys receivedAt (changes @ (case c of None \<Rightarrow> [] | Some c \<Rightarrow> [c])))"

definition affected_checks :: "(string \<times> string) list \<Rightarrow> observation_input list \<Rightarrow> (string \<times> string) list" where
  "affected_checks ids obs = sort (remdups (map (\<lambda>ob. (resource_of ids ob, oi_CheckType ob)) obs))"

definition ingest_body ::
  "ingest_env \<Rightarrow> (ingest_result \<Rightarrow> unit tx) option \<Rightarrow> string \<Rightarrow> batch \<Rightarrow> time \<Rightarrow> ingest_result outcome tx" where
  "ingest_body env hook integrationID ba receivedAt =
     tx_bind (integrationExists integrationID) (\<lambda>exists.
     if \<not> exists then tx_fail (ConflictError ''integration'' (-1) ''not_found'')
     else
       tx_bind (upsertResources env integrationID (ba_Resources ba) []) (\<lambda>ids.
       tx_bind (resolveResources integrationID 0 (ba_Observations ba) ids) (\<lambda>ids.
       tx_bind (tx_for (lockResource integrationID) (sort (remdups (map snd ids)))) (\<lambda>_.
       tx_bind (storeObservations env integrationID ids receivedAt 0 (ba_Observations ba)
           \<lparr> ir_ResourcesUpserted = length (ba_Resources ba), ir_ObservationsInserted = 0,
             ir_DuplicateObservations = 0, ir_Changes = [] \<rparr>) (\<lambda>result.
       tx_bind (refreshCurrents (affected_checks ids (ba_Observations ba)) receivedAt []) (\<lambda>changes.
       let result = result\<lparr>ir_Changes := changes\<rparr> in
       tx_bind (case hook of None \<Rightarrow> tx_return () | Some h \<Rightarrow> h result) (\<lambda>_.
       tx_return (Commit result))))))))"

definition hub_publish_committed :: "change list \<Rightarrow> unit tx" where
  "hub_publish_committed changes =
     (\<lambda>w. (Inr (), if changes \<noteq> [] then w\<lparr>w_hub := PublishCommitted (w_hub w) changes\<rparr> else w))"

definition IngestWithCommit ::
  "ingest_env \<Rightarrow> (ingest_result \<Rightarrow> unit tx) option \<Rightarrow> string \<Rightarrow> batch \<Rightarrow> time \<Rightarrow> ingest_result tx" where
  "IngestWithCommit env hook integrationID ba receivedAt =
     (if \<not> uuidPattern integrationID
      then tx_fail (ValidationError (addFieldError ''integration'' (-1) ''id'' ''invalid_uuid''))
      else case ValidateBatch env ba receivedAt of
        Inl e \<Rightarrow> tx_fail e
      | Inr _ \<Rightarrow>
          tx_bind (in_tx (ingest_body env hook integrationID ba receivedAt)) (\<lambda>result.
          tx_bind (hub_publish_committed (ir_Changes result)) (\<lambda>_.
          tx_return result)))"

definition Ingest :: "ingest_env \<Rightarrow> string \<Rightarrow> batch \<Rightarrow> time \<Rightarrow> ingest_result tx" where
  "Ingest env integrationID ba receivedAt = IngestWithCommit env None integrationID ba receivedAt"

end
