(* ===== verification/Observation_Health.thy ===== *)
theory Observation_Health
  imports Observations
begin

text \<open>
  What ingestion keeps true of the stored observations, the current health and the journal:
  current health is the evaluation of the newest observation of each check, and every
  observation has its signal. The locale \<open>commit_hook\<close> is what ingestion relies on from the hook
  that runs inside its transaction.
\<close>

section \<open>The newest observation\<close>

lemma newest_of_SomeD:
  assumes "newest_of key rows = Some r"
  shows "r \<in> set rows" "obs_key r = key" "x \<in> set rows \<Longrightarrow> obs_key x = key \<Longrightarrow> obs_order x \<le> obs_order r"
proof -
  let ?xs = "sort_key obs_order (filter (\<lambda>r. obs_key r = key) rows)"
  obtain ys where ys: "?xs = ys @ [r]"
    using assms by (cases "rev ?xs") (auto simp: newest_of_def)
  have "set ?xs = {x \<in> set rows. obs_key x = key}" by auto
  then have mem: "x \<in> set rows \<and> obs_key x = key \<longleftrightarrow> x = r \<or> x \<in> set ys" for x by (auto simp: ys)
  show "r \<in> set rows" "obs_key r = key" using mem [of r] by simp_all
  have "sorted (map obs_order ?xs)" by simp
  then have "\<forall>y \<in> set ys. obs_order y \<le> obs_order r" by (simp add: ys sorted_append)
  then show "obs_order x \<le> obs_order r" if "x \<in> set rows" "obs_key x = key"
    using that mem [of x] by auto
qed

lemma newest_of_None: "newest_of key rows = None \<longleftrightarrow> key \<notin> obs_key ` set rows"
proof -
  have "newest_of key rows = None \<longleftrightarrow> filter (\<lambda>r. obs_key r = key) rows = []"
    by (auto simp: newest_of_def split: list.splits dest: arg_cong [of _ _ length])
  then show ?thesis by (auto simp: filter_empty_conv)
qed

lemma newest_of_append_other:
  "obs_key x \<noteq> key \<Longrightarrow> newest_of key (rows @ [x]) = newest_of key rows"
  by (simp add: newest_of_def)

section \<open>Evaluation at stored instants\<close>

text \<open>What the columns of \<open>observations\<close> guarantee of a row.\<close>

definition obs_row_ok :: "observation_row \<Rightarrow> bool" where
  "obs_row_ok r \<longleftrightarrow> 1 \<le> ob_expected_refresh_seconds r \<and> ob_expected_refresh_seconds r \<le> 86400
     \<and> truncate_us (ob_observed_at r) = ob_observed_at r \<and> ValidObserved (ob_observed_state r)"

lemma truncate_us_fixed: "truncate_us t = t \<longleftrightarrow> 1000 dvd t"
  by (auto simp: truncate_us_def microsecond_def)

lemma truncate_us_less: "1000 dvd b \<Longrightarrow> truncate_us a < b \<longleftrightarrow> a < b"
  using truncate_us_le [of a] truncate_us_mono [of b a] by (force simp: truncate_us_fixed [symmetric])

lemma refresh_of_valid: "1 \<le> s \<Longrightarrow> s \<le> 86400 \<Longrightarrow> refresh_of s = s * second \<and> valid_refresh (s * second)"
  by (simp add: refresh_of_def wrap64_id second_def valid_refresh_def)

lemma TransitionTimes_us:
  assumes "obs_row_ok r"
  shows "1000 dvd fst (TransitionTimes (scan_observation r))" "1000 dvd snd (TransitionTimes (scan_observation r))"
proof -
  let ?s = "ob_expected_refresh_seconds r"
  have s: "1 \<le> ?s" "?s \<le> 86400" and at: "1000 dvd ob_observed_at r"
    using assms by (auto simp: obs_row_ok_def truncate_us_fixed)
  have "?s * second div 2 = ?s * 500000000" by (simp add: second_def)
  then have closed: "TransitionTimes (scan_observation r) =
      (let st = ob_observed_at r + ?s * second + max (?s * 500000000) minimumGrace
       in (st, max st (ob_observed_at r + 3 * (?s * second))))"
    using refresh_of_valid [OF s] by (simp add: TransitionTimes_closed scan_observation_def Let_def)
  have "1000 dvd ob_observed_at r + ?s * second + max (?s * 500000000) minimumGrace"
    using at by (auto simp: second_def minimumGrace_def max_def)
  moreover have "1000 dvd ob_observed_at r + 3 * (?s * second)" using at by (simp add: second_def)
  ultimately show "1000 dvd fst (TransitionTimes (scan_observation r))" "1000 dvd snd (TransitionTimes (scan_observation r))"
    by (simp_all add: closed Let_def max_def)
qed

text \<open>The fields of an evaluation, and that a stored evaluation is what its observation evaluates to
  at the instant of the update.\<close>

definition success_at :: "observation \<Rightarrow> current option \<Rightarrow> time option" where
  "success_at ob prev =
     (let last_success = Option.bind prev cur_LastSuccessAt
      in if PositiveDetermination (o_State ob) \<and> (case last_success of None \<Rightarrow> True | Some t \<Rightarrow> t < o_ObservedAt ob)
         then Some (o_ObservedAt ob) else last_success)"

definition aged :: "observation \<Rightarrow> time \<Rightarrow> state \<times> string" where
  "aged ob now =
     (if o_State ob \<in> {Disabled, Unknown} then (o_State ob, o_Summary ob)
      else if snd (TransitionTimes ob) \<le> now then (Unknown, unknownReason)
      else if fst (TransitionTimes ob) \<le> now then (Stale, staleReason)
      else (o_State ob, o_Summary ob))"

definition scheduled :: "observation \<Rightarrow> time \<Rightarrow> time option" where
  "scheduled ob t = (if o_State ob = Disabled then None else Some t)"

lemma Evaluate_closed:
  "Evaluate rid ob prev now = \<lparr> cur_ResourceID = rid, cur_CheckType = o_CheckType ob, cur_State = fst (aged ob now),
     cur_Reason = snd (aged ob now), cur_ObservationID = Some (o_ID ob), cur_ObservedAt = Some (o_ObservedAt ob),
     cur_LastSuccessAt = success_at ob prev, cur_StaleAt = scheduled ob (fst (TransitionTimes ob)),
     cur_UnknownAt = scheduled ob (snd (TransitionTimes ob)), cur_UpdatedAt = now \<rparr>"
proof -
  obtain st un where tt: "TransitionTimes ob = (st, un)" by force
  obtain ls where ls: "Option.bind prev cur_LastSuccessAt = ls" by simp
  have sa: "success_at ob prev = (if PositiveDetermination (o_State ob) \<and> (case ls of None \<Rightarrow> True | Some t \<Rightarrow> t < o_ObservedAt ob)
      then Some (o_ObservedAt ob) else ls)" by (simp add: success_at_def ls)
  show ?thesis
  proof (cases prev)
    case None
    with ls sa show ?thesis by (auto simp: Evaluate_def Let_def tt scheduled_def aged_def)
  next
    case (Some p)
    with ls have "cur_LastSuccessAt p = ls" by simp
    with Some sa show ?thesis
      by (cases ls) (auto simp: Evaluate_def Let_def tt scheduled_def aged_def)
  qed
qed

lemma Evaluate_simps [simp]:
  "cur_key (Evaluate rid ob prev now) = (rid, o_CheckType ob)" "cur_ResourceID (Evaluate rid ob prev now) = rid"
  "cur_ObservationID (Evaluate rid ob prev now) = Some (o_ID ob)" "cur_UpdatedAt (Evaluate rid ob prev now) = now"
  by (simp_all add: cur_key_def Evaluate_closed)

lemma stored_current_simps [simp]:
  "cur_key (stored_current c) = cur_key c" "cur_ResourceID (stored_current c) = cur_ResourceID c"
  "cur_ObservationID (stored_current c) = cur_ObservationID c" "cur_State (stored_current c) = cur_State c"
  "cur_UpdatedAt (stored_current c) = truncate_us (cur_UpdatedAt c)"
  by (simp_all add: stored_current_def cur_key_def)

lemma scan_observation_simps [simp]:
  "o_ID (scan_observation r) = ob_id r" "o_CheckType (scan_observation r) = ob_check_type r"
  "o_State (scan_observation r) = ob_observed_state r" "o_ObservedAt (scan_observation r) = ob_observed_at r"
  "o_Summary (scan_observation r) = ob_summary r" "o_ResourceID (scan_observation r) = ob_resource_id r"
  by (simp_all add: scan_observation_def)

definition reflects :: "current \<Rightarrow> observation_row \<Rightarrow> bool" where
  "reflects c r \<longleftrightarrow> obs_key r = cur_key c
     \<and> Evaluate (cur_ResourceID c) (scan_observation r) (Some c) (cur_UpdatedAt c) = c"

lemma Evaluate_stored:
  fixes rid :: string and prev :: "current option" and now :: time
  assumes us: "1000 dvd fst (TransitionTimes ob)" "1000 dvd snd (TransitionTimes ob)"
    and at: "truncate_us (o_ObservedAt ob) = o_ObservedAt ob"
  defines "c \<equiv> stored_current (Evaluate rid ob prev now)"
  shows "Evaluate rid ob (Some c) (truncate_us now) = c"
proof -
  have fixed: "truncate_us (fst (TransitionTimes ob)) = fst (TransitionTimes ob)"
    "truncate_us (snd (TransitionTimes ob)) = snd (TransitionTimes ob)" using us by (simp_all add: truncate_us_fixed)
  have aged: "aged ob (truncate_us now) = aged ob now"
    using truncate_us_less [OF us(1), of now] truncate_us_less [OF us(2), of now] by (auto simp: aged_def)
  have le: "\<not> truncate_us t < o_ObservedAt ob" if "\<not> t < o_ObservedAt ob" for t
    using truncate_us_mono [of "o_ObservedAt ob" t] that at by simp
  have ls: "cur_LastSuccessAt c = map_option truncate_us (success_at ob prev)"
    by (simp add: c_def stored_current_def Evaluate_closed)
  have "success_at ob (Some c) = cur_LastSuccessAt c"
    using le by (auto simp: success_at_def [of ob "Some c"] ls) (auto simp: success_at_def at Let_def split: option.splits if_splits)
  then show ?thesis
    by (simp add: Evaluate_closed [of rid ob "Some c"] aged ls)
      (simp add: c_def stored_current_def Evaluate_closed scheduled_def fixed at)
qed

lemma reflects_stored:
  assumes "obs_row_ok r" and "obs_key r = (rid, ct)"
  shows "reflects (stored_current (Evaluate rid (scan_observation r) prev now)) r"
proof -
  have "truncate_us (o_ObservedAt (scan_observation r)) = o_ObservedAt (scan_observation r)"
    using assms(1) by (simp add: obs_row_ok_def)
  from Evaluate_stored [OF TransitionTimes_us [OF assms(1)] this, of rid prev now]
  show ?thesis using assms(2)
    by (simp add: reflects_def obs_key_def)
qed

section \<open>The invariant\<close>

definition has_signal :: "signal_row list \<Rightarrow> observation_row \<Rightarrow> bool" where
  "has_signal sigs r \<longleftrightarrow> (\<exists>s \<in> set sigs. sg_source_key s = ObservationSourceKey (ob_id r)
     \<and> sg_kind s = ''observation'' \<and> sg_integration_id s = ob_integration_id r \<and> sg_resource_id s = ob_resource_id r
     \<and> sg_observation_id s = nullif (ob_id r) \<and> sg_check_type s = ob_check_type r \<and> sg_state s = ob_observed_state r
     \<and> sg_reason s = ob_summary r \<and> sg_occurred_at s = ob_observed_at r)"

text \<open>Observations and journal: every observation is a valid row of a known resource and has its
  signal, and only observations have observation signals.\<close>

definition observations_ok :: "tables \<Rightarrow> bool" where
  "observations_ok t \<longleftrightarrow> distinct (map ob_id (t_observations t))
     \<and> (\<forall>r \<in> set (t_observations t). obs_row_ok r \<and> ob_resource_id r \<in> rs_id ` set (t_resources t)
          \<and> has_signal (t_signals t) r)
     \<and> distinct (map sg_source_key (t_signals t))
     \<and> (\<forall>s \<in> set (t_signals t). \<forall>i. sg_source_key s = ObservationSourceKey i \<longrightarrow> i \<in> ob_id ` set (t_observations t))"

text \<open>Current health, for every check except those in \<open>K\<close>, which are being worked on: one row per
  check with an observation, the evaluation of the newest observation. In \<open>K\<close> it is the evaluation
  of some observation of the check.\<close>

definition currents_ok :: "(string \<times> string) set \<Rightarrow> tables \<Rightarrow> bool" where
  "currents_ok K t \<longleftrightarrow> distinct (map cur_key (t_current t))
     \<and> (\<forall>c \<in> set (t_current t). \<exists>r \<in> set (t_observations t). reflects c r
          \<and> (cur_key c \<notin> K \<longrightarrow> newest_of (cur_key c) (t_observations t) = Some r))
     \<and> (\<forall>r \<in> set (t_observations t). obs_key r \<notin> K \<longrightarrow> obs_key r \<in> cur_key ` set (t_current t))"

definition health_inv :: "(string \<times> string) set \<Rightarrow> tables \<Rightarrow> bool" where
  "health_inv K t \<longleftrightarrow> observations_ok t \<and> currents_ok K t"

definition health_part where
  "health_part t = (t_observations t, t_current t, t_signals t, t_resources t)"

lemma health_inv_cong: "health_part a = health_part b \<Longrightarrow> health_inv K a = health_inv K b"
  by (simp add: health_part_def health_inv_def observations_ok_def currents_ok_def)

lemma health_inv_mono: "health_inv K t \<Longrightarrow> K \<subseteq> L \<Longrightarrow> health_inv L t"
  unfolding health_inv_def currents_ok_def by (meson in_mono)

lemma reflects_observation: "reflects c r \<Longrightarrow> cur_ObservationID c = Some (ob_id r)"
  by (metis reflects_def Evaluate_simps(3) scan_observation_simps(1))

lemma currents_okD:
  "currents_ok K t \<Longrightarrow> c \<in> set (t_current t) \<Longrightarrow> \<exists>r \<in> set (t_observations t). reflects c r
     \<and> (cur_key c \<notin> K \<longrightarrow> newest_of (cur_key c) (t_observations t) = Some r)"
  by (simp add: currents_ok_def)

lemma reflects_key: "reflects c r \<Longrightarrow> obs_key r = cur_key c"
  by (simp add: reflects_def)

lemma distinct_id_eq:
  "observations_ok t \<Longrightarrow> r \<in> set (t_observations t) \<Longrightarrow> x \<in> set (t_observations t) \<Longrightarrow> ob_id x = ob_id r \<Longrightarrow> x = r"
  by (auto simp: observations_ok_def distinct_map dest: inj_onD)

subsection \<open>Resources and locks\<close>

lemma health_inv_resources:
  assumes "health_inv K t" and "rs_id ` set (t_resources t) \<subseteq> rs_id ` set rows"
  shows "health_inv K (t\<lparr>t_resources := rows\<rparr>)"
  using assms by (auto simp: health_inv_def observations_ok_def currents_ok_def)

lemma merge_resource_id [simp]: "rs_id (merge_resource input attributes r) = rs_id r"
  by (simp add: merge_resource_def Let_def)

lemma image_update_where:
  "(\<And>r. p r \<Longrightarrow> g (f r) = g r) \<Longrightarrow> g ` set (update_where p f rows) = g ` set rows"
  by (metis list.set_map map_update_where)

lemma triple_upsertResource: "triple (health_inv K) (upsertResource env iid input) (\<lambda>_. health_inv K)"
  unfolding upsertResource_def
  by (intro triple_option triple_fail triple_insert)
    (auto simp: Let_def image_update_where intro!: health_inv_resources split: option.splits if_splits)

lemma triple_upsertResources: "triple (health_inv K) (upsertResources env iid rs ids) (\<lambda>_. health_inv K)"
  by (induction rs arbitrary: ids)
    (auto intro: triple_return triple_bind [OF triple_upsertResource])

definition located :: "string set \<Rightarrow> tables \<Rightarrow> bool" where
  "located I t \<longleftrightarrow> I \<subseteq> rs_id ` set (t_resources t)"

lemma triple_lockResource:
  "triple (\<lambda>t. health_inv K t \<and> located I t) (lockResource iid i) (\<lambda>_ t. health_inv K t \<and> located (insert i I) t)"
  unfolding lockResource_def
  by (rule triple_row) (auto simp: located_def find_Some_iff image_iff intro: nth_mem)

lemma triple_locks:
  "triple (\<lambda>t. health_inv K t \<and> located I t) (tx_for (lockResource iid) xs)
     (\<lambda>_ t. health_inv K t \<and> located (set xs \<union> I) t)"
proof (induction xs arbitrary: I)
  case Nil
  show ?case unfolding tx_for.simps by (rule triple_return) simp
next
  case (Cons x xs)
  have "triple (\<lambda>t. health_inv K t \<and> located (insert x I) t) (tx_for (lockResource iid) xs)
     (\<lambda>_ t. health_inv K t \<and> located (set (x # xs) \<union> I) t)"
    using Cons.IH [of "insert x I"] by (rule triple_conseq) auto
  then show ?case by (simp del: set_simps) (rule triple_bind [OF triple_lockResource])
qed

lemma indexed_Inr: "indexed i m w = (Inr x, w') \<longleftrightarrow> m w = (Inr x, w')"
  by (auto simp: indexed_def tx_catch_def split: prod.splits sum.splits)

lemma triple_indexed: "triple P m Q \<Longrightarrow> triple P (indexed i m) Q"
  by (auto simp: triple_def indexed_Inr)

lemma triple_resolveResource: "triple P (resolveResource iid e) (\<lambda>_. P)"
  unfolding resolveResource_def
  by (rule triple_bind [where R = "\<lambda>_. P"]) (auto intro: triple_query triple_return triple_intros)

lemma triple_resolveResources:
  "triple P (resolveResources iid n obs ids)
     (\<lambda>ids' t. P t \<and> (\<forall>e. map_of ids e \<noteq> None \<longrightarrow> map_of ids' e \<noteq> None) \<and>
       (\<forall>ob \<in> set obs. map_of ids' (oi_ExternalResourceID ob) \<noteq> None))"
proof (induction obs arbitrary: n ids)
  case Nil
  show ?case unfolding resolveResources.simps by (rule triple_return) simp
next
  case (Cons ob obs)
  show ?case
  proof (cases "map_of ids (oi_ExternalResourceID ob) = None")
    case False
    with Cons [of "Suc n" ids] show ?thesis by simp (rule triple_conseq, assumption, auto)
  next
    case True
    then show ?thesis
      by simp (rule triple_bind [OF triple_indexed [OF triple_resolveResource]],
        rule triple_conseq [OF Cons], auto split: if_splits)
  qed
qed

subsection \<open>Storing an observation with its signal\<close>

definition signal_row_of :: "signal_input \<Rightarrow> string \<Rightarrow> time \<Rightarrow> signal_row" where
  "signal_row_of input u c = \<lparr> sg_id = u, sg_source_key = si_SourceKey input, sg_kind = si_Kind input,
     sg_integration_id = si_IntegrationID input, sg_resource_id = si_ResourceID input,
     sg_observation_id = nullif (si_ObservationID input), sg_check_type = si_CheckType input, sg_state = si_State input,
     sg_reason = si_Reason input, sg_reason_code = nullif (si_ReasonCode input),
     sg_occurred_at = truncate_us (si_OccurredAt input), sg_created_at = c,
     sg_available_at = truncate_us (if si_AvailableAt input = 0 then si_OccurredAt input else si_AvailableAt input),
     sg_claimed_until = None, sg_attempts = 0, sg_processed_at = None, sg_dead_lettered_at = None, sg_last_error_code = None \<rparr>"

lemma Append_result:
  assumes "Append input w = (Inr x, w')"
  shows "if si_SourceKey input \<in> sg_source_key ` set (t_signals (w_tables w)) then w_tables w' = w_tables w
    else \<exists>u c. w_tables w' = (w_tables w)\<lparr>t_signals := t_signals (w_tables w) @ [signal_row_of input u c]\<rparr>"
  using assms unfolding Append_def Let_def signal_row_of_def tx_insert_Inr by (auto split: if_splits)

definition stores :: "ingest_env \<Rightarrow> string \<Rightarrow> string \<Rightarrow> observation_input \<Rightarrow> time \<Rightarrow> observation_row \<Rightarrow> bool" where
  "stores env iid rid ob receivedAt row \<longleftrightarrow> (\<exists>oid measurements metadata.
     ie_Marshal env (oi_Measurements ob) = Some measurements \<and> ie_Marshal env (oi_Metadata ob) = Some metadata
     \<and> (oi_ID ob \<noteq> '''' \<longrightarrow> oid = uuid_param (oi_ID ob))
     \<and> row = new_observation env oid iid rid ob receivedAt measurements metadata)"

definition duplicates :: "ingest_env \<Rightarrow> string \<Rightarrow> string \<Rightarrow> observation_input \<Rightarrow> observation_row list \<Rightarrow> bool" where
  "duplicates env iid rid ob rows \<longleftrightarrow> (\<exists>r measurements metadata.
     ie_Marshal env (oi_Measurements ob) = Some measurements \<and> ie_Marshal env (oi_Metadata ob) = Some metadata
     \<and> conflicting iid rid ob rows = Some r
     \<and> sameObservationContent env (scan_observation r) ob (ob_measurements r) (ob_metadata r) measurements metadata)"

lemma insertObservation_Inr:
  assumes "insertObservation env iid rid ob receivedAt w = (Inr (stored, inserted), w')"
  shows "(inserted \<and> (\<exists>row. stores env iid rid ob receivedAt row \<and> stored = scan_observation row
       \<and> ob_id row \<notin> ob_id ` set (t_observations (w_tables w))
       \<and> \<not> list_ex (same_delivery iid rid ob) (t_observations (w_tables w))
       \<and> w_tables w' = (w_tables w)\<lparr>t_observations := t_observations (w_tables w) @ [row]\<rparr>))
    \<or> (\<not> inserted \<and> duplicates env iid rid ob (t_observations (w_tables w)) \<and> w_tables w' = w_tables w)"
proof -
  obtain m d where m: "ie_Marshal env (oi_Measurements ob) = Some m" and d: "ie_Marshal env (oi_Metadata ob) = Some d"
    using assms by (auto simp: insertObservation_def split: option.splits)
  obtain found w1 where row: "insertObservationRow env iid rid ob receivedAt m d w = (Inr found, w1)"
    and rest: "(case found of Some row \<Rightarrow> tx_return (scan_observation row, True)
       | None \<Rightarrow> tx_bind (findConflictingObservation iid rid ob) (\<lambda>(existing, em, ed).
           if \<not> sameObservationContent env existing ob em ed m d
           then tx_fail (ConflictError ''observation'' (-1) ''idempotency_conflict'')
           else tx_return (existing, False))) w1 = (Inr (stored, inserted), w')"
    using assms by (auto simp: insertObservation_def m d tx_bind_Inr)
  show ?thesis
  proof (cases found)
    case (Some r)
    define oid where "oid = (if oi_ID ob = '''' then w_uuid w (w_next w) else uuid_param (oi_ID ob))"
    have r: "r = new_observation env oid iid rid ob receivedAt m d"
      and fresh: "oid \<notin> ob_id ` set (t_observations (w_tables w))" "\<not> list_ex (same_delivery iid rid ob) (t_observations (w_tables w))"
      and w1: "w_tables w1 = (w_tables w)\<lparr>t_observations := t_observations (w_tables w) @ [r]\<rparr>"
      using row Some unfolding insertObservationRow_def tx_insert_Inr Let_def oid_def [symmetric]
      by (auto split: if_splits)
    have "ob_id r = oid" by (simp add: r new_observation_def Let_def)
    moreover have "stores env iid rid ob receivedAt r"
      unfolding stores_def using m d r oid_def by (metis (no_types, lifting))
    ultimately show ?thesis using rest Some fresh w1 by auto
  next
    case None
    have "w_tables w1 = w_tables w"
      using row None by (auto simp: insertObservationRow_def tx_insert_Inr Let_def split: if_splits)
    with rest None m d show ?thesis
      by (auto simp: findConflictingObservation_def tx_bind_Inr tx_row_Inr duplicates_def split: if_splits)
  qed
qed

definition valid_observation :: "observation_input \<Rightarrow> bool" where
  "valid_observation ob \<longleftrightarrow> 1 \<le> oi_ExpectedRefreshSeconds ob \<and> oi_ExpectedRefreshSeconds ob \<le> 86400 \<and> ValidObserved (oi_State ob)"

lemma stores_simps:
  assumes "stores env iid rid ob receivedAt row"
  shows "obs_key row = (rid, oi_CheckType ob)" "ob_resource_id row = rid" "ob_integration_id row = uuid_param iid"
    "valid_observation ob \<Longrightarrow> obs_row_ok row" "same_delivery iid rid ob row" "ob_check_type row = oi_CheckType ob"
  using assms by (auto simp: stores_def new_observation_def Let_def obs_key_def obs_row_ok_def valid_observation_def same_delivery_def)

lemma storeObservation_Inr:
  assumes "storeObservation env iid rid n ob receivedAt w = (Inr inserted, w')"
  shows "(inserted \<and> (\<exists>row w1. stores env iid rid ob receivedAt row
       \<and> ob_id row \<notin> ob_id ` set (t_observations (w_tables w))
       \<and> \<not> list_ex (same_delivery iid rid ob) (t_observations (w_tables w))
       \<and> w_tables w1 = (w_tables w)\<lparr>t_observations := t_observations (w_tables w) @ [row]\<rparr>
       \<and> Append (observation_signal iid rid (scan_observation row) (reason_code ob) receivedAt) w1 = (Inr (), w')))
    \<or> (\<not> inserted \<and> duplicates env iid rid ob (t_observations (w_tables w)) \<and> w_tables w' = w_tables w)"
proof -
  obtain stored b w1 where ins: "insertObservation env iid rid ob receivedAt w = (Inr (stored, b), w1)"
    and rest: "tx_bind (if b then Append (observation_signal iid rid stored (reason_code ob) receivedAt) else tx_return ())
       (\<lambda>_. tx_return b) w1 = (Inr inserted, w')"
    using assms by (auto simp: storeObservation_def tx_bind_Inr [of "indexed n _"] indexed_Inr)
  then show ?thesis using insertObservation_Inr [OF ins] by (cases b) (auto simp: tx_bind_Inr)
qed

lemma observation_key_inj [simp]: "ObservationSourceKey a = ObservationSourceKey b \<longleftrightarrow> a = b"
  by (simp add: ObservationSourceKey_def)

lemma has_signal_append: "has_signal sigs r \<Longrightarrow> has_signal (sigs @ [s]) r"
  by (auto simp: has_signal_def)

lemma observations_ok_store:
  assumes ok: "observations_ok t" and row: "stores env iid rid ob receivedAt row" "valid_observation ob"
    and fresh: "ob_id row \<notin> ob_id ` set (t_observations t)" and located: "rid \<in> rs_id ` set (t_resources t)"
    and append: "Append (observation_signal iid rid (scan_observation row) code receivedAt) w1 = (Inr x, w')"
    and w1: "w_tables w1 = t\<lparr>t_observations := t_observations t @ [row]\<rparr>"
  shows "observations_ok (w_tables w') \<and> t_observations (w_tables w') = t_observations t @ [row]
    \<and> t_current (w_tables w') = t_current t \<and> t_resources (w_tables w') = t_resources t"
proof -
  let ?in = "observation_signal iid rid (scan_observation row) code receivedAt"
  have key: "si_SourceKey ?in = ObservationSourceKey (ob_id row)" by (simp add: observation_signal_def)
  have new: "si_SourceKey ?in \<notin> sg_source_key ` set (t_signals t)"
    using ok fresh by (auto simp: key observations_ok_def)
  then obtain u c where w': "w_tables w' = t\<lparr>t_observations := t_observations t @ [row],
      t_signals := t_signals t @ [signal_row_of ?in u c]\<rparr>"
    using Append_result [OF append] by (auto simp: w1)
  have rowok: "obs_row_ok row" and fields: "ob_integration_id row = uuid_param iid" "ob_resource_id row = rid"
    using stores_simps [OF row(1)] row(2) by auto
  have "has_signal [signal_row_of ?in u c] row"
    using fields rowok by (simp add: has_signal_def signal_row_of_def observation_signal_def obs_row_ok_def)
  then have sig: "has_signal (t_signals t @ [signal_row_of ?in u c]) row" by (auto simp: has_signal_def)
  have src: "sg_source_key (signal_row_of ?in u c) = ObservationSourceKey (ob_id row)" by (simp add: signal_row_of_def key)
  have "observations_ok (w_tables w')"
    using ok rowok fresh located sig new has_signal_append
    by (auto simp: observations_ok_def w' src fields key)
  then show ?thesis by (simp add: w')
qed

lemma currents_ok_append:
  assumes "currents_ok K t" and "t_observations u = t_observations t @ [row]" "t_current u = t_current t"
  shows "currents_ok (insert (obs_key row) K) u"
proof -
  have "\<exists>r \<in> set (t_observations u). reflects c r \<and> (cur_key c \<notin> insert (obs_key row) K \<longrightarrow> newest_of (cur_key c) (t_observations u) = Some r)"
    if "c \<in> set (t_current t)" for c
  proof -
    obtain r where "r \<in> set (t_observations t)" "reflects c r" "cur_key c \<notin> K \<longrightarrow> newest_of (cur_key c) (t_observations t) = Some r"
      using assms(1) \<open>c \<in> set (t_current t)\<close> by (auto simp: currents_ok_def)
    then show ?thesis using newest_of_append_other [of row "cur_key c" "t_observations t"]
      by (intro bexI [of _ r]) (auto simp: assms(2))
  qed
  with assms show ?thesis by (auto simp: currents_ok_def)
qed

lemma triple_storeObservation:
  assumes "valid_observation ob" "rid \<in> I"
  shows "triple (\<lambda>t. health_inv K t \<and> located I t) (storeObservation env iid rid n ob receivedAt)
    (\<lambda>_ t. health_inv (insert (rid, oi_CheckType ob) K) t \<and> located I t)"
  unfolding triple_def
proof (intro allI impI, elim conjE)
  fix w b w'
  assume inv: "health_inv K (w_tables w)" and loc: "located I (w_tables w)"
    and run: "storeObservation env iid rid n ob receivedAt w = (Inr b, w')"
  have rid: "rid \<in> rs_id ` set (t_resources (w_tables w))" using loc assms(2) by (auto simp: located_def)
  show "health_inv (insert (rid, oi_CheckType ob) K) (w_tables w') \<and> located I (w_tables w')"
  proof (cases b)
    case False
    with storeObservation_Inr [OF run] inv loc show ?thesis by (auto intro: health_inv_mono)
  next
    case True
    with storeObservation_Inr [OF run] obtain row w1 where row: "stores env iid rid ob receivedAt row"
      "ob_id row \<notin> ob_id ` set (t_observations (w_tables w))"
      "w_tables w1 = (w_tables w)\<lparr>t_observations := t_observations (w_tables w) @ [row]\<rparr>"
      "Append (observation_signal iid rid (scan_observation row) (reason_code ob) receivedAt) w1 = (Inr (), w')" by blast
    from inv have "observations_ok (w_tables w)" "currents_ok K (w_tables w)" by (simp_all add: health_inv_def)
    with observations_ok_store [OF _ row(1) assms(1) row(2) rid row(4,3)]
      currents_ok_append [of K "w_tables w" "w_tables w'" row] stores_simps(1) [OF row(1)] loc
    show ?thesis by (simp add: health_inv_def located_def)
  qed
qed

lemma triple_storeObservations:
  assumes "\<forall>ob \<in> set obs. valid_observation ob \<and> resource_of ids ob \<in> I"
  shows "triple (\<lambda>t. health_inv K t \<and> located I t) (storeObservations env iid ids receivedAt n obs result)
    (\<lambda>_ t. health_inv (K \<union> (\<lambda>ob. (resource_of ids ob, oi_CheckType ob)) ` set obs) t)"
  using assms
proof (induction obs arbitrary: K n result)
  case Nil
  show ?case unfolding storeObservations.simps by (rule triple_return) simp
next
  case (Cons ob obs)
  have "valid_observation ob" "resource_of ids ob \<in> I" using Cons.prems by auto
  moreover have "\<forall>ob \<in> set obs. valid_observation ob \<and> resource_of ids ob \<in> I" using Cons.prems by auto
  ultimately show ?case
    unfolding storeObservations.simps
    by (intro triple_bind [OF triple_storeObservation] triple_conseq [OF Cons.IH]) (auto simp: insert_commute)
qed

subsection \<open>Re-evaluating a check\<close>

definition upsert_current :: "current \<Rightarrow> current list \<Rightarrow> current list" where
  "upsert_current c rows = (if cur_key c \<in> cur_key ` set rows
     then update_where (\<lambda>d. cur_key d = cur_key c) (\<lambda>_. stored_current c) rows else rows @ [stored_current c])"

lemma upsert_current_rows:
  assumes "distinct (map cur_key rows)"
  shows "distinct (map cur_key (upsert_current c rows))"
    and "cur_key ` set (upsert_current c rows) = insert (cur_key c) (cur_key ` set rows)"
    and "d \<in> set (upsert_current c rows) \<Longrightarrow> d = stored_current c \<or> d \<in> set rows \<and> cur_key d \<noteq> cur_key c"
proof -
  have keys: "map cur_key (update_where (\<lambda>d. cur_key d = cur_key c) (\<lambda>_. stored_current c) rows) = map cur_key rows"
    by (rule map_update_where) simp
  show "distinct (map cur_key (upsert_current c rows))"
    using assms by (simp add: upsert_current_def keys)
  show "cur_key ` set (upsert_current c rows) = insert (cur_key c) (cur_key ` set rows)"
    using arg_cong [OF keys, of set] by (auto simp: upsert_current_def)
  show "d = stored_current c \<or> d \<in> set rows \<and> cur_key d \<noteq> cur_key c" if "d \<in> set (upsert_current c rows)"
    using that by (cases "cur_key c \<in> cur_key ` set rows") (auto simp: upsert_current_def set_update_where image_iff)
qed

lemma currents_ok_upsert:
  assumes "currents_ok K t" and "c = Evaluate rid (scan_observation r) prev now"
    and "newest_of (rid, ct) (t_observations t) = Some r" and "obs_row_ok r"
  shows "currents_ok (K - {(rid, ct)}) (t\<lparr>t_current := upsert_current c (t_current t)\<rparr>)"
proof -
  note r = newest_of_SomeD [OF assms(3)]
  have key: "cur_key c = (rid, ct)" using r(2) by (simp add: assms(2) obs_key_def)
  have new: "reflects (stored_current c) r" using reflects_stored [OF assms(4) r(2)] by (simp add: assms(2))
  have dist: "distinct (map cur_key (t_current t))" using assms(1) by (simp add: currents_ok_def)
  note rows = upsert_current_rows [OF dist]
  have "\<exists>x \<in> set (t_observations t). reflects d x \<and> (cur_key d \<notin> K - {(rid, ct)} \<longrightarrow> newest_of (cur_key d) (t_observations t) = Some x)"
    if "d \<in> set (upsert_current c (t_current t))" for d
    using rows(3) [OF that]
  proof (elim disjE conjE)
    assume "d = stored_current c"
    then show ?thesis using new r(1) assms(3) key by (intro bexI [of _ r]) auto
  next
    assume "d \<in> set (t_current t)" "cur_key d \<noteq> cur_key c"
    then show ?thesis using assms(1) key by (auto simp: currents_ok_def)
  qed
  then show ?thesis using assms(1) rows(1,2) key by (auto simp: currents_ok_def)
qed

lemma Evaluate_equivalent:
  assumes "reflects p r" and "currentEquivalent p (Evaluate (cur_ResourceID p) (scan_observation x) prev now)"
    and "observations_ok t" "r \<in> set (t_observations t)" "x \<in> set (t_observations t)"
  shows "x = r"
proof -
  have "cur_ObservationID p = Some (ob_id x)" using assms(2) by (simp add: currentEquivalent_def)
  with reflects_observation [OF assms(1)] have "ob_id x = ob_id r" by simp
  with assms(3-5) show ?thesis by (intro distinct_id_eq [of t]) auto
qed

lemma currents_ok_skip:
  assumes ok: "currents_ok K t" "observations_ok t" and p: "find_row cur_key (rid, ct) (t_current t) = Some p"
    and x: "newest_of (rid, ct) (t_observations t) = Some x"
    and eq: "currentEquivalent p (Evaluate rid (scan_observation x) prev now)"
  shows "currents_ok (K - {(rid, ct)}) t"
proof -
  have pin: "p \<in> set (t_current t)" and key: "cur_key p = (rid, ct)" using find_row_SomeD [OF p] by auto
  have dist: "distinct (map cur_key (t_current t))" using ok(1) by (simp add: currents_ok_def)
  have only: "d = p" if "d \<in> set (t_current t)" "cur_key d = (rid, ct)" for d
    using that pin key dist by (metis distinct_map inj_onD)
  obtain r where r: "r \<in> set (t_observations t)" "reflects p r" using ok(1) pin by (auto simp: currents_ok_def)
  have "x = r"
    by (rule Evaluate_equivalent [OF r(2) _ ok(2) r(1) newest_of_SomeD(1) [OF x]]) (use eq key in \<open>auto simp: cur_key_def\<close>)
  then have new: "newest_of (cur_key p) (t_observations t) = Some r" using x key by simp
  have "\<exists>r \<in> set (t_observations t). reflects d r \<and> (cur_key d \<notin> K - {(rid, ct)} \<longrightarrow> newest_of (cur_key d) (t_observations t) = Some r)"
    if "d \<in> set (t_current t)" for d
    using only [OF that] that r new ok(1) by (cases "cur_key d = (rid, ct)") (auto simp: currents_ok_def)
  moreover have "obs_key y \<in> cur_key ` set (t_current t)" if "y \<in> set (t_observations t)" "obs_key y \<notin> K - {(rid, ct)}" for y
    using that ok(1) pin key by (cases "obs_key y = (rid, ct)") (metis image_eqI, auto simp: currents_ok_def)
  ultimately show ?thesis using dist by (auto simp: currents_ok_def)
qed

lemma currents_ok_unobserved:
  assumes "currents_ok K t" and "newest_of k (t_observations t) = None"
  shows "currents_ok (K - {k}) t"
proof -
  have none: "k \<notin> obs_key ` set (t_observations t)" using assms(2) by (simp add: newest_of_None)
  have "cur_key c \<noteq> k" if c: "c \<in> set (t_current t)" for c
  proof -
    obtain r where "r \<in> set (t_observations t)" "reflects c r"
      using currents_okD [OF assms(1) c] by blast
    with none show ?thesis by (metis image_eqI reflects_key)
  qed
  then have "cur_key c \<notin> K" if "c \<in> set (t_current t)" "cur_key c \<notin> K - {k}" for c using that by blast
  moreover have "obs_key r \<notin> K" if "r \<in> set (t_observations t)" "obs_key r \<notin> K - {k}" for r using that none by blast
  ultimately show ?thesis using assms(1) unfolding currents_ok_def by blast
qed

lemma triple_refreshCurrent: "triple (health_inv K) (refreshCurrent key now) (\<lambda>_. health_inv (K - {key}))"
  unfolding triple_def
proof (intro allI impI)
  fix w x w'
  assume inv: "health_inv K (w_tables w)" and run: "refreshCurrent key now w = (Inr x, w')"
  obtain rid ct where key: "key = (rid, ct)" by force
  let ?t = "w_tables w"
  define prev new where "prev = find_row cur_key (rid, ct) (t_current ?t)" and "new = newest_of (rid, ct) (t_observations ?t)"
  have ok: "observations_ok ?t" "currents_ok K ?t" using inv by (simp_all add: health_inv_def)
  have "\<not> faulty w" "\<not> faulty (tick w)"
    using run by (auto simp: refreshCurrent_def loadCurrent_def latestObservation_def tx_bind_Inr tx_query_Inr)
  then have load: "loadCurrent rid ct w = (Inr prev, tick w)"
    and latest: "latestObservation rid ct (tick w) = (Inr (map_option scan_observation new), tick (tick w))"
    by (simp_all add: loadCurrent_def latestObservation_def tx_query_Inr prev_def new_def)
  have body: "(case map_option scan_observation new of None \<Rightarrow> tx_return None
     | Some ob \<Rightarrow> let desired = Evaluate rid ob prev now
         in if (case prev of None \<Rightarrow> False | Some p \<Rightarrow> currentEquivalent p desired) then tx_return None
            else tx_bind (saveCurrent desired) (\<lambda>_.
              tx_return (if (case prev of None \<Rightarrow> True | Some p \<Rightarrow> cur_State p \<noteq> cur_State desired)
                then Some \<lparr> ch_Before = prev, ch_After = desired \<rparr> else None))) (tick (tick w)) = (Inr x, w')"
    using run unfolding refreshCurrent_def key fst_conv snd_conv 
      tx_bind_run [where m = "loadCurrent rid ct", OF load] tx_bind_run [where m = "latestObservation rid ct", OF latest] .
  show "health_inv (K - {key}) (w_tables w')"
  proof (cases new)
    case None
    then have "w_tables w' = ?t" using body by auto
    with currents_ok_unobserved [OF ok(2) None [unfolded new_def]] ok(1) key show ?thesis by (simp add: health_inv_def)
  next
    case (Some r)
    note r = Some [unfolded new_def]
    define d where "d = Evaluate rid (scan_observation r) prev now"
    have row: "obs_row_ok r" using ok(1) newest_of_SomeD(1) [OF r] by (simp add: observations_ok_def)
    show ?thesis
    proof (cases "case prev of None \<Rightarrow> False | Some p \<Rightarrow> currentEquivalent p d")
      case True
      then obtain p where p: "prev = Some p" "currentEquivalent p d" by (auto split: option.splits)
      have "w_tables w' = ?t" using body True by (auto simp: Some d_def [symmetric] Let_def)
      with currents_ok_skip [OF ok(2,1) p(1) [unfolded prev_def] r p(2) [unfolded d_def]] ok(1) key
      show ?thesis by (simp add: health_inv_def)
    next
      case False
      then have "w_tables w' = ?t\<lparr>t_current := upsert_current d (t_current ?t)\<rparr>"
        using body by (auto simp: Some d_def [symmetric] Let_def tx_bind_Inr saveCurrent_def tx_exec_Inr upsert_current_def)
      with currents_ok_upsert [OF ok(2) d_def r row] ok(1) key show ?thesis
        by (simp add: health_inv_def observations_ok_def)
    qed
  qed
qed

lemma triple_refreshCurrents: "triple (health_inv K) (refreshCurrents keys now cs) (\<lambda>_. health_inv (K - set keys))"
proof (induction keys arbitrary: K cs)
  case Nil
  show ?case unfolding refreshCurrents.simps by (rule triple_return) simp
next
  case (Cons k keys)
  have "K - {k} - set keys = K - set (k # keys)" by auto
  then show ?case using Cons [of "K - {k}"] unfolding refreshCurrents.simps
    by (intro triple_bind [OF triple_refreshCurrent]) simp
qed

subsection \<open>Ingestion\<close>

text \<open>What a valid batch has been checked for.\<close>

lemma validateObservations_Nil:
  "validateObservations env receivedAt n obs = [] \<Longrightarrow> ob \<in> set obs \<Longrightarrow> \<exists>i. validateObservation env ob i receivedAt = []"
  by (induction obs arbitrary: n) auto

lemma addFieldError_not_Nil [simp]: "addFieldError r i f c \<noteq> []"
  by (simp add: addFieldError_def)

lemma validateObservation_Nil:
  assumes "validateObservation env ob i receivedAt = []"
  shows "valid_observation ob"
  using assms by (auto simp: validateObservation_def valid_observation_def split: if_splits)

lemma ValidateBatch_observations:
  assumes "ValidateBatch env ba receivedAt = Inr x" "ob \<in> set (ba_Observations ba)"
  shows "\<exists>i. validateObservation env ob i receivedAt = []"
proof -
  have "validateObservations env receivedAt 0 (ba_Observations ba) = []"
    using assms(1) by (auto simp: ValidateBatch_def Let_def split: if_splits)
  from validateObservations_Nil [OF this assms(2)] show ?thesis .
qed

lemma resource_of_located: "map_of ids (oi_ExternalResourceID ob) \<noteq> None \<Longrightarrow> resource_of ids ob \<in> set (map snd ids)"
  by (cases "map_of ids (oi_ExternalResourceID ob)") (force simp: resource_of_def dest: map_of_SomeD)+

locale commit_hook =
  fixes hook :: "ingest_result \<Rightarrow> unit tx"
  assumes hook_keeps: "keeps health_part (hook result)"
begin

lemma hook_triple: "triple (health_inv K) (hook result) (\<lambda>_. health_inv K)"
  unfolding triple_def using keepsD [OF hook_keeps] health_inv_cong by blast

lemma ingest_triple:
  assumes valid: "ValidateBatch env ba receivedAt = Inr x"
  shows "triple (health_inv {}) (ingest_body env (Some hook) iid ba receivedAt) (\<lambda>_. health_inv {})"
proof -
  have obs: "valid_observation ob" if "ob \<in> set (ba_Observations ba)" for ob
    using ValidateBatch_observations [OF valid that] validateObservation_Nil by blast
  let ?keys = "\<lambda>ids. (\<lambda>ob. (resource_of ids ob, oi_CheckType ob)) ` set (ba_Observations ba)"
  have store: "triple (\<lambda>t. health_inv {} t \<and> located (set (sort (remdups (map snd ids))) \<union> {}) t)
      (storeObservations env iid ids receivedAt 0 (ba_Observations ba) r) (\<lambda>_. health_inv (?keys ids))"
    if "\<forall>ob \<in> set (ba_Observations ba). map_of ids (oi_ExternalResourceID ob) \<noteq> None" for ids r
    using triple_storeObservations [of "ba_Observations ba" ids "set (map snd ids)" "{}"] obs resource_of_located that by auto
  have refresh: "triple (health_inv (?keys ids)) (refreshCurrents (affected_checks ids (ba_Observations ba)) receivedAt [])
      (\<lambda>_. health_inv {})" for ids
    using triple_refreshCurrents [of "?keys ids" "affected_checks ids (ba_Observations ba)"] by (simp add: affected_checks_def)
  have final: "triple (health_inv {}) (tx_bind (hook r) (\<lambda>_. tx_return (Commit r))) (\<lambda>_. health_inv {})" for r
    by (intro triple_bind [OF hook_triple] triple_return)
  have stored: "triple (\<lambda>t. health_inv {} t \<and> (\<forall>e. map_of ids0 e \<noteq> None \<longrightarrow> map_of ids e \<noteq> None)
        \<and> (\<forall>ob \<in> set (ba_Observations ba). map_of ids (oi_ExternalResourceID ob) \<noteq> None))
      (tx_bind (tx_for (lockResource iid) (sort (remdups (map snd ids)))) (\<lambda>_.
       tx_bind (storeObservations env iid ids receivedAt 0 (ba_Observations ba) r) (\<lambda>result.
       tx_bind (refreshCurrents (affected_checks ids (ba_Observations ba)) receivedAt []) (\<lambda>changes.
       let result = result\<lparr>ir_Changes := changes\<rparr> in tx_bind (hook result) (\<lambda>_. tx_return (Commit result))))))
      (\<lambda>_. health_inv {})" for ids0 ids r
  proof (cases "\<forall>ob \<in> set (ba_Observations ba). map_of ids (oi_ExternalResourceID ob) \<noteq> None")
    case True
    show ?thesis unfolding Let_def
      by (rule triple_strengthen [OF triple_bind [OF triple_locks [of "{}" "{}"] triple_bind [OF store [OF True]
          triple_bind [OF refresh final]]]]) (auto simp: located_def)
  qed (auto simp: triple_def)
  show ?thesis
    unfolding ingest_body_def integrationExists_def option.case
    by (intro triple_bind [OF triple_query [of _ "\<lambda>_. health_inv {}"]] triple_if triple_fail
        triple_bind [OF triple_upsertResources] triple_bind [OF triple_resolveResources stored]) auto
qed

lemma ingest_preserves: "preserves (health_inv {}) (IngestWithCommit env (Some hook) iid ba receivedAt)"
proof -
  have pub: "preserves (health_inv {}) (tx_bind (hub_publish_committed (ir_Changes r)) (\<lambda>_. tx_return r))" for r
    by (auto simp: preserves_def always_def tx_bind_def hub_publish_committed_def)
  show ?thesis unfolding IngestWithCommit_def
    by (auto intro!: preserves_intros in_tx_preserves ingest_triple pub split: sum.splits)
qed

end

text \<open>Ingestion without a hook is ingestion with one that does nothing.\<close>

interpretation no_hook: commit_hook "\<lambda>_. tx_return ()"
  by unfold_locales (auto intro: frame_intros)

lemma ingest_body_no_hook: "ingest_body env None iid ba receivedAt = ingest_body env (Some (\<lambda>_. tx_return ())) iid ba receivedAt"
  by (simp only: ingest_body_def option.case)

lemma Ingest_no_hook: "Ingest env iid ba receivedAt = IngestWithCommit env (Some (\<lambda>_. tx_return ())) iid ba receivedAt"
  by (simp only: Ingest_def IngestWithCommit_def ingest_body_no_hook)

text \<open>Signals of other kinds leave the invariant alone.\<close>

lemma triple_Append_other:
  assumes "\<And>i. si_SourceKey input \<noteq> ObservationSourceKey i"
  shows "triple (health_inv K) (Append input) (\<lambda>_. health_inv K)"
  unfolding triple_def
proof (intro allI impI)
  fix w x w'
  assume inv: "health_inv K (w_tables w)" and run: "Append input w = (Inr x, w')"
  have ok: "observations_ok (t\<lparr>t_signals := t_signals t @ [signal_row_of input u c]\<rparr>)"
    if "observations_ok t" "si_SourceKey input \<notin> sg_source_key ` set (t_signals t)" for t u c
  proof -
    have src: "sg_source_key (signal_row_of input u c) = si_SourceKey input" by (simp add: signal_row_of_def)
    show ?thesis using that assms has_signal_append unfolding observations_ok_def by (auto simp: src)
  qed
  show "health_inv K (w_tables w')"
    using Append_result [OF run] inv ok [of "w_tables w"] by (auto simp: health_inv_def currents_ok_def split: if_splits)
qed

end
