(* ===== verification/Freshness.thy ===== *)
theory Freshness
  imports Observation_Health
begin

text \<open>
  The freshness worker (\<open>monitoring/freshness.go\<close>), which ages current health when no new
  observation arrives. A pass claims a bounded batch of due rows in one transaction, evaluates
  each at the time of the pass, and appends a freshness signal for every change. \<open>locked\<close> says
  which rows other sessions hold (\<open>SKIP LOCKED\<close>) and \<open>arrange\<close> in which order the statement meets
  rows that its \<open>ORDER BY\<close> does not separate. The counter of transitions is not represented.
\<close>

section \<open>Operations\<close>

record freshness_options =
  fo_BatchSize :: int
  fo_PollInterval :: duration

definition NewFreshnessWorker :: "freshness_options \<Rightarrow> freshness_options" where
  "NewFreshnessWorker options =
     \<lparr> fo_BatchSize = (if fo_BatchSize options \<le> 0 then 100 else fo_BatchSize options),
       fo_PollInterval = (if fo_PollInterval options \<le> 0 then second else fo_PollInterval options) \<rparr>"

text \<open>\<open>UnixMicro\<close> and \<open>%d\<close> on a signed number.\<close>

definition unixEpoch :: time where
  "unixEpoch = 62135596800 * second"

definition UnixMicro :: "time \<Rightarrow> int" where
  "UnixMicro t = (t - unixEpoch) div microsecond"

definition decimal_int :: "int \<Rightarrow> string" where
  "decimal_int i = (if i < 0 then CHR ''-'' # decimal (nat (- i)) else decimal (nat i))"

definition FreshnessSourceKey :: "string \<Rightarrow> string \<Rightarrow> state \<Rightarrow> time \<Rightarrow> string" where
  "FreshnessSourceKey resourceID checkType st occurredAt =
     ''freshness:'' @ resourceID @ '':'' @ checkType @ '':'' @ state_text st @ '':'' @ decimal_int (UnixMicro occurredAt)"

definition freshness_due :: "time \<Rightarrow> current \<Rightarrow> bool" where
  "freshness_due now c \<longleftrightarrow> cur_State c \<noteq> Disabled \<and>
     ((cur_State c \<notin> {Stale, Unknown} \<and> (case cur_StaleAt c of None \<Rightarrow> False | Some t \<Rightarrow> t \<le> now))
      \<or> (cur_State c = Stale \<and> (case cur_UnknownAt c of None \<Rightarrow> False | Some t \<Rightarrow> t \<le> now)))"

definition due_order :: "current \<Rightarrow> time \<times> string" where
  "due_order c = ((case (if cur_State c = Stale then cur_UnknownAt c else cur_StaleAt c) of None \<Rightarrow> 0 | Some t \<Rightarrow> t),
     cur_ResourceID c)"

record due_row =
  du_integrationID :: string
  du_previous :: current
  du_observation :: observation

text \<open>The joins with \<open>observations\<close> and \<open>resources\<close>.\<close>

definition due_join :: "tables \<Rightarrow> current \<Rightarrow> due_row option" where
  "due_join t c =
     Option.bind (cur_ObservationID c) (\<lambda>oid.
     Option.bind (find_row ob_id oid (t_observations t)) (\<lambda>r.
     Option.bind (find_row rs_id (cur_ResourceID c) (t_resources t)) (\<lambda>res.
     Some \<lparr> du_integrationID = rs_integration_id res, du_previous = c,
       du_observation = (scan_observation r)\<lparr>o_ResourceID := cur_ResourceID c\<rparr> \<rparr>)))"

definition claimDue ::
  "(current \<Rightarrow> bool) \<Rightarrow> (current list \<Rightarrow> current list) \<Rightarrow> time \<Rightarrow> int \<Rightarrow> due_row list tx" where
  "claimDue locked arrange now batchSize = tx_query (\<lambda>t.
     take (nat batchSize) (List.map_filter (due_join t) (sort_key due_order
       (arrange (filter (\<lambda>c. freshness_due now c \<and> due_join t c \<noteq> None \<and> \<not> locked c) (t_current t))))))"

definition updateDueRow :: "current \<Rightarrow> unit tx" where
  "updateDueRow c = tx_exec (\<lambda>t. t\<lparr>t_current :=
     update_where (\<lambda>d. cur_key d = cur_key c) (\<lambda>_. stored_current c) (t_current t)\<rparr>)"

definition freshness_signal :: "due_row \<Rightarrow> current \<Rightarrow> time \<Rightarrow> signal_input" where
  "freshness_signal row desired now =
     \<lparr> si_SourceKey = FreshnessSourceKey (cur_ResourceID desired) (cur_CheckType desired) (cur_State desired) (cur_UpdatedAt desired),
       si_Kind = ''freshness'', si_IntegrationID = du_integrationID row, si_ResourceID = cur_ResourceID desired,
       si_ObservationID = o_ID (du_observation row), si_CheckType = o_CheckType (du_observation row),
       si_State = cur_State desired, si_Reason = cur_Reason desired, si_ReasonCode = '''',
       si_OccurredAt = cur_UpdatedAt desired, si_AvailableAt = now \<rparr>"

definition refreshRow :: "due_row \<Rightarrow> time \<Rightarrow> change option tx" where
  "refreshRow row now =
     (let previous = du_previous row;
          desired = Evaluate (cur_ResourceID previous) (du_observation row) (Some previous) now
      in if cur_State desired = cur_State previous then tx_return None
         else
           tx_bind (updateDueRow desired) (\<lambda>_.
           tx_bind (Append (freshness_signal row desired now)) (\<lambda>_.
           tx_return (Some \<lparr> ch_Before = Some previous, ch_After = desired \<rparr>))))"

fun refreshRows :: "due_row list \<Rightarrow> time \<Rightarrow> change list \<Rightarrow> change list tx" where
  "refreshRows [] now changes = tx_return changes"
| "refreshRows (row # rows) now changes =
     tx_bind (refreshRow row now) (\<lambda>c.
     refreshRows rows now (changes @ (case c of None \<Rightarrow> [] | Some c \<Rightarrow> [c])))"

definition RefreshDue ::
  "(current \<Rightarrow> bool) \<Rightarrow> (current list \<Rightarrow> current list) \<Rightarrow> freshness_options \<Rightarrow> time \<Rightarrow> change list tx" where
  "RefreshDue locked arrange options now0 =
     (let now = truncate_us now0 in
      tx_bind (in_tx (
        tx_bind (claimDue locked arrange now (fo_BatchSize options)) (\<lambda>claimed.
        tx_bind (refreshRows claimed now []) (\<lambda>changes.
        tx_return (Commit changes))))) (\<lambda>changes.
      tx_bind (hub_publish_committed changes) (\<lambda>_.
      tx_return changes)))"

text \<open>
  The inner loop of \<open>Run\<close>: passes follow one another while they fill the batch. \<open>clock k\<close> is the
  time the \<open>k\<close>-th pass reads; \<open>None\<close> means that the fuel ran out.
\<close>

fun sweep ::
  "(current list \<Rightarrow> current list) \<Rightarrow> freshness_options \<Rightarrow> (nat \<Rightarrow> time) \<Rightarrow> nat \<Rightarrow> nat \<Rightarrow> world \<Rightarrow> (err + unit) option \<times> world" where
  "sweep arrange options clock k 0 w = (None, w)"
| "sweep arrange options clock k (Suc fuel) w =
     (case RefreshDue (\<lambda>_. False) arrange options (clock k) w of
        (Inl e, w') \<Rightarrow> (Some (Inl e), w')
      | (Inr changes, w') \<Rightarrow>
          if int (length changes) < fo_BatchSize options then (Some (Inr ()), w')
          else sweep arrange options clock (Suc k) fuel w')"

section \<open>Ageing\<close>

definition phase :: "current \<Rightarrow> nat" where
  "phase c = (if cur_State c \<in> {Unknown, Disabled} then 0 else if cur_State c = Stale then 1 else 2)"

definition aged_row :: "observation_row list \<Rightarrow> time \<Rightarrow> current \<Rightarrow> current" where
  "aged_row obs now c = (case newest_of (cur_key c) obs of
     None \<Rightarrow> c
   | Some r \<Rightarrow> stored_current (Evaluate (cur_ResourceID c) (scan_observation r) (Some c) now))"

lemma scan_observed_here: "obs_key r = cur_key c \<Longrightarrow> (scan_observation r)\<lparr>o_ResourceID := cur_ResourceID c\<rparr> = scan_observation r"
  by (simp add: scan_observation_def obs_key_def cur_key_def)

text \<open>With the invariant, the join finds the newest observation of the check.\<close>

lemma due_join_newest:
  assumes inv: "health_inv {} t" and c: "c \<in> set (t_current t)"
  shows "\<exists>r res. newest_of (cur_key c) (t_observations t) = Some r \<and> reflects c r \<and> obs_row_ok r
    \<and> find_row rs_id (cur_ResourceID c) (t_resources t) = Some res
    \<and> due_join t c = Some \<lparr> du_integrationID = rs_integration_id res, du_previous = c, du_observation = scan_observation r \<rparr>"
proof -
  have ok: "observations_ok t" "currents_ok {} t" using inv by (simp_all add: health_inv_def)
  obtain r where r: "r \<in> set (t_observations t)" "reflects c r" "newest_of (cur_key c) (t_observations t) = Some r"
    using currents_okD [OF ok(2) c] by auto
  have key: "obs_key r = cur_key c" by (rule reflects_key [OF r(2)])
  have row: "obs_row_ok r" "ob_resource_id r \<in> rs_id ` set (t_resources t)" "distinct (map ob_id (t_observations t))"
    using ok(1) r(1) by (simp_all add: observations_ok_def)
  have find: "find_row ob_id (ob_id r) (t_observations t) = Some r" by (rule find_row_distinct [OF row(3) r(1)])
  have "cur_ResourceID c \<in> rs_id ` set (t_resources t)" using row(2) key by (simp add: obs_key_def cur_key_def)
  then obtain res where res: "find_row rs_id (cur_ResourceID c) (t_resources t) = Some res"
    by (cases "find_row rs_id (cur_ResourceID c) (t_resources t)") (simp_all add: find_row_None_iff)
  have join: "due_join t c = Some \<lparr> du_integrationID = rs_integration_id res, du_previous = c, du_observation = scan_observation r \<rparr>"
    by (simp add: due_join_def reflects_observation [OF r(2)] find res scan_observed_here [OF key])
  show ?thesis using r row(1) res join by blast
qed

lemma reflects_fields:
  assumes "reflects c r"
  shows "cur_State c = fst (aged (scan_observation r) (cur_UpdatedAt c))"
    and "cur_StaleAt c = scheduled (scan_observation r) (fst (TransitionTimes (scan_observation r)))"
    and "cur_UnknownAt c = scheduled (scan_observation r) (snd (TransitionTimes (scan_observation r)))"
  using assms [unfolded reflects_def Evaluate_closed]
  by (metis current.select_convs(3), metis current.select_convs(8), metis current.select_convs(9))

lemma aged_state_cases:
  "fst (aged ob now) \<noteq> o_State ob \<Longrightarrow> o_State ob \<notin> {Disabled, Unknown}"
  by (auto simp: aged_def)

lemma TransitionTimes_order: "fst (TransitionTimes ob) \<le> snd (TransitionTimes ob)"
  by (auto simp: TransitionTimes_def Let_def)

text \<open>A due row ages when it is evaluated, and is then no longer due.\<close>

lemma due_ages:
  assumes c: "reflects c r" and due: "freshness_due now c" and ok: "obs_row_ok r"
  defines "d \<equiv> Evaluate (cur_ResourceID c) (scan_observation r) (Some c) now"
  shows "cur_State d \<noteq> cur_State c" "phase (stored_current d) < phase c" "\<not> freshness_due now (stored_current d)"
proof -
  let ?ob = "scan_observation r" and ?st = "fst (TransitionTimes (scan_observation r))" and ?un = "snd (TransitionTimes (scan_observation r))"
  have valid: "ob_observed_state r \<noteq> Stale" using ok by (auto simp: obs_row_ok_def ValidObserved_def)
  note f = reflects_fields [OF c]
  have live: "ob_observed_state r \<notin> {Disabled, Unknown}"
  proof
    assume "ob_observed_state r \<in> {Disabled, Unknown}"
    then show False using due by (auto simp: freshness_due_def f aged_def)
  qed
  have state: "cur_State d = fst (aged ?ob now)" by (simp add: d_def Evaluate_closed)
  have times: "cur_UnknownAt (stored_current d) = Some (truncate_us ?un)" "cur_StaleAt (stored_current d) = Some (truncate_us ?st)"
    using live by (simp_all add: d_def stored_current_def Evaluate_closed scheduled_def)
  have us: "truncate_us ?un = ?un" "truncate_us ?st = ?st"
    using TransitionTimes_us [OF ok] by (simp_all add: truncate_us_fixed)
  have order: "?st \<le> ?un" by (rule TransitionTimes_order)
  have sched: "cur_StaleAt c = Some ?st" "cur_UnknownAt c = Some ?un" using live by (simp_all add: f scheduled_def)
  have after: "cur_State d = (if ?un \<le> now then Unknown else if ?st \<le> now then Stale else ob_observed_state r)"
    using live by (simp add: state aged_def)
  have stale: "?st \<le> now" using due sched order by (auto simp: freshness_due_def)
  have unk: "?un \<le> now" if "cur_State c = Stale" using due sched that by (simp add: freshness_due_def)
  have before: "cur_State c \<notin> {Unknown, Disabled}" using due by (auto simp: freshness_due_def)
  show "cur_State d \<noteq> cur_State c" "phase (stored_current d) < phase c"
    using before stale unk by (auto simp: after phase_def)
  show "\<not> freshness_due now (stored_current d)"
    using stale by (auto simp: freshness_due_def times us after)
qed

section \<open>One pass\<close>

lemma freshness_key_other: "FreshnessSourceKey rid ct st at \<noteq> ObservationSourceKey i"
  by (simp add: FreshnessSourceKey_def ObservationSourceKey_def)

definition row_change :: "observation_row list \<Rightarrow> time \<Rightarrow> current \<Rightarrow> change" where
  "row_change obs now c = \<lparr> ch_Before = Some c, ch_After = Evaluate (cur_ResourceID c)
     (scan_observation (the (newest_of (cur_key c) obs))) (Some c) now \<rparr>"

text \<open>What a claimed row carries: the row and the newest observation of its check.\<close>

definition claimed_row :: "observation_row list \<Rightarrow> time \<Rightarrow> due_row \<Rightarrow> bool" where
  "claimed_row obs now row \<longleftrightarrow> freshness_due now (du_previous row)
     \<and> (\<exists>r. newest_of (cur_key (du_previous row)) obs = Some r \<and> reflects (du_previous row) r \<and> obs_row_ok r
          \<and> du_observation row = scan_observation r)"

definition journalled :: "change \<Rightarrow> signal_row list \<Rightarrow> bool" where
  "journalled ch sigs \<longleftrightarrow> (let c = ch_After ch in
     FreshnessSourceKey (cur_ResourceID c) (cur_CheckType c) (cur_State c) (cur_UpdatedAt c) \<in> sg_source_key ` set sigs)"

lemma update_only:
  assumes "distinct (map cur_key rows)" "p \<in> set rows" "cur_key d = cur_key p"
  shows "update_where (\<lambda>c. cur_key c = cur_key d) (\<lambda>_. d') rows = map (\<lambda>c. if c = p then d' else c) rows"
proof -
  have "cur_key c = cur_key d \<longleftrightarrow> c = p" if "c \<in> set rows" for c
    using that assms by (auto simp: distinct_map dest: inj_onD)
  then show ?thesis by (auto simp: update_where_def)
qed

lemma refreshRow_Inr:
  assumes run: "refreshRow row now w = (Inr x, w')" and row: "claimed_row obs now row"
    and t: "t_observations (w_tables w) = obs" "distinct (map cur_key (t_current (w_tables w)))" "du_previous row \<in> set (t_current (w_tables w))"
    and inv: "health_inv {} (w_tables w)"
  shows "x = Some (row_change obs now (du_previous row)) \<and> t_observations (w_tables w') = obs \<and> health_inv {} (w_tables w')
    \<and> t_current (w_tables w') = map (\<lambda>c. if c = du_previous row then aged_row obs now c else c) (t_current (w_tables w))
    \<and> set (t_signals (w_tables w)) \<subseteq> set (t_signals (w_tables w')) \<and> journalled (row_change obs now (du_previous row)) (t_signals (w_tables w'))"
proof -
  let ?p = "du_previous row"
  obtain r where r: "newest_of (cur_key ?p) obs = Some r" "reflects ?p r" "obs_row_ok r" "du_observation row = scan_observation r"
    using row by (auto simp: claimed_row_def)
  define d where "d = Evaluate (cur_ResourceID ?p) (scan_observation r) (Some ?p) now"
  have change: "row_change obs now ?p = \<lparr> ch_Before = Some ?p, ch_After = d \<rparr>" by (simp add: row_change_def r(1) d_def)
  have "cur_State d \<noteq> cur_State ?p"
    unfolding d_def using due_ages(1) [OF r(2) _ r(3), of now] row by (simp add: claimed_row_def)
  then obtain w1 where upd: "updateDueRow d w = (Inr (), w1)" and app: "Append (freshness_signal row d now) w1 = (Inr (), w')"
    and x: "x = Some \<lparr> ch_Before = Some ?p, ch_After = d \<rparr>"
    using run by (auto simp: refreshRow_def r(4) d_def [symmetric] Let_def tx_bind_Inr)
  have "cur_key ?p = (cur_ResourceID ?p, ob_check_type r)" using reflects_key [OF r(2)] by (simp add: cur_key_def obs_key_def)
  then have key: "cur_key d = cur_key ?p" by (simp add: d_def)
  have w1: "w_tables w1 = (w_tables w)\<lparr>t_current := map (\<lambda>c. if c = ?p then stored_current d else c) (t_current (w_tables w))\<rparr>"
    using upd update_only [OF t(2,3) key] by (auto simp: updateDueRow_def tx_exec_Inr)
  have up: "upsert_current d (t_current (w_tables w)) = map (\<lambda>c. if c = ?p then stored_current d else c) (t_current (w_tables w))"
    using update_only [OF t(2,3) key] t(3) key by (simp add: upsert_current_def)
  have k: "(cur_ResourceID ?p, cur_CheckType ?p) = cur_key ?p" by (simp add: cur_key_def)
  have new: "newest_of (cur_ResourceID ?p, cur_CheckType ?p) (t_observations (w_tables w)) = Some r" using r(1) t(1) k by simp
  have "health_inv {} (w_tables w1)"
    using inv currents_ok_upsert [OF _ d_def new r(3), of "{}"] by (simp add: health_inv_def w1 up observations_ok_def)
  then have inv': "health_inv {} (w_tables w')"
    using tripleD [OF triple_Append_other [of "freshness_signal row d now"] _ app] by (simp add: freshness_signal_def freshness_key_other)
  have src: "si_SourceKey (freshness_signal row d now) = FreshnessSourceKey (cur_ResourceID d) (cur_CheckType d) (cur_State d) (cur_UpdatedAt d)"
    by (simp add: freshness_signal_def)
  note a = Append_result [OF app, unfolded src]
  have "t_current (w_tables w') = t_current (w_tables w1) \<and> t_observations (w_tables w') = t_observations (w_tables w1)
      \<and> set (t_signals (w_tables w)) \<subseteq> set (t_signals (w_tables w'))
      \<and> FreshnessSourceKey (cur_ResourceID d) (cur_CheckType d) (cur_State d) (cur_UpdatedAt d) \<in> sg_source_key ` set (t_signals (w_tables w'))"
    using a by (auto simp: w1 signal_row_of_def src split: if_splits)
  moreover have "stored_current d = aged_row obs now ?p" by (simp add: aged_row_def r(1) d_def)
  ultimately show ?thesis using x inv' t(1) by (auto simp: change w1 journalled_def Let_def)
qed

lemma aged_row_key: "cur_key (aged_row obs now c) = cur_key c"
proof (cases "newest_of (cur_key c) obs")
  case (Some r)
  have "cur_key c = (cur_ResourceID c, ob_check_type r)" using newest_of_SomeD(2) [OF Some] by (simp add: cur_key_def obs_key_def)
  then show ?thesis using Some by (simp add: aged_row_def)
qed (simp add: aged_row_def)

lemma refreshRows_Inr:
  assumes "refreshRows rows now cs w = (Inr x, w')" and "\<forall>row \<in> set rows. claimed_row obs now row"
    and "t_observations (w_tables w) = obs" "distinct (map (cur_key \<circ> du_previous) rows)"
    and "\<forall>row \<in> set rows. du_previous row \<in> set (t_current (w_tables w))" and "health_inv {} (w_tables w)"
  shows "x = cs @ map (row_change obs now \<circ> du_previous) rows \<and> health_inv {} (w_tables w')
    \<and> t_current (w_tables w') = map (\<lambda>c. if c \<in> du_previous ` set rows then aged_row obs now c else c) (t_current (w_tables w))
    \<and> set (t_signals (w_tables w)) \<subseteq> set (t_signals (w_tables w'))
    \<and> (\<forall>row \<in> set rows. journalled (row_change obs now (du_previous row)) (t_signals (w_tables w')))"
  using assms
proof (induction rows arbitrary: cs w)
  case Nil
  then show ?case by simp
next
  case (Cons row rows)
  let ?p = "du_previous row"
  obtain y w1 where one: "refreshRow row now w = (Inr y, w1)"
    and rest: "refreshRows rows now (cs @ (case y of None \<Rightarrow> [] | Some c \<Rightarrow> [c])) w1 = (Inr x, w')"
    using Cons.prems(1) by (auto simp: tx_bind_Inr)
  have dist: "distinct (map cur_key (t_current (w_tables w)))" using Cons.prems(6) by (simp add: health_inv_def currents_ok_def)
  have row: "claimed_row obs now row" "?p \<in> set (t_current (w_tables w))" using Cons.prems(2,5) by simp_all
  note step = refreshRow_Inr [OF one row(1) Cons.prems(3) dist row(2) Cons.prems(6)]
  have other: "du_previous a \<noteq> ?p" "du_previous a \<noteq> aged_row obs now ?p" if "a \<in> set rows" for a
    using that Cons.prems(4) aged_row_key [of obs now ?p] by (auto simp: image_iff)
  have "du_previous a \<in> set (t_current (w_tables w1))" if "a \<in> set rows" for a
  proof -
    have "du_previous a \<in> set (t_current (w_tables w))" using Cons.prems(5) that by simp
    with other(1) [OF that] show ?thesis using step by (auto simp: image_iff intro!: bexI [of _ "du_previous a"])
  qed
  with Cons.IH [OF rest] Cons.prems(2,4) step
  have ih: "x = (cs @ [row_change obs now ?p]) @ map (row_change obs now \<circ> du_previous) rows \<and> health_inv {} (w_tables w')
    \<and> t_current (w_tables w') = map (\<lambda>c. if c \<in> du_previous ` set rows then aged_row obs now c else c) (t_current (w_tables w1))
    \<and> set (t_signals (w_tables w1)) \<subseteq> set (t_signals (w_tables w'))
    \<and> (\<forall>row \<in> set rows. journalled (row_change obs now (du_previous row)) (t_signals (w_tables w')))" by auto
  have "map (\<lambda>c. if c \<in> du_previous ` set rows then aged_row obs now c else c) (t_current (w_tables w1)) =
      map (\<lambda>c. if c \<in> du_previous ` set (row # rows) then aged_row obs now c else c) (t_current (w_tables w))"
  proof -
    have cur: "t_current (w_tables w1) = map (\<lambda>c. if c = ?p then aged_row obs now c else c) (t_current (w_tables w))"
      using step by simp
    have out: "aged_row obs now ?p \<notin> du_previous ` set rows" "?p \<notin> du_previous ` set rows" using other by force+
    show ?thesis unfolding cur map_map using out by (intro map_cong refl) auto
  qed
  moreover have "journalled (row_change obs now ?p) (t_signals (w_tables w'))"
    using step ih by (auto simp: journalled_def Let_def)
  ultimately show ?case using ih step by auto
qed

definition due_count :: "time \<Rightarrow> tables \<Rightarrow> nat" where
  "due_count now t = length (filter (freshness_due now) (t_current t))"

definition same_rows :: "(current list \<Rightarrow> current list) \<Rightarrow> bool" where
  "same_rows arrange \<longleftrightarrow> (\<forall>xs. mset (arrange xs) = mset xs)"

lemma map_filter_total: "(\<And>x. x \<in> set xs \<Longrightarrow> f x \<noteq> None) \<Longrightarrow> List.map_filter f xs = map (the \<circ> f) xs"
  by (induction xs) (fastforce simp: List.map_filter_simps)+

lemma claimDue_Inr:
  assumes run: "claimDue locked arrange now n w = (Inr rows, w1)" and inv: "health_inv {} (w_tables w)" and perm: "same_rows arrange"
  shows "w_tables w1 = w_tables w" "\<forall>row \<in> set rows. claimed_row (t_observations (w_tables w)) now row"
    "distinct (map (cur_key \<circ> du_previous) rows)" "\<forall>row \<in> set rows. du_previous row \<in> set (t_current (w_tables w))"
    "length rows = min (nat n) (length (filter (\<lambda>c. freshness_due now c \<and> \<not> locked c) (t_current (w_tables w))))"
proof -
  let ?t = "w_tables w"
  let ?due = "filter (\<lambda>c. freshness_due now c \<and> \<not> locked c) (t_current ?t)"
  define xs where "xs = sort_key due_order (arrange ?due)"
  have ms: "mset xs = mset ?due" using perm by (simp add: xs_def same_rows_def)
  then have set_xs: "set xs = set ?due" by (metis set_mset_mset)
  have joined: "due_join ?t c \<noteq> None" if "c \<in> set (t_current ?t)" for c using due_join_newest [OF inv that] by auto
  have "filter (\<lambda>c. freshness_due now c \<and> due_join ?t c \<noteq> None \<and> \<not> locked c) (t_current ?t) = ?due"
    by (rule filter_cong) (use joined in auto)
  then have run': "rows = take (nat n) (List.map_filter (due_join ?t) xs)" and w1: "w1 = tick w"
    using run by (simp_all add: claimDue_def tx_query_Inr xs_def [symmetric])
  have "List.map_filter (due_join ?t) xs = map (the \<circ> due_join ?t) xs"
    by (rule map_filter_total) (use joined set_xs in simp)
  with run' have rows: "rows = take (nat n) (map (the \<circ> due_join ?t) xs)" by simp
  have prev: "du_previous (the (due_join ?t c)) = c \<and> claimed_row (t_observations ?t) now (the (due_join ?t c))" if "c \<in> set xs" for c
  proof -
    have c: "c \<in> set (t_current ?t)" "freshness_due now c" using that set_xs by auto
    obtain r and res :: resource_row where "newest_of (cur_key c) (t_observations ?t) = Some r" "reflects c r" "obs_row_ok r"
      "due_join ?t c = Some \<lparr> du_integrationID = rs_integration_id res, du_previous = c, du_observation = scan_observation r \<rparr>"
      using due_join_newest [OF inv c(1)] by blast
    with c(2) show ?thesis by (simp add: claimed_row_def)
  qed
  have elem: "\<exists>c \<in> set xs. row = the (due_join ?t c)" if "row \<in> set rows" for row
    using in_set_takeD [OF that [unfolded rows]] by auto
  show "w_tables w1 = ?t" by (simp add: w1)
  show "\<forall>row \<in> set rows. claimed_row (t_observations ?t) now row" using elem prev by blast
  show "\<forall>row \<in> set rows. du_previous row \<in> set (t_current ?t)" using elem prev set_xs by fastforce
  have "length xs = length ?due" using ms by (metis size_mset)
  then show "length rows = min (nat n) (length ?due)" by (simp add: rows min.commute)
  have "distinct (map cur_key (t_current ?t))" using inv by (simp add: health_inv_def currents_ok_def)
  then have "distinct (map cur_key ?due)" by (rule distinct_map_filter)
  then have "distinct (map cur_key xs)" using ms by (metis mset_eq_imp_distinct_iff mset_map)
  moreover have "map (cur_key \<circ> du_previous) rows = take (nat n) (map cur_key xs)"
    unfolding rows take_map map_map using prev by (auto dest: in_set_takeD)
  ultimately show "distinct (map (cur_key \<circ> du_previous) rows)" by simp
qed

text \<open>What a successful pass has done: \<open>P\<close> is the list of rows it aged.\<close>

definition pass_effect :: "time \<Rightarrow> current list \<Rightarrow> change list \<Rightarrow> tables \<Rightarrow> tables \<Rightarrow> bool" where
  "pass_effect now P changes a b \<longleftrightarrow> distinct P \<and> set P \<subseteq> {c \<in> set (t_current a). freshness_due now c}
     \<and> changes = map (row_change (t_observations a) now) P
     \<and> t_current b = map (\<lambda>c. if c \<in> set P then aged_row (t_observations a) now c else c) (t_current a)
     \<and> set (t_signals a) \<subseteq> set (t_signals b) \<and> (\<forall>ch \<in> set changes. journalled ch (t_signals b))"

lemma RefreshDue_Inr:
  assumes run: "RefreshDue locked arrange options now w = (Inr changes, w')"
    and inv: "health_inv {} (w_tables w)" and perm: "same_rows arrange"
  shows "health_inv {} (w_tables w') \<and> (\<exists>P. pass_effect (truncate_us now) P changes (w_tables w) (w_tables w')
    \<and> length P = min (nat (fo_BatchSize options))
        (length (filter (\<lambda>c. freshness_due (truncate_us now) c \<and> \<not> locked c) (t_current (w_tables w)))))"
proof -
  let ?now = "truncate_us now"
  obtain w3 where tx: "in_tx (tx_bind (claimDue locked arrange ?now (fo_BatchSize options)) (\<lambda>claimed.
      tx_bind (refreshRows claimed ?now []) (\<lambda>changes. tx_return (Commit changes)))) w = (Inr changes, w3)"
    and w': "w_tables w' = w_tables w3"
    using run by (auto simp: RefreshDue_def Let_def tx_bind_Inr hub_publish_committed_def)
  obtain rows w1 w2 where claim: "claimDue locked arrange ?now (fo_BatchSize options) (tick w) = (Inr rows, w1)"
    and loop: "refreshRows rows ?now [] w1 = (Inr changes, w2)" and w3: "w_tables w3 = w_tables w2"
    using tx by (auto simp: in_tx_Inr tx_bind_Inr)
  have inv1: "health_inv {} (w_tables (tick w))" using inv by simp
  note c = claimDue_Inr [OF claim inv1 perm, simplified]
  have inv2: "health_inv {} (w_tables w1)" using inv by (simp add: c(1))
  have r: "changes = [] @ map (row_change (t_observations (w_tables w)) ?now \<circ> du_previous) rows \<and> health_inv {} (w_tables w2)
      \<and> t_current (w_tables w2) = map (\<lambda>d. if d \<in> du_previous ` set rows then aged_row (t_observations (w_tables w)) ?now d else d) (t_current (w_tables w1))
      \<and> set (t_signals (w_tables w1)) \<subseteq> set (t_signals (w_tables w2))
      \<and> (\<forall>row \<in> set rows. journalled (row_change (t_observations (w_tables w)) ?now (du_previous row)) (t_signals (w_tables w2)))"
    by (rule refreshRows_Inr [OF loop]) (use c inv2 in auto)
  have dist: "distinct (map du_previous rows)" using c(3) by (metis distinct_map map_map)
  have "pass_effect ?now (map du_previous rows) changes (w_tables w) (w_tables w')"
    using r c(2,4) dist by (auto simp: pass_effect_def c(1) w' w3 claimed_row_def)
  moreover have "length (map du_previous rows) = min (nat (fo_BatchSize options))
      (length (filter (\<lambda>c. freshness_due ?now c \<and> \<not> locked c) (t_current (w_tables w))))" using c(5) by simp
  ultimately show ?thesis using r by (auto simp: w' w3)
qed

lemma aged_rows:
  assumes "health_inv {} t" "c \<in> set (t_current t)" "freshness_due now c"
  shows "phase (aged_row (t_observations t) now c) < phase c" "\<not> freshness_due now (aged_row (t_observations t) now c)"
  using due_join_newest [OF assms(1,2)] due_ages(2,3) [OF _ assms(3)] by (auto simp: aged_row_def)

lemma length_filter_card: "distinct xs \<Longrightarrow> length (filter p xs) = card {x \<in> set xs. p x}"
  by (metis distinct_card distinct_filter set_filter)

lemma due_count_pass:
  assumes inv: "health_inv {} a" and eff: "pass_effect now P changes a b"
  shows "due_count now b + length P = due_count now a"
proof -
  let ?f = "\<lambda>c. if c \<in> set P then aged_row (t_observations a) now c else c"
  have P: "distinct P" "set P \<subseteq> {c \<in> set (t_current a). freshness_due now c}" using eff by (simp_all add: pass_effect_def)
  have dist: "distinct (t_current a)" using inv by (auto simp: health_inv_def currents_ok_def distinct_map)
  have still: "freshness_due now (?f c) \<longleftrightarrow> freshness_due now c \<and> c \<notin> set P" if "c \<in> set (t_current a)" for c
    using P aged_rows(2) [OF inv that] by auto
  have "due_count now b = length (filter (\<lambda>c. freshness_due now (?f c)) (t_current a))"
    using eff by (simp add: due_count_def pass_effect_def filter_map comp_def)
  also have "\<dots> = length (filter (\<lambda>c. freshness_due now c \<and> c \<notin> set P) (t_current a))"
    using still by (intro arg_cong [of _ _ length] filter_cong refl) auto
  also have "\<dots> = card ({c \<in> set (t_current a). freshness_due now c} - set P)"
    unfolding length_filter_card [OF dist] by (rule arg_cong [of _ _ card]) auto
  also have "\<dots> = card {c \<in> set (t_current a). freshness_due now c} - length P"
    using P distinct_card [OF P(1)] by (simp add: card_Diff_subset)
  finally have "due_count now b = due_count now a - length P"
    by (simp add: due_count_def length_filter_card [OF dist])
  moreover have "length P \<le> due_count now a"
    using P(2) distinct_card [OF P(1)] card_mono [of "{c \<in> set (t_current a). freshness_due now c}" "set P"]
    by (simp add: due_count_def length_filter_card [OF dist])
  ultimately show ?thesis by simp
qed

text \<open>
  C20. A pass of the freshness worker is exact: it ages the due rows, as many as the batch holds, each
  to the evaluation of the newest observation of its check, with a freshness signal in the journal
  for every change; the rows it aged are no longer due, so a pass that does not fill its batch
  leaves nothing due.
\<close>

theorem freshness_pass_exact:
  assumes inv: "health_inv {} (w_tables w)" and perm: "same_rows arrange"
    and run: "RefreshDue (\<lambda>_. False) arrange options now w = (Inr changes, w')"
  shows "(\<exists>P. pass_effect (truncate_us now) P changes (w_tables w) (w_tables w'))
    \<and> length changes = min (nat (fo_BatchSize options)) (due_count (truncate_us now) (w_tables w))
    \<and> due_count (truncate_us now) (w_tables w') = due_count (truncate_us now) (w_tables w) - length changes"
proof -
  obtain P where P: "pass_effect (truncate_us now) P changes (w_tables w) (w_tables w')"
    "length P = min (nat (fo_BatchSize options)) (due_count (truncate_us now) (w_tables w))"
    using RefreshDue_Inr [OF run inv perm] by (auto simp: due_count_def)
  have "length changes = length P" using P(1) by (simp add: pass_effect_def)
  with P due_count_pass [OF inv P(1)] show ?thesis by auto
qed

section \<open>The sweep ends\<close>

definition freshness_left :: "tables \<Rightarrow> nat" where
  "freshness_left t = sum_list (map phase (t_current t))"

lemma sum_list_ageing:
  assumes "distinct xs" "\<And>c. c \<in> set xs \<Longrightarrow> c \<in> A \<Longrightarrow> phase (f c) < phase c"
  shows "sum_list (map (\<lambda>c. phase (if c \<in> A then f c else c)) xs) + card (A \<inter> set xs) \<le> sum_list (map phase xs)"
  using assms
proof (induction xs)
  case (Cons x xs)
  then have ih: "sum_list (map (\<lambda>c. phase (if c \<in> A then f c else c)) xs) + card (A \<inter> set xs) \<le> sum_list (map phase xs)" by simp
  show ?case
  proof (cases "x \<in> A")
    case True
    with Cons.prems have "phase (f x) < phase x" "card (A \<inter> insert x (set xs)) = Suc (card (A \<inter> set xs))" by auto
    with True ih show ?thesis by simp
  qed (use ih in simp)
qed simp

lemma freshness_left_pass:
  assumes inv: "health_inv {} a" and eff: "pass_effect now P changes a b"
  shows "freshness_left b + length P \<le> freshness_left a"
proof -
  have P: "distinct P" "set P \<subseteq> {c \<in> set (t_current a). freshness_due now c}" using eff by (simp_all add: pass_effect_def)
  have dist: "distinct (t_current a)" using inv by (auto simp: health_inv_def currents_ok_def distinct_map)
  have "sum_list (map (\<lambda>c. phase (if c \<in> set P then aged_row (t_observations a) now c else c)) (t_current a))
      + card (set P \<inter> set (t_current a)) \<le> freshness_left a"
    unfolding freshness_left_def by (rule sum_list_ageing [OF dist]) (use P aged_rows(1) [OF inv] in auto)
  moreover have "set P \<inter> set (t_current a) = set P" using P by auto
  ultimately show ?thesis using eff distinct_card [OF P(1)] by (simp add: freshness_left_def pass_effect_def comp_def)
qed

lemma sweep_ends:
  assumes "health_inv {} (w_tables w)" "same_rows arrange" "0 < fo_BatchSize options" "freshness_left (w_tables w) < fuel"
  shows "\<exists>r w'. sweep arrange options clock k fuel w = (Some r, w')"
  using assms
proof (induction fuel arbitrary: k w)
  case (Suc fuel)
  obtain res w1 where run: "RefreshDue (\<lambda>_. False) arrange options (clock k) w = (res, w1)" by force
  show ?case
  proof (cases res)
    case (Inl e)
    with run show ?thesis by simp
  next
    case (Inr changes)
    obtain P where inv1: "health_inv {} (w_tables w1)" and P: "pass_effect (truncate_us (clock k)) P changes (w_tables w) (w_tables w1)"
      using RefreshDue_Inr [OF run [unfolded Inr] Suc.prems(1,2)] by blast
    show ?thesis
    proof (cases "int (length changes) < fo_BatchSize options")
      case True
      with run Inr show ?thesis by simp
    next
      case False
      then have "0 < length P" using Suc.prems(3) P by (auto simp: pass_effect_def)
      with freshness_left_pass [OF Suc.prems(1) P] Suc.prems(4) have "freshness_left (w_tables w1) < fuel" by linarith
      from Suc.IH [OF inv1 Suc.prems(2,3) this, of "Suc k"] run Inr False show ?thesis by simp
    qed
  qed
qed simp

lemma freshness_left_le: "freshness_left t \<le> 2 * length (t_current t)"
proof -
  have "sum_list (map phase xs) \<le> 2 * length xs" for xs by (induction xs) (simp_all add: phase_def)
  then show ?thesis by (simp add: freshness_left_def)
qed

text \<open>
  C38. The sweep over due rows ends: whatever the clock shows at each pass and whatever statement
  fails, the loop that repeats full passes returns after at most two passes per row of current
  health, because every full pass ages a row and a row ages at most twice.
\<close>

theorem freshness_sweep_ends:
  assumes "health_inv {} (w_tables w)" and "same_rows arrange"
    and "2 * length (t_current (w_tables w)) < fuel"
  shows "\<exists>r w'. sweep arrange (NewFreshnessWorker options) clock 0 fuel w = (Some r, w')"
proof (rule sweep_ends [OF assms(1,2)])
  show "0 < fo_BatchSize (NewFreshnessWorker options)" by (simp add: NewFreshnessWorker_def)
  show "freshness_left (w_tables w) < fuel" using freshness_left_le [of "w_tables w"] assms(3) by simp
qed

section \<open>The life of current health\<close>

text \<open>
  Everything that happens around current health, in any order: ingestions with any hook that leaves
  these tables alone, freshness passes, and other work, which may add signals of other kinds and
  update what the journal keeps of delivery (claims, attempts, outcomes).
\<close>

definition signal_content where
  "signal_content s = (sg_source_key s, sg_kind s, sg_integration_id s, sg_resource_id s, sg_observation_id s,
     sg_check_type s, sg_state s, sg_reason s, sg_occurred_at s)"

definition other_work :: "tables \<Rightarrow> tables \<Rightarrow> bool" where
  "other_work a b \<longleftrightarrow> t_observations b = t_observations a \<and> t_current b = t_current a
     \<and> rs_id ` set (t_resources a) \<subseteq> rs_id ` set (t_resources b)
     \<and> distinct (map sg_source_key (t_signals b))
     \<and> (\<exists>new. map signal_content (t_signals b) = map signal_content (t_signals a) @ new
          \<and> (\<forall>x \<in> set new. \<forall>i. fst x \<noteq> ObservationSourceKey i))"

inductive health_step :: "world \<Rightarrow> world \<Rightarrow> bool" where
  ingested: "commit_hook hook \<Longrightarrow> health_step w (snd (IngestWithCommit env (Some hook) iid ba receivedAt w))"
| refreshed: "same_rows arrange \<Longrightarrow> health_step w (snd (RefreshDue locked arrange options now w))"
| other: "other_work (w_tables w) (w_tables w') \<Longrightarrow> health_step w w'"

lemma has_signal_content:
  "has_signal sigs r \<longleftrightarrow> (ObservationSourceKey (ob_id r), ''observation'', ob_integration_id r, ob_resource_id r, nullif (ob_id r),
     ob_check_type r, ob_observed_state r, ob_summary r, ob_observed_at r) \<in> set (map signal_content sigs)"
  unfolding has_signal_def signal_content_def by (force simp: image_iff)

lemma source_key_content: "sg_source_key s = fst (signal_content s)"
  by (simp add: signal_content_def)

lemma health_inv_other_work:
  assumes "health_inv {} a" "other_work a b"
  shows "health_inv {} b"
proof -
  obtain new where new: "map signal_content (t_signals b) = map signal_content (t_signals a) @ new"
    "\<forall>x \<in> set new. \<forall>i. fst x \<noteq> ObservationSourceKey i" using assms(2) by (auto simp: other_work_def)
  have "i \<in> ob_id ` set (t_observations a)" if s: "s \<in> set (t_signals b)" "sg_source_key s = ObservationSourceKey i" for s i
  proof -
    have "signal_content s \<in> set (map signal_content (t_signals a) @ new)" using s(1) new(1) by (metis image_eqI list.set_map)
    then obtain s' where "s' \<in> set (t_signals a)" "signal_content s' = signal_content s" using s(2) new(2) by (auto simp: source_key_content)
    then show ?thesis using assms(1) s(2) by (auto simp: health_inv_def observations_ok_def source_key_content)
  qed
  moreover have "has_signal (t_signals b) r" if "has_signal (t_signals a) r" for r
    using that new(1) by (auto simp: has_signal_content)
  ultimately show ?thesis using assms by (auto simp: health_inv_def observations_ok_def currents_ok_def other_work_def)
qed

lemma RefreshDue_error: "RefreshDue locked arrange options now w = (Inl e, w') \<Longrightarrow> w_tables w' = w_tables w"
  by (auto simp: RefreshDue_def Let_def tx_bind_def hub_publish_committed_def split: prod.splits sum.splits dest: in_tx_atomic)

lemma health_step_inv: "health_step w w' \<Longrightarrow> health_inv {} (w_tables w) \<Longrightarrow> health_inv {} (w_tables w')"
proof (induction rule: health_step.induct)
  case (ingested hook w env iid ba receivedAt)
  then show ?case using preserves_snd [OF commit_hook.ingest_preserves [OF ingested(1)]] by blast
next
  case (refreshed arrange w locked options now)
  obtain r w' where run: "RefreshDue locked arrange options now w = (r, w')" by force
  show ?case
  proof (cases r)
    case (Inl e)
    with RefreshDue_error [OF run [unfolded Inl]] refreshed(2) run show ?thesis by simp
  next
    case (Inr changes)
    with RefreshDue_Inr [OF run [unfolded Inr] refreshed(2,1)] run show ?thesis by simp
  qed
next
  case (other w w')
  then show ?case by (blast intro: health_inv_other_work)
qed

lemma health_inv_empty: "t_observations t = [] \<Longrightarrow> t_current t = [] \<Longrightarrow> t_signals t = [] \<Longrightarrow> health_inv {} t"
  by (simp add: health_inv_def observations_ok_def currents_ok_def)

text \<open>
  C5. Current health follows the observations: in every state reached from empty tables by
  ingestions, freshness passes and other work, in any order and with any failures, there is exactly
  one row of current health for every check that was observed, and it is the evaluation of the
  newest observation of that check (the last one observed, then received) at the instant of its update; and every observation has exactly
  one signal in the journal, with its state and its instant.
\<close>

theorem health_follows_observations:
  assumes "health_step\<^sup>*\<^sup>* w0 w" and "t_observations (w_tables w0) = []"
    and "t_current (w_tables w0) = []" and "t_signals (w_tables w0) = []"
  shows "distinct (map cur_key (t_current (w_tables w)))
    \<and> cur_key ` set (t_current (w_tables w)) = obs_key ` set (t_observations (w_tables w))
    \<and> (\<forall>c \<in> set (t_current (w_tables w)). \<exists>r \<in> set (t_observations (w_tables w)). obs_key r = cur_key c
         \<and> (\<forall>x \<in> set (t_observations (w_tables w)). obs_key x = cur_key c \<longrightarrow>
              (ob_observed_at x, ob_received_at x, ob_id x) \<le> (ob_observed_at r, ob_received_at r, ob_id r))
         \<and> Evaluate (cur_ResourceID c) (scan_observation r) (Some c) (cur_UpdatedAt c) = c)
    \<and> distinct (map sg_source_key (t_signals (w_tables w)))
    \<and> (\<forall>r \<in> set (t_observations (w_tables w)). has_signal (t_signals (w_tables w)) r)"
proof -
  have inv: "health_inv {} (w_tables w)"
    using assms(1) health_inv_empty [OF assms(2-4)] by (induction rule: rtranclp_induct) (auto intro: health_step_inv)
  then have ok: "observations_ok (w_tables w)" "currents_ok {} (w_tables w)" by (simp_all add: health_inv_def)
  have each: "\<exists>r \<in> set (t_observations (w_tables w)). obs_key r = cur_key c
      \<and> (\<forall>x \<in> set (t_observations (w_tables w)). obs_key x = cur_key c \<longrightarrow>
           (ob_observed_at x, ob_received_at x, ob_id x) \<le> (ob_observed_at r, ob_received_at r, ob_id r))
      \<and> Evaluate (cur_ResourceID c) (scan_observation r) (Some c) (cur_UpdatedAt c) = c"
    if c: "c \<in> set (t_current (w_tables w))" for c
  proof -
    obtain r where r: "newest_of (cur_key c) (t_observations (w_tables w)) = Some r" "reflects c r"
      using currents_okD [OF ok(2) c] by auto
    show ?thesis using newest_of_SomeD [OF r(1)] r(2)
      by (intro bexI [of _ r]) (auto simp: reflects_def obs_order_def)
  qed
  have "cur_key ` set (t_current (w_tables w)) \<subseteq> obs_key ` set (t_observations (w_tables w))"
  proof
    fix k assume "k \<in> cur_key ` set (t_current (w_tables w))"
    then obtain c where c: "k = cur_key c" "c \<in> set (t_current (w_tables w))" by auto
    from each [OF c(2)] c(1) show "k \<in> obs_key ` set (t_observations (w_tables w))" by force
  qed
  moreover have "obs_key ` set (t_observations (w_tables w)) \<subseteq> cur_key ` set (t_current (w_tables w))"
    "distinct (map cur_key (t_current (w_tables w)))" using ok(2) by (auto simp: currents_ok_def)
  moreover have "distinct (map sg_source_key (t_signals (w_tables w)))"
    "\<forall>r \<in> set (t_observations (w_tables w)). has_signal (t_signals (w_tables w)) r" using ok(1) by (auto simp: observations_ok_def)
  ultimately show ?thesis using each by blast
qed

end
