(* ===== verification/Observation_Sample.thy ===== *)
theory Observation_Sample
  imports Freshness
begin

text \<open>
  A small run of the observation pipeline on which its properties are applied: one integration, one
  resource, one observation, and the passes of the freshness worker after it.
\<close>

definition sampleIngestEnv :: ingest_env where
  "sampleIngestEnv = \<lparr> ie_Marshal = (\<lambda>_. Some ''{}''), ie_Unmarshal = (\<lambda>_. Some (AObject [])),
     ie_jsonb = (\<lambda>s. s), ie_ParseURL = (\<lambda>_. None) \<rparr>"

definition sampleIntegration :: string where
  "sampleIntegration = ''22222222-2222-4222-8222-222222222222''"

definition sampleBatch :: batch where
  "sampleBatch = \<lparr> ba_Resources = [\<lparr> ri_ID = '''', ri_ExternalID = ''node-1'', ri_Kind = ''host'', ri_DisplayName = ''node 1'',
       ri_ObservedAt = 5000, ri_Attributes = None, ri_SourceURL = '''' \<rparr>],
     ba_Observations = [\<lparr> oi_ID = '''', oi_ExternalResourceID = ''node-1'', oi_CheckType = ''host.up'', oi_State = Healthy,
       oi_Summary = ''up'', oi_ObservedAt = 5000, oi_ExpectedRefreshSeconds = 60, oi_Measurements = None, oi_Metadata = None \<rparr>] \<rparr>"

definition sampleResource :: resource_row where
  "sampleResource = \<lparr> rs_id = ''1'', rs_integration_id = sampleIntegration, rs_external_id = ''node-1'', rs_kind = ''host'',
     rs_display_name = ''node 1'', rs_attributes = ''{}'', rs_source_url = None, rs_first_seen_at = 5000, rs_last_seen_at = 5000 \<rparr>"

definition sampleStoredObservation :: observation_row where
  "sampleStoredObservation = \<lparr> ob_id = ''2'', ob_integration_id = sampleIntegration, ob_resource_id = ''1'', ob_check_type = ''host.up'',
     ob_observed_state = Healthy, ob_summary = ''up'', ob_observed_at = 5000, ob_received_at = 7000,
     ob_expires_at = 90000005000, ob_expected_refresh_seconds = 60, ob_measurements = ''{}'', ob_metadata = ''{}'' \<rparr>"

definition sampleHealthy :: current where
  "sampleHealthy = \<lparr> cur_ResourceID = ''1'', cur_CheckType = ''host.up'', cur_State = Healthy, cur_Reason = ''up'',
     cur_ObservationID = Some ''2'', cur_ObservedAt = Some 5000, cur_LastSuccessAt = Some 5000,
     cur_StaleAt = Some 90000005000, cur_UnknownAt = Some 180000005000, cur_UpdatedAt = 7000 \<rparr>"

lemma sample_texts:
  "uuidPattern sampleIntegration" "uuid_param sampleIntegration = sampleIntegration" "resourceKindPattern ''host''"
  "identifierPattern ''host.up''" "TrimSpace ''node-1'' = ''node-1''" "TrimSpace ''node 1'' = ''node 1''" "TrimSpace ''up'' = ''up''"
  "RuneCountInString ''node-1'' = 6" "RuneCountInString ''node 1'' = 6" "RuneCountInString ''up'' = 2"
  "decimal 1 = ''1''" "decimal 2 = ''2''" "decimal 3 = ''3''" "decimal 4 = ''4''" "decimal (Suc 0) = ''1''" "decimal (Suc (Suc 0)) = ''2''"
  "decimal (Suc (Suc (Suc 0))) = ''3''"
  by code_simp+

lemma sample_valid: "ValidateBatch sampleIngestEnv sampleBatch 7500 = Inr ()"
  by (simp add: ValidateBatch_def sampleBatch_def validateResource_def validateObservation_def validateIdentity_def validateText_def
      validateObservedAt_def validateJSONSize_def sampleIngestEnv_def MaxBatchRecords_def MaxFutureSkew_def MaxNestedJSONBytes_def
      MaxResourceProperties_def MaxObservationProperties_def ValidObserved_def entries_def second_def sample_texts
      del: resourceKindPattern.simps identifierPattern.simps)

definition sampleStoredSignal :: signal_row where
  "sampleStoredSignal = \<lparr> sg_id = ''3'', sg_source_key = ''observation:2'', sg_kind = ''observation'', sg_integration_id = sampleIntegration,
     sg_resource_id = ''1'', sg_observation_id = Some ''2'', sg_check_type = ''host.up'', sg_state = Healthy, sg_reason = ''up'',
     sg_reason_code = None, sg_occurred_at = 5000, sg_created_at = 6000, sg_available_at = 7000, sg_claimed_until = None,
     sg_attempts = 0, sg_processed_at = None, sg_dead_lettered_at = None, sg_last_error_code = None \<rparr>"

text \<open>Each stage of the ingestion of the batch.\<close>

definition sampleIngestWorld :: "tables \<Rightarrow> nat \<Rightarrow> world" where
  "sampleIngestWorld t n = \<lparr> w_tables = t, w_faults = [], w_uuid = decimal, w_next = n, w_clock = 6000, w_hub = NewHub 10 \<rparr>"

definition sampleTables :: "resource_row list \<Rightarrow> observation_row list \<Rightarrow> signal_row list \<Rightarrow> current list \<Rightarrow> tables" where
  "sampleTables res obs sigs curs = empty_tables\<lparr>t_integrations := [default_integration sampleIntegration], t_resources := res, t_observations := obs,
     t_signals := sigs, t_current := curs\<rparr>"

lemmas sample_world_eval = sampleIngestWorld_def sampleTables_def empty_tables_def sampleIngestEnv_def nullif_def

lemma sample_upsert:
  "upsertResources sampleIngestEnv sampleIntegration (ba_Resources sampleBatch) [] (sampleIngestWorld (sampleTables [] [] [] []) 1)
     = (Inr [(''node-1'', ''1'')], sampleIngestWorld (sampleTables [sampleResource] [] [] []) 2)"
  by (simp add: sampleBatch_def upsertResource_def sample_world_eval tx_eval sample_texts truncate_us_def microsecond_def
      sampleResource_def cong: tx_frozen)

lemma sample_store:
  "storeObservation sampleIngestEnv sampleIntegration ''1'' 0 (hd (ba_Observations sampleBatch)) 7500
     (sampleIngestWorld (sampleTables [sampleResource] [] [] []) 2)
     = (Inr True, sampleIngestWorld (sampleTables [sampleResource] [sampleStoredObservation] [sampleStoredSignal] []) 4)"
  by (simp add: storeObservation_def indexed_def insertObservation_def insertObservationRow_def new_observation_def
      sampleBatch_def sample_world_eval tx_eval sample_texts truncate_us_def microsecond_def Append_def observation_signal_def
      reason_code_def scan_observation_def ObservationSourceKey_def sampleResource_def sampleStoredSignal_def sampleStoredObservation_def
      TransitionTimes_def refresh_of_def wrap64_def second_def minimumGrace_def entries_def cong: tx_frozen)

lemma sample_refresh:
  "refreshCurrent (''1'', ''host.up'') 7500 (sampleIngestWorld (sampleTables [sampleResource] [sampleStoredObservation] [sampleStoredSignal] []) 4)
     = (Inr (Some \<lparr> ch_Before = None, ch_After = sampleHealthy\<lparr>cur_UpdatedAt := 7500\<rparr> \<rparr>),
        sampleIngestWorld (sampleTables [sampleResource] [sampleStoredObservation] [sampleStoredSignal] [sampleHealthy]) 4)"
  by (simp add: refreshCurrent_def loadCurrent_def latestObservation_def newest_of_def obs_key_def sampleStoredObservation_def
      scan_observation_def Evaluate_def PositiveDetermination_def ValidObserved_def TransitionTimes_def refresh_of_def wrap64_def
      second_def minimumGrace_def saveCurrent_def stored_current_def find_row_def first_by_def sample_world_eval tx_eval
      truncate_us_def microsecond_def sampleHealthy_def cong: tx_frozen)

definition sampleStart :: world where
  "sampleStart = sampleIngestWorld (sampleTables [] [] [] []) 1"

definition sampleIngested :: world where
  "sampleIngested = (sampleIngestWorld (sampleTables [sampleResource] [sampleStoredObservation] [sampleStoredSignal] [sampleHealthy]) 4)
     \<lparr>w_hub := PublishCommitted (NewHub 10) [\<lparr> ch_Before = None, ch_After = sampleHealthy\<lparr>cur_UpdatedAt := 7500\<rparr> \<rparr>]\<rparr>"

definition sampleResult :: ingest_result where
  "sampleResult = \<lparr> ir_ResourcesUpserted = 1, ir_ObservationsInserted = 1, ir_DuplicateObservations = 0,
     ir_Changes = [\<lparr> ch_Before = None, ch_After = sampleHealthy\<lparr>cur_UpdatedAt := 7500\<rparr> \<rparr>] \<rparr>"

lemma sample_body:
  "ingest_body sampleIngestEnv None sampleIntegration sampleBatch 7500 sampleStart
     = (Inr (Commit sampleResult), sampleIngested\<lparr>w_hub := NewHub 10\<rparr>)"
proof -
  let ?A = "sampleIngestWorld (sampleTables [sampleResource] [] [] []) 2"
  let ?B = "sampleIngestWorld (sampleTables [sampleResource] [sampleStoredObservation] [sampleStoredSignal] []) 4"
  define ob where "ob = hd (ba_Observations sampleBatch)"
  have obs: "ba_Observations sampleBatch = [ob]" "length (ba_Resources sampleBatch) = 1"
    "oi_ExternalResourceID ob = ''node-1''" "oi_CheckType ob = ''host.up''"
    by (simp_all add: sampleBatch_def ob_def)
  have "integrationExists sampleIntegration sampleStart = (Inr True, sampleStart)"
    by (simp add: integrationExists_def sampleStart_def sample_world_eval sample_texts tx_eval)
  moreover have "lockResource sampleIntegration ''1'' ?A = (Inr (), ?A)"
    by (simp add: lockResource_def sample_world_eval tx_eval sampleResource_def sample_texts)
  moreover have "storeObservations sampleIngestEnv sampleIntegration [(''node-1'', ''1'')] 7500 0 (ba_Observations sampleBatch) r ?A
      = (Inr (r\<lparr>ir_ObservationsInserted := ir_ObservationsInserted r + 1\<rparr>), ?B)" for r
    by (simp add: resource_of_def obs sample_store [folded ob_def] tx_bind_eval)
  moreover have "resolveResources sampleIntegration 0 (ba_Observations sampleBatch) [(''node-1'', ''1'')] = tx_return [(''node-1'', ''1'')]"
    by (simp add: obs)
  moreover have "affected_checks [(''node-1'', ''1'')] (ba_Observations sampleBatch) = [(''1'', ''host.up'')]"
    by (simp add: affected_checks_def resource_of_def obs)
  ultimately show ?thesis
    using sample_upsert [folded sampleStart_def] sample_refresh
    by (simp add: ingest_body_def tx_bind_eval obs(2) sampleResult_def sampleIngested_def Let_def sampleIngestWorld_def)
qed

lemma sample_ingest: "Ingest sampleIngestEnv sampleIntegration sampleBatch 7500 sampleStart = (Inr sampleResult, sampleIngested)"
proof -
  have faults: "w_faults sampleStart = []" "w_faults sampleIngested = []"
    by (simp_all add: sampleStart_def sampleIngested_def sampleIngestWorld_def)
  have "in_tx (ingest_body sampleIngestEnv None sampleIntegration sampleBatch 7500) sampleStart
      = (Inr sampleResult, sampleIngested\<lparr>w_hub := NewHub 10\<rparr>)"
    using sample_body by (simp add: in_tx_run nofault_simps faults)
  then show ?thesis
    by (simp add: Ingest_def IngestWithCommit_def sample_texts sample_valid tx_bind_eval hub_publish_committed_def
        sampleResult_def sampleIngested_def)
qed

lemma sample_health_inv: "health_inv {} (w_tables sampleIngested)"
proof -
  have "health_inv {} (w_tables sampleStart)"
    by (rule health_inv_empty) (simp_all add: sampleStart_def sample_world_eval)
  from preserves_snd [OF no_hook.ingest_preserves this, of sampleIngestEnv sampleIntegration sampleBatch 7500] sample_ingest
  show ?thesis by (simp add: Ingest_no_hook)
qed

definition sampleStale :: current where
  "sampleStale = sampleHealthy\<lparr> cur_State := Stale, cur_Reason := staleReason, cur_UpdatedAt := 95000000000 \<rparr>"

definition sampleFreshness :: freshness_options where
  "sampleFreshness = NewFreshnessWorker \<lparr> fo_BatchSize = 0, fo_PollInterval = 0 \<rparr>"

lemma sample_freshness_pass:
  "\<exists>w'. RefreshDue (\<lambda>_. False) (\<lambda>cs. cs) sampleFreshness 95000000500 sampleIngested
     = (Inr [\<lparr> ch_Before = Some sampleHealthy, ch_After = sampleStale \<rparr>], w')"
  by (simp add: RefreshDue_def claimDue_def freshness_due_def due_join_def refreshRow_def updateDueRow_def
      sampleIngested_def sampleHealthy_def sampleStale_def sampleStoredObservation_def sampleResource_def sampleStoredSignal_def
      scan_observation_def Evaluate_def PositiveDetermination_def ValidObserved_def TransitionTimes_def refresh_of_def wrap64_def
      second_def minimumGrace_def sampleFreshness_def NewFreshnessWorker_def List.map_filter_simps find_row_def first_by_def
      Append_def freshness_signal_def FreshnessSourceKey_def hub_publish_committed_def sample_texts
      sample_world_eval tx_eval truncate_us_def microsecond_def cong: tx_frozen)

section \<open>The properties on the sample\<close>

lemma same_rows_id: "same_rows (\<lambda>cs. cs)"
  by (simp add: same_rows_def)

theorem freshness_pass_exact_witness:
  "\<exists>w'. RefreshDue (\<lambda>_. False) (\<lambda>cs. cs) sampleFreshness 95000000500 sampleIngested
      = (Inr [\<lparr> ch_Before = Some sampleHealthy, ch_After = sampleStale \<rparr>], w')
    \<and> due_count 95000000000 (w_tables sampleIngested) = 1 \<and> due_count 95000000000 (w_tables w') = 0"
proof -
  obtain w' where run: "RefreshDue (\<lambda>_. False) (\<lambda>cs. cs) sampleFreshness 95000000500 sampleIngested
      = (Inr [\<lparr> ch_Before = Some sampleHealthy, ch_After = sampleStale \<rparr>], w')" using sample_freshness_pass by blast
  have "due_count 95000000000 (w_tables sampleIngested) = 1"
    by (simp add: due_count_def sampleIngested_def sample_world_eval freshness_due_def sampleHealthy_def)
  with freshness_pass_exact [OF sample_health_inv same_rows_id run] run show ?thesis
    by (intro exI [of _ w']) (simp add: truncate_us_def microsecond_def)
qed

theorem freshness_sweep_ends_witness:
  "\<exists>r w'. sweep (\<lambda>cs. cs) (NewFreshnessWorker \<lparr> fo_BatchSize = 1, fo_PollInterval = 0 \<rparr>) (\<lambda>k. 95000000500 + int k) 0 3 sampleIngested
     = (Some r, w')"
proof (rule freshness_sweep_ends [OF sample_health_inv same_rows_id])
  show "2 * length (t_current (w_tables sampleIngested)) < 3" by (simp add: sampleIngested_def sample_world_eval)
qed

theorem health_follows_observations_witness:
  "t_observations (w_tables sampleStart) = []
    \<and> health_step\<^sup>*\<^sup>* sampleStart sampleIngested
    \<and> Evaluate ''1'' (scan_observation sampleStoredObservation) (Some sampleHealthy) 7000 = sampleHealthy"
proof -
  have start: "t_observations (w_tables sampleStart) = []" "t_current (w_tables sampleStart) = []" "t_signals (w_tables sampleStart) = []"
    by (simp_all add: sampleStart_def sample_world_eval)
  have "health_step sampleStart sampleIngested"
    using health_step.ingested [OF no_hook.commit_hook_axioms, of sampleStart sampleIngestEnv sampleIntegration sampleBatch 7500]
      sample_ingest by (simp add: Ingest_no_hook)
  then have run: "health_step\<^sup>*\<^sup>* sampleStart sampleIngested" by blast
  have tables: "t_current (w_tables sampleIngested) = [sampleHealthy]" "t_observations (w_tables sampleIngested) = [sampleStoredObservation]"
    by (simp_all add: sampleIngested_def sample_world_eval)
  have newest: "newest_of (cur_key sampleHealthy) [sampleStoredObservation] = Some sampleStoredObservation"
    by (simp add: newest_of_def cur_key_def obs_key_def sampleHealthy_def sampleStoredObservation_def)
  have fields: "cur_ResourceID sampleHealthy = ''1''" "cur_UpdatedAt sampleHealthy = 7000" by (simp_all add: sampleHealthy_def)
  show ?thesis using health_follows_observations [OF run start] start run by (simp add: tables newest fields)
qed

end
