(* ===== verification/Adapter_Protocol.thy ===== *)
theory Adapter_Protocol
  imports Observations
begin

text \<open>
  The wire protocol between the core and an adapter process: envelopes and manifests
  (\<open>adapters/protocol.go\<close>, \<open>types.go\<close>), the line codec (\<open>adapters/codec.go\<close>), the registry of adapters
  (\<open>adapters/registry.go\<close>) and the resolution of secrets into a configuration (\<open>adapters/secrets.go\<close>).

  Strict JSON decoding, encoding and the test for a JSON object are parameters (\<open>wire\<close>), as are
  \<open>filepath.IsAbs\<close> and the secret resolver. The stream a codec reads is the string of the bytes that will
  arrive before the end of the stream. Errors are the codes of \<open>RuntimeError\<close>.
\<close>

section \<open>Types\<close>

record remote_error =
  re_Code :: string
  re_Message :: string
  re_Retryable :: bool

record envelope =
  en_ProtocolVersion :: string
  en_Kind :: string
  en_Operation :: string
  en_RequestID :: string
  en_SentAt :: time
  en_Deadline :: "time option"
  en_Payload :: string
  en_Error :: "remote_error option"

record manifest =
  mf_AdapterID :: string
  mf_DisplayName :: string
  mf_AdapterVersion :: string
  mf_ProtocolVersions :: "string list"
  mf_IntegrationCategory :: string
  mf_ResourceTypes :: "string list"
  mf_CheckTypes :: "string list"
  mf_Capabilities :: "string list"
  mf_ReadOnly :: bool
  mf_ConfigSchema :: any_map
  mf_SecretFields :: "string list"

record descriptor =
  ds_AdapterID :: string
  ds_Executable :: string
  ds_Arguments :: "string list"
  ds_WorkingDirectory :: string
  ds_Environment :: "(string \<times> string) list"

record integration =
  ig_ID :: string
  ig_AdapterID :: string
  ig_Interval :: duration
  ig_ConfigNonsecret :: any_map
  ig_SecretReferences :: "(string \<times> string) list"

record wire =
  wr_Marshal :: "envelope \<Rightarrow> string option"
  wr_DecodeEnvelope :: "string \<Rightarrow> envelope option"
  wr_DecodeManifest :: "string \<Rightarrow> manifest option"
  wr_IsObject :: "string \<Rightarrow> bool"
  wr_EncodeSchema :: "any_map \<Rightarrow> string option"

definition ProtocolV1 :: string where
  "ProtocolV1 = ''1.0''"

section \<open>Versions and operations\<close>

definition digits :: "string \<Rightarrow> int" where
  "digits s = foldl (\<lambda>n c. n * 10 + (int (byte c) - 48)) 0 s"

text \<open>\<open>strconv.Atoi\<close>: an optional sign, digits, and the range of \<open>int\<close>.\<close>

definition Atoi :: "string \<Rightarrow> int option" where
  "Atoi s =
     (let negative = (s \<noteq> '''' \<and> hd s = CHR ''-''); ds = (if s \<noteq> '''' \<and> hd s \<in> set ''+-'' then tl s else s);
          n = (if negative then - digits ds else digits ds)
      in if ds \<noteq> '''' \<and> list_all digit ds \<and> - (2 ^ 63) \<le> n \<and> n < 2 ^ 63 then Some n else None)"

definition leading_zero :: "string \<Rightarrow> bool" where
  "leading_zero s \<longleftrightarrow> 1 < length s \<and> hd s = CHR ''0''"

definition parseVersion :: "string \<Rightarrow> (int \<times> int) option" where
  "parseVersion v =
     (let majorText = takeWhile (\<lambda>c. c \<noteq> CHR ''.'') v; rest = dropWhile (\<lambda>c. c \<noteq> CHR ''.'') v
      in if rest = '''' then None
         else let minorText = tl rest in
           if CHR ''.'' \<in> set minorText \<or> majorText = '''' \<or> minorText = '''' \<or> leading_zero majorText \<or> leading_zero minorText then None
           else case (Atoi majorText, Atoi minorText) of
             (Some major, Some minor) \<Rightarrow> if 0 \<le> major \<and> 0 \<le> minor then Some (major, minor) else None
           | _ \<Rightarrow> None)"

definition requestOperation :: "string \<Rightarrow> bool" where
  "requestOperation operation \<longleftrightarrow> operation \<in> {''manifest'', ''validate_config'', ''collect'', ''health'', ''shutdown''}"

definition notificationOperation :: "string \<Rightarrow> bool" where
  "notificationOperation operation \<longleftrightarrow> operation = ''ready'' \<or> operation = ''event'' \<or> operation = ''log''"

definition validOperation :: "string \<Rightarrow> bool" where
  "validOperation operation \<longleftrightarrow> requestOperation operation \<or> notificationOperation operation"

definition validCapability :: "string \<Rightarrow> bool" where
  "validCapability v \<longleftrightarrow> v \<in> {''collect'', ''events'', ''notifications'', ''actions''}"

fun duplicate_from :: "string list \<Rightarrow> string list \<Rightarrow> (string \<Rightarrow> bool) \<Rightarrow> bool" where
  "duplicate_from seen [] valid = False"
| "duplicate_from seen (v # vs) valid = (if \<not> valid v then True else if v \<in> set seen then True else duplicate_from (v # seen) vs valid)"

definition duplicateOrInvalid :: "string list \<Rightarrow> (string \<Rightarrow> bool) \<Rightarrow> bool" where
  "duplicateOrInvalid vs valid = duplicate_from [] vs valid"

section \<open>Envelopes\<close>

definition valid_kind :: "envelope \<Rightarrow> bool" where
  "valid_kind e =
     (if en_Kind e = ''request'' then
        \<not> (\<not> uuidPattern (en_RequestID e) \<or> en_Deadline e = None \<or> en_Deadline e = Some 0 \<or> en_Error e \<noteq> None
           \<or> \<not> requestOperation (en_Operation e))
      else if en_Kind e = ''response'' then
        \<not> (\<not> uuidPattern (en_RequestID e) \<or> en_Deadline e \<noteq> None \<or> \<not> requestOperation (en_Operation e)
           \<or> (en_Payload e \<noteq> '''') = (en_Error e \<noteq> None))
      else if en_Kind e = ''notification'' then
        \<not> (en_RequestID e \<noteq> '''' \<or> en_Deadline e \<noteq> None \<or> en_Error e \<noteq> None \<or> \<not> notificationOperation (en_Operation e))
      else False)"

definition valid_remote_error :: "remote_error \<Rightarrow> bool" where
  "valid_remote_error x \<longleftrightarrow> identifierPattern (re_Code x) \<and> TrimSpace (re_Message x) \<noteq> '''' \<and> RuneCountInString (re_Message x) \<le> 1024"

definition ValidateEnvelope :: "wire \<Rightarrow> envelope \<Rightarrow> string + unit" where
  "ValidateEnvelope wr e =
     (if parseVersion (en_ProtocolVersion e) = None then Inl ''invalid_protocol_version''
      else if en_SentAt e = 0 then Inl ''invalid_envelope''
      else if \<not> validOperation (en_Operation e) then Inl ''unsupported_operation''
      else if en_Payload e \<noteq> '''' \<and> \<not> wr_IsObject wr (en_Payload e) then Inl ''invalid_envelope''
      else if \<not> valid_kind e then Inl ''invalid_envelope''
      else case en_Error e of
        Some x \<Rightarrow> if \<not> valid_remote_error x then Inl ''invalid_envelope'' else Inr ()
      | None \<Rightarrow> Inr ())"

definition DecodeEnvelope :: "wire \<Rightarrow> string \<Rightarrow> string + envelope" where
  "DecodeEnvelope wr line =
     (case wr_DecodeEnvelope wr line of
        None \<Rightarrow> Inl ''invalid_envelope''
      | Some e \<Rightarrow> (case ValidateEnvelope wr e of Inl code \<Rightarrow> Inl code | Inr _ \<Rightarrow> Inr e))"

section \<open>Manifests\<close>

text \<open>\<open>^[a-z][a-z0-9.-]{0,126}$\<close>\<close>

fun adapterIDPattern :: "string \<Rightarrow> bool" where
  "adapterIDPattern [] = False"
| "adapterIDPattern (c # s) =
     (lower_letter c \<and> length s \<le> 126 \<and> list_all (\<lambda>d. lower_letter d \<or> digit d \<or> d = CHR ''.'' \<or> d = CHR ''-'') s)"

definition valid_secret_field :: "string \<Rightarrow> bool" where
  "valid_secret_field v \<longleftrightarrow> TrimSpace v = v \<and> v \<noteq> '''' \<and> RuneCountInString v \<le> 128"

definition ValidateManifest :: "wire \<Rightarrow> manifest \<Rightarrow> string + unit" where
  "ValidateManifest wr m =
     (if \<not> adapterIDPattern (mf_AdapterID m) \<or> TrimSpace (mf_DisplayName m) = '''' \<or> 128 < RuneCountInString (mf_DisplayName m)
         \<or> TrimSpace (mf_AdapterVersion m) = '''' \<or> 64 < RuneCountInString (mf_AdapterVersion m)
         \<or> \<not> resourceKindPattern (mf_IntegrationCategory m) \<or> mf_ProtocolVersions m = [] \<or> mf_Capabilities m = []
         \<or> mf_ConfigSchema m = None
      then Inl ''invalid_manifest''
      else if duplicateOrInvalid (mf_ProtocolVersions m) (\<lambda>v. parseVersion v \<noteq> None)
         \<or> duplicateOrInvalid (mf_ResourceTypes m) resourceKindPattern \<or> duplicateOrInvalid (mf_CheckTypes m) identifierPattern
         \<or> duplicateOrInvalid (mf_SecretFields m) valid_secret_field \<or> duplicateOrInvalid (mf_Capabilities m) validCapability
      then Inl ''invalid_manifest''
      else case wr_EncodeSchema wr (mf_ConfigSchema m) of
        None \<Rightarrow> Inl ''invalid_manifest''
      | Some encoded \<Rightarrow>
          if 64 * 1024 < length encoded \<or> map_of (entries (mf_ConfigSchema m)) ''type'' \<noteq> Some (AString ''object'')
          then Inl ''invalid_manifest'' else Inr ())"

definition DecodeManifest :: "wire \<Rightarrow> string \<Rightarrow> string + manifest" where
  "DecodeManifest wr payload =
     (case wr_DecodeManifest wr payload of
        None \<Rightarrow> Inl ''invalid_manifest''
      | Some m \<Rightarrow> (case ValidateManifest wr m of Inl code \<Rightarrow> Inl code | Inr _ \<Rightarrow> Inr m))"

definition validateSliceCapabilities :: "manifest \<Rightarrow> string + unit" where
  "validateSliceCapabilities m =
     (if \<not> mf_ReadOnly m \<or> length (mf_Capabilities m) \<noteq> 1 \<or> ''collect'' \<notin> set (mf_Capabilities m)
      then Inl ''unsupported_capability'' else Inr ())"

text \<open>The comparison of the sort is \<open>(major, minor)\<close> descending, so the first element has the greatest version.\<close>

definition version_rank :: "string \<Rightarrow> int \<times> int" where
  "version_rank v = (case parseVersion v of Some (major, minor) \<Rightarrow> (- major, - minor) | None \<Rightarrow> (0, 0))"

definition has_major_one :: "string list \<Rightarrow> bool" where
  "has_major_one vs = list_ex (\<lambda>v. map_option fst (parseVersion v) = Some 1) vs"

definition NegotiateVersion :: "string list \<Rightarrow> string list \<Rightarrow> string + string" where
  "NegotiateVersion core adapter =
     (if list_ex (\<lambda>v. parseVersion v = None) core then Inl ''invalid_protocol_version''
      else if list_ex (\<lambda>v. parseVersion v = None) adapter then Inl ''invalid_manifest''
      else case sort_key version_rank (filter (\<lambda>v. v \<in> set core) adapter) of
        [] \<Rightarrow> if \<not> has_major_one core \<or> \<not> has_major_one adapter then Inl ''unsupported_protocol_major''
              else Inl ''unsupported_protocol_minor''
      | v # _ \<Rightarrow> Inr v)"

section \<open>The line codec\<close>

definition MaxLineBytes :: nat where
  "MaxLineBytes = 2 ^ 20"

definition codec_max :: "int \<Rightarrow> nat" where
  "codec_max maximum = (if maximum \<le> 0 then MaxLineBytes else nat maximum)"

definition newline :: char where
  "newline = CHR 0x0A"

definition carriage :: char where
  "carriage = CHR 0x0D"

text \<open>
  One line of the stream: \<open>ReadSlice\<close> finds a newline in a buffer of \<open>max + 2\<close> bytes (of 16 at least), a
  full buffer without one is discarded to the end of its line.
\<close>

datatype read_result = ReadLine string | ReadTooLarge | ReadPartial | ReadEOF

definition buffer_size :: "nat \<Rightarrow> nat" where
  "buffer_size maximum = max 16 (maximum + 2)"

definition read_slice :: "nat \<Rightarrow> string \<Rightarrow> read_result \<times> string" where
  "read_slice maximum s =
     (let before = takeWhile (\<lambda>c. c \<noteq> newline) s; after = dropWhile (\<lambda>c. c \<noteq> newline) s
      in if after \<noteq> '''' \<and> length before < buffer_size maximum then (ReadLine before, tl after)
         else if buffer_size maximum \<le> length s then (ReadTooLarge, tl after)
         else if s = '''' then (ReadEOF, '''') else (ReadPartial, ''''))"

definition trim_carriage :: "string \<Rightarrow> string" where
  "trim_carriage s = (if s \<noteq> '''' \<and> last s = carriage then butlast s else s)"

text \<open>\<open>None\<close> is the end of the stream.\<close>

definition Codec_Read :: "wire \<Rightarrow> nat \<Rightarrow> string \<Rightarrow> (string + envelope) option \<times> string" where
  "Codec_Read wr maximum s =
     (case read_slice maximum s of
        (ReadTooLarge, rest) \<Rightarrow> (Some (Inl ''line_too_large''), rest)
      | (ReadPartial, rest) \<Rightarrow> (Some (Inl ''partial_line''), rest)
      | (ReadEOF, rest) \<Rightarrow> (None, rest)
      | (ReadLine raw, rest) \<Rightarrow>
          let line = trim_carriage raw
          in if maximum < length line then (Some (Inl ''line_too_large''), rest)
             else if line = '''' then (Some (Inl ''invalid_envelope''), rest)
             else (Some (DecodeEnvelope wr line), rest))"

text \<open>What a write appends to the stream.\<close>

definition Codec_Write :: "wire \<Rightarrow> nat \<Rightarrow> envelope \<Rightarrow> string + string" where
  "Codec_Write wr maximum e =
     (case ValidateEnvelope wr e of
        Inl code \<Rightarrow> Inl code
      | Inr _ \<Rightarrow> (case wr_Marshal wr e of
          None \<Rightarrow> Inl ''line_too_large''
        | Some encoded \<Rightarrow> if maximum < length encoded then Inl ''line_too_large'' else Inr (encoded @ [newline])))"

section \<open>Reading a stream\<close>

lemma read_slice_shorter:
  assumes "read_slice maximum s = (r, rest)" "r \<noteq> ReadEOF"
  shows "length rest < length s"
proof -
  have len: "length (takeWhile (\<lambda>c. c \<noteq> newline) s) + length (dropWhile (\<lambda>c. c \<noteq> newline) s) = length s"
    by (metis length_append takeWhile_dropWhile_id)
  have "s \<noteq> []" using assms by (auto simp: read_slice_def buffer_size_def)
  then show ?thesis using assms len
    by (cases "dropWhile (\<lambda>c. c \<noteq> newline) s") (auto simp: read_slice_def Let_def split: if_splits)
qed

lemma Codec_Read_shorter: "Codec_Read wr maximum s = (Some r, rest) \<Longrightarrow> length rest < length s"
  by (auto simp: Codec_Read_def Let_def split: prod.splits read_result.splits if_splits dest!: read_slice_shorter)

text \<open>\<open>readStdout\<close>: what is dispatched in order, and the error that ends the loop, \<open>None\<close> at the end of the stream.\<close>

function read_stream :: "wire \<Rightarrow> nat \<Rightarrow> string \<Rightarrow> envelope list \<times> string option" where
  "read_stream wr maximum s =
     (case Codec_Read wr maximum s of
        (None, rest) \<Rightarrow> ([], None)
      | (Some (Inl code), rest) \<Rightarrow> ([], Some code)
      | (Some (Inr e), rest) \<Rightarrow> (case read_stream wr maximum rest of (es, r) \<Rightarrow> (e # es, r)))"
  by pat_completeness auto
termination by (relation "measure (\<lambda>(wr, maximum, s). length s)") (auto dest: Codec_Read_shorter [OF sym])

declare read_stream.simps [simp del]

lemma read_line:
  assumes "newline \<notin> set line" "length line < buffer_size maximum"
  shows "read_slice maximum (line @ newline # rest) = (ReadLine line, rest)"
proof -
  have "takeWhile (\<lambda>c. c \<noteq> newline) (line @ newline # rest) = line" "dropWhile (\<lambda>c. c \<noteq> newline) (line @ newline # rest) = newline # rest"
    using assms(1) by (induction line) auto
  then show ?thesis using assms(2) by (simp add: read_slice_def Let_def)
qed

text \<open>
  What is relied on from the encoder for one envelope: its text is one non-empty line that does not
  end in a carriage return. \<open>encoding/json\<close> writes compact text, raw payloads included, and escapes
  control characters in strings. Nothing is assumed about what the text decodes to.
\<close>

definition one_line :: "wire \<Rightarrow> envelope \<Rightarrow> bool" where
  "one_line wr e \<longleftrightarrow> (\<forall>encoded. wr_Marshal wr e = Some encoded \<longrightarrow>
     encoded \<noteq> '''' \<and> newline \<notin> set encoded \<and> last encoded \<noteq> carriage)"

text \<open>Texts decoded one by one up to the first that is refused.\<close>

fun decode_texts :: "wire \<Rightarrow> string list \<Rightarrow> envelope list \<times> string option" where
  "decode_texts wr [] = ([], None)"
| "decode_texts wr (x # xs) =
     (case DecodeEnvelope wr x of
        Inl code \<Rightarrow> ([], Some code)
      | Inr e \<Rightarrow> (case decode_texts wr xs of (es, r) \<Rightarrow> (e # es, r)))"

lemma Codec_Write_line:
  assumes "Codec_Write wr maximum e = Inr line"
  obtains enc where "wr_Marshal wr e = Some enc" "line = enc @ [newline]" "length enc \<le> maximum"
  using assms by (auto simp: Codec_Write_def split: sum.splits option.splits if_splits)

lemma read_written:
  assumes "Codec_Write wr maximum e = Inr line" "one_line wr e" "maximum \<le> limit"
  shows "Codec_Read rd limit (line @ rest) = (Some (DecodeEnvelope rd (the (wr_Marshal wr e))), rest)"
proof -
  obtain enc where enc: "wr_Marshal wr e = Some enc" "line = enc @ [newline]" "length enc \<le> maximum"
    by (rule Codec_Write_line [OF assms(1)])
  have "read_slice limit (line @ rest) = (ReadLine enc, rest)"
    using read_line [of enc limit rest] enc assms(2,3) by (simp add: one_line_def buffer_size_def)
  with enc assms(2,3) show ?thesis
    by (simp add: Codec_Read_def trim_carriage_def one_line_def)
qed

text \<open>
  C35. Framing: what one side of the adapter protocol writes is read by the other side message by
  message. Whatever the payloads and whatever bytes follow, the stream of the lines of successful
  writes is taken apart by the reader into exactly the texts that were encoded, in their order: it
  hands on what these texts decode to, ends at the first text its decoder refuses, and else goes on
  with the bytes that follow. Neither side's decoder enters into this; the reader's limit is at
  least the writer's.
\<close>

theorem codec_framing_round_trip:
  assumes "map (Codec_Write wr maximum) es = map Inr ls" and "\<forall>e \<in> set es. one_line wr e" and "maximum \<le> limit"
  shows "read_stream rd limit (concat ls @ rest) =
    (case decode_texts rd (map (\<lambda>e. the (wr_Marshal wr e)) es) of
       (got, Some code) \<Rightarrow> (got, Some code)
     | (got, None) \<Rightarrow> (got @ fst (read_stream rd limit rest), snd (read_stream rd limit rest)))"
  using assms
proof (induction es arbitrary: ls)
  case Nil
  then show ?case by simp
next
  case (Cons e es)
  then obtain l ls' where ls: "ls = l # ls'" "Codec_Write wr maximum e = Inr l" "map (Codec_Write wr maximum) es = map Inr ls'" by auto
  have "Codec_Read rd limit (l @ concat ls' @ rest) = (Some (DecodeEnvelope rd (the (wr_Marshal wr e))), concat ls' @ rest)"
    by (rule read_written [OF ls(2)]) (use Cons.prems in auto)
  with Cons.IH [OF ls(3)] Cons.prems(2,3) show ?case
    by (simp add: ls(1) read_stream.simps [of rd limit "l @ _"] split: sum.split option.split prod.split)
qed

text \<open>
  Nothing an adapter sends gets past the reader unchecked: on every byte stream the reader ends,
  and every envelope it hands on is valid.
\<close>

theorem reader_dispatches_valid:
  "\<forall>e \<in> set (fst (read_stream wr maximum s)). ValidateEnvelope wr e = Inr ()"
proof (induction wr maximum s rule: read_stream.induct)
  case (1 wr maximum s)
  have "ValidateEnvelope wr e = Inr ()" if "Codec_Read wr maximum s = (Some (Inr e), rest)" for e rest
    using that by (auto simp: Codec_Read_def DecodeEnvelope_def Let_def split: prod.splits read_result.splits if_splits option.splits sum.splits)
  with 1 show ?case
    by (subst read_stream.simps) (auto split: prod.splits option.splits sum.splits)
qed

section \<open>Negotiation\<close>

lemma NegotiateVersion_shared:
  assumes "NegotiateVersion core adapter = Inr v"
  shows "v \<in> set core \<inter> set adapter"
proof -
  let ?common = "sort_key version_rank (filter (\<lambda>v. v \<in> set core) adapter)"
  obtain vs where "?common = v # vs" using assms by (cases ?common) (auto simp: NegotiateVersion_def split: if_splits)
  then have "v \<in> set ?common" by simp
  then show ?thesis by simp
qed

text \<open>
  The negotiated version is the greatest one both sides name: with well-formed version lists the
  negotiation succeeds exactly when they share a version, and returns a shared version that no other
  shared version exceeds.
\<close>

theorem negotiated_version_greatest:
  assumes "\<forall>v \<in> set core \<union> set adapter. parseVersion v \<noteq> None"
  shows "case NegotiateVersion core adapter of
      Inl code \<Rightarrow> set core \<inter> set adapter = {} \<and> code \<in> {''unsupported_protocol_major'', ''unsupported_protocol_minor''}
    | Inr v \<Rightarrow> v \<in> set core \<inter> set adapter \<and> (\<forall>u \<in> set core \<inter> set adapter. the (parseVersion u) \<le> the (parseVersion v))"
proof -
  let ?common = "sort_key version_rank (filter (\<lambda>v. v \<in> set core) adapter)"
  have set: "set ?common = set core \<inter> set adapter" by auto
  have ok: "\<not> list_ex (\<lambda>v. parseVersion v = None) core" "\<not> list_ex (\<lambda>v. parseVersion v = None) adapter"
    using assms by (auto simp: list_ex_iff)
  show ?thesis
  proof (cases ?common)
    case Nil
    with set ok show ?thesis by (auto simp: NegotiateVersion_def)
  next
    case (Cons v vs)
    have "sorted (map version_rank ?common)" by simp
    then have first: "version_rank v \<le> version_rank u" if "u \<in> set core \<inter> set adapter" for u
      using that Cons set by auto
    have v: "v \<in> set core \<inter> set adapter" using Cons set by auto
    have "the (parseVersion u) \<le> the (parseVersion v)" if u: "u \<in> set core \<inter> set adapter" for u
    proof -
      obtain a b c d where "parseVersion u = Some (a, b)" "parseVersion v = Some (c, d)" using assms u v by fastforce
      with first [OF u] show ?thesis by (auto simp: version_rank_def less_eq_prod_def)
    qed
    with Cons v ok show ?thesis by (auto simp: NegotiateVersion_def)
  qed
qed

end
