(* ===== verification/Adapter_Secrets.thy ===== *)
theory Adapter_Secrets
  imports Adapter_Protocol "HOL-Library.Sublist" "HOL-Library.AList"
begin

text \<open>
  Adapters are configured with secrets and their diagnostics are kept without them: the registry
  (\<open>adapters/registry.go\<close>), the resolution of secret references (\<open>adapters/secrets.go\<close>), redaction, and the
  bounded buffer of diagnostic lines (\<open>adapters/diagnostics.go\<close>).

  A Go map is an association list with one entry per key, in the order an iteration meets it;
  \<open>filepath.IsAbs\<close> and the resolver are arguments. The file store of secrets is not modelled.
\<close>

section \<open>The registry\<close>

fun environmentKeyPattern :: "string \<Rightarrow> bool" where
  "environmentKeyPattern [] = False"
| "environmentKeyPattern (c # s) =
     ((0x41 \<le> byte c \<and> byte c \<le> 0x5A \<or> c = CHR ''_'')
      \<and> list_all (\<lambda>d. 0x41 \<le> byte d \<and> byte d \<le> 0x5A \<or> digit d \<or> d = CHR ''_'') s)"

definition has_nul :: "string \<Rightarrow> bool" where
  "has_nul s \<longleftrightarrow> CHR 0x00 \<in> set s"

definition validateDescriptor :: "(string \<Rightarrow> bool) \<Rightarrow> descriptor \<Rightarrow> string + unit" where
  "validateDescriptor isAbs d =
     (if \<not> adapterIDPattern (ds_AdapterID d) \<or> \<not> isAbs (ds_Executable d) \<or> has_nul (ds_Executable d)
         \<or> (ds_WorkingDirectory d \<noteq> '''' \<and> \<not> isAbs (ds_WorkingDirectory d)) then Inl ''invalid_descriptor''
      else if list_ex has_nul (ds_Arguments d) then Inl ''invalid_descriptor''
      else if list_ex (\<lambda>(k, v). \<not> environmentKeyPattern k \<or> has_nul v) (ds_Environment d) then Inl ''invalid_descriptor''
      else Inr ())"

type_synonym registry = "(string \<times> descriptor) list"

fun register :: "(string \<Rightarrow> bool) \<Rightarrow> descriptor list \<Rightarrow> registry \<Rightarrow> string + registry" where
  "register isAbs [] table = Inr table"
| "register isAbs (d # ds) table =
     (case validateDescriptor isAbs d of
        Inl code \<Rightarrow> Inl code
      | Inr _ \<Rightarrow> if map_of table (ds_AdapterID d) \<noteq> None then Inl ''duplicate_adapter''
                else register isAbs ds ((ds_AdapterID d, d) # table))"

definition NewRegistry :: "(string \<Rightarrow> bool) \<Rightarrow> descriptor list \<Rightarrow> string + registry" where
  "NewRegistry isAbs ds = register isAbs ds []"

definition Lookup :: "registry \<Rightarrow> string \<Rightarrow> string + descriptor" where
  "Lookup table adapterID = (case map_of table adapterID of None \<Rightarrow> Inl ''adapter_not_registered'' | Some d \<Rightarrow> Inr d)"

section \<open>Secrets in a configuration\<close>

definition optionalSecretField :: "manifest \<Rightarrow> string \<Rightarrow> bool" where
  "optionalSecretField m field =
     (case map_of (entries (mf_ConfigSchema m)) ''properties'' of
        Some (AObject properties) \<Rightarrow> (case map_of properties field of
          Some (AObject d) \<Rightarrow> map_of d ''x-espial-optional-secret'' = Some (ABool True)
        | _ \<Rightarrow> False)
      | _ \<Rightarrow> False)"

definition reference_of :: "(string \<times> string) list \<Rightarrow> string \<Rightarrow> string" where
  "reference_of references field = (case map_of references field of Some r \<Rightarrow> r | None \<Rightarrow> '''')"

fun check_secret_fields :: "manifest \<Rightarrow> (string \<times> any_value) list \<Rightarrow> (string \<times> string) list \<Rightarrow> string list \<Rightarrow> string + unit" where
  "check_secret_fields m nonsecret references [] = Inr ()"
| "check_secret_fields m nonsecret references (field # rest) =
     (if map_of nonsecret field \<noteq> None then Inl ''secret_in_nonsecret_config''
      else if TrimSpace (reference_of references field) = '''' \<and> \<not> optionalSecretField m field then Inl ''secret_reference_missing''
      else check_secret_fields m nonsecret references rest)"

fun resolve_references ::
  "(string \<Rightarrow> string option) \<Rightarrow> (string \<times> string) list \<Rightarrow> (string \<times> any_value) list \<Rightarrow> string list
     \<Rightarrow> string + (string \<times> any_value) list \<times> string list" where
  "resolve_references resolver [] resolved redactions = Inr (resolved, redactions)"
| "resolve_references resolver ((field, reference) # rest) resolved redactions =
     (case resolver reference of
        None \<Rightarrow> Inl ''secret_resolution_failed''
      | Some v \<Rightarrow> resolve_references resolver rest (AList.update field (AString v) resolved)
                   (if v \<noteq> '''' then redactions @ [v] else redactions))"

definition ResolveConfig ::
  "manifest \<Rightarrow> (string \<times> any_value) list \<Rightarrow> (string \<times> string) list \<Rightarrow> (string \<Rightarrow> string option) option
     \<Rightarrow> string + (string \<times> any_value) list \<times> string list" where
  "ResolveConfig m nonsecret references resolver =
     (case check_secret_fields m nonsecret references (mf_SecretFields m) of
        Inl code \<Rightarrow> Inl code
      | Inr _ \<Rightarrow>
          if list_ex (\<lambda>(field, r). field \<notin> set (mf_SecretFields m)) references then Inl ''undeclared_secret_reference''
          else case resolver of
            None \<Rightarrow> if references \<noteq> [] then Inl ''secret_resolver_unavailable'' else Inr (nonsecret, [])
          | Some f \<Rightarrow> resolve_references f references nonsecret [])"

section \<open>Redaction\<close>

text \<open>\<open>strings.ReplaceAll\<close> for a text that is not empty.\<close>

function replace_all :: "string \<Rightarrow> string \<Rightarrow> string \<Rightarrow> string" where
  "replace_all old new s =
     (if old = '''' \<or> s = '''' then s
      else if prefix old s then new @ replace_all old new (drop (length old) s)
      else hd s # replace_all old new (tl s))"
  by pat_completeness auto
termination by (relation "measure (\<lambda>(old, new, s). length s)") auto

declare replace_all.simps [simp del]

definition redacted :: string where
  "redacted = ''[REDACTED]''"

fun Redact :: "string \<Rightarrow> string list \<Rightarrow> string" where
  "Redact v [] = v"
| "Redact v (secret # secrets) = Redact (if secret \<noteq> '''' then replace_all secret redacted v else v) secrets"

section \<open>The diagnostic buffer\<close>

record diagnostics =
  dg_entries :: "string list"
  dg_pending :: string
  dg_discard :: bool
  dg_size :: nat
  dg_maximum :: nat
  dg_lineMax :: nat
  dg_dropped :: nat
  dg_secrets :: "string list"

definition NewDiagnosticBuffer :: "int \<Rightarrow> int \<Rightarrow> diagnostics" where
  "NewDiagnosticBuffer maximum lineMaximum =
     \<lparr> dg_entries = [], dg_pending = '''', dg_discard = False, dg_size = 0,
       dg_maximum = (if maximum \<le> 0 then 64 * 1024 else nat maximum),
       dg_lineMax = (if lineMaximum \<le> 0 then 16 * 1024 else nat lineMaximum), dg_dropped = 0, dg_secrets = [] \<rparr>"

definition SetSecrets :: "string list \<Rightarrow> diagnostics \<Rightarrow> diagnostics" where
  "SetSecrets secrets b = b\<lparr>dg_secrets := secrets\<rparr>"

text \<open>The loop that makes room by dropping the oldest entries.\<close>

fun make_room :: "nat \<Rightarrow> string list \<Rightarrow> diagnostics \<Rightarrow> diagnostics" where
  "make_room n [] b = b\<lparr>dg_entries := []\<rparr>"
| "make_room n (e # es) b =
     (if dg_maximum b < dg_size b + n
      then make_room n es (b\<lparr>dg_size := dg_size b - (length e + 1), dg_dropped := dg_dropped b + 1\<rparr>)
      else b\<lparr>dg_entries := e # es\<rparr>)"

definition commitLocked :: "diagnostics \<Rightarrow> diagnostics" where
  "commitLocked b0 =
     (let line = dg_pending b0; b = b0\<lparr>dg_pending := '''', dg_discard := False\<rparr>
      in if line = '''' then b
         else
           let line = Redact line (dg_secrets b); b = make_room (length line + 1) (dg_entries b) b
           in if dg_maximum b < length line + 1 then b\<lparr>dg_dropped := dg_dropped b + 1\<rparr>
              else b\<lparr>dg_entries := dg_entries b @ [line], dg_size := dg_size b + (length line + 1)\<rparr>)"

definition write_byte :: "diagnostics \<Rightarrow> char \<Rightarrow> diagnostics" where
  "write_byte b c =
     (if c = newline then commitLocked b
      else if dg_discard b then b
      else if dg_lineMax b \<le> length (dg_pending b) then b\<lparr>dg_discard := True, dg_dropped := dg_dropped b + 1\<rparr>
      else b\<lparr>dg_pending := dg_pending b @ [c]\<rparr>)"

definition Diagnostics_Write :: "string \<Rightarrow> diagnostics \<Rightarrow> diagnostics" where
  "Diagnostics_Write data b = foldl write_byte b data"

definition AddLine :: "string \<Rightarrow> diagnostics \<Rightarrow> diagnostics" where
  "AddLine line b = Diagnostics_Write (line @ [newline]) b"

definition Snapshot_text :: "diagnostics \<Rightarrow> string \<times> nat" where
  "Snapshot_text b = (Redact (concat (map (\<lambda>e. e @ [newline]) (dg_entries b))) (dg_secrets b), dg_dropped b)"

section \<open>Redaction removes secrets\<close>

text \<open>
  A secret that does not run into the replacement text: it occurs around a replacement only inside
  one of its two sides.
\<close>

definition separable :: "string \<Rightarrow> bool" where
  "separable s \<longleftrightarrow> s \<noteq> '''' \<and> (\<forall>x y. sublist s (x @ redacted @ y) \<longrightarrow> sublist s x \<or> sublist s y)"

lemma sublist_side: "sublist s u \<Longrightarrow> sublist s (u @ v)" "sublist s v \<Longrightarrow> sublist s (u @ v)"
  unfolding sublist_def by (metis append.assoc)+

lemma replace_all_keeps_out:
  assumes "separable s" "\<not> sublist s (u @ v)"
  shows "\<not> sublist s (u @ replace_all old redacted v)"
  using assms(2)
proof (induction old redacted v arbitrary: u rule: replace_all.induct)
  case (1 old v)
  show ?case
  proof (cases "old = '''' \<or> v = ''''")
    case True
    with 1(3) show ?thesis by (subst replace_all.simps) auto
  next
    case live: False
    show ?thesis
    proof (cases "prefix old v")
      case True
      have "\<not> sublist s ((u @ take (length old) v) @ drop (length old) v)" using 1(3) by simp
      then have "\<not> sublist s u" "\<not> sublist s (drop (length old) v)" 
        using sublist_side(1) [of s u v] sublist_side(2) [of s "drop (length old) v" "u @ take (length old) v"] 1(3) by auto
      moreover have "\<not> sublist s (replace_all old redacted (drop (length old) v))"
        using 1(1) [OF live True, of "[]"] \<open>\<not> sublist s (drop (length old) v)\<close> by simp
      ultimately show ?thesis using assms(1) live True by (subst replace_all.simps) (auto simp: separable_def)
    next
      case False
      have "u @ v = (u @ [hd v]) @ tl v" using live by simp
      then have "\<not> sublist s ((u @ [hd v]) @ tl v)" using 1(3) by simp
      from 1(2) [OF live False this] show ?thesis using live False by (subst replace_all.simps) simp
    qed
  qed
qed

lemma replace_all_removes:
  assumes "separable s"
  shows "\<not> sublist s (replace_all s redacted v)"
proof -
  have nonempty: "s \<noteq> ''''" using assms by (simp add: separable_def)
  have "\<not> sublist s (u @ replace_all s redacted v)"
    if "\<And>x y. u @ v = x @ s @ y \<Longrightarrow> length u \<le> length x" for u
    using that
  proof (induction "length v" arbitrary: u v rule: less_induct)
    case less
    have here: "\<not> sublist s u"
    proof
      assume "sublist s u"
      then obtain x y where "u = x @ s @ y" by (auto simp: sublist_def)
      with less.prems [of x "y @ v"] nonempty show False by simp
    qed
    show ?case
    proof (cases "v = ''''")
      case True
      with here show ?thesis by (simp add: replace_all.simps)
    next
      case live: False
      show ?thesis
      proof (cases "prefix s v")
        case True
        have "length (drop (length s) v) < length v" using live nonempty by simp
        from less.hyps [OF this, of "[]"] have "\<not> sublist s (replace_all s redacted (drop (length s) v))" by simp
        with here assms live True nonempty show ?thesis by (subst replace_all.simps) (auto simp: separable_def)
      next
        case False
        have start: "length (u @ [hd v]) \<le> length x" if "(u @ [hd v]) @ tl v = x @ s @ y" for x y
        proof -
          have uv: "u @ v = x @ s @ y" using that live by simp
          have "x \<noteq> u" using uv False by auto
          moreover have "length x = length u \<Longrightarrow> x = u" using uv by (simp add: append_eq_append_conv)
          ultimately show ?thesis using less.prems [OF uv] by (cases "length x = length u") auto
        qed
        have "length (tl v) < length v" using live by simp
        then have "\<not> sublist s ((u @ [hd v]) @ replace_all s redacted (tl v))" by (rule less.hyps) (rule start)
        with live False nonempty show ?thesis by (subst replace_all.simps) simp
      qed
    qed
  qed
  from this [of "[]"] show ?thesis by simp
qed

lemma Redact_keeps_out: "separable s \<Longrightarrow> \<not> sublist s v \<Longrightarrow> \<not> sublist s (Redact v secrets)"
  using replace_all_keeps_out [of s "[]"] by (induction secrets arbitrary: v) auto

lemma Redact_removes: "separable s \<Longrightarrow> s \<in> set secrets \<Longrightarrow> \<not> sublist s (Redact v secrets)"
proof (induction secrets arbitrary: v)
  case (Cons x xs)
  show ?case
  proof (cases "x = s")
    case True
    with Cons.prems(1) replace_all_removes [OF Cons.prems(1)] show ?thesis
      by (auto simp: separable_def intro!: Redact_keeps_out [OF Cons.prems(1), rule_format])
  qed (use Cons in auto)
qed simp

text \<open>A secret that shares no byte with the replacement is separable.\<close>

lemma separable_disjoint:
  assumes "s \<noteq> ''''" "set s \<inter> set redacted = {}"
  shows "separable s"
proof -
  have "sublist s x \<or> sublist s y" if occ: "sublist s (x @ redacted @ y)" for x y
  proof -
    obtain p q where pq: "x @ redacted @ y = p @ s @ q" using occ by (auto simp: sublist_def)
    show ?thesis
    proof (cases "length p + length s \<le> length x")
      case True
      then have "take (length p + length s) x = p @ s" using arg_cong [OF pq, of "take (length p + length s)"] by simp
      then have "sublist s x" unfolding sublist_def by (metis append.assoc append_take_drop_id)
      then show ?thesis ..
    next
      case False
      have ne: "redacted \<noteq> []" by (simp add: redacted_def)
      have "length x + length redacted \<le> length p"
      proof (rule ccontr)
        assume short: "\<not> length x + length redacted \<le> length p"
        define k where "k = max (length x) (length p)"
        have k: "length x \<le> k" "k < length x + length redacted" "length p \<le> k" "k < length p + length s"
          using False short ne assms(1) by (auto simp: k_def)
        have "(x @ redacted @ y) ! k = redacted ! (k - length x)" using k(1,2) by (simp add: nth_append less_diff_conv2)
        moreover have "(p @ s @ q) ! k = s ! (k - length p)" using k(3,4) by (simp add: nth_append less_diff_conv2)
        ultimately have "redacted ! (k - length x) = s ! (k - length p)" by (simp add: pq)
        moreover have "redacted ! (k - length x) \<in> set redacted" "s ! (k - length p) \<in> set s" using k by auto
        ultimately show False using assms(2) by auto
      qed
      then have "drop (length x + length redacted) (p @ s @ q) = drop (length x + length redacted) p @ s @ q" by simp
      with arg_cong [OF pq, of "drop (length x + length redacted)"] have "y = drop (length x + length redacted) p @ s @ q" by simp
      then have "sublist s y" by (auto simp: sublist_def)
      then show ?thesis ..
    qed
  qed
  with assms(1) show ?thesis by (simp add: separable_def)
qed

text \<open>
  C28. A diagnostic snapshot shows no secret: whatever an adapter wrote and whatever secrets were set
  before, no secret that is set now occurs in the text, provided it does not run into the text that
  replaces it.
\<close>

theorem snapshot_without_secrets:
  assumes "separable s" and "s \<in> set (dg_secrets b)"
  shows "\<not> sublist s (fst (Snapshot_text b))"
  using Redact_removes [OF assms] by (simp add: Snapshot_text_def)

section \<open>The buffer is bounded\<close>

definition entries_size :: "string list \<Rightarrow> nat" where
  "entries_size es = sum_list (map (\<lambda>e. length e + 1) es)"

definition buffer_ok :: "diagnostics \<Rightarrow> bool" where
  "buffer_ok b \<longleftrightarrow> dg_size b = entries_size (dg_entries b) \<and> dg_size b \<le> dg_maximum b \<and> length (dg_pending b) \<le> dg_lineMax b"

lemma make_room_secrets: "dg_secrets (make_room n es b) = dg_secrets b"
  by (induction n es b rule: make_room.induct) simp_all

lemma make_room_ok:
  assumes "dg_size b = entries_size es" "dg_size b \<le> dg_maximum b"
  shows "dg_size (make_room n es b) = entries_size (dg_entries (make_room n es b))"
    "dg_size (make_room n es b) \<le> dg_maximum b"
    "n \<le> dg_maximum b \<Longrightarrow> dg_size (make_room n es b) + n \<le> dg_maximum b"
    "dg_maximum (make_room n es b) = dg_maximum b" "dg_lineMax (make_room n es b) = dg_lineMax b"
    "dg_pending (make_room n es b) = dg_pending b"
  using assms by (induction n es b rule: make_room.induct) (auto simp: entries_size_def)

lemma commitLocked_ok:
  assumes "buffer_ok b"
  shows "buffer_ok (commitLocked b)" "dg_maximum (commitLocked b) = dg_maximum b" "dg_lineMax (commitLocked b) = dg_lineMax b"
proof -
  let ?b = "b\<lparr>dg_pending := '''', dg_discard := False\<rparr>" and ?line = "Redact (dg_pending b) (dg_secrets b)"
  have pre: "dg_size ?b = entries_size (dg_entries ?b)" "dg_size ?b \<le> dg_maximum ?b" using assms by (simp_all add: buffer_ok_def)
  note room = make_room_ok [OF pre, of "length ?line + 1"]
  show "buffer_ok (commitLocked b)" "dg_maximum (commitLocked b) = dg_maximum b" "dg_lineMax (commitLocked b) = dg_lineMax b"
    using assms room by (auto simp: commitLocked_def Let_def buffer_ok_def entries_size_def)
qed

lemma write_byte_ok:
  assumes "buffer_ok b"
  shows "buffer_ok (write_byte b c) \<and> dg_maximum (write_byte b c) = dg_maximum b \<and> dg_lineMax (write_byte b c) = dg_lineMax b"
  using assms commitLocked_ok [OF assms] by (auto simp: write_byte_def buffer_ok_def)

lemma Diagnostics_Write_ok:
  "buffer_ok b \<Longrightarrow> buffer_ok (Diagnostics_Write data b) \<and> dg_maximum (Diagnostics_Write data b) = dg_maximum b
     \<and> dg_lineMax (Diagnostics_Write data b) = dg_lineMax b"
  unfolding Diagnostics_Write_def
  by (induction data rule: rev_induct) (auto dest: write_byte_ok)

datatype diagnostic_op = WriteData string | ChangeSecrets "string list"

fun apply_op :: "diagnostics \<Rightarrow> diagnostic_op \<Rightarrow> diagnostics" where
  "apply_op b (WriteData data) = Diagnostics_Write data b"
| "apply_op b (ChangeSecrets secrets) = SetSecrets secrets b"

text \<open>
  The memory an adapter can make its diagnostics take is bounded: after any writes and changes of
  secrets the retained lines, with their newlines, take at most the configured size, the size that
  is kept is exact, and the line in progress is no longer than its limit.
\<close>

theorem diagnostics_bounded:
  "let b = foldl apply_op (NewDiagnosticBuffer maximum lineMaximum) ops in dg_size b = entries_size (dg_entries b)
    \<and> entries_size (dg_entries b) \<le> (if maximum \<le> 0 then 65536 else nat maximum)
    \<and> length (dg_pending b) \<le> (if lineMaximum \<le> 0 then 16384 else nat lineMaximum)"
proof -
  let ?b0 = "NewDiagnosticBuffer maximum lineMaximum"
  have "buffer_ok (foldl apply_op ?b0 ops) \<and> dg_maximum (foldl apply_op ?b0 ops) = dg_maximum ?b0
      \<and> dg_lineMax (foldl apply_op ?b0 ops) = dg_lineMax ?b0"
  proof (induction ops rule: rev_induct)
    case Nil
    show ?case by (simp add: buffer_ok_def NewDiagnosticBuffer_def entries_size_def)
  next
    case (snoc op ops)
    show ?case
    proof (cases op)
      case (WriteData data)
      with snoc Diagnostics_Write_ok [of "foldl apply_op ?b0 ops" data] show ?thesis by simp
    next
      case (ChangeSecrets secrets)
      with snoc show ?thesis by (simp add: SetSecrets_def buffer_ok_def)
    qed
  qed
  moreover have "dg_maximum ?b0 = (if maximum \<le> 0 then 65536 else nat maximum)"
    "dg_lineMax ?b0 = (if lineMaximum \<le> 0 then 16384 else nat lineMaximum)" by (simp_all add: NewDiagnosticBuffer_def)
  ultimately show ?thesis unfolding Let_def buffer_ok_def by auto
qed

end
