(* ===== verification/Adapter_Process.thy ===== *)
theory Adapter_Process
  imports Adapter_Secrets
begin

text \<open>
  The supervised adapter process (\<open>adapters/process.go\<close>) and the session on top of it
  (\<open>adapters/session.go\<close>). The goroutines share a record under a mutex: callers, the reader of standard
  output, the waiter for the exit, and whoever stops the process. Each critical section is a function
  on the record \<open>process\<close>, and \<open>proc_step\<close> interleaves them. A caller is a \<open>call_state\<close>: it writes its
  request, waits in a \<open>select\<close> whose ready branches are all possible, and clears the pending slot when
  it returns. The send on a response channel follows its critical section without blocking and is
  part of it here.

  The operating system process, deadlines and cancellation are moves of the environment. Request
  identifiers are 122 random bits and are taken to be new.
\<close>

section \<open>State\<close>

datatype call_phase = Writing | Waiting | Returned "string + string"

record call_state =
  cl_operation :: string
  cl_allowStopping :: bool
  cl_phase :: call_phase
  cl_delivered :: bool
  cl_response :: "envelope option"

record process =
  ps_calls :: "string \<Rightarrow> call_state option"
  ps_pending :: "string option"
  ps_readySeen :: bool
  ps_ready :: "envelope option"
  ps_stopping :: bool
  ps_stopped :: bool
  ps_version :: string
  ps_failure :: "string option"
  ps_done :: bool
  ps_diagnostics :: diagnostics

definition new_process :: "diagnostics \<Rightarrow> process" where
  "new_process d = \<lparr> ps_calls = (\<lambda>_. None), ps_pending = None, ps_readySeen = False, ps_ready = None, ps_stopping = False,
     ps_stopped = False, ps_version = ProtocolV1, ps_failure = None, ps_done = False, ps_diagnostics = d \<rparr>"

text \<open>Options; the clock is the environment.\<close>

record process_options =
  po_StartupTimeout :: duration
  po_RequestTimeout :: duration
  po_ShutdownTimeout :: duration
  po_TerminationTimeout :: duration
  po_MaxLineBytes :: int
  po_DiagnosticBytes :: int
  po_DiagnosticLine :: int

definition DefaultProcessOptions :: process_options where
  "DefaultProcessOptions = \<lparr> po_StartupTimeout = 10 * second, po_RequestTimeout = 30 * second, po_ShutdownTimeout = 5 * second,
     po_TerminationTimeout = 2 * second, po_MaxLineBytes = int MaxLineBytes, po_DiagnosticBytes = 64 * 1024,
     po_DiagnosticLine = 16 * 1024 \<rparr>"

definition or_default :: "int \<Rightarrow> int \<Rightarrow> int" where
  "or_default d v = (if v \<le> 0 then d else v)"

definition normalizeProcessOptions :: "process_options \<Rightarrow> process_options" where
  "normalizeProcessOptions o0 = \<lparr>
     po_StartupTimeout = or_default (po_StartupTimeout DefaultProcessOptions) (po_StartupTimeout o0),
     po_RequestTimeout = or_default (po_RequestTimeout DefaultProcessOptions) (po_RequestTimeout o0),
     po_ShutdownTimeout = or_default (po_ShutdownTimeout DefaultProcessOptions) (po_ShutdownTimeout o0),
     po_TerminationTimeout = or_default (po_TerminationTimeout DefaultProcessOptions) (po_TerminationTimeout o0),
     po_MaxLineBytes = or_default (po_MaxLineBytes DefaultProcessOptions) (po_MaxLineBytes o0),
     po_DiagnosticBytes = or_default (po_DiagnosticBytes DefaultProcessOptions) (po_DiagnosticBytes o0),
     po_DiagnosticLine = or_default (po_DiagnosticLine DefaultProcessOptions) (po_DiagnosticLine o0) \<rparr>"

definition start_process :: "process_options \<Rightarrow> process" where
  "start_process o0 = (let o1 = normalizeProcessOptions o0 in new_process (NewDiagnosticBuffer (po_DiagnosticBytes o1) (po_DiagnosticLine o1)))"

section \<open>Critical sections\<close>

text \<open>\<open>failOnce\<close>: the first failure is kept.\<close>

definition fail_process :: "string \<Rightarrow> process \<Rightarrow> process" where
  "fail_process code p = (if ps_failure p = None then p\<lparr>ps_failure := Some code\<rparr> else p)"

definition set_call :: "string \<Rightarrow> call_state \<Rightarrow> process \<Rightarrow> process" where
  "set_call rid c p = p\<lparr>ps_calls := (ps_calls p)(rid := Some c)\<rparr>"

definition dispatch_notification :: "(string \<Rightarrow> string option) \<Rightarrow> envelope \<Rightarrow> process \<Rightarrow> process" where
  "dispatch_notification decodeLog e p =
     (if en_Operation e = ''ready'' then
        if ps_readySeen p \<or> ps_pending p \<noteq> None then fail_process ''duplicate_ready'' p
        else case ps_ready p of
          None \<Rightarrow> p\<lparr>ps_readySeen := True, ps_ready := Some e\<rparr>
        | Some _ \<Rightarrow> fail_process ''duplicate_ready'' (p\<lparr>ps_readySeen := True\<rparr>)
      else if en_Operation e = ''log'' then
        case decodeLog (en_Payload e) of
          None \<Rightarrow> fail_process ''invalid_log_notification'' p
        | Some message \<Rightarrow>
            if message = '''' then fail_process ''invalid_log_notification'' p
            else p\<lparr>ps_diagnostics := AddLine message (ps_diagnostics p)\<rparr>
      else fail_process ''unsupported_notification'' p)"

definition dispatch_response :: "envelope \<Rightarrow> process \<Rightarrow> process" where
  "dispatch_response e p =
     (case ps_pending p of
        None \<Rightarrow> fail_process ''unsolicited_response'' p
      | Some rid \<Rightarrow> (case ps_calls p rid of
          None \<Rightarrow> p
        | Some c \<Rightarrow>
            if en_ProtocolVersion e \<noteq> ps_version p \<or> en_RequestID e \<noteq> rid \<or> en_Operation e \<noteq> cl_operation c
            then fail_process ''response_mismatch'' p
            else if cl_delivered c then fail_process ''duplicate_response'' p
            else set_call rid (c\<lparr>cl_delivered := True, cl_response := Some e\<rparr>) p))"

definition dispatch :: "(string \<Rightarrow> string option) \<Rightarrow> envelope \<Rightarrow> process \<Rightarrow> process" where
  "dispatch decodeLog e p =
     (if ps_failure p \<noteq> None then p
      else if en_Kind e = ''notification'' then dispatch_notification decodeLog e p
      else if en_Kind e \<noteq> ''response'' then fail_process ''unexpected_request'' p
      else dispatch_response e p)"

definition call_begin :: "string \<Rightarrow> string \<Rightarrow> bool \<Rightarrow> process \<Rightarrow> string + process" where
  "call_begin rid operation allowStopping p =
     (if \<not> requestOperation operation then Inl ''unsupported_operation''
      else case ps_failure p of
        Some code \<Rightarrow> Inl code
      | None \<Rightarrow>
          if ps_stopping p \<and> \<not> allowStopping then Inl ''process_stopping''
          else if ps_pending p \<noteq> None then Inl ''request_in_flight''
          else Inr (set_call rid \<lparr> cl_operation = operation, cl_allowStopping = allowStopping, cl_phase = Writing,
             cl_delivered = False, cl_response = None \<rparr> (p\<lparr>ps_pending := Some rid\<rparr>)))"

definition return_call :: "string \<Rightarrow> call_state \<Rightarrow> string + string \<Rightarrow> process \<Rightarrow> process" where
  "return_call rid c result p = set_call rid (c\<lparr>cl_phase := Returned result\<rparr>) p"

definition fail_unless :: "bool \<Rightarrow> string \<Rightarrow> process \<Rightarrow> process" where
  "fail_unless allowed code p = (if allowed then p else fail_process code p)"

text \<open>The branches of the \<open>select\<close>; \<open>late\<close> says whether the deadline had passed.\<close>

definition on_response :: "string \<Rightarrow> call_state \<Rightarrow> envelope \<Rightarrow> bool \<Rightarrow> process \<Rightarrow> process" where
  "on_response rid c e late p =
     (if late then return_call rid c (Inl ''response_after_deadline'')
         (fail_unless (cl_allowStopping c) ''response_after_deadline'' p)
      else if en_Error e \<noteq> None then return_call rid c (Inl ''adapter_error'') p
      else return_call rid c (Inr (en_Payload e)) p)"

definition on_expired :: "string \<Rightarrow> call_state \<Rightarrow> bool \<Rightarrow> process \<Rightarrow> process" where
  "on_expired rid c timedOut p =
     (let code = (if timedOut then ''request_timeout'' else ''request_canceled'')
      in return_call rid c (Inl code) (fail_unless (cl_allowStopping c) code p))"

definition on_write_error :: "string \<Rightarrow> call_state \<Rightarrow> string \<Rightarrow> process \<Rightarrow> process" where
  "on_write_error rid c code p = return_call rid c (Inl code) (fail_process code p)"

definition clearPending :: "string \<Rightarrow> process \<Rightarrow> process" where
  "clearPending rid p = (if ps_pending p = Some rid then p\<lparr>ps_pending := None\<rparr> else p)"

definition wait_exit :: "process \<Rightarrow> process" where
  "wait_exit p = (if \<not> ps_stopping p then fail_process ''process_exit'' p else p)\<lparr>ps_done := True\<rparr>"

definition begin_stop :: "process \<Rightarrow> process" where
  "begin_stop p = p\<lparr>ps_stopping := True\<rparr>"

definition finishStop :: "process \<Rightarrow> process" where
  "finishStop p = p\<lparr>ps_stopped := True, ps_pending := None\<rparr>"

definition SetProtocolVersion :: "string \<Rightarrow> process \<Rightarrow> process" where
  "SetProtocolVersion version p = p\<lparr>ps_version := version\<rparr>"

text \<open>The check of the version in the ready notification.\<close>

definition ready_error :: "envelope \<Rightarrow> string option" where
  "ready_error e =
     (if en_ProtocolVersion e = ProtocolV1 then None
      else if map_option fst (parseVersion (en_ProtocolVersion e)) \<noteq> Some 1 then Some ''unsupported_protocol_major''
      else Some ''unsupported_protocol_minor'')"

section \<open>Interleaving\<close>

datatype wire_event = Begun string string | Heard envelope

text \<open>A process with the log of the requests that were begun and the envelopes that were heard.\<close>

type_synonym logged = "process \<times> wire_event list"

inductive proc_step :: "logged \<Rightarrow> logged \<Rightarrow> bool" where
  heard: "proc_step (p, l) (dispatch decodeLog e p, l @ [Heard e])"
| read_error: "proc_step (p, l) (fail_process code p, l)"
| begun: "call_begin rid operation allowStopping p = Inr p' \<Longrightarrow> ps_calls p rid = None
    \<Longrightarrow> allowStopping \<longrightarrow> ps_stopping p \<and> \<not> ps_stopped p \<Longrightarrow> proc_step (p, l) (p', l @ [Begun rid operation])"
| written: "ps_calls p rid = Some c \<Longrightarrow> cl_phase c = Writing \<Longrightarrow> proc_step (p, l) (set_call rid (c\<lparr>cl_phase := Waiting\<rparr>) p, l)"
| write_error: "ps_calls p rid = Some c \<Longrightarrow> cl_phase c = Writing \<Longrightarrow> proc_step (p, l) (on_write_error rid c code p, l)"
| answered: "ps_calls p rid = Some c \<Longrightarrow> cl_phase c = Waiting \<Longrightarrow> cl_response c = Some e
    \<Longrightarrow> proc_step (p, l) (on_response rid c e late p, l)"
| failed: "ps_calls p rid = Some c \<Longrightarrow> cl_phase c = Waiting \<Longrightarrow> ps_failure p = Some code
    \<Longrightarrow> proc_step (p, l) (return_call rid c (Inl code) p, l)"
| exited: "ps_calls p rid = Some c \<Longrightarrow> cl_phase c = Waiting \<Longrightarrow> ps_done p
    \<Longrightarrow> proc_step (p, l) (return_call rid c (Inl ''process_exit'') p, l)"
| expired: "ps_calls p rid = Some c \<Longrightarrow> cl_phase c = Waiting \<Longrightarrow> proc_step (p, l) (on_expired rid c timedOut p, l)"
| cleared: "ps_calls p rid = Some c \<Longrightarrow> cl_phase c = Returned r \<Longrightarrow> proc_step (p, l) (clearPending rid p, l)"
| exit: "proc_step (p, l) (wait_exit p, l)"
| stop: "proc_step (p, l) (begin_stop p, l)"
| stopped: "ps_stopping p \<Longrightarrow> ps_done p \<Longrightarrow> proc_step (p, l) (finishStop p, l)"
| version: "proc_step (p, l) (SetProtocolVersion v p, l)"

section \<open>The invariant\<close>

text \<open>The envelope was heard after the request was begun.\<close>

definition heard_after :: "wire_event list \<Rightarrow> string \<Rightarrow> string \<Rightarrow> envelope \<Rightarrow> bool" where
  "heard_after l rid operation e \<longleftrightarrow> (\<exists>a b d. l = a @ Begun rid operation # b @ Heard e # d)"

lemma heard_after_append: "heard_after l rid operation e \<Longrightarrow> heard_after (l @ m) rid operation e"
  unfolding heard_after_def by (metis append.assoc append_Cons)

lemma heard_after_last: "Begun rid operation \<in> set l \<Longrightarrow> heard_after (l @ [Heard e]) rid operation e"
  unfolding heard_after_def by (metis append.assoc append_Cons split_list)

definition call_ok :: "wire_event list \<Rightarrow> string \<Rightarrow> call_state \<Rightarrow> bool" where
  "call_ok l rid c \<longleftrightarrow> Begun rid (cl_operation c) \<in> set l \<and> (cl_response c \<noteq> None \<longrightarrow> cl_delivered c)
     \<and> (\<forall>e. cl_response c = Some e \<longrightarrow> en_Kind e = ''response'' \<and> en_RequestID e = rid \<and> en_Operation e = cl_operation c
          \<and> heard_after l rid (cl_operation c) e)
     \<and> (\<forall>payload. cl_phase c = Returned (Inr payload) \<longrightarrow>
          (\<exists>e. cl_response c = Some e \<and> en_Payload e = payload \<and> en_Error e = None))"

definition active :: "call_state \<Rightarrow> bool" where
  "active c \<longleftrightarrow> cl_phase c = Writing \<or> cl_phase c = Waiting"

definition proc_inv :: "process \<Rightarrow> wire_event list \<Rightarrow> bool" where
  "proc_inv p l \<longleftrightarrow> (\<forall>rid c. ps_calls p rid = Some c \<longrightarrow> call_ok l rid c \<and> (active c \<longrightarrow> ps_pending p = Some rid \<or> ps_stopped p))
     \<and> (\<forall>r c s d. ps_calls p r = Some c \<longrightarrow> active c \<longrightarrow> ps_calls p s = Some d \<longrightarrow> active d \<longrightarrow> r = s)
     \<and> (ps_stopped p \<longrightarrow> ps_pending p = None \<and> ps_stopping p)"

lemma proc_invD:
  assumes "proc_inv p l"
  shows "ps_calls p rid = Some c \<Longrightarrow> call_ok l rid c" "ps_calls p rid = Some c \<Longrightarrow> active c \<Longrightarrow> ps_pending p = Some rid \<or> ps_stopped p"
    "ps_stopped p \<Longrightarrow> ps_pending p = None" "ps_stopped p \<Longrightarrow> ps_stopping p"
    "ps_calls p rid = Some c \<Longrightarrow> active c \<Longrightarrow> ps_calls p s = Some d \<Longrightarrow> active d \<Longrightarrow> rid = s"
  using assms unfolding proc_inv_def by blast+

lemma proc_invI:
  assumes "\<And>rid c. ps_calls p rid = Some c \<Longrightarrow> call_ok l rid c"
    and "\<And>rid c. ps_calls p rid = Some c \<Longrightarrow> active c \<Longrightarrow> ps_pending p = Some rid \<or> ps_stopped p"
    and "\<And>r c s d. ps_calls p r = Some c \<Longrightarrow> active c \<Longrightarrow> ps_calls p s = Some d \<Longrightarrow> active d \<Longrightarrow> r = s"
    and "ps_stopped p \<Longrightarrow> ps_pending p = None \<and> ps_stopping p"
  shows "proc_inv p l"
  using assms unfolding proc_inv_def by blast

lemma call_ok_append: "call_ok l rid c \<Longrightarrow> call_ok (l @ m) rid c"
  unfolding call_ok_def using heard_after_append [of l rid _ _ m] by auto

lemma proc_inv_append: "proc_inv p l \<Longrightarrow> proc_inv p (l @ m)"
  using call_ok_append unfolding proc_inv_def by blast

lemma proc_inv_cong:
  "ps_calls q = ps_calls p \<Longrightarrow> ps_pending q = ps_pending p \<Longrightarrow> ps_stopping q = ps_stopping p \<Longrightarrow> ps_stopped q = ps_stopped p
     \<Longrightarrow> proc_inv q l = proc_inv p l"
  by (simp add: proc_inv_def)

lemma fail_process_fields [simp]:
  "ps_calls (fail_process code p) = ps_calls p" "ps_pending (fail_process code p) = ps_pending p"
  "ps_stopping (fail_process code p) = ps_stopping p" "ps_stopped (fail_process code p) = ps_stopped p"
  by (simp_all add: fail_process_def)

lemma proc_inv_frame [simp]:
  "proc_inv (p\<lparr>ps_readySeen := a\<rparr>) l = proc_inv p l" "proc_inv (p\<lparr>ps_ready := b\<rparr>) l = proc_inv p l"
  "proc_inv (p\<lparr>ps_diagnostics := d\<rparr>) l = proc_inv p l" "proc_inv (p\<lparr>ps_done := f\<rparr>) l = proc_inv p l"
  "proc_inv (p\<lparr>ps_version := v\<rparr>) l = proc_inv p l" "proc_inv (p\<lparr>ps_readySeen := a, ps_ready := b\<rparr>) l = proc_inv p l"
  by (simp_all add: proc_inv_def)

lemma proc_inv_fail [simp]: "proc_inv (fail_process code p) l = proc_inv p l"
  by (rule proc_inv_cong) simp_all

lemma proc_inv_fail_unless [simp]: "proc_inv (fail_unless b code p) l = proc_inv p l"
  by (simp add: fail_unless_def)

lemma fail_unless_calls [simp]: "ps_calls (fail_unless b code p) = ps_calls p"
  by (simp add: fail_unless_def)

lemma proc_inv_set_call:
  assumes inv: "proc_inv p l" and c: "ps_calls p rid = Some c" and ok: "call_ok l rid c'" and act: "active c' \<Longrightarrow> active c"
  shows "proc_inv (set_call rid c' p) l"
  using assms unfolding proc_inv_def set_call_def by (auto split: if_splits)

lemma proc_inv_return:
  assumes "proc_inv p l" "ps_calls p rid = Some c"
    and "\<And>payload. r = Inr payload \<Longrightarrow> \<exists>e. cl_response c = Some e \<and> en_Payload e = payload \<and> en_Error e = None"
  shows "proc_inv (return_call rid c r p) l"
  unfolding return_call_def
proof (rule proc_inv_set_call [OF assms(1,2)])
  show "call_ok l rid (c\<lparr>cl_phase := Returned r\<rparr>)" using assms by (auto simp: proc_inv_def call_ok_def)
qed (simp add: active_def)

lemma proc_inv_error: "proc_inv p l \<Longrightarrow> ps_calls p rid = Some c \<Longrightarrow> proc_inv (return_call rid c (Inl code) p) l"
  by (erule proc_inv_return) simp_all

lemma proc_inv_dispatch:
  assumes inv: "proc_inv p l"
  shows "proc_inv (dispatch decodeLog e p) (l @ [Heard e])"
proof -
  have notified: "proc_inv (dispatch_notification decodeLog e p) (l @ [Heard e])"
    using proc_inv_append [OF inv, of "[Heard e]"]
    by (auto simp: dispatch_notification_def split: option.splits)
  have resp: "proc_inv (dispatch_response e p) (l @ [Heard e])" if kind: "en_Kind e = ''response''"
  proof (cases "\<exists>rid c. ps_pending p = Some rid \<and> ps_calls p rid = Some c \<and> en_RequestID e = rid \<and> en_Operation e = cl_operation c \<and> \<not> cl_delivered c")
    case True
    then obtain rid c where c: "ps_pending p = Some rid" "ps_calls p rid = Some c" "en_RequestID e = rid"
      "en_Operation e = cl_operation c" "\<not> cl_delivered c" by blast
    have ok: "call_ok l rid c" using inv c(2) by (simp add: proc_inv_def)
    then have "call_ok (l @ [Heard e]) rid (c\<lparr>cl_delivered := True, cl_response := Some e\<rparr>)"
      using c kind heard_after_last [of rid "cl_operation c" l e] by (auto simp: call_ok_def)
    from proc_inv_set_call [OF proc_inv_append [OF inv] c(2) this] have
      "proc_inv (set_call rid (c\<lparr>cl_delivered := True, cl_response := Some e\<rparr>) p) (l @ [Heard e])" by (simp add: active_def)
    with proc_inv_append [OF inv, of "[Heard e]"] show ?thesis using c by (simp add: dispatch_response_def)
  next
    case False
    with proc_inv_append [OF inv, of "[Heard e]"] show ?thesis
      by (auto simp: dispatch_response_def split: option.splits)
  qed
  show ?thesis using proc_inv_append [OF inv, of "[Heard e]"] notified resp by (simp add: dispatch_def)
qed

lemma proc_step_inv: "proc_step s t \<Longrightarrow> proc_inv (fst s) (snd s) \<Longrightarrow> proc_inv (fst t) (snd t)"
proof (induction rule: proc_step.induct)
  case (heard p l decodeLog e)
  then show ?case by (simp add: proc_inv_dispatch)
next
  case (begun rid operation allowStopping p p' l)
  let ?c = "\<lparr> cl_operation = operation, cl_allowStopping = allowStopping, cl_phase = Writing, cl_delivered = False, cl_response = None \<rparr>"
  have p': "p' = set_call rid ?c (p\<lparr>ps_pending := Some rid\<rparr>)" and free: "ps_pending p = None" "ps_stopping p \<longrightarrow> allowStopping"
    using begun(1) by (auto simp: call_begin_def split: option.splits if_splits)
  have inv: "proc_inv p l" using begun(4) by simp
  have live: "\<not> ps_stopped p"
  proof
    assume halted: "ps_stopped p"
    from proc_invD(4) [OF inv halted] free(2) begun(3) halted show False by simp
  qed
  have idle: "\<not> active c" if "ps_calls p s = Some c" for s c using proc_invD(2) [OF inv that] live free(1) by auto
  have calls: "ps_calls p' s = (if s = rid then Some ?c else ps_calls p s)" for s by (simp add: p' set_call_def)
  have "proc_inv p' (l @ [Begun rid operation])"
  proof (rule proc_invI)
    show "call_ok (l @ [Begun rid operation]) s d" if "ps_calls p' s = Some d" for s d
      using that call_ok_append [OF proc_invD(1) [OF inv]] by (auto simp: calls call_ok_def [of _ rid ?c] split: if_splits)
    show "ps_pending p' = Some s \<or> ps_stopped p'" if "ps_calls p' s = Some d" "active d" for s d
      using that idle by (auto simp: calls split: if_splits) (simp add: p' set_call_def)
    show "s = u" if "ps_calls p' s = Some d" "active d" "ps_calls p' u = Some x" "active x" for s d u x
      using that idle by (auto simp: calls split: if_splits)
    show "ps_stopped p' \<Longrightarrow> ps_pending p' = None \<and> ps_stopping p'" using live by (simp add: p' set_call_def)
  qed
  then show ?case by simp
next
  case (written p rid c l)
  have inv: "proc_inv p l" using written(3) by simp
  have "call_ok l rid (c\<lparr>cl_phase := Waiting\<rparr>)" using proc_invD(1) [OF inv written(1)] by (simp add: call_ok_def)
  from proc_inv_set_call [OF inv written(1) this] written(2) show ?case by (simp add: active_def)
next
  case (answered p rid c e l late)
  have "proc_inv (return_call rid c (Inr (en_Payload e)) p) l" if "en_Error e = None"
    using answered that by (intro proc_inv_return) simp_all
  then show ?case using answered by (simp add: on_response_def proc_inv_error)
next
  case (cleared p rid c r l)
  have inv: "proc_inv p l" using cleared(3) by simp
  have "\<not> active c" using cleared(2) by (simp add: active_def)
  have "proc_inv (clearPending rid p) l"
  proof (cases "ps_pending p = Some rid")
    case True
    have "\<not> active d" if "ps_calls p s = Some d" for s d
      using proc_invD(2) [OF inv that] proc_invD(3) [OF inv] True cleared(1) that \<open>\<not> active c\<close> by auto
    with proc_invD [OF inv] True show ?thesis by (intro proc_invI) (simp_all add: clearPending_def)
  qed (use inv in \<open>simp add: clearPending_def\<close>)
  then show ?case by simp
next
  case (stopped p l)
  have inv: "proc_inv p l" using stopped(3) by simp
  from proc_invD(1,5) [OF inv] stopped(1) have "proc_inv (finishStop p) l" by (intro proc_invI) (auto simp: finishStop_def)
  then show ?case by simp
next
  case (exit p l)
  then show ?case by (simp add: wait_exit_def)
next
  case (stop p l)
  have inv: "proc_inv p l" using stop by simp
  from proc_invD [OF inv] have "proc_inv (begin_stop p) l" by (intro proc_invI) (auto simp: begin_stop_def)
  then show ?case by simp
next
  case (version p l v)
  then show ?case by (simp add: SetProtocolVersion_def)
qed (simp_all add: on_write_error_def on_expired_def Let_def proc_inv_error)

lemma reachable_inv: "proc_step\<^sup>*\<^sup>* (new_process d, []) s \<Longrightarrow> proc_inv (fst s) (snd s)"
proof (induction rule: rtranclp_induct)
  case base
  show ?case by (simp add: proc_inv_def new_process_def)
qed (rule proc_step_inv)

text \<open>
  C12. Answers reach the request they belong to: under every interleaving of callers, reader, exit and
  stop, a call that returned a payload returned the payload of a response without an error that was heard
  after the request was begun and carries its identifier and its operation; and at most one request is
  under way at any time.
\<close>

theorem adapter_responses_correlated:
  assumes "proc_step\<^sup>*\<^sup>* (new_process d, []) (p, l)" and "ps_calls p rid = Some c"
  shows "(case cl_phase c of
        Returned (Inr payload) \<Rightarrow> (\<exists>e. heard_after l rid (cl_operation c) e \<and> en_Kind e = ''response'' \<and> en_RequestID e = rid
          \<and> en_Operation e = cl_operation c \<and> en_Error e = None \<and> en_Payload e = payload)
      | Returned (Inl code) \<Rightarrow> True
      | _ \<Rightarrow> \<forall>s b. s \<noteq> rid \<longrightarrow> ps_calls p s = Some b \<longrightarrow> \<not> active b)"
proof -
  have inv: "proc_inv p l" using reachable_inv [OF assms(1)] by simp
  have ok: "call_ok l rid c" by (rule proc_invD(1) [OF inv assms(2)])
  have alone: "\<not> active b" if "active c" "s \<noteq> rid" "ps_calls p s = Some b" for s b
    using proc_invD(5) [OF inv assms(2) that(1,3)] that(2) by blast
  show ?thesis
  proof (cases "cl_phase c")
    case (Returned r)
    show ?thesis
    proof (cases r)
      case (Inr payload)
      then obtain e where "cl_response c = Some e" "en_Payload e = payload" "en_Error e = None"
        using ok Returned by (auto simp: call_ok_def)
      with ok have "heard_after l rid (cl_operation c) e \<and> en_Kind e = ''response'' \<and> en_RequestID e = rid
        \<and> en_Operation e = cl_operation c \<and> en_Error e = None \<and> en_Payload e = payload" by (simp add: call_ok_def)
      with Returned Inr show ?thesis by auto
    qed (simp add: Returned)
  qed (use alone in \<open>auto simp: active_def\<close>)
qed

definition responses :: "process \<Rightarrow> string \<Rightarrow> envelope option option" where
  "responses p rid = map_option cl_response (ps_calls p rid)"

lemma responses_set_call: "ps_calls p rid = Some c \<Longrightarrow> cl_response c' = cl_response c \<Longrightarrow> responses (set_call rid c' p) = responses p"
  by (rule ext) (simp add: responses_def set_call_def)

lemma failed_stays:
  assumes "ps_failure p = Some code"
  shows "fail_process x p = p" "fail_unless b x p = p" "dispatch decodeLog e p = p" "call_begin rid operation allow p = Inr p' \<Longrightarrow> False"
  using assms by (auto simp: fail_process_def fail_unless_def dispatch_def call_begin_def split: if_splits)

lemma failure_step:
  "proc_step s t \<Longrightarrow> ps_failure (fst s) = Some code \<Longrightarrow> ps_failure (fst t) = Some code \<and> responses (fst t) = responses (fst s)"
proof (induction rule: proc_step.induct)
  case (begun rid operation allowStopping p p' l)
  then show ?case using failed_stays(4) [of p code rid operation allowStopping p'] by auto
next
  case (written p rid c l)
  then show ?case by (simp add: responses_set_call) (simp add: set_call_def)
next
  case (write_error p rid c l x)
  then show ?case by (simp add: on_write_error_def return_call_def failed_stays responses_set_call) (simp add: set_call_def)
next
  case (answered p rid c e l late)
  then show ?case by (simp add: on_response_def return_call_def failed_stays responses_set_call) (simp add: set_call_def)
next
  case (failed p rid c x l)
  then show ?case by (simp add: return_call_def responses_set_call) (simp add: set_call_def)
next
  case (exited p rid c l)
  then show ?case by (simp add: return_call_def responses_set_call) (simp add: set_call_def)
next
  case (expired p rid c l timedOut)
  then show ?case by (simp add: on_expired_def return_call_def failed_stays responses_set_call Let_def) (simp add: set_call_def)
next
  case (cleared p rid c r l)
  then show ?case by (auto simp: clearPending_def responses_def fun_eq_iff)
qed (auto simp: failed_stays wait_exit_def begin_stop_def finishStop_def SetProtocolVersion_def responses_def fun_eq_iff)

text \<open>
  C27. A failure of an adapter process is final: the first failure stays the one that is reported, and
  from then on no request is begun and no response is delivered, whatever the process still sends.
\<close>

theorem adapter_failure_final:
  assumes "proc_step\<^sup>*\<^sup>* (p, l) (q, m)" and "ps_failure p = Some code"
  shows "ps_failure q = Some code \<and> (\<forall>rid. responses q rid = responses p rid)"
proof -
  have "ps_failure (fst t) = Some code \<and> responses (fst t) = responses p" if "proc_step\<^sup>*\<^sup>* (p, l) t" for t
    using that assms(2) by (induction rule: rtranclp_induct) (auto dest!: failure_step)
  from this [OF assms(1)] show ?thesis by simp
qed

section \<open>Sessions\<close>

text \<open>
  An operation of a session works on its process. What a call answers, and what happens to the process
  until it does, is \<open>call\<close>, by operation, payload and process; \<open>stop\<close> is the process after \<open>Stop\<close>. Codes
  are errors of type \<open>RuntimeError\<close>; a call may also fail with the error of its context.
\<close>

type_synonym adapter_call = "string \<Rightarrow> (string \<times> any_value) list \<Rightarrow> process \<Rightarrow> (err + string) \<times> process"

definition coded :: "string + 'a \<Rightarrow> err + 'a" where
  "coded r = map_sum RuntimeError (\<lambda>x. x) r"

definition then_on :: "(err + 'a) \<times> process \<Rightarrow> ('a \<Rightarrow> process \<Rightarrow> (err + 'b) \<times> process) \<Rightarrow> (err + 'b) \<times> process" where
  "then_on r k = (case r of (Inl e, p) \<Rightarrow> (Inl e, p) | (Inr x, p) \<Rightarrow> k x p)"

definition SetDiagnosticSecrets :: "string list \<Rightarrow> process \<Rightarrow> process" where
  "SetDiagnosticSecrets secrets p = p\<lparr>ps_diagnostics := SetSecrets secrets (ps_diagnostics p)\<rparr>"

definition requireResponse :: "(string \<Rightarrow> any_map option) \<Rightarrow> string \<Rightarrow> string \<Rightarrow> any_value \<Rightarrow> string + unit" where
  "requireResponse unmarshal payload field expected =
     (case unmarshal payload of
        None \<Rightarrow> Inl ''invalid_operation_response''
      | Some v \<Rightarrow> if length (entries v) \<noteq> 1 \<or> map_of (entries v) field \<noteq> Some expected
                then Inl ''invalid_operation_response'' else Inr ())"

definition Session_Health :: "(string \<Rightarrow> any_map option) \<Rightarrow> adapter_call \<Rightarrow> process \<Rightarrow> (err + unit) \<times> process" where
  "Session_Health unmarshal call p =
     then_on (call ''health'' [] p) (\<lambda>payload p.
     (coded (requireResponse unmarshal payload ''status'' (AString ''healthy'')), p))"

definition configured ::
  "manifest \<Rightarrow> integration \<Rightarrow> (string \<Rightarrow> string option) option \<Rightarrow> process \<Rightarrow> (err + (string \<times> any_value) list) \<times> process" where
  "configured m ig resolver p =
     then_on (coded (ResolveConfig m (entries (ig_ConfigNonsecret ig)) (ig_SecretReferences ig) resolver), p) (\<lambda>(resolved, secrets) p.
     (Inr resolved, SetDiagnosticSecrets secrets p))"

definition session_checks ::
  "wire \<Rightarrow> (string \<Rightarrow> any_map option) \<Rightarrow> descriptor \<Rightarrow> integration \<Rightarrow> (string \<Rightarrow> string option) option \<Rightarrow> adapter_call
     \<Rightarrow> process \<Rightarrow> (err + manifest \<times> string) \<times> process" where
  "session_checks wr unmarshal d ig resolver call p =
     then_on (call ''manifest'' [] p) (\<lambda>payload p.
     then_on (coded (DecodeManifest wr payload), p) (\<lambda>m p.
     if mf_AdapterID m \<noteq> ds_AdapterID d then (Inl (RuntimeError ''adapter_identity_mismatch''), p)
     else then_on (coded (validateSliceCapabilities m), p) (\<lambda>_ p.
     then_on (coded (NegotiateVersion [ProtocolV1] (mf_ProtocolVersions m)), p) (\<lambda>version p.
     then_on (configured m ig resolver (SetProtocolVersion version p)) (\<lambda>resolved p.
     then_on (call ''validate_config'' [(''config'', AObject resolved)] p) (\<lambda>validation p.
     then_on (coded (requireResponse unmarshal validation ''valid'' (ABool True)), p) (\<lambda>_ p.
     then_on (Session_Health unmarshal call p) (\<lambda>_ p.
     (Inr (m, version), p)))))))))"

text \<open>The process is \<open>None\<close> where none was started.\<close>

definition StartSession ::
  "wire \<Rightarrow> (string \<Rightarrow> any_map option) \<Rightarrow> descriptor \<Rightarrow> integration \<Rightarrow> (string \<Rightarrow> string option) option \<Rightarrow> err + process
     \<Rightarrow> adapter_call \<Rightarrow> (process \<Rightarrow> process) \<Rightarrow> (err + manifest \<times> string) \<times> process option" where
  "StartSession wr unmarshal d ig resolver started call stop =
     (if ig_AdapterID ig \<noteq> ds_AdapterID d then (Inl (RuntimeError ''adapter_identity_mismatch''), None)
      else case started of
        Inl e \<Rightarrow> (Inl e, None)
      | Inr p0 \<Rightarrow> (case session_checks wr unmarshal d ig resolver call p0 of
          (Inl e, p) \<Rightarrow> (Inl e, Some (stop p))
        | (Inr session, p) \<Rightarrow> (Inr session, Some p)))"

lemma coded_Inr [simp]: "coded r = Inr x \<longleftrightarrow> r = Inr x"
  by (cases r) (simp_all add: coded_def)

lemma then_on_Inr: "then_on r k = (Inr y, q) \<longleftrightarrow> (\<exists>x p. r = (Inr x, p) \<and> k x p = (Inr y, q))"
  by (auto simp: then_on_def split: sum.splits prod.splits)

lemma ResolveConfig_separates:
  assumes "ResolveConfig m nonsecret references resolver = Inr x"
  shows "set (map fst nonsecret) \<inter> set (mf_SecretFields m) = {}"
proof -
  have "check_secret_fields m nonsecret references fields0 = Inr () \<Longrightarrow> set (map fst nonsecret) \<inter> set fields0 = {}" for fields0
    by (induction fields0) (auto simp: map_of_eq_None_iff split: if_splits)
  with assms show ?thesis by (auto simp: ResolveConfig_def split: sum.splits)
qed

lemma session_checks_Inr:
  assumes "session_checks wr unmarshal d ig resolver call p0 = (Inr (m, version), p)"
  obtains payload where "DecodeManifest wr payload = Inr m" "mf_AdapterID m = ds_AdapterID d" "validateSliceCapabilities m = Inr ()"
    "NegotiateVersion [ProtocolV1] (mf_ProtocolVersions m) = Inr version"
    "set (map fst (entries (ig_ConfigNonsecret ig))) \<inter> set (mf_SecretFields m) = {}"
    "\<exists>resolved p1 validation p2. call ''validate_config'' [(''config'', AObject resolved)] p1 = (Inr validation, p2)
       \<and> requireResponse unmarshal validation ''valid'' (ABool True) = Inr ()
       \<and> (\<exists>health. call ''health'' [] p2 = (Inr health, p) \<and> requireResponse unmarshal health ''status'' (AString ''healthy'') = Inr ())"
proof -
  obtain payload p1 p2 resolved p3 validation p4 where
    m: "DecodeManifest wr payload = Inr m" "mf_AdapterID m = ds_AdapterID d" "validateSliceCapabilities m = Inr ()"
    and ver: "NegotiateVersion [ProtocolV1] (mf_ProtocolVersions m) = Inr version"
    and conf: "configured m ig resolver p2 = (Inr resolved, p3)"
    and valid: "call ''validate_config'' [(''config'', AObject resolved)] p3 = (Inr validation, p4)"
      "requireResponse unmarshal validation ''valid'' (ABool True) = Inr ()"
    and healthy: "Session_Health unmarshal call p4 = (Inr (), p)"
    using assms by (auto simp: session_checks_def then_on_Inr split: if_splits)
  have "set (map fst (entries (ig_ConfigNonsecret ig))) \<inter> set (mf_SecretFields m) = {}"
    using conf ResolveConfig_separates by (fastforce simp: configured_def then_on_Inr)
  moreover have "\<exists>health. call ''health'' [] p4 = (Inr health, p) \<and> requireResponse unmarshal health ''status'' (AString ''healthy'') = Inr ()"
    using healthy by (auto simp: Session_Health_def then_on_Inr)
  ultimately show thesis using that m ver valid by blast
qed

text \<open>
  A session starts only with an adapter that passed every check: its manifest is valid, names the
  adapter that was registered, claims read-only collection and nothing else, and shares protocol 1.0;
  no secret was part of the plain configuration; and the adapter accepted the configuration and then
  reported itself healthy. A start that fails leaves no process running: none was started, or it was
  stopped.
\<close>

theorem session_start_checked:
  assumes "StartSession wr unmarshal d ig resolver started call stop = (result, left)"
  shows "case result of
      Inl e \<Rightarrow> left = None \<or> (\<exists>p. left = Some (stop p))
    | Inr (m, version) \<Rightarrow> ig_AdapterID ig = ds_AdapterID d \<and> mf_AdapterID m = ds_AdapterID d \<and> ValidateManifest wr m = Inr ()
        \<and> mf_ReadOnly m \<and> mf_Capabilities m = [''collect''] \<and> version = ''1.0'' \<and> ''1.0'' \<in> set (mf_ProtocolVersions m)
        \<and> set (map fst (entries (ig_ConfigNonsecret ig))) \<inter> set (mf_SecretFields m) = {}
        \<and> (\<exists>resolved p1 validation p2. call ''validate_config'' [(''config'', AObject resolved)] p1 = (Inr validation, p2)
             \<and> requireResponse unmarshal validation ''valid'' (ABool True) = Inr ()
             \<and> (\<exists>health p. call ''health'' [] p2 = (Inr health, p) \<and> left = Some p
                  \<and> requireResponse unmarshal health ''status'' (AString ''healthy'') = Inr ()))"
proof (cases result)
  case (Inl e)
  with assms show ?thesis by (auto simp: StartSession_def split: if_splits sum.splits prod.splits)
next
  case (Inr session)
  obtain m version where s: "session = (m, version)" by (cases session)
  with assms Inr obtain p0 p where d: "ig_AdapterID ig = ds_AdapterID d" "left = Some p"
    and run: "session_checks wr unmarshal d ig resolver call p0 = (Inr (m, version), p)"
    by (auto simp: StartSession_def split: if_splits sum.splits prod.splits)
  from run obtain payload where m: "DecodeManifest wr payload = Inr m" "mf_AdapterID m = ds_AdapterID d"
    and caps: "validateSliceCapabilities m = Inr ()" and ver: "NegotiateVersion [ProtocolV1] (mf_ProtocolVersions m) = Inr version"
    and conf: "set (map fst (entries (ig_ConfigNonsecret ig))) \<inter> set (mf_SecretFields m) = {}"
    and calls: "\<exists>resolved p1 validation p2. call ''validate_config'' [(''config'', AObject resolved)] p1 = (Inr validation, p2)
       \<and> requireResponse unmarshal validation ''valid'' (ABool True) = Inr ()
       \<and> (\<exists>health. call ''health'' [] p2 = (Inr health, p) \<and> requireResponse unmarshal health ''status'' (AString ''healthy'') = Inr ())"
    by (rule session_checks_Inr)
  have valid: "ValidateManifest wr m = Inr ()" using m(1) by (auto simp: DecodeManifest_def split: option.splits sum.splits)
  have only: "mf_ReadOnly m" "mf_Capabilities m = [''collect'']"
    using caps by (auto simp: validateSliceCapabilities_def length_Suc_conv split: if_splits)
  have "version \<in> set [ProtocolV1] \<inter> set (mf_ProtocolVersions m)" by (rule NegotiateVersion_shared [OF ver])
  then have "version = ''1.0''" "''1.0'' \<in> set (mf_ProtocolVersions m)" by (auto simp: ProtocolV1_def)
  with d m(2) valid only conf calls show ?thesis unfolding Inr s sum.case prod.case by blast
qed

end
