(* ===== verification/Collection.thy ===== *)
theory Collection
  imports Freshness Admin_Ops Adapter_Process "HOL-Library.Word"
begin

text \<open>
  The collection pipeline: the payload of an adapter (\<open>adapters/collection.go\<close>), the records of
  collections (\<open>monitoring/collection_store.go\<close>), the collector (\<open>monitoring/collector.go\<close>), which
  ingests a batch with the record of the collection in the same transaction, the projection of
  certificates that runs in it (\<open>certificateprojection/projector.go\<close>), and the audit of the adapter
  life cycle (\<open>monitoring/lifecycle.go\<close>).

  What the adapter process answered is an argument, as are the readings of the clock. Strict JSON
  decoding into the payload types and \<open>time.Parse\<close> are parameters (\<open>collection_env\<close>).
\<close>

section \<open>Identifiers\<close>

unbundle bit_operations_syntax

definition hex_digit :: "nat \<Rightarrow> char" where
  "hex_digit n = ''0123456789abcdef'' ! n"

definition hex_byte :: "8 word \<Rightarrow> string" where
  "hex_byte b = [hex_digit (unat b div 16), hex_digit (unat b mod 16)]"

text \<open>\<open>None\<close> is a failed read of the random source.\<close>

definition newCorrelationID :: "8 word list option \<Rightarrow> string option" where
  "newCorrelationID random = map_option (\<lambda>value0.
     let value1 = value0[6 := (value0 ! 6) AND 0x0f OR 0x40];
         value2 = value1[8 := (value1 ! 8) AND 0x3f OR 0x80];
         encoded = concat (map hex_byte value2)
     in take 8 encoded @ ''-'' @ take 4 (drop 8 encoded) @ ''-'' @ take 4 (drop 12 encoded) @ ''-''
        @ take 4 (drop 16 encoded) @ ''-'' @ take 12 (drop 20 encoded)) random"

section \<open>The payload of an adapter\<close>

record collection_resource =
  co_ID :: string
  co_ExternalID :: string
  co_Kind :: string
  co_DisplayName :: string
  co_ObservedAt :: time
  co_Attributes :: any_map
  co_SourceURL :: string

record collection_observation =
  cb_ID :: string
  cb_ExternalResourceID :: string
  cb_CheckType :: string
  cb_State :: state
  cb_Summary :: string
  cb_ObservedAt :: time
  cb_ExpectedRefreshSeconds :: int
  cb_Measurements :: any_map
  cb_Metadata :: any_map

record collection_payload =
  cp_Resources :: "collection_resource list"
  cp_Observations :: "collection_observation list"
  cp_NextCursor :: string

record evidence =
  pe_ReasonCode :: string
  pe_Endpoint :: string
  pe_Subject :: string
  pe_SANSummary :: string
  pe_Issuer :: string
  pe_SerialNumber :: string
  pe_FingerprintSHA256 :: string
  pe_NotBefore :: string
  pe_NotAfter :: string
  pe_HostnameValid :: "bool option"
  pe_ChainValid :: "bool option"

record collection_env =
  cv_ingest :: ingest_env
  cv_runtime :: runtime
  cv_Decode :: "string \<Rightarrow> collection_payload option"
  cv_Evidence :: "string \<Rightarrow> evidence option"
  cv_ParseTime :: "string \<Rightarrow> time option"

definition resource_input_of :: "collection_resource \<Rightarrow> resource_input" where
  "resource_input_of r = \<lparr> ri_ID = co_ID r, ri_ExternalID = co_ExternalID r, ri_Kind = co_Kind r,
     ri_DisplayName = co_DisplayName r, ri_ObservedAt = co_ObservedAt r, ri_Attributes = co_Attributes r,
     ri_SourceURL = co_SourceURL r \<rparr>"

definition observation_input_of :: "collection_observation \<Rightarrow> observation_input" where
  "observation_input_of ob = \<lparr> oi_ID = cb_ID ob, oi_ExternalResourceID = cb_ExternalResourceID ob,
     oi_CheckType = cb_CheckType ob, oi_State = cb_State ob, oi_Summary = cb_Summary ob,
     oi_ObservedAt = cb_ObservedAt ob, oi_ExpectedRefreshSeconds = cb_ExpectedRefreshSeconds ob,
     oi_Measurements = cb_Measurements ob, oi_Metadata = cb_Metadata ob \<rparr>"

definition safeDiagnosticPart :: "string \<Rightarrow> bool" where
  "safeDiagnosticPart v = list_all (\<lambda>c. lower_letter c \<or> c = CHR ''_'' \<or> digit c) v"

fun join_with :: "string \<Rightarrow> string list \<Rightarrow> string" where
  "join_with sep [] = []"
| "join_with sep [x] = x"
| "join_with sep (x # xs) = x @ sep @ join_with sep xs"

fun invalidCollectionError :: "err \<Rightarrow> err" where
  "invalidCollectionError (ValidationError (field # rest)) =
     (let parts = [''invalid_collection'', fe_Record field, fe_Field field, fe_Code field]
      in if list_ex (\<lambda>part. part = '''' \<or> \<not> safeDiagnosticPart part) parts
         then RuntimeError ''invalid_collection''
         else RuntimeError (join_with ''_'' parts))"
| "invalidCollectionError _ = RuntimeError ''invalid_collection''"

definition DecodeCollection :: "collection_env \<Rightarrow> string \<Rightarrow> time \<Rightarrow> err + collection_payload \<times> batch" where
  "DecodeCollection env payload receivedAt =
     (case cv_Decode env payload of
        None \<Rightarrow> Inl (RuntimeError ''invalid_collection'')
      | Some collection \<Rightarrow>
          let ba = \<lparr> ba_Resources = map resource_input_of (cp_Resources collection),
                ba_Observations = map observation_input_of (cp_Observations collection) \<rparr>
          in case ValidateBatch (cv_ingest env) ba receivedAt of
               Inl e \<Rightarrow> Inl (invalidCollectionError e)
             | Inr _ \<Rightarrow> Inr (collection, ba))"

text \<open>A collection of a session: the configuration is resolved anew, and its secrets are redacted from then on.\<close>

definition Session_Collect ::
  "collection_env \<Rightarrow> manifest \<Rightarrow> integration \<Rightarrow> (string \<Rightarrow> string option) option \<Rightarrow> adapter_call \<Rightarrow> time \<Rightarrow> process
     \<Rightarrow> (err + collection_payload \<times> batch) \<times> process" where
  "Session_Collect env m ig resolver call receivedAt p =
     then_on (configured m ig resolver p) (\<lambda>resolved p.
     then_on (call ''collect'' [(''config'', AObject resolved)] p) (\<lambda>payload p.
     (DecodeCollection env payload receivedAt, p)))"

section \<open>Certificates\<close>

definition CertificateCheckType :: string where
  "CertificateCheckType = ''certificate.validity''"

definition fingerprintPattern :: "string \<Rightarrow> bool" where
  "fingerprintPattern s \<longleftrightarrow> length s = 64 \<and> list_all hex_lower s"

definition validEvidence :: "evidence \<Rightarrow> bool" where
  "validEvidence v \<longleftrightarrow> pe_Endpoint v \<noteq> '''' \<and> length (pe_Endpoint v) \<le> 512 \<and> length (pe_Subject v) \<le> 512
     \<and> length (pe_SANSummary v) \<le> 1024 \<and> length (pe_Issuer v) \<le> 512 \<and> length (pe_SerialNumber v) \<le> 128
     \<and> (pe_FingerprintSHA256 v = '''' \<or> fingerprintPattern (pe_FingerprintSHA256 v))
     \<and> identifierPattern (pe_ReasonCode v)
     \<and> list_all (\<lambda>c. byte c \<notin> {13, 10, 0}) (pe_Endpoint v)"

text \<open>
  A \<open>float64\<close> counts when it is integral; one outside the range of \<open>int\<close> does not survive the
  conversion.
\<close>

definition float_int :: "int \<Rightarrow> int \<Rightarrow> int option" where
  "float_int m e =
     (let v = (if 0 \<le> e then Some (m * 2 ^ nat e) else if m mod 2 ^ nat (- e) = 0 then Some (m div 2 ^ nat (- e)) else None)
      in case v of Some n \<Rightarrow> if - (2 ^ 63) \<le> n \<and> n < 2 ^ 63 then Some n else None | None \<Rightarrow> None)"

fun integerMeasurement :: "any_value option \<Rightarrow> int option" where
  "integerMeasurement (Some (AInt n)) = Some n"
| "integerMeasurement (Some (AFloat64 (FiniteFloat m e))) = float_int m e"
| "integerMeasurement _ = None"

definition parse_instant :: "collection_env \<Rightarrow> string \<Rightarrow> err + time option" where
  "parse_instant env v = (if v = '''' then Inr None
     else case cv_ParseTime env v of
       None \<Rightarrow> Inl (ErrText ''invalid certificate validity interval'') | Some t \<Rightarrow> Inr (Some t))"

text \<open>\<open>prior IS NOT NULL AND prior <> new\<close> in three-valued logic.\<close>

fun sql_changed :: "string option \<Rightarrow> string option \<Rightarrow> bool option" where
  "sql_changed None new = Some False"
| "sql_changed (Some p) None = None"
| "sql_changed (Some p) (Some n) = Some (p \<noteq> n)"

definition selected_observation :: "string \<Rightarrow> observation_input \<Rightarrow> tables \<Rightarrow> observation_row option" where
  "selected_observation iid item t =
     (case rev (sort_key (\<lambda>ob. (ob_received_at ob, ob_id ob)) (filter (\<lambda>ob. ob_integration_id ob = uuid_param iid
         \<and> list_ex (\<lambda>r. rs_id r = ob_resource_id ob \<and> rs_external_id r = oi_ExternalResourceID item) (t_resources t)
         \<and> ob_check_type ob = oi_CheckType item \<and> ob_observed_at ob = truncate_us (oi_ObservedAt item)) (t_observations t))) of
       [] \<Rightarrow> None | ob # _ \<Rightarrow> Some ob)"

definition prior_certificate :: "string \<Rightarrow> certificate_row list \<Rightarrow> certificate_row option" where
  "prior_certificate rid rows =
     (case rev (sort_key (\<lambda>c. (ce_observed_at c, ce_observation_id c)) (filter (\<lambda>c. ce_resource_id c = rid) rows)) of
       [] \<Rightarrow> None | c # _ \<Rightarrow> Some c)"

definition insertCertificate ::
  "string \<Rightarrow> observation_input \<Rightarrow> evidence \<Rightarrow> time option \<Rightarrow> time option \<Rightarrow> int option \<Rightarrow> unit tx" where
  "insertCertificate iid item ev notBefore notAfter days = tx_insert (\<lambda>u c t.
     case selected_observation iid item t of
       None \<Rightarrow> Inr ((), t)
     | Some ob \<Rightarrow>
         let prior = prior_certificate (ob_resource_id ob) (t_certificates t)
         in case (sql_changed (Option.bind prior ce_fingerprint_sha256) (nullif (pe_FingerprintSHA256 ev)),
                  sql_changed (Option.bind prior ce_issuer_summary) (nullif (pe_Issuer ev))) of
              (Some fingerprintChanged, Some issuerChanged) \<Rightarrow>
                Inr ((), if ob_id ob \<in> ce_observation_id ` set (t_certificates t) then t
                  else t\<lparr>t_certificates := t_certificates t @
                    [\<lparr> ce_observation_id = ob_id ob, ce_resource_id = ob_resource_id ob, ce_integration_id = ob_integration_id ob,
                       ce_endpoint = pe_Endpoint ev, ce_subject_summary = nullif (pe_Subject ev),
                       ce_san_summary = nullif (pe_SANSummary ev), ce_issuer_summary = nullif (pe_Issuer ev),
                       ce_serial_number = nullif (pe_SerialNumber ev), ce_fingerprint_sha256 = nullif (pe_FingerprintSHA256 ev),
                       ce_not_before = map_option truncate_us notBefore, ce_not_after = map_option truncate_us notAfter,
                       ce_hostname_valid = pe_HostnameValid ev, ce_chain_valid = pe_ChainValid ev, ce_days_remaining = days,
                       ce_certificate_state = oi_State item, ce_reason_code = pe_ReasonCode ev,
                       ce_fingerprint_changed = fingerprintChanged, ce_issuer_changed = issuerChanged,
                       ce_observed_at = ob_observed_at ob \<rparr>]\<rparr>)
            | _ \<Rightarrow> Inl DbError)"

definition projectItem :: "collection_env \<Rightarrow> string \<Rightarrow> observation_input \<Rightarrow> unit tx" where
  "projectItem env iid item =
     (if oi_CheckType item \<noteq> CertificateCheckType then tx_return ()
      else case ie_Marshal (cv_ingest env) (oi_Metadata item) of
        None \<Rightarrow> tx_fail (ErrText ''encode certificate evidence'')
      | Some encoded \<Rightarrow> (case cv_Evidence env encoded of
          None \<Rightarrow> tx_fail (ErrText ''invalid certificate evidence'')
        | Some ev \<Rightarrow>
            if \<not> validEvidence ev then tx_fail (ErrText ''invalid certificate evidence'')
            else case parse_instant env (pe_NotBefore ev) of
              Inl e \<Rightarrow> tx_fail e
            | Inr notBefore \<Rightarrow> (case parse_instant env (pe_NotAfter ev) of
                Inl e \<Rightarrow> tx_fail e
              | Inr notAfter \<Rightarrow> insertCertificate iid item ev notBefore notAfter
                  (integerMeasurement (map_of (entries (oi_Measurements item)) ''days_remaining'')))))"

definition ProjectBatch :: "collection_env \<Rightarrow> string \<Rightarrow> batch \<Rightarrow> unit tx" where
  "ProjectBatch env iid ba = tx_for (projectItem env iid) (ba_Observations ba)"

section \<open>Records of collections\<close>

record attempt =
  at_IntegrationID :: string
  at_StartedAt :: time
  at_CompletedAt :: time
  at_Result :: string
  at_ErrorCode :: string
  at_ResourceCount :: int
  at_ObservationCount :: int
  at_CorrelationID :: string

definition CollectionSucceeded :: string where
  "CollectionSucceeded = ''succeeded''"

definition CollectionRejected :: string where
  "CollectionRejected = ''rejected''"

definition CollectionFailed :: string where
  "CollectionFailed = ''failed''"

definition CollectionSkipped :: string where
  "CollectionSkipped = ''skipped''"

definition validateAttempt :: "attempt \<Rightarrow> bool" where
  "validateAttempt a =
     (if at_IntegrationID a = '''' \<or> at_StartedAt a = 0 \<or> at_CompletedAt a = 0 \<or> at_CorrelationID a = ''''
         \<or> 128 < length (at_CorrelationID a) \<or> at_ResourceCount a < 0 \<or> at_ObservationCount a < 0 then False
      else if at_Result a = CollectionSucceeded then at_ErrorCode a = ''''
      else if at_Result a \<in> {CollectionRejected, CollectionFailed, CollectionSkipped} then identifierPattern (at_ErrorCode a)
      else False)"

definition Milliseconds :: "duration \<Rightarrow> int" where
  "Milliseconds d = d sdiv 1000000"

definition insertAttempt :: "attempt \<Rightarrow> int \<Rightarrow> int \<Rightarrow> unit tx" where
  "insertAttempt a inserted duplicate =
     (if \<not> validateAttempt a then tx_fail (ErrText ''invalid collection attempt'')
      else let duration = Sub (at_CompletedAt a) (at_StartedAt a) in
      if duration < 0 then tx_fail (ErrText ''invalid collection attempt'')
      else tx_insert (\<lambda>u c t.
        if u \<in> rr_id ` set (t_runs t) then Inl DbError
        else Inr ((), t\<lparr>t_runs := t_runs t @
          [\<lparr> rr_id = u, rr_integration_id = uuid_param (at_IntegrationID a), rr_started_at = truncate_us (at_StartedAt a),
             rr_completed_at = truncate_us (at_CompletedAt a), rr_duration_ms = Milliseconds duration,
             rr_result = at_Result a, rr_error_code = nullif (at_ErrorCode a), rr_resource_count = at_ResourceCount a,
             rr_observation_count = at_ObservationCount a, rr_observations_inserted = inserted,
             rr_duplicate_observations = duplicate, rr_correlation_id = at_CorrelationID a \<rparr>]\<rparr>)))"

definition appendCollectionAudit :: "runtime \<Rightarrow> attempt \<Rightarrow> int \<Rightarrow> int \<Rightarrow> unit tx" where
  "appendCollectionAudit rt a inserted duplicate =
     audit_Append rt \<lparr> ae_ActorUserID = '''', ae_Action = ''integration.collection.'' @ at_Result a,
       ae_TargetType = ''integration'', ae_TargetID = at_IntegrationID a,
       ae_Result = (if at_Result a \<noteq> CollectionSucceeded then ''failed'' else ''succeeded''),
       ae_SourceAddress = '''', ae_CorrelationID = at_CorrelationID a, ae_BeforeSummary = None,
       ae_AfterSummary = Some
         ([(''duration_ms'', JInt (Milliseconds (Sub (at_CompletedAt a) (at_StartedAt a)))),
           (''resource_count'', JInt (at_ResourceCount a)), (''observation_count'', JInt (at_ObservationCount a)),
           (''observations_inserted'', JInt inserted), (''duplicate_observations'', JInt duplicate)]
          @ (if at_ErrorCode a \<noteq> '''' then [(''error_code'', JText (at_ErrorCode a))] else [])),
       ae_OccurredAt = at_CompletedAt a \<rparr>"

definition RecordCommitted :: "runtime \<Rightarrow> attempt \<Rightarrow> ingest_result \<Rightarrow> unit tx" where
  "RecordCommitted rt a result =
     (let a = a\<lparr>at_Result := CollectionSucceeded, at_ErrorCode := ''''\<rparr> in
      tx_bind (insertAttempt a (int (ir_ObservationsInserted result)) (int (ir_DuplicateObservations result))) (\<lambda>_.
      appendCollectionAudit rt a (int (ir_ObservationsInserted result)) (int (ir_DuplicateObservations result))))"

definition RecordOutcome :: "runtime \<Rightarrow> attempt \<Rightarrow> unit tx" where
  "RecordOutcome rt a =
     (if at_Result a = CollectionSucceeded
      then tx_fail (ErrText ''successful collection must be recorded with its ingestion transaction'')
      else in_tx (
        tx_bind (insertAttempt a 0 0) (\<lambda>_.
        tx_bind (appendCollectionAudit rt a 0 0) (\<lambda>_.
        tx_return (Commit ())))))"

section \<open>The collector\<close>

text \<open>The readings of the clocks: at the start, on receipt, in the hook and after a failure.\<close>

record readings =
  rd_started :: time
  rd_received :: time
  rd_hook :: time
  rd_failed :: time

definition nowAfter :: "time \<Rightarrow> time \<Rightarrow> time" where
  "nowAfter startedAt now = (if now < startedAt then startedAt else now)"

fun safe_code :: "err \<Rightarrow> string option" where
  "safe_code (RuntimeError code) = Some code"
| "safe_code (MonitoringError code) = Some code"
| "safe_code _ = None"

definition classifyCollectionError :: "err \<Rightarrow> string" where
  "classifyCollectionError e = (case e of
       RuntimeError code \<Rightarrow> if take (length ''invalid_collection'') code = ''invalid_collection'' then CollectionRejected else CollectionFailed
     | _ \<Rightarrow> CollectionFailed)"

definition safeCollectionCode :: "err \<Rightarrow> string" where
  "safeCollectionCode e = (case safe_code e of
       Some code \<Rightarrow> if identifierPattern code then code else ''collection_failed''
     | None \<Rightarrow> ''collection_failed'')"

definition classifyIngestionError :: "err \<Rightarrow> string" where
  "classifyIngestionError e = (case e of
       ValidationError _ \<Rightarrow> CollectionRejected | ConflictError _ _ _ \<Rightarrow> CollectionRejected | _ \<Rightarrow> CollectionFailed)"

definition safeIngestionCode :: "err \<Rightarrow> string" where
  "safeIngestionCode e = (case e of
       ValidationError _ \<Rightarrow> ''validation_failed''
     | ConflictError _ _ code \<Rightarrow> if identifierPattern code then code else ''ingestion_failed''
     | _ \<Rightarrow> ''ingestion_failed'')"

definition webcheckAdapter :: string where
  "webcheckAdapter = ''org.ubnetdef.espial.webcheck''"

definition publishAttempt :: "attempt \<Rightarrow> string \<Rightarrow> unit tx" where
  "publishAttempt a adapterID =
     (let event = zeroEvent\<lparr>ev_IntegrationID := at_IntegrationID a, ev_Result := at_Result a, ev_ChangedAt := at_CompletedAt a\<rparr> in
      tx_bind (hub_publish (event\<lparr>ev_Kind := ''collection_changed''\<rparr>)) (\<lambda>_.
      if adapterID = webcheckAdapter
      then tx_bind (hub_publish (event\<lparr>ev_Kind := ''webpage_changed'', ev_MonitorID := at_IntegrationID a\<rparr>)) (\<lambda>_.
        hub_publish (event\<lparr>ev_Kind := ''certificate_changed'', ev_MonitorID := at_IntegrationID a\<rparr>))
      else tx_return ()))"

definition collection_hook ::
  "collection_env \<Rightarrow> integration \<Rightarrow> readings \<Rightarrow> attempt \<Rightarrow> batch \<Rightarrow> ingest_result \<Rightarrow> unit tx" where
  "collection_hook env ig rd a ba result =
     tx_bind (if ig_AdapterID ig = webcheckAdapter then ProjectBatch env (ig_ID ig) ba else tx_return ()) (\<lambda>_.
     RecordCommitted (cv_runtime env) (a\<lparr>at_CompletedAt := nowAfter (rd_started rd) (rd_hook rd)\<rparr>) result)"

text \<open>A failed attempt is recorded and published unless the context is cancelled.\<close>

definition record_failure :: "collection_env \<Rightarrow> integration \<Rightarrow> bool \<Rightarrow> attempt \<Rightarrow> unit tx" where
  "record_failure env ig cancelled a =
     (if cancelled then tx_return ()
      else tx_bind (tx_catch (RecordOutcome (cv_runtime env) a) (\<lambda>_. tx_fail (MonitoringError ''collection_record_failed''))) (\<lambda>_.
        publishAttempt a (ig_AdapterID ig)))"

definition Collector_Collect ::
  "collection_env \<Rightarrow> integration \<Rightarrow> 8 word list option \<Rightarrow> readings \<Rightarrow> bool \<Rightarrow> err + batch \<Rightarrow> err option \<Rightarrow> unit tx" where
  "Collector_Collect env ig random rd cancelled collected failure =
     (case newCorrelationID random of
        None \<Rightarrow> tx_fail (MonitoringError ''correlation_id_failed'')
      | Some correlationID \<Rightarrow>
          let a = \<lparr> at_IntegrationID = ig_ID ig, at_StartedAt = rd_started rd, at_CompletedAt = 0, at_Result = '''',
                at_ErrorCode = '''', at_ResourceCount = 0, at_ObservationCount = 0, at_CorrelationID = correlationID \<rparr>
          in case collected of
               Inl e \<Rightarrow>
                 tx_bind (record_failure env ig cancelled (a\<lparr> at_CompletedAt := nowAfter (rd_started rd) (rd_failed rd),
                     at_Result := classifyCollectionError e, at_ErrorCode := safeCollectionCode e \<rparr>)) (\<lambda>_.
                 case failure of Some e \<Rightarrow> tx_fail e | None \<Rightarrow> tx_return ())
             | Inr ba \<Rightarrow>
                 let a = a\<lparr> at_ResourceCount := int (length (ba_Resources ba)), at_ObservationCount := int (length (ba_Observations ba)) \<rparr>
                 in tx_bind (tx_try (IngestWithCommit (cv_ingest env) (Some (collection_hook env ig rd a ba)) (ig_ID ig) ba (rd_received rd)))
                   (\<lambda>ingested. case ingested of
                      Inl e \<Rightarrow> record_failure env ig cancelled (a\<lparr> at_CompletedAt := nowAfter (rd_started rd) (rd_failed rd),
                        at_Result := classifyIngestionError e, at_ErrorCode := safeIngestionCode e \<rparr>)
                    | Inr _ \<Rightarrow>
                        let completed = nowAfter (rd_started rd) (rd_hook rd) in
                        publishAttempt (a\<lparr> at_Result := CollectionSucceeded,
                          at_CompletedAt := (if completed = 0 then nowAfter (rd_started rd) (rd_failed rd) else completed) \<rparr>)
                          (ig_AdapterID ig)))"

section \<open>The life cycle of adapters\<close>

record adapter_instance =
  ai_IntegrationID :: string
  ai_AdapterVersion :: string
  ai_ProtocolVersion :: string
  ai_State :: string
  ai_LastStartedAt :: "time option"
  ai_LastHealthyAt :: "time option"
  ai_LastStoppedAt :: "time option"
  ai_LastErrorAt :: "time option"
  ai_LastErrorCode :: string
  ai_ConsecutiveFailures :: int
  ai_NextRestartAt :: "time option"
  ai_UpdatedAt :: time

definition lifecycle_record ::
  "runtime \<Rightarrow> 8 word list option \<Rightarrow> integration \<Rightarrow> string \<Rightarrow> string \<Rightarrow> summary \<Rightarrow> time \<Rightarrow> unit tx" where
  "lifecycle_record rt random ig action st summary at =
     (case newCorrelationID random of
        None \<Rightarrow> tx_fail (MonitoringError ''correlation_id_failed'')
      | Some correlationID \<Rightarrow>
          tx_bind (audit_Append rt \<lparr> ae_ActorUserID = '''', ae_Action = action, ae_TargetType = ''integration'',
              ae_TargetID = ig_ID ig, ae_Result = ''succeeded'', ae_SourceAddress = '''', ae_CorrelationID = correlationID,
              ae_BeforeSummary = None, ae_AfterSummary = Some (summary @ [(''state'', JText st)]), ae_OccurredAt = at \<rparr>) (\<lambda>_.
          hub_publish (zeroEvent\<lparr>ev_Kind := ''integration_changed'', ev_IntegrationID := ig_ID ig, ev_Result := st, ev_ChangedAt := at\<rparr>)))"

definition Lifecycle_Starting :: "runtime \<Rightarrow> 8 word list option \<Rightarrow> integration \<Rightarrow> time \<Rightarrow> unit tx" where
  "Lifecycle_Starting rt random ig at = lifecycle_record rt random ig ''integration.adapter.starting'' ''starting'' [] at"

definition Lifecycle_Healthy ::
  "runtime \<Rightarrow> 8 word list option \<Rightarrow> integration \<Rightarrow> adapter_instance \<Rightarrow> bool \<Rightarrow> time \<Rightarrow> unit tx" where
  "Lifecycle_Healthy rt random ig inst recovered at =
     lifecycle_record rt random ig (if recovered then ''integration.adapter.recovered'' else ''integration.adapter.healthy'') ''healthy''
       [(''adapter_version'', JText (ai_AdapterVersion inst)), (''protocol_version'', JText (ai_ProtocolVersion inst)),
        (''recovered'', JBool recovered)] at"

definition Lifecycle_Failed ::
  "runtime \<Rightarrow> 8 word list option \<Rightarrow> integration \<Rightarrow> adapter_instance \<Rightarrow> time \<Rightarrow> unit tx" where
  "Lifecycle_Failed rt random ig inst at =
     lifecycle_record rt random ig ''integration.adapter.failed'' ''unhealthy''
       [(''error_code'', JText (ai_LastErrorCode inst)), (''consecutive_failures'', JInt (ai_ConsecutiveFailures inst))] at"

definition Lifecycle_Stopped :: "runtime \<Rightarrow> 8 word list option \<Rightarrow> integration \<Rightarrow> time \<Rightarrow> unit tx" where
  "Lifecycle_Stopped rt random ig at = lifecycle_record rt random ig ''integration.adapter.stopped'' ''stopped'' [] at"

section \<open>The hook\<close>

lemma keeps_health_tables:
  assumes "\<And>t x. f (t\<lparr>t_runs := x\<rparr>) = f t" "\<And>t x. f (t\<lparr>t_audit := x\<rparr>) = f t" "\<And>t x. f (t\<lparr>t_certificates := x\<rparr>) = f t"
  shows "keeps f (insertAttempt a i d)" "keeps f (appendCollectionAudit rt a i d)" "keeps f (insertCertificate iid item ev nb na days)"
proof -
  show "keeps f (insertAttempt a i d)"
    unfolding insertAttempt_def Let_def by (intro frame_intros) (auto simp: assms split: if_splits)
  show "keeps f (appendCollectionAudit rt a i d)"
    unfolding appendCollectionAudit_def by (rule audit_Append_only_audit) (rule assms)
  show "keeps f (insertCertificate iid item ev nb na days)"
    unfolding insertCertificate_def
    by (intro frame_intros) (auto simp: assms Let_def split: option.splits if_splits)
qed

lemma health_part_frame: "health_part (t\<lparr>t_runs := x\<rparr>) = health_part t" "health_part (t\<lparr>t_audit := y\<rparr>) = health_part t"
  "health_part (t\<lparr>t_certificates := z\<rparr>) = health_part t"
  by (simp_all add: health_part_def)

lemma keeps_ProjectBatch:
  assumes "\<And>t x. f (t\<lparr>t_certificates := x\<rparr>) = f t"
  shows "keeps f (ProjectBatch env iid ba)"
proof -
  have "keeps f (insertCertificate iid item ev nb na days)" for item ev nb na days
    unfolding insertCertificate_def by (intro frame_intros) (auto simp: assms Let_def split: option.splits if_splits)
  then have "keeps f (projectItem env iid item)" for item
    unfolding projectItem_def by (auto intro!: frame_intros)
  then show ?thesis unfolding ProjectBatch_def by (intro frame_intros)
qed

lemma keeps_RecordCommitted: "keeps health_part (RecordCommitted rt a result)"
  unfolding RecordCommitted_def Let_def
  by (intro frame_intros keeps_health_tables) (simp_all add: health_part_frame)

text \<open>The hook of the collector is one that ingestion may rely on.\<close>

interpretation collector: commit_hook "collection_hook env ig rd a ba" for env ig rd a ba
  by unfold_locales (auto simp: collection_hook_def intro!: frame_intros keeps_ProjectBatch keeps_RecordCommitted health_part_frame)

section \<open>What an ingestion leaves alone and counts\<close>

definition collection_part where
  "collection_part t = (t_runs t, t_audit t, t_certificates t)"

lemma collection_part_frame:
  "collection_part (t\<lparr>t_resources := a\<rparr>) = collection_part t" "collection_part (t\<lparr>t_observations := b\<rparr>) = collection_part t"
  "collection_part (t\<lparr>t_signals := c\<rparr>) = collection_part t" "collection_part (t\<lparr>t_current := d\<rparr>) = collection_part t"
  by (simp_all add: collection_part_def)

lemma keeps_indexed: "keeps f m \<Longrightarrow> keeps f (indexed i m)"
  unfolding indexed_def by (intro frame_intros)

lemma keeps_upsertResources:
  assumes "\<And>t x. f (t\<lparr>t_resources := x\<rparr>) = f t"
  shows "keeps f (upsertResources env iid rs ids)"
proof (induction rs arbitrary: ids)
  case (Cons r rs)
  have "keeps f (upsertResource env iid r)"
    unfolding upsertResource_def
    by (intro frame_intros) (auto simp: Let_def assms split: option.splits if_splits)
  with Cons show ?case by (auto intro!: frame_intros)
qed (auto intro!: frame_intros)

lemma keeps_resolveResources: "keeps f (resolveResources iid n obs ids)"
  by (induction obs arbitrary: n ids) (auto intro!: frame_intros keeps_indexed simp: resolveResource_def)

lemma keeps_storeObservation: "keeps collection_part (storeObservation env iid rid n ob receivedAt)"
proof -
  have "keeps collection_part (Append input)" for input
    unfolding Append_def Let_def by (intro frame_intros) (auto simp: collection_part_frame split: if_splits)
  moreover have "keeps collection_part (insertObservation env iid rid ob receivedAt)"
    unfolding insertObservation_def insertObservationRow_def findConflictingObservation_def
    by (intro frame_intros) (auto simp: Let_def collection_part_frame split: if_splits)
  ultimately show ?thesis unfolding storeObservation_def by (auto intro!: frame_intros keeps_indexed)
qed

lemma keeps_storeObservations: "keeps collection_part (storeObservations env iid ids receivedAt n obs r)"
  by (induction obs arbitrary: n r) (auto intro!: frame_intros keeps_storeObservation)

lemma keeps_refreshCurrents:
  assumes "\<And>t x. f (t\<lparr>t_current := x\<rparr>) = f t"
  shows "keeps f (refreshCurrents keys receivedAt cs)"
proof (induction keys arbitrary: cs)
  case (Cons k keys)
  have "keeps f (refreshCurrent k receivedAt)"
    unfolding refreshCurrent_def loadCurrent_def latestObservation_def saveCurrent_def Let_def
    by (intro frame_intros) (auto simp: assms)
  with Cons show ?case by (auto intro!: frame_intros)
qed (auto intro!: frame_intros)

lemma storeObservations_count:
  assumes "storeObservations env iid ids receivedAt n obs r w = (Inr r', w')"
  shows "length (t_observations (w_tables w')) + ir_ObservationsInserted r = length (t_observations (w_tables w)) + ir_ObservationsInserted r'
    \<and> ir_ObservationsInserted r' + ir_DuplicateObservations r' = ir_ObservationsInserted r + ir_DuplicateObservations r + length obs"
  using assms
proof (induction obs arbitrary: n r w)
  case (Cons ob obs)
  obtain inserted w1 where step: "storeObservation env iid (resource_of ids ob) n ob receivedAt w = (Inr inserted, w1)"
    and rest: "storeObservations env iid ids receivedAt (Suc n) obs
       (if inserted then r\<lparr>ir_ObservationsInserted := ir_ObservationsInserted r + 1\<rparr>
        else r\<lparr>ir_DuplicateObservations := ir_DuplicateObservations r + 1\<rparr>) w1 = (Inr r', w')"
    using Cons.prems by (auto simp: tx_bind_Inr)
  have "length (t_observations (w_tables w1)) = length (t_observations (w_tables w)) + (if inserted then 1 else 0)"
    using storeObservation_Inr [OF step] by (auto dest!: Append_result split: if_splits)
  with Cons.IH [OF rest] show ?case by (auto split: if_splits)
qed simp

definition untouched where
  "untouched t = (collection_part t, t_observations t)"

lemma untouched_frame:
  "untouched (t\<lparr>t_resources := a\<rparr>) = untouched t" "untouched (t\<lparr>t_current := d\<rparr>) = untouched t"
  by (simp_all add: untouched_def collection_part_frame)

lemma ingest_body_Inr:
  assumes "ingest_body env (Some hook) iid ba receivedAt w = (Inr res, w')"
  shows "\<exists>result w1. res = Commit result \<and> hook result w1 = (Inr (), w')
    \<and> collection_part (w_tables w1) = collection_part (w_tables w)
    \<and> length (t_observations (w_tables w1)) = length (t_observations (w_tables w)) + ir_ObservationsInserted result
    \<and> ir_ObservationsInserted result + ir_DuplicateObservations result = length (ba_Observations ba)"
proof -
  let ?r0 = "\<lparr> ir_ResourcesUpserted = length (ba_Resources ba), ir_ObservationsInserted = 0,
     ir_DuplicateObservations = 0, ir_Changes = [] \<rparr>"
  have "keeps untouched (integrationExists iid)" unfolding integrationExists_def by (intro frame_intros)
  obtain wa wb wc wd we ids0 ids r changes where
    a: "integrationExists iid w = (Inr True, wa)" and b: "upsertResources env iid (ba_Resources ba) [] wa = (Inr ids0, wb)"
    and c: "resolveResources iid 0 (ba_Observations ba) ids0 wb = (Inr ids, wc)"
    and d: "tx_for (lockResource iid) (sort (remdups (map snd ids))) wc = (Inr (), wd)"
    and e: "storeObservations env iid ids receivedAt 0 (ba_Observations ba) ?r0 wd = (Inr r, we)"
    and f: "tx_bind (refreshCurrents (affected_checks ids (ba_Observations ba)) receivedAt []) (\<lambda>changes.
       let result = r\<lparr>ir_Changes := changes\<rparr> in tx_bind (hook result) (\<lambda>_. tx_return (Commit result))) we = (Inr res, w')"
    using assms unfolding ingest_body_def option.case by (auto simp: tx_bind_Inr split: if_splits)
  obtain wf cs where g: "refreshCurrents (affected_checks ids (ba_Observations ba)) receivedAt [] we = (Inr cs, wf)"
    and h: "res = Commit (r\<lparr>ir_Changes := cs\<rparr>)" "hook (r\<lparr>ir_Changes := cs\<rparr>) wf = (Inr (), w')"
    using f by (auto simp: tx_bind_Inr Let_def)
  have lock: "keeps untouched (tx_for (lockResource iid) xs)" for xs
    unfolding lockResource_def by (intro frame_intros)
  have "untouched (w_tables wd) = untouched (w_tables w)"
    using keepsD [OF \<open>keeps untouched (integrationExists iid)\<close> a] keepsD [OF keeps_upsertResources b, of untouched]
      keepsD [OF keeps_resolveResources c, of untouched] keepsD [OF lock d] by (simp add: untouched_frame)
  moreover have "untouched (w_tables wf) = untouched (w_tables we)"
    using keepsD [OF keeps_refreshCurrents g, of untouched] by (simp add: untouched_frame)
  moreover have "collection_part (w_tables we) = collection_part (w_tables wd)" by (rule keepsD [OF keeps_storeObservations e])
  ultimately show ?thesis using storeObservations_count [OF e] h by (auto simp: untouched_def)
qed

text \<open>What the hook has done when it succeeds.\<close>

lemma insertAttempt_Inr:
  assumes "insertAttempt a i d w = (Inr x, w')"
  shows "\<exists>u. w_tables w' = (w_tables w)\<lparr>t_runs := t_runs (w_tables w) @
     [\<lparr> rr_id = u, rr_integration_id = uuid_param (at_IntegrationID a), rr_started_at = truncate_us (at_StartedAt a),
        rr_completed_at = truncate_us (at_CompletedAt a), rr_duration_ms = Milliseconds (Sub (at_CompletedAt a) (at_StartedAt a)),
        rr_result = at_Result a, rr_error_code = nullif (at_ErrorCode a), rr_resource_count = at_ResourceCount a,
        rr_observation_count = at_ObservationCount a, rr_observations_inserted = i,
        rr_duplicate_observations = d, rr_correlation_id = at_CorrelationID a \<rparr>]\<rparr>
    \<and> validateAttempt a"
  using assms unfolding insertAttempt_def Let_def by (auto simp: tx_insert_Inr split: if_splits)

lemma appendCollectionAudit_Inr:
  assumes "appendCollectionAudit rt a i d w = (Inr x, w')"
  shows "\<exists>entry. w_tables w' = (w_tables w)\<lparr>t_audit := t_audit (w_tables w) @ [entry]\<rparr>
    \<and> au_action entry = ''integration.collection.'' @ at_Result a \<and> au_target_id entry = nullif (at_IntegrationID a)
    \<and> au_correlation_id entry = at_CorrelationID a"
  using assms unfolding appendCollectionAudit_def audit_Append_def
  by (auto simp: tx_insert_Inr split: if_splits sum.splits)

definition documents :: "attempt \<Rightarrow> int \<Rightarrow> int \<Rightarrow> run_row \<Rightarrow> audit_row \<Rightarrow> bool" where
  "documents a i d row entry \<longleftrightarrow> rr_integration_id row = uuid_param (at_IntegrationID a) \<and> rr_result row = at_Result a
     \<and> rr_error_code row = nullif (at_ErrorCode a) \<and> rr_observation_count row = at_ObservationCount a
     \<and> rr_observations_inserted row = i \<and> rr_duplicate_observations row = d \<and> rr_correlation_id row = at_CorrelationID a
     \<and> au_action entry = ''integration.collection.'' @ at_Result a \<and> au_target_id entry = nullif (at_IntegrationID a)
     \<and> au_correlation_id entry = at_CorrelationID a"

lemma record_Inr:
  assumes "tx_bind (insertAttempt a i d) (\<lambda>_. appendCollectionAudit rt a i d) w = (Inr x, w')"
  shows "\<exists>row entry. w_tables w' = (w_tables w)\<lparr>t_runs := t_runs (w_tables w) @ [row], t_audit := t_audit (w_tables w) @ [entry]\<rparr>
    \<and> documents a i d row entry \<and> validateAttempt a"
proof -
  obtain w1 where run: "insertAttempt a i d w = (Inr (), w1)" "appendCollectionAudit rt a i d w1 = (Inr x, w')"
    using assms by (auto simp: tx_bind_Inr)
  from insertAttempt_Inr [OF run(1)] appendCollectionAudit_Inr [OF run(2)] show ?thesis
    by (fastforce simp: documents_def)
qed

lemma RecordOutcome_cases:
  assumes "RecordOutcome rt a w = (r, w')"
  shows "(\<exists>e. r = Inl e) \<and> w_tables w' = w_tables w \<or> r = Inr () \<and> at_Result a \<noteq> CollectionSucceeded \<and>
    (\<exists>row entry. w_tables w' = (w_tables w)\<lparr>t_runs := t_runs (w_tables w) @ [row], t_audit := t_audit (w_tables w) @ [entry]\<rparr>
       \<and> documents a 0 0 row entry \<and> validateAttempt a)"
proof (cases r)
  case (Inl e)
  with assms show ?thesis by (auto simp: RecordOutcome_def split: if_splits dest: in_tx_atomic)
next
  case (Inr x)
  have no: "at_Result a \<noteq> CollectionSucceeded" using assms Inr by (auto simp: RecordOutcome_def)
  then obtain w1 y where "tx_bind (insertAttempt a 0 0) (\<lambda>_. appendCollectionAudit rt a 0 0) (tick w) = (Inr y, w1)" "w' = tick w1"
    using assms Inr by (auto simp: RecordOutcome_def in_tx_Inr tx_bind_Inr)
  with record_Inr [OF this(1)] Inr no show ?thesis by auto
qed

lemma record_failure_cases:
  assumes "record_failure env ig cancelled a w = (r, w')"
  shows "w_tables w' = w_tables w \<and> (cancelled \<and> r = Inr () \<or> r = Inl (MonitoringError ''collection_record_failed''))
    \<or> r = Inr () \<and> at_Result a \<noteq> CollectionSucceeded \<and>
    (\<exists>row entry. w_tables w' = (w_tables w)\<lparr>t_runs := t_runs (w_tables w) @ [row], t_audit := t_audit (w_tables w) @ [entry]\<rparr>
       \<and> documents a 0 0 row entry \<and> rr_error_code row \<noteq> None)"
proof (cases cancelled)
  case False
  obtain q w1 where run: "RecordOutcome (cv_runtime env) a w = (q, w1)" by force
  have pub: "publishAttempt b i v = (Inr (), v') \<Longrightarrow> w_tables v' = w_tables v"
    "\<exists>v'. publishAttempt b i v = (Inr (), v')" for b i v v'
    by (auto simp: publishAttempt_def Let_def tx_bind_def hub_publish_def split: if_splits)
  show ?thesis
  proof (cases q)
    case (Inl e)
    with run assms False RecordOutcome_cases [OF run] show ?thesis
      by (auto simp: record_failure_def tx_bind_def tx_catch_def)
  next
    case (Inr x)
    then have "publishAttempt a (ig_AdapterID ig) w1 = (r, w')"
      using run assms False by (simp add: record_failure_def tx_bind_def tx_catch_def)
    with pub(2) [of a "ig_AdapterID ig" w1] pub(1) have "r = Inr ()" "w_tables w' = w_tables w1" by fastforce+
    moreover have "rr_error_code row \<noteq> None"
      if "documents a 0 0 row entry" "validateAttempt a" "at_Result a \<noteq> CollectionSucceeded" for row entry
      using that by (auto simp: documents_def validateAttempt_def nullif_def split: if_splits)
    ultimately show ?thesis using RecordOutcome_cases [OF run] Inr by (metis Inl_Inr_False)
  qed
qed (use assms in \<open>simp add: record_failure_def\<close>)

lemma hook_Inr:
  assumes "collection_hook env ig rd a ba result w = (Inr x, w')"
  shows "\<exists>row entry. t_runs (w_tables w') = t_runs (w_tables w) @ [row] \<and> t_audit (w_tables w') = t_audit (w_tables w) @ [entry]
    \<and> t_observations (w_tables w') = t_observations (w_tables w)
    \<and> documents (a\<lparr>at_Result := CollectionSucceeded, at_ErrorCode := ''''\<rparr>) (int (ir_ObservationsInserted result))
        (int (ir_DuplicateObservations result)) row entry"
proof -
  obtain w1 where proj: "(if ig_AdapterID ig = webcheckAdapter then ProjectBatch env (ig_ID ig) ba else tx_return ()) w = (Inr (), w1)"
    and rec: "RecordCommitted (cv_runtime env) (a\<lparr>at_CompletedAt := nowAfter (rd_started rd) (rd_hook rd)\<rparr>) result w1 = (Inr x, w')"
    using assms by (auto simp: collection_hook_def tx_bind_Inr)
  have "keeps (\<lambda>t. (t_runs t, t_audit t, t_observations t))
      (if ig_AdapterID ig = webcheckAdapter then ProjectBatch env (ig_ID ig) ba else tx_return ())"
    by (auto intro!: frame_intros keeps_ProjectBatch)
  from keepsD [OF this proj] record_Inr [OF rec [unfolded RecordCommitted_def Let_def]] show ?thesis
    by (auto simp: documents_def)
qed

lemma IngestWithCommit_cases:
  assumes "IngestWithCommit env (Some hook) iid ba receivedAt w = (r, w')"
  shows "(\<exists>e. r = Inl e) \<and> w_tables w' = w_tables w \<or>
    (\<exists>result w1 w2. r = Inr result \<and> hook result w1 = (Inr (), w2) \<and> w_tables w' = w_tables w2
       \<and> collection_part (w_tables w1) = collection_part (w_tables w)
       \<and> length (t_observations (w_tables w1)) = length (t_observations (w_tables w)) + ir_ObservationsInserted result
       \<and> ir_ObservationsInserted result + ir_DuplicateObservations result = length (ba_Observations ba))"
proof (cases "uuidPattern iid \<and> (\<exists>u. ValidateBatch env ba receivedAt = Inr u)")
  case False
  with assms show ?thesis by (auto simp: IngestWithCommit_def split: if_splits sum.splits)
next
  case True
  obtain q w1 where run: "in_tx (ingest_body env (Some hook) iid ba receivedAt) w = (q, w1)" by force
  have rest: "(case q of Inl e \<Rightarrow> (Inl e, w1) | Inr x \<Rightarrow> (Inr x, snd (hub_publish_committed (ir_Changes x) w1))) = (r, w')"
    using True assms run by (auto simp: IngestWithCommit_def tx_bind_def hub_publish_committed_def split: sum.splits)
  show ?thesis
  proof (cases q)
    case (Inl e)
    with rest in_tx_atomic [OF run [unfolded Inl]] show ?thesis by auto
  next
    case (Inr result)
    then obtain o2 w2 where body: "ingest_body env (Some hook) iid ba receivedAt (tick w) = (Inr o2, w2)"
      and o2: "o2 = Commit result \<and> w1 = tick w2 \<or> o2 = Rollback result"
      using run by (auto simp: in_tx_Inr)
    from ingest_body_Inr [OF body] o2 rest Inr show ?thesis
      by (fastforce simp: hub_publish_committed_def)
  qed
qed

text \<open>
  C6. Every collection is recorded exactly once, with what it did: a run either appends one record
  and one audit entry or changes nothing, and then it was cancelled or reports that it could not be
  recorded. A record that says \<open>succeeded\<close> stands in the transaction that stored the batch and counts
  its observations as new or duplicate; any other record carries an error code and nothing of the
  batch was stored. This holds for every failure of every statement.
\<close>

theorem collection_recorded_once:
  assumes "Collector_Collect env ig random rd cancelled collected failure w = (r, w')"
  shows "w_tables w' = w_tables w \<and> (cancelled \<or> (\<exists>code. r = Inl (MonitoringError code)))
    \<or> (\<exists>row entry. t_runs (w_tables w') = t_runs (w_tables w) @ [row] \<and> t_audit (w_tables w') = t_audit (w_tables w) @ [entry]
         \<and> rr_integration_id row = uuid_param (ig_ID ig) \<and> newCorrelationID random = Some (rr_correlation_id row)
         \<and> au_action entry = ''integration.collection.'' @ rr_result row \<and> au_correlation_id entry = rr_correlation_id row
         \<and> r = (case (collected, failure) of (Inl _, Some e) \<Rightarrow> Inl e | _ \<Rightarrow> Inr ())
         \<and> (rr_result row = CollectionSucceeded \<and> rr_error_code row = None
              \<and> int (length (t_observations (w_tables w'))) = int (length (t_observations (w_tables w))) + rr_observations_inserted row
              \<and> (\<exists>ba. collected = Inr ba \<and> rr_observations_inserted row + rr_duplicate_observations row = int (length (ba_Observations ba)))
            \<or> rr_result row \<in> {CollectionRejected, CollectionFailed} \<and> rr_error_code row \<noteq> None
              \<and> w_tables w' = (w_tables w)\<lparr>t_runs := t_runs (w_tables w) @ [row], t_audit := t_audit (w_tables w) @ [entry]\<rparr>))"
proof (cases "newCorrelationID random")
  case None
  with assms show ?thesis by (auto simp: Collector_Collect_def)
next
  case (Some cid)
  define a where "a = \<lparr> at_IntegrationID = ig_ID ig, at_StartedAt = rd_started rd, at_CompletedAt = 0, at_Result = '''',
     at_ErrorCode = '''', at_ResourceCount = 0, at_ObservationCount = 0, at_CorrelationID = cid \<rparr>"
  have fields: "at_IntegrationID a = ig_ID ig" "at_CorrelationID a = cid" by (simp_all add: a_def)
  show ?thesis
  proof (cases collected)
    case (Inl e)
    let ?b = "a\<lparr> at_CompletedAt := nowAfter (rd_started rd) (rd_failed rd), at_Result := classifyCollectionError e,
       at_ErrorCode := safeCollectionCode e \<rparr>"
    obtain q w1 where run: "record_failure env ig cancelled ?b w = (q, w1)" by force
    have rest: "(case q of Inl x \<Rightarrow> (Inl x, w1) | Inr _ \<Rightarrow> (case failure of Some x \<Rightarrow> Inl x | None \<Rightarrow> Inr (), w1)) = (r, w')"
      using assms run by (auto simp: Collector_Collect_def Some Inl Let_def a_def tx_bind_def split: sum.splits option.splits)
    have res: "at_Result ?b \<in> {CollectionRejected, CollectionFailed}"
      by (auto simp: classifyCollectionError_def split: err.splits)
    from record_failure_cases [OF run] rest Inl res show ?thesis
      by (fastforce simp: documents_def fields Some split: option.splits)
  next
    case (Inr ba)
    let ?a = "a\<lparr> at_ResourceCount := int (length (ba_Resources ba)), at_ObservationCount := int (length (ba_Observations ba)) \<rparr>"
    obtain q w1 where run: "IngestWithCommit (cv_ingest env) (Some (collection_hook env ig rd ?a ba)) (ig_ID ig) ba (rd_received rd) w = (q, w1)"
      by force
    show ?thesis
    proof (cases q)
      case (Inl e)
      let ?b = "?a\<lparr> at_CompletedAt := nowAfter (rd_started rd) (rd_failed rd), at_Result := classifyIngestionError e,
         at_ErrorCode := safeIngestionCode e \<rparr>"
      have rest: "record_failure env ig cancelled ?b w1 = (r, w')"
        using assms run by (simp add: Collector_Collect_def Some Inr Inl Let_def a_def tx_bind_def tx_try_def)
      have res: "at_Result ?b \<in> {CollectionRejected, CollectionFailed}"
        by (auto simp: classifyIngestionError_def split: err.splits)
      have "w_tables w1 = w_tables w" using IngestWithCommit_cases [OF run] Inl by auto
      with record_failure_cases [OF rest] Inr res show ?thesis
        by (fastforce simp: documents_def fields Some)
    next
      case (Inr result)
      have "r = Inr () \<and> w_tables w' = w_tables w1"
        using assms run by (auto simp: Collector_Collect_def Some \<open>collected = Inr ba\<close> Inr Let_def a_def tx_bind_def tx_try_def
            publishAttempt_def hub_publish_def split: if_splits)
      with IngestWithCommit_cases [OF run] Inr \<open>collected = Inr ba\<close> show ?thesis
        by (fastforce dest!: hook_Inr simp: documents_def fields Some nullif_def collection_part_def)
    qed
  qed
qed

section \<open>Identifiers and codes are well formed\<close>

lemma hex_digit_lower: 
  assumes "n < 16" shows "hex_lower (hex_digit n)"
proof -
  have "\<forall>n \<in> set [0..<16]. hex_lower (hex_digit n)" by code_simp
  with assms show ?thesis by simp
qed

lemma word_nibbles: "unat (b :: 8 word) div 16 < 16" "unat (b :: 8 word) mod 16 < 16"
proof -
  have "unat b < 2 ^ 8" using unsigned_less [of b] by simp
  then show "unat b div 16 < 16" by (simp add: less_mult_imp_div_less)
qed simp

lemma version_nibble: "unat ((b :: 8 word) AND 0x0f OR 0x40) div 16 = 4"
proof -
  have "drop_bit 4 (b AND 0x0f OR 0x40) = 4"
    by (rule bit_word_eqI) (auto simp: bit_simps less_Suc_eq numeral_eq_Suc)
  then have "unat (drop_bit 4 (b AND 0x0f OR 0x40)) = 4" by simp
  then show ?thesis by (simp add: unsigned_drop_bit_eq drop_bit_eq_div unat_div)
qed

lemma variant_nibble: "unat ((b :: 8 word) AND 0x3f OR 0x80) div 16 \<in> {8, 9, 10, 11}"
proof -
  have bits: "drop_bit 4 (b AND 0x3f OR 0x80) = 8 OR (drop_bit 4 b AND 3)"
    by (rule bit_word_eqI) (auto simp: bit_simps less_Suc_eq numeral_eq_Suc)
  have "take_bit 2 (drop_bit 4 b) = drop_bit 4 b AND 3" by (simp add: take_bit_eq_mask mask_eq_exp_minus_1)
  have "unat (drop_bit 4 b AND 3) < 4" 
    using take_bit_nat_less_exp [of 2 "unat (drop_bit 4 b)"] unsigned_take_bit_eq
    by (metis \<open>take_bit 2 (drop_bit 4 b) = drop_bit 4 b AND 3\<close> numeral_Bit0 power2_eq_square  one_add_one mult_2)
  then have "unat (drop_bit 4 b AND 3) \<in> {0, 1, 2, 3}" by auto
  then have "drop_bit 4 b AND 3 \<in> {0, 1, 2, 3}"
    by (auto simp: word_unat_eq_iff)
  then show ?thesis using arg_cong [OF bits, of unat] by (auto simp: unsigned_drop_bit_eq drop_bit_eq_div unat_div)
qed

lemma newCorrelationID_uuid:
  assumes "length bytes = 16"
  shows "\<exists>cid. newCorrelationID (Some bytes) = Some cid \<and> uuidPatternLower cid"
proof -
  obtain b0 b1 b2 b3 b4 b5 b6 b7 b8 b9 b10 b11 b12 b13 b14 b15
    where v: "bytes = [b0, b1, b2, b3, b4, b5, b6, b7, b8, b9, b10, b11, b12, b13, b14, b15]"
    using assms by (auto simp: numeral_eq_Suc length_Suc_conv)
  have variant: "hex_digit (unat (b8 AND 0x3f OR 0x80) div 16) \<in> set ''89abAB''"
    using variant_nibble [of b8] by (auto simp: hex_digit_def)
  have version: "hex_digit (unat (b6 AND 0x0f OR 0x40) div 16) = CHR ''4''"
    by (simp add: version_nibble hex_digit_def)
  show ?thesis
    using variant
    by (simp add: v newCorrelationID_def Let_def hex_byte_def uuidPatternLower_def uuid_char_def version
        hex_digit_lower [OF word_nibbles(1)] hex_digit_lower [OF word_nibbles(2)] byte_def)
qed

definition part_ok :: "string \<Rightarrow> bool" where
  "part_ok part \<longleftrightarrow> part \<noteq> '''' \<and> safeDiagnosticPart part \<and> length part \<le> 30"

definition coded_field :: "field_error \<Rightarrow> bool" where
  "coded_field f \<longleftrightarrow> part_ok (fe_Record f) \<and> part_ok (fe_Field f) \<and> part_ok (fe_Code f)"

lemma parts_ok:
  "part_ok ''batch''" "part_ok ''resource''" "part_ok ''observation''" "part_ok ''records''" "part_ok ''id''" "part_ok ''external_id''"
  "part_ok ''kind''" "part_ok ''display_name''" "part_ok ''observed_at''" "part_ok ''attributes''" "part_ok ''source_url''"
  "part_ok ''external_resource_id''" "part_ok ''check_type''" "part_ok ''state''" "part_ok ''summary''"
  "part_ok ''expected_refresh_seconds''" "part_ok ''measurements''" "part_ok ''metadata''" "part_ok ''limit_exceeded''"
  "part_ok ''invalid_uuid''" "part_ok ''invalid_format''" "part_ok ''required''" "part_ok ''ambiguous_whitespace''"
  "part_ok ''too_long''" "part_ok ''future_skew''" "part_ok ''invalid_json''" "part_ok ''encoded_size_exceeded''"
  "part_ok ''property_limit_exceeded''" "part_ok ''invalid_url''" "part_ok ''invalid_state''" "part_ok ''out_of_bounds''"
  "part_ok ''invalid_value''" "part_ok ''duplicate''"
  by code_simp+

lemma coded_add: "part_ok r \<Longrightarrow> part_ok f \<Longrightarrow> part_ok c \<Longrightarrow> list_all coded_field (addFieldError r i f c)"
  by (simp add: addFieldError_def coded_field_def)

lemma coded_if: "list_all p xs \<Longrightarrow> list_all p (if b then xs else [])" "list_all p xs \<Longrightarrow> list_all p ys \<Longrightarrow> list_all p (if b then xs else ys)"
  by simp_all

lemma coded_append: "list_all p xs \<Longrightarrow> list_all p ys \<Longrightarrow> list_all p (xs @ ys)"
  by simp

lemma coded_parts:
  assumes "part_ok r" "part_ok f"
  shows "list_all coded_field (validateIdentity v m r i f)" "list_all coded_field (validateText v m r i f)"
    "list_all coded_field (validateJSONSize env j r i f)"
proof -
  show "list_all coded_field (validateIdentity v m r i f)" "list_all coded_field (validateText v m r i f)"
    unfolding validateIdentity_def validateText_def by (intro coded_if coded_append coded_add assms parts_ok)+
  show "list_all coded_field (validateJSONSize env j r i f)"
    unfolding validateJSONSize_def by (auto intro!: coded_add assms parts_ok split: option.split)
qed

lemma coded_instant: "part_ok r \<Longrightarrow> list_all coded_field (validateObservedAt t at r i)"
  unfolding validateObservedAt_def by (intro coded_if coded_append coded_add parts_ok)

lemma coded_validations:
  "list_all coded_field (validateResource env r i at)" "list_all coded_field (validateObservation env ob i at)"
  unfolding validateResource_def validateObservation_def
  by (intro coded_append coded_if(1) coded_parts coded_instant coded_add parts_ok)+

lemma coded_resources: "list_all coded_field (validateResources env at seen i rs)"
proof (induction rs arbitrary: seen i)
  case (Cons r rs)
  show ?case unfolding validateResources.simps by (intro coded_append coded_if(1) coded_validations coded_add parts_ok Cons)
qed simp

lemma coded_observations: "list_all coded_field (validateObservations env at i obs)"
  by (induction obs arbitrary: i) (simp_all add: coded_validations)

lemma ValidateBatch_coded:
  assumes "ValidateBatch env ba at = Inl e"
  shows "\<exists>f fs. e = ValidationError (f # fs) \<and> coded_field f"
proof -
  let ?errors = "(if MaxBatchRecords < length (ba_Resources ba) + length (ba_Observations ba)
         then addFieldError ''batch'' (-1) ''records'' ''limit_exceeded'' else [])
        @ validateResources env at [] 0 (ba_Resources ba) @ validateObservations env at 0 (ba_Observations ba)"
  have "e = ValidationError ?errors" "?errors \<noteq> []"
    using assms by (auto simp: ValidateBatch_def Let_def split: if_splits)
  moreover have "list_all coded_field ?errors"
    by (intro coded_append coded_if(1) coded_resources coded_observations coded_add parts_ok)
  ultimately show ?thesis by (cases ?errors) auto
qed

lemma safe_part_identifier: "safeDiagnosticPart v \<Longrightarrow> list_all identifier_char v"
  by (induction v) (auto simp: safeDiagnosticPart_def identifier_char_def)

lemma joined_code:
  assumes "coded_field f"
  shows "identifierPattern (join_with ''_'' [''invalid_collection'', fe_Record f, fe_Field f, fe_Code f])"
  using assms safe_part_identifier [of "fe_Record f"] safe_part_identifier [of "fe_Field f"] safe_part_identifier [of "fe_Code f"]
  by (simp add: coded_field_def part_ok_def identifier_char_def lower_letter_def digit_def byte_def)

text \<open>
  A collection whose payload is refused is rejected under a safe code: decoding fails only with a
  runtime error whose code is an identifier that starts with \<open>invalid_collection\<close>; the collector
  classifies it as rejected and records that code.
\<close>

theorem refused_payload_is_coded:
  assumes "DecodeCollection env payload receivedAt = Inl e"
  shows "\<exists>code. e = RuntimeError code \<and> identifierPattern code \<and> classifyCollectionError e = CollectionRejected
    \<and> safeCollectionCode e = code"
proof (cases "cv_Decode env payload")
  case None
  with assms have "e = RuntimeError ''invalid_collection''" by (simp add: DecodeCollection_def)
  moreover have "identifierPattern ''invalid_collection''" by code_simp
  ultimately show ?thesis by (simp add: classifyCollectionError_def safeCollectionCode_def del: identifierPattern.simps)
next
  case (Some c)
  let ?ba = "\<lparr> ba_Resources = map resource_input_of (cp_Resources c), ba_Observations = map observation_input_of (cp_Observations c) \<rparr>"
  obtain e' where e': "ValidateBatch (cv_ingest env) ?ba receivedAt = Inl e'" "e = invalidCollectionError e'"
    using assms Some by (auto simp: DecodeCollection_def Let_def split: sum.splits)
  obtain f fs where f: "e' = ValidationError (f # fs)" "coded_field f" using ValidateBatch_coded [OF e'(1)] by auto
  have "safeDiagnosticPart ''invalid_collection''" by code_simp
  then have "e = RuntimeError (join_with ''_'' [''invalid_collection'', fe_Record f, fe_Field f, fe_Code f])"
    using f by (simp add: e'(2) coded_field_def part_ok_def)
  with joined_code [OF f(2)] show ?thesis
    by (simp add: classifyCollectionError_def safeCollectionCode_def del: identifierPattern.simps)
qed

section \<open>Collections keep current health\<close>

lemma keeps_record_failure: "keeps health_part (record_failure env ig cancelled a)"
proof -
  have "keeps health_part (publishAttempt b i)" for b i
    unfolding publishAttempt_def Let_def by (intro frame_intros)
  moreover have "keeps health_part (RecordOutcome rt b)" for rt b
    unfolding RecordOutcome_def by (intro frame_intros keeps_health_tables) (simp_all add: health_part_frame)
  ultimately show ?thesis unfolding record_failure_def by (intro frame_intros)
qed

lemma Collector_Collect_preserves: "preserves (health_inv {}) (Collector_Collect env ig random rd cancelled collected failure)"
proof -
  have fail: "preserves (health_inv {}) (record_failure env ig cancelled a)" for a
    unfolding preserves_def
  proof (rule alwaysI, rule impI)
    fix w :: world
    assume inv: "health_inv {} (w_tables w)"
    obtain r w' where run: "record_failure env ig cancelled a w = (r, w')" by force
    from health_inv_cong [OF keepsD [OF keeps_record_failure run], of "{}"] inv
    show "health_inv {} (w_tables (snd (record_failure env ig cancelled a w)))" by (simp add: run)
  qed
  have pub: "preserves (health_inv {}) (publishAttempt a i)" for a i
    by (auto simp: preserves_def always_def publishAttempt_def Let_def tx_bind_def hub_publish_def)
  have attempt: "preserves (health_inv {}) (tx_try m)" if "preserves (health_inv {}) m" for m :: "'a tx"
    using that by (auto simp: preserves_def always_def tx_try_def split: prod.splits)
  show ?thesis
    by (cases "newCorrelationID random"; cases collected; cases failure)
      (auto simp: Collector_Collect_def Let_def intro!: preserves_comp(3) preserves_comp(1,2) fail pub attempt collector.ingest_preserves split: sum.split)
qed

text \<open>
  A certificate without a fingerprint after one with a fingerprint makes the comparison NULL, and the
  statement fails: with it the whole ingestion is rolled back.
\<close>

lemma certificate_gap_rejected:
  assumes "selected_observation iid item (w_tables w) = Some ob" "\<not> faulty w"
    and "prior_certificate (ob_resource_id ob) (t_certificates (w_tables w)) = Some c" "ce_fingerprint_sha256 c = Some f"
    and "pe_FingerprintSHA256 ev = ''''"
  shows "fst (insertCertificate iid item ev nb na days w) = Inl DbError"
  using assms by (simp add: insertCertificate_def tx_insert_def tx_stmt_def nullif_def)

end
