(* ===== verification/Collection_Sample.thy ===== *)
theory Collection_Sample
  imports Collection Observation_Sample
begin

text \<open>The collection pipeline on concrete data: a collection that timed out, and a payload that is refused.\<close>

definition sampleCollectionEnv :: collection_env where
  "sampleCollectionEnv = \<lparr> cv_ingest = sampleIngestEnv,
     cv_runtime = \<lparr> rt_json = (\<lambda>_. ''{}''), rt_sha256 = (\<lambda>s. s), rt_ParseIP = (\<lambda>_. False), rt_Quote = (\<lambda>s. s) \<rparr>,
     cv_Decode = (\<lambda>_. None), cv_Evidence = (\<lambda>_. None), cv_ParseTime = (\<lambda>_. None) \<rparr>"

definition sampleCollected :: integration where
  "sampleCollected = \<lparr> ig_ID = sampleIntegration, ig_AdapterID = ''org.example.adapter'', ig_Interval = 60000000000,
     ig_ConfigNonsecret = None, ig_SecretReferences = [] \<rparr>"

definition sampleReadings :: readings where
  "sampleReadings = \<lparr> rd_started = 5000, rd_received = 6000, rd_hook = 7000, rd_failed = 8000 \<rparr>"

definition sampleCorrelation :: string where
  "sampleCorrelation = ''00000000-0000-4000-8000-000000000000''"

definition sampleBytes :: "8 word list" where
  "sampleBytes = [0, 0, 0, 0, 0, 0, 0, 0, 0, 0, 0, 0, 0, 0, 0, 0]"

lemma sample_correlation: "newCorrelationID (Some sampleBytes) = Some sampleCorrelation"
  by (simp add: newCorrelationID_def sampleBytes_def Let_def hex_byte_def hex_digit_def sampleCorrelation_def)

lemma sample_correlation_text: "TrimSpace sampleCorrelation = sampleCorrelation" "length sampleCorrelation = 36" "sampleCorrelation \<noteq> ''''"
  "identifierPattern ''request_timeout''" "identifierPattern ''integration.collection.failed''" "targetTypePattern ''integration''"
  by code_simp+

lemma sample_collect:
  "\<exists>w'. Collector_Collect sampleCollectionEnv sampleCollected (Some sampleBytes) sampleReadings False
     (Inl (RuntimeError ''request_timeout'')) None sampleStart = (Inr (), w')"
  by (simp add: Collector_Collect_def sample_correlation record_failure_def RecordOutcome_def insertAttempt_def validateAttempt_def
      appendCollectionAudit_def audit_Append_def validAuditEvent_def encodeSummary_def MaxSummaryBytes_def nowAfter_def Sub_def
      classifyCollectionError_def safeCollectionCode_def CollectionFailed_def CollectionSucceeded_def CollectionRejected_def
      CollectionSkipped_def publishAttempt_def webcheckAdapter_def sampleCollected_def sampleReadings_def sampleCollectionEnv_def
      sampleStart_def sample_world_eval sample_correlation_text sampleIntegration_def tx_eval del: identifierPattern.simps
      cong: tx_frozen)

theorem collection_recorded_once_witness:
  "\<exists>w' row. Collector_Collect sampleCollectionEnv sampleCollected (Some sampleBytes) sampleReadings False
     (Inl (RuntimeError ''request_timeout'')) None sampleStart = (Inr (), w') \<and> t_runs (w_tables w') = [row]
     \<and> rr_result row \<in> {CollectionRejected, CollectionFailed}"
proof -
  obtain w' where run: "Collector_Collect sampleCollectionEnv sampleCollected (Some sampleBytes) sampleReadings False
     (Inl (RuntimeError ''request_timeout'')) None sampleStart = (Inr (), w')" using sample_collect by blast
  have empty: "t_runs (w_tables sampleStart) = []" by (simp add: sampleStart_def sample_world_eval)
  show ?thesis using collection_recorded_once [OF run] run empty by auto
qed

theorem refused_payload_is_coded_witness:
  "safeCollectionCode (RuntimeError ''invalid_collection'') = ''invalid_collection''
    \<and> DecodeCollection sampleCollectionEnv '''' 7000 = Inl (RuntimeError ''invalid_collection'')"
proof -
  have "DecodeCollection sampleCollectionEnv '''' 7000 = Inl (RuntimeError ''invalid_collection'')"
    by (simp add: DecodeCollection_def sampleCollectionEnv_def)
  with refused_payload_is_coded [OF this] show ?thesis by simp
qed

end
