(* ===== verification/Adapter_Sample.thy ===== *)
theory Adapter_Sample
  imports Adapter_Process
begin

text \<open>The adapter boundary on concrete data: a request with its answer, a failure, a start of a session, a secret.\<close>

definition sampleResponse :: envelope where
  "sampleResponse = \<lparr> en_ProtocolVersion = ''1.0'', en_Kind = ''response'', en_Operation = ''collect'',
     en_RequestID = ''22222222-2222-4222-8222-222222222222'', en_SentAt = 5000, en_Deadline = None, en_Payload = ''{}'', en_Error = None \<rparr>"

definition sampleManifest :: manifest where
  "sampleManifest = \<lparr> mf_AdapterID = ''org.example'', mf_DisplayName = ''Example'', mf_AdapterVersion = ''1'',
     mf_ProtocolVersions = [''1.0''], mf_IntegrationCategory = ''host'', mf_ResourceTypes = [], mf_CheckTypes = [],
     mf_Capabilities = [''collect''], mf_ReadOnly = True, mf_ConfigSchema = Some [(''type'', AString ''object'')], mf_SecretFields = [] \<rparr>"

definition sampleWire :: wire where
  "sampleWire = \<lparr> wr_Marshal = (\<lambda>_. Some ''{x}''), wr_DecodeEnvelope = (\<lambda>_. Some sampleResponse),
     wr_DecodeManifest = (\<lambda>_. Some sampleManifest), wr_IsObject = (\<lambda>_. True), wr_EncodeSchema = (\<lambda>_. Some ''{}'') \<rparr>"

lemma sample_wire_texts:
  "uuidPattern ''22222222-2222-4222-8222-222222222222''" "parseVersion ''1.0'' = Some (1, 0)" "TrimSpace ''Example'' = ''Example''"
  "RuneCountInString ''Example'' = 7" "TrimSpace ''1'' = ''1''" "RuneCountInString ''1'' = 1" "adapterIDPattern ''org.example''"
  "resourceKindPattern ''host''" "requestOperation ''collect''"
  by code_simp+

lemma sample_envelope_valid: "ValidateEnvelope sampleWire sampleResponse = Inr ()"
  by (simp add: ValidateEnvelope_def sampleResponse_def sampleWire_def valid_kind_def validOperation_def sample_wire_texts)

text \<open>A wire that names the request in its text and normalises payloads, as \<open>encoding/json\<close> does.\<close>

definition lineWire :: wire where
  "lineWire = sampleWire\<lparr> wr_Marshal := (\<lambda>e. Some (CHR ''{'' # en_RequestID e @ ''}'')),
     wr_DecodeEnvelope := (\<lambda>s. if s = '''' \<or> hd s \<noteq> CHR ''{'' then None
       else Some (sampleResponse\<lparr>en_RequestID := butlast (tl s)\<rparr>)) \<rparr>"

definition otherResponse :: envelope where
  "otherResponse = sampleResponse\<lparr> en_RequestID := ''33333333-3333-4333-8333-333333333333'', en_Payload := ''{ }'' \<rparr>"

lemma line_wire_texts: "uuidPattern ''33333333-3333-4333-8333-333333333333''"
  by code_simp

lemma line_wire_valid:
  "ValidateEnvelope lineWire sampleResponse = Inr ()" "ValidateEnvelope lineWire otherResponse = Inr ()"
  "ValidateEnvelope lineWire (otherResponse\<lparr>en_Payload := ''{}''\<rparr>) = Inr ()"
  by (simp_all add: ValidateEnvelope_def otherResponse_def sampleResponse_def lineWire_def sampleWire_def valid_kind_def
      validOperation_def sample_wire_texts line_wire_texts)

lemma line_wire_decodes:
  "DecodeEnvelope lineWire (the (wr_Marshal lineWire sampleResponse)) = Inr sampleResponse"
  "DecodeEnvelope lineWire (the (wr_Marshal lineWire otherResponse)) = Inr (otherResponse\<lparr>en_Payload := ''{}''\<rparr>)"
proof -
  have "wr_DecodeEnvelope lineWire (the (wr_Marshal lineWire sampleResponse)) = Some sampleResponse"
    "wr_DecodeEnvelope lineWire (the (wr_Marshal lineWire otherResponse)) = Some (otherResponse\<lparr>en_Payload := ''{}''\<rparr>)"
    by (simp_all add: lineWire_def otherResponse_def sampleResponse_def)
  then show "DecodeEnvelope lineWire (the (wr_Marshal lineWire sampleResponse)) = Inr sampleResponse"
    "DecodeEnvelope lineWire (the (wr_Marshal lineWire otherResponse)) = Inr (otherResponse\<lparr>en_Payload := ''{}''\<rparr>)"
    by (simp_all add: DecodeEnvelope_def line_wire_valid)
qed

theorem codec_framing_round_trip_witness:
  "\<exists>ls. map (Codec_Write lineWire 64) [sampleResponse, otherResponse] = map Inr ls
     \<and> read_stream lineWire 128 (concat ls @ ''no message'') =
        ([sampleResponse, otherResponse\<lparr>en_Payload := ''{}''\<rparr>], Some ''partial_line'')"
proof -
  let ?ls = "map (\<lambda>e. the (wr_Marshal lineWire e) @ [newline]) [sampleResponse, otherResponse]"
  have written: "map (Codec_Write lineWire 64) [sampleResponse, otherResponse] = map Inr ?ls"
    by (simp add: Codec_Write_def line_wire_valid) (simp add: lineWire_def sampleResponse_def otherResponse_def)
  have lines: "\<forall>e \<in> set [sampleResponse, otherResponse]. one_line lineWire e"
    by (simp add: one_line_def lineWire_def newline_def carriage_def sampleResponse_def otherResponse_def)
  have "decode_texts lineWire (map (\<lambda>e. the (wr_Marshal lineWire e)) [sampleResponse, otherResponse])
      = ([sampleResponse, otherResponse\<lparr>en_Payload := ''{}''\<rparr>], None)"
    by (simp add: line_wire_decodes)
  moreover have "Codec_Read lineWire 128 ''no message'' = (Some (Inl ''partial_line''), [])" by code_simp
  then have "read_stream lineWire 128 ''no message'' = ([], Some ''partial_line'')"
    by (subst read_stream.simps) simp
  ultimately show ?thesis
    using codec_framing_round_trip [OF written lines, of 128 lineWire "''no message''"] written by (intro exI [of _ ?ls]) simp
qed

theorem snapshot_without_secrets_witness:
  "\<not> sublist ''s3cret'' (fst (Snapshot_text (AddLine ''key s3cret'' (SetSecrets [''s3cret''] (NewDiagnosticBuffer 0 0)))))"
proof (rule snapshot_without_secrets)
  show "separable ''s3cret''" by (rule separable_disjoint) (simp_all add: redacted_def)
  have kept: "dg_secrets (write_byte b c) = dg_secrets b" for b c
    by (simp add: write_byte_def commitLocked_def Let_def make_room_secrets)
  show "''s3cret'' \<in> set (dg_secrets (AddLine ''key s3cret'' (SetSecrets [''s3cret''] (NewDiagnosticBuffer 0 0))))"
    by (simp add: AddLine_def Diagnostics_Write_def SetSecrets_def kept)
qed

lemma sample_response_fields:
  "en_ProtocolVersion sampleResponse = ''1.0''" "en_Kind sampleResponse = ''response''" "en_Operation sampleResponse = ''collect''"
  "en_Error sampleResponse = None" "en_Payload sampleResponse = ''{}''"
  by (simp_all add: sampleResponse_def)

definition sampleCall :: "call_phase \<Rightarrow> envelope option \<Rightarrow> call_state" where
  "sampleCall ph r = \<lparr> cl_operation = ''collect'', cl_allowStopping = False, cl_phase = ph, cl_delivered = r \<noteq> None, cl_response = r \<rparr>"

definition sampleProcess :: "string option \<Rightarrow> call_phase \<Rightarrow> envelope option \<Rightarrow> process" where
  "sampleProcess failure ph r = (new_process (NewDiagnosticBuffer 0 0))
     \<lparr>ps_calls := (\<lambda>_. None)(en_RequestID sampleResponse := Some (sampleCall ph r)),
      ps_pending := Some (en_RequestID sampleResponse), ps_failure := failure\<rparr>"

lemmas sample_process_eval = sampleProcess_def sampleCall_def new_process_def set_call_def

lemma sample_conversation:
  "proc_step\<^sup>*\<^sup>* (new_process (NewDiagnosticBuffer 0 0), [])
     (sampleProcess None (Returned (Inr ''{}'')) (Some sampleResponse), [Begun (en_RequestID sampleResponse) ''collect'', Heard sampleResponse])"
proof -
  let ?rid = "en_RequestID sampleResponse" and ?p = sampleProcess
  have s1: "proc_step (new_process (NewDiagnosticBuffer 0 0), []) (?p None Writing None, [] @ [Begun ?rid ''collect''])"
    by (rule proc_step.begun [where allowStopping = False])
      (simp_all add: call_begin_def sample_wire_texts sample_process_eval)
  have s2: "proc_step (?p None Writing None, [Begun ?rid ''collect'']) (?p None Waiting None, [Begun ?rid ''collect''])"
    using proc_step.written [of "?p None Writing None" ?rid "sampleCall Writing None"] by (simp add: sample_process_eval)
  have s3: "proc_step (?p None Waiting None, [Begun ?rid ''collect''])
      (?p None Waiting (Some sampleResponse), [Begun ?rid ''collect''] @ [Heard sampleResponse])"
    using proc_step.heard [of "?p None Waiting None" "[Begun ?rid ''collect'']" "\<lambda>_. None" sampleResponse]
    by (simp add: dispatch_def dispatch_response_def sample_process_eval sample_response_fields ProtocolV1_def)
  have s4: "proc_step (?p None Waiting (Some sampleResponse), l) (?p None (Returned (Inr ''{}'')) (Some sampleResponse), l)" for l
    using proc_step.answered [of "?p None Waiting (Some sampleResponse)" ?rid "sampleCall Waiting (Some sampleResponse)" sampleResponse l False]
    by (simp add: on_response_def return_call_def sample_process_eval sample_response_fields)
  have t1: "proc_step\<^sup>*\<^sup>* (new_process (NewDiagnosticBuffer 0 0), []) (?p None Writing None, [Begun ?rid ''collect''])"
    using s1 unfolding append_Nil by (rule r_into_rtranclp)
  have step: "proc_step\<^sup>*\<^sup>* a c" if "proc_step\<^sup>*\<^sup>* a b" "proc_step b c" for a b c :: logged
    using that by (rule rtranclp.rtrancl_into_rtrancl)
  have t3: "proc_step\<^sup>*\<^sup>* (new_process (NewDiagnosticBuffer 0 0), [])
      (?p None Waiting (Some sampleResponse), [Begun ?rid ''collect'', Heard sampleResponse])"
    using step [OF step [OF t1 s2] s3] unfolding append_Cons append_Nil .
  show ?thesis by (rule step [OF t3 s4])
qed

theorem adapter_responses_correlated_witness:
  "\<exists>e. heard_after [Begun (en_RequestID sampleResponse) ''collect'', Heard sampleResponse] (en_RequestID sampleResponse) ''collect'' e
    \<and> en_Payload e = ''{}''"
  using adapter_responses_correlated [OF sample_conversation, of "en_RequestID sampleResponse" "sampleCall (Returned (Inr ''{}'')) (Some sampleResponse)"]
  by (auto simp: sample_process_eval)

theorem adapter_failure_final_witness:
  "ps_failure (dispatch (\<lambda>_. None) sampleResponse (sampleProcess (Some ''request_timeout'') Waiting None)) = Some ''request_timeout''"
proof -
  let ?p = "sampleProcess (Some ''request_timeout'') Waiting None"
  have "proc_step\<^sup>*\<^sup>* (?p, []) (dispatch (\<lambda>_. None) sampleResponse ?p, [] @ [Heard sampleResponse])"
    by (intro r_into_rtranclp proc_step.heard)
  moreover have "ps_failure ?p = Some ''request_timeout''" by (simp add: sampleProcess_def)
  ultimately show ?thesis using adapter_failure_final by blast
qed

definition sampleAnswers :: adapter_call where
  "sampleAnswers operation payload p = (Inr operation, p)"

definition sampleSource :: integration where
  "sampleSource = \<lparr> ig_ID = ''i'', ig_AdapterID = ''org.example'', ig_Interval = 60000000000, ig_ConfigNonsecret = None,
     ig_SecretReferences = [] \<rparr>"

definition sampleObjects :: "string \<Rightarrow> any_map option" where
  "sampleObjects payload = Some (Some (if payload = ''health'' then [(''status'', AString ''healthy'')] else [(''valid'', ABool True)]))"

definition sampleDescriptor :: descriptor where
  "sampleDescriptor = \<lparr> ds_AdapterID = ''org.example'', ds_Executable = ''/bin/example'', ds_Arguments = [], ds_WorkingDirectory = '''',
     ds_Environment = [] \<rparr>"

lemma sample_manifest_valid: "ValidateManifest sampleWire sampleManifest = Inr ()"
  by (simp add: ValidateManifest_def sampleManifest_def sampleWire_def duplicateOrInvalid_def validCapability_def sample_wire_texts
      entries_def del: adapterIDPattern.simps resourceKindPattern.simps)

lemma sample_negotiation: "NegotiateVersion [ProtocolV1] [''1.0''] = Inr ''1.0''"
  by (simp add: NegotiateVersion_def ProtocolV1_def sample_wire_texts)

lemma sample_session_steps:
  "DecodeManifest sampleWire payload = Inr sampleManifest" "validateSliceCapabilities sampleManifest = Inr ()"
  "mf_ProtocolVersions sampleManifest = [''1.0'']" "mf_AdapterID sampleManifest = ''org.example''"
  "ResolveConfig sampleManifest [] [] None = Inr ([], [])" "requireResponse sampleObjects ''validate_config'' ''valid'' (ABool True) = Inr ()"
  "requireResponse sampleObjects ''health'' ''status'' (AString ''healthy'') = Inr ()" "ds_AdapterID sampleDescriptor = ''org.example''"
proof -
  have "wr_DecodeManifest sampleWire payload = Some sampleManifest" by (simp add: sampleWire_def)
  then show "DecodeManifest sampleWire payload = Inr sampleManifest" by (simp add: DecodeManifest_def sample_manifest_valid)
qed (simp_all add: validateSliceCapabilities_def sampleManifest_def ResolveConfig_def requireResponse_def sampleObjects_def entries_def
    sampleDescriptor_def)

lemma sample_session:
  "StartSession sampleWire sampleObjects sampleDescriptor sampleSource None (Inr (new_process (NewDiagnosticBuffer 0 0))) sampleAnswers (\<lambda>p. p)
     = (Inr (sampleManifest, ''1.0''), Some (SetDiagnosticSecrets [] (SetProtocolVersion ''1.0'' (new_process (NewDiagnosticBuffer 0 0)))))"
  by (simp add: StartSession_def session_checks_def configured_def Session_Health_def then_on_def coded_def sample_session_steps
      sample_negotiation sampleAnswers_def sampleSource_def entries_def)

theorem session_start_checked_witness: "mf_Capabilities sampleManifest = [''collect''] \<and> mf_ReadOnly sampleManifest"
  using session_start_checked [OF sample_session] by simp

end
