(* ===== verification/Adapter_Instances.thy ===== *)
theory Adapter_Instances
  imports Collection "HOL-Library.Log_Nat"
begin

text \<open>
  The table of adapter instances (\<open>adapters/repository.go\<close>) and the delay before a failed adapter is
  started again (\<open>adapters/policy.go\<close>).
\<close>

section \<open>The restart delay\<close>

definition RestartBaseDelay :: duration where
  "RestartBaseDelay = second"

definition RestartMaxDelay :: duration where
  "RestartMaxDelay = 60 * second"

definition HealthyReset :: duration where
  "HealthyReset = 5 * 60 * second"

text \<open>
  A finite \<open>float64\<close> is a pair \<open>(m, s)\<close> that stands for \<open>m / 2 ^ s\<close>; the constants are the doubles nearest to
  0.8 and 1.2.
\<close>

definition float_08 :: "int \<times> nat" where
  "float_08 = (7205759403792794, 53)"

definition float_12 :: "int \<times> nat" where
  "float_12 = (5404319552844595, 52)"

fun float_less :: "int \<times> nat \<Rightarrow> int \<times> nat \<Rightarrow> bool" where
  "float_less (m, s) (n, t) \<longleftrightarrow> m * 2 ^ t < n * 2 ^ s"

definition clamp_jitter :: "int \<times> nat \<Rightarrow> int \<times> nat" where
  "clamp_jitter j = (let j = (if float_less j float_08 then float_08 else j) in if float_less float_12 j then float_12 else j)"

text \<open>Rounding of a positive number to 53 bits, ties to even.\<close>

definition round53 :: "int \<Rightarrow> int" where
  "round53 n = (let k = nat (bitlen n - 53); q = n div 2 ^ k; r = n mod 2 ^ k
     in (if 2 ^ k < 2 * r \<or> 2 * r = 2 ^ k \<and> odd q then q + 1 else q) * 2 ^ k)"

text \<open>\<open>time.Duration(float64(delay) * jitter)\<close>; a delay below \<open>2 ^ 53\<close> is exact as a double.\<close>

definition scale_duration :: "duration \<Rightarrow> int \<times> nat \<Rightarrow> duration" where
  "scale_duration delay j = round53 (delay * fst j) div 2 ^ snd j"

fun double_delay :: "nat \<Rightarrow> duration \<Rightarrow> duration" where
  "double_delay 0 delay = delay"
| "double_delay (Suc n) delay =
     (if delay < RestartMaxDelay
      then double_delay n (if RestartMaxDelay < delay * 2 then RestartMaxDelay else delay * 2)
      else delay)"

definition RestartDelay :: "int \<Rightarrow> int \<times> nat \<Rightarrow> duration" where
  "RestartDelay failures jitter =
     (let failures = (if failures < 1 then 1 else failures)
      in scale_duration (double_delay (nat (failures - 1)) RestartBaseDelay) (clamp_jitter jitter))"

text \<open>The delay without jitter: doubled with every failure up to a minute.\<close>

definition backoff :: "int \<Rightarrow> duration" where
  "backoff n = min (2 ^ nat (n - 1) * second) (60 * second)"

lemma round53_between:
  assumes "0 < n" "N * 2 ^ s \<le> n" "n \<le> M * 2 ^ s" "M < 2 ^ 53"
  shows "N \<le> round53 n div 2 ^ s \<and> round53 n div 2 ^ s \<le> M"
proof -
  define k where "k = nat (bitlen n - 53)"
  define q where "q = n div 2 ^ k"
  define up where "up = (2 ^ k < 2 * (n mod 2 ^ k) \<or> 2 * (n mod 2 ^ k) = 2 ^ k \<and> odd q)"
  have r: "round53 n = (if up then q + 1 else q) * 2 ^ k" by (simp add: round53_def Let_def k_def q_def up_def)
  have "n < 2 ^ (53 + s)"
  proof -
    have "M * 2 ^ s < 2 ^ 53 * 2 ^ s" using assms(4) by (rule mult_strict_right_mono) simp
    then show ?thesis using assms(3) unfolding power_add by linarith
  qed
  then have "bitlen n \<le> int (53 + s)" using assms(1) by (simp add: bitlen_le_iff_power nat_add_distrib)
  then have ks: "k \<le> s" by (simp add: k_def)
  have split: "(2::int) ^ s = 2 ^ (s - k) * 2 ^ k" using ks by (metis le_add_diff_inverse2 power_add)
  have pos: "(0::int) < 2 ^ k" by simp
  have lower: "N * 2 ^ (s - k) \<le> q"
    unfolding q_def using zdiv_mono1 [OF assms(2), of "2 ^ k"] by (simp add: split mult.assoc)
  have n: "n = q * 2 ^ k + n mod 2 ^ k" unfolding q_def by (rule div_mult_mod_eq [symmetric])
  have q: "q \<le> M * 2 ^ (s - k)"
    unfolding q_def using zdiv_mono1 [OF assms(3), of "2 ^ k"] by (simp add: split mult.assoc)
  have upper: "(if up then q + 1 else q) \<le> M * 2 ^ (s - k)"
  proof (cases up)
    case True
    have "2 ^ k \<le> 2 * (n mod 2 ^ k)" using True by (auto simp: up_def)
    then have "0 < n mod 2 ^ k" using pos by linarith
    then have "q \<noteq> M * 2 ^ (s - k)" using n assms(3) by (auto simp: split mult.assoc)
    with q True show ?thesis by simp
  qed (simp add: q)
  have div_eq: "(x * 2 ^ k) div 2 ^ s = x div 2 ^ (s - k)" for x :: int
    by (simp add: split)
  have "N \<le> (if up then q + 1 else q) div 2 ^ (s - k)"
    using zdiv_mono1 [of "N * 2 ^ (s - k)" "if up then q + 1 else q" "2 ^ (s - k)"] lower by simp
  moreover have "(if up then q + 1 else q) div 2 ^ (s - k) \<le> M"
    using zdiv_mono1 [OF upper, of "2 ^ (s - k)"] by simp
  ultimately show ?thesis by (simp add: r div_eq)
qed

lemma clamp_jitter_range: "4 * 2 ^ snd (clamp_jitter j) \<le> 5 * fst (clamp_jitter j) \<and> 5 * fst (clamp_jitter j) \<le> 6 * 2 ^ snd (clamp_jitter j)"
proof (cases j)
  case (Pair m s)
  have low: "4 * 2 ^ s \<le> 5 * m" if "\<not> float_less (m, s) float_08"
  proof -
    have "3602879701896397 * 2 ^ s \<le> 4503599627370496 * m" using that by (simp add: float_08_def)
    moreover have "(0::int) \<le> 2 ^ s" by simp
    ultimately show ?thesis by linarith
  qed
  have high: "5 * m \<le> 6 * 2 ^ s" if "\<not> float_less float_12 (m, s)"
  proof -
    have "4503599627370496 * m \<le> 5404319552844595 * 2 ^ s" using that by (simp add: float_12_def)
    moreover have "(0::int) \<le> 2 ^ s" by simp
    ultimately show ?thesis by linarith
  qed
  show ?thesis using low high by (simp add: Pair clamp_jitter_def Let_def) (simp add: float_08_def float_12_def)
qed

lemma double_delay_min: "0 < d \<Longrightarrow> d \<le> RestartMaxDelay \<Longrightarrow> double_delay n d = min (2 ^ n * d) RestartMaxDelay"
proof (induction n arbitrary: d)
  case (Suc n)
  show ?case
  proof (cases "d < RestartMaxDelay")
    case True
    have "double_delay (Suc n) d = double_delay n (min (d * 2) RestartMaxDelay)" using True by (simp add: min_def)
    also have "\<dots> = min (2 ^ n * min (d * 2) RestartMaxDelay) RestartMaxDelay" using Suc True by simp
    also have "\<dots> = min (2 ^ Suc n * d) RestartMaxDelay"
    proof (cases "d * 2 \<le> RestartMaxDelay")
      case False
      have "RestartMaxDelay * 1 \<le> 2 ^ n * RestartMaxDelay" "1 * (d * 2) \<le> 2 ^ n * (d * 2)"
        using Suc.prems by (auto simp: RestartMaxDelay_def second_def)
      then show ?thesis using False by (simp add: min_def algebra_simps)
    qed (simp add: min_def algebra_simps)
    finally show ?thesis .
  next
    case False
    then have "d = RestartMaxDelay" using Suc.prems by simp
    moreover have "1 * RestartMaxDelay \<le> 2 ^ Suc n * RestartMaxDelay"
      by (rule mult_right_mono [OF one_le_power]) (simp_all add: RestartMaxDelay_def second_def)
    ultimately show ?thesis by (simp add: min_def)
  qed
qed simp

lemma RestartDelay_bounds:
  assumes "1 \<le> n"
  shows "4 * backoff n \<le> 5 * RestartDelay n jitter \<and> 5 * RestartDelay n jitter \<le> 6 * backoff n"
proof -
  obtain m s where j: "clamp_jitter jitter = (m, s)" by force
  have range: "4 * 2 ^ s \<le> 5 * m" "5 * m \<le> 6 * 2 ^ s" using clamp_jitter_range [of jitter] by (simp_all add: j)
  have b: "double_delay (nat (n - 1)) RestartBaseDelay = backoff n"
    by (subst double_delay_min) (simp_all add: RestartBaseDelay_def RestartMaxDelay_def second_def backoff_def)
  obtain c where c: "backoff n = 5 * c" "0 < c" "c \<le> 12 * second"
  proof
    show "backoff n = 5 * min (2 ^ nat (n - 1) * 200000000) (12 * second)" by (simp add: backoff_def second_def min_def)
  qed (simp_all add: second_def)
  have "0 < m" using range(1) zero_less_power [of "2::int" s] by linarith
  then have "0 < 5 * c * m" using c by simp
  moreover have "4 * c * 2 ^ s \<le> 5 * c * m" "5 * c * m \<le> 6 * c * 2 ^ s"
    using mult_left_mono [OF range(1), of c] mult_left_mono [OF range(2), of c] c(2) by (simp_all add: algebra_simps)
  moreover have "6 * c < 2 ^ 53" using c(3) by (simp add: second_def)
  ultimately have "4 * c \<le> round53 (5 * c * m) div 2 ^ s \<and> round53 (5 * c * m) div 2 ^ s \<le> 6 * c"
    by (rule round53_between)
  then show ?thesis using assms by (simp add: RestartDelay_def Let_def scale_duration_def b j c(1))
qed

section \<open>Instances\<close>

text \<open>\<open>json.Unmarshal\<close> of the columns of an integration.\<close>

record columns =
  dc_Config :: "string \<Rightarrow> any_map option"
  dc_References :: "string \<Rightarrow> (string \<times> string) list option"

definition zeroIntegration :: integration where
  "zeroIntegration = \<lparr> ig_ID = '''', ig_AdapterID = '''', ig_Interval = 0, ig_ConfigNonsecret = None, ig_SecretReferences = [] \<rparr>"

definition integration_of :: "string \<Rightarrow> tables \<Rightarrow> integration_row option" where
  "integration_of iid t = find (\<lambda>r. it_id r = uuid_param iid) (t_integrations t)"

definition instance_of :: "string \<Rightarrow> tables \<Rightarrow> instance_row option" where
  "instance_of iid t = find (\<lambda>r. an_integration_id r = uuid_param iid) (t_instances t)"

definition LoadIntegration :: "columns \<Rightarrow> string \<Rightarrow> (integration \<times> bool) tx" where
  "LoadIntegration dc iid =
     tx_bind (tx_query (integration_of iid)) (\<lambda>found. case found of
       None \<Rightarrow> tx_return (zeroIntegration, False)
     | Some r \<Rightarrow>
         let result = zeroIntegration\<lparr>ig_ID := it_id r, ig_AdapterID := it_adapter_id r\<rparr> in
         if \<not> it_enabled r then tx_return (result, False)
         else case dc_Config dc (it_config_nonsecret r) of
           None \<Rightarrow> tx_fail (ErrText ''decode nonsecret integration config'')
         | Some config \<Rightarrow> (case dc_References dc (it_secret_references r) of
             None \<Rightarrow> tx_fail (ErrText ''decode integration secret references'')
           | Some references \<Rightarrow> tx_return (result\<lparr>ig_Interval := it_interval_seconds r * second, ig_ConfigNonsecret := config,
               ig_SecretReferences := references\<rparr>, True)))"

definition ListEnabledIntegrationIDs :: "string list tx" where
  "ListEnabledIntegrationIDs = tx_query (\<lambda>t. sort (map it_id (filter it_enabled (t_integrations t))))"

definition text_of :: "string option \<Rightarrow> string" where
  "text_of v = (case v of None \<Rightarrow> '''' | Some s \<Rightarrow> s)"

definition scan_instance :: "instance_row \<Rightarrow> adapter_instance" where
  "scan_instance r = \<lparr> ai_IntegrationID = an_integration_id r, ai_AdapterVersion = an_adapter_version r,
     ai_ProtocolVersion = text_of (an_protocol_version r), ai_State = an_state r, ai_LastStartedAt = an_last_started_at r,
     ai_LastHealthyAt = an_last_healthy_at r, ai_LastStoppedAt = an_last_stopped_at r, ai_LastErrorAt = an_last_error_at r,
     ai_LastErrorCode = text_of (an_last_error_code r), ai_ConsecutiveFailures = an_consecutive_failures r,
     ai_NextRestartAt = an_next_restart_at r, ai_UpdatedAt = an_updated_at r \<rparr>"

definition LoadInstance :: "string \<Rightarrow> adapter_instance option tx" where
  "LoadInstance iid = tx_query (\<lambda>t. map_option scan_instance (instance_of iid t))"

definition starting_row :: "time \<Rightarrow> instance_row \<Rightarrow> instance_row" where
  "starting_row now r = r\<lparr>an_state := ''starting'', an_last_started_at := Some now, an_last_stopped_at := None, an_updated_at := now\<rparr>"

definition new_instance :: "string \<Rightarrow> string \<Rightarrow> time \<Rightarrow> instance_row" where
  "new_instance u iid now = \<lparr> an_id = u, an_integration_id = uuid_param iid, an_adapter_version = ''unknown'', an_protocol_version = None,
     an_state = ''starting'', an_last_started_at = Some now, an_last_healthy_at = None, an_last_stopped_at = None,
     an_last_error_at = None, an_last_error_code = None, an_consecutive_failures = 0, an_next_restart_at = None, an_updated_at = now \<rparr>"

definition update_instances :: "string \<Rightarrow> (instance_row \<Rightarrow> bool) \<Rightarrow> (instance_row \<Rightarrow> instance_row) \<Rightarrow> tables \<Rightarrow> nat \<times> tables" where
  "update_instances iid P f t =
     (let hit = (\<lambda>r. an_integration_id r = uuid_param iid \<and> P r)
      in (length (filter hit (t_instances t)), t\<lparr>t_instances := map (\<lambda>r. if hit r then f r else r) (t_instances t)\<rparr>))"

definition MarkStarting :: "string \<Rightarrow> time \<Rightarrow> unit tx" where
  "MarkStarting iid now =
     tx_bind (tx_insert (\<lambda>u c t.
       if \<not> list_ex (\<lambda>r. it_id r = uuid_param iid \<and> it_enabled r) (t_integrations t) then Inr (0, t)
       else if instance_of iid t \<noteq> None then Inr (update_instances iid (\<lambda>_. True) (starting_row (truncate_us now)) t)
       else if u \<in> an_id ` set (t_instances t) then Inl DbError
       else Inr (1, t\<lparr>t_instances := t_instances t @ [new_instance u iid (truncate_us now)]\<rparr>))) (\<lambda>n.
     if n \<noteq> 1 then tx_fail (RuntimeError ''integration_not_enabled'') else tx_return ())"

definition healthy_row :: "string \<Rightarrow> string \<Rightarrow> time \<Rightarrow> instance_row \<Rightarrow> instance_row" where
  "healthy_row adapterVersion protocolVersion now r = r\<lparr>an_adapter_version := adapterVersion,
     an_protocol_version := Some protocolVersion, an_state := ''healthy'', an_last_healthy_at := Some now, an_last_error_code := None,
     an_last_error_at := None, an_next_restart_at := None, an_updated_at := now\<rparr>"

definition MarkHealthy :: "string \<Rightarrow> string \<Rightarrow> string \<Rightarrow> time \<Rightarrow> unit tx" where
  "MarkHealthy iid adapterVersion protocolVersion now =
     tx_bind (tx_affect (update_instances iid (\<lambda>_. True) (healthy_row adapterVersion protocolVersion (truncate_us now)))) (\<lambda>n.
     if n \<noteq> 1 then tx_fail (RuntimeError ''integration_not_found'') else tx_return ())"

definition failed_row :: "string \<Rightarrow> time \<Rightarrow> int \<Rightarrow> time \<Rightarrow> instance_row \<Rightarrow> instance_row" where
  "failed_row code now failures nextRestart r = r\<lparr>an_state := ''unhealthy'', an_last_error_code := Some code,
     an_last_error_at := Some now, an_consecutive_failures := failures, an_next_restart_at := Some nextRestart, an_updated_at := now\<rparr>"

definition MarkFailed :: "string \<Rightarrow> string \<Rightarrow> time \<Rightarrow> int \<times> nat \<Rightarrow> adapter_instance tx" where
  "MarkFailed iid code now jitter =
     (if \<not> identifierPattern code then tx_fail (RuntimeError ''invalid_error_code'')
      else tx_bind (in_tx (
        tx_bind (tx_catch (tx_row (\<lambda>t. map_option an_consecutive_failures (instance_of iid t)))
            (\<lambda>e. tx_fail (if e = NoRows then RuntimeError ''integration_not_found'' else e))) (\<lambda>failures0.
        let failures = failures0 + 1; now1 = truncate_us now; nextRestart = truncate_us (now1 + RestartDelay failures jitter) in
        tx_bind (tx_affect (update_instances iid (\<lambda>_. True) (failed_row code now1 failures nextRestart))) (\<lambda>_.
        tx_return (Commit ()))))) (\<lambda>_.
      tx_bind (LoadInstance iid) (\<lambda>found. case found of
        None \<Rightarrow> tx_fail (RuntimeError ''integration_not_found'')
      | Some result \<Rightarrow> tx_return result)))"

definition reset_row :: "time \<Rightarrow> instance_row \<Rightarrow> instance_row" where
  "reset_row now r = r\<lparr>an_consecutive_failures := 0, an_next_restart_at := None, an_updated_at := now\<rparr>"

definition ResetFailures :: "string \<Rightarrow> time \<Rightarrow> unit tx" where
  "ResetFailures iid now =
     tx_bind (tx_affect (update_instances iid (\<lambda>r. an_state r = ''healthy'') (reset_row (truncate_us now)))) (\<lambda>n.
     if n \<noteq> 1 then tx_fail (RuntimeError ''invalid_instance_state'') else tx_return ())"

definition stopped_row :: "time \<Rightarrow> instance_row \<Rightarrow> instance_row" where
  "stopped_row now r = r\<lparr>an_state := ''stopped'', an_last_stopped_at := Some now, an_next_restart_at := None, an_updated_at := now\<rparr>"

definition MarkStopped :: "string \<Rightarrow> time \<Rightarrow> unit tx" where
  "MarkStopped iid now =
     tx_bind (tx_affect (update_instances iid (\<lambda>_. True) (stopped_row (truncate_us now)))) (\<lambda>n.
     if n \<noteq> 1 then tx_fail (RuntimeError ''integration_not_found'') else tx_return ())"

section \<open>What the operations do to the instance\<close>

lemma find_map_keep: "(\<And>x. P (f x) = P x) \<Longrightarrow> find P (map f xs) = map_option f (find P xs)"
  by (induction xs) auto

lemma instance_of_update:
  assumes "\<And>r. an_integration_id (f r) = an_integration_id r"
  shows "instance_of iid (snd (update_instances iid P f t)) = map_option (\<lambda>r. if P r then f r else r) (instance_of iid t)"
proof -
  let ?g = "\<lambda>r. if an_integration_id r = uuid_param iid \<and> P r then f r else r"
  have "instance_of iid (snd (update_instances iid P f t)) = map_option ?g (instance_of iid t)"
    unfolding instance_of_def update_instances_def Let_def by (simp add: find_map_keep assms)
  also have "\<dots> = map_option (\<lambda>r. if P r then f r else r) (instance_of iid t)"
  proof (cases "instance_of iid t")
    case (Some r)
    then have "an_integration_id r = uuid_param iid" by (auto simp: instance_of_def find_Some_iff)
    with Some show ?thesis by simp
  qed simp
  finally show ?thesis .
qed

lemma instance_of_cong: "t_instances t = t_instances t' \<Longrightarrow> instance_of iid t = instance_of iid t'"
  by (simp add: instance_of_def)

lemma row_identities [simp]:
  "an_integration_id (starting_row now r) = an_integration_id r" "an_integration_id (healthy_row v p now r) = an_integration_id r"
  "an_integration_id (failed_row code now n x r) = an_integration_id r" "an_integration_id (reset_row now r) = an_integration_id r"
  "an_integration_id (stopped_row now r) = an_integration_id r"
  by (simp_all add: starting_row_def healthy_row_def failed_row_def reset_row_def stopped_row_def)

lemma instance_of_append:
  "instance_of iid t = None \<Longrightarrow> instance_of iid (t\<lparr>t_instances := t_instances t @ [new_instance u iid now]\<rparr>) = Some (new_instance u iid now)"
proof -
  have "find P xs = None \<Longrightarrow> P y \<Longrightarrow> find P (xs @ [y]) = Some y" for P y and xs :: "instance_row list"
    by (induction xs) (auto split: if_splits)
  then show "instance_of iid t = None \<Longrightarrow> ?thesis" by (simp add: instance_of_def new_instance_def)
qed

text \<open>
  The count of failures is not negative, and the next restart lies as far from the failure as the number of failures asks for: four to six fifths
  of the doubled delay.
\<close>

definition restart_ok :: "time \<Rightarrow> instance_row option \<Rightarrow> bool" where
  "restart_ok now row = (case row of None \<Rightarrow> True | Some r \<Rightarrow> 0 \<le> an_consecutive_failures r \<and> (case an_next_restart_at r of None \<Rightarrow> True
     | Some target \<Rightarrow> (case an_last_error_at r of None \<Rightarrow> False | Some f \<Rightarrow> f \<le> now \<and> 1 \<le> an_consecutive_failures r
         \<and> 4 * backoff (an_consecutive_failures r) \<le> 5 * (target - f) \<and> 5 * (target - f) \<le> 6 * backoff (an_consecutive_failures r))))"

lemma restart_ok_later: "restart_ok now row \<Longrightarrow> now \<le> now' \<Longrightarrow> restart_ok now' row"
  by (auto simp: restart_ok_def split: option.splits)

lemma restart_ok_rows:
  "restart_ok now (Some r) \<Longrightarrow> restart_ok now (Some (starting_row x r))" "restart_ok now (Some r) \<Longrightarrow> restart_ok now (Some (healthy_row v p x r))"
  "restart_ok now (Some (reset_row x r))" "restart_ok now (Some r) \<Longrightarrow> restart_ok now (Some (stopped_row x r))" "restart_ok now (Some (new_instance u iid x))"
  by (auto simp: restart_ok_def starting_row_def healthy_row_def reset_row_def stopped_row_def new_instance_def split: option.splits)

lemma backoff_range: "second \<le> backoff n" "backoff n \<le> 60 * second"
proof -
  have "(1::int) * second \<le> 2 ^ nat (n - 1) * second" by (rule mult_right_mono [OF one_le_power]) (simp_all add: second_def)
  then show "second \<le> backoff n" by (simp add: backoff_def second_def)
qed (simp add: backoff_def)

lemma restart_ok_failed:
  assumes "1 \<le> n"
  shows "restart_ok now (Some (failed_row code (truncate_us now) n (truncate_us (truncate_us now + RestartDelay n jitter)) r))"
proof -
  let ?f = "truncate_us now" and ?d = "RestartDelay n jitter"
  let ?t = "truncate_us (?f + ?d)"
  have le: "truncate_us x \<le> x" "x - truncate_us x < microsecond" for x :: time
    by (simp_all add: truncate_us_def microsecond_def)
  obtain c where c: "backoff n = 5 * (microsecond * c)"
  proof
    show "backoff n = 5 * (microsecond * min (2 ^ nat (n - 1) * 200000) 12000000)"
      by (simp add: backoff_def second_def microsecond_def min_def)
  qed
  have d: "4 * backoff n \<le> 5 * ?d" "5 * ?d \<le> 6 * backoff n" using RestartDelay_bounds [OF assms] by auto
  have "?f + 4 * (microsecond * c) \<le> ?t"
  proof -
    have "?f + 4 * (microsecond * c) \<le> ?f + ?d" using d(1) c by simp
    moreover have "truncate_us (?f + 4 * (microsecond * c)) = ?f + 4 * (microsecond * c)"
      by (simp add: truncate_us_def microsecond_def)
    moreover have "x \<le> y \<Longrightarrow> truncate_us x \<le> truncate_us y" for x y
    proof -
      have "truncate_us x = microsecond * (x div microsecond)" for x :: time
        by (simp add: truncate_us_def minus_mod_eq_mult_div)
      moreover assume "x \<le> y"
      ultimately show ?thesis by (simp add: zdiv_mono1 microsecond_def)
    qed
    ultimately show ?thesis by metis
  qed
  moreover have "?t \<le> ?f + ?d" by (rule le)
  ultimately show ?thesis using assms d(2) c le(1) [of now] by (simp add: restart_ok_def failed_row_def)
qed

end
