(* ===== verification/Supervisor.thy ===== *)
theory Supervisor
  imports Adapter_Instances
begin

text \<open>
  The supervisor of an adapter (\<open>adapters/supervisor.go\<close>): one goroutine owns an integration, starts a
  session, watches it, records every change in the table of instances, and starts it again after a
  failure. \<open>Run\<close> is a transition system: a phase says where the goroutine stands, a step executes the
  code up to the next point where it waits. Waiting ends by a timer, the context, the process or the
  workload, whichever the environment moves first; time passes and other sessions work in between.

  The observer is an interface (\<open>LifecycleObserver\<close>, \<open>adapters/workload.go\<close>): the locale \<open>observer\<close> states
  what the supervisor relies on, and the life-cycle audit of \<open>Collection\<close> provides it.
\<close>

section \<open>The observer\<close>

record lifecycle_observer =
  ob_Starting :: "integration \<Rightarrow> time \<Rightarrow> unit tx"
  ob_Healthy :: "integration \<Rightarrow> adapter_instance \<Rightarrow> bool \<Rightarrow> time \<Rightarrow> unit tx"
  ob_Failed :: "integration \<Rightarrow> adapter_instance \<Rightarrow> time \<Rightarrow> unit tx"
  ob_Stopped :: "integration \<Rightarrow> time \<Rightarrow> unit tx"

definition lifecycle_audit :: "runtime \<Rightarrow> 8 word list option \<Rightarrow> lifecycle_observer" where
  "lifecycle_audit rt random = \<lparr> ob_Starting = Lifecycle_Starting rt random, ob_Healthy = Lifecycle_Healthy rt random,
     ob_Failed = Lifecycle_Failed rt random, ob_Stopped = Lifecycle_Stopped rt random \<rparr>"

text \<open>No observer: \<open>Observer == nil\<close>.\<close>

definition no_observer :: lifecycle_observer where
  "no_observer = \<lparr> ob_Starting = (\<lambda>_ _. tx_return ()), ob_Healthy = (\<lambda>_ _ _ _. tx_return ()), ob_Failed = (\<lambda>_ _ _. tx_return ()),
     ob_Stopped = (\<lambda>_ _. tx_return ()) \<rparr>"

section \<open>The loop\<close>

text \<open>
  \<open>Looping\<close>: the head of the loop. \<open>Resting\<close>: in \<open>waitUntil\<close>, with the instant its timer fires. \<open>Due\<close>: about to
  start. \<open>Launching\<close>: in \<open>StartSession\<close>. \<open>Serving\<close>: in the inner loop, with whether the reset timer is armed.
\<close>

datatype phase =
    Looping
  | Resting integration "adapter_instance option" time
  | Due integration "adapter_instance option"
  | Launching integration "adapter_instance option"
  | Serving integration bool
  | Ended "err + unit"

definition Canceled :: err where
  "Canceled = ErrText ''context canceled''"

definition runtimeCode :: "err option \<Rightarrow> string" where
  "runtimeCode e = (case Option.bind e safe_code of
       Some code \<Rightarrow> if identifierPattern code then code else ''internal_failure''
     | None \<Rightarrow> ''internal_failure'')"

definition phase_after :: "phase tx \<Rightarrow> world \<Rightarrow> phase \<times> world" where
  "phase_after m w = (case m w of (Inl e, w') \<Rightarrow> (Ended (Inl e), w') | (Inr ph, w') \<Rightarrow> (ph, w'))"

definition wait_phase :: "integration \<Rightarrow> adapter_instance option \<Rightarrow> time \<Rightarrow> phase" where
  "wait_phase ig inst now =
     (case Option.bind inst ai_NextRestartAt of
        None \<Rightarrow> Due ig inst
      | Some target \<Rightarrow> let delay = Sub target now in if delay \<le> 0 then Due ig inst else Resting ig inst (now + delay))"

definition sup_disabled :: "lifecycle_observer \<Rightarrow> integration \<Rightarrow> string \<Rightarrow> time \<Rightarrow> phase tx" where
  "sup_disabled ob ig iid now =
     tx_bind (LoadInstance iid) (\<lambda>inst.
     if inst \<noteq> None \<and> map_option ai_State inst \<noteq> Some ''stopped''
     then tx_bind (MarkStopped iid now) (\<lambda>_. tx_bind (ob_Stopped ob ig now) (\<lambda>_. tx_return (Ended (Inr ()))))
     else tx_return (Ended (Inr ())))"

definition sup_load :: "columns \<Rightarrow> registry \<Rightarrow> lifecycle_observer \<Rightarrow> string \<Rightarrow> time \<Rightarrow> phase tx" where
  "sup_load dc reg ob iid now =
     tx_bind (LoadIntegration dc iid) (\<lambda>(ig, enabled).
     if \<not> enabled then sup_disabled ob ig iid now
     else case Lookup reg (ig_AdapterID ig) of
       Inl code \<Rightarrow> tx_fail (RuntimeError code)
     | Inr _ \<Rightarrow> tx_bind (LoadInstance iid) (\<lambda>inst. tx_return (wait_phase ig inst now)))"

definition sup_begin :: "lifecycle_observer \<Rightarrow> integration \<Rightarrow> adapter_instance option \<Rightarrow> string \<Rightarrow> time \<Rightarrow> phase tx" where
  "sup_begin ob ig inst iid now =
     tx_bind (MarkStarting iid now) (\<lambda>_.
     tx_bind (ob_Starting ob ig now) (\<lambda>_.
     tx_return (Launching ig inst)))"

text \<open>Cancelled while it waits or serves: the instance is recorded as stopped, or the error is returned.\<close>

definition sup_stop :: "lifecycle_observer \<Rightarrow> integration \<Rightarrow> string \<Rightarrow> time \<Rightarrow> time \<Rightarrow> phase tx" where
  "sup_stop ob ig iid stoppedAt observedAt =
     tx_bind (MarkStopped iid stoppedAt) (\<lambda>_.
     tx_bind (ob_Stopped ob ig observedAt) (\<lambda>_.
     tx_return (Ended (Inl Canceled))))"

text \<open>Cancelled during the start: an error of recording it is dropped.\<close>

definition sup_abandon :: "lifecycle_observer \<Rightarrow> integration \<Rightarrow> string \<Rightarrow> time \<Rightarrow> phase tx" where
  "sup_abandon ob ig iid now =
     tx_bind (tx_try (tx_bind (MarkStopped iid now) (\<lambda>_. ob_Stopped ob ig now))) (\<lambda>_.
     tx_return (Ended (Inl Canceled)))"

definition sup_failed :: "lifecycle_observer \<Rightarrow> integration \<Rightarrow> string \<Rightarrow> err option \<Rightarrow> time \<Rightarrow> int \<times> nat \<Rightarrow> phase tx" where
  "sup_failed ob ig iid e now jitter =
     tx_bind (MarkFailed iid (runtimeCode e) now jitter) (\<lambda>failed.
     tx_bind (ob_Failed ob ig failed now) (\<lambda>_.
     tx_return Looping))"

definition was_failing :: "adapter_instance option \<Rightarrow> bool" where
  "was_failing inst = (case inst of None \<Rightarrow> False | Some i \<Rightarrow> ai_State i = ''unhealthy'' \<or> 0 < ai_ConsecutiveFailures i)"

definition zeroInstance :: adapter_instance where
  "zeroInstance = \<lparr> ai_IntegrationID = '''', ai_AdapterVersion = '''', ai_ProtocolVersion = '''', ai_State = '''', ai_LastStartedAt = None,
     ai_LastHealthyAt = None, ai_LastStoppedAt = None, ai_LastErrorAt = None, ai_LastErrorCode = '''', ai_ConsecutiveFailures = 0,
     ai_NextRestartAt = None, ai_UpdatedAt = 0 \<rparr>"

definition sup_started ::
  "lifecycle_observer \<Rightarrow> integration \<Rightarrow> adapter_instance option \<Rightarrow> string \<Rightarrow> manifest \<Rightarrow> string \<Rightarrow> time \<Rightarrow> phase tx" where
  "sup_started ob ig inst iid m version now =
     tx_bind (MarkHealthy iid (mf_AdapterVersion m) version now) (\<lambda>_.
     tx_bind (LoadInstance iid) (\<lambda>found.
     let healthy = (case found of None \<Rightarrow> zeroInstance | Some i \<Rightarrow> i) in
     tx_bind (ob_Healthy ob ig healthy (was_failing inst) now) (\<lambda>_.
     tx_return (Serving ig True))))"

definition sup_reset :: "integration \<Rightarrow> string \<Rightarrow> time \<Rightarrow> phase tx" where
  "sup_reset ig iid now = tx_bind (ResetFailures iid now) (\<lambda>_. tx_return (Serving ig False))"

text \<open>
  The steps of \<open>Run\<close> for one integration. A timer does not fire before its instant, and the clock does not
  run backwards. Other sessions leave the instance alone: there is one supervisor per integration.
\<close>

type_synonym supervised = "phase \<times> time \<times> world"

inductive sup_step :: "columns \<Rightarrow> registry \<Rightarrow> lifecycle_observer set \<Rightarrow> string \<Rightarrow> supervised \<Rightarrow> supervised \<Rightarrow> bool"
  for dc reg obs iid where
  time: "now \<le> now' \<Longrightarrow> sup_step dc reg obs iid (ph, now, w) (ph, now', w)"
| other: "instance_of iid (w_tables w') = instance_of iid (w_tables w) \<Longrightarrow> sup_step dc reg obs iid (ph, now, w) (ph, now, w')"
| load: "ob \<in> obs \<Longrightarrow> phase_after (sup_load dc reg ob iid now) w = (ph, w') \<Longrightarrow> sup_step dc reg obs iid (Looping, now, w) (ph, now, w')"
| timer: "wake \<le> now \<Longrightarrow> sup_step dc reg obs iid (Resting ig inst wake, now, w) (Due ig inst, now, w)"
| rest_cancelled: "ob \<in> obs \<Longrightarrow> phase_after (sup_stop ob ig iid now now) w = (ph, w')
    \<Longrightarrow> sup_step dc reg obs iid (Resting ig inst wake, now, w) (ph, now, w')"
| begin_start: "ob \<in> obs \<Longrightarrow> phase_after (sup_begin ob ig inst iid now) w = (ph, w')
    \<Longrightarrow> sup_step dc reg obs iid (Due ig inst, now, w) (ph, now, w')"
| start_cancelled: "ob \<in> obs \<Longrightarrow> phase_after (sup_abandon ob ig iid now) w = (ph, w')
    \<Longrightarrow> sup_step dc reg obs iid (Launching ig inst, now, w) (ph, now, w')"
| start_failed: "ob \<in> obs \<Longrightarrow> phase_after (sup_failed ob ig iid (Some e) now jitter) w = (ph, w')
    \<Longrightarrow> sup_step dc reg obs iid (Launching ig inst, now, w) (ph, now, w')"
| started: "ob \<in> obs \<Longrightarrow> phase_after (sup_started ob ig inst iid m version now) w = (ph, w')
    \<Longrightarrow> sup_step dc reg obs iid (Launching ig inst, now, w) (ph, now, w')"
| serve_cancelled: "ob \<in> obs \<Longrightarrow> now \<le> now' \<Longrightarrow> phase_after (sup_stop ob ig iid now now') w = (ph, w')
    \<Longrightarrow> sup_step dc reg obs iid (Serving ig armed, now, w) (ph, now', w')"
| serve_failed: "ob \<in> obs \<Longrightarrow> phase_after (sup_failed ob ig iid e now jitter) w = (ph, w')
    \<Longrightarrow> sup_step dc reg obs iid (Serving ig armed, now, w) (ph, now, w')"
| reset: "phase_after (sup_reset ig iid now) w = (ph, w') \<Longrightarrow> sup_step dc reg obs iid (Serving ig True, now, w) (ph, now, w')"

section \<open>The interface to the observer\<close>

locale observer =
  fixes ob :: lifecycle_observer
  assumes starting: "keeps t_instances (ob_Starting ob ig moment)"
    and healthy: "keeps t_instances (ob_Healthy ob ig inst recovered moment)"
    and failed: "keeps t_instances (ob_Failed ob ig inst moment)"
    and stopped: "keeps t_instances (ob_Stopped ob ig moment)"

lemma keeps_lifecycle_record: "keeps t_instances (lifecycle_record rt random ig action st summary moment)"
  unfolding lifecycle_record_def by (intro frame_intros audit_Append_only_audit) simp

interpretation audit_observer: observer "lifecycle_audit rt random" for rt random
  by unfold_locales (simp_all add: lifecycle_audit_def Lifecycle_Starting_def Lifecycle_Healthy_def Lifecycle_Failed_def
      Lifecycle_Stopped_def keeps_lifecycle_record)

interpretation nil_observer: observer no_observer
  by unfold_locales (auto simp: no_observer_def intro: frame_intros)

abbreviation row_of :: "string \<Rightarrow> world \<Rightarrow> instance_row option" where
  "row_of iid (w :: world) \<equiv> instance_of iid (w_tables w)"

definition schedule_ok :: "string \<Rightarrow> time \<Rightarrow> tables \<Rightarrow> bool" where
  "schedule_ok iid now t = restart_ok now (instance_of iid t)"

lemma schedule_ok_update:
  assumes "\<And>r. an_integration_id (f r) = an_integration_id r" "\<And>r. restart_ok now (Some r) \<Longrightarrow> restart_ok now (Some (f r))"
  shows "schedule_ok iid now t \<longrightarrow> schedule_ok iid now (snd (update_instances iid P f t))"
  by (cases "instance_of iid t") (simp_all add: schedule_ok_def instance_of_update [OF assms(1)] assms(2))

lemma preserves_schedule_marks:
  "preserves (schedule_ok iid now) (MarkStarting iid x)" "preserves (schedule_ok iid now) (MarkHealthy iid v p x)"
  "preserves (schedule_ok iid now) (ResetFailures iid x)" "preserves (schedule_ok iid now) (MarkStopped iid x)"
proof -
  show "preserves (schedule_ok iid now) (MarkHealthy iid v p x)" "preserves (schedule_ok iid now) (ResetFailures iid x)"
    "preserves (schedule_ok iid now) (MarkStopped iid x)"
    unfolding MarkHealthy_def ResetFailures_def MarkStopped_def
    by (intro preserves_intros schedule_ok_update; simp add: restart_ok_rows)+
  have upd: "schedule_ok iid now t \<Longrightarrow> schedule_ok iid now t'" if "update_instances iid (\<lambda>_. True) (starting_row y) t = (n, t')" for t y n t'
    using schedule_ok_update [of "starting_row y" now iid t "\<lambda>_. True"] that by (simp add: restart_ok_rows)
  have new: "schedule_ok iid now (t\<lparr>t_instances := t_instances t @ [new_instance u iid y]\<rparr>)" if "instance_of iid t = None" for t u y
    using that by (simp add: schedule_ok_def instance_of_append restart_ok_rows)
  show "preserves (schedule_ok iid now) (MarkStarting iid x)"
    unfolding MarkStarting_def
    by (intro preserves_intros) (auto split: if_splits simp: new intro: upd)
qed

lemma MarkFailed_cases:
  assumes "MarkFailed iid code now jitter w = (res, w')"
  obtains (same) "row_of iid w' = row_of iid w" "\<And>i. res \<noteq> Inr i"
  | (failed) r where "row_of iid w = Some r" "row_of iid w' = Some (failed_row code (truncate_us now) (an_consecutive_failures r + 1)
      (truncate_us (truncate_us now + RestartDelay (an_consecutive_failures r + 1) jitter)) r)"
proof (cases "identifierPattern code")
  case False
  with assms have "row_of iid w' = row_of iid w" "res = Inl (RuntimeError ''invalid_error_code'')"
    by (auto simp: MarkFailed_def simp del: identifierPattern.simps)
  then show thesis by (intro same) simp_all
next
  case True
  define body where "body = tx_bind (tx_catch (tx_row (\<lambda>t. map_option an_consecutive_failures (instance_of iid t)))
      (\<lambda>e. tx_fail (if e = NoRows then RuntimeError ''integration_not_found'' else e))) (\<lambda>failures0.
    let failures = failures0 + 1; now1 = truncate_us now; nextRestart = truncate_us (now1 + RestartDelay failures jitter) in
    tx_bind (tx_affect (update_instances iid (\<lambda>_. True) (failed_row code now1 failures nextRestart))) (\<lambda>_. tx_return (Commit ())))"
  obtain q w1 where run: "in_tx body w = (q, w1)" by force
  have rest: "(case q of Inl e \<Rightarrow> (Inl e, w1) | Inr _ \<Rightarrow> tx_bind (LoadInstance iid) (\<lambda>found. case found of
        None \<Rightarrow> tx_fail (RuntimeError ''integration_not_found'') | Some result \<Rightarrow> tx_return result) w1) = (res, w')"
    using assms True run unfolding MarkFailed_def body_def [symmetric] by (simp add: tx_bind_def split: sum.splits)
  show thesis
  proof (cases q)
    case (Inl e)
    with rest in_tx_atomic [OF run [unfolded Inl]] show thesis by (intro same) auto
  next
    case (Inr u)
    have "keeps t_instances (tx_bind (LoadInstance iid) (\<lambda>found. case found of
        None \<Rightarrow> tx_fail (RuntimeError ''integration_not_found'') | Some result \<Rightarrow> tx_return result))"
      unfolding LoadInstance_def by (intro frame_intros)
    from keepsD [OF this] rest Inr have "t_instances (w_tables w') = t_instances (w_tables w1)" by simp
    then have later: "row_of iid w' = row_of iid w1" by (rule instance_of_cong)
    from run Inr obtain w2 where "body (tick w) = (Inr (Commit ()), w2) \<and> w1 = tick w2"
      by (auto simp: in_tx_Inr body_def Let_def tx_success)
    then obtain r where "row_of iid w = Some r" "row_of iid w1 = Some (failed_row code (truncate_us now) (an_consecutive_failures r + 1)
        (truncate_us (truncate_us now + RestartDelay (an_consecutive_failures r + 1) jitter)) r)"
      unfolding body_def by (auto simp: Let_def tx_bind_Inr tx_affect_Inr instance_of_update tx_catch_def tx_row_def tx_stmt_def
        split: prod.splits sum.splits if_splits option.splits)
    with later show thesis by (intro failed) simp_all
  qed
qed

lemma preserves_schedule_failed: "preserves (schedule_ok iid now) (MarkFailed iid code now jitter)"
  unfolding preserves_def
proof (rule alwaysI, rule impI)
  fix w :: world assume ok: "schedule_ok iid now (w_tables w)"
  obtain res w' where run: "MarkFailed iid code now jitter w = (res, w')" by force
  from run have "schedule_ok iid now (w_tables w')"
  proof (cases rule: MarkFailed_cases)
    case same
    with ok show ?thesis by (simp add: schedule_ok_def)
  next
    case (failed r)
    have "0 \<le> an_consecutive_failures r" using ok failed(1) by (auto simp: schedule_ok_def restart_ok_def)
    then show ?thesis using restart_ok_failed by (simp add: schedule_ok_def failed(2))
  qed
  with run show "schedule_ok iid now (w_tables (snd (MarkFailed iid code now jitter w)))" by simp
qed

context observer
begin

lemma preserves_schedule:
  "preserves (schedule_ok iid now) (ob_Starting ob ig moment)" "preserves (schedule_ok iid now) (ob_Healthy ob ig inst recovered moment)"
  "preserves (schedule_ok iid now) (ob_Failed ob ig inst moment)" "preserves (schedule_ok iid now) (ob_Stopped ob ig moment)"
proof -
  have "preserves (schedule_ok iid now) m" if "keeps t_instances m" for m :: "unit tx"
  proof (rule preserves_of_keeps [OF _ that])
    fix a b :: tables assume "t_instances a = t_instances b"
    then have "instance_of iid a = instance_of iid b" by (rule instance_of_cong)
    then show "schedule_ok iid now a = schedule_ok iid now b" by (simp add: schedule_ok_def)
  qed
  then show "preserves (schedule_ok iid now) (ob_Starting ob ig moment)" "preserves (schedule_ok iid now) (ob_Healthy ob ig inst recovered moment)"
    "preserves (schedule_ok iid now) (ob_Failed ob ig inst moment)" "preserves (schedule_ok iid now) (ob_Stopped ob ig moment)"
    by (simp_all add: starting healthy failed stopped)
qed

end

section \<open>The invariant\<close>

text \<open>
  What the instance shows of the phase: the timer of a rest is not earlier than the recorded restart,
  a start is due, an adapter that is being started is recorded as starting, one that is served as
  healthy, and the end for a disabled integration leaves no instance that is not stopped.
\<close>

definition not_before :: "instance_row option \<Rightarrow> time \<Rightarrow> bool" where
  "not_before row x = (case Option.bind row an_next_restart_at of None \<Rightarrow> True | Some target \<Rightarrow> target \<le> x)"

definition shows_phase :: "phase \<Rightarrow> time \<Rightarrow> instance_row option \<Rightarrow> bool" where
  "shows_phase ph now row = (case ph of
       Resting ig inst wake \<Rightarrow> not_before row wake
     | Due ig inst \<Rightarrow> not_before row now
     | Launching ig inst \<Rightarrow> map_option an_state row = Some ''starting''
     | Serving ig armed \<Rightarrow> map_option an_state row = Some ''healthy'' \<and> Option.bind row an_next_restart_at = None
     | Ended (Inr _) \<Rightarrow> row = None \<or> map_option an_state row = Some ''stopped''
     | _ \<Rightarrow> True)"

lemma phase_after_cases:
  assumes "phase_after m w = (ph, w')"
  obtains (err) e where "ph = Ended (Inl e)" "m w = (Inl e, w')" | (ok) "m w = (Inr ph, w')"
  using assms by (auto simp: phase_after_def split: prod.splits sum.splits)

lemma phase_after_schedule:
  assumes "preserves (schedule_ok iid now) m" "phase_after m w = (ph, w')" "schedule_ok iid now (w_tables w)"
  shows "schedule_ok iid now (w_tables w')"
  using assms(2) by (cases rule: phase_after_cases) (auto dest: preservesD [OF assms(1) _ assms(3)])

lemma wait_phase_shows:
  assumes "restart_ok now row"
  shows "shows_phase (wait_phase ig (map_option scan_instance row) now) now row"
proof -
  have "target \<le> now + Sub target now" if row: "row = Some r" "an_next_restart_at r = Some target" for r target
  proof -
    obtain f where "f \<le> now" "5 * (target - f) \<le> 6 * backoff (an_consecutive_failures r)"
      using assms row by (auto simp: restart_ok_def split: option.splits)
    moreover note backoff_range(2) [of "an_consecutive_failures r"]
    ultimately have "target - now < 2 ^ 63" by (simp add: second_def)
    then show ?thesis by (simp add: Sub_def)
  qed
  then show ?thesis
    by (cases row) (fastforce simp: wait_phase_def scan_instance_def shows_phase_def not_before_def Let_def split: option.splits)+
qed

lemma LoadInstance_Inr: "LoadInstance iid w = (Inr inst, w') \<longleftrightarrow> \<not> faulty w \<and> inst = map_option scan_instance (row_of iid w) \<and> w' = tick w"
  by (auto simp: LoadInstance_def tx_query_Inr)

lemma MarkStopped_Inr:
  assumes "MarkStopped iid now w = (Inr u, w')"
  shows "map_option an_state (row_of iid w') = Some ''stopped'' \<or> row_of iid w' = None"
  using assms by (cases "row_of iid w")
    (auto simp: MarkStopped_def tx_bind_Inr tx_affect_Inr instance_of_update stopped_row_def split: if_splits)

lemma update_found: "fst (update_instances iid P f t) = 1 \<Longrightarrow> instance_of iid t \<noteq> None"
proof -
  assume "fst (update_instances iid P f t) = 1"
  then have "filter (\<lambda>r. an_integration_id r = uuid_param iid \<and> P r) (t_instances t) \<noteq> []"
    by (auto simp: update_instances_def Let_def)
  then show ?thesis by (auto simp: instance_of_def find_None_iff filter_empty_conv)
qed

lemma MarkStarting_Inr:
  assumes "MarkStarting iid now w = (Inr u, w')"
  shows "map_option an_state (row_of iid w') = Some ''starting''"
proof (cases "row_of iid w")
  case None
  with assms obtain v where "row_of iid w' = Some (new_instance v iid (truncate_us now))"
    by (auto simp: MarkStarting_def tx_bind_Inr tx_insert_Inr instance_of_append split: if_splits)
  then show ?thesis by (simp add: new_instance_def)
next
  case (Some r)
  with assms obtain t where "update_instances iid (\<lambda>_. True) (starting_row (truncate_us now)) (w_tables w) = (1, t)" "w_tables w' = t"
    by (auto simp: MarkStarting_def tx_bind_Inr tx_insert_Inr split: if_splits)
  with Some instance_of_update [of "starting_row (truncate_us now)" iid "\<lambda>_. True" "w_tables w"] show ?thesis
    by (simp add: starting_row_def)
qed

lemma MarkHealthy_Inr:
  assumes "MarkHealthy iid v p now w = (Inr u, w')"
  shows "\<exists>r. row_of iid w' = Some r \<and> an_state r = ''healthy'' \<and> an_next_restart_at r = None"
proof -
  have upd: "fst (update_instances iid (\<lambda>_. True) (healthy_row v p (truncate_us now)) (w_tables w)) = 1"
    "w_tables w' = snd (update_instances iid (\<lambda>_. True) (healthy_row v p (truncate_us now)) (w_tables w))"
    using assms by (auto simp: MarkHealthy_def tx_bind_Inr tx_affect_Inr split: if_splits)
  obtain r where "row_of iid w = Some r" using update_found [OF upd(1)] by auto
  then show ?thesis by (simp add: upd(2) instance_of_update healthy_row_def)
qed

lemma ResetFailures_Inr:
  assumes "ResetFailures iid now w = (Inr u, w')" "row_of iid w = Some r"
  shows "\<exists>r'. row_of iid w' = Some r' \<and> an_state r' = an_state r \<and> (an_next_restart_at r = None \<longrightarrow> an_next_restart_at r' = None)"
  using assms by (auto simp: ResetFailures_def tx_bind_Inr tx_affect_Inr instance_of_update reset_row_def split: if_splits)

lemma instance_kept: "keeps t_instances m \<Longrightarrow> m w = (x, w') \<Longrightarrow> row_of iid w' = row_of iid w"
  by (rule instance_of_cong) (rule keepsD)

lemma keeps_loads: "keeps t_instances (LoadIntegration dc iid)" "keeps t_instances (LoadInstance iid)"
  unfolding LoadIntegration_def LoadInstance_def Let_def by (intro frame_intros)+

context observer
begin

lemma sup_load_shows:
  assumes "sup_load dc reg ob iid now w = (Inr ph, w')" and ok: "schedule_ok iid now (w_tables w)"
  shows "shows_phase ph now (row_of iid w')"
proof -
  obtain ig enabled w1 where load: "LoadIntegration dc iid w = (Inr (ig, enabled), w1)"
    and rest: "(if \<not> enabled then sup_disabled ob ig iid now
     else case Lookup reg (ig_AdapterID ig) of Inl code \<Rightarrow> tx_fail (RuntimeError code)
     | Inr _ \<Rightarrow> tx_bind (LoadInstance iid) (\<lambda>inst. tx_return (wait_phase ig inst now))) w1 = (Inr ph, w')"
    using assms(1) by (auto simp: sup_load_def tx_bind_Inr)
  have row: "row_of iid w1 = row_of iid w" by (rule instance_kept [OF keeps_loads(1) load])
  show ?thesis
  proof (cases enabled)
    case True
    with rest have "ph = wait_phase ig (map_option scan_instance (row_of iid w)) now" "row_of iid w' = row_of iid w"
      by (auto simp: tx_bind_Inr LoadInstance_Inr row split: sum.splits)
    then show ?thesis using wait_phase_shows ok by (simp add: schedule_ok_def)
  next
    case False
    with rest have run: "sup_disabled ob ig iid now w1 = (Inr ph, w')" by simp
    then consider w2 w3 u where "MarkStopped iid now w2 = (Inr u, w3)" "ob_Stopped ob ig now w3 = (Inr (), w')" "ph = Ended (Inr ())"
      | "row_of iid w' = row_of iid w1" "ph = Ended (Inr ())" "row_of iid w1 = None \<or> map_option an_state (row_of iid w1) = Some ''stopped''"
      unfolding sup_disabled_def
      by (cases "row_of iid w1") (auto simp: tx_bind_Inr LoadInstance_Inr scan_instance_def split: if_splits)
    then show ?thesis
    proof cases
      case 1
      have "row_of iid w' = row_of iid w3" by (rule instance_kept [OF stopped 1(2)])
      with MarkStopped_Inr [OF 1(1)] 1(3) show ?thesis by (auto simp: shows_phase_def)
    next
      case 2
      then show ?thesis by (auto simp: shows_phase_def)
    qed
  qed
qed

lemma sup_begin_shows: "sup_begin ob ig inst iid now w = (Inr ph, w') \<Longrightarrow> shows_phase ph now (row_of iid w')"
  by (auto simp: sup_begin_def tx_bind_Inr shows_phase_def instance_kept [OF starting] dest!: MarkStarting_Inr)

lemma sup_started_shows:
  assumes "sup_started ob ig inst iid m version now w = (Inr ph, w')"
  shows "shows_phase ph now (row_of iid w')"
proof -
  obtain w1 u i where mark: "MarkHealthy iid (mf_AdapterVersion m) version now w = (Inr u, w1)"
    and tell: "ob_Healthy ob ig i (was_failing inst) now (tick w1) = (Inr (), w')" and ph: "ph = Serving ig True"
    using assms by (auto simp: sup_started_def tx_bind_Inr LoadInstance_Inr Let_def)
  have "row_of iid w' = row_of iid w1" using instance_kept [OF healthy tell, of iid] by simp
  with MarkHealthy_Inr [OF mark] ph show ?thesis by (auto simp: shows_phase_def)
qed

lemma preserves_schedule_sup:
  "preserves (schedule_ok iid now) (sup_load dc reg ob iid now)" "preserves (schedule_ok iid now) (sup_begin ob ig inst iid now)"
  "preserves (schedule_ok iid now) (sup_stop ob ig iid now x)" "preserves (schedule_ok iid now) (sup_abandon ob ig iid now)"
  "preserves (schedule_ok iid now) (sup_failed ob ig iid e now jitter)" "preserves (schedule_ok iid now) (sup_started ob ig inst iid m version now)"
  "preserves (schedule_ok iid now) (sup_reset ig iid now)"
  unfolding sup_load_def sup_disabled_def sup_begin_def sup_stop_def sup_abandon_def sup_failed_def sup_started_def sup_reset_def
    LoadIntegration_def LoadInstance_def Let_def
  by (intro preserves_intros preserves_schedule_marks preserves_schedule_failed preserves_schedule)+

lemmas after_schedule = preserves_schedule_sup [THEN phase_after_schedule]

end

section \<open>Along every run\<close>

definition observers :: "runtime \<Rightarrow> lifecycle_observer set" where
  "observers rt = insert no_observer (range (lifecycle_audit rt))"

lemma observers_comply: "ob \<in> observers rt \<Longrightarrow> observer ob"
  by (auto simp: observers_def audit_observer.observer_axioms nil_observer.observer_axioms)

fun sup_inv :: "string \<Rightarrow> supervised \<Rightarrow> bool" where
  "sup_inv iid (ph, now, w) \<longleftrightarrow> schedule_ok iid now (w_tables w) \<and> shows_phase ph now (row_of iid w)"

lemma shows_later: "shows_phase ph now row \<Longrightarrow> now \<le> now' \<Longrightarrow> shows_phase ph now' row"
  by (auto simp: shows_phase_def not_before_def split: phase.splits option.splits sum.splits)

lemma shows_ended [simp]: "shows_phase (Ended (Inl e)) now row" "shows_phase Looping now row"
  by (simp_all add: shows_phase_def)

lemma sup_inv_after:
  assumes "phase_after m w = (ph, w')" "schedule_ok iid now (w_tables w')"
    "\<And>ph w'. m w = (Inr ph, w') \<Longrightarrow> shows_phase ph now (row_of iid w')"
  shows "sup_inv iid (ph, now, w')"
  using assms(1) by (cases rule: phase_after_cases) (simp_all add: assms(2,3))

lemma sup_step_inv: "sup_step dc reg (observers rt) iid s t \<Longrightarrow> sup_inv iid s \<Longrightarrow> sup_inv iid t"
proof (induction rule: sup_step.induct)
  case (time now now' ph w)
  then show ?case by (auto simp: schedule_ok_def intro: restart_ok_later shows_later)
next
  case (other w' w ph now)
  then show ?case by (simp add: schedule_ok_def)
next
  case (load ob now w ph w')
  note comply = observers_comply [OF load(1)]
  show ?case
    by (rule sup_inv_after [OF load(2) observer.after_schedule(1) [OF comply load(2)]]) (use load in \<open>auto intro: observer.sup_load_shows [OF comply]\<close>)
next
  case (timer wake now ig inst w)
  then show ?case by (auto simp: shows_phase_def not_before_def split: option.splits)
next
  case (rest_cancelled ob ig now w ph w' inst wake)
  note comply = observers_comply [OF rest_cancelled(1)]
  show ?case
    by (rule sup_inv_after [OF rest_cancelled(2) observer.after_schedule(3) [OF comply rest_cancelled(2)]])
      (use rest_cancelled in \<open>auto simp: sup_stop_def tx_bind_Inr\<close>)
next
  case (begin_start ob ig inst now w ph w')
  note comply = observers_comply [OF begin_start(1)]
  show ?case
    by (rule sup_inv_after [OF begin_start(2) observer.after_schedule(2) [OF comply begin_start(2)]])
      (use begin_start in \<open>auto intro: observer.sup_begin_shows [OF comply]\<close>)
next
  case (start_cancelled ob ig now w ph w' inst)
  note comply = observers_comply [OF start_cancelled(1)]
  show ?case
    by (rule sup_inv_after [OF start_cancelled(2) observer.after_schedule(4) [OF comply start_cancelled(2)]])
      (use start_cancelled in \<open>auto simp: sup_abandon_def tx_bind_Inr\<close>)
next
  case (start_failed ob ig e now jitter w ph w' inst)
  note comply = observers_comply [OF start_failed(1)]
  show ?case
    by (rule sup_inv_after [OF start_failed(2) observer.after_schedule(5) [OF comply start_failed(2)]])
      (use start_failed in \<open>auto simp: sup_failed_def tx_bind_Inr\<close>)
next
  case (started ob ig inst m version now w ph w')
  note comply = observers_comply [OF started(1)]
  show ?case
    by (rule sup_inv_after [OF started(2) observer.after_schedule(6) [OF comply started(2)]])
      (use started in \<open>auto intro: observer.sup_started_shows [OF comply]\<close>)
next
  case (serve_cancelled ob now now' ig w ph w' armed)
  note comply = observers_comply [OF serve_cancelled(1)]
  have "sup_inv iid (ph, now, w')"
    by (rule sup_inv_after [OF serve_cancelled(3) observer.after_schedule(3) [OF comply serve_cancelled(3)]])
      (use serve_cancelled in \<open>auto simp: sup_stop_def tx_bind_Inr\<close>)
  then show ?case using serve_cancelled(2) by (auto simp: schedule_ok_def intro: restart_ok_later shows_later)
next
  case (serve_failed ob ig e now jitter w ph w' armed)
  note comply = observers_comply [OF serve_failed(1)]
  show ?case
    by (rule sup_inv_after [OF serve_failed(2) observer.after_schedule(5) [OF comply serve_failed(2)]])
      (use serve_failed in \<open>auto simp: sup_failed_def tx_bind_Inr\<close>)
next
  case (reset ig now w ph w')
  have ok: "schedule_ok iid now (w_tables w')"
    by (rule observer.after_schedule(7) [OF nil_observer.observer_axioms reset(1)]) (use reset in simp)
  obtain r where row: "row_of iid w = Some r" "an_state r = ''healthy''" "an_next_restart_at r = None"
    using reset(2) by (auto simp: shows_phase_def)
  show ?case
    by (rule sup_inv_after [OF reset(1) ok]) (auto simp: sup_reset_def tx_bind_Inr shows_phase_def row dest!: ResetFailures_Inr [OF _ row(1)])
qed

lemma sup_run_inv:
  assumes "(sup_step dc reg (observers rt) iid)\<^sup>*\<^sup>* (Looping, start, w0) s" "restart_ok start (row_of iid w0)"
  shows "sup_inv iid s"
  using assms(1)
proof (induction rule: rtranclp_induct)
  case base
  show ?case using assms(2) by (simp add: schedule_ok_def)
qed (rule sup_step_inv)

inductive_cases to_launch: "sup_step dc reg obs iid (ph, now, w) (Launching ig inst, now', w')"

lemma load_no_launch: "sup_load dc reg ob iid now w \<noteq> (Inr (Launching ig inst), w')"
proof
  assume "sup_load dc reg ob iid now w = (Inr (Launching ig inst), w')"
  then obtain ig0 enabled w1 where rest: "(if \<not> enabled then sup_disabled ob ig0 iid now
     else case Lookup reg (ig_AdapterID ig0) of Inl code \<Rightarrow> tx_fail (RuntimeError code)
     | Inr _ \<Rightarrow> tx_bind (LoadInstance iid) (\<lambda>inst. tx_return (wait_phase ig0 inst now))) w1 = (Inr (Launching ig inst), w')"
    by (auto simp: sup_load_def tx_bind_Inr)
  show False
  proof (cases enabled)
    case True
    with rest show False
      by (cases "Lookup reg (ig_AdapterID ig0)") (auto simp: tx_bind_Inr wait_phase_def Let_def split: option.splits if_splits)
  qed (use rest in \<open>auto simp: sup_disabled_def tx_bind_Inr split: if_splits\<close>)
qed

lemma launch_from_due:
  assumes "sup_step dc reg obs iid (ph, now, w) (Launching ig inst, now', w')" "ph \<noteq> Launching ig inst"
  shows "ph = Due ig inst"
  using assms(1)
proof (rule to_launch)
qed (use assms(2) load_no_launch in \<open>auto simp: phase_after_def sup_stop_def sup_begin_def sup_abandon_def
    sup_failed_def sup_started_def sup_reset_def tx_bind_Inr Let_def split: prod.splits sum.splits if_splits option.splits\<close>)

text \<open>
  C24. A failed adapter is not started before its back-off has passed: whenever the supervisor begins a
  start while a restart is scheduled, the scheduled instant has come, and since the failure at least
  four fifths of the delay that belongs to the number of failures in a row have passed: one second,
  doubled with every further failure, a minute at most. This holds along every run, under every
  failure of the database.
\<close>

theorem restart_respects_backoff:
  assumes run: "(sup_step dc reg (observers rt) iid)\<^sup>*\<^sup>* (Looping, start, w0) (ph, now, w)"
    and start: "restart_ok start (instance_of iid (w_tables w0))"
    and step: "sup_step dc reg (observers rt) iid (ph, now, w) (Launching ig inst, now', w')" "ph \<noteq> Launching ig inst"
    and scheduled: "instance_of iid (w_tables w) = Some r" "an_next_restart_at r = Some target"
  shows "target \<le> now \<and> (\<exists>f. an_last_error_at r = Some f \<and> 4 * backoff (an_consecutive_failures r) \<le> 5 * (now - f))"
proof -
  have "ph = Due ig inst" by (rule launch_from_due [OF step])
  with sup_run_inv [OF run start] have "restart_ok now (Some r)" "not_before (Some r) now"
    by (simp_all add: schedule_ok_def shows_phase_def scheduled(1))
  then show ?thesis by (auto simp: restart_ok_def not_before_def scheduled(2) split: option.splits)
qed

text \<open>
  The table of instances shows what the supervisor does: along every run an adapter that is being
  started is recorded as starting, one that is served as healthy and without a scheduled restart, and
  a run that ends because the integration is disabled leaves no instance that is not stopped.
\<close>

theorem instance_shows_supervisor:
  assumes "(sup_step dc reg (observers rt) iid)\<^sup>*\<^sup>* (Looping, start, w0) (ph, now, w)"
    and "restart_ok start (instance_of iid (w_tables w0))"
  shows "case ph of
      Launching ig inst \<Rightarrow> map_option an_state (instance_of iid (w_tables w)) = Some ''starting''
    | Serving ig armed \<Rightarrow> (\<exists>r. instance_of iid (w_tables w) = Some r \<and> an_state r = ''healthy'' \<and> an_next_restart_at r = None)
    | Ended (Inr _) \<Rightarrow> instance_of iid (w_tables w) = None \<or> map_option an_state (instance_of iid (w_tables w)) = Some ''stopped''
    | _ \<Rightarrow> True"
  using sup_run_inv [OF assms] by (auto simp: shows_phase_def split: phase.splits sum.splits)

end
