(* ===== verification/Supervisor_Sample.thy ===== *)
theory Supervisor_Sample
  imports Supervisor
begin

text \<open>A supervisor on concrete data: an adapter that failed once is started again.\<close>

definition sampleFailed :: instance_row where
  "sampleFailed = \<lparr> an_id = ''1'', an_integration_id = ''7'', an_adapter_version = ''1'', an_protocol_version = Some ''1.0'', an_state = ''unhealthy'',
     an_last_started_at = Some 0, an_last_healthy_at = None, an_last_stopped_at = None, an_last_error_at = Some 0,
     an_last_error_code = Some ''process_exit'', an_consecutive_failures = 1, an_next_restart_at = Some 1000000000, an_updated_at = 0 \<rparr>"

definition sampleSupervised :: integration_row where
  "sampleSupervised = (default_integration ''7'')\<lparr>it_adapter_id := ''org.example'', it_enabled := True\<rparr>"

definition sampleSupervisorWorld :: "instance_row \<Rightarrow> world" where
  "sampleSupervisorWorld r = \<lparr> w_tables = empty_tables\<lparr>t_integrations := [sampleSupervised], t_instances := [r]\<rparr>, w_faults = [],
     w_uuid = (\<lambda>_. ''2''), w_next = 0, w_clock = 0, w_hub = NewHub 4 \<rparr>"

definition sampleRegistry :: registry where
  "sampleRegistry = [(''org.example'', \<lparr> ds_AdapterID = ''org.example'', ds_Executable = ''/bin/example'', ds_Arguments = [],
     ds_WorkingDirectory = '''', ds_Environment = [] \<rparr>)]"

definition sampleColumns :: columns where
  "sampleColumns = \<lparr> dc_Config = (\<lambda>_. Some (Some [])), dc_References = (\<lambda>_. Some []) \<rparr>"

definition sampleSupervisedIntegration :: integration where
  "sampleSupervisedIntegration = \<lparr> ig_ID = ''7'', ig_AdapterID = ''org.example'', ig_Interval = 300 * second, ig_ConfigNonsecret = Some [],
     ig_SecretReferences = [] \<rparr>"

definition sampleSupervisorRuntime :: runtime where
  "sampleSupervisorRuntime = \<lparr> rt_json = (\<lambda>_. ''{}''), rt_sha256 = (\<lambda>s. s), rt_ParseIP = (\<lambda>_. False), rt_Quote = (\<lambda>s. s) \<rparr>"

lemma sample_identifier: "uuid_param ''7'' = ''7''"
  by code_simp

lemma sample_instance: "instance_of ''7'' (w_tables (sampleSupervisorWorld sampleFailed)) = Some sampleFailed"
  by (simp add: instance_of_def sampleSupervisorWorld_def sampleFailed_def sample_identifier)

lemma sample_schedule: "restart_ok 2000000000 (Some sampleFailed)"
  by (simp add: restart_ok_def sampleFailed_def backoff_def second_def)

lemmas sample_supervisor_eval = sampleSupervisorWorld_def sampleFailed_def sampleSupervised_def default_integration_def sampleRegistry_def
  sampleColumns_def sampleSupervisedIntegration_def sample_identifier

lemma sample_load:
  "sup_step sampleColumns sampleRegistry (observers rt) ''7'' (Looping, 2000000000, sampleSupervisorWorld sampleFailed)
     (Due sampleSupervisedIntegration (Some (scan_instance sampleFailed)), 2000000000, sampleSupervisorWorld sampleFailed)"
proof (rule sup_step.load)
  show "no_observer \<in> observers rt" by (simp add: observers_def)
  show "phase_after (sup_load sampleColumns sampleRegistry no_observer ''7'' 2000000000) (sampleSupervisorWorld sampleFailed)
      = (Due sampleSupervisedIntegration (Some (scan_instance sampleFailed)), sampleSupervisorWorld sampleFailed)"
    by (simp add: phase_after_def sup_load_def LoadIntegration_def LoadInstance_def sample_supervisor_eval integration_of_def instance_of_def
        zeroIntegration_def Lookup_def wait_phase_def scan_instance_def Sub_def tx_eval cong: tx_frozen)
qed

lemma sample_start:
  "sup_step sampleColumns sampleRegistry (observers rt) ''7''
     (Due sampleSupervisedIntegration (Some (scan_instance sampleFailed)), 2000000000, sampleSupervisorWorld sampleFailed)
     (Launching sampleSupervisedIntegration (Some (scan_instance sampleFailed)), 2000000000,
      (sampleSupervisorWorld (starting_row 2000000000 sampleFailed))\<lparr>w_next := 1\<rparr>)"
proof (rule sup_step.begin_start)
  show "no_observer \<in> observers rt" by (simp add: observers_def)
  show "phase_after (sup_begin no_observer sampleSupervisedIntegration (Some (scan_instance sampleFailed)) ''7'' 2000000000)
       (sampleSupervisorWorld sampleFailed)
      = (Launching sampleSupervisedIntegration (Some (scan_instance sampleFailed)),
         (sampleSupervisorWorld (starting_row 2000000000 sampleFailed))\<lparr>w_next := 1\<rparr>)"
    by (simp add: phase_after_def sup_begin_def MarkStarting_def sample_supervisor_eval instance_of_def update_instances_def starting_row_def
        no_observer_def truncate_us_def microsecond_def tx_eval cong: tx_frozen)
qed

theorem restart_respects_backoff_witness:
  "\<exists>f. an_last_error_at sampleFailed = Some f \<and> 4 * backoff (an_consecutive_failures sampleFailed) \<le> 5 * (2000000000 - f)"
proof -
  have "restart_ok 2000000000 (instance_of ''7'' (w_tables (sampleSupervisorWorld sampleFailed)))"
    by (simp add: sample_instance sample_schedule)
  moreover have "an_next_restart_at sampleFailed = Some 1000000000" by (simp add: sampleFailed_def)
  ultimately show ?thesis
    using restart_respects_backoff [OF r_into_rtranclp [of "sup_step _ _ _ _", OF sample_load] _ sample_start _ sample_instance] by simp
qed

theorem instance_shows_supervisor_witness:
  "map_option an_state (instance_of ''7'' (w_tables ((sampleSupervisorWorld (starting_row 2000000000 sampleFailed))\<lparr>w_next := 1\<rparr>))) = Some ''starting''"
proof -
  have "(sup_step sampleColumns sampleRegistry (observers sampleSupervisorRuntime) ''7'')\<^sup>*\<^sup>* (Looping, 2000000000, sampleSupervisorWorld sampleFailed)
     (Launching sampleSupervisedIntegration (Some (scan_instance sampleFailed)), 2000000000,
      (sampleSupervisorWorld (starting_row 2000000000 sampleFailed))\<lparr>w_next := 1\<rparr>)"
    by (rule rtranclp.rtrancl_into_rtrancl [OF r_into_rtranclp [of "sup_step _ _ _ _", OF sample_load] sample_start])
  moreover have "restart_ok 2000000000 (instance_of ''7'' (w_tables (sampleSupervisorWorld sampleFailed)))"
    by (simp add: sample_instance sample_schedule)
  ultimately show ?thesis using instance_shows_supervisor by fastforce
qed

end
