(* ===== verification/Integration_Config.thy ===== *)
theory Integration_Config
  imports Adapter_Instances
begin

text \<open>
  Administration of integrations (\<open>monitoring/integration_config.go\<close>): creation and update of a
  configuration with an audit entry in the same transaction. \<open>json.Marshal\<close> of the two maps is a
  parameter; decoding of the stored columns is the parameter of \<open>Adapter_Instances\<close>.
\<close>

record config_env =
  kv_runtime :: runtime
  kv_Config :: "(string \<times> any_value) list \<Rightarrow> string option"
  kv_References :: "(string \<times> string) list \<Rightarrow> string option"
  kv_columns :: columns

record create_integration =
  cg_AdapterID :: string
  cg_DisplayName :: string
  cg_Enabled :: bool
  cg_Typed :: bool
  cg_Interval :: duration
  cg_ConfigNonsecret :: any_map
  cg_SecretReferences :: "(string \<times> string) list"
  cg_ActorUserID :: string
  cg_SourceAddress :: string
  cg_CorrelationID :: string

record config_update =
  cu_IntegrationID :: string
  cu_Enabled :: bool
  cu_Interval :: duration
  cu_ConfigNonsecret :: any_map
  cu_SecretReferences :: "(string \<times> string) list"
  cu_ExpectedUpdatedAt :: time
  cu_ActorUserID :: string
  cu_SourceAddress :: string
  cu_CorrelationID :: string

definition proxmoxAdapter :: string where
  "proxmoxAdapter = ''org.ubnetdef.espial.proxmox''"

definition typed_adapter :: "string \<Rightarrow> bool" where
  "typed_adapter adapterID \<longleftrightarrow> adapterID = webcheckAdapter \<or> adapterID = proxmoxAdapter"

definition maxIntegrationConfigBytes :: nat where
  "maxIntegrationConfigBytes = 64 * 1024"

definition encodeConfig :: "string option \<Rightarrow> err + string" where
  "encodeConfig encoded = (case encoded of
       None \<Rightarrow> Inl (MonitoringError ''invalid_integration_config'')
     | Some text \<Rightarrow> if maxIntegrationConfigBytes < length text then Inl (MonitoringError ''invalid_integration_config'') else Inr text)"

definition sortedKeys :: "(string \<times> 'a) list \<Rightarrow> jvalue" where
  "sortedKeys values = JArr (map JText (sort (map fst values)))"

definition configSummary :: "bool \<Rightarrow> int \<Rightarrow> (string \<times> any_value) list \<Rightarrow> (string \<times> string) list \<Rightarrow> summary" where
  "configSummary enabled interval nonsecret references =
     [(''enabled'', JBool enabled), (''interval_seconds'', JInt interval), (''config_keys'', sortedKeys nonsecret),
      (''secret_reference_keys'', sortedKeys references)]"

definition valid_interval :: "duration \<Rightarrow> bool" where
  "valid_interval d \<longleftrightarrow> second \<le> d \<and> d \<le> 24 * 3600 * second \<and> d mod second = 0"

section \<open>Creation\<close>

definition create_body :: "config_env \<Rightarrow> create_integration \<Rightarrow> string \<Rightarrow> string \<Rightarrow> string \<Rightarrow> time \<Rightarrow> unit outcome tx" where
  "create_body env cg iid nonsecret references createdAt =
     tx_bind (tx_insert (\<lambda>u c t.
       if uuid_param iid \<in> it_id ` set (t_integrations t) then Inl DbError
       else Inr ((), t\<lparr>t_integrations := t_integrations t @
         [\<lparr> it_id = uuid_param iid, it_adapter_id = cg_AdapterID cg, it_display_name = cg_DisplayName cg, it_enabled = cg_Enabled cg,
            it_config_nonsecret = nonsecret, it_secret_references = references, it_interval_seconds = cg_Interval cg div second,
            it_created_at = createdAt, it_updated_at = createdAt \<rparr>]\<rparr>))) (\<lambda>_.
     tx_bind (audit_Append (kv_runtime env) \<lparr> ae_ActorUserID = cg_ActorUserID cg, ae_Action = ''integration.created'',
         ae_TargetType = ''integration'', ae_TargetID = iid, ae_Result = ''succeeded'', ae_SourceAddress = cg_SourceAddress cg,
         ae_CorrelationID = cg_CorrelationID cg, ae_BeforeSummary = None,
         ae_AfterSummary = Some ([(''adapter_id'', JText (cg_AdapterID cg)), (''display_name'', JText (cg_DisplayName cg))]
           @ configSummary (cg_Enabled cg) (cg_Interval cg div second) (entries (cg_ConfigNonsecret cg)) (cg_SecretReferences cg)),
         ae_OccurredAt = createdAt \<rparr>) (\<lambda>_.
     tx_return (Commit ())))"

definition Config_Create ::
  "config_env \<Rightarrow> registry option \<Rightarrow> 8 word list option \<Rightarrow> create_integration \<Rightarrow> time \<Rightarrow> (string \<times> time) tx" where
  "Config_Create env reg random cg0 now =
     (let cg = cg0\<lparr>cg_DisplayName := TrimSpace (cg_DisplayName cg0)\<rparr> in
      case reg of None \<Rightarrow> tx_fail (MonitoringError ''invalid_integration_config'') | Some table \<Rightarrow>
      if cg_CorrelationID cg = '''' \<or> cg_DisplayName cg = '''' \<or> 128 < RuneCountInString (cg_DisplayName cg) \<or> \<not> valid_interval (cg_Interval cg)
      then tx_fail (MonitoringError ''invalid_integration_config'')
      else if \<not> cg_Typed cg \<and> typed_adapter (cg_AdapterID cg) then tx_fail (MonitoringError ''typed_integration_required'')
      else case Lookup table (cg_AdapterID cg) of
        Inl _ \<Rightarrow> tx_fail (MonitoringError ''adapter_not_registered'')
      | Inr _ \<Rightarrow> (case encodeConfig (kv_Config env (entries (cg_ConfigNonsecret cg))) of
          Inl e \<Rightarrow> tx_fail e
        | Inr nonsecret \<Rightarrow> (case encodeConfig (kv_References env (cg_SecretReferences cg)) of
            Inl e \<Rightarrow> tx_fail e
          | Inr references \<Rightarrow> (case newCorrelationID random of
              None \<Rightarrow> tx_fail (MonitoringError ''correlation_id_failed'')
            | Some iid \<Rightarrow>
                let createdAt = truncate_us now in
                tx_bind (in_tx (create_body env cg iid nonsecret references createdAt)) (\<lambda>_.
                tx_bind (hub_publish (zeroEvent\<lparr>ev_Kind := ''integration_changed'', ev_IntegrationID := iid, ev_Result := ''created'',
                    ev_ChangedAt := createdAt\<rparr>)) (\<lambda>_.
                tx_return (iid, createdAt)))))))"

section \<open>Update\<close>

definition config_row :: "config_update \<Rightarrow> string \<Rightarrow> string \<Rightarrow> time \<Rightarrow> integration_row \<Rightarrow> integration_row" where
  "config_row cu nonsecret references updatedAt r = r\<lparr>it_enabled := cu_Enabled cu, it_interval_seconds := cu_Interval cu div second,
     it_config_nonsecret := nonsecret, it_secret_references := references, it_updated_at := updatedAt\<rparr>"

definition next_update :: "time \<Rightarrow> time \<Rightarrow> time" where
  "next_update now previous = (let updatedAt = truncate_us now in if updatedAt \<le> previous then previous + microsecond else updatedAt)"

definition config_event ::
  "config_update \<Rightarrow> integration_row \<Rightarrow> (string \<times> any_value) list \<Rightarrow> (string \<times> string) list \<Rightarrow> time \<Rightarrow> audit_event" where
  "config_event cu r beforeNonsecret beforeReferences updatedAt =
     \<lparr> ae_ActorUserID = cu_ActorUserID cu, ae_Action = ''integration.configuration.updated'', ae_TargetType = ''integration'',
       ae_TargetID = cu_IntegrationID cu, ae_Result = ''succeeded'', ae_SourceAddress = cu_SourceAddress cu,
       ae_CorrelationID = cu_CorrelationID cu,
       ae_BeforeSummary = Some (configSummary (it_enabled r) (it_interval_seconds r) beforeNonsecret beforeReferences),
       ae_AfterSummary = Some (configSummary (cu_Enabled cu) (cu_Interval cu div second) (entries (cu_ConfigNonsecret cu)) (cu_SecretReferences cu)),
       ae_OccurredAt = updatedAt \<rparr>"

definition update_body :: "config_env \<Rightarrow> config_update \<Rightarrow> string \<Rightarrow> string \<Rightarrow> time \<Rightarrow> time outcome tx" where
  "update_body env cu nonsecret references now =
     tx_bind (tx_query (integration_of (cu_IntegrationID cu))) (\<lambda>found. case found of
       None \<Rightarrow> tx_fail (MonitoringError ''integration_not_found'')
     | Some r \<Rightarrow> (case (dc_Config (kv_columns env) (it_config_nonsecret r), dc_References (kv_columns env) (it_secret_references r)) of
         (Some beforeNonsecret, Some beforeReferences) \<Rightarrow>
           if typed_adapter (it_adapter_id r) then tx_fail (MonitoringError ''typed_integration_required'')
           else if cu_ExpectedUpdatedAt cu \<noteq> 0 \<and> it_updated_at r \<noteq> cu_ExpectedUpdatedAt cu
           then tx_fail (MonitoringError ''integration_config_conflict'')
           else let updatedAt = next_update now (it_updated_at r) in
             tx_bind (tx_exec (\<lambda>t. t\<lparr>t_integrations := update_where (\<lambda>x. it_id x = uuid_param (cu_IntegrationID cu))
                 (config_row cu nonsecret references updatedAt) (t_integrations t)\<rparr>)) (\<lambda>_.
             tx_bind (audit_Append (kv_runtime env) (config_event cu r (entries beforeNonsecret) beforeReferences updatedAt)) (\<lambda>_.
             tx_return (Commit updatedAt)))
       | _ \<Rightarrow> tx_fail (ErrText ''load integration config'')))"

definition Config_Update :: "config_env \<Rightarrow> config_update \<Rightarrow> time \<Rightarrow> time tx" where
  "Config_Update env cu now =
     (if \<not> uuidPattern (cu_IntegrationID cu) \<or> \<not> valid_interval (cu_Interval cu) \<or> cu_CorrelationID cu = ''''
      then tx_fail (MonitoringError ''invalid_integration_config'')
      else case encodeConfig (kv_Config env (entries (cu_ConfigNonsecret cu))) of
        Inl e \<Rightarrow> tx_fail e
      | Inr nonsecret \<Rightarrow> (case encodeConfig (kv_References env (cu_SecretReferences cu)) of
          Inl e \<Rightarrow> tx_fail e
        | Inr references \<Rightarrow>
            tx_bind (in_tx (update_body env cu nonsecret references now)) (\<lambda>updatedAt.
            tx_bind (hub_publish (zeroEvent\<lparr>ev_Kind := ''integration_changed'', ev_IntegrationID := cu_IntegrationID cu,
                ev_Result := ''configuration_updated'', ev_ChangedAt := updatedAt\<rparr>)) (\<lambda>_.
            tx_return updatedAt))))"

section \<open>What an update does\<close>

lemma integration_of_update:
  assumes "\<And>r. it_id (f r) = it_id r"
  shows "integration_of iid (t\<lparr>t_integrations := update_where (\<lambda>x. it_id x = uuid_param jid) f (t_integrations t)\<rparr>)
    = map_option (\<lambda>r. if it_id r = uuid_param jid then f r else r) (integration_of iid t)"
  unfolding integration_of_def update_where_def by (simp add: find_map_keep assms)

lemma config_row_id [simp]: "it_id (config_row cu a b c r) = it_id r"
  by (simp add: config_row_def)

lemma next_update_later: "previous < next_update now previous"
  by (simp add: next_update_def Let_def microsecond_def)

definition config_tables :: "config_update \<Rightarrow> string \<Rightarrow> string \<Rightarrow> time \<Rightarrow> tables \<Rightarrow> tables" where
  "config_tables cu nonsecret references stamp t = t\<lparr>t_integrations := update_where (\<lambda>x. it_id x = uuid_param (cu_IntegrationID cu))
     (config_row cu nonsecret references stamp) (t_integrations t)\<rparr>"

lemma update_body_Inr:
  assumes "update_body env cu nonsecret references now w = (Inr out, w')"
  obtains r before1 before2 where "integration_of (cu_IntegrationID cu) (w_tables w) = Some r" "\<not> typed_adapter (it_adapter_id r)"
    "cu_ExpectedUpdatedAt cu = 0 \<or> it_updated_at r = cu_ExpectedUpdatedAt cu" "out = Commit (next_update now (it_updated_at r))"
    "dc_Config (kv_columns env) (it_config_nonsecret r) = Some before1" "dc_References (kv_columns env) (it_secret_references r) = Some before2"
    "audit_Append (kv_runtime env) (config_event cu r (entries before1) before2 (next_update now (it_updated_at r)))
       ((tick (tick w))\<lparr>w_tables := config_tables cu nonsecret references (next_update now (it_updated_at r)) (w_tables w)\<rparr>) = (Inr (), w')"
proof -
  obtain r where row: "integration_of (cu_IntegrationID cu) (w_tables w) = Some r"
    using assms by (auto simp: update_body_def tx_bind_Inr tx_query_Inr split: option.splits)
  obtain before1 before2 where dec: "dc_Config (kv_columns env) (it_config_nonsecret r) = Some before1"
    "dc_References (kv_columns env) (it_secret_references r) = Some before2"
    using assms row by (auto simp: update_body_def tx_bind_Inr tx_query_Inr split: option.splits)
  have typed: "\<not> typed_adapter (it_adapter_id r)" "cu_ExpectedUpdatedAt cu = 0 \<or> it_updated_at r = cu_ExpectedUpdatedAt cu"
    using assms row dec by (auto simp: update_body_def tx_bind_Inr tx_query_Inr split: if_splits)
  have "out = Commit (next_update now (it_updated_at r))
    \<and> audit_Append (kv_runtime env) (config_event cu r (entries before1) before2 (next_update now (it_updated_at r)))
       ((tick (tick w))\<lparr>w_tables := config_tables cu nonsecret references (next_update now (it_updated_at r)) (w_tables w)\<rparr>) = (Inr (), w')"
    using assms row dec typed
    by (auto simp: update_body_def tx_bind_Inr tx_query_Inr tx_exec_Inr Let_def config_tables_def split: if_splits)
  with that [OF row typed _ dec] show thesis by blast
qed

lemma update_body_tables:
  assumes "update_body env cu nonsecret references now w = (Inr out, w')"
  obtains r entry where "integration_of (cu_IntegrationID cu) (w_tables w) = Some r" "\<not> typed_adapter (it_adapter_id r)"
    "cu_ExpectedUpdatedAt cu = 0 \<or> it_updated_at r = cu_ExpectedUpdatedAt cu" "out = Commit (next_update now (it_updated_at r))"
    "w_tables w' = (config_tables cu nonsecret references (next_update now (it_updated_at r)) (w_tables w))
       \<lparr>t_audit := t_audit (w_tables w) @ [entry]\<rparr>"
    "au_action entry = ''integration.configuration.updated'' \<and> au_target_id entry = nullif (cu_IntegrationID cu)"
  using assms
proof (rule update_body_Inr)
  fix r before1 before2
  assume row: "integration_of (cu_IntegrationID cu) (w_tables w) = Some r" "\<not> typed_adapter (it_adapter_id r)"
    "cu_ExpectedUpdatedAt cu = 0 \<or> it_updated_at r = cu_ExpectedUpdatedAt cu" "out = Commit (next_update now (it_updated_at r))"
  let ?e = "config_event cu r (entries before1) before2 (next_update now (it_updated_at r))"
  let ?t = "config_tables cu nonsecret references (next_update now (it_updated_at r)) (w_tables w)"
  assume "audit_Append (kv_runtime env) ?e ((tick (tick w))\<lparr>w_tables := ?t\<rparr>) = (Inr (), w')"
  from audit_Append_Inr [OF this] obtain entry where "w_tables w' = ?t\<lparr>t_audit := t_audit ?t @ [entry]\<rparr>"
    "au_action entry = ae_Action ?e" "au_target_id entry = nullif (ae_TargetID ?e)" by auto
  moreover have "t_audit ?t = t_audit (w_tables w)" "ae_Action ?e = ''integration.configuration.updated''" "ae_TargetID ?e = cu_IntegrationID cu"
    by (simp_all add: config_tables_def config_event_def)
  ultimately show thesis using that [OF row] by simp
qed

lemma Config_Update_cases:
  assumes "Config_Update env cu now w = (r, w')"
  obtains (refused) e where "r = Inl e" "w_tables w' = w_tables w"
  | (updated) nonsecret references stamp w1 where "r = Inr stamp" "kv_Config env (entries (cu_ConfigNonsecret cu)) = Some nonsecret"
      "kv_References env (cu_SecretReferences cu) = Some references" "valid_interval (cu_Interval cu)"
      "update_body env cu nonsecret references now (tick w) = (Inr (Commit stamp), w1)" "w_tables w' = w_tables w1"
proof (cases "\<not> uuidPattern (cu_IntegrationID cu) \<or> \<not> valid_interval (cu_Interval cu) \<or> cu_CorrelationID cu = ''''")
  case True
  with assms show thesis by (intro refused) (auto simp: Config_Update_def)
next
  case valid: False
  show thesis
  proof (cases "encodeConfig (kv_Config env (entries (cu_ConfigNonsecret cu)))")
    case (Inl e)
    with assms valid show thesis by (intro refused) (auto simp: Config_Update_def)
  next
    case nonsecret: (Inr nonsecret)
    show thesis
    proof (cases "encodeConfig (kv_References env (cu_SecretReferences cu))")
      case (Inl e)
      with assms valid nonsecret show thesis by (intro refused) (auto simp: Config_Update_def)
    next
      case references: (Inr references)
      obtain q w1 where run: "in_tx (update_body env cu nonsecret references now) w = (q, w1)" by force
      have texts: "kv_Config env (entries (cu_ConfigNonsecret cu)) = Some nonsecret" "kv_References env (cu_SecretReferences cu) = Some references"
        using nonsecret references by (auto simp: encodeConfig_def split: option.splits if_splits)
      show thesis
      proof (cases q)
        case (Inl e)
        then have "r = Inl e" "w' = w1" using assms valid nonsecret references run by (auto simp: Config_Update_def tx_bind_def)
        with in_tx_atomic [OF run [unfolded Inl]] show thesis by (intro refused) auto
      next
        case (Inr stamp)
        then have r: "r = Inr stamp" "w_tables w' = w_tables w1"
          using assms valid nonsecret references run by (auto simp: Config_Update_def tx_bind_def hub_publish_def)
        from run Inr obtain out w2 where body: "update_body env cu nonsecret references now (tick w) = (Inr out, w2)"
          and out: "out = Commit stamp \<and> w1 = tick w2 \<or> out = Rollback stamp" by (auto simp: in_tx_Inr)
        from body have "out = Commit stamp \<and> w1 = tick w2" by (rule update_body_tables) (use out in auto)
        with r texts valid body show thesis by (intro updated [of stamp nonsecret references w2]) auto
      qed
    qed
  qed
qed

section \<open>Versions\<close>

text \<open>Administration of integrations, interleaved with work that leaves the table of integrations alone.\<close>

inductive config_step :: "world \<Rightarrow> world \<Rightarrow> bool" where
  update_step: "Config_Update env cu now w = (r, w') \<Longrightarrow> config_step w w'"
| create_step: "Config_Create env reg random cg now w = (q, w') \<Longrightarrow> config_step w w'"
| other_step: "t_integrations (w_tables w') = t_integrations (w_tables w) \<Longrightarrow> config_step w w'"

lemma integration_of_cong: "t_integrations t = t_integrations t' \<Longrightarrow> integration_of iid t = integration_of iid t'"
  by (simp add: integration_of_def)

lemma preserves_create_integration: "preserves (\<lambda>t. integration_of iid t = Some r) (Config_Create env reg random cg now)"
proof -
  have found: "find P (xs @ ys) = Some r" if "find P xs = Some r" for P and xs ys :: "integration_row list"
    using that by (induction xs) (auto split: if_splits)
  have "keeps t_integrations (audit_Append rt e)" for rt e by (rule audit_Append_only_audit) simp
  then have audit: "preserves (\<lambda>t. integration_of iid t = Some r) (audit_Append rt e)" for rt e
    by (rule preserves_of_keeps [rotated]) (drule integration_of_cong [of _ _ iid], simp)
  have "preserves (\<lambda>t. integration_of iid t = Some r) (create_body env cg jid a b createdAt)" for cg jid a b createdAt
    unfolding create_body_def
    by (intro preserves_intros audit) (auto simp: integration_of_def found split: if_splits)
  then show ?thesis unfolding Config_Create_def Let_def by (intro preserves_intros)
qed

lemma Config_Update_row:
  assumes "Config_Update env cu now w = (r, w')" and row: "integration_of iid (w_tables w) = Some x"
  shows "\<exists>x'. integration_of iid (w_tables w') = Some x' \<and> it_updated_at x \<le> it_updated_at x'
    \<and> (uuid_param iid = uuid_param (cu_IntegrationID cu) \<longrightarrow> (\<exists>stamp. r = Inr stamp) \<longrightarrow> it_updated_at x < it_updated_at x')"
  using assms(1)
proof (cases rule: Config_Update_cases)
  case refused
  with row show ?thesis by auto
next
  case (updated nonsecret references stamp w1)
  from updated(5) obtain y entry where y: "integration_of (cu_IntegrationID cu) (w_tables (tick w)) = Some y"
    and t: "w_tables w1 = (config_tables cu nonsecret references (next_update now (it_updated_at y)) (w_tables (tick w)))
       \<lparr>t_audit := t_audit (w_tables (tick w)) @ [entry]\<rparr>"
    by (rule update_body_tables)
  let ?f = "config_row cu nonsecret references (next_update now (it_updated_at y))"
  have after: "integration_of iid (w_tables w') = Some (if it_id x = uuid_param (cu_IntegrationID cu) then ?f x else x)"
    using integration_of_update [where f = ?f and iid = iid and t = "w_tables w" and jid = "cu_IntegrationID cu"] row
    by (simp add: updated(6) t config_tables_def integration_of_def)
  have "it_id x = uuid_param iid" using row by (auto simp: integration_of_def find_Some_iff)
  moreover from this have "x = y" if "it_id x = uuid_param (cu_IntegrationID cu)" using that row y by (simp add: integration_of_def)
  moreover have "it_updated_at y < it_updated_at (?f y)" using next_update_later by (simp add: config_row_def)
  ultimately show ?thesis using after by auto
qed

lemma config_run_row:
  assumes "config_step\<^sup>*\<^sup>* w w'" and "integration_of iid (w_tables w) = Some x"
  shows "\<exists>x'. integration_of iid (w_tables w') = Some x' \<and> it_updated_at x \<le> it_updated_at x'"
  using assms(1)
proof (induction rule: rtranclp_induct)
  case base
  show ?case using assms(2) by auto
next
  case (step u v)
  then obtain y where y: "integration_of iid (w_tables u) = Some y" "it_updated_at x \<le> it_updated_at y" by auto
  from step(2) have "\<exists>z. integration_of iid (w_tables v) = Some z \<and> it_updated_at y \<le> it_updated_at z"
  proof cases
    case (update_step env cu now r)
    from Config_Update_row [OF this y(1)] show ?thesis by auto
  next
    case (create_step env reg random cg now q)
    from preservesD [OF preserves_create_integration this y(1)] show ?thesis by auto
  next
    case other_step
    from integration_of_cong [OF this, of iid] y(1) show ?thesis by auto
  qed
  with y(2) show ?case by (meson order_trans)
qed

text \<open>
  C25. No update of a configuration is lost: once an update of an integration has succeeded, an update
  that names the version it replaced is refused and changes nothing, whatever other administration has
  happened since and whatever the clock shows.
\<close>

theorem stale_config_refused:
  assumes first: "Config_Update env cu now w = (Inr stamp, w1)"
    and seen: "integration_of (cu_IntegrationID cu) (w_tables w) = Some row"
    and later: "config_step\<^sup>*\<^sup>* w1 w2"
    and stale: "cu_IntegrationID cu' = cu_IntegrationID cu" "cu_ExpectedUpdatedAt cu' = it_updated_at row" "it_updated_at row \<noteq> 0"
    and second: "Config_Update env' cu' now' w2 = (r, w3)"
  shows "(\<exists>e. r = Inl e) \<and> w_tables w3 = w_tables w2"
proof -
  obtain x where x: "integration_of (cu_IntegrationID cu) (w_tables w1) = Some x" "it_updated_at row < it_updated_at x"
    using Config_Update_row [OF first seen] by auto
  obtain y where y: "integration_of (cu_IntegrationID cu) (w_tables w2) = Some y" "it_updated_at row < it_updated_at y"
    using config_run_row [OF later x(1)] x(2) by force
  from second show ?thesis
  proof (cases rule: Config_Update_cases)
    case (updated nonsecret references stamp' w4)
    from updated(5) have False
      by (rule update_body_tables) (use stale y in auto)
    then show ?thesis ..
  qed auto
qed

lemma audit_Append_same:
  assumes "audit_Append rt e w = (Inr u, w1)" "audit_Append rt e v = (Inr u', v1)"
    "w_uuid w = w_uuid v" "w_next w = w_next v" "t_audit (w_tables w) = t_audit (w_tables v)"
  shows "t_audit (w_tables w1) = t_audit (w_tables v1)"
  using assms by (auto simp: audit_Append_def tx_insert_Inr split: if_splits sum.splits)

text \<open>
  C26. The audit trail of configurations holds key names only: two updates of one integration that agree
  in everything but the values of the configuration and the secret references leave the same audit
  trail, so nothing of a value or a reference can be learnt from it.
\<close>

theorem config_audit_redacted:
  assumes "Config_Update env cu now w = (Inr a, w1)"
    and "Config_Update env (cu\<lparr>cu_ConfigNonsecret := c, cu_SecretReferences := s\<rparr>) now w = (Inr b, w2)"
    and "map fst (entries c) = map fst (entries (cu_ConfigNonsecret cu))" and "map fst s = map fst (cu_SecretReferences cu)"
  shows "t_audit (w_tables w1) = t_audit (w_tables w2) \<and> length (t_audit (w_tables w1)) = length (t_audit (w_tables w)) + 1"
proof -
  let ?cu = "cu\<lparr>cu_ConfigNonsecret := c, cu_SecretReferences := s\<rparr>"
  obtain nonsecret references u1 where one: "update_body env cu nonsecret references now (tick w) = (Inr (Commit a), u1)"
    "w_tables w1 = w_tables u1"
    using assms(1) by (cases rule: Config_Update_cases) auto
  obtain nonsecret' references' u2 where two: "update_body env ?cu nonsecret' references' now (tick w) = (Inr (Commit b), u2)"
    "w_tables w2 = w_tables u2"
    using assms(2) by (cases rule: Config_Update_cases) auto
  obtain r b1 b2 where r: "integration_of (cu_IntegrationID cu) (w_tables w) = Some r"
    and dec: "dc_Config (kv_columns env) (it_config_nonsecret r) = Some b1" "dc_References (kv_columns env) (it_secret_references r) = Some b2"
    and app: "audit_Append (kv_runtime env) (config_event cu r (entries b1) b2 (next_update now (it_updated_at r)))
       ((tick (tick (tick w)))\<lparr>w_tables := config_tables cu nonsecret references (next_update now (it_updated_at r)) (w_tables w)\<rparr>) = (Inr (), u1)"
    using one(1) by (rule update_body_Inr) simp
  have "audit_Append (kv_runtime env) (config_event ?cu r (entries b1) b2 (next_update now (it_updated_at r)))
       ((tick (tick (tick w)))\<lparr>w_tables := config_tables ?cu nonsecret' references' (next_update now (it_updated_at r)) (w_tables w)\<rparr>) = (Inr (), u2)"
    using two(1) by (rule update_body_Inr) (use r dec in simp)
  moreover have "config_event ?cu r (entries b1) b2 x = config_event cu r (entries b1) b2 x" for x
    using assms(3,4) by (simp add: config_event_def configSummary_def sortedKeys_def)
  ultimately have "t_audit (w_tables u1) = t_audit (w_tables u2)"
    using audit_Append_same [OF app] by (simp add: config_tables_def)
  moreover have "length (t_audit (w_tables u1)) = length (t_audit (w_tables w)) + 1"
    using audit_Append_Inr [OF app] by (auto simp: config_tables_def)
  ultimately show ?thesis by (simp add: one(2) two(2))
qed

end
