(* ===== verification/Config_Sample.thy ===== *)
theory Config_Sample
  imports Integration_Config
begin

text \<open>The configuration of an integration on concrete data: one update, and what follows for the next.\<close>

definition sampleConfigID :: string where
  "sampleConfigID = ''22222222-2222-4222-8222-222222222222''"

definition sampleConfigured :: integration_row where
  "sampleConfigured = (default_integration sampleConfigID)\<lparr>it_adapter_id := ''org.example'', it_updated_at := 5000\<rparr>"

definition sampleConfigWorld :: world where
  "sampleConfigWorld = \<lparr> w_tables = empty_tables\<lparr>t_integrations := [sampleConfigured]\<rparr>, w_faults = [], w_uuid = (\<lambda>_. ''1''), w_next = 0,
     w_clock = 0, w_hub = NewHub 4 \<rparr>"

definition sampleConfigEnv :: config_env where
  "sampleConfigEnv = \<lparr> kv_runtime = \<lparr> rt_json = (\<lambda>_. ''{}''), rt_sha256 = (\<lambda>s. s), rt_ParseIP = (\<lambda>_. False), rt_Quote = (\<lambda>s. s) \<rparr>,
     kv_Config = (\<lambda>_. Some ''{}''), kv_References = (\<lambda>_. Some ''{}''),
     kv_columns = \<lparr> dc_Config = (\<lambda>_. Some (Some [])), dc_References = (\<lambda>_. Some []) \<rparr> \<rparr>"

definition sampleUpdate :: "string \<Rightarrow> config_update" where
  "sampleUpdate v = \<lparr> cu_IntegrationID = sampleConfigID, cu_Enabled = True, cu_Interval = 60 * second,
     cu_ConfigNonsecret = Some [(''url'', AString v)], cu_SecretReferences = [(''token'', v)], cu_ExpectedUpdatedAt = 5000,
     cu_ActorUserID = '''', cu_SourceAddress = '''', cu_CorrelationID = ''request'' \<rparr>"

lemma sample_config_texts:
  "uuidPattern sampleConfigID" "uuid_param sampleConfigID = sampleConfigID" "sampleConfigID \<noteq> ''''"
  "identifierPattern ''integration.configuration.updated''" "targetTypePattern ''integration''" "TrimSpace ''request'' = ''request''"
  by code_simp+

lemma sample_config_row: "integration_of sampleConfigID (w_tables sampleConfigWorld) = Some sampleConfigured"
  by (simp add: integration_of_def sampleConfigWorld_def sampleConfigured_def sample_config_texts)

lemma sample_config_update: "\<exists>w'. Config_Update sampleConfigEnv (sampleUpdate v) 7000 sampleConfigWorld = (Inr 7000, w')"
proof -
  have row: "integration_of (cu_IntegrationID (sampleUpdate v)) (w_tables sampleConfigWorld) = Some sampleConfigured"
    by (simp add: sampleUpdate_def sample_config_row)
  show ?thesis
    by (simp add: Config_Update_def update_body_def row sampleConfigEnv_def encodeConfig_def maxIntegrationConfigBytes_def valid_interval_def
        sample_config_texts next_update_def truncate_us_def microsecond_def config_event_def audit_Append_def validAuditEvent_def
        encodeSummary_def MaxSummaryBytes_def typed_adapter_def webcheckAdapter_def proxmoxAdapter_def tx_eval sampleUpdate_def
        sampleConfigured_def default_integration_def sampleConfigWorld_def empty_tables_def second_def integration_of_def
        del: identifierPattern.simps cong: tx_frozen)
qed

theorem stale_config_refused_witness:
  "\<exists>w1 r w3. Config_Update sampleConfigEnv (sampleUpdate ''a'') 7000 sampleConfigWorld = (Inr 7000, w1)
     \<and> Config_Update sampleConfigEnv (sampleUpdate ''b'') 7000 w1 = (Inl r, w3) \<and> w_tables w3 = w_tables w1"
proof -
  obtain w1 where first: "Config_Update sampleConfigEnv (sampleUpdate ''a'') 7000 sampleConfigWorld = (Inr 7000, w1)"
    using sample_config_update by blast
  obtain r w3 where second: "Config_Update sampleConfigEnv (sampleUpdate ''b'') 7000 w1 = (r, w3)" by force
  have fields: "cu_IntegrationID (sampleUpdate v) = sampleConfigID" "cu_ExpectedUpdatedAt (sampleUpdate v) = it_updated_at sampleConfigured"
    "it_updated_at sampleConfigured \<noteq> 0" for v by (simp_all add: sampleUpdate_def sampleConfigured_def)
  have "(\<exists>e. r = Inl e) \<and> w_tables w3 = w_tables w1"
    by (rule stale_config_refused [OF first _ rtranclp.rtrancl_refl _ _ fields(3) second]) (simp_all add: fields sample_config_row)
  then show ?thesis using first second by blast
qed

theorem config_audit_redacted_witness:
  "\<exists>w1 w2. Config_Update sampleConfigEnv (sampleUpdate ''a'') 7000 sampleConfigWorld = (Inr 7000, w1)
     \<and> Config_Update sampleConfigEnv (sampleUpdate ''b'') 7000 sampleConfigWorld = (Inr 7000, w2)
     \<and> t_audit (w_tables w1) = t_audit (w_tables w2) \<and> length (t_audit (w_tables w1)) = 1"
proof -
  obtain w1 w2 where runs: "Config_Update sampleConfigEnv (sampleUpdate ''a'') 7000 sampleConfigWorld = (Inr 7000, w1)"
    "Config_Update sampleConfigEnv (sampleUpdate ''b'') 7000 sampleConfigWorld = (Inr 7000, w2)"
    using sample_config_update [of "''a''"] sample_config_update [of "''b''"] by blast
  have other: "sampleUpdate ''b'' = (sampleUpdate ''a'')\<lparr>cu_ConfigNonsecret := Some [(''url'', AString ''b'')],
      cu_SecretReferences := [(''token'', ''b'')]\<rparr>" by (simp add: sampleUpdate_def)
  have none: "t_audit (w_tables sampleConfigWorld) = []" by (simp add: sampleConfigWorld_def empty_tables_def)
  have "t_audit (w_tables w1) = t_audit (w_tables w2) \<and> length (t_audit (w_tables w1)) = length (t_audit (w_tables sampleConfigWorld)) + 1"
    by (rule config_audit_redacted [OF runs(1) runs(2) [unfolded other]]) (simp_all add: sampleUpdate_def entries_def)
  with runs none show ?thesis by auto
qed

end
