(* ===== verification/Spec2Isabelle.thy ===== *)
theory Spec2Isabelle
  imports Health Event_Hub Signal_Journal Admin_Ops Incident_Rules Incident_Engine Suppression_Life Coordinator
    Auth_Lockout Observation_Sample Collection_Sample Adapter_Sample
    Supervisor_Sample Config_Sample
begin

text \<open>
  A verification library for the Go core of Espial (\<open>core/internal\<close>), a monitoring service that
  collects observations from adapters, derives health from them, turns changes of health into
  incidents, and notifies operators.

  \<^bold>\<open>The program and its theories.\<close> Collection is paced by the scheduler and its coordinator
  (\<open>scheduler/\<close>). An adapter is a child process that speaks a line protocol (\<open>adapters/\<close>); the collector
  (\<open>monitoring/collector.go\<close>) asks it for a batch and records the outcome. A batch is validated and ingested in one transaction (\<open>observations/\<close>): it
  stores resources and observations, appends a signal for every new observation to a durable
  journal (\<open>signals/signals.go\<close>), and evaluates the newest observation of every check it touched to
  the current health of that check (\<open>health/\<close>). The freshness worker (\<open>monitoring/freshness.go\<close>) ages
  current health when no observation arrives, with a signal for every change. The incident evaluator
  (\<open>incidents/evaluator.go\<close>) claims signals, selects a rule (\<open>incidents/rules.go\<close>), debounces, and
  opens, updates and recovers incidents; operators act on incidents through the workflow
  (\<open>incidents/workflow.go\<close>). Incident events are handed to a transactional outbox
  (\<open>notifications/writer.go\<close>) and delivered by a worker (\<open>notifications/worker.go\<close>). Maintenance
  windows and silences (\<open>suppressions/\<close>) hold evaluation or delivery back. Changes are announced on
  an event hub (\<open>events/hub.go\<close>); administrative writes are audited and idempotent
  (\<open>audit/audit.go\<close>, \<open>adminops/idempotency.go\<close>). Operators log in and are managed through the
  authentication service (\<open>auth/\<close>).

  \<^item> \<open>Espial_Prelude\<close>, \<open>Go_Text\<close>: instants, durations, 64-bit wrap-around, tables as row lists with
    the list operations behind the SQL statements, and what the sources use of \<open>strings\<close>,
    \<open>unicode/utf8\<close> and \<open>regexp\<close> on byte strings.
  \<^item> \<open>Health\<close>: \<open>health/evaluator.go\<close> and \<open>types.go\<close>; ageing of an observation at 64-bit durations.
  \<^item> \<open>Event_Hub\<close>: \<open>events/hub.go\<close>; the hub as a record, every operation as a function, a publication
    also as the sequence of its channel operations, and runs in which client receives interleave with
    these, with the events each subscriber was sent.
  \<^item> \<open>Store\<close>, \<open>Tx\<close>: the PostgreSQL rows (\<open>core/migrations\<close>) and a computation type for statements,
    transactions and their failures. Each statement consumes one entry of a fault schedule, so a
    theorem about an operation covers a failure at every point of it. The locale \<open>tx_relation\<close>
    gives composition rules for any preorder between the tables before and after; it is
    interpreted for every frame condition used later.
  \<^item> \<open>Observations\<close>: \<open>observations/validate.go\<close>, \<open>repository.go\<close>, \<open>service.go\<close>: validation, the
    statements, and \<open>IngestWithCommit\<close> with its hook inside the transaction.
  \<^item> \<open>Observation_Health\<close>: the invariant \<open>health_inv\<close> between observations, current health and
    journal, a triple for every stage of an ingestion, and the locale \<open>commit_hook\<close>, which is what
    ingestion relies on from its hook.
  \<^item> \<open>Freshness\<close>: \<open>monitoring/freshness.go\<close>, one pass, the loop over full passes, and the step relation
    \<open>health_step\<close> in which ingestions, passes and other work interleave; \<open>Observation_Sample\<close> is an
    ingestion and a pass on concrete data.
  \<^item> \<open>Adapter_Protocol\<close>: \<open>adapters/protocol.go\<close>, \<open>codec.go\<close> and \<open>types.go\<close>: envelopes, manifests, negotiation
    of versions, and the framing of lines on a byte stream with the limits of \<open>bufio.Reader\<close>.
  \<^item> \<open>Adapter_Secrets\<close>: \<open>adapters/registry.go\<close>, the configuration half of \<open>secrets.go\<close>, and \<open>diagnostics.go\<close>.
  \<^item> \<open>Adapter_Process\<close>: \<open>adapters/process.go\<close>, every critical section as a function on the record
    \<open>process\<close> and their interleaving as the step relation \<open>proc_step\<close>, with a log of what was requested and
    heard; and \<open>session.go\<close> on top of it. \<open>Adapter_Sample\<close> is a conversation on concrete data.
  \<^item> \<open>Collection\<close>: \<open>adapters/collection.go\<close>, \<open>monitoring/collector.go\<close>, \<open>collection_store.go\<close>, \<open>id.go\<close>,
    \<open>lifecycle.go\<close> and \<open>certificateprojection/projector.go\<close>. The collector's record is written by the hook
    of the ingestion; \<open>commit_hook\<close> is interpreted on it. \<open>Collection_Sample\<close> is a failed collection.
  \<^item> \<open>Adapter_Instances\<close>: \<open>adapters/repository.go\<close>, the table of adapter instances, and \<open>policy.go\<close>, the restart
    delay with the rounding of its product of doubles.
  \<^item> \<open>Supervisor\<close>: \<open>adapters/supervisor.go\<close>; \<open>Run\<close> as the transition system \<open>sup_step\<close>, whose phases are the points
    where the goroutine waits. The locale \<open>observer\<close> is what it relies on from its life-cycle observer; it is
    interpreted on the audit of \<open>Collection\<close> and on no observer. \<open>Supervisor_Sample\<close> is a restart on concrete data.
  \<^item> \<open>Integration_Config\<close>: \<open>monitoring/integration_config.go\<close>; \<open>Config_Sample\<close> is an update on concrete data.
  \<^item> \<open>Signal_Journal\<close>: \<open>Append\<close>, \<open>Claim\<close>, \<open>MarkProcessed\<close>, \<open>Fail\<close> and runs of them.
  \<^item> \<open>Admin_Ops\<close>: audit events and receipts; the locale \<open>receipt_store\<close> is interpreted for
    administrative receipts and, in \<open>Incident_Workflow\<close>, for operator actions.
  \<^item> \<open>Incident_Rules\<close>: validation, create, replace, reads, preview and precedence.
  \<^item> \<open>Incident_Evaluator\<close>, \<open>Incident_Workflow\<close>, \<open>Incident_Engine\<close>: the evaluator, the operator
    actions, and the step relation \<open>engine_step\<close> in which journal, evaluator, rule administration,
    operators and delivery interleave. The locale \<open>intent_writer\<close> is what the evaluator relies on
    from the outbox; \<open>Notification_Outbox\<close> interprets it on the code's writer.
  \<^item> \<open>Notification_Outbox\<close>, \<open>Notification_Worker\<close>, \<open>Notification_Delivery\<close>: fan-out of an event to
    destinations, claim and completion under a token, expired claims, retries.
  \<^item> \<open>Suppressions\<close>, \<open>Suppression_Life\<close>: \<open>suppressions/service.go\<close> and \<open>worker.go\<close>, and the life of
    windows and silences under every interleaving of the service and the expiry worker.
  \<^item> \<open>Scheduler\<close>, \<open>Coordinator\<close>: the goroutines of \<open>scheduler/scheduler.go\<close> and \<open>coordinator.go\<close> as
    interleaving transition systems, and the FNV jitter of \<open>jitter.go\<close> on 64-bit words.
  \<^item> \<open>Password\<close>, \<open>Login_Limiter\<close>: \<open>auth/password.go\<close> with base64, \<open>strings.Split\<close> and \<open>%d\<close> scanning
    written out, and \<open>auth/limiter.go\<close>.
  \<^item> \<open>Tx_World\<close>: the locale \<open>world_relation\<close>, which extends \<open>tx_relation\<close> to relations that see the
    identifier supply and the clock as well as the tables.
  \<^item> \<open>Auth\<close>: \<open>auth/service.go\<close> and \<open>types.go\<close>, every operation. \<open>Login\<close> is its two stages in sequence,
    \<open>login_check\<close> and \<open>createSession\<close>, because the source commits between them.
  \<^item> \<open>Auth_Life\<close>, \<open>Auth_Safety\<close>, \<open>Auth_Login\<close>: the step relation \<open>auth_step\<close>, in which operations,
    login stages and unrelated work interleave, and what holds along its runs; \<open>Auth_Sample\<close> is a
    small world on which the properties are applied.
  \<^item> \<open>Auth_Lockout\<close>: \<open>login_step\<close>, which also separates the read of the account from the decision on it,
    and how long a lockout lasts along its runs.

  \<^bold>\<open>How the code corresponds to definitions.\<close> A struct is a record with the source's field names
  behind a short prefix, an enumeration a datatype with the source's constants, an operation a
  definition of the same name. A method that talks to the database is a computation of type
  \<open>'a tx\<close>: it reads and writes \<open>world\<close>, which holds the tables, the fault schedule, the supply of
  \<open>gen_random_uuid()\<close>, the database clock and the hub. Errors are values of \<open>err\<close>. Transactions are
  serial; a row locked by another session is a predicate argument where the source says
  \<open>SKIP LOCKED\<close>, and the order of rows a statement leaves open is a function argument
  (\<open>arrange\<close>, \<open>returning\<close>).

  \<^bold>\<open>Parameters.\<close> \<open>runtime\<close> stands for \<open>json.Marshal\<close>, \<open>sha256.Sum256\<close>, \<open>net.ParseIP\<close> and \<open>%q\<close>;
  delivery drivers, the secret source and random numbers are fields of the worker options; the
  jitter, the executor of a collection, and the lister and runner of the coordinator are arguments
  or moves of the environment. \<open>argon2\<close> stands for the Argon2id key derivation, and \<open>auth_env\<close> for
  SHA-256, the Unicode classes and case folding, PostgreSQL's \<open>lower\<close> and mail address parsing; random
  bytes are arguments, \<open>None\<close> being a failed read. \<open>ingest_env\<close> stands for \<open>encoding/json\<close> on the values
  of a batch, the normal form of \<open>jsonb\<close> and \<open>net/url\<close>; \<open>wire\<close> and \<open>collection_env\<close> stand for strict JSON decoding
  of envelopes, manifests and payloads and for \<open>time.Parse\<close>; \<open>columns\<close> and \<open>config_env\<close> for JSON of
  configurations. The answers of an adapter and the clock
  readings of a collection are arguments; request identifiers, 122 random bits, are taken to be new.
  Properties hold for every value of these parameters unless a
  hypothesis is named.

  \<^bold>\<open>What the lemmas show.\<close> Per component: its invariant and that each operation keeps it under
  every fault schedule; the exact effect of each operation on success and that an error changes
  nothing; idempotency through receipts; bounds of delays and timeouts at their width. Across
  components: current health is the evaluation of the newest observation of each check and every
  observation has its signal, every collection is recorded once and in the transaction that stored its
  batch, an answer of an adapter reaches the request it belongs to and a failure of its process is
  final, a failed adapter is not started before its back-off has passed, no update of a configuration is
  lost and the audit trail of configurations holds no value, no diagnostics show a secret, at most one unresolved incident per fingerprint, a resolved incident stays resolved
  and the timeline only grows, a signal takes effect once, debouncing implements counting of
  streaks, no delivery is recorded twice, the end of a maintenance window is signalled, a pass of the
  expiry worker expires exactly the rows that have been due longest, a change of
  privileges ends the sessions that existed, a lockout lasts until its end, an enabled administrator
  remains, the lines of the adapter protocol are read as they were written, an operator's action is
  refused with a workflow error only for the reason of that error, and every loop over due work ends.

  \<^bold>\<open>Bounds.\<close> \<open>expireWindows\<close> recurses on the source's own bound of 50 steps; \<open>processDue\<close> recurses on
  the batch limit and is shown to stop by itself; a worker's busy loop is shown to find work at
  most seven times per intent. \<open>sweep\<close>, the loop over full freshness passes, has fuel, and twice the
  rows of current health plus one is shown to be enough. No other fuel is used: the polling loops (\<open>Run\<close>) are represented by
  the step relations, which allow any number of passes in any order.

  \<^bold>\<open>Not modelled.\<close> HTTP routing and JSON encoding (\<open>api/\<close>), the file secret store and the operating system side of a child process,
  the adapters themselves (\<open>proxmox/\<close>, \<open>webcheck/\<close>, \<open>sampleadapter/\<close>), read models (\<open>monitoring/read_service.go\<close>,
  \<open>hypervisor/\<close>, \<open>webpages/\<close>, \<open>certificates/\<close>), configuration parsing, start-up wiring, metrics and
  migrations. These are input and output around the state above, or reads that change no state; the
  typed configuration writers of \<open>hypervisor/\<close> and \<open>webpages/\<close> change only integrations of their own
  types, which the configuration service refuses to update.
\<close>

end
